(* ===== verification/Prelude.thy ===== *)
theory Prelude
  imports Main
    "HOL-Library.Word"
    "HOL-Library.Multiset"
    "HOL-Library.List_Lexorder"
    "HOL-Library.Char_ord"
    "HOL-Library.Product_Lexorder"
    "HOL-Library.Option_ord"
begin

text \<open>
  The shared prelude: the machine integers and strings of the Rust source, the handful of
  standard-library operations the components use (\<open>Iterator::find\<close> by a key, \<open>iter_mut().find\<close>,
  \<open>Vec::dedup_by\<close>, \<open>str::starts_with\<close>, \<open>eq_ignore_ascii_case\<close>, decimal formatting and parsing), and
  the generic lemmas about them. A Rust \<open>String\<close> is a sequence of UTF-8 bytes and HOL's \<open>char\<close> is a
  byte, so \<open>string\<close> is the byte sequence and the lexicographic order of \<open>List_Lexorder\<close> over
  \<open>Char_ord\<close> is Rust's \<open>Ord\<close> on \<open>str\<close>.
\<close>

section \<open>Types\<close>

type_synonym u32 = "32 word"
type_synonym i64 = "64 word"

named_theorems lookup_simps \<open>rewriting lookups through list operations\<close>
named_theorems wf_intros \<open>introduction rules for well-formedness\<close>

section \<open>Standard-library operations\<close>

definition find_by :: "('a \<Rightarrow> 'k) \<Rightarrow> 'k \<Rightarrow> 'a list \<Rightarrow> 'a option" where
  "find_by key k xs = List.find (\<lambda>x. key x = k) xs"

fun update_first :: "('a \<Rightarrow> bool) \<Rightarrow> ('a \<Rightarrow> 'a) \<Rightarrow> 'a list \<Rightarrow> 'a list" where
  "update_first P f [] = []"
| "update_first P f (x # xs) = (if P x then f x # xs else x # update_first P f xs)"

fun dedup_by :: "('a \<Rightarrow> 'a \<Rightarrow> bool) \<Rightarrow> 'a list \<Rightarrow> 'a list" where
  "dedup_by same [] = []"
| "dedup_by same [x] = [x]"
| "dedup_by same (x # y # xs) =
     (if same y x then dedup_by same (x # xs) else x # dedup_by same (y # xs))"

definition swap_str :: "string \<Rightarrow> string \<Rightarrow> string \<Rightarrow> string" where
  "swap_str old new s = (if s = old then new else s)"

definition starts_with :: "string \<Rightarrow> string \<Rightarrow> bool" where
  "starts_with s p \<longleftrightarrow> take (length p) s = p"

definition ends_with :: "string \<Rightarrow> string \<Rightarrow> bool" where
  "ends_with s p \<longleftrightarrow> length p \<le> length s \<and> drop (length s - length p) s = p"

definition strip_prefix :: "string \<Rightarrow> string \<Rightarrow> string option" where
  "strip_prefix p s = (if starts_with s p then Some (drop (length p) s) else None)"

definition strip_suffix :: "string \<Rightarrow> string \<Rightarrow> string option" where
  "strip_suffix p s = (if ends_with s p then Some (take (length s - length p) s) else None)"

definition ascii_lower :: "char \<Rightarrow> char" where
  "ascii_lower c =
     (if (65::nat) \<le> of_char c \<and> of_char c \<le> (90::nat) then char_of (of_char c + (32::nat)) else c)"

definition eq_ignore_ascii_case :: "string \<Rightarrow> string \<Rightarrow> bool" where
  "eq_ignore_ascii_case a b \<longleftrightarrow> map ascii_lower a = map ascii_lower b"

definition is_ascii_digit :: "char \<Rightarrow> bool" where
  "is_ascii_digit c \<longleftrightarrow> (48::nat) \<le> of_char c \<and> of_char c \<le> (57::nat)"

definition digit_char :: "nat \<Rightarrow> char" where
  "digit_char d = char_of (48 + d)"

definition digit_val :: "char \<Rightarrow> nat" where
  "digit_val c = of_char c - 48"

text \<open>Decimal formatting of an unsigned integer (\<open>format!("{n}")\<close>).\<close>

fun show_nat :: "nat \<Rightarrow> string" where
  "show_nat n = (if n < 10 then [digit_char n] else show_nat (n div 10) @ [digit_char (n mod 10)])"

declare show_nat.simps [simp del]

text \<open>\<open>format!("{n:04}")\<close>: zero-padded to four digits.\<close>

definition show_nat04 :: "nat \<Rightarrow> string" where
  "show_nat04 n = replicate (4 - length (show_nat n)) (CHR ''0'') @ show_nat n"

text \<open>
  \<open>str::parse::<u32>\<close>: an optional leading \<open>+\<close>, then at least one decimal digit, the value below
  \<open>2 ^ 32\<close>.
\<close>

definition digits_value :: "string \<Rightarrow> nat" where
  "digits_value ds = foldl (\<lambda>acc c. acc * 10 + digit_val c) 0 ds"

definition parse_u32 :: "string \<Rightarrow> u32 option" where
  "parse_u32 s =
     (let ds = (case s of c # cs \<Rightarrow> if c = CHR ''+'' then cs else s | [] \<Rightarrow> s)
      in if ds \<noteq> [] \<and> list_all is_ascii_digit ds \<and> digits_value ds < 2 ^ 32
         then Some (of_nat (digits_value ds)) else None)"

text \<open>\<open>slice::join\<close> and \<open>str::split\<close> with a separator.\<close>

fun join_str :: "string \<Rightarrow> string list \<Rightarrow> string" where
  "join_str sep [] = []"
| "join_str sep [x] = x"
| "join_str sep (x # y # xs) = x @ sep @ join_str sep (y # xs)"

section \<open>Lookup by key\<close>

lemma find_by_simps [simp]:
  "find_by key k [] = None"
  "find_by key k (x # xs) = (if key x = k then Some x else find_by key k xs)"
  by (simp_all add: find_by_def)

lemma find_by_SomeD: "find_by key k xs = Some x \<Longrightarrow> x \<in> set xs \<and> key x = k"
  by (induction xs) (auto split: if_splits)

lemma find_by_None_iff: "find_by key k xs = None \<longleftrightarrow> k \<notin> key ` set xs"
  by (induction xs) auto

lemma find_by_in: "distinct (map key xs) \<Longrightarrow> x \<in> set xs \<Longrightarrow> find_by key (key x) xs = Some x"
  by (induction xs) auto

lemma find_by_eq_Some:
  "distinct (map key xs) \<Longrightarrow> find_by key k xs = Some x \<longleftrightarrow> x \<in> set xs \<and> key x = k"
  by (auto dest: find_by_SomeD intro: find_by_in)

lemma find_by_append [lookup_simps]:
  "find_by key k (xs @ ys) = (case find_by key k xs of None \<Rightarrow> find_by key k ys | Some x \<Rightarrow> Some x)"
  by (induction xs) auto

lemma find_by_map [lookup_simps]:
  "(\<And>x. key (f x) = key x) \<Longrightarrow> find_by key k (map f xs) = map_option f (find_by key k xs)"
  by (induction xs) auto

lemma find_by_filter_key:
  "find_by key k (filter (\<lambda>x. P (key x)) xs) = (if P k then find_by key k xs else None)"
  by (induction xs) auto

lemma find_by_filter_distinct:
  "distinct (map key xs) \<Longrightarrow>
   find_by key k (filter P xs) = (case find_by key k xs of Some x \<Rightarrow> if P x then Some x else None | None \<Rightarrow> None)"
proof (induction xs)
  case (Cons x xs)
  then have "key x = k \<Longrightarrow> find_by key k xs = None" by (auto simp: find_by_None_iff)
  with Cons show ?case by auto
qed simp

lemma find_by_set_eq:
  assumes "distinct (map key xs)" "distinct (map key ys)" "set xs = set ys"
  shows "find_by key k xs = find_by key k ys"
proof (cases "find_by key k xs")
  case None
  then have "find_by key k ys = None" using assms(3) by (simp add: find_by_None_iff)
  with None show ?thesis by simp
next
  case (Some x)
  then have "find_by key k ys = Some x"
    using assms by (simp add: find_by_eq_Some)
  with Some show ?thesis by simp
qed

lemma distinct_map_sort_key [simp]:
  fixes f :: "'a \<Rightarrow> 'b::linorder"
  shows "distinct (map key (sort_key f xs)) = distinct (map key xs)"
proof -
  have "mset (map key (sort_key f xs)) = mset (map key xs)" by simp
  then show ?thesis by (rule mset_eq_imp_distinct_iff)
qed

lemma find_by_sort_key [lookup_simps]:
  fixes f :: "'a \<Rightarrow> 'b::linorder"
  assumes "distinct (map key xs)"
  shows "find_by key k (sort_key f xs) = find_by key k xs"
  by (rule find_by_set_eq) (use assms in auto)

lemma distinct_map_filter_key: "distinct (map key xs) \<Longrightarrow> distinct (map key (filter P xs))"
  by (rule distinct_map_filter)

text \<open>Two lists sorted by a key without repeats are equal as soon as their lookups agree.\<close>

lemma distinct_sorted_key_unique:
  fixes key :: "'a \<Rightarrow> 'k::linorder"
  assumes "sorted (map key xs)" "distinct (map key xs)"
    and "sorted (map key ys)" "distinct (map key ys)"
    and "\<And>k. find_by key k xs = find_by key k ys"
  shows "xs = ys"
proof -
  have sets: "set xs = set ys"
  proof (rule set_eqI)
    fix x
    have "x \<in> set xs \<longleftrightarrow> find_by key (key x) xs = Some x"
      using assms(2) by (simp add: find_by_eq_Some)
    also have "\<dots> \<longleftrightarrow> x \<in> set ys" using assms(4,5) by (simp add: find_by_eq_Some)
    finally show "x \<in> set xs \<longleftrightarrow> x \<in> set ys" .
  qed
  then have "set (map key xs) = set (map key ys)" by simp
  then have maps: "map key xs = map key ys"
    using assms(1-4) by (simp add: sorted_distinct_set_unique)
  have "inj_on key (set xs)" using assms(2) by (simp add: distinct_map)
  with maps sets show ?thesis by (auto intro: map_inj_on)
qed

lemma update_first_none: "(\<forall>x\<in>set xs. \<not> P x) \<Longrightarrow> update_first P f xs = xs"
  by (induction xs) auto

lemma update_first_map:
  assumes "\<And>x y. x \<in> set xs \<Longrightarrow> y \<in> set xs \<Longrightarrow> P x \<Longrightarrow> P y \<Longrightarrow> key x = key y"
    and "distinct (map key xs)"
  shows "update_first P f xs = map (\<lambda>x. if P x then f x else x) xs"
  using assms
proof (induction xs)
  case (Cons x xs)
  show ?case
  proof (cases "P x")
    case True
    have "\<forall>y\<in>set xs. \<not> P y"
      using Cons.prems True by (auto simp: image_iff)
    then have "map (\<lambda>x. if P x then f x else x) xs = xs" by (induction xs) auto
    with True show ?thesis by simp
  next
    case False
    with Cons show ?thesis by simp
  qed
qed simp

lemma map_key_update_first [lookup_simps]:
  "(\<And>x. P x \<Longrightarrow> key (f x) = key x) \<Longrightarrow> map key (update_first P f xs) = map key xs"
  by (induction xs) auto

section \<open>Strings and numbers\<close>

lemma swap_str_simps [simp]:
  "swap_str old new old = new"
  "s \<noteq> old \<Longrightarrow> swap_str old new s = s"
  by (simp_all add: swap_str_def)

lemma swap_str_roundtrip: "s \<noteq> new \<Longrightarrow> swap_str new old (swap_str old new s) = s"
  by (simp add: swap_str_def)

lemma swap_str_inj: "a \<noteq> new \<Longrightarrow> b \<noteq> new \<Longrightarrow> swap_str old new a = swap_str old new b \<longleftrightarrow> a = b"
  by (auto simp: swap_str_def)

lemma eq_ignore_ascii_case_refl [simp]: "eq_ignore_ascii_case s s"
  by (simp add: eq_ignore_ascii_case_def)

lemma eq_ignore_ascii_case_sym: "eq_ignore_ascii_case a b \<longleftrightarrow> eq_ignore_ascii_case b a"
  by (auto simp: eq_ignore_ascii_case_def)

lemma of_char_digit: "d < 10 \<Longrightarrow> of_char (digit_char d) = 48 + d"
  by (simp add: digit_char_def)

lemma digit_val_digit_char [simp]: "d < 10 \<Longrightarrow> digit_val (digit_char d) = d"
  by (simp add: digit_val_def of_char_digit)

lemma is_ascii_digit_digit_char [simp]: "d < 10 \<Longrightarrow> is_ascii_digit (digit_char d)"
  by (simp add: is_ascii_digit_def of_char_digit)

lemma digits_value_snoc: "digits_value (ds @ [c]) = digits_value ds * 10 + digit_val c"
  by (simp add: digits_value_def)

lemma digits_value_show_nat: "digits_value (show_nat n) = n"
proof (induction n rule: show_nat.induct)
  case (1 n)
  show ?case
  proof (cases "n < 10")
    case True
    then show ?thesis by (simp add: show_nat.simps [of n] digits_value_def)
  next
    case False
    with 1 show ?thesis by (simp add: show_nat.simps [of n] digits_value_snoc)
  qed
qed

lemma show_nat_digits: "list_all is_ascii_digit (show_nat n)"
proof (induction n rule: show_nat.induct)
  case (1 n)
  then show ?case by (cases "n < 10") (simp_all add: show_nat.simps [of n])
qed

lemma show_nat_nonempty: "show_nat n \<noteq> []"
  by (subst show_nat.simps) simp

lemma is_ascii_digit_not_plus: "is_ascii_digit c \<Longrightarrow> c \<noteq> CHR ''+''"
  by (auto simp: is_ascii_digit_def)

lemma parse_u32_show: "parse_u32 (show_nat (unat w)) = Some w"
proof -
  obtain c cs where s: "show_nat (unat w) = c # cs"
    using show_nat_nonempty by (metis neq_Nil_conv)
  have "c \<noteq> CHR ''+''"
    using show_nat_digits [of "unat w"] s by (simp add: is_ascii_digit_not_plus)
  moreover have "digits_value (c # cs) = unat w"
    using s digits_value_show_nat by metis
  moreover have "list_all is_ascii_digit (c # cs)"
    using s show_nat_digits by metis
  moreover have "unat w < 2 ^ 32" using unsigned_less [of w] by simp
  ultimately show ?thesis by (simp add: parse_u32_def s)
qed

text \<open>For evaluation: the bound is compared as an integer, whose numerals are binary.\<close>

lemma parse_u32_code [code]:
  "parse_u32 s =
     (let ds = (case s of c # cs \<Rightarrow> if c = CHR ''+'' then cs else s | [] \<Rightarrow> s); v = int (digits_value ds)
      in if ds \<noteq> [] \<and> list_all is_ascii_digit ds \<and> v < 4294967296 then Some (word_of_int v) else None)"
proof -
  have "int n < 4294967296 \<longleftrightarrow> n < 2 ^ 32" for n by simp
  then show ?thesis by (simp add: parse_u32_def Let_def)
qed

lemma starts_with_append [simp]: "starts_with (p @ s) p"
  by (simp add: starts_with_def)

lemma strip_prefix_append [simp]: "strip_prefix p (p @ s) = Some s"
  by (simp add: strip_prefix_def)

lemma strip_suffix_append [simp]: "strip_suffix p (s @ p) = Some s"
  by (simp add: strip_suffix_def ends_with_def)

section \<open>Sorting and removing repeats\<close>

lemma option_eqI: "(\<And>w. a = Some w \<longleftrightarrow> b = Some w) \<Longrightarrow> a = b"
  by (cases a; cases b) auto

lemma strict_sorted_distinct: "sorted_wrt (<) (ks :: 'k::linorder list) \<Longrightarrow> sorted ks \<and> distinct ks"
  by (simp add: strict_sorted_iff)

lemma set_dedup_by: "set (dedup_by same xs) \<subseteq> set xs"
  by (induction same xs rule: dedup_by.induct) auto

lemma dedup_by_key_hd: "xs \<noteq> [] \<Longrightarrow> \<exists>ys. dedup_by (\<lambda>a b. key a = key b) xs = hd xs # ys"
  by (induction "\<lambda>a b. key a = key b" xs rule: dedup_by.induct) auto

lemma dedup_by_key_keys: "key ` set (dedup_by (\<lambda>a b. key a = key b) xs) = key ` set xs"
proof (induction "\<lambda>a b. key a = key b" xs rule: dedup_by.induct)
  case (3 x y xs)
  then show ?case by (cases "key y = key x") auto
qed auto

lemma dedup_by_key_sorted:
  fixes key :: "'a \<Rightarrow> 'k::linorder"
  assumes "sorted (map key xs)"
  shows "sorted_wrt (<) (map key (dedup_by (\<lambda>a b. key a = key b) xs))"
  using assms
proof (induction "\<lambda>a b. key a = key b" xs rule: dedup_by.induct)
  case (3 x y xs)
  show ?case
  proof (cases "key y = key x")
    case True
    with 3 show ?thesis by simp
  next
    case False
    with 3(3) have less: "key x < key z" if "z \<in> set (y # xs)" for z
      using that by auto
    have "key x < k" if "k \<in> key ` set (dedup_by (\<lambda>a b. key a = key b) (y # xs))" for k
      using that less unfolding dedup_by_key_keys by auto
    moreover have "sorted_wrt (<) (map key (dedup_by (\<lambda>a b. key a = key b) (y # xs)))"
      using 3 False by simp
    ultimately show ?thesis using False by simp
  qed
qed simp_all

text \<open>With the entries of one key contiguous and ordered, the first of each key is kept.\<close>

lemma dedup_by_key_least:
  fixes key :: "'a \<Rightarrow> 'k::linorder" and ord :: "'a \<Rightarrow> 'o::linorder"
  assumes "sorted (map (\<lambda>x. (key x, ord x)) xs)"
    and "x \<in> set (dedup_by (\<lambda>a b. key a = key b) xs)" "y \<in> set xs" "key y = key x"
  shows "ord x \<le> ord y"
  using assms
proof (induction "\<lambda>a b. key a = key b" xs arbitrary: y rule: dedup_by.induct)
  case (3 a b xs)
  show ?case
  proof (cases "key b = key a")
    case True
    then have ab: "ord a \<le> ord b" using 3(3) by auto
    have x: "x \<in> set (dedup_by (\<lambda>a b. key a = key b) (a # xs))" using 3(4) True by simp
    have s: "sorted (map (\<lambda>x. (key x, ord x)) (a # xs))" using 3(3) by auto
    show ?thesis
    proof (cases "y = b")
      case True
      have "ord x \<le> ord a" using 3(1) [of a] \<open>key b = key a\<close> s x 3(6) True by simp
      with ab True show ?thesis by simp
    next
      case False
      then show ?thesis using 3(1) \<open>key b = key a\<close> s x 3(5,6) by simp
    qed
  next
    case False
    show ?thesis
    proof (cases "x = a")
      case True
      then show ?thesis using 3(3,5,6) by auto
    next
      case xa: False
      then have x: "x \<in> set (dedup_by (\<lambda>a b. key a = key b) (b # xs))" using 3(4) False by simp
      then have xb: "x \<in> set (b # xs)" using set_dedup_by by fast
      have s: "sorted (map (\<lambda>x. (key x, ord x)) (b # xs))" using 3(3) by simp
      have "y \<noteq> a"
      proof
        assume "y = a"
        then have "key x = key a" using 3(6) by simp
        moreover have "key a \<le> key b" "key b \<le> key x" using 3(3) xb by auto
        ultimately show False using False by simp
      qed
      then show ?thesis using 3(2) False s x 3(5,6) by simp
    qed
  qed
qed auto

lemma sort_key_perm:
  fixes f :: "'a \<Rightarrow> 'k::linorder"
  assumes "mset xs = mset ys" "inj_on f (set xs)"
  shows "sort_key f xs = sort_key f ys"
proof (rule properties_for_sort_key)
  show "mset (sort_key f ys) = mset xs" using assms(1) by simp
  have inj: "inj_on f (set ys)" using assms mset_eq_setD by metis
  fix k assume k: "k \<in> set (sort_key f ys)"
  have same: "filter (\<lambda>x. f k = f x) zs = replicate (count (mset zs) k) k" if "mset zs = mset ys" for zs
  proof -
    have "set zs = set ys" using that by (rule mset_eq_setD)
    then have "filter (\<lambda>x. f k = f x) zs = filter (\<lambda>x. x = k) zs"
      using inj k by (intro filter_cong) (auto dest: inj_onD)
    also have "\<dots> = replicate (count (mset zs) k) k"
      by (induction zs) auto
    finally show ?thesis .
  qed
  show "filter (\<lambda>x. f k = f x) (sort_key f ys) = filter (\<lambda>x. f k = f x) xs"
    using same [of "sort_key f ys"] same [of xs] assms(1) by simp
qed simp

lemma find_by_update_first_key:
  assumes "key v = k"
  shows "find_by key k' (update_first (\<lambda>x. key x = k) (\<lambda>_. v) xs) =
     (if k' = k \<and> find_by key k xs \<noteq> None then Some v else find_by key k' xs)"
  by (induction xs) (use assms in auto)

lemma map_key_replace: "key v = k \<Longrightarrow> map key (update_first (\<lambda>x. key x = k) (\<lambda>_. v) xs) = map key xs"
  by (induction xs) auto

lemma find_by_id: "find_by (\<lambda>k. k) k ks = (if k \<in> set ks then Some k else None)"
  by (induction ks) auto

section \<open>Loops over keyed items\<close>

text \<open>
  A loop over items with distinct keys, each of which changes only what its own key denotes: what
  a key denotes after the loop is what its item makes of it. The three-way merge and the phases of
  a schema diff are such loops.
\<close>

locale keyed_loop =
  fixes look :: "'s \<Rightarrow> 'k \<Rightarrow> 'v" and xkey :: "'x \<Rightarrow> 'k" and step :: "'s \<Rightarrow> 'x \<Rightarrow> 's"
    and eff :: "'x \<Rightarrow> 'v \<Rightarrow> 'v" and ok :: "'x \<Rightarrow> bool"
  assumes step_look: "ok x \<Longrightarrow> look (step s x) k = (if k = xkey x then eff x (look s k) else look s k)"
begin

lemma fold_look_other:
  "\<forall>x\<in>set xs. ok x \<Longrightarrow> k \<notin> xkey ` set xs \<Longrightarrow> look (foldl step s xs) k = look s k"
  by (induction xs arbitrary: s) (auto simp: step_look)

lemma fold_look:
  assumes "\<forall>x\<in>set xs. ok x" "distinct (map xkey xs)"
  shows "look (foldl step s xs) k =
     (case find_by xkey k xs of None \<Rightarrow> look s k | Some x \<Rightarrow> eff x (look s k))"
  using assms
proof (induction xs arbitrary: s)
  case (Cons x xs)
  show ?case
  proof (cases "k = xkey x")
    case True
    have "look (foldl step (step s x) xs) k = look (step s x) k"
      by (rule fold_look_other) (use Cons.prems True in auto)
    with True Cons.prems(1) show ?thesis by (simp add: step_look)
  next
    case False
    then have "look (step s x) k = look s k" using Cons.prems(1) by (simp add: step_look)
    with False Cons show ?thesis by (cases "find_by xkey k xs") simp_all
  qed
qed simp

end

section \<open>More on updates and renames\<close>

lemma find_by_remove [simp]:
  "find_by key k (filter (\<lambda>x. key x \<noteq> k') xs) = (if k = k' then None else find_by key k xs)"
  by (induction xs) auto

lemma foldl_keeps: "P s \<Longrightarrow> (\<And>s x. P s \<Longrightarrow> P (step s x)) \<Longrightarrow> P (foldl step s xs)"
  by (induction xs arbitrary: s) auto

lemma update_first_replay:
  "(\<And>x. f (f x) = f x) \<Longrightarrow> (\<And>x. P (f x) = P x) \<Longrightarrow>
   update_first P f (update_first P f xs) = update_first P f xs"
  by (induction xs) auto

lemma sort_key_map_keep:
  fixes key :: "'a \<Rightarrow> 'k::linorder"
  assumes "\<And>x. key (g x) = key x"
  shows "sort_key key (map g xs) = map g (sort_key key xs)"
proof -
  have "insort_key key (g x) (map g ys) = map g (insort_key key x ys)" for x ys
    by (induction ys) (auto simp: assms)
  then show ?thesis by (induction xs) simp_all
qed

lemma update_first_sort_key:
  fixes key :: "'a \<Rightarrow> 'k::linorder"
  assumes "distinct (map key xs)" "\<And>x. key (f x) = key x"
  shows "update_first (\<lambda>x. key x = k) f (sort_key key xs) = sort_key key (update_first (\<lambda>x. key x = k) f xs)"
proof -
  let ?g = "\<lambda>x. if key x = k then f x else x"
  have "update_first (\<lambda>x. key x = k) f ys = map ?g ys" if "distinct (map key ys)" for ys
    by (rule update_first_map [where key = key]) (use that in auto)
  moreover have "sort_key key (map ?g xs) = map ?g (sort_key key xs)"
    by (rule sort_key_map_keep) (simp add: assms(2))
  ultimately show ?thesis using assms by simp
qed

lemma find_none: "(\<And>x. x \<in> set xs \<Longrightarrow> \<not> P x) \<Longrightarrow> List.find P xs = None"
  by (auto simp: find_None_iff)

lemma distinct_swap:
  "distinct (map key xs) \<Longrightarrow> new \<notin> key ` set xs \<Longrightarrow> distinct (map (\<lambda>x. swap_str old new (key x)) xs)"
  by (induction xs) (auto simp: swap_str_def image_iff split: if_splits)

lemma distinct_rename_first:
  fixes key :: "'a \<Rightarrow> string"
  assumes "distinct (map key xs)" "new \<notin> key ` set xs" "\<And>x. key (f x) = new"
  shows "distinct (map key (update_first (\<lambda>x. key x = old) f xs))"
proof -
  have "map key (update_first (\<lambda>x. key x = old) f xs) = map (\<lambda>x. swap_str old new (key x)) xs"
    by (subst update_first_map [where key = key]) (auto simp: assms(1,3) swap_str_def)
  then show ?thesis using distinct_swap [OF assms(1,2)] by simp
qed

end
