(* ===== verification/Schema.thy ===== *)
theory Schema
  imports Prelude
begin

text \<open>
  The model metadata of \<open>crates/rustango/src/core/\<close>: the field types (\<open>field_type.rs\<close>) and the
  schema descriptors that \<open>derive(Model)\<close> registers (\<open>schema.rs\<close>). A descriptor is a record with
  the fields of the Rust struct; \<open>model_schema\<close> keeps the fields the migration engine reads and
  leaves out the ones only the admin, the permission checks and the query layer use. The registry
  that the \<open>inventory\<close> crate collects at link time is not code of this repository: every operation
  that iterates it takes the list of its entries as an argument.
\<close>

section \<open>Field types\<close>

datatype range_elem = Range_Int | Range_BigInt | Range_Numeric | Range_Date | Range_DateTime

datatype array_elem = Array_Text | Array_Int | Array_BigInt

datatype field_type =
    I16 | I32 | I64 | F32 | F64 | Bool | String | DateTime | Date | Uuid | Json | Decimal
  | Binary | Time | Array array_elem | Range range_elem | HStore | Vector u32 | Geometry u32

fun pg_range_type :: "range_elem \<Rightarrow> string" where
  "pg_range_type Range_Int = ''int4range''"
| "pg_range_type Range_BigInt = ''int8range''"
| "pg_range_type Range_Numeric = ''numrange''"
| "pg_range_type Range_Date = ''daterange''"
| "pg_range_type Range_DateTime = ''tstzrange''"

fun pg_element_type :: "array_elem \<Rightarrow> string" where
  "pg_element_type Array_Text = ''text''"
| "pg_element_type Array_Int = ''integer''"
| "pg_element_type Array_BigInt = ''bigint''"

section \<open>Relations, constraints and indexes\<close>

datatype relation = Fk string string | O2O string string

datatype on_delete_action = Cascade | Restrict | SetNull | SetDefault | NoAction

fun on_delete_as_sql :: "on_delete_action \<Rightarrow> string" where
  "on_delete_as_sql Cascade = ''CASCADE''"
| "on_delete_as_sql Restrict = ''RESTRICT''"
| "on_delete_as_sql SetNull = ''SET NULL''"
| "on_delete_as_sql SetDefault = ''SET DEFAULT''"
| "on_delete_as_sql NoAction = ''NO ACTION''"

datatype index_method = BTree | Gin | Gist | Brin | SpGist | Hash | Bloom

fun index_method_as_str :: "index_method \<Rightarrow> string" where
  "index_method_as_str BTree = ''btree''"
| "index_method_as_str Gin = ''gin''"
| "index_method_as_str Gist = ''gist''"
| "index_method_as_str Brin = ''brin''"
| "index_method_as_str SpGist = ''spgist''"
| "index_method_as_str Hash = ''hash''"
| "index_method_as_str Bloom = ''bloom''"

definition index_method_from_token :: "string \<Rightarrow> index_method" where
  "index_method_from_token s =
     (if s = ''gin'' then Gin
      else if s = ''gist'' then Gist
      else if s = ''brin'' then Brin
      else if s = ''spgist'' then SpGist
      else if s = ''hash'' then Hash
      else if s = ''bloom'' then Bloom
      else BTree)"

fun is_postgres_only :: "index_method \<Rightarrow> bool" where
  "is_postgres_only m \<longleftrightarrow> m \<in> {Gin, Gist, Brin, SpGist, Bloom}"

record composite_fk_relation =
  cr_name :: string
  cr_to :: string
  cr_from :: "string list"
  cr_on :: "string list"

record m2m_relation =
  mr_name :: string
  mr_to :: string
  mr_through :: string
  mr_src_col :: string
  mr_dst_col :: string
  mr_auto_create :: bool

record check_constraint =
  cd_name :: string
  cd_expr :: string

record exclusion_constraint =
  ed_name :: string
  ed_using :: string
  ed_elements :: "(string \<times> string) list"
  ed_where_clause :: "string option"

record index_schema =
  xd_name :: string
  xd_columns :: "string list"
  xd_unique :: bool
  xd_method :: index_method
  xd_where_clause :: "string option"
  xd_include :: "string list"

section \<open>Fields and models\<close>

record field_schema =
  fd_name :: string
  fd_column :: string
  fd_ty :: field_type
  fd_nullable :: bool
  fd_primary_key :: bool
  fd_relation :: "relation option"
  fd_max_length :: "u32 option"
  fd_min :: "i64 option"
  fd_max :: "i64 option"
  fd_default :: "string option"
  fd_auto :: bool
  fd_unique :: bool
  fd_generated_as :: "string option"
  fd_db_comment :: "string option"
  fd_case_insensitive :: bool
  fd_fk_on_delete :: "on_delete_action option"

definition new_field_schema :: "string \<Rightarrow> string \<Rightarrow> field_type \<Rightarrow> field_schema" where
  "new_field_schema name column ty =
     \<lparr>fd_name = name, fd_column = column, fd_ty = ty, fd_nullable = False, fd_primary_key = False,
      fd_relation = None, fd_max_length = None, fd_min = None, fd_max = None, fd_default = None,
      fd_auto = False, fd_unique = False, fd_generated_as = None, fd_db_comment = None,
      fd_case_insensitive = False, fd_fk_on_delete = None\<rparr>"

datatype write_kind = Insert | Update

definition is_serial :: "field_schema \<Rightarrow> bool" where
  "is_serial f \<longleftrightarrow> fd_auto f \<and> fd_ty f \<in> {I16, I32, I64}"

definition is_auto_timestamp :: "field_schema \<Rightarrow> bool" where
  "is_auto_timestamp f \<longleftrightarrow> fd_auto f \<and> \<not> fd_primary_key f \<and> fd_ty f = DateTime"

definition is_rust_side_uuid :: "field_schema \<Rightarrow> bool" where
  "is_rust_side_uuid f \<longleftrightarrow> fd_auto f \<and> fd_ty f = Uuid \<and> fd_default f = None"

definition accepts_input :: "field_schema \<Rightarrow> write_kind \<Rightarrow> bool" where
  "accepts_input f kind \<longleftrightarrow>
     \<not> fd_auto f \<and> fd_generated_as f = None \<and> \<not> (fd_primary_key f \<and> kind = Update)"

datatype model_scope = Registry | Tenant

definition model_scope_from_str :: "string \<Rightarrow> model_scope option" where
  "model_scope_from_str s =
     (if map ascii_lower s = ''registry'' then Some Registry
      else if map ascii_lower s = ''tenant'' then Some Tenant
      else None)"

fun model_scope_as_str :: "model_scope \<Rightarrow> string" where
  "model_scope_as_str Registry = ''registry''"
| "model_scope_as_str Tenant = ''tenant''"

record model_schema =
  md_name :: string
  md_table :: string
  md_fields :: "field_schema list"
  md_app_label :: "string option"
  md_m2m :: "m2m_relation list"
  md_indexes :: "index_schema list"
  md_check_constraints :: "check_constraint list"
  md_exclusion_constraints :: "exclusion_constraint list"
  md_composite_relations :: "composite_fk_relation list"
  md_scope :: model_scope
  md_is_view :: bool
  md_managed :: bool
  md_db_table_comment :: "string option"
  md_proxy :: bool

definition new_model_schema :: "string \<Rightarrow> string \<Rightarrow> model_schema" where
  "new_model_schema name table =
     \<lparr>md_name = name, md_table = table, md_fields = [], md_app_label = None, md_m2m = [],
      md_indexes = [], md_check_constraints = [], md_exclusion_constraints = [],
      md_composite_relations = [], md_scope = Tenant, md_is_view = False, md_managed = True,
      md_db_table_comment = None, md_proxy = False\<rparr>"

definition owns_table :: "model_schema \<Rightarrow> bool" where
  "owns_table m \<longleftrightarrow> \<not> md_is_view m \<and> md_managed m \<and> \<not> md_proxy m"

definition field_by_name :: "model_schema \<Rightarrow> string \<Rightarrow> field_schema option" where
  "field_by_name m name = find_by fd_name name (md_fields m)"

definition field_by_column :: "model_schema \<Rightarrow> string \<Rightarrow> field_schema option" where
  "field_by_column m column = find_by fd_column column (md_fields m)"

definition primary_key_field :: "model_schema \<Rightarrow> field_schema option" where
  "primary_key_field m = List.find fd_primary_key (md_fields m)"

text \<open>\<open>pk_column\<close> is an index loop over the fields, \<open>scalar_fields\<close> every field in order.\<close>

fun pk_column_from :: "field_schema list \<Rightarrow> nat \<Rightarrow> string option" where
  "pk_column_from [] i = None"
| "pk_column_from (f # fs) i = (if fd_primary_key f then Some (fd_column f) else pk_column_from fs (Suc i))"

definition pk_column :: "model_schema \<Rightarrow> string option" where
  "pk_column m = pk_column_from (md_fields m) 0"

definition scalar_fields :: "model_schema \<Rightarrow> field_schema list" where
  "scalar_fields m = md_fields m"

section \<open>The registry\<close>

record model_entry =
  me_schema :: model_schema
  me_module_path :: string

definition entry_table :: "model_entry \<Rightarrow> string" where
  "entry_table e = md_table (me_schema e)"

definition is_framework :: "model_entry \<Rightarrow> bool" where
  "is_framework e \<longleftrightarrow> me_module_path e = ''rustango'' \<or> starts_with (me_module_path e) ''rustango::''"

definition for_table :: "model_entry list \<Rightarrow> string \<Rightarrow> model_entry option" where
  "for_table inventory table = find_by entry_table table inventory"

definition for_schema :: "model_entry list \<Rightarrow> model_schema \<Rightarrow> model_entry option" where
  "for_schema inventory m =
     List.find (\<lambda>e. entry_table e = md_table m \<and> md_name (me_schema e) = md_name m) inventory"

text \<open>\<open>path.split("::")\<close>: the segments between the separators, at least one of them.\<close>

fun split_path_from :: "string \<Rightarrow> string \<Rightarrow> string list" where
  "split_path_from cur [] = [rev cur]"
| "split_path_from cur [c] = [rev (c # cur)]"
| "split_path_from cur (c # d # s) =
     (if c = CHR '':'' \<and> d = CHR '':'' then rev cur # split_path_from [] s
      else split_path_from (c # cur) (d # s))"

definition split_path :: "string \<Rightarrow> string list" where
  "split_path s = split_path_from [] s"

definition infer_app_label_from_module_path :: "string \<Rightarrow> string option" where
  "infer_app_label_from_module_path path =
     (case split_path path of
        crate # candidate # _ \<Rightarrow>
          if candidate \<in> {''models'', ''views'', ''urls'', ''main''} then None else Some candidate
      | _ \<Rightarrow> None)"

definition resolved_app_label :: "model_entry \<Rightarrow> string option" where
  "resolved_app_label e =
     (case md_app_label (me_schema e) of
        Some label \<Rightarrow> Some label
      | None \<Rightarrow> infer_app_label_from_module_path (me_module_path e))"

section \<open>Lemmas\<close>

lemma index_method_roundtrip: "index_method_from_token (index_method_as_str m) = m"
  by (cases m) (simp_all add: index_method_from_token_def)

lemma pk_column_eq: "pk_column m = map_option fd_column (primary_key_field m)"
proof -
  have "pk_column_from fs i = map_option fd_column (List.find fd_primary_key fs)" for fs i
    by (induction fs arbitrary: i) auto
  then show ?thesis by (simp add: pk_column_def primary_key_field_def)
qed

lemma for_table_SomeD: "for_table es t = Some e \<Longrightarrow> e \<in> set es \<and> entry_table e = t"
  unfolding for_table_def by (rule find_by_SomeD)

end
