(* ===== verification/Sql_Ir.thy ===== *)
theory Sql_Ir
  imports Schema
begin

text \<open>
  The query IR the SQL writers walk: \<open>core/value.rs\<close> (\<open>SqlValue\<close>), \<open>core/query.rs\<close> (operators,
  filters, the \<open>WHERE\<close> tree, the write queries) and the part of \<open>core/expr.rs\<close> that needs no
  subquery. A payload whose type comes from another crate (a chrono date, a \<open>serde_json\<close> value, a
  \<open>rust_decimal\<close> number) is of the type parameter \<open>'o\<close>: the writers only move it. A float is its bit
  pattern. Left out of the tree are the nodes that hold a whole query (\<open>Exists\<close>, \<open>NotExists\<close>,
  \<open>InSubquery\<close>, \<open>Subquery\<close>, \<open>AggregateSubquery\<close>), the aggregate, window, function, CASE and JSON-path
  expressions, and \<open>ExprCompare\<close>, which only JOIN and HAVING build.
\<close>

section \<open>Values\<close>

datatype 'o sql_value =
    V_Null | V_I16 "16 word" | V_I32 u32 | V_I64 i64 | V_F32 u32 | V_F64 i64 | V_Bool bool
  | V_String string | V_DateTime 'o | V_Date 'o | V_Uuid "128 word" | V_Json 'o | V_Decimal 'o
  | V_Binary "8 word list" | V_Time 'o | V_List "'o sql_value list" | V_Array "'o sql_value list"
  | V_RangeLiteral string | V_HStore "(string \<times> string option) list" | V_Vector "u32 list"
  | V_Geometry i64 i64 u32

text \<open>\<open>Iterator::find_map\<close>.\<close>

fun find_map :: "('a \<Rightarrow> 'b option) \<Rightarrow> 'a list \<Rightarrow> 'b option" where
  "find_map f [] = None"
| "find_map f (x # xs) = (case f x of Some y \<Rightarrow> Some y | None \<Rightarrow> find_map f xs)"

lemma find_map_cong [fundef_cong]:
  "xs = ys \<Longrightarrow> (\<And>x. x \<in> set ys \<Longrightarrow> f x = g x) \<Longrightarrow> find_map f xs = find_map g ys"
  by (induction xs arbitrary: ys) (auto split: option.splits)

fun pg_only_kind :: "'o sql_value \<Rightarrow> string option" where
  "pg_only_kind (V_Array vs) = Some ''array''"
| "pg_only_kind (V_RangeLiteral s) = Some ''range''"
| "pg_only_kind (V_HStore m) = Some ''hstore''"
| "pg_only_kind (V_Vector fs) = Some ''vector''"
| "pg_only_kind (V_Geometry x y srid) = Some ''geometry''"
| "pg_only_kind (V_List vs) = find_map pg_only_kind vs"
| "pg_only_kind v = None"

fun value_field_type :: "'o sql_value \<Rightarrow> field_type option" where
  "value_field_type (V_I16 n) = Some I16"
| "value_field_type (V_I32 n) = Some I32"
| "value_field_type (V_I64 n) = Some I64"
| "value_field_type (V_F32 n) = Some F32"
| "value_field_type (V_F64 n) = Some F64"
| "value_field_type (V_Bool b) = Some Bool"
| "value_field_type (V_String s) = Some String"
| "value_field_type (V_DateTime x) = Some DateTime"
| "value_field_type (V_Date x) = Some Date"
| "value_field_type (V_Uuid u) = Some Uuid"
| "value_field_type (V_Json j) = Some Json"
| "value_field_type (V_Decimal x) = Some Decimal"
| "value_field_type (V_Binary bs) = Some Binary"
| "value_field_type (V_Time t) = Some Time"
| "value_field_type v = None"

section \<open>Operators\<close>

datatype op =
    Op_Eq | Op_Ne | Op_Lt | Op_Lte | Op_Gt | Op_Gte | Op_In | Op_NotIn
  | Op_Like | Op_NotLike | Op_ILike | Op_NotILike | Op_LikeEscaped | Op_ILikeEscaped
  | Op_Between | Op_NotBetween | Op_IsNull | Op_IsDistinctFrom | Op_IsNotDistinctFrom
  | Op_JsonContains | Op_JsonContainedBy | Op_JsonHasKey | Op_JsonHasAnyKey | Op_JsonHasAllKeys
  | Op_Regex | Op_NotRegex | Op_IRegex | Op_NotIRegex
  | Op_TrigramSimilar | Op_TrigramWordSimilar | Op_Search
  | Op_ArrayContains | Op_ArrayContainedBy | Op_ArrayOverlap
  | Op_RangeContains | Op_RangeContainedBy | Op_RangeOverlap
  | Op_RangeStrictlyLeft | Op_RangeStrictlyRight | Op_RangeAdjacent

datatype bin_op =
    B_Add | B_Sub | B_Mul | B_Div | B_Mod | B_BitAnd | B_BitOr | B_BitXor | B_BitShl | B_BitShr
  | B_L2Distance | B_CosineDistance | B_InnerProduct

definition LIKE_ESCAPE_CHAR :: char where
  "LIKE_ESCAPE_CHAR = CHR ''!''"

definition LIKE_ESCAPE_CLAUSE :: string where
  "LIKE_ESCAPE_CLAUSE = '' ESCAPE '' @ [CHR 39, CHR ''!'', CHR 39]"

fun escape_like :: "string \<Rightarrow> string" where
  "escape_like [] = []"
| "escape_like (ch # rest) =
     (if ch = LIKE_ESCAPE_CHAR \<or> ch = CHR ''%'' \<or> ch = CHR ''_'' then [LIKE_ESCAPE_CHAR, ch] else [ch])
     @ escape_like rest"

section \<open>Expressions and predicates\<close>

datatype 'o expr =
    E_Literal "'o sql_value"
  | E_Column string
  | E_BinOp "'o expr" bin_op "'o expr"
  | E_OuterRef string
  | E_AliasedColumn string string
  | E_Cast "'o expr" field_type

record 'o filter_pred =
  flt_column :: string
  flt_op :: op
  flt_value :: "'o sql_value"

record 'o column_filter =
  cf_column :: string
  cf_op :: op
  cf_rhs :: "'o expr"

record ct_filter =
  ct_column :: string
  ct_parent_table :: string
  ct_table :: string
  ct_pk :: string
  ct_table_col :: string

datatype rel_correlation =
    Rel_Fk string string "ct_filter option"
  | Rel_Membership string string string string string

datatype 'o where_expr =
    W_Predicate "'o filter_pred"
  | W_ColumnCompare "'o column_filter"
  | W_And "'o where_expr list"
  | W_Or "'o where_expr list"
  | W_Not "'o where_expr"
  | W_Xor "'o where_expr list"
  | W_RelExists string rel_correlation bool

definition where_is_empty :: "'o where_expr \<Rightarrow> bool" where
  "where_is_empty e = (case e of W_And items \<Rightarrow> items = [] | _ \<Rightarrow> False)"

definition and_predicates :: "'o filter_pred list \<Rightarrow> 'o where_expr" where
  "and_predicates filters = W_And (map W_Predicate filters)"

definition push_and :: "'o where_expr \<Rightarrow> 'o where_expr \<Rightarrow> 'o where_expr" where
  "push_and e child = (case e of W_And items \<Rightarrow> W_And (items @ [child]) | _ \<Rightarrow> W_And [e, child])"

fun flat_items :: "'o where_expr list \<Rightarrow> 'o filter_pred list option" where
  "flat_items [] = Some []"
| "flat_items (W_Predicate f # items) = map_option (Cons f) (flat_items items)"
| "flat_items (_ # items) = None"

definition as_flat_and :: "'o where_expr \<Rightarrow> 'o filter_pred list option" where
  "as_flat_and e =
     (case e of W_Predicate f \<Rightarrow> Some [f] | W_And items \<Rightarrow> flat_items items | _ \<Rightarrow> None)"

section \<open>Validation against the model\<close>

datatype query_error =
    UnknownField string string
  | TypeMismatch string string field_type field_type
  | UnknownLookup string string
  | InvalidLookupValue string string string string

definition is_like_op :: "op \<Rightarrow> bool" where
  "is_like_op p \<longleftrightarrow>
     p \<in> {Op_Like, Op_NotLike, Op_LikeEscaped, Op_ILike, Op_NotILike, Op_ILikeEscaped}"

fun is_V_String :: "'o sql_value \<Rightarrow> bool" where
  "is_V_String (V_String s) = True"
| "is_V_String v = False"

definition check_value_type :: "model_schema \<Rightarrow> field_schema \<Rightarrow> op \<Rightarrow> 'o sql_value \<Rightarrow> query_error option" where
  "check_value_type model field p v =
     (if fd_ty field = Json \<and> is_V_String v \<and> is_like_op p \<or> p \<in> {Op_IsNull, Op_In, Op_JsonHasKey} then None
      else case value_field_type v of
             Some actual \<Rightarrow>
               if actual \<noteq> fd_ty field then Some (TypeMismatch (md_name model) (fd_name field) (fd_ty field) actual)
               else None
           | None \<Rightarrow> None)"

fun validate_expr_columns :: "model_schema \<Rightarrow> 'o expr \<Rightarrow> query_error option" where
  "validate_expr_columns model (E_Literal v) = None"
| "validate_expr_columns model (E_Column name) =
     (case field_by_column model name of None \<Rightarrow> Some (UnknownField (md_name model) name) | Some _ \<Rightarrow> None)"
| "validate_expr_columns model (E_BinOp l bop r) =
     (case validate_expr_columns model l of Some e \<Rightarrow> Some e | None \<Rightarrow> validate_expr_columns model r)"
| "validate_expr_columns model (E_Cast e ty) = validate_expr_columns model e"
| "validate_expr_columns model (E_OuterRef c) = None"
| "validate_expr_columns model (E_AliasedColumn a c) = None"

fun validate_where :: "model_schema \<Rightarrow> 'o where_expr \<Rightarrow> query_error option" where
  "validate_where model (W_Predicate f) =
     (case field_by_column model (flt_column f) of
        None \<Rightarrow> Some (UnknownField (md_name model) (flt_column f))
      | Some field \<Rightarrow>
          if is_like_op (flt_op f) \<and> is_V_String (flt_value f) then None
          else check_value_type model field (flt_op f) (flt_value f))"
| "validate_where model (W_ColumnCompare cf) =
     (case field_by_column model (cf_column cf) of
        None \<Rightarrow> Some (UnknownField (md_name model) (cf_column cf))
      | Some _ \<Rightarrow> validate_expr_columns model (cf_rhs cf))"
| "validate_where model (W_And items) = find_map (validate_where model) items"
| "validate_where model (W_Or items) = find_map (validate_where model) items"
| "validate_where model (W_Xor items) = find_map (validate_where model) items"
| "validate_where model (W_Not child) = validate_where model child"
| "validate_where model (W_RelExists table correlation negated) = None"

section \<open>Write queries\<close>

datatype conflict_clause = DoNothing | DoUpdate "string list" "string list"

record 'o insert_query =
  iq_model :: model_schema
  iq_columns :: "string list"
  iq_values :: "'o sql_value list"
  iq_returning :: "string list"
  iq_on_conflict :: "conflict_clause option"
  iq_generated :: "string list"

record 'o bulk_insert_query =
  bq_model :: model_schema
  bq_columns :: "string list"
  bq_rows :: "'o sql_value list list"
  bq_returning :: "string list"
  bq_on_conflict :: "conflict_clause option"
  bq_generated :: "string list"

record 'o update_query =
  uq_model :: model_schema
  uq_set :: "(string \<times> 'o expr) list"
  uq_where :: "'o where_expr"

record 'o delete_query =
  dq_model :: model_schema
  dq_where :: "'o where_expr"

record search_clause =
  sc_columns :: "string list"
  sc_query :: string

section \<open>Facts\<close>

lemma find_map_None_iff: "find_map f xs = None \<longleftrightarrow> (\<forall>x\<in>set xs. f x = None)"
  by (induction xs) (auto split: option.splits)

lemma escape_like_append: "escape_like (a @ b) = escape_like a @ escape_like b"
  by (induction a) auto

text \<open>
  What a validated tree guarantees: every predicate names a column of the model, at any depth, and
  compares it with a value of the column's own type unless the operator is one of those that take
  another shape.
\<close>

fun leaf_filters :: "'o where_expr \<Rightarrow> 'o filter_pred list" where
  "leaf_filters (W_Predicate f) = [f]"
| "leaf_filters (W_And items) = concat (map leaf_filters items)"
| "leaf_filters (W_Or items) = concat (map leaf_filters items)"
| "leaf_filters (W_Xor items) = concat (map leaf_filters items)"
| "leaf_filters (W_Not child) = leaf_filters child"
| "leaf_filters (W_ColumnCompare cf) = []"
| "leaf_filters (W_RelExists table correlation negated) = []"

lemma validated_leaf:
  assumes "validate_where model e = None" "f \<in> set (leaf_filters e)"
  shows "\<exists>field. field_by_column model (flt_column f) = Some field \<and>
      (is_like_op (flt_op f) \<and> is_V_String (flt_value f) \<or>
       flt_op f \<in> {Op_IsNull, Op_In, Op_JsonHasKey} \<or>
       value_field_type (flt_value f) \<in> {None, Some (fd_ty field)})"
  using assms
proof (induction e rule: leaf_filters.induct)
  case (1 g)
  then show ?case by (auto simp: check_value_type_def split: option.splits if_splits)
qed (auto simp: find_map_None_iff)

end
