(* ===== verification/Dialect.thy ===== *)
theory Dialect
  imports Sql_Ir
begin

text \<open>
  The \<open>Dialect\<close> trait of \<open>sql/dialect.rs\<close> as the query writers use it, with its three implementations
  (\<open>sql/postgres.rs\<close>, \<open>sql/mysql.rs\<close>, \<open>sql/sqlite.rs\<close>). A method that appends to a \<open>String\<close> is a function
  giving the text it appends; a trait default and its overrides are the branches of one definition.
\<close>

datatype dialect = Postgres | MySql | Sqlite

datatype sql_error =
    InRequiresList | IsNullRequiresBool | BetweenRequiresTwoElementList | JsonKeyRequiresString
  | JsonKeysRequiresList | JsonOpRequiresJson | ArrayOpRequiresArray | MissingPrimaryKey
  | EmptyInsert | InsertShapeMismatch nat nat | EmptyUpdateSet | EmptyBulkInsert
  | EmptyOrBranch | EmptyXorBranch
  | OperatorNotSupportedInDialect string string
  | ConflictNotSupportedInDialect string string
  | OpNotSupportedInDialect string string
  | ValueNotSupportedInDialect string string
  | OuterRefOutsideSubquery string

definition dialect_name :: "dialect \<Rightarrow> string" where
  "dialect_name d = (case d of Postgres \<Rightarrow> ''postgres'' | MySql \<Rightarrow> ''mysql'' | Sqlite \<Rightarrow> ''sqlite'')"

section \<open>Quoting and placeholders\<close>

text \<open>\<open>str::split_inclusive\<close>: the pieces of a string, each but perhaps the last ending in the separator.\<close>

fun split_inclusive :: "char \<Rightarrow> string \<Rightarrow> string list" where
  "split_inclusive q [] = []"
| "split_inclusive q (c # cs) =
     (if c = q then [c] # split_inclusive q cs
      else case split_inclusive q cs of [] \<Rightarrow> [c] # [] | p # ps \<Rightarrow> (c # p) # ps)"

definition push_quoted_with :: "string \<Rightarrow> char \<Rightarrow> string" where
  "push_quoted_with name q =
     [q] @ concat (map (\<lambda>part. part @ (if ends_with part [q] then [q] else [])) (split_inclusive q name)) @ [q]"

definition ident_quote :: "dialect \<Rightarrow> char" where
  "ident_quote d = (case d of MySql \<Rightarrow> CHR 96 | _ \<Rightarrow> CHR 34)"

definition push_quoted_ident :: "dialect \<Rightarrow> string \<Rightarrow> string" where
  "push_quoted_ident d name = push_quoted_with name (ident_quote d)"

fun ident_body :: "char \<Rightarrow> string \<Rightarrow> string" where
  "ident_body q [] = []"
| "ident_body q (c # cs) = (if c = q then [q, q] else [c]) @ ident_body q cs"

definition write_pg_ident :: "string \<Rightarrow> string" where
  "write_pg_ident name = [CHR 34] @ ident_body (CHR 34) name @ [CHR 34]"

definition write_sqlite_ident :: "string \<Rightarrow> string" where
  "write_sqlite_ident name = [CHR 34] @ ident_body (CHR 34) name @ [CHR 34]"

definition write_my_ident :: "string \<Rightarrow> string" where
  "write_my_ident name = [CHR 96] @ ident_body (CHR 96) name @ [CHR 96]"

definition placeholder :: "dialect \<Rightarrow> nat \<Rightarrow> string" where
  "placeholder d n = (case d of Postgres \<Rightarrow> ''$'' @ show_nat n | _ \<Rightarrow> ''?'')"

definition push_qualified :: "dialect \<Rightarrow> string option \<Rightarrow> string \<Rightarrow> string" where
  "push_qualified d table column =
     (case table of Some t \<Rightarrow> push_quoted_ident d t @ ''.'' | None \<Rightarrow> []) @ push_quoted_ident d column"

section \<open>Capabilities\<close>

definition binds_pg_only_values :: "dialect \<Rightarrow> bool" where
  "binds_pg_only_values d \<longleftrightarrow> d = Postgres"

definition supports_returning :: "dialect \<Rightarrow> bool" where
  "supports_returning d \<longleftrightarrow> d \<noteq> MySql"

definition in_subquery_limit_needs_derived_table :: "dialect \<Rightarrow> bool" where
  "in_subquery_limit_needs_derived_table d \<longleftrightarrow> d = MySql"

definition default_values_clause :: "dialect \<Rightarrow> string" where
  "default_values_clause d = (case d of MySql \<Rightarrow> '' () VALUES ()'' | _ \<Rightarrow> '' DEFAULT VALUES'')"

definition default_pk_cell :: "dialect \<Rightarrow> field_schema \<Rightarrow> string" where
  "default_pk_cell d pk =
     (case d of Sqlite \<Rightarrow> if fd_ty pk \<in> {I16, I32, I64} then ''NULL'' else ''DEFAULT'' | _ \<Rightarrow> ''DEFAULT'')"

definition supports_op :: "dialect \<Rightarrow> op \<Rightarrow> bool" where
  "supports_op d p \<longleftrightarrow>
     \<not> (d = Sqlite \<and> p \<in> {Op_JsonContains, Op_JsonContainedBy, Op_JsonHasKey, Op_JsonHasAnyKey, Op_JsonHasAllKeys})"

fun ansi_cast_type :: "field_type \<Rightarrow> string option" where
  "ansi_cast_type I16 = Some ''SMALLINT''"
| "ansi_cast_type I32 = Some ''INTEGER''"
| "ansi_cast_type I64 = Some ''BIGINT''"
| "ansi_cast_type F32 = Some ''REAL''"
| "ansi_cast_type F64 = Some ''DOUBLE PRECISION''"
| "ansi_cast_type Bool = Some ''BOOLEAN''"
| "ansi_cast_type String = Some ''TEXT''"
| "ansi_cast_type DateTime = Some ''TIMESTAMPTZ''"
| "ansi_cast_type Date = Some ''DATE''"
| "ansi_cast_type Uuid = Some ''UUID''"
| "ansi_cast_type Json = Some ''JSONB''"
| "ansi_cast_type Decimal = Some ''NUMERIC''"
| "ansi_cast_type Binary = Some ''BYTEA''"
| "ansi_cast_type Time = Some ''TIME''"
| "ansi_cast_type (Array Array_Text) = Some ''text[]''"
| "ansi_cast_type (Array Array_Int) = Some ''integer[]''"
| "ansi_cast_type (Array Array_BigInt) = Some ''bigint[]''"
| "ansi_cast_type (Range Range_Int) = Some ''int4range''"
| "ansi_cast_type (Range Range_BigInt) = Some ''int8range''"
| "ansi_cast_type (Range Range_Numeric) = Some ''numrange''"
| "ansi_cast_type (Range Range_Date) = Some ''daterange''"
| "ansi_cast_type (Range Range_DateTime) = Some ''tstzrange''"
| "ansi_cast_type HStore = Some ''hstore''"
| "ansi_cast_type (Vector n) = None"
| "ansi_cast_type (Geometry n) = None"

fun mysql_cast_type :: "field_type \<Rightarrow> string option" where
  "mysql_cast_type I16 = Some ''SIGNED''"
| "mysql_cast_type I32 = Some ''SIGNED''"
| "mysql_cast_type I64 = Some ''SIGNED''"
| "mysql_cast_type F32 = Some ''FLOAT''"
| "mysql_cast_type F64 = Some ''DOUBLE''"
| "mysql_cast_type Bool = Some ''UNSIGNED''"
| "mysql_cast_type String = Some ''CHAR''"
| "mysql_cast_type DateTime = Some ''DATETIME(6)''"
| "mysql_cast_type Date = Some ''DATE''"
| "mysql_cast_type Time = Some ''TIME(6)''"
| "mysql_cast_type Decimal = Some ''DECIMAL(65, 28)''"
| "mysql_cast_type Binary = Some ''BINARY''"
| "mysql_cast_type Json = Some ''JSON''"
| "mysql_cast_type Uuid = None"
| "mysql_cast_type (Array e) = None"
| "mysql_cast_type (Range e) = None"
| "mysql_cast_type HStore = None"
| "mysql_cast_type (Vector n) = None"
| "mysql_cast_type (Geometry n) = None"

fun sqlite_cast_type :: "field_type \<Rightarrow> string option" where
  "sqlite_cast_type I16 = Some ''INTEGER''"
| "sqlite_cast_type I32 = Some ''INTEGER''"
| "sqlite_cast_type I64 = Some ''INTEGER''"
| "sqlite_cast_type Bool = Some ''INTEGER''"
| "sqlite_cast_type F32 = Some ''REAL''"
| "sqlite_cast_type F64 = Some ''REAL''"
| "sqlite_cast_type Decimal = Some ''NUMERIC''"
| "sqlite_cast_type Binary = Some ''BLOB''"
| "sqlite_cast_type ty = Some ''TEXT''"

definition cast_type :: "dialect \<Rightarrow> field_type \<Rightarrow> string option" where
  "cast_type d ty =
     (case d of Postgres \<Rightarrow> ansi_cast_type ty | MySql \<Rightarrow> mysql_cast_type ty | Sqlite \<Rightarrow> sqlite_cast_type ty)"

definition null_cast :: "dialect \<Rightarrow> field_type \<Rightarrow> string option" where
  "null_cast d ty = (case d of Postgres \<Rightarrow> cast_type Postgres ty | _ \<Rightarrow> None)"

definition ci_text_bind_cast :: "dialect \<Rightarrow> string option" where
  "ci_text_bind_cast d = (case d of Postgres \<Rightarrow> Some ''citext'' | _ \<Rightarrow> None)"

text \<open>The values no bind can carry: a \<open>List\<close> anywhere, a Postgres-only value off Postgres.\<close>

fun is_V_List :: "'o sql_value \<Rightarrow> bool" where
  "is_V_List (V_List vs) = True"
| "is_V_List v = False"

definition unbindable_kind :: "dialect \<Rightarrow> 'o sql_value \<Rightarrow> string option" where
  "unbindable_kind d v =
     (case (if binds_pg_only_values d then None else pg_only_kind v) of
        Some k \<Rightarrow> Some k
      | None \<Rightarrow> if is_V_List v then Some ''list'' else None)"

definition refuse_unbindable_values :: "dialect \<Rightarrow> 'o sql_value list \<Rightarrow> sql_error + unit" where
  "refuse_unbindable_values d params =
     (case find_map (unbindable_kind d) params of
        Some v \<Rightarrow> Inl (ValueNotSupportedInDialect v (dialect_name d))
      | None \<Rightarrow> Inr ())"

end
