(* ===== verification/Dialect_Ops.thy ===== *)
theory Dialect_Ops
  imports Dialect
begin

text \<open>
  The per-operator writers of the \<open>Dialect\<close> trait: each gets the column already quoted and a
  placeholder, and gives the predicate in the dialect's own spelling, or refuses the operator.
\<close>

text \<open>The two punctuation characters of the refusal messages that are not ASCII, as UTF-8 bytes.\<close>

definition em_dash :: string where
  "em_dash = [CHR 0xE2, CHR 0x80, CHR 0x94]"

definition ellipsis :: string where
  "ellipsis = [CHR 0xE2, CHR 0x80, CHR 0xA6]"

section \<open>Text matching\<close>

definition uuid_text :: "string \<Rightarrow> string" where
  "uuid_text c =
     (let h = ''lower(hex('' @ c @ ''))''
      in ''CASE typeof('' @ c @ '') WHEN 'blob' THEN substr('' @ h @ '', 1, 8) || '-' || substr('' @ h
         @ '', 9, 4) || '-' || substr('' @ h @ '', 13, 4) || '-' || substr('' @ h
         @ '', 17, 4) || '-' || substr('' @ h @ '', 21) ELSE '' @ c @ '' END'')"

definition like_operand :: "dialect \<Rightarrow> string \<Rightarrow> field_type option \<Rightarrow> string" where
  "like_operand d col ty =
     (case d of
        Postgres \<Rightarrow> (case ty of Some t \<Rightarrow> if t \<noteq> String then ''CAST('' @ col @ '' AS TEXT)'' else col | None \<Rightarrow> col)
      | MySql \<Rightarrow> col
      | Sqlite \<Rightarrow> if ty \<noteq> Some Uuid then col else uuid_text col)"

definition write_ilike :: "dialect \<Rightarrow> string \<Rightarrow> string \<Rightarrow> bool \<Rightarrow> string" where
  "write_ilike d col p negated =
     (case d of
        Postgres \<Rightarrow> col @ (if negated then '' NOT ILIKE '' else '' ILIKE '') @ p
      | MySql \<Rightarrow> ''LOWER('' @ col @ (if negated then '') NOT LIKE LOWER('' else '') LIKE LOWER('') @ p @ '')''
      | Sqlite \<Rightarrow> (if negated then ''NOT ('' else []) @ ''LOWER('' @ col @ '') LIKE LOWER('' @ p @ '')''
                  @ (if negated then '')'' else []))"

definition write_ilike_typed :: "dialect \<Rightarrow> string \<Rightarrow> field_type option \<Rightarrow> string \<Rightarrow> bool \<Rightarrow> string" where
  "write_ilike_typed d col ty p negated = write_ilike d (like_operand d col ty) p negated"

definition write_like_typed :: "dialect \<Rightarrow> string \<Rightarrow> field_type option \<Rightarrow> string \<Rightarrow> bool \<Rightarrow> string" where
  "write_like_typed d col ty p negated =
     like_operand d col ty @ (if negated then '' NOT LIKE '' else '' LIKE '') @ p
     @ (case d of MySql \<Rightarrow> '' COLLATE utf8mb4_bin'' | _ \<Rightarrow> [])"

definition write_regex :: "dialect \<Rightarrow> string \<Rightarrow> string \<Rightarrow> bool \<Rightarrow> bool \<Rightarrow> string" where
  "write_regex d col p case_sensitive negated =
     col @ (case d of
        Postgres \<Rightarrow>
          (case (case_sensitive, negated) of
             (True, False) \<Rightarrow> '' ~ '' | (True, True) \<Rightarrow> '' !~ ''
           | (False, False) \<Rightarrow> '' ~* '' | (False, True) \<Rightarrow> '' !~* '') @ p
      | MySql \<Rightarrow>
          (if negated then '' NOT REGEXP '' else '' REGEXP '')
          @ (if case_sensitive then ''CONCAT('(?-i)', '' else ''CONCAT('(?i)', '') @ p @ '')''
      | Sqlite \<Rightarrow>
          (if negated then '' NOT REGEXP '' else '' REGEXP '')
          @ (if case_sensitive then p else ''('(?i)' || '' @ p @ '')''))"

section \<open>Operators only Postgres has\<close>

definition write_trigram_similar :: "dialect \<Rightarrow> string \<Rightarrow> string \<Rightarrow> bool \<Rightarrow> sql_error + string" where
  "write_trigram_similar d col p whole_word =
     (if d = Postgres then Inr (col @ (if whole_word then '' %> '' else '' % '') @ p)
      else Inl (OpNotSupportedInDialect
             ((if whole_word then ''trigram_word_similar (%>) '' else ''trigram_similar (%) '')
              @ em_dash @ '' pg_trgm is Postgres-only'') (dialect_name d)))"

definition write_search :: "dialect \<Rightarrow> string \<Rightarrow> string \<Rightarrow> sql_error + string" where
  "write_search d col p =
     (case d of
        Postgres \<Rightarrow> Inr (''to_tsvector('' @ col @ '') @@ plainto_tsquery('' @ p @ '')'')
      | MySql \<Rightarrow> Inl (OpNotSupportedInDialect
          (''search (__search) '' @ em_dash @ '' full-text search shape is Postgres-only; use MySQL `MATCH ''
           @ ellipsis @ '' AGAINST` via a raw predicate'') ''mysql'')
      | Sqlite \<Rightarrow> Inl (OpNotSupportedInDialect
          (''search (__search) '' @ em_dash @ '' full-text search shape is Postgres-only; use SQLite FTS5 `<fts5_table> MATCH ?` via a raw predicate'')
          ''sqlite''))"

definition write_array_op :: "dialect \<Rightarrow> string \<Rightarrow> string \<Rightarrow> string \<Rightarrow> sql_error + string" where
  "write_array_op d col p symb =
     (case d of
        Postgres \<Rightarrow> Inr (col @ '' '' @ symb @ '' '' @ p)
      | MySql \<Rightarrow> Inl (OpNotSupportedInDialect
          (''array operators (@>, <@, &&) '' @ em_dash @ '' PG ArrayField is Postgres-only; use JSON columns + JSON-shape operators on MySQL'')
          ''mysql'')
      | Sqlite \<Rightarrow> Inl (OpNotSupportedInDialect
          (''array operators (@>, <@, &&) '' @ em_dash @ '' PG ArrayField is Postgres-only; use JSON-stored arrays + JSON1 functions on SQLite'')
          ''sqlite''))"

definition write_range_op :: "dialect \<Rightarrow> string \<Rightarrow> string \<Rightarrow> string \<Rightarrow> sql_error + string" where
  "write_range_op d col p symb =
     (if d = Postgres then Inr (col @ '' '' @ symb @ '' '' @ p)
      else Inl (OpNotSupportedInDialect
             (''range operators (@>, <@, &&, <<, >>, -|-) '' @ em_dash
              @ '' PG RangeField is Postgres-only; store lo/hi as separate columns on ''
              @ (case d of MySql \<Rightarrow> ''MySQL'' | _ \<Rightarrow> ''SQLite'')) (dialect_name d)))"

section \<open>Null-safe equality and JSON\<close>

definition write_null_safe_eq :: "dialect \<Rightarrow> string \<Rightarrow> string \<Rightarrow> bool \<Rightarrow> string" where
  "write_null_safe_eq d col p differ =
     (case d of
        Postgres \<Rightarrow> col @ (if differ then '' IS DISTINCT FROM '' else '' IS NOT DISTINCT FROM '') @ p
      | MySql \<Rightarrow> (if differ then ''NOT ('' else []) @ col @ '' <=> '' @ p @ (if differ then '')'' else [])
      | Sqlite \<Rightarrow> col @ (if differ then '' IS NOT '' else '' IS '') @ p)"

definition write_json_param :: "dialect \<Rightarrow> string \<Rightarrow> string" where
  "write_json_param d p =
     (case d of MySql \<Rightarrow> ''/*!80000 CAST('' @ ''*/'' @ p @ ''/*!80000 AS JSON)*/'' | _ \<Rightarrow> p)"

definition write_decimal_param :: "dialect \<Rightarrow> string \<Rightarrow> string" where
  "write_decimal_param d p = (case d of Sqlite \<Rightarrow> ''CAST('' @ p @ '' AS NUMERIC)'' | _ \<Rightarrow> p)"

text \<open>\<open>str::contains\<close>, and \<open>ByServer::write\<close>: each server runs its own comment and skips the other's.\<close>

fun contains_str :: "string \<Rightarrow> string \<Rightarrow> bool" where
  "contains_str pat [] = (pat = [])"
| "contains_str pat (c # cs) = (starts_with (c # cs) pat \<or> contains_str pat cs)"

definition by_server :: "string \<Rightarrow> string \<Rightarrow> string" where
  "by_server mysql mariadb = ''/*!80000 '' @ mysql @ '' */ /*M! '' @ mariadb @ '' */''"

definition json_tree_rows :: "string \<Rightarrow> string" where
  "json_tree_rows side =
     ''SELECT fullkey, CASE WHEN type IN ('integer', 'real') THEN 'number' ELSE type END, atom FROM json_tree(''
     @ side @ '')''"

definition write_json_eq :: "dialect \<Rightarrow> string \<Rightarrow> string \<Rightarrow> bool \<Rightarrow> string option" where
  "write_json_eq d lhs p ne =
     (case d of
        Postgres \<Rightarrow> None
      | MySql \<Rightarrow>
          if contains_str ''*/'' lhs then None
          else Some (by_server (lhs @ '' '' @ (if ne then ''<>'' else ''='') @ '' CAST('' @ p @ '' AS JSON)'')
                       (''JSON_EQUALS('' @ lhs @ '', '' @ p @ '') = '' @ (if ne then ''0'' else ''1'')))
      | Sqlite \<Rightarrow>
          (let l = json_tree_rows ''rq_json_l''; r = json_tree_rows ''rq_json_r''
           in Some ((if ne then ''NOT '' else [])
                @ ''(SELECT CASE WHEN rq_json_l IS NULL THEN NULL ELSE NOT EXISTS ('' @ l @ '' EXCEPT '' @ r
                @ '') AND NOT EXISTS ('' @ r @ '' EXCEPT '' @ l
                @ '') END FROM (SELECT '' @ lhs @ '' AS rq_json_l, '' @ p @ '' AS rq_json_r))'')))"

definition write_json_contains :: "dialect \<Rightarrow> string \<Rightarrow> string \<Rightarrow> string" where
  "write_json_contains d col p =
     (case d of MySql \<Rightarrow> ''JSON_CONTAINS('' @ col @ '', '' @ p @ '')'' | _ \<Rightarrow> col @ '' @> '' @ p @ ''::jsonb'')"

definition write_json_contained_by :: "dialect \<Rightarrow> string \<Rightarrow> string \<Rightarrow> string" where
  "write_json_contained_by d col p =
     (case d of MySql \<Rightarrow> ''JSON_CONTAINS('' @ p @ '', '' @ col @ '')'' | _ \<Rightarrow> col @ '' <@ '' @ p @ ''::jsonb'')"

definition write_my_json_has_keys :: "string \<Rightarrow> string list \<Rightarrow> string \<Rightarrow> string" where
  "write_my_json_has_keys col ps mode =
     ''JSON_CONTAINS_PATH('' @ col @ '', '' @ [CHR 39] @ mode @ [CHR 39]
     @ concat (map (\<lambda>p. '', CONCAT('$.', JSON_QUOTE('' @ p @ ''))'') ps) @ '')''"

definition write_pg_array_keys :: "string \<Rightarrow> string list \<Rightarrow> string \<Rightarrow> string" where
  "write_pg_array_keys col ps kw = col @ kw @ join_str '', '' ps @ '']''"

definition write_json_has_key :: "dialect \<Rightarrow> string \<Rightarrow> string \<Rightarrow> string" where
  "write_json_has_key d col p =
     (case d of MySql \<Rightarrow> write_my_json_has_keys col [p] ''one'' | _ \<Rightarrow> col @ '' ? '' @ p)"

definition write_json_has_any_keys :: "dialect \<Rightarrow> string \<Rightarrow> string list \<Rightarrow> string" where
  "write_json_has_any_keys d col ps =
     (case d of MySql \<Rightarrow> write_my_json_has_keys col ps ''one'' | _ \<Rightarrow> write_pg_array_keys col ps '' ?| ARRAY['')"

definition write_json_has_all_keys :: "dialect \<Rightarrow> string \<Rightarrow> string list \<Rightarrow> string" where
  "write_json_has_all_keys d col ps =
     (case d of MySql \<Rightarrow> write_my_json_has_keys col ps ''all'' | _ \<Rightarrow> write_pg_array_keys col ps '' ?& ARRAY['')"

section \<open>Conflict clauses\<close>

definition write_my_set_insert_id :: "string \<Rightarrow> string \<Rightarrow> string" where
  "write_my_set_insert_id ident v = ''IF(LAST_INSERT_ID('' @ ident @ ''), '' @ v @ '', '' @ v @ '')''"

definition write_my_skip_marker :: "model_schema \<Rightarrow> string \<Rightarrow> sql_error + string" where
  "write_my_skip_marker model ident =
     (let plain = (\<lambda>f. \<not> is_serial f \<and> fd_generated_as f = None);
          pivot = (case primary_key_field model of
                     Some pk \<Rightarrow> if plain pk then Some pk
                                else (case List.find plain (md_fields model) of Some f \<Rightarrow> Some f | None \<Rightarrow> Some pk)
                   | None \<Rightarrow> List.find plain (md_fields model))
      in case pivot of
           None \<Rightarrow> Inl MissingPrimaryKey
         | Some f \<Rightarrow>
             let col = write_my_ident (fd_column f)
             in Inr (col @ '' = '' @ write_my_set_insert_id ident col))"

definition my_key_fits :: "model_schema \<Rightarrow> string list \<Rightarrow> string list \<Rightarrow> string list \<Rightarrow> bool" where
  "my_key_fits model caller_set target cols \<longleftrightarrow>
     list_ex (\<lambda>c. case field_by_column model c of
                    Some f \<Rightarrow> fd_auto f \<and> \<not> List.member caller_set c | None \<Rightarrow> False) cols
     \<or> length cols = length target \<and> list_all (List.member target) cols"

definition my_target_is_only_unique_key :: "model_schema \<Rightarrow> string list \<Rightarrow> string list \<Rightarrow> bool" where
  "my_target_is_only_unique_key model caller_set target \<longleftrightarrow>
     (let pk = map fd_column (filter fd_primary_key (md_fields model))
      in (pk = [] \<or> my_key_fits model caller_set target pk)
         \<and> list_all (\<lambda>f. my_key_fits model caller_set target [fd_column f])
             (filter (\<lambda>f. fd_unique f \<and> \<not> fd_primary_key f) (md_fields model))
         \<and> list_all (\<lambda>i. my_key_fits model caller_set target (xd_columns i)) (filter xd_unique (md_indexes model)))"

definition SKIPPED_INSERT_ID :: nat where
  "SKIPPED_INSERT_ID = 18446744073709551615"

definition ansi_conflict_clause :: "(string \<Rightarrow> string) \<Rightarrow> string \<Rightarrow> conflict_clause \<Rightarrow> string" where
  "ansi_conflict_clause ident excluded c =
     (case c of
        DoNothing \<Rightarrow> '' ON CONFLICT DO NOTHING''
      | DoUpdate target update_columns \<Rightarrow>
          '' ON CONFLICT ('' @ join_str '', '' (map ident target) @ '') DO UPDATE SET ''
          @ join_str '', '' (map (\<lambda>col. ident col @ excluded @ ident col) update_columns))"

fun my_assignments :: "string option \<Rightarrow> string list \<Rightarrow> string list" where
  "my_assignments ident [] = []"
| "my_assignments ident (col # cols) =
     (let v = ''VALUES('' @ write_my_ident col @ '')''
      in (write_my_ident col @ '' = '' @ (case ident of Some i \<Rightarrow> write_my_set_insert_id i v | None \<Rightarrow> v))
         # my_assignments None cols)"

definition mysql_conflict_clause :: "model_schema \<Rightarrow> string list \<Rightarrow> conflict_clause \<Rightarrow> sql_error + string" where
  "mysql_conflict_clause model caller_set c =
     (case c of
        DoNothing \<Rightarrow>
          (case write_my_skip_marker model (show_nat SKIPPED_INSERT_ID) of
             Inl e \<Rightarrow> Inl e
           | Inr t \<Rightarrow> Inr ('' ON DUPLICATE KEY UPDATE '' @ t))
      | DoUpdate target update_columns \<Rightarrow>
          if update_columns = [] then Inl EmptyUpdateSet
          else if \<not> my_target_is_only_unique_key model caller_set target
          then Inl (ConflictNotSupportedInDialect ''DO UPDATE on a target that is not the only unique key'' ''mysql'')
          else
            let ident = (case primary_key_field model of
                           Some pk \<Rightarrow> if is_serial pk then Some (write_my_ident (fd_column pk)) else None
                         | None \<Rightarrow> None)
            in Inr ('' ON DUPLICATE KEY UPDATE '' @ join_str '', '' (my_assignments ident update_columns)))"

definition write_conflict_clause :: "dialect \<Rightarrow> model_schema \<Rightarrow> string list \<Rightarrow> conflict_clause \<Rightarrow> sql_error + string" where
  "write_conflict_clause d model caller_set c =
     (case d of
        Postgres \<Rightarrow> Inr (ansi_conflict_clause write_pg_ident '' = EXCLUDED.'' c)
      | Sqlite \<Rightarrow> Inr (ansi_conflict_clause write_sqlite_ident '' = excluded.'' c)
      | MySql \<Rightarrow> mysql_conflict_clause model caller_set c)"

end
