(* ===== verification/Sql_Buffer.thy ===== *)
theory Sql_Buffer
  imports Dialect_Ops
begin

text \<open>
  The buffer every writer appends to (\<open>Sql\<close> in \<open>sql/writers.rs\<close>): the SQL text, the bind list and the
  scopes open while it is written. Left out are the fields that only the SELECT and aggregate
  writers read or set (\<open>aggregate_allowed\<close>, \<open>total\<close>, \<open>child_count\<close>, \<open>label_model_cols\<close>, \<open>group_concat\<close>)
  and the \<open>scratch\<close> allocation.
\<close>

section \<open>The buffer\<close>

record scope =
  s_model :: model_schema
  s_name :: string

datatype qualifier = Q_Join string | Q_Base string

record derived_joins =
  dj_depth :: nat
  dj_table :: string
  dj_aliases :: "string list"

record 'o sql_buf =
  b_d :: dialect
  b_sql :: string
  b_params :: "'o sql_value list"
  b_scope_stack :: "scope list"
  b_qualifier :: "(nat \<times> qualifier) option"
  b_derived_joins :: "derived_joins option"
  b_join_types :: "(nat \<times> string \<times> model_schema) list"
  b_dml_target :: "string option"
  b_read_dml_target :: bool
  b_derive_dml_target :: "nat option"
  b_outer_reach :: "nat option"

definition new_sql :: "dialect \<Rightarrow> 'o sql_buf" where
  "new_sql d =
     \<lparr>b_d = d, b_sql = [], b_params = [], b_scope_stack = [], b_qualifier = None, b_derived_joins = None,
      b_join_types = [], b_dml_target = None, b_read_dml_target = False, b_derive_dml_target = None,
      b_outer_reach = None\<rparr>"

text \<open>The \<open>?\<close> operator: the first error ends the statement.\<close>

definition try_then :: "'e + 'a \<Rightarrow> ('a \<Rightarrow> 'e + 'b) \<Rightarrow> 'e + 'b" where
  "try_then r f = (case r of Inl e \<Rightarrow> Inl e | Inr x \<Rightarrow> f x)"

definition push_str :: "string \<Rightarrow> 'o sql_buf \<Rightarrow> 'o sql_buf" where
  "push_str t b = b\<lparr>b_sql := b_sql b @ t\<rparr>"

section \<open>Scopes and columns\<close>

definition SELF_ALIAS :: string where
  "SELF_ALIAS = ''__rustango_self''"

definition scope_plain :: "model_schema \<Rightarrow> scope" where
  "scope_plain model = \<lparr>s_model = model, s_name = md_table model\<rparr>"

definition scope_rename :: "scope \<Rightarrow> string \<Rightarrow> string" where
  "scope_rename s al = (if al = md_table (s_model s) then s_name s else al)"

definition last_scope :: "'o sql_buf \<Rightarrow> scope option" where
  "last_scope b = (if b_scope_stack b = [] then None else Some (last (b_scope_stack b)))"

definition scope_model :: "'o sql_buf \<Rightarrow> model_schema option" where
  "scope_model b = map_option s_model (last_scope b)"

definition cur_qualifier :: "'o sql_buf \<Rightarrow> qualifier option" where
  "cur_qualifier b =
     (case b_qualifier b of
        Some (depth, q) \<Rightarrow> if depth = length (b_scope_stack b) then Some q else None
      | None \<Rightarrow> None)"

definition MAX_LABEL :: nat where
  "MAX_LABEL = 63"

definition label_hex_digit :: "nat \<Rightarrow> char" where
  "label_hex_digit n = (if n < 10 then char_of (48 + n) else char_of (87 + n))"

fun show_hex :: "nat \<Rightarrow> nat \<Rightarrow> string" where
  "show_hex 0 n = []"
| "show_hex (Suc w) n = show_hex w (n div 16) @ [label_hex_digit (n mod 16)]"

definition fnv1a :: "string \<Rightarrow> i64" where
  "fnv1a s = foldl (\<lambda>h c. xor h (of_nat (of_char c)) * 0x100000001b3) 0xcbf29ce484222325 s"

definition str_char_boundary :: "string \<Rightarrow> nat \<Rightarrow> bool" where
  "str_char_boundary s i \<longleftrightarrow>
     i = 0 \<or> i = length s \<or> i < length s \<and> \<not> (128 \<le> (of_char (s ! i) :: nat) \<and> of_char (s ! i) < (192::nat))"

fun boundary_below :: "string \<Rightarrow> nat \<Rightarrow> nat" where
  "boundary_below s 0 = 0"
| "boundary_below s (Suc i) = (if str_char_boundary s (Suc i) then Suc i else boundary_below s i)"

definition sql_label :: "string \<Rightarrow> string" where
  "sql_label name =
     (if length name \<le> MAX_LABEL then name
      else take (boundary_below name (MAX_LABEL - 17)) name @ ''_'' @ show_hex 16 (unat (fnv1a name)))"

definition alias_ref :: "'o sql_buf \<Rightarrow> string \<Rightarrow> string" where
  "alias_ref b al =
     (if list_ex (\<lambda>(_, a, _). a = al) (b_join_types b) then sql_label al else al)"

definition qualify_alias :: "'o sql_buf \<Rightarrow> string \<Rightarrow> string option" where
  "qualify_alias b column =
     (case cur_qualifier b of
        None \<Rightarrow> None
      | Some (Q_Join a) \<Rightarrow> Some (alias_ref b a)
      | Some (Q_Base t) \<Rightarrow>
          if (case scope_model b of None \<Rightarrow> True | Some m \<Rightarrow> field_by_column m column \<noteq> None) then Some t
          else None)"

definition render_qualified_col :: "'o sql_buf \<Rightarrow> string \<Rightarrow> string" where
  "render_qualified_col b column = push_qualified (b_d b) (qualify_alias b column) column"

definition write_ident :: "string \<Rightarrow> 'o sql_buf \<Rightarrow> 'o sql_buf" where
  "write_ident name b = push_str (push_quoted_ident (b_d b) name) b"

definition write_scope_col :: "string \<Rightarrow> 'o sql_buf \<Rightarrow> 'o sql_buf" where
  "write_scope_col column b = push_str (render_qualified_col b column) b"

section \<open>Tables a write reads\<close>

definition write_table :: "string \<Rightarrow> string option \<Rightarrow> 'o sql_buf \<Rightarrow> 'o sql_buf" where
  "write_table name al b =
     (let target = (b_dml_target b = Some name);
          derive = (target \<and> b_derive_dml_target b = Some (length (b_scope_stack b)));
          b1 = b\<lparr>b_read_dml_target := (b_read_dml_target b \<or> target \<and> \<not> derive)\<rparr>;
          b2 = (if derive then push_str '')'' (write_ident name (push_str ''(SELECT * FROM '' b1))
                else write_ident name b1)
      in case (case al of Some a \<Rightarrow> Some a | None \<Rightarrow> if derive then Some name else None) of
           Some a \<Rightarrow> write_ident a (push_str '' AS '' b2)
         | None \<Rightarrow> b2)"

definition read_outer :: "nat \<Rightarrow> 'o sql_buf \<Rightarrow> 'o sql_buf" where
  "read_outer depth b =
     b\<lparr>b_outer_reach := Some (case b_outer_reach b of None \<Rightarrow> depth | Some r \<Rightarrow> min r depth)\<rparr>"

definition with_derived_dml_target ::
  "nat \<Rightarrow> ('o sql_buf \<Rightarrow> sql_error + 'o sql_buf) \<Rightarrow> 'o sql_buf \<Rightarrow> sql_error + 'o sql_buf" where
  "with_derived_dml_target depth f b =
     (let needs = (length (b_scope_stack b) = 1 \<and> b_dml_target b \<noteq> None
                   \<and> in_subquery_limit_needs_derived_table (b_d b));
          outer = b_derive_dml_target b
      in try_then (f (if needs then b\<lparr>b_derive_dml_target := Some depth\<rparr> else b))
           (\<lambda>r. Inr (r\<lparr>b_derive_dml_target := outer\<rparr>)))"

section \<open>Binds\<close>

datatype bind_cast = BC_Untyped string | BC_Always string

definition bind_text :: "dialect \<Rightarrow> 'o sql_value \<Rightarrow> nat \<Rightarrow> string" where
  "bind_text d v n =
     (case v of
        V_Json j \<Rightarrow> write_json_param d (placeholder d n)
      | V_Decimal x \<Rightarrow> write_decimal_param d (placeholder d n)
      | _ \<Rightarrow> placeholder d n)"

definition push_value :: "'o sql_value \<Rightarrow> 'o sql_buf \<Rightarrow> 'o sql_buf" where
  "push_value v b = b\<lparr>b_params := b_params b @ [v]\<rparr>"

definition write_bind :: "'o sql_value \<Rightarrow> 'o sql_buf \<Rightarrow> 'o sql_buf" where
  "write_bind v b = push_str (bind_text (b_d b) v (Suc (length (b_params b)))) (push_value v b)"

definition bind_value :: "'o sql_value \<Rightarrow> 'o sql_buf \<Rightarrow> string \<times> 'o sql_buf" where
  "bind_value v b = (bind_text (b_d b) v (Suc (length (b_params b))), push_value v b)"

text \<open>The writers that push a value and take its bare placeholder.\<close>

definition push_placeholder :: "'o sql_value \<Rightarrow> 'o sql_buf \<Rightarrow> string \<times> 'o sql_buf" where
  "push_placeholder v b = (placeholder (b_d b) (Suc (length (b_params b))), push_value v b)"

definition is_untyped :: "'o sql_value \<Rightarrow> bool" where
  "is_untyped v = (case v of V_Null \<Rightarrow> True | V_RangeLiteral s \<Rightarrow> True | _ \<Rightarrow> False)"

definition cast_suffix :: "'o sql_value \<Rightarrow> bind_cast option \<Rightarrow> string" where
  "cast_suffix v cast =
     (case cast of
        Some (BC_Always ty) \<Rightarrow> ''::'' @ ty
      | Some (BC_Untyped ty) \<Rightarrow> if is_untyped v then ''::'' @ ty else []
      | None \<Rightarrow> [])"

definition push_param_typed :: "'o sql_value \<Rightarrow> bind_cast option \<Rightarrow> 'o sql_buf \<Rightarrow> 'o sql_buf" where
  "push_param_typed v cast b = push_str (cast_suffix v cast) (write_bind v b)"

definition push_param :: "'o sql_value \<Rightarrow> 'o sql_buf \<Rightarrow> 'o sql_buf" where
  "push_param v b = push_param_typed v None b"

definition null_cast_for :: "dialect \<Rightarrow> model_schema \<Rightarrow> string \<Rightarrow> bind_cast option" where
  "null_cast_for d model column =
     (case field_by_column model column of
        None \<Rightarrow> None
      | Some field \<Rightarrow>
          (case (if fd_case_insensitive field \<and> fd_ty field = String then ci_text_bind_cast d else None) of
             Some ty \<Rightarrow> Some (BC_Always ty)
           | None \<Rightarrow> map_option BC_Untyped (null_cast d (fd_ty field))))"

definition finish :: "'o sql_buf \<Rightarrow> sql_error + (string \<times> 'o sql_value list)" where
  "finish b = try_then (refuse_unbindable_values (b_d b) (b_params b)) (\<lambda>_. Inr (b_sql b, b_params b))"

section \<open>IN lists\<close>

fun discriminant :: "'o sql_value \<Rightarrow> nat" where
  "discriminant V_Null = 0"
| "discriminant (V_I16 x) = 1"
| "discriminant (V_I32 x) = 2"
| "discriminant (V_I64 x) = 3"
| "discriminant (V_F32 x) = 4"
| "discriminant (V_F64 x) = 5"
| "discriminant (V_Bool x) = 6"
| "discriminant (V_String x) = 7"
| "discriminant (V_DateTime x) = 8"
| "discriminant (V_Date x) = 9"
| "discriminant (V_Uuid x) = 10"
| "discriminant (V_Json x) = 11"
| "discriminant (V_Decimal x) = 12"
| "discriminant (V_Binary x) = 13"
| "discriminant (V_Time x) = 14"
| "discriminant (V_List x) = 15"
| "discriminant (V_Array x) = 16"
| "discriminant (V_RangeLiteral x) = 17"
| "discriminant (V_HStore x) = 18"
| "discriminant (V_Vector x) = 19"
| "discriminant (V_Geometry x y z) = 20"

definition array_elem_value :: "'o sql_value \<Rightarrow> bool" where
  "array_elem_value v =
     (case v of V_I16 _ \<Rightarrow> True | V_I32 _ \<Rightarrow> True | V_I64 _ \<Rightarrow> True | V_String _ \<Rightarrow> True | V_Bool _ \<Rightarrow> True
      | V_Uuid _ \<Rightarrow> True | _ \<Rightarrow> False)"

definition array_bindable :: "'o sql_value list \<Rightarrow> bool" where
  "array_bindable elements =
     (case elements of
        [] \<Rightarrow> False
      | first # _ \<Rightarrow> array_elem_value first \<and> list_all (\<lambda>e. discriminant e = discriminant first) elements)"

definition binds_as_array :: "dialect \<Rightarrow> 'o sql_value list \<Rightarrow> bool" where
  "binds_as_array d elements \<longleftrightarrow> binds_pg_only_values d \<and> array_bindable elements"

definition in_list_binds :: "dialect \<Rightarrow> 'o sql_value list \<Rightarrow> nat" where
  "in_list_binds d elements = (if binds_as_array d elements then 1 else length elements)"

fun push_params_sep :: "bool \<Rightarrow> ('o sql_value \<times> bind_cast option) list \<Rightarrow> 'o sql_buf \<Rightarrow> 'o sql_buf" where
  "push_params_sep first [] b = b"
| "push_params_sep first ((v, cast) # rest) b =
     push_params_sep False rest (push_param_typed v cast (if first then b else push_str '', '' b))"

definition write_empty_in :: "op \<Rightarrow> 'o sql_buf \<Rightarrow> 'o sql_buf" where
  "write_empty_in p b = push_str (if p = Op_NotIn then ''1 = 1'' else ''1 = 0'') b"

definition write_in_list :: "op \<Rightarrow> 'o sql_value list \<Rightarrow> bind_cast option \<Rightarrow> 'o sql_buf \<Rightarrow> 'o sql_buf" where
  "write_in_list p elements cast b =
     (if binds_as_array (b_d b) elements then
        let b1 = write_bind (V_Array elements) (push_str (if p = Op_NotIn then '' <> ALL('' else '' = ANY('') b);
            b2 = (case cast of Some (BC_Always ty) \<Rightarrow> push_str ''[]'' (push_str ty (push_str ''::'' b1)) | _ \<Rightarrow> b1)
        in push_str '')'' b2
      else
        push_str '')'' (push_params_sep True (map (\<lambda>e. (e, cast)) elements)
          (push_str (if p = Op_NotIn then '' NOT IN ('' else '' IN ('') b)))"

fun write_idents_sep :: "bool \<Rightarrow> string list \<Rightarrow> 'o sql_buf \<Rightarrow> 'o sql_buf" where
  "write_idents_sep first [] b = b"
| "write_idents_sep first (c # cs) b =
     write_idents_sep False cs (write_ident c (if first then b else push_str '', '' b))"

lemma try_then_simps [simp]:
  "try_then (Inl e) f = Inl e"
  "try_then (Inr x) f = f x"
  by (simp_all add: try_then_def)

lemma try_then_Inr: "try_then r f = Inr y \<longleftrightarrow> (\<exists>x. r = Inr x \<and> f x = Inr y)"
  by (cases r) simp_all

end
