(* ===== verification/Sql_Writer.thy ===== *)
theory Sql_Writer
  imports Sql_Buffer
begin

text \<open>
  The writers of \<open>sql/writers.rs\<close> for predicates, \<open>WHERE\<close> clauses and write statements. Each takes the
  buffer and gives the extended buffer or the error that ends the statement.
\<close>

section \<open>Expressions\<close>

definition is_int_type :: "field_type option \<Rightarrow> bool" where
  "is_int_type ty \<longleftrightarrow> ty \<in> {Some I16, Some I32, Some I64}"

definition alias_at :: "'o sql_buf \<Rightarrow> string \<Rightarrow> nat \<Rightarrow> model_schema option" where
  "alias_at b al depth =
     (case List.find (\<lambda>(dp, a, _). dp = depth \<and> a = al) (rev (b_join_types b)) of
        Some (_, _, m) \<Rightarrow> Some m
      | None \<Rightarrow>
          let s = b_scope_stack b ! (depth - 1)
          in if s_name s = al \<or> md_table (s_model s) = al then Some (s_model s) else None)"

definition alias_model :: "'o sql_buf \<Rightarrow> string \<Rightarrow> model_schema option" where
  "alias_model b al = find_map (alias_at b al) (rev [1..<Suc (length (b_scope_stack b))])"

definition is_arith :: "bin_op \<Rightarrow> bool" where
  "is_arith bop \<longleftrightarrow> bop \<in> {B_Add, B_Sub, B_Mul, B_Div, B_Mod}"

fun expr_type :: "'o sql_buf \<Rightarrow> 'o expr \<Rightarrow> field_type option" where
  "expr_type b (E_Literal v) = value_field_type v"
| "expr_type b (E_Column c) =
     (case cur_qualifier b of
        Some (Q_Join _) \<Rightarrow> None
      | _ \<Rightarrow> Option.bind (scope_model b) (\<lambda>m. map_option fd_ty (field_by_column m c)))"
| "expr_type b (E_AliasedColumn al c) =
     Option.bind (alias_model b al) (\<lambda>m. map_option fd_ty (field_by_column m c))"
| "expr_type b (E_BinOp l bop r) =
     (if is_arith bop \<and> is_int_type (expr_type b l) \<and> is_int_type (expr_type b r) then Some I64 else None)"
| "expr_type b (E_OuterRef c) = None"
| "expr_type b (E_Cast e ty) = None"

definition is_int_expr :: "'o sql_buf \<Rightarrow> 'o expr \<Rightarrow> bool" where
  "is_int_expr b e =
     (case e of E_BinOp l _ r \<Rightarrow> is_int_type (expr_type b l) \<and> is_int_type (expr_type b r) | _ \<Rightarrow> False)"

definition bin_op_symbol :: "dialect \<Rightarrow> bin_op \<Rightarrow> bool \<Rightarrow> string" where
  "bin_op_symbol d bop ints =
     (case bop of
        B_Add \<Rightarrow> ''+'' | B_Sub \<Rightarrow> ''-'' | B_Mul \<Rightarrow> ''*''
      | B_Div \<Rightarrow> if d = MySql \<and> ints then ''DIV'' else ''/''
      | B_Mod \<Rightarrow> ''%'' | B_BitAnd \<Rightarrow> ''&'' | B_BitOr \<Rightarrow> ''|''
      | B_BitXor \<Rightarrow> if d = Postgres then ''#'' else ''^''
      | B_BitShl \<Rightarrow> ''<<'' | B_BitShr \<Rightarrow> ''>>''
      | B_L2Distance \<Rightarrow> ''<->'' | B_CosineDistance \<Rightarrow> ''<=>'' | B_InnerProduct \<Rightarrow> ''<#>'')"

definition refused_bin_op :: "dialect \<Rightarrow> bin_op \<Rightarrow> sql_error option" where
  "refused_bin_op d bop =
     (if bop = B_BitXor \<and> d = Sqlite then Some (OpNotSupportedInDialect ''BitXor'' (dialect_name d))
      else if bop \<in> {B_L2Distance, B_CosineDistance, B_InnerProduct} \<and> d \<noteq> Postgres then
        Some (OpNotSupportedInDialect
          (case bop of B_L2Distance \<Rightarrow> ''<-> (pgvector L2 distance)''
           | B_CosineDistance \<Rightarrow> ''<=> (pgvector cosine distance)'' | _ \<Rightarrow> ''<#> (pgvector inner product)'')
          (dialect_name d))
      else None)"

fun write_expr :: "'o expr \<Rightarrow> bind_cast option \<Rightarrow> 'o sql_buf \<Rightarrow> sql_error + 'o sql_buf" where
  "write_expr (E_Literal v) cast b = Inr (push_param_typed v cast b)"
| "write_expr (E_Column name) cast b = Inr (write_scope_col name b)"
| "write_expr (E_BinOp l bop r) cast b =
     (case refused_bin_op (b_d b) bop of
        Some e \<Rightarrow> Inl e
      | None \<Rightarrow>
          try_then (write_expr l None (push_str ''('' b)) (\<lambda>b1.
          try_then (write_expr r None
              (push_str '' '' (push_str (bin_op_symbol (b_d b1) bop (is_int_expr b1 (E_BinOp l bop r)))
                (push_str '' '' b1)))) (\<lambda>b2.
          Inr (push_str '')'' b2))))"
| "write_expr (E_Cast e ty) cast b =
     (case cast_type (b_d b) ty of
        None \<Rightarrow> Inl (OpNotSupportedInDialect ''CAST: dialect cannot map this FieldType'' (dialect_name (b_d b)))
      | Some token \<Rightarrow>
          try_then (write_expr e None (push_str ''CAST('' b)) (\<lambda>b1.
          Inr (push_str '')'' (push_str token (push_str '' AS '' b1)))))"
| "write_expr (E_OuterRef col) cast b =
     (let n = length (b_scope_stack b)
      in if n < 2 then Inl (OuterRefOutsideSubquery col)
         else let outer = b_scope_stack b ! (n - 2)
              in Inr (push_str (push_qualified (b_d b) (Some (s_name outer)) col) (read_outer (n - 1) b)))"
| "write_expr (E_AliasedColumn al col) cast b =
     (let plain = (let a = (case last_scope b of None \<Rightarrow> al | Some s \<Rightarrow> scope_rename s al)
                   in push_qualified (b_d b) (Some (alias_ref b a)) col)
      in Inr (push_str
           (case b_derived_joins b of
              Some dj \<Rightarrow>
                if dj_depth dj = length (b_scope_stack b) \<and> List.member (dj_aliases dj) al
                then push_qualified (b_d b) (Some (dj_table dj)) (sql_label (al @ ''__'' @ col)) else plain
            | None \<Rightarrow> plain) b))"

section \<open>Predicates\<close>

definition null_test :: "op \<Rightarrow> 'o sql_value \<Rightarrow> string option" where
  "null_test p v =
     (case v of
        V_Null \<Rightarrow> if p = Op_Eq then Some '' IS NULL'' else if p = Op_Ne then Some '' IS NOT NULL'' else None
      | _ \<Rightarrow> None)"

definition try_json_eq :: "string \<Rightarrow> op \<Rightarrow> 'o sql_value \<Rightarrow> 'o sql_buf \<Rightarrow> 'o sql_buf option" where
  "try_json_eq lhs p v b =
     (case v of
        V_Json j \<Rightarrow>
          if p = Op_Eq \<or> p = Op_Ne then
            (case write_json_eq (b_d b) lhs (placeholder (b_d b) (length (b_params b) + 1)) (p = Op_Ne) of
               None \<Rightarrow> None
             | Some out \<Rightarrow> Some (push_str out (push_value v b)))
          else None
      | _ \<Rightarrow> None)"

definition simple_op :: "string \<Rightarrow> string \<Rightarrow> 'o sql_value \<Rightarrow> bind_cast option \<Rightarrow> 'o sql_buf \<Rightarrow> 'o sql_buf" where
  "simple_op col kw v cast b = push_param_typed v cast (push_str kw (push_str col b))"

fun glob_literal :: "char \<Rightarrow> string" where
  "glob_literal c = (if c \<in> {CHR ''*'', CHR ''?'', CHR ''[''} then [CHR ''['', c, CHR '']''] else [c])"

fun like_to_glob :: "bool \<Rightarrow> string \<Rightarrow> string" where
  "like_to_glob escaped [] = []"
| "like_to_glob escaped (c # cs) =
     (if c = CHR ''!'' \<and> escaped then
        (case cs of [] \<Rightarrow> [] | nx # rest \<Rightarrow> glob_literal nx @ like_to_glob escaped rest)
      else if c = CHR ''%'' then CHR ''*'' # like_to_glob escaped cs
      else if c = CHR ''_'' then CHR ''?'' # like_to_glob escaped cs
      else glob_literal c @ like_to_glob escaped cs)"

definition write_like :: "string \<Rightarrow> field_type option \<Rightarrow> 'o sql_value \<Rightarrow> bool \<Rightarrow> bool \<Rightarrow> 'o sql_buf \<Rightarrow> 'o sql_buf" where
  "write_like col ty v negated escaped b =
     (case (b_d b, v) of
        (Sqlite, V_String pattern) \<Rightarrow>
          (let (p, b1) = bind_value (V_String (like_to_glob escaped pattern)) b
           in push_str p (push_str (if negated then '' NOT GLOB '' else '' GLOB '')
                (push_str (like_operand (b_d b1) col ty) b1)))
      | _ \<Rightarrow>
          (let (p, b1) = bind_value v b;
               b2 = push_str (write_like_typed (b_d b1) col ty p negated) b1
           in if escaped then push_str LIKE_ESCAPE_CLAUSE b2 else b2))"

fun bind_param_list :: "'o sql_value list \<Rightarrow> 'o sql_buf \<Rightarrow> string list \<times> 'o sql_buf" where
  "bind_param_list [] b = ([], b)"
| "bind_param_list (v # vs) b =
     (let (p, b1) = push_placeholder v b; (ps, b2) = bind_param_list vs b1 in (p # ps, b2))"

fun op_label :: "op \<Rightarrow> string" where
  "op_label Op_Eq = ''=''" | "op_label Op_Ne = ''<>''" | "op_label Op_Lt = ''<''" | "op_label Op_Lte = ''<=''"
| "op_label Op_Gt = ''>''" | "op_label Op_Gte = ''>=''" | "op_label Op_In = ''IN''"
| "op_label Op_NotIn = ''NOT IN''" | "op_label Op_Like = ''LIKE''" | "op_label Op_NotLike = ''NOT LIKE''"
| "op_label Op_ILike = ''ILIKE''" | "op_label Op_NotILike = ''NOT ILIKE''"
| "op_label Op_LikeEscaped = ''LIKE ... ESCAPE''" | "op_label Op_ILikeEscaped = ''ILIKE ... ESCAPE''"
| "op_label Op_Between = ''BETWEEN''" | "op_label Op_NotBetween = ''NOT BETWEEN''"
| "op_label Op_IsNull = ''IS NULL''" | "op_label Op_IsDistinctFrom = ''IS DISTINCT FROM''"
| "op_label Op_IsNotDistinctFrom = ''IS NOT DISTINCT FROM''" | "op_label Op_JsonContains = ''@>''"
| "op_label Op_JsonContainedBy = ''<@''" | "op_label Op_JsonHasKey = ''? (json)''"
| "op_label Op_JsonHasAnyKey = ''?| (json)''" | "op_label Op_JsonHasAllKeys = ''?& (json)''"
| "op_label Op_Regex = ''~ (regex)''" | "op_label Op_NotRegex = ''!~ (regex)''"
| "op_label Op_TrigramSimilar = ''% (trigram_similar)''"
| "op_label Op_TrigramWordSimilar = ''%> (trigram_word_similar)''" | "op_label Op_Search = ''@@ (search)''"
| "op_label Op_ArrayContains = ''@> (array_contains)''"
| "op_label Op_ArrayContainedBy = ''<@ (array_contained_by)''"
| "op_label Op_ArrayOverlap = ''&& (array_overlap)''" | "op_label Op_RangeContains = ''@> (range_contains)''"
| "op_label Op_RangeContainedBy = ''<@ (range_contained_by)''"
| "op_label Op_RangeOverlap = ''&& (range_overlap)''"
| "op_label Op_RangeStrictlyLeft = ''<< (range_strictly_left)''"
| "op_label Op_RangeStrictlyRight = ''>> (range_strictly_right)''"
| "op_label Op_RangeAdjacent = ''-|- (range_adjacent)''" | "op_label Op_IRegex = ''~* (iregex)''"
| "op_label Op_NotIRegex = ''!~* (iregex)''"

definition require_op :: "dialect \<Rightarrow> op \<Rightarrow> sql_error + unit" where
  "require_op d p =
     (if supports_op d p then Inr () else Inl (OperatorNotSupportedInDialect (op_label p) (dialect_name d)))"

definition array_symbol :: "op \<Rightarrow> string" where
  "array_symbol p = (case p of Op_ArrayContains \<Rightarrow> ''@>'' | Op_ArrayContainedBy \<Rightarrow> ''<@'' | _ \<Rightarrow> ''&&'')"

definition range_symbol :: "op \<Rightarrow> string" where
  "range_symbol p =
     (case p of Op_RangeContains \<Rightarrow> ''@>'' | Op_RangeContainedBy \<Rightarrow> ''<@'' | Op_RangeOverlap \<Rightarrow> ''&&''
      | Op_RangeStrictlyLeft \<Rightarrow> ''<<'' | Op_RangeStrictlyRight \<Rightarrow> ''>>'' | _ \<Rightarrow> ''-|-'')"

definition column_type_in :: "model_schema option \<Rightarrow> string \<Rightarrow> field_type option" where
  "column_type_in model column = Option.bind model (\<lambda>m. map_option fd_ty (field_by_column m column))"

definition range_cast :: "dialect \<Rightarrow> model_schema option \<Rightarrow> string \<Rightarrow> 'o sql_value \<Rightarrow> string option" where
  "range_cast d model column v =
     (case v of
        V_RangeLiteral s \<Rightarrow>
          (case column_type_in model column of Some (Range e) \<Rightarrow> cast_type d (Range e) | _ \<Rightarrow> None)
      | _ \<Rightarrow> None)"

text \<open>The operators that bind the whole value and let the dialect place its bare placeholder.\<close>

definition place :: "(string \<Rightarrow> string) \<Rightarrow> 'o sql_value \<Rightarrow> 'o sql_buf \<Rightarrow> 'o sql_buf" where
  "place f v b = (let (p, b1) = push_placeholder v b in push_str (f p) b1)"

definition place_or :: "(string \<Rightarrow> sql_error + string) \<Rightarrow> 'o sql_value \<Rightarrow> 'o sql_buf \<Rightarrow> sql_error + 'o sql_buf" where
  "place_or f v b = (let (p, b1) = push_placeholder v b in try_then (f p) (\<lambda>t. Inr (push_str t b1)))"

definition write_op :: "'o filter_pred \<Rightarrow> model_schema option \<Rightarrow> string \<Rightarrow> bind_cast option \<Rightarrow> 'o sql_buf \<Rightarrow> sql_error + 'o sql_buf" where
  "write_op f model col cast b =
     (let d = b_d b; v = flt_value f; p = flt_op f; ty = column_type_in model (flt_column f)
      in case p of
        Op_Eq \<Rightarrow> Inr (simple_op col '' = '' v cast b)
      | Op_Ne \<Rightarrow> Inr (simple_op col '' <> '' v cast b)
      | Op_Lt \<Rightarrow> Inr (simple_op col '' < '' v cast b)
      | Op_Lte \<Rightarrow> Inr (simple_op col '' <= '' v cast b)
      | Op_Gt \<Rightarrow> Inr (simple_op col '' > '' v cast b)
      | Op_Gte \<Rightarrow> Inr (simple_op col '' >= '' v cast b)
      | Op_Like \<Rightarrow> Inr (write_like col ty v False False b)
      | Op_NotLike \<Rightarrow> Inr (write_like col ty v True False b)
      | Op_LikeEscaped \<Rightarrow> Inr (write_like col ty v False True b)
      | Op_ILike \<Rightarrow> try_then (require_op d Op_ILike) (\<lambda>_.
          Inr (place (\<lambda>q. write_ilike_typed d col ty q False) v b))
      | Op_NotILike \<Rightarrow> try_then (require_op d Op_NotILike) (\<lambda>_.
          Inr (place (\<lambda>q. write_ilike_typed d col ty q True) v b))
      | Op_ILikeEscaped \<Rightarrow> try_then (require_op d Op_ILike) (\<lambda>_.
          Inr (push_str LIKE_ESCAPE_CLAUSE (place (\<lambda>q. write_ilike_typed d col ty q False) v b)))
      | Op_Regex \<Rightarrow> try_then (require_op d p) (\<lambda>_. Inr (place (\<lambda>q. write_regex d col q True False) v b))
      | Op_NotRegex \<Rightarrow> try_then (require_op d p) (\<lambda>_. Inr (place (\<lambda>q. write_regex d col q True True) v b))
      | Op_IRegex \<Rightarrow> try_then (require_op d p) (\<lambda>_. Inr (place (\<lambda>q. write_regex d col q False False) v b))
      | Op_NotIRegex \<Rightarrow> try_then (require_op d p) (\<lambda>_. Inr (place (\<lambda>q. write_regex d col q False True) v b))
      | Op_TrigramSimilar \<Rightarrow> try_then (require_op d p) (\<lambda>_.
          place_or (\<lambda>q. write_trigram_similar d col q False) v b)
      | Op_TrigramWordSimilar \<Rightarrow> try_then (require_op d p) (\<lambda>_.
          place_or (\<lambda>q. write_trigram_similar d col q True) v b)
      | Op_Search \<Rightarrow> try_then (require_op d p) (\<lambda>_. place_or (\<lambda>q. write_search d col q) v b)
      | Op_In \<Rightarrow> (case v of V_List elements \<Rightarrow>
            if elements = [] then Inr (write_empty_in p b)
            else Inr (write_in_list p elements cast (push_str col b)) | _ \<Rightarrow> Inl InRequiresList)
      | Op_NotIn \<Rightarrow> (case v of V_List elements \<Rightarrow>
            if elements = [] then Inr (write_empty_in p b)
            else Inr (write_in_list p elements cast (push_str col b)) | _ \<Rightarrow> Inl InRequiresList)
      | Op_Between \<Rightarrow> (case v of V_List [lo, hi] \<Rightarrow>
            Inr (push_param_typed hi cast (push_str '' AND '' (push_param_typed lo cast
              (push_str '' BETWEEN '' (push_str col b))))) | _ \<Rightarrow> Inl BetweenRequiresTwoElementList)
      | Op_NotBetween \<Rightarrow> (case v of V_List [lo, hi] \<Rightarrow>
            Inr (push_param_typed hi cast (push_str '' AND '' (push_param_typed lo cast
              (push_str '' NOT BETWEEN '' (push_str col b))))) | _ \<Rightarrow> Inl BetweenRequiresTwoElementList)
      | Op_IsNull \<Rightarrow> (case v of V_Bool is_null \<Rightarrow>
            Inr (push_str (if is_null then '' IS NULL'' else '' IS NOT NULL'') (push_str col b))
          | _ \<Rightarrow> Inl IsNullRequiresBool)
      | Op_IsDistinctFrom \<Rightarrow> try_then (require_op d p) (\<lambda>_.
          Inr (let (q, b1) = bind_value v b in push_str (write_null_safe_eq d col q True) b1))
      | Op_IsNotDistinctFrom \<Rightarrow> try_then (require_op d p) (\<lambda>_.
          Inr (let (q, b1) = bind_value v b in push_str (write_null_safe_eq d col q False) b1))
      | Op_JsonContains \<Rightarrow> try_then (require_op d p) (\<lambda>_.
          case v of V_Json _ \<Rightarrow> Inr (place (\<lambda>q. write_json_contains d col q) v b) | _ \<Rightarrow> Inl JsonOpRequiresJson)
      | Op_JsonContainedBy \<Rightarrow> try_then (require_op d p) (\<lambda>_.
          case v of V_Json _ \<Rightarrow> Inr (place (\<lambda>q. write_json_contained_by d col q) v b) | _ \<Rightarrow> Inl JsonOpRequiresJson)
      | Op_JsonHasKey \<Rightarrow> try_then (require_op d p) (\<lambda>_.
          case v of V_String _ \<Rightarrow> Inr (place (\<lambda>q. write_json_has_key d col q) v b) | _ \<Rightarrow> Inl JsonKeyRequiresString)
      | Op_JsonHasAnyKey \<Rightarrow> try_then (require_op d p) (\<lambda>_.
          case v of V_List keys \<Rightarrow>
            Inr (let (qs, b1) = bind_param_list keys b in push_str (write_json_has_any_keys d col qs) b1)
          | _ \<Rightarrow> Inl JsonKeysRequiresList)
      | Op_JsonHasAllKeys \<Rightarrow> try_then (require_op d p) (\<lambda>_.
          case v of V_List keys \<Rightarrow>
            Inr (let (qs, b1) = bind_param_list keys b in push_str (write_json_has_all_keys d col qs) b1)
          | _ \<Rightarrow> Inl JsonKeysRequiresList)
      | _ \<Rightarrow>
          if p \<in> {Op_ArrayContains, Op_ArrayContainedBy, Op_ArrayOverlap} then
            (case v of V_Array _ \<Rightarrow> try_then (require_op d p) (\<lambda>_.
               place_or (\<lambda>q. write_array_op d col q (array_symbol p)) v b)
             | _ \<Rightarrow> Inl ArrayOpRequiresArray)
          else try_then (require_op d p) (\<lambda>_.
            place_or (\<lambda>q. write_range_op d col
              (q @ (case range_cast d model (flt_column f) v of Some t \<Rightarrow> ''::'' @ t | None \<Rightarrow> [])) (range_symbol p)) v b))"

definition write_filter :: "'o filter_pred \<Rightarrow> model_schema option \<Rightarrow> 'o sql_buf \<Rightarrow> sql_error + 'o sql_buf" where
  "write_filter f model b =
     (let col = render_qualified_col b (flt_column f)
      in case null_test (flt_op f) (flt_value f) of
           Some test \<Rightarrow> Inr (push_str test (push_str col b))
         | None \<Rightarrow>
             (case try_json_eq col (flt_op f) (flt_value f) b of
                Some b1 \<Rightarrow> Inr b1
              | None \<Rightarrow>
                  write_op f model col (Option.bind model (\<lambda>m. null_cast_for (b_d b) m (flt_column f))) b))"

definition compare_symbol :: "op \<Rightarrow> string option" where
  "compare_symbol p =
     (case p of Op_Eq \<Rightarrow> Some '' = '' | Op_Ne \<Rightarrow> Some '' <> '' | Op_Lt \<Rightarrow> Some '' < '' | Op_Lte \<Rightarrow> Some '' <= ''
      | Op_Gt \<Rightarrow> Some '' > '' | Op_Gte \<Rightarrow> Some '' >= '' | _ \<Rightarrow> None)"

definition write_column_compare :: "'o column_filter \<Rightarrow> 'o sql_buf \<Rightarrow> sql_error + 'o sql_buf" where
  "write_column_compare cf b =
     (let b1 = push_str (render_qualified_col b (cf_column cf)) b
      in case (case cf_rhs cf of E_Literal v \<Rightarrow> null_test (cf_op cf) v | _ \<Rightarrow> None) of
           Some test \<Rightarrow> Inr (push_str test b1)
         | None \<Rightarrow>
             (case compare_symbol (cf_op cf) of
                None \<Rightarrow> Inl (OpNotSupportedInDialect ''non-binary comparison in ColumnCompare'' (dialect_name (b_d b1)))
              | Some op_str \<Rightarrow> write_expr (cf_rhs cf) None (push_str op_str b1)))"

section \<open>Raw relation tables\<close>

definition write_ct_check :: "string \<Rightarrow> ct_filter \<Rightarrow> 'o sql_buf \<Rightarrow> 'o sql_buf" where
  "write_ct_check table ct b =
     push_str '')'' (push_param (V_String (ct_parent_table ct)) (push_str '' = ''
       (write_ident (ct_table_col ct) (push_str '' WHERE '' (write_table (ct_table ct) None
         (push_str '' FROM '' (write_ident (ct_pk ct) (push_str '' = (SELECT ''
           (write_ident (ct_column ct) (push_str ''.'' (write_ident table (push_str '' AND '' b))))))))))))"

definition write_rel_correlation :: "string \<Rightarrow> rel_correlation \<Rightarrow> 'o sql_buf \<Rightarrow> sql_error + 'o sql_buf" where
  "write_rel_correlation table correlation b =
     (case last_scope b of
        None \<Rightarrow> Inl (OuterRefOutsideSubquery ''<relation>'')
      | Some s \<Rightarrow>
          (let outer_table = s_name s;
               b1 = read_outer (length (b_scope_stack b)) b;
               al = (if table = outer_table then Some SELF_ALIAS else None);
               name = (case al of Some a \<Rightarrow> a | None \<Rightarrow> table);
               b2 = push_str '' WHERE '' (write_table table al b1)
           in case correlation of
                Rel_Fk fk_column outer_column ct \<Rightarrow>
                  (let b3 = write_ident outer_column (push_str ''.'' (write_ident outer_table (push_str '' = ''
                              (write_ident fk_column (push_str ''.'' (write_ident name b2))))))
                   in Inr (case ct of None \<Rightarrow> b3 | Some c \<Rightarrow> write_ct_check name c b3))
              | Rel_Membership target_pk through dst_col src_col outer_column \<Rightarrow>
                  (let b3 = push_str '' FROM '' (write_ident dst_col (push_str '' IN (SELECT ''
                              (write_ident target_pk (push_str ''.'' (write_ident name b2)))));
                       derive = b_derive_dml_target b3;
                       b4 = (write_table through None (b3\<lparr>b_derive_dml_target := None\<rparr>))\<lparr>b_derive_dml_target := derive\<rparr>
                   in Inr (push_str '')'' (write_ident outer_column (push_str ''.'' (write_ident outer_table
                        (push_str '' = '' (write_ident src_col (push_str ''.'' (write_ident through
                          (push_str '' WHERE '' b4))))))))))))"

section \<open>Boolean structure\<close>

function (sequential) write_where_expr :: "model_schema option \<Rightarrow> 'o where_expr \<Rightarrow> 'o sql_buf \<Rightarrow> sql_error + 'o sql_buf" and
  write_child :: "model_schema option \<Rightarrow> 'o where_expr \<Rightarrow> 'o sql_buf \<Rightarrow> sql_error + 'o sql_buf" and
  write_joined :: "model_schema option \<Rightarrow> string \<Rightarrow> bool \<Rightarrow> 'o where_expr list \<Rightarrow> 'o sql_buf \<Rightarrow> sql_error + 'o sql_buf" and
  write_parity :: "model_schema option \<Rightarrow> bool \<Rightarrow> 'o where_expr list \<Rightarrow> 'o sql_buf \<Rightarrow> sql_error + 'o sql_buf" and
  write_xor :: "model_schema option \<Rightarrow> 'o where_expr list \<Rightarrow> 'o sql_buf \<Rightarrow> sql_error + 'o sql_buf"
where
  "write_where_expr model (W_Predicate f) b = write_filter f model b"
| "write_where_expr model (W_ColumnCompare cf) b = write_column_compare cf b"
| "write_where_expr model (W_And items) b =
     (if items = [] then Inr (push_str ''1 = 1'' b) else write_joined model '' AND '' True items b)"
| "write_where_expr model (W_Or items) b =
     (if items = [] then Inl EmptyOrBranch else write_joined model '' OR '' True items b)"
| "write_where_expr model (W_Xor items) b = write_xor model items b"
| "write_where_expr model (W_Not child) b =
     try_then (write_where_expr model child (push_str ''NOT ('' b)) (\<lambda>b1. Inr (push_str '')'' b1))"
| "write_where_expr model (W_RelExists table correlation negated) b =
     try_then (with_derived_dml_target 1 (write_rel_correlation table correlation)
         (push_str ''SELECT 1 FROM '' (push_str (if negated then ''NOT EXISTS ('' else ''EXISTS ('') b)))
       (\<lambda>b1. Inr (push_str '')'' b1))"
| "write_child model (W_Predicate f) b = write_filter f model b"
| "write_child model (W_ColumnCompare cf) b = write_column_compare cf b"
| "write_child model (W_RelExists table correlation negated) b =
     write_where_expr model (W_RelExists table correlation negated) b"
| "write_child model (W_And items) b =
     try_then (write_where_expr model (W_And items) (push_str ''('' b)) (\<lambda>b1. Inr (push_str '')'' b1))"
| "write_child model (W_Or items) b =
     try_then (write_where_expr model (W_Or items) (push_str ''('' b)) (\<lambda>b1. Inr (push_str '')'' b1))"
| "write_child model (W_Not child) b =
     try_then (write_where_expr model (W_Not child) (push_str ''('' b)) (\<lambda>b1. Inr (push_str '')'' b1))"
| "write_child model (W_Xor items) b =
     try_then (write_where_expr model (W_Xor items) (push_str ''('' b)) (\<lambda>b1. Inr (push_str '')'' b1))"
| "write_joined model sep first [] b = Inr b"
| "write_joined model sep first (c # cs) b =
     try_then (write_child model c (if first then b else push_str sep b)) (\<lambda>b1.
       write_joined model sep False cs b1)"
| "write_parity model first [] b = Inr b"
| "write_parity model first (c # cs) b =
     try_then (write_child model c (push_str ''(CASE WHEN '' (if first then b else push_str '' + '' b))) (\<lambda>b1.
       write_parity model False cs (push_str '' THEN 1 ELSE 0 END)'' b1))"
| "write_xor model [] b = Inl EmptyXorBranch"
| "write_xor model [c] b = write_where_expr model c b"
| "write_xor model (c # c' # cs) b =
     try_then (write_parity model True (c # c' # cs) (push_str ''('' b)) (\<lambda>b1. Inr (push_str '') % 2 = 1'' b1))"
  by pat_completeness auto

termination
  by (relation "measure (case_sum
        (case_sum (\<lambda>(_, e, _). 3 * size e) (\<lambda>(_, e, _). 3 * size e + 1))
        (case_sum (\<lambda>(_, _, _, es, _). 3 * size_list size es)
          (case_sum (\<lambda>(_, _, es, _). 3 * size_list size es) (\<lambda>(_, es, _). 3 * size_list size es + 1))))") auto

definition write_where :: "model_schema option \<Rightarrow> 'o where_expr \<Rightarrow> 'o sql_buf \<Rightarrow> sql_error + 'o sql_buf" where
  "write_where model e b =
     (if where_is_empty e then Inr b else write_where_expr model e (push_str '' WHERE '' b))"

fun write_search_cols :: "model_schema option \<Rightarrow> string \<Rightarrow> bool \<Rightarrow> string list \<Rightarrow> 'o sql_buf \<Rightarrow> 'o sql_buf" where
  "write_search_cols model pattern first [] b = b"
| "write_search_cols model pattern first (col # cols) b =
     (let b0 = (if first then b else push_str '' OR '' b);
          ty = column_type_in model col
      in write_search_cols model pattern False cols
           (push_str LIKE_ESCAPE_CLAUSE
             (place (\<lambda>q. write_ilike_typed (b_d b0) (render_qualified_col b0 col) ty q False) (V_String pattern) b0)))"

definition write_where_with_search ::
  "model_schema option \<Rightarrow> 'o where_expr \<Rightarrow> search_clause option \<Rightarrow> 'o sql_buf \<Rightarrow> sql_error + 'o sql_buf" where
  "write_where_with_search model e search b =
     (let search' = (case search of Some s \<Rightarrow> if sc_query s \<noteq> [] then Some s else None | None \<Rightarrow> None);
          has_where = (\<not> where_is_empty e)
      in if \<not> has_where \<and> search' = None then Inr b
         else
           try_then
             (if has_where then
                let wrap = (search' \<noteq> None);
                    b1 = push_str '' WHERE '' b
                in try_then (write_where_expr model e (if wrap then push_str ''('' b1 else b1)) (\<lambda>b2.
                     Inr (if wrap then push_str '')'' b2 else b2))
              else Inr (push_str '' WHERE '' b)) (\<lambda>b2.
             Inr (case search' of
                    None \<Rightarrow> b2
                  | Some s \<Rightarrow>
                      let b3 = (if has_where then push_str '' AND '' b2 else b2)
                      in if sc_columns s = [] then push_str ''1 = 0'' b3
                         else push_str '')'' (write_search_cols model (''%'' @ escape_like (sc_query s) @ ''%'') True
                                (sc_columns s) (push_str ''('' b3)))))"

section \<open>Statements\<close>

definition write_returning :: "string list \<Rightarrow> 'o sql_buf \<Rightarrow> sql_error + 'o sql_buf" where
  "write_returning returning b =
     (if returning = [] then Inr b
      else if \<not> supports_returning (b_d b)
      then Inl (OperatorNotSupportedInDialect ''RETURNING'' (dialect_name (b_d b)))
      else Inr (write_idents_sep True returning (push_str '' RETURNING '' b)))"

definition caller_set :: "string list \<Rightarrow> string list \<Rightarrow> string list" where
  "caller_set columns generated = filter (\<lambda>c. \<not> List.member generated c) columns"

definition write_on_conflict ::
  "model_schema \<Rightarrow> string list \<Rightarrow> string list \<Rightarrow> conflict_clause option \<Rightarrow> 'o sql_buf \<Rightarrow> sql_error + 'o sql_buf" where
  "write_on_conflict model columns generated conflict b =
     (case conflict of
        None \<Rightarrow> Inr b
      | Some c \<Rightarrow>
          if (case c of DoUpdate _ update_columns \<Rightarrow> update_columns = [] | DoNothing \<Rightarrow> False) then Inl EmptyUpdateSet
          else try_then (write_conflict_clause (b_d b) model (caller_set columns generated) c)
                 (\<lambda>t. Inr (push_str t b)))"

definition write_insert_values :: "'o insert_query \<Rightarrow> 'o sql_value list \<Rightarrow> 'o sql_buf \<Rightarrow> sql_error + 'o sql_buf" where
  "write_insert_values q vals b =
     (if length (iq_columns q) \<noteq> length vals then Inl (InsertShapeMismatch (length (iq_columns q)) (length vals))
      else
        let b1 = write_ident (md_table (iq_model q)) (push_str ''INSERT INTO '' b);
            b2 = (if iq_columns q = [] then push_str (default_values_clause (b_d b1)) b1
                  else push_str '')'' (push_params_sep True
                         (map (\<lambda>(col, v). (v, null_cast_for (b_d b1) (iq_model q) col)) (zip (iq_columns q) vals))
                         (push_str '') VALUES ('' (write_idents_sep True (iq_columns q) (push_str '' ('' b1)))))
        in write_on_conflict (iq_model q) (iq_columns q) (iq_generated q) (iq_on_conflict q) b2)"

definition write_insert :: "'o insert_query \<Rightarrow> 'o sql_buf \<Rightarrow> sql_error + 'o sql_buf" where
  "write_insert q b =
     (if iq_columns q = [] \<and> iq_returning q = [] then Inl EmptyInsert
      else try_then (write_insert_values q (iq_values q) b) (write_returning (iq_returning q)))"

fun write_rows :: "bind_cast option list \<Rightarrow> bool \<Rightarrow> 'o sql_value list list \<Rightarrow> 'o sql_buf \<Rightarrow> 'o sql_buf" where
  "write_rows casts first [] b = b"
| "write_rows casts first (row # rows) b =
     write_rows casts False rows
       (push_str '')'' (push_params_sep True (zip row casts)
         (push_str ''('' (if first then b else push_str '', '' b))))"

fun write_default_rows :: "string \<Rightarrow> bool \<Rightarrow> nat \<Rightarrow> 'o sql_buf \<Rightarrow> 'o sql_buf" where
  "write_default_rows cell first 0 b = b"
| "write_default_rows cell first (Suc n) b =
     write_default_rows cell False n
       (push_str '')'' (push_str cell (push_str ''('' (if first then b else push_str '', '' b))))"

definition write_bulk_rows :: "'o bulk_insert_query \<Rightarrow> 'o sql_buf \<Rightarrow> sql_error + 'o sql_buf" where
  "write_bulk_rows q b =
     (if bq_columns q = [] then
        (case bq_returning q of
           [] \<Rightarrow> Inl EmptyInsert
         | pk # _ \<Rightarrow>
             let cell = (case field_by_column (bq_model q) pk of
                           None \<Rightarrow> ''DEFAULT'' | Some f \<Rightarrow> default_pk_cell (b_d b) f)
             in Inr (write_default_rows cell True (length (bq_rows q))
                  (push_str '') VALUES '' (write_ident pk (push_str '' ('' b)))))
      else
        Inr (write_rows (map (null_cast_for (b_d b) (bq_model q)) (bq_columns q)) True (bq_rows q)
          (push_str '') VALUES '' (write_idents_sep True (bq_columns q) (push_str '' ('' b)))))"

definition write_bulk_insert :: "'o bulk_insert_query \<Rightarrow> 'o sql_buf \<Rightarrow> sql_error + 'o sql_buf" where
  "write_bulk_insert q b =
     (if bq_rows q = [] then Inl EmptyBulkInsert
      else if bq_columns q = [] \<and> bq_returning q = [] then Inl EmptyInsert
      else case List.find (\<lambda>row. length row \<noteq> length (bq_columns q)) (bq_rows q) of
        Some row \<Rightarrow> Inl (InsertShapeMismatch (length (bq_columns q)) (length row))
      | None \<Rightarrow>
          try_then (write_bulk_rows q (write_ident (md_table (bq_model q)) (push_str ''INSERT INTO '' b))) (\<lambda>b2.
          try_then (write_on_conflict (bq_model q) (bq_columns q) (bq_generated q) (bq_on_conflict q) b2)
            (write_returning (bq_returning q))))"

definition with_scope :: "model_schema \<Rightarrow> ('o sql_buf \<Rightarrow> sql_error + 'o sql_buf) \<Rightarrow> 'o sql_buf \<Rightarrow> sql_error + 'o sql_buf" where
  "with_scope model f b =
     try_then (f (b\<lparr>b_scope_stack := b_scope_stack b @ [scope_plain model], b_dml_target := Some (md_table model)\<rparr>))
       (\<lambda>r. Inr (r\<lparr>b_scope_stack := butlast (b_scope_stack r)\<rparr>))"

fun write_assignments :: "model_schema \<Rightarrow> bool \<Rightarrow> (string \<times> 'o expr) list \<Rightarrow> 'o sql_buf \<Rightarrow> sql_error + 'o sql_buf" where
  "write_assignments model first [] b = Inr b"
| "write_assignments model first ((col, e) # rest) b =
     try_then (write_expr e (null_cast_for (b_d b) model col)
         (push_str '' = '' (write_ident col (if first then b else push_str '', '' b))))
       (write_assignments model False rest)"

definition write_update :: "'o update_query \<Rightarrow> 'o sql_buf \<Rightarrow> sql_error + 'o sql_buf" where
  "write_update q b =
     (if uq_set q = [] then Inl EmptyUpdateSet
      else with_scope (uq_model q) (\<lambda>b1.
             try_then (write_assignments (uq_model q) True (uq_set q)
                 (push_str '' SET '' (write_ident (md_table (uq_model q)) (push_str ''UPDATE '' b1))))
               (write_where (Some (uq_model q)) (uq_where q))) b)"

definition write_delete :: "'o delete_query \<Rightarrow> 'o sql_buf \<Rightarrow> sql_error + 'o sql_buf" where
  "write_delete q b =
     with_scope (dq_model q) (\<lambda>b1.
       write_where (Some (dq_model q)) (dq_where q)
         (write_ident (md_table (dq_model q)) (push_str ''DELETE FROM '' b1))) b"

definition compile_insert :: "dialect \<Rightarrow> 'o insert_query \<Rightarrow> sql_error + (string \<times> 'o sql_value list)" where
  "compile_insert d q = try_then (write_insert q (new_sql d)) finish"

definition compile_bulk_insert :: "dialect \<Rightarrow> 'o bulk_insert_query \<Rightarrow> sql_error + (string \<times> 'o sql_value list)" where
  "compile_bulk_insert d q = try_then (write_bulk_insert q (new_sql d)) finish"

definition compile_update :: "dialect \<Rightarrow> 'o update_query \<Rightarrow> sql_error + (string \<times> 'o sql_value list)" where
  "compile_update d q = try_then (write_update q (new_sql d)) finish"

definition compile_delete :: "dialect \<Rightarrow> 'o delete_query \<Rightarrow> sql_error + (string \<times> 'o sql_value list)" where
  "compile_delete d q = try_then (write_delete q (new_sql d)) finish"

end
