(* ===== verification/Sql_Lex.thy ===== *)
theory Sql_Lex
  imports Dialect_Ops
begin

text \<open>
  How a server reads a statement, as far as binds and nesting go: quoted identifiers and literals,
  comments (with the executable comments MySQL and MariaDB each take for their own), parentheses and
  placeholders. \<open>lex r t\<close> is the reader's state after \<open>t\<close>: where it is, whether it is inside an executable
  comment, the open parentheses, and the bind each placeholder read so far takes (\<open>$n\<close> the \<open>n\<close>-th on
  Postgres, the next one for a \<open>?\<close> elsewhere).
\<close>

section \<open>The reader\<close>

datatype reader = ReadPg | ReadSqlite | ReadMySql | ReadMariaDb

definition dialect_of :: "reader \<Rightarrow> dialect" where
  "dialect_of r = (case r of ReadPg \<Rightarrow> Postgres | ReadSqlite \<Rightarrow> Sqlite | _ \<Rightarrow> MySql)"

datatype lex_mode =
    L_Plain | L_Num | L_Quote char | L_Slash | L_Dash | L_Open string | L_Star | L_Skip | L_SkipStar | L_Line | L_Bad

type_synonym lex_state = "lex_mode \<times> bool \<times> nat \<times> nat list"

definition plain_step :: "reader \<Rightarrow> bool \<Rightarrow> nat \<Rightarrow> nat list \<Rightarrow> char \<Rightarrow> lex_state" where
  "plain_step r act k out c =
     (if c = CHR ''('' then (L_Plain, act, Suc k, out)
      else if c = CHR '')'' then (if k = 0 then L_Bad else L_Plain, act, k - 1, out)
      else if c = CHR 39 \<or> c = CHR 34 \<or> c = CHR 96 \<and> r \<noteq> ReadPg then (L_Quote c, act, k, out)
      else if c = CHR ''$'' \<and> r = ReadPg then (L_Num, act, k, out @ [0])
      else if c = CHR ''?'' \<and> r \<noteq> ReadPg then (L_Plain, act, k, out @ [Suc (length out)])
      else if c = CHR ''/'' then (L_Slash, act, k, out)
      else if c = CHR ''-'' then (L_Dash, act, k, out)
      else if c = CHR ''#'' \<and> r \<in> {ReadMySql, ReadMariaDb} then (L_Line, act, k, out)
      else if c = CHR ''*'' \<and> act then (L_Star, act, k, out)
      else (L_Plain, act, k, out))"

definition open_step :: "reader \<Rightarrow> string \<Rightarrow> lex_mode \<times> bool" where
  "open_step r s =
     (if s = ''!80000'' \<and> r = ReadMySql \<or> s = ''M!'' \<and> r = ReadMariaDb then (L_Plain, True)
      else if r \<in> {ReadMySql, ReadMariaDb} \<and> s \<in> {''!'', ''!8'', ''!80'', ''!800'', ''!8000'', ''M''} then (L_Open s, False)
      else (L_Skip, False))"

fun lex_step :: "reader \<Rightarrow> lex_state \<Rightarrow> char \<Rightarrow> lex_state" where
  "lex_step r (L_Plain, act, k, out) c = plain_step r act k out c"
| "lex_step r (L_Num, act, k, out) c =
     (if is_ascii_digit c then (L_Num, act, k, butlast out @ [last out * 10 + digit_val c])
      else plain_step r act k out c)"
| "lex_step r (L_Quote q, act, k, out) c = (if c = q then L_Plain else L_Quote q, act, k, out)"
| "lex_step r (L_Slash, act, k, out) c =
     (if c = CHR ''*'' then (L_Open [], act, k, out) else plain_step r act k out c)"
| "lex_step r (L_Dash, act, k, out) c =
     (if c = CHR ''-'' then (L_Line, act, k, out) else plain_step r act k out c)"
| "lex_step r (L_Open s, act, k, out) c = (let (m, a) = open_step r (s @ [c]) in (m, act \<or> a, k, out))"
| "lex_step r (L_Star, act, k, out) c =
     (if c = CHR ''/'' then (L_Plain, False, k, out) else plain_step r act k out c)"
| "lex_step r (L_Skip, act, k, out) c = (if c = CHR ''*'' then L_SkipStar else L_Skip, act, k, out)"
| "lex_step r (L_SkipStar, act, k, out) c =
     (if c = CHR ''/'' then L_Plain else if c = CHR ''*'' then L_SkipStar else L_Skip, act, k, out)"
| "lex_step r (L_Line, act, k, out) c = (if c = CHR 10 then L_Plain else L_Line, act, k, out)"
| "lex_step r (L_Bad, act, k, out) c = (L_Bad, act, k, out)"

definition lex_run :: "reader \<Rightarrow> string \<Rightarrow> lex_state \<Rightarrow> lex_state" where
  "lex_run r t s = foldl (lex_step r) s t"

definition lex :: "reader \<Rightarrow> string \<Rightarrow> lex_state" where
  "lex r t = lex_run r t (L_Plain, False, 0, [])"

text \<open>
  The reader takes the statement as one closed piece with \<open>n\<close> binds: it ends outside every quote,
  comment and parenthesis, no parenthesis closes one the text did not open, and its placeholders, in
  the order they stand in the text, take the binds \<open>1, \<dots>, n\<close>, each once.
\<close>

definition reads_binds :: "reader \<Rightarrow> string \<Rightarrow> nat \<Rightarrow> bool" where
  "reads_binds r t n \<longleftrightarrow>
     (case lex r t of (m, act, k, out) \<Rightarrow> (m = L_Plain \<or> m = L_Num) \<and> \<not> act \<and> k = 0 \<and> out = [1..<Suc n])"

section \<open>Running over pieces\<close>

named_theorems lex_simps \<open>running the reader over the writers' fragments\<close>

lemma lex_run_append [simp]: "lex_run r (a @ b) s = lex_run r b (lex_run r a s)"
  by (simp add: lex_run_def)

lemma lex_run_Nil [simp]: "lex_run r [] s = s"
  by (simp add: lex_run_def)

lemma lex_run_Cons [simp]: "lex_run r (c # cs) s = lex_run r cs (lex_step r s c)"
  by (simp add: lex_run_def)

text \<open>The mode right after a placeholder: Postgres may still be reading digits.\<close>

definition after_bind :: "reader \<Rightarrow> lex_mode" where
  "after_bind r = (if r = ReadPg then L_Num else L_Plain)"

lemma lex_step_after [simp]:
  "\<not> is_ascii_digit c \<Longrightarrow> lex_step r (after_bind r, act, k, out) c = plain_step r act k out c"
  by (simp add: after_bind_def)

lemma is_ascii_digit_code [simp]:
  "is_ascii_digit c \<longleftrightarrow> (48::nat) \<le> of_char c \<and> of_char c \<le> (57::nat)"
  by (simp add: is_ascii_digit_def)

subsection \<open>Identifiers\<close>

lemma push_quoted_with_body: "push_quoted_with name q = [q] @ ident_body q name @ [q]"
proof -
  have "concat (map (\<lambda>part. part @ (if ends_with part [q] then [q] else [])) (split_inclusive q name)) = ident_body q name"
  proof (induction name)
    case (Cons c cs)
    show ?case
    proof (cases "c = q")
      case True
      with Cons show ?thesis by (simp add: ends_with_def)
    next
      case False
      then have ends: "ends_with (c # p) [q] = ends_with p [q]" for p
        by (cases p) (auto simp: ends_with_def Suc_diff_le)
      show ?thesis
      proof (cases "split_inclusive q cs")
        case Nil
        with Cons False show ?thesis by (simp add: ends_with_def)
      next
        case (Cons p ps)
        then show ?thesis using False Cons.IH ends by auto
      qed
    qed
  qed simp
  then show ?thesis by (simp add: push_quoted_with_def)
qed

lemma ident_body_doubles: "ident_body q name = concat (map (\<lambda>c. if c = q then [q, q] else [c]) name)"
  by (induction name) simp_all

lemma lex_run_ident_body:
  "q \<in> {CHR 34, CHR 39} \<or> q = CHR 96 \<and> r \<noteq> ReadPg \<Longrightarrow>
   lex_run r (ident_body q name) (L_Quote q, act, k, out) = (L_Quote q, act, k, out)"
  by (induction name) (auto simp: plain_step_def)

definition neutral :: "reader \<Rightarrow> string \<Rightarrow> bool" where
  "neutral r t \<longleftrightarrow>
     (\<forall>m act k out. m = L_Plain \<or> m = after_bind r \<longrightarrow> lex_run r t (m, act, k, out) = (L_Plain, act, k, out))"

lemma neutral_run [simp]:
  "neutral r t \<Longrightarrow> lex_run r t (L_Plain, act, k, out) = (L_Plain, act, k, out)"
  "neutral r t \<Longrightarrow> lex_run r t (after_bind r, act, k, out) = (L_Plain, act, k, out)"
  by (simp_all add: neutral_def)

lemma neutral_append: "neutral r a \<Longrightarrow> neutral r b \<Longrightarrow> neutral r (a @ b)"
  by (simp add: neutral_def del: neutral_run)

lemma neutral_quoted:
  "q = CHR 34 \<or> q = CHR 96 \<and> r \<noteq> ReadPg \<Longrightarrow> neutral r ([q] @ ident_body q name @ [q])"
  by (auto simp: neutral_def plain_step_def after_bind_def lex_run_ident_body simp del: neutral_run)

lemma neutral_ident [simp]: "dialect_of r = d \<Longrightarrow> neutral r (push_quoted_ident d name)"
  unfolding push_quoted_ident_def push_quoted_with_body
  by (rule neutral_quoted) (auto simp: ident_quote_def dialect_of_def split: reader.splits)

lemma neutral_writer_idents [simp]:
  "neutral r (write_pg_ident name)" "neutral r (write_sqlite_ident name)"
  "r \<noteq> ReadPg \<Longrightarrow> neutral r (write_my_ident name)"
  unfolding write_pg_ident_def write_sqlite_ident_def write_my_ident_def
  by (rule neutral_quoted; simp)+

lemma neutral_dot: "neutral r ''.''"
  by (auto simp: neutral_def plain_step_def after_bind_def simp del: neutral_run)

lemma neutral_qualified [simp]: "dialect_of r = d \<Longrightarrow> neutral r (push_qualified d table column)"
  by (cases table) (simp_all add: push_qualified_def neutral_append neutral_append [OF neutral_dot, simplified])

subsection \<open>Placeholders\<close>

lemma is_ascii_digit_char: "n < 10 \<Longrightarrow> is_ascii_digit (digit_char n)"
  by (simp add: of_char_digit)

lemma lex_run_show_nat:
  "lex_run r (show_nat n) (L_Num, act, k, out @ [0]) = (L_Num, act, k, out @ [n])"
proof (induction n rule: show_nat.induct)
  case (1 n)
  show ?case
  proof (cases "n < 10")
    case True
    then show ?thesis
      using is_ascii_digit_char [OF True]
      by (subst show_nat.simps) (simp add: digit_val_def of_char_digit del: is_ascii_digit_code)
  next
    case False
    have m: "n mod 10 < 10" by simp
    show ?thesis
      using 1 [OF False] False is_ascii_digit_char [OF m]
      by (subst show_nat.simps) (simp add: digit_val_def of_char_digit [OF m] del: is_ascii_digit_code)
  qed
qed

lemma lex_run_placeholder [simp]:
  "dialect_of r = d \<Longrightarrow> length out = n \<Longrightarrow>
   lex_run r (placeholder d (Suc n)) (L_Plain, act, k, out) = (after_bind r, act, k, out @ [Suc n])"
  by (cases r) (auto simp: placeholder_def dialect_of_def after_bind_def plain_step_def lex_run_show_nat)

section \<open>What the writers leave\<close>

definition binds_to :: "nat \<Rightarrow> nat list" where
  "binds_to n = [1..<Suc n]"

lemma binds_to_simps [simp]:
  "length (binds_to n) = n"
  "binds_to n @ [Suc n] = binds_to (Suc n)"
  "binds_to 0 = []"
  by (simp_all add: binds_to_def)

text \<open>\<open>lex_settled\<close> is the state between two fragments: outside everything, \<open>k\<close> parentheses open, \<open>n\<close> binds read.\<close>

definition lex_settled :: "reader \<Rightarrow> lex_state \<Rightarrow> nat \<Rightarrow> nat \<Rightarrow> bool" where
  "lex_settled r s k n \<longleftrightarrow> (\<exists>m. (m = L_Plain \<or> m = after_bind r) \<and> s = (m, False, k, binds_to n))"

lemma settled_simps [simp]:
  "lex_settled r (L_Plain, False, k, binds_to n) k n"
  "lex_settled r (after_bind r, False, k, binds_to n) k n"
  by (simp_all add: lex_settled_def)

text \<open>A fragment \<open>t\<close> of depth zero that reads the binds after the \<open>n\<close>-th up to the \<open>n'\<close>-th.\<close>

definition piece :: "reader \<Rightarrow> string \<Rightarrow> nat \<Rightarrow> nat \<Rightarrow> bool" where
  "piece r t n n' \<longleftrightarrow> (\<forall>k. lex_settled r (lex_run r t (L_Plain, False, k, binds_to n)) k n')"

text \<open>A fragment between pieces: no placeholder, \<open>j\<close> parentheses closed and \<open>j'\<close> opened.\<close>

definition shift :: "reader \<Rightarrow> string \<Rightarrow> nat \<Rightarrow> nat \<Rightarrow> bool" where
  "shift r t j j' \<longleftrightarrow>
     (\<forall>m k out. m = L_Plain \<or> m = after_bind r \<longrightarrow>
        lex_run r t (m, False, k + j, out) = (L_Plain, False, k + j', out))"

lemma shiftI:
  "(\<And>k out. lex_run r t (L_Plain, False, k + j, out) = (L_Plain, False, k + j', out)) \<Longrightarrow>
   (\<And>k out. lex_run r t (after_bind r, False, k + j, out) = (L_Plain, False, k + j', out)) \<Longrightarrow> shift r t j j'"
  by (auto simp: shift_def)

lemma neutral_shift: "neutral r t \<Longrightarrow> shift r t 0 0"
  by (simp add: shift_def neutral_def del: neutral_run)

lemma settled_shift:
  "lex_settled r s (k + j) n \<Longrightarrow> shift r t j j' \<Longrightarrow> lex_run r t s = (L_Plain, False, k + j', binds_to n)"
  by (auto simp: lex_settled_def shift_def)

end
