(* ===== verification/Dialect_Lex.thy ===== *)
theory Dialect_Lex
  imports Sql_Lex
begin

text \<open>
  The dialects' operator writers, read back: each predicate is one closed piece whose placeholders
  take the binds they were given.
\<close>

lemmas reader_simps = plain_step_def open_step_def dialect_of_def after_bind_def

lemma pieceI:
  "(\<And>k. lex_settled r (lex_run r t (L_Plain, False, k, binds_to n)) k n') \<Longrightarrow> piece r t n n'"
  by (simp add: piece_def)

lemma ilike_reads:
  assumes "dialect_of r = d" "neutral r col"
  shows "piece r (write_ilike d col (placeholder d (Suc n)) neg) n (Suc n)"
  using assms by (cases r) (simp_all add: write_ilike_def plain_step_def dialect_of_def piece_def)

lemma regex_reads:
  assumes "dialect_of r = d" "neutral r col"
  shows "piece r (write_regex d col (placeholder d (Suc n)) cs neg) n (Suc n)"
  using assms by (cases r; cases cs; cases neg) (simp_all add: write_regex_def plain_step_def dialect_of_def piece_def)

lemma neutral_like_operand [simp]:
  assumes "dialect_of r = d" "neutral r col"
  shows "neutral r (like_operand d col ty)"
proof (cases r)
  case ReadPg
  then show ?thesis using assms
    by (cases ty) (auto simp: like_operand_def dialect_of_def neutral_def [of _ "_ # _"] plain_step_def)
next
  case ReadSqlite
  have "neutral r (uuid_text col)"
    unfolding neutral_def [of _ "uuid_text col"] using ReadSqlite assms(2)
    by (auto simp: uuid_text_def Let_def plain_step_def after_bind_def)
  then show ?thesis using assms ReadSqlite by (simp add: like_operand_def dialect_of_def)
qed (use assms in \<open>auto simp: like_operand_def dialect_of_def\<close>)

lemma ilike_typed_reads:
  assumes "dialect_of r = d" "neutral r col"
  shows "piece r (write_ilike_typed d col ty (placeholder d (Suc n)) neg) n (Suc n)"
  unfolding write_ilike_typed_def by (rule ilike_reads) (use assms in simp_all)

lemma trigram_reads:
  assumes "dialect_of r = d" "neutral r col" "write_trigram_similar d col (placeholder d (Suc n)) w = Inr t"
  shows "piece r t n (Suc n)"
  using assms by (cases r) (auto simp: write_trigram_similar_def plain_step_def dialect_of_def piece_def split: if_splits)

lemma search_reads:
  assumes "dialect_of r = d" "neutral r col" "write_search d col (placeholder d (Suc n)) = Inr t"
  shows "piece r t n (Suc n)"
  using assms by (cases r) (auto simp: write_search_def plain_step_def dialect_of_def piece_def)

text \<open>The wrapped placeholder of a JSON or Decimal bind, and the operators over it.\<close>

lemma json_param_run [simp]:
  "dialect_of r = d \<Longrightarrow> length out = n \<Longrightarrow>
   lex_run r (write_json_param d (placeholder d (Suc n))) (L_Plain, False, k, out) = (after_bind r, False, k, out @ [Suc n])"
  by (cases r) (auto simp: write_json_param_def dialect_of_def plain_step_def open_step_def placeholder_def after_bind_def
      lex_run_show_nat)

lemma decimal_param_run [simp]:
  "dialect_of r = d \<Longrightarrow> length out = n \<Longrightarrow>
   lex_run r (write_decimal_param d (placeholder d (Suc n))) (L_Plain, False, k, out) = (after_bind r, False, k, out @ [Suc n])"
  by (cases r) (auto simp: write_decimal_param_def dialect_of_def plain_step_def placeholder_def after_bind_def
      lex_run_show_nat)

definition bind_like :: "reader \<Rightarrow> string \<Rightarrow> nat \<Rightarrow> bool" where
  "bind_like r p n \<longleftrightarrow>
     (\<forall>k out. length out = n \<longrightarrow> lex_run r p (L_Plain, False, k, out) = (after_bind r, False, k, out @ [Suc n]))"

lemma bind_like_run [simp]:
  "bind_like r p n \<Longrightarrow> length out = n \<Longrightarrow> lex_run r p (L_Plain, False, k, out) = (after_bind r, False, k, out @ [Suc n])"
  by (simp add: bind_like_def)

lemma null_safe_reads:
  assumes "dialect_of r = d" "neutral r col" "bind_like r p n"
  shows "piece r (write_null_safe_eq d col p neg) n (Suc n)"
  using assms by (cases r) (simp_all add: write_null_safe_eq_def plain_step_def dialect_of_def piece_def)

lemma like_typed_reads:
  assumes "dialect_of r = d" "neutral r col" "bind_like r p n"
  shows "piece r (write_like_typed d col ty p neg) n (Suc n)"
  using assms neutral_like_operand [OF assms(1,2), of ty]
  by (cases r) (simp_all add: write_like_typed_def plain_step_def dialect_of_def piece_def)

lemma escape_clause_neutral: "neutral r LIKE_ESCAPE_CLAUSE"
  by (auto simp: neutral_def LIKE_ESCAPE_CLAUSE_def plain_step_def after_bind_def simp del: neutral_run)

subsection \<open>JSON\<close>

lemma json_contains_reads:
  assumes "dialect_of r = d" "neutral r col"
  shows "piece r (write_json_contains d col (placeholder d (Suc n))) n (Suc n)"
  using assms by (cases r) (simp_all add: write_json_contains_def plain_step_def dialect_of_def piece_def)

lemma json_contained_by_reads:
  assumes "dialect_of r = d" "neutral r col"
  shows "piece r (write_json_contained_by d col (placeholder d (Suc n))) n (Suc n)"
  using assms by (cases r) (simp_all add: write_json_contained_by_def plain_step_def dialect_of_def piece_def)

lemma json_has_key_reads:
  assumes "dialect_of r = d" "neutral r col" "supports_op d Op_JsonHasKey"
  shows "piece r (write_json_has_key d col (placeholder d (Suc n))) n (Suc n)"
  using assms
  by (cases r) (simp_all add: write_json_has_key_def write_my_json_has_keys_def plain_step_def dialect_of_def piece_def
      supports_op_def)

lemma skip_run:
  "\<not> contains_str ''*/'' s \<Longrightarrow>
   lex_run r s (L_Skip, act, k, out) = (if s \<noteq> [] \<and> last s = CHR ''*'' then L_SkipStar else L_Skip, act, k, out)"
  "\<not> contains_str ''*/'' s \<Longrightarrow> \<not> starts_with s ''/'' \<Longrightarrow>
   lex_run r s (L_SkipStar, act, k, out) = (if s = [] \<or> last s = CHR ''*'' then L_SkipStar else L_Skip, act, k, out)"
proof (induction s)
  case (Cons c cs)
  {
    case 1
    then have rest: "\<not> contains_str ''*/'' cs" and nx: "c = CHR ''*'' \<Longrightarrow> \<not> starts_with cs ''/''"
      by (auto simp: starts_with_def)
    then show ?case using Cons.IH(1) [OF rest] Cons.IH(2) [OF rest] by auto
  next
    case 2
    then have rest: "\<not> contains_str ''*/'' cs" and nx: "c = CHR ''*'' \<Longrightarrow> \<not> starts_with cs ''/''"
      and c: "c \<noteq> CHR ''/''"
      by (auto simp: starts_with_def)
    then show ?case using Cons.IH(1) [OF rest] Cons.IH(2) [OF rest] by auto
  }
qed (simp_all add: starts_with_def)

lemma json_eq_reads:
  assumes "dialect_of r = d" "neutral r col" "col \<noteq> []" "last col \<noteq> CHR ''*''"
    and eq: "write_json_eq d col (placeholder d (Suc n)) ne = Some t"
  shows "piece r t n (Suc n)"
proof (cases r)
  case ReadPg
  then show ?thesis using assms(1) eq by (simp add: write_json_eq_def dialect_of_def split: dialect.splits)
next
  case ReadSqlite
  then show ?thesis using assms(1,2) eq
    by (auto simp: write_json_eq_def dialect_of_def Let_def json_tree_rows_def piece_def plain_step_def)
next
  case ReadMySql
  then have skip: "\<not> contains_str ''*/'' col" using assms(1) eq
    by (simp add: write_json_eq_def dialect_of_def split: dialect.splits if_splits)
  show ?thesis using assms skip ReadMySql
    by (auto simp: write_json_eq_def dialect_of_def by_server_def piece_def plain_step_def open_step_def
        placeholder_def after_bind_def skip_run(1))
next
  case ReadMariaDb
  then have skip: "\<not> contains_str ''*/'' col" using assms(1) eq
    by (simp add: write_json_eq_def dialect_of_def split: dialect.splits if_splits)
  show ?thesis using assms skip ReadMariaDb
    by (auto simp: write_json_eq_def dialect_of_def by_server_def piece_def plain_step_def open_step_def
        placeholder_def after_bind_def skip_run(1))
qed

text \<open>The placeholders of a list of binds, the first of them the bind after the \<open>n\<close>-th.\<close>

definition placeholders :: "dialect \<Rightarrow> nat \<Rightarrow> nat \<Rightarrow> string list" where
  "placeholders d n m = map (\<lambda>i. placeholder d (Suc i)) [n..<n + m]"

lemma placeholders_simps [simp]:
  "placeholders d n 0 = []"
  "placeholders d n (Suc m) = placeholder d (Suc n) # placeholders d (Suc n) m"
  by (simp_all add: placeholders_def upt_conv_Cons del: upt_Suc)

lemma key_list_reads:
  assumes "dialect_of r = d"
  shows "lex_settled r (lex_run r (join_str '', '' (placeholders d n m)) (L_Plain, False, k, binds_to n)) k (n + m)"
proof (induction m arbitrary: n)
  case (Suc m)
  show ?case
  proof (cases m)
    case 0
    then show ?thesis using assms by simp
  next
    case (Suc m')
    then show ?thesis using assms Suc.IH [of "Suc n"] by (simp add: plain_step_def)
  qed
qed simp

lemma my_keys_run:
  assumes "dialect_of r = MySql"
  shows "lex_run r (concat (map (\<lambda>p. '', CONCAT('$.', JSON_QUOTE('' @ p @ ''))'') (placeholders MySql n m)))
           (L_Plain, False, k, binds_to n) = (L_Plain, False, k, binds_to (n + m))"
proof (induction m arbitrary: n)
  case (Suc m)
  have "r \<noteq> ReadPg" using assms by (auto simp: dialect_of_def)
  then show ?case using assms Suc [of "Suc n"] by (simp add: plain_step_def)
qed simp

lemma pg_keys_reads:
  assumes "dialect_of r = d" "d = Postgres" "neutral r col" "kw = '' ?| ARRAY['' \<or> kw = '' ?& ARRAY[''"
  shows "piece r (write_pg_array_keys col (placeholders d n m) kw) n (n + m)"
proof (rule pieceI)
  fix k
  have pg: "r = ReadPg" using assms(1,2) by (cases r) (auto simp: dialect_of_def)
  let ?s = "lex_run r (join_str '', '' (placeholders d n m)) (L_Plain, False, k, binds_to n)"
  have "lex_run r (col @ kw) (L_Plain, False, k, binds_to n) = (L_Plain, False, k, binds_to n)"
    using assms(3,4) pg by (auto simp: plain_step_def)
  moreover have "shift r '']'' 0 0" using pg by (auto intro!: shiftI simp: plain_step_def)
  ultimately show "lex_settled r (lex_run r (write_pg_array_keys col (placeholders d n m) kw) (L_Plain, False, k, binds_to n)) k (n + m)"
    using settled_shift [of r ?s k 0 "n + m" "'']''" 0] key_list_reads [OF assms(1), of n m k]
    by (simp add: write_pg_array_keys_def)
qed

lemma my_has_keys_reads:
  assumes "dialect_of r = MySql" "neutral r col" "mode \<in> {''one'', ''all''}"
  shows "piece r (write_my_json_has_keys col (placeholders MySql n m) mode) n (n + m)"
proof (rule pieceI)
  fix k
  have "r \<noteq> ReadPg" using assms(1) by (auto simp: dialect_of_def)
  then show "lex_settled r (lex_run r (write_my_json_has_keys col (placeholders MySql n m) mode)
      (L_Plain, False, k, binds_to n)) k (n + m)"
    using assms my_keys_run [OF assms(1), of n m "Suc k"]
    by (auto simp: write_my_json_has_keys_def plain_step_def)
qed

section \<open>Operators, casts and conflict clauses\<close>

lemma neutral_cast_token [simp]: "cast_type d ty = Some t \<Longrightarrow> neutral r t"
proof (cases d)
  case Postgres
  assume "cast_type d ty = Some t"
  with Postgres have "ansi_cast_type ty = Some t" by (simp add: cast_type_def)
  then show ?thesis
    by (cases ty rule: ansi_cast_type.cases) (auto simp: neutral_def plain_step_def after_bind_def simp del: neutral_run)
next
  case MySql
  assume "cast_type d ty = Some t"
  with MySql have "mysql_cast_type ty = Some t" by (simp add: cast_type_def)
  then show ?thesis
    by (cases ty rule: mysql_cast_type.cases) (auto simp: neutral_def plain_step_def after_bind_def simp del: neutral_run)
next
  case Sqlite
  assume "cast_type d ty = Some t"
  with Sqlite have "sqlite_cast_type ty = Some t" by (simp add: cast_type_def)
  then have "t \<in> {''INTEGER'', ''REAL'', ''NUMERIC'', ''BLOB'', ''TEXT''}"
    by (cases ty rule: sqlite_cast_type.cases) auto
  then show ?thesis by (auto simp: neutral_def plain_step_def after_bind_def simp del: neutral_run)
qed

lemma neutral_colons: "neutral r ''::''"
  by (auto simp: neutral_def plain_step_def after_bind_def simp del: neutral_run)

lemma neutral_cast_suffix [simp]: "neutral r t \<Longrightarrow> neutral r (CHR '':'' # CHR '':'' # t)"
  using neutral_append [OF neutral_colons, of r t] by simp

lemma neutral_symbol:
  "symb \<in> {''@>'', ''<@'', ''&&'', ''<<'', ''>>'', ''-|-''} \<Longrightarrow> neutral r ('' '' @ symb @ '' '')"
  by (auto simp: neutral_def plain_step_def after_bind_def simp del: neutral_run)

lemma symbol_op_reads:
  assumes "dialect_of r = d" "neutral r col" "symb \<in> {''@>'', ''<@'', ''&&'', ''<<'', ''>>'', ''-|-''}"
    and "suffix = [] \<or> neutral r suffix"
  shows "piece r (col @ '' '' @ symb @ '' '' @ placeholder d (Suc n) @ suffix) n (Suc n)"
proof (rule pieceI)
  fix k
  have "lex_run r (col @ '' '' @ symb @ '' '') (L_Plain, False, k, binds_to n) = (L_Plain, False, k, binds_to n)"
    using neutral_run(1) [OF neutral_append [OF assms(2) neutral_symbol [OF assms(3)]]] by simp
  then show "lex_settled r (lex_run r (col @ '' '' @ symb @ '' '' @ placeholder d (Suc n) @ suffix)
      (L_Plain, False, k, binds_to n)) k (Suc n)"
    using assms(1,4) by auto
qed

lemma neutral_join_run:
  "\<forall>x\<in>set xs. neutral r x \<Longrightarrow> lex_run r (join_str '', '' xs) (L_Plain, act, k, out) = (L_Plain, act, k, out)"
proof (induction xs)
  case (Cons x xs)
  then show ?case by (cases xs) (simp_all add: plain_step_def)
qed simp

lemma digit_not_special:
  "is_ascii_digit c \<Longrightarrow> c \<notin> {CHR ''('', CHR '')'', CHR 39, CHR 34, CHR 96, CHR ''$'', CHR ''?'', CHR ''/'', CHR ''-'', CHR ''#'', CHR ''*''}"
  by auto

lemma digits_run:
  "list_all is_ascii_digit s \<Longrightarrow> lex_run r s (L_Plain, act, k, out) = (L_Plain, act, k, out)"
proof (induction s)
  case (Cons c cs)
  have "plain_step r act k out c = (L_Plain, act, k, out)"
    using digit_not_special [of c] Cons.prems by (simp add: plain_step_def del: is_ascii_digit_code)
  with Cons show ?case by (simp del: is_ascii_digit_code)
qed simp

lemma ansi_conflict_neutral:
  assumes "\<And>name. neutral r (ident name)" "neutral r excl"
  shows "neutral r (ansi_conflict_clause ident excl c)"
proof (cases c)
  case DoNothing
  then show ?thesis
    by (auto simp: ansi_conflict_clause_def neutral_def plain_step_def after_bind_def simp del: neutral_run)
next
  case (DoUpdate target cols)
  have t: "\<forall>x\<in>set (map ident target). neutral r x" using assms(1) by simp
  have u: "\<forall>x\<in>set (map (\<lambda>col. ident col @ excl @ ident col) cols). neutral r x"
    using assms by (simp add: neutral_append)
  show ?thesis
    unfolding neutral_def [of r "ansi_conflict_clause ident excl c"] using DoUpdate
    by (auto simp: ansi_conflict_clause_def plain_step_def neutral_join_run [OF t] neutral_join_run [OF u])
qed

lemma set_insert_id_neutral:
  assumes "\<And>act k out. lex_run r ident (L_Plain, act, k, out) = (L_Plain, act, k, out)" "neutral r v"
  shows "neutral r (write_my_set_insert_id ident v)"
  unfolding neutral_def [of r "write_my_set_insert_id ident v"] using assms
  by (auto simp: write_my_set_insert_id_def plain_step_def)

lemma neutral_assign: "neutral r a \<Longrightarrow> neutral r v \<Longrightarrow> neutral r (a @ '' = '' @ v)"
  unfolding neutral_def [of r "a @ _"] by (auto simp: plain_step_def)

lemma my_assignments_neutral:
  assumes "r \<noteq> ReadPg" "\<And>i. ident = Some i \<Longrightarrow> neutral r i"
  shows "\<forall>t\<in>set (my_assignments ident cols). neutral r t"
  using assms(2)
proof (induction ident cols rule: my_assignments.induct)
  case (2 ident col cols)
  let ?v = "''VALUES('' @ write_my_ident col @ '')''"
  have v: "neutral r ?v"
    unfolding neutral_def [of r ?v] using assms(1) by (auto simp: plain_step_def)
  have "neutral r (case ident of Some i \<Rightarrow> write_my_set_insert_id i ?v | None \<Rightarrow> ?v)"
    using v 2(2) by (cases ident) (auto intro!: set_insert_id_neutral)
  then have "neutral r (write_my_ident col @ '' = '' @ (case ident of Some i \<Rightarrow> write_my_set_insert_id i ?v | None \<Rightarrow> ?v))"
    using assms(1) by (intro neutral_assign) simp_all
  then show ?case using 2(1) by (cases ident) (simp_all add: Let_def)
qed simp

lemma neutral_duplicate_key:
  assumes "\<And>act k out. lex_run r t (L_Plain, act, k, out) = (L_Plain, act, k, out)"
  shows "neutral r ('' ON DUPLICATE KEY UPDATE '' @ t)"
  unfolding neutral_def [of r "_ @ t"] using assms by (auto simp: plain_step_def)

lemma skip_marker_neutral:
  assumes "r \<noteq> ReadPg" "write_my_skip_marker model (show_nat i) = Inr m"
  shows "neutral r m"
proof -
  have "neutral r (write_my_ident c @ '' = '' @ write_my_set_insert_id (show_nat i) (write_my_ident c))" for c
    using assms(1) by (intro neutral_assign set_insert_id_neutral digits_run show_nat_digits) simp_all
  from this [simplified] show ?thesis using assms(2)
    by (auto simp: write_my_skip_marker_def Let_def split: option.splits if_splits)
qed

lemma mysql_conflict_neutral:
  assumes "r \<noteq> ReadPg" "mysql_conflict_clause model cs c = Inr t"
  shows "neutral r t"
proof (cases c)
  case DoNothing
  then obtain m where m: "write_my_skip_marker model (show_nat SKIPPED_INSERT_ID) = Inr m"
    and t: "t = '' ON DUPLICATE KEY UPDATE '' @ m"
    using assms(2) by (auto simp: mysql_conflict_clause_def split: sum.splits)
  have "neutral r m" by (rule skip_marker_neutral [OF assms(1) m])
  then show ?thesis unfolding t by (intro neutral_duplicate_key) simp
next
  case (DoUpdate target cols)
  then obtain ident where t: "t = '' ON DUPLICATE KEY UPDATE '' @ join_str '', '' (my_assignments ident cols)"
    and i: "ident \<in> {None} \<union> {Some (write_my_ident n) | n. True}"
    using assms(2) by (auto simp: mysql_conflict_clause_def Let_def split: if_splits option.splits)
  have "\<forall>t\<in>set (my_assignments ident cols). neutral r t"
    by (rule my_assignments_neutral [OF assms(1)]) (use i assms(1) in auto)
  then show ?thesis unfolding t by (intro neutral_duplicate_key neutral_join_run)
qed

lemma conflict_clause_neutral:
  assumes "dialect_of r = d" "write_conflict_clause d model cs c = Inr t"
  shows "neutral r t"
proof -
  have ex: "neutral r '' = EXCLUDED.''" "neutral r '' = excluded.''"
    by (auto simp: neutral_def plain_step_def after_bind_def simp del: neutral_run)
  show ?thesis using assms ex
    by (cases r) (auto simp: write_conflict_clause_def dialect_of_def intro: ansi_conflict_neutral mysql_conflict_neutral)
qed

end
