(* ===== verification/Sql_Writer_Lex.thy ===== *)
theory Sql_Writer_Lex
  imports Sql_Writer Dialect_Lex
begin

text \<open>
  The writers keep the statement readable: from a buffer whose text so far is read with its binds in
  order, each writer leaves one that is, at the same nesting depth.
\<close>

section \<open>Buffers a reader can follow\<close>

definition fresh :: "reader \<Rightarrow> 'o sql_buf \<Rightarrow> nat \<Rightarrow> bool" where
  "fresh r b k \<longleftrightarrow>
     b_d b = dialect_of r \<and> lex r (b_sql b) = (L_Plain, False, k, binds_to (length (b_params b)))"

definition sql_ready :: "reader \<Rightarrow> 'o sql_buf \<Rightarrow> nat \<Rightarrow> bool" where
  "sql_ready r b k \<longleftrightarrow> b_d b = dialect_of r \<and> lex_settled r (lex r (b_sql b)) k (length (b_params b))"

lemma fresh_ready: "fresh r b k \<Longrightarrow> sql_ready r b k"
  by (simp add: fresh_def sql_ready_def)

lemma fresh_d: "fresh r b k \<Longrightarrow> b_d b = dialect_of r"
  by (simp add: fresh_def)

lemma ready_d: "sql_ready r b k \<Longrightarrow> b_d b = dialect_of r"
  by (simp add: sql_ready_def)

lemma push_str_simps [simp]:
  "b_d (push_str t b) = b_d b" "b_params (push_str t b) = b_params b" "b_sql (push_str t b) = b_sql b @ t"
  "b_scope_stack (push_str t b) = b_scope_stack b" "push_str [] b = b"
  by (simp_all add: push_str_def)

lemma push_str_push: "push_str u (push_str t b) = push_str (t @ u) b"
  by (simp add: push_str_def)

lemma lex_append: "lex r (a @ t) = lex_run r t (lex r a)"
  by (simp add: lex_def)

text \<open>The fields a writer tracks beside the text do not matter to the reader.\<close>

definition same_text :: "'o sql_buf \<Rightarrow> 'o sql_buf \<Rightarrow> bool" where
  "same_text a b \<longleftrightarrow> b_d a = b_d b \<and> b_sql a = b_sql b \<and> b_params a = b_params b"

lemma same_text_fresh: "same_text a b \<Longrightarrow> fresh r a k \<longleftrightarrow> fresh r b k"
  by (simp add: same_text_def fresh_def)

lemma same_text_ready: "same_text a b \<Longrightarrow> sql_ready r a k \<longleftrightarrow> sql_ready r b k"
  by (simp add: same_text_def sql_ready_def)

section \<open>Literal fragments\<close>

text \<open>The balance of a fragment without quotes, comments or placeholders.\<close>

fun bal :: "string \<Rightarrow> nat \<Rightarrow> nat option" where
  "bal [] j = Some j"
| "bal (c # cs) j =
     (if c = CHR ''('' then bal cs (Suc j)
      else if c = CHR '')'' then (case j of 0 \<Rightarrow> None | Suc i \<Rightarrow> bal cs i)
      else if c \<in> {CHR 39, CHR 34, CHR 96, CHR ''$'', CHR ''?'', CHR ''/'', CHR ''-'', CHR ''#''} then None
      else bal cs j)"

lemma bal_run:
  "bal t j = Some j' \<Longrightarrow> lex_run r t (L_Plain, False, k + j, out) = (L_Plain, False, k + j', out)"
proof (induction t arbitrary: j)
  case (Cons c cs)
  consider "c = CHR ''(''" | i where "c = CHR '')''" "j = Suc i" "bal cs i = Some j'"
    | "c \<notin> {CHR ''('', CHR '')'', CHR 39, CHR 34, CHR 96, CHR ''$'', CHR ''?'', CHR ''/'', CHR ''-'', CHR ''#''}" "bal cs j = Some j'"
    using Cons.prems by (auto split: if_splits nat.splits)
  then show ?case
  proof cases
    case 1
    then show ?thesis using Cons.IH [of "Suc j"] Cons.prems by (simp add: plain_step_def)
  next
    case 2
    then show ?thesis using Cons.IH [of i] by (simp add: plain_step_def)
  next
    case 3
    then show ?thesis using Cons.IH [of j] by (simp add: plain_step_def)
  qed
qed simp

definition starts_plain :: "string \<Rightarrow> bool" where
  "starts_plain t \<longleftrightarrow> (case t of [] \<Rightarrow> False | c # cs \<Rightarrow> \<not> is_ascii_digit c)"

lemma bal_shift:
  assumes "bal t j = Some j'" "starts_plain t"
  shows "shift r t j j'"
proof (rule shiftI)
  fix k out
  show p: "lex_run r t (L_Plain, False, k + j, out) = (L_Plain, False, k + j', out)" by (rule bal_run [OF assms(1)])
  obtain c cs where t: "t = c # cs" "\<not> is_ascii_digit c" using assms(2) by (auto simp: starts_plain_def split: list.splits)
  show "lex_run r t (after_bind r, False, k + j, out) = (L_Plain, False, k + j', out)"
    using p t by (simp del: is_ascii_digit_code)
qed

lemma push_shift: "sql_ready r b (k + j) \<Longrightarrow> shift r t j j' \<Longrightarrow> fresh r (push_str t b) (k + j')"
  using settled_shift [of r "lex r (b_sql b)" k j] by (auto simp: sql_ready_def fresh_def lex_append)

lemma push_text: "sql_ready r b k \<Longrightarrow> bal t 0 = Some 0 \<Longrightarrow> starts_plain t \<Longrightarrow> fresh r (push_str t b) k"
  using push_shift [of r b k 0 t 0] bal_shift by simp

lemma push_open: "sql_ready r b k \<Longrightarrow> bal t 0 = Some (Suc 0) \<Longrightarrow> starts_plain t \<Longrightarrow> fresh r (push_str t b) (Suc k)"
  using push_shift [of r b k 0 t 1] bal_shift by simp

lemma push_close: "sql_ready r b (Suc k) \<Longrightarrow> bal t (Suc 0) = Some 0 \<Longrightarrow> starts_plain t \<Longrightarrow> fresh r (push_str t b) k"
  using push_shift [of r b k 1 t 0] bal_shift by simp

lemma push_turn: "sql_ready r b (Suc k) \<Longrightarrow> bal t (Suc 0) = Some (Suc 0) \<Longrightarrow> starts_plain t \<Longrightarrow> fresh r (push_str t b) (Suc k)"
  using push_shift [of r b k 1 t 1] bal_shift by simp

lemma push_neutral: "sql_ready r b k \<Longrightarrow> neutral r t \<Longrightarrow> fresh r (push_str t b) k"
  using push_shift [of r b k 0 t 0] neutral_shift by simp

lemma push_neutral_fresh: "fresh r b k \<Longrightarrow> neutral r t \<Longrightarrow> sql_ready r (push_str t b) k"
  by (rule fresh_ready [OF push_neutral [OF fresh_ready]])

lemma push_neutral_opt: "sql_ready r b k \<Longrightarrow> t = [] \<or> neutral r t \<Longrightarrow> sql_ready r (push_str t b) k"
  by (auto intro: fresh_ready push_neutral)

lemma push_digit: "fresh r b k \<Longrightarrow> bal t 0 = Some 0 \<Longrightarrow> sql_ready r (push_str t b) k"
  using bal_run [of t 0 0 r k] by (simp add: fresh_def sql_ready_def lex_append)

lemma push_piece:
  "fresh r b k \<Longrightarrow> piece r t (length (b_params b)) (length (b_params b) + length vs) \<Longrightarrow>
   sql_ready r (push_str t (b\<lparr>b_params := b_params b @ vs\<rparr>)) k"
  by (simp add: fresh_def sql_ready_def piece_def lex_append)

lemma push_value_piece:
  "fresh r b k \<Longrightarrow> piece r t (length (b_params b)) (Suc (length (b_params b))) \<Longrightarrow> sql_ready r (push_str t (push_value v b)) k"
  using push_piece [of r b k t "[v]"] by (simp add: push_value_def)

section \<open>Identifiers and binds\<close>

lemma write_ident_fresh: "sql_ready r b k \<Longrightarrow> fresh r (write_ident name b) k"
  unfolding write_ident_def by (rule push_neutral) (simp_all add: ready_d)

lemma qualified_neutral: "b_d b = dialect_of r \<Longrightarrow> neutral r (render_qualified_col b column)"
  by (simp add: render_qualified_col_def)

lemma bind_text_like: "dialect_of r = d \<Longrightarrow> bind_like r (bind_text d v (Suc n)) n"
  by (cases v) (auto simp: bind_like_def bind_text_def simp del: bind_like_run)

lemma bind_like_piece: "bind_like r p n \<Longrightarrow> piece r p n (Suc n)"
  by (simp add: piece_def)

lemma write_bind_ready: "fresh r b k \<Longrightarrow> sql_ready r (write_bind v b) k"
  unfolding write_bind_def
  by (rule push_value_piece) (simp_all add: bind_like_piece bind_text_like fresh_d)

definition cast_ok :: "reader \<Rightarrow> bind_cast option \<Rightarrow> bool" where
  "cast_ok r cast = (case cast of None \<Rightarrow> True | Some (BC_Untyped ty) \<Rightarrow> neutral r ty | Some (BC_Always ty) \<Rightarrow> neutral r ty)"

lemma cast_ok_None [simp]: "cast_ok r None"
  by (simp add: cast_ok_def)

lemma null_cast_for_ok [simp]: "cast_ok r (null_cast_for d model column)"
proof -
  have "neutral r ''citext''" by (auto simp: neutral_def plain_step_def after_bind_def simp del: neutral_run)
  then show ?thesis
    by (cases d) (auto simp: null_cast_for_def cast_ok_def ci_text_bind_cast_def null_cast_def split: option.splits)
qed

lemma cast_suffix_neutral: "cast_ok r cast \<Longrightarrow> cast_suffix v cast = [] \<or> neutral r (cast_suffix v cast)"
  by (auto simp: cast_ok_def cast_suffix_def split: option.splits bind_cast.splits)

lemma push_param_typed_ready: "fresh r b k \<Longrightarrow> cast_ok r cast \<Longrightarrow> sql_ready r (push_param_typed v cast b) k"
  unfolding push_param_typed_def by (rule push_neutral_opt [OF write_bind_ready cast_suffix_neutral])

lemma push_params_sep_ready:
  "(if first then fresh r b k else sql_ready r b k) \<Longrightarrow> \<forall>(v, cast)\<in>set ps. cast_ok r cast \<Longrightarrow>
   sql_ready r (push_params_sep first ps b) k"
proof (induction first ps b rule: push_params_sep.induct)
  case (2 first v cast rest b)
  have "fresh r (if first then b else push_str '', '' b) k"
    using 2(2) by (auto intro: push_text simp: starts_plain_def split: if_splits)
  then have "sql_ready r (push_param_typed v cast (if first then b else push_str '', '' b)) k"
    using 2(3) by (intro push_param_typed_ready) auto
  then show ?case using 2 by simp
qed (auto intro: fresh_ready split: if_splits)

lemma write_idents_sep_ready: "(if first then fresh r b k else sql_ready r b k) \<Longrightarrow> sql_ready r (write_idents_sep first cs b) k"
proof (induction first cs b rule: write_idents_sep.induct)
  case (2 first c cs b)
  have "sql_ready r (if first then b else push_str '', '' b) k"
    using 2(2) by (auto intro: fresh_ready [OF push_text] fresh_ready simp: starts_plain_def split: if_splits)
  from fresh_ready [OF write_ident_fresh [OF this]] 2(1) show ?case by simp
qed (auto intro: fresh_ready split: if_splits)

section \<open>Predicates\<close>

lemma write_in_list_ready:
  assumes "sql_ready r b k" "cast_ok r cast"
  shows "sql_ready r (write_in_list p elements cast b) k"
proof (cases "binds_as_array (b_d b) elements")
  case True
  have "fresh r (push_str (if p = Op_NotIn then '' <> ALL('' else '' = ANY('') b) (Suc k)"
    using assms(1) by (auto intro!: push_open simp: starts_plain_def)
  then have b1: "sql_ready r (write_bind (V_Array elements) (push_str (if p = Op_NotIn then '' <> ALL('' else '' = ANY('') b)) (Suc k)"
    (is "sql_ready r ?b1 _") by (rule write_bind_ready)
  have "sql_ready r (case cast of Some (BC_Always ty) \<Rightarrow> push_str ''[]'' (push_str ty (push_str ''::'' ?b1)) | _ \<Rightarrow> ?b1) (Suc k)"
  proof (cases "\<exists>ty. cast = Some (BC_Always ty)")
    case True
    then obtain ty where ty: "cast = Some (BC_Always ty)" ..
    have "neutral r ''[]''" by (auto simp: neutral_def plain_step_def after_bind_def simp del: neutral_run)
    then have "neutral r (''::'' @ ty @ ''[]'')" using assms(2) ty by (simp add: cast_ok_def neutral_append)
    from fresh_ready [OF push_neutral [OF b1 this]] show ?thesis by (simp add: ty push_str_push)
  qed (use b1 in \<open>auto split: option.splits bind_cast.splits\<close>)
  then show ?thesis using True
    by (simp add: write_in_list_def Let_def fresh_ready [OF push_close] starts_plain_def)
next
  case False
  have "fresh r (push_str (if p = Op_NotIn then '' NOT IN ('' else '' IN ('') b) (Suc k)"
    using assms(1) by (auto intro!: push_open simp: starts_plain_def)
  then have "sql_ready r (push_params_sep True (map (\<lambda>e. (e, cast)) elements)
      (push_str (if p = Op_NotIn then '' NOT IN ('' else '' IN ('') b)) (Suc k)"
    using assms(2) by (intro push_params_sep_ready) auto
  then show ?thesis using False
    by (simp add: write_in_list_def fresh_ready [OF push_close] starts_plain_def)
qed

lemma place_ready:
  "fresh r b k \<Longrightarrow>
   piece r (f (placeholder (b_d b) (Suc (length (b_params b))))) (length (b_params b)) (Suc (length (b_params b))) \<Longrightarrow>
   sql_ready r (place f v b) k"
  by (simp add: place_def push_placeholder_def push_value_piece)

lemma place_or_ready:
  "fresh r b k \<Longrightarrow> place_or f v b = Inr b' \<Longrightarrow>
   (\<And>t. f (placeholder (b_d b) (Suc (length (b_params b)))) = Inr t \<Longrightarrow>
      piece r t (length (b_params b)) (Suc (length (b_params b)))) \<Longrightarrow> sql_ready r b' k"
  by (auto simp: place_or_def push_placeholder_def try_then_Inr push_value_piece)

lemma push_value_d [simp]: "b_d (push_value v b) = b_d b" "b_sql (push_value v b) = b_sql b"
  "length (b_params (push_value v b)) = Suc (length (b_params b))" "b_scope_stack (push_value v b) = b_scope_stack b"
  by (simp_all add: push_value_def)

lemma bind_value_piece:
  "fresh r b k \<Longrightarrow> bind_value v b = (p, b1) \<Longrightarrow>
   piece r (f p) (length (b_params b)) (Suc (length (b_params b))) \<Longrightarrow> sql_ready r (push_str (f p) b1) k"
  by (auto simp: bind_value_def push_value_piece)

lemma bind_value_like:
  "fresh r b k \<Longrightarrow> bind_value v b = (p, b1) \<Longrightarrow> bind_like r p (length (b_params b)) \<and> b_d b1 = b_d b"
  by (auto simp: bind_value_def bind_text_like fresh_d)

lemma glob_reads:
  assumes "dialect_of r = Sqlite" "neutral r col" "bind_like r p n"
  shows "piece r (col @ (if neg then '' NOT GLOB '' else '' GLOB '') @ p) n (Suc n)"
  using assms by (simp add: piece_def plain_step_def)

lemma write_like_plain:
  "\<not> (b_d b = Sqlite \<and> (\<exists>s. v = V_String s)) \<Longrightarrow>
   write_like col ty v neg esc b =
     (let (p, b1) = bind_value v b; b2 = push_str (write_like_typed (b_d b1) col ty p neg) b1
      in if esc then push_str LIKE_ESCAPE_CLAUSE b2 else b2)"
  by (cases "b_d b"; cases v) (auto simp: write_like_def)

lemma write_like_ready:
  assumes "fresh r b k" "neutral r col"
  shows "sql_ready r (write_like col ty v neg esc b) k"
proof -
  note d = fresh_d [OF assms(1)]
  let ?n = "length (b_params b)"
  have glob: "sql_ready r (push_str p (push_str (if neg then '' NOT GLOB '' else '' GLOB '') (push_str (like_operand (b_d b1) col ty) b1))) k"
    if "b_d b = Sqlite" "bind_value w b = (p, b1)" for w p b1
  proof -
    have "piece r (like_operand (b_d b1) col ty @ (if neg then '' NOT GLOB '' else '' GLOB '') @ p) ?n (Suc ?n)"
      using bind_value_like [OF assms(1) that(2)] d that(1) assms(2) by (intro glob_reads) auto
    from bind_value_piece [OF assms(1) that(2), of "\<lambda>p. like_operand (b_d b1) col ty @ (if neg then '' NOT GLOB '' else '' GLOB '') @ p", OF this]
    show ?thesis by (simp add: push_str_push)
  qed
  have plain: "sql_ready r (if esc then push_str LIKE_ESCAPE_CLAUSE (push_str (write_like_typed (b_d b1) col ty p neg) b1)
      else push_str (write_like_typed (b_d b1) col ty p neg) b1) k" if "bind_value v b = (p, b1)" for p b1
  proof -
    have "piece r (write_like_typed (b_d b1) col ty p neg) ?n (Suc ?n)"
      using bind_value_like [OF assms(1) that] d assms(2) by (intro like_typed_reads) auto
    from bind_value_piece [OF assms(1) that, of "\<lambda>p. write_like_typed (b_d b1) col ty p neg", OF this]
    show ?thesis using fresh_ready [OF push_neutral [OF _ escape_clause_neutral]] by auto
  qed
  show ?thesis
  proof (cases "b_d b = Sqlite \<and> (\<exists>s. v = V_String s)")
    case True
    then show ?thesis using glob by (auto simp: write_like_def split: prod.splits)
  next
    case False
    then show ?thesis using plain by (auto simp: write_like_plain Let_def split: prod.splits)
  qed
qed

lemma case_value_Inr:
  "(case v of V_List xs \<Rightarrow> FL xs | _ \<Rightarrow> Inl e) = Inr b \<longleftrightarrow> (\<exists>xs. v = V_List xs \<and> FL xs = Inr b)"
  "(case v of V_Bool x \<Rightarrow> FB x | _ \<Rightarrow> Inl e) = Inr b \<longleftrightarrow> (\<exists>x. v = V_Bool x \<and> FB x = Inr b)"
  "(case v of V_Json j \<Rightarrow> FJ j | _ \<Rightarrow> Inl e) = Inr b \<longleftrightarrow> (\<exists>j. v = V_Json j \<and> FJ j = Inr b)"
  "(case v of V_String t \<Rightarrow> FS t | _ \<Rightarrow> Inl e) = Inr b \<longleftrightarrow> (\<exists>t. v = V_String t \<and> FS t = Inr b)"
  "(case v of V_Array xs \<Rightarrow> FA xs | _ \<Rightarrow> Inl e) = Inr b \<longleftrightarrow> (\<exists>xs. v = V_Array xs \<and> FA xs = Inr b)"
  by (cases v; simp)+

lemma simple_op_ready:
  assumes "fresh r b k" "neutral r col" "cast_ok r cast" "bal kw 0 = Some 0" "starts_plain kw"
  shows "sql_ready r (simple_op col kw v cast b) k"
  unfolding simple_op_def
  by (intro push_param_typed_ready push_text fresh_ready [OF push_neutral] fresh_ready [OF assms(1)] assms)

lemma between_ready:
  assumes "fresh r b k" "neutral r col" "cast_ok r cast" "bal kw 0 = Some 0" "starts_plain kw"
  shows "sql_ready r (push_param_typed hi cast (push_str '' AND '' (push_param_typed lo cast (push_str kw (push_str col b))))) k"
  by (intro push_param_typed_ready push_text fresh_ready [OF push_neutral] fresh_ready [OF assms(1)] assms)
    (simp_all add: starts_plain_def)

lemma test_ready:
  assumes "fresh r b k" "neutral r col" "bal kw 0 = Some 0" "starts_plain kw"
  shows "sql_ready r (push_str kw (push_str col b)) k"
  by (intro fresh_ready [OF push_text] fresh_ready [OF push_neutral] fresh_ready [OF assms(1)] assms)

lemma bind_param_list_eq:
  "bind_param_list vs b = (placeholders (b_d b) (length (b_params b)) (length vs), b\<lparr>b_params := b_params b @ vs\<rparr>)"
  by (induction vs arbitrary: b) (simp_all add: push_placeholder_def push_value_def)

lemma json_keys_ready:
  fixes keys :: "'o sql_value list"
  assumes "fresh r b k" "neutral r col" "supports_op (b_d b) p" "p = Op_JsonHasAnyKey \<or> p = Op_JsonHasAllKeys"
  defines "b1 \<equiv> b\<lparr>b_params := b_params b @ keys\<rparr>"
    and "qs \<equiv> placeholders (b_d b) (length (b_params b)) (length keys)"
  shows "sql_ready r (push_str (write_json_has_any_keys (b_d b) col qs) b1) k"
    "sql_ready r (push_str (write_json_has_all_keys (b_d b) col qs) b1) k"
proof -
  let ?n = "length (b_params b)"
  have d: "b_d b = dialect_of r" by (rule fresh_d [OF assms(1)])
  have "b_d b \<noteq> Sqlite" using assms(3,4) by (auto simp: supports_op_def)
  then have any: "piece r (write_json_has_any_keys (b_d b) col (placeholders (b_d b) ?n (length keys))) ?n (?n + length keys)"
    and all: "piece r (write_json_has_all_keys (b_d b) col (placeholders (b_d b) ?n (length keys))) ?n (?n + length keys)"
    using d assms(2) pg_keys_reads [OF d [symmetric]] my_has_keys_reads [of r]
    by (cases "b_d b"; simp add: write_json_has_any_keys_def write_json_has_all_keys_def)+
  show "sql_ready r (push_str (write_json_has_any_keys (b_d b) col qs) b1) k"
    "sql_ready r (push_str (write_json_has_all_keys (b_d b) col qs) b1) k"
    unfolding b1_def qs_def using push_piece [OF assms(1) any] push_piece [OF assms(1) all] by auto
qed

lemma null_safe_ready:
  assumes "fresh r b k" "neutral r col" "bind_value v b = (q, b1)"
  shows "sql_ready r (push_str (write_null_safe_eq (b_d b) col q neg) b1) k"
proof -
  have "piece r (write_null_safe_eq (b_d b) col q neg) (length (b_params b)) (Suc (length (b_params b)))"
    using bind_value_like [OF assms(1,3)] fresh_d [OF assms(1)] assms(2) by (intro null_safe_reads) auto
  from bind_value_piece [OF assms(1,3), of "\<lambda>q. write_null_safe_eq (b_d b) col q neg", OF this] show ?thesis .
qed

lemma range_cast_neutral:
  "(case range_cast d model c v of Some t \<Rightarrow> ''::'' @ t | None \<Rightarrow> []) = [] \<or>
   neutral r (case range_cast d model c v of Some t \<Rightarrow> ''::'' @ t | None \<Rightarrow> [])"
  by (cases v) (auto simp: range_cast_def split: option.splits field_type.splits)

lemma range_op_ready:
  assumes "fresh r b k" "neutral r col"
    "place_or (\<lambda>q. write_range_op (b_d b) col (q @ sfx) (range_symbol p)) v b = Inr b'"
    "sfx = [] \<or> neutral r sfx"
  shows "sql_ready r b' k"
proof (rule place_or_ready [OF assms(1,3)])
  fix t
  assume "write_range_op (b_d b) col (placeholder (b_d b) (Suc (length (b_params b))) @ sfx) (range_symbol p) = Inr t"
  then have t: "t = col @ '' '' @ range_symbol p @ '' '' @ placeholder (b_d b) (Suc (length (b_params b))) @ sfx"
    by (simp add: write_range_op_def split: if_splits)
  show "piece r t (length (b_params b)) (Suc (length (b_params b)))"
    unfolding t by (rule symbol_op_reads)
      (use assms fresh_d [OF assms(1)] in \<open>simp_all add: range_symbol_def split: op.splits\<close>)
qed

lemma array_op_ready:
  assumes "fresh r b k" "neutral r col" "place_or (\<lambda>q. write_array_op (b_d b) col q (array_symbol p)) v b = Inr b'"
  shows "sql_ready r b' k"
proof (rule place_or_ready [OF assms(1,3)])
  fix t
  assume "write_array_op (b_d b) col (placeholder (b_d b) (Suc (length (b_params b)))) (array_symbol p) = Inr t"
  then have t: "t = col @ '' '' @ array_symbol p @ '' '' @ placeholder (b_d b) (Suc (length (b_params b))) @ []"
    by (simp add: write_array_op_def split: dialect.splits)
  show "piece r t (length (b_params b)) (Suc (length (b_params b)))"
    unfolding t by (rule symbol_op_reads)
      (use assms fresh_d [OF assms(1)] in \<open>simp_all add: array_symbol_def split: op.splits\<close>)
qed

lemma case_pair_Inr:
  "(case xs of [lo, hi] \<Rightarrow> F lo hi | _ \<Rightarrow> Inl e) = Inr b \<longleftrightarrow> (\<exists>lo hi. xs = [lo, hi] \<and> F lo hi = Inr b)"
  by (auto split: list.splits)

lemma pg_op_ready:
  assumes "fresh r b k" "neutral r col"
  shows "place_or (\<lambda>q. write_trigram_similar (b_d b) col q w) v b = Inr b' \<Longrightarrow> sql_ready r b' k"
    and "place_or (write_search (b_d b) col) v b = Inr b' \<Longrightarrow> sql_ready r b' k"
proof -
  have d: "dialect_of r = b_d b" using fresh_d [OF assms(1)] by simp
  show "place_or (\<lambda>q. write_trigram_similar (b_d b) col q w) v b = Inr b' \<Longrightarrow> sql_ready r b' k"
    by (erule place_or_ready [OF assms(1)]) (rule trigram_reads [OF d assms(2)], simp)
  show "place_or (write_search (b_d b) col) v b = Inr b' \<Longrightarrow> sql_ready r b' k"
    by (erule place_or_ready [OF assms(1)]) (rule search_reads [OF d assms(2)], simp)
qed

lemma write_op_ready:
  assumes f: "fresh r b k" and col: "neutral r col" and cast: "cast_ok r cast"
    and w: "write_op flt model col cast b = Inr b'"
  shows "sql_ready r b' k"
proof -
  have d: "dialect_of r = b_d b" using fresh_d [OF f] by simp
  note placed = place_ready [OF f]
  note text_ops = ilike_typed_reads [OF d col] regex_reads [OF d col] json_contains_reads [OF d col]
    json_contained_by_reads [OF d col] json_has_key_reads [OF d col]
  note keys = json_keys_ready [OF f col]
  have esc: "sql_ready r b1 k \<Longrightarrow> sql_ready r (push_str LIKE_ESCAPE_CLAUSE b1) k" for b1 :: "'a sql_buf"
    by (rule fresh_ready [OF push_neutral [OF _ escape_clause_neutral]])
  have inlist: "sql_ready r (write_in_list p xs cast (push_str col b)) k" for p xs
    by (rule write_in_list_ready [OF fresh_ready [OF push_neutral [OF fresh_ready [OF f] col]] cast])
  have empty: "sql_ready r (write_empty_in p b) k" for p
    unfolding write_empty_in_def by (rule push_digit [OF f]) simp
  show ?thesis
  proof (cases "flt_op flt \<in> {Op_ArrayContains, Op_ArrayContainedBy, Op_ArrayOverlap, Op_RangeContains,
      Op_RangeContainedBy, Op_RangeOverlap, Op_RangeStrictlyLeft, Op_RangeStrictlyRight, Op_RangeAdjacent}")
    case True
    then show ?thesis using w
      by (auto simp: write_op_def Let_def try_then_Inr case_value_Inr
          intro: array_op_ready [OF f col] range_op_ready [OF f col _ range_cast_neutral])
  next
    case False
    then show ?thesis using w
      by (cases "flt_op flt")
        (auto simp: write_op_def Let_def try_then_Inr case_value_Inr case_pair_Inr require_op_def starts_plain_def bind_param_list_eq
          intro!: simple_op_ready [OF f col cast] write_like_ready [OF f col] placed text_ops esc inlist empty
            between_ready [OF f col cast] test_ready [OF f col]
          intro: null_safe_ready [OF f col] keys pg_op_ready [OF f col]
          split: if_splits prod.splits)
  qed
qed

lemma last_qualified: "push_qualified d table c \<noteq> [] \<and> last (push_qualified d table c) \<noteq> CHR ''*''"
proof -
  have "push_quoted_ident d c = [ident_quote d] @ ident_body (ident_quote d) c @ [ident_quote d]"
    by (simp only: push_quoted_ident_def push_quoted_with_body)
  then show ?thesis by (auto simp: push_qualified_def ident_quote_def split: dialect.splits option.splits)
qed

lemma try_json_eq_ready:
  assumes "fresh r b k" "try_json_eq (render_qualified_col b c) p v b = Some b'"
  shows "sql_ready r b' k"
proof -
  have d: "dialect_of r = b_d b" using fresh_d [OF assms(1)] by simp
  from assms(2) obtain t where
    t: "write_json_eq (b_d b) (render_qualified_col b c) (placeholder (b_d b) (Suc (length (b_params b)))) (p = Op_Ne) = Some t"
    "b' = push_str t (push_value v b)"
    by (auto simp: try_json_eq_def split: sql_value.splits if_splits option.splits)
  have "piece r t (length (b_params b)) (Suc (length (b_params b)))"
    by (rule json_eq_reads [OF d _ _ _ t(1)]) (use d last_qualified in \<open>simp_all add: render_qualified_col_def\<close>)
  then show ?thesis unfolding t(2) by (rule push_value_piece [OF assms(1)])
qed

lemma write_filter_ready:
  assumes "fresh r b k" "write_filter f model b = Inr b'"
  shows "sql_ready r b' k"
proof -
  have col: "neutral r (render_qualified_col b (flt_column f))"
    by (rule qualified_neutral [OF fresh_d [OF assms(1)]])
  have cast: "cast_ok r (Option.bind model (\<lambda>m. null_cast_for (b_d b) m (flt_column f)))" by (cases model) simp_all
  have test: "null_test p v = Some t \<Longrightarrow> sql_ready r (push_str t (push_str (render_qualified_col b (flt_column f)) b)) k" for p v t
    using test_ready [OF assms(1) col] by (auto simp: null_test_def starts_plain_def split: if_splits sql_value.splits)
  show ?thesis using assms(2) test try_json_eq_ready [OF assms(1)] write_op_ready [OF assms(1) col cast]
    by (auto simp: write_filter_def Let_def split: option.splits)
qed

section \<open>Expressions\<close>

lemma bin_symbol_neutral:
  "refused_bin_op d bop = None \<Longrightarrow> dialect_of r = d \<Longrightarrow> neutral r ('' '' @ bin_op_symbol d bop ints @ '' '')"
  by (cases bop; cases r)
    (auto simp: neutral_def bin_op_symbol_def refused_bin_op_def dialect_of_def plain_step_def after_bind_def simp del: neutral_run)

lemma read_outer_fresh [simp]: "fresh r (read_outer n b) k = fresh r b k"
  by (simp add: read_outer_def fresh_def)

lemma write_expr_ready:
  "fresh r b k \<Longrightarrow> cast_ok r cast \<Longrightarrow> write_expr e cast b = Inr b' \<Longrightarrow> sql_ready r b' k"
proof (induction e cast b arbitrary: b' k rule: write_expr.induct)
  case (1 v cast b)
  then show ?case by (auto intro: push_param_typed_ready)
next
  case (2 name cast b)
  then show ?case
    by (auto simp: write_scope_col_def fresh_d intro!: push_neutral_fresh qualified_neutral)
next
  case (3 l bop rt cast b)
  from 3(5) obtain b1 b2 where ok: "refused_bin_op (b_d b) bop = None"
    and b1: "write_expr l None (push_str ''('' b) = Inr b1"
    and b2: "write_expr rt None (push_str '' '' (push_str (bin_op_symbol (b_d b1) bop (is_int_expr b1 (E_BinOp l bop rt)))
      (push_str '' '' b1))) = Inr b2" and b': "b' = push_str '')'' b2"
    by (auto simp: try_then_Inr split: option.splits)
  have "fresh r (push_str ''('' b) (Suc k)" using 3(3) by (intro push_open fresh_ready) (simp_all add: starts_plain_def)
  from 3(1) [OF ok this _ b1] have r1: "sql_ready r b1 (Suc k)" by simp
  have "fresh r (push_str ('' '' @ bin_op_symbol (b_d b1) bop (is_int_expr b1 (E_BinOp l bop rt)) @ '' '') b1) (Suc k)"
    using ok fresh_d [OF 3(3)] ready_d [OF r1] by (intro push_neutral [OF r1] bin_symbol_neutral) simp_all
  then have "fresh r (push_str '' '' (push_str (bin_op_symbol (b_d b1) bop (is_int_expr b1 (E_BinOp l bop rt))) (push_str '' '' b1))) (Suc k)"
    by (simp add: push_str_push)
  from 3(2) [OF ok this _ b2] have "sql_ready r b2 (Suc k)" by simp
  then show ?case unfolding b' by (intro fresh_ready [OF push_close]) (simp_all add: starts_plain_def)
next
  case (4 e ty cast b)
  from 4(4) obtain tok b1 where tok: "cast_type (b_d b) ty = Some tok" and b1: "write_expr e None (push_str ''CAST('' b) = Inr b1"
    and b': "b' = push_str '')'' (push_str tok (push_str '' AS '' b1))"
    by (auto simp: try_then_Inr split: option.splits)
  have "fresh r (push_str ''CAST('' b) (Suc k)" using 4(2) by (intro push_open fresh_ready) (simp_all add: starts_plain_def)
  from 4(1) [OF tok this _ b1] have "sql_ready r b1 (Suc k)" by simp
  then have "fresh r (push_str '' AS '' b1) (Suc k)" by (intro push_text) (simp_all add: starts_plain_def)
  then have "sql_ready r (push_str tok (push_str '' AS '' b1)) (Suc k)"
    by (intro fresh_ready [OF push_neutral] fresh_ready neutral_cast_token [OF tok])
  then show ?case unfolding b' by (rule fresh_ready [OF push_close]) (simp_all add: starts_plain_def)
next
  case (5 col cast b)
  then show ?case
    by (auto simp: Let_def fresh_d split: if_splits intro!: push_neutral_fresh)
next
  case (6 al col cast b)
  then show ?case
    by (auto simp: Let_def fresh_d split: option.splits if_splits intro!: push_neutral_fresh)
qed

lemma write_column_compare_ready:
  assumes "fresh r b k" "write_column_compare cf b = Inr b'"
  shows "sql_ready r b' k"
proof -
  let ?b1 = "push_str (render_qualified_col b (cf_column cf)) b"
  have b1: "sql_ready r ?b1 k"
    by (intro fresh_ready [OF push_neutral] fresh_ready [OF assms(1)] qualified_neutral [OF fresh_d [OF assms(1)]])
  have test: "null_test p v = Some t \<Longrightarrow> sql_ready r (push_str t ?b1) k" for p t and v :: "'a sql_value"
    using fresh_ready [OF push_text [OF b1]]
    by (auto simp: null_test_def starts_plain_def split: if_splits sql_value.splits)
  have sym: "compare_symbol p = Some t \<Longrightarrow> fresh r (push_str t ?b1) k" for p t
    using push_text [OF b1] by (auto simp: compare_symbol_def starts_plain_def split: op.splits)
  have lit: "(case cf_rhs cf of E_Literal v \<Rightarrow> null_test (cf_op cf) v | _ \<Rightarrow> None) = Some t \<Longrightarrow> sql_ready r (push_str t ?b1) k" for t
    using test by (cases "cf_rhs cf") auto
  show ?thesis
  proof (cases "case cf_rhs cf of E_Literal v \<Rightarrow> null_test (cf_op cf) v | _ \<Rightarrow> None")
    case None
    then obtain t where t: "compare_symbol (cf_op cf) = Some t" and w: "write_expr (cf_rhs cf) None (push_str t ?b1) = Inr b'"
      using assms(2) by (auto simp: write_column_compare_def Let_def simp del: write_expr.simps split: option.splits)
    show ?thesis by (rule write_expr_ready [OF sym [OF t] _ w]) simp
  next
    case (Some t)
    with assms(2) lit [OF Some] show ?thesis by (simp add: write_column_compare_def Let_def)
  qed
qed

section \<open>Raw relation tables\<close>

lemma field_updates_ready [simp]:
  "sql_ready r (b\<lparr>b_read_dml_target := x\<rparr>) k = sql_ready r b k" "sql_ready r (b\<lparr>b_derive_dml_target := y\<rparr>) k = sql_ready r b k"
  "fresh r (b\<lparr>b_read_dml_target := x\<rparr>) k = fresh r b k" "fresh r (b\<lparr>b_derive_dml_target := y\<rparr>) k = fresh r b k"
  "sql_ready r (b\<lparr>b_scope_stack := z, b_dml_target := w\<rparr>) k = sql_ready r b k" "sql_ready r (b\<lparr>b_scope_stack := z\<rparr>) k = sql_ready r b k"
  "fresh r (b\<lparr>b_scope_stack := z, b_dml_target := w\<rparr>) k = fresh r b k"
  "sql_ready r (read_outer n b) k = sql_ready r b k"
  by (simp_all add: sql_ready_def fresh_def read_outer_def)

lemma write_table_ready:
  assumes "sql_ready r b k"
  shows "sql_ready r (write_table name al b) k"
proof -
  have named: "sql_ready r b1 k \<Longrightarrow> sql_ready r (write_ident a (push_str '' AS '' b1)) k" for a and b1 :: "'a sql_buf"
    by (intro fresh_ready [OF write_ident_fresh] fresh_ready [OF push_text]) (simp_all add: starts_plain_def)
  have derived: "sql_ready r b0 k \<Longrightarrow> sql_ready r (push_str '')'' (write_ident name (push_str ''(SELECT * FROM '' b0))) k"
    for b0 :: "'a sql_buf"
    by (rule fresh_ready [OF push_close], rule fresh_ready [OF write_ident_fresh], rule fresh_ready [OF push_open])
      (simp_all add: starts_plain_def)
  have plain: "sql_ready r b0 k \<Longrightarrow> sql_ready r (write_ident name b0) k" for b0 :: "'a sql_buf"
    by (rule fresh_ready [OF write_ident_fresh])
  show ?thesis using assms
    by (auto simp: write_table_def Let_def intro!: named intro: derived plain split: option.splits)
qed

lemma push_text_ready: "sql_ready r b k \<Longrightarrow> bal t 0 = Some 0 \<Longrightarrow> starts_plain t \<Longrightarrow> sql_ready r (push_str t b) k"
  by (rule fresh_ready [OF push_text])

lemma push_open_ready: "sql_ready r b k \<Longrightarrow> bal t 0 = Some (Suc 0) \<Longrightarrow> starts_plain t \<Longrightarrow> sql_ready r (push_str t b) (Suc k)"
  by (rule fresh_ready [OF push_open])

lemma push_close_ready: "sql_ready r b (Suc k) \<Longrightarrow> bal t (Suc 0) = Some 0 \<Longrightarrow> starts_plain t \<Longrightarrow> sql_ready r (push_str t b) k"
  by (rule fresh_ready [OF push_close])

lemma write_ident_ready: "sql_ready r b k \<Longrightarrow> sql_ready r (write_ident name b) k"
  by (rule fresh_ready [OF write_ident_fresh])

lemmas push_ready = push_text_ready write_ident_ready write_table_ready

lemma write_ct_check_ready:
  assumes "sql_ready r b k"
  shows "sql_ready r (write_ct_check table ct b) k"
proof -
  have "sql_ready r (write_ident (ct_table_col ct) (push_str '' WHERE '' (write_table (ct_table ct) None
         (push_str '' FROM '' (write_ident (ct_pk ct) (push_str '' = (SELECT ''
           (write_ident (ct_column ct) (push_str ''.'' (write_ident table (push_str '' AND '' b))))))))) ) (Suc k)"
    by (intro push_ready push_open_ready assms) (simp_all add: starts_plain_def)
  then have "fresh r (push_str '' = '' (write_ident (ct_table_col ct) (push_str '' WHERE '' (write_table (ct_table ct) None
         (push_str '' FROM '' (write_ident (ct_pk ct) (push_str '' = (SELECT ''
           (write_ident (ct_column ct) (push_str ''.'' (write_ident table (push_str '' AND '' b))))))))))) (Suc k)"
    by (rule push_text) (simp_all add: starts_plain_def)
  then show ?thesis
    unfolding write_ct_check_def push_param_def
    by (intro push_close_ready push_param_typed_ready) (simp_all add: starts_plain_def)
qed

lemma write_rel_correlation_ready:
  assumes "sql_ready r b k" "write_rel_correlation table c b = Inr b'"
  shows "sql_ready r b' k"
proof -
  obtain s where s: "last_scope b = Some s" using assms(2) by (auto simp: write_rel_correlation_def split: option.splits)
  define al where "al = (if table = s_name s then Some SELF_ALIAS else None)"
  define name where "name = (case al of Some a \<Rightarrow> a | None \<Rightarrow> table)"
  define b2 where "b2 = push_str '' WHERE '' (write_table table al (read_outer (length (b_scope_stack b)) b))"
  have b2: "sql_ready r b2 k" unfolding b2_def
    by (intro push_ready) (simp_all add: assms(1) starts_plain_def)
  show ?thesis
  proof (cases c)
    case (Rel_Fk fk_column outer_column ct)
    have "sql_ready r (write_ident outer_column (push_str ''.'' (write_ident (s_name s) (push_str '' = ''
        (write_ident fk_column (push_str ''.'' (write_ident name b2))))))) k"
      by (intro push_ready b2) (simp_all add: starts_plain_def)
    then show ?thesis using assms(2) s Rel_Fk
      by (auto simp: write_rel_correlation_def Let_def al_def [symmetric] name_def [symmetric] b2_def [symmetric]
          intro: write_ct_check_ready split: option.splits)
  next
    case (Rel_Membership target_pk through dst_col src_col outer_column)
    let ?b3 = "push_str '' FROM '' (write_ident dst_col (push_str '' IN (SELECT ''
        (write_ident target_pk (push_str ''.'' (write_ident name b2)))))"
    have "sql_ready r ?b3 (Suc k)" by (intro push_ready push_open_ready b2) (simp_all add: starts_plain_def)
    then have "sql_ready r (write_table through None (?b3\<lparr>b_derive_dml_target := None\<rparr>)) (Suc k)"
      by (intro write_table_ready) simp
    then have "sql_ready r (push_str '')'' (write_ident outer_column (push_str ''.'' (write_ident (s_name s)
        (push_str '' = '' (write_ident src_col (push_str ''.'' (write_ident through (push_str '' WHERE ''
          ((write_table through None (?b3\<lparr>b_derive_dml_target := None\<rparr>))\<lparr>b_derive_dml_target := b_derive_dml_target ?b3\<rparr>)))))))))) k"
      by (intro push_close_ready push_text_ready write_ident_ready) (simp_all add: starts_plain_def)
    then show ?thesis using assms(2) s Rel_Membership
      by (simp add: write_rel_correlation_def Let_def al_def [symmetric] name_def [symmetric] b2_def [symmetric])
  qed
qed

lemma with_derived_ready:
  assumes "sql_ready r b k" "with_derived_dml_target n f b = Inr b'"
    and "\<And>b0 b1. sql_ready r b0 k \<Longrightarrow> f b0 = Inr b1 \<Longrightarrow> sql_ready r b1 k"
  shows "sql_ready r b' k"
  using assms(2) assms(3) [of b] assms(3) [of "b\<lparr>b_derive_dml_target := Some n\<rparr>"] assms(1)
  by (auto simp: with_derived_dml_target_def Let_def try_then_Inr split: if_splits)

section \<open>Boolean structure\<close>

lemma paren_ready:
  assumes "fresh r b k" "bal open_text 0 = Some (Suc 0)" "starts_plain open_text"
    and "\<And>b1. fresh r (push_str open_text b) (Suc k) \<Longrightarrow> f (push_str open_text b) = Inr b1 \<Longrightarrow> sql_ready r b1 (Suc k)"
    and "try_then (f (push_str open_text b)) (\<lambda>b1. Inr (push_str '')'' b1)) = Inr b'"
  shows "sql_ready r b' k"
proof -
  from assms(5) obtain b1 where b1: "f (push_str open_text b) = Inr b1" "b' = push_str '')'' b1" by (auto simp: try_then_Inr)
  have "sql_ready r b1 (Suc k)" by (rule assms(4) [OF push_open [OF fresh_ready [OF assms(1)] assms(2,3)] b1(1)])
  then show ?thesis unfolding b1(2) by (rule push_close_ready) (simp_all add: starts_plain_def)
qed

lemma rel_exists_ready:
  assumes "fresh r b k" "write_where_expr model (W_RelExists table c negated) b = Inr b'"
  shows "sql_ready r b' k"
proof -
  let ?b0 = "push_str ''SELECT 1 FROM '' (push_str (if negated then ''NOT EXISTS ('' else ''EXISTS ('') b)"
  have b0: "sql_ready r ?b0 (Suc k)"
    by (rule push_text_ready, rule push_open_ready) (use fresh_ready [OF assms(1)] in \<open>simp_all add: starts_plain_def\<close>)
  from assms(2) obtain b1 where b1: "with_derived_dml_target 1 (write_rel_correlation table c) ?b0 = Inr b1" "b' = push_str '')'' b1"
    by (auto simp: try_then_Inr)
  have "sql_ready r b1 (Suc k)" by (rule with_derived_ready [OF b0 b1(1)]) (rule write_rel_correlation_ready)
  then show ?thesis unfolding b1(2) by (rule push_close_ready) (simp_all add: starts_plain_def)
qed

lemma separated: "(if first then fresh r b k else sql_ready r b k) \<Longrightarrow> bal sep 0 = Some 0 \<Longrightarrow> starts_plain sep \<Longrightarrow>
   fresh r (if first then b else push_str sep b) k"
  by (auto intro: push_text split: if_splits)

lemma parity_sum_ready:
  "(if first then fresh r b k else sql_ready r b k) \<Longrightarrow> fresh r (push_str ''(CASE WHEN '' (if first then b else push_str '' + '' b)) (Suc k)"
  by (rule push_open, rule fresh_ready, rule separated) (simp_all add: starts_plain_def)

lemma write_where_expr_ready:
  fixes r :: reader
  shows "fresh r b k \<Longrightarrow> write_where_expr model e b = Inr b' \<Longrightarrow> sql_ready r b' k"
    and "fresh r b k \<Longrightarrow> write_child model e b = Inr b' \<Longrightarrow> sql_ready r b' k"
    and "(if first then fresh r b k else sql_ready r b k) \<Longrightarrow> bal sep 0 = Some 0 \<Longrightarrow> starts_plain sep \<Longrightarrow>
      write_joined model sep first es b = Inr b' \<Longrightarrow> sql_ready r b' k"
    and "(if first then fresh r b k else sql_ready r b k) \<Longrightarrow> write_parity model first es b = Inr b' \<Longrightarrow> sql_ready r b' k"
    and "fresh r b k \<Longrightarrow> write_xor model es b = Inr b' \<Longrightarrow> sql_ready r b' k"
proof (induction model e b and model e b and model sep first es b and model first es b and model es b
    arbitrary: b' k and b' k and b' k and b' k and b' k
    rule: write_where_expr_write_child_write_joined_write_parity_write_xor.induct)
  case (3 model items b)
  then show ?case by (auto simp: starts_plain_def intro: push_digit split: if_splits)
next
  case (4 model items b)
  then show ?case by (auto simp: starts_plain_def split: if_splits)
next
  case (6 model child b)
  then show ?case
    by (intro paren_ready [OF 6(2), of "''NOT (''" "write_where_expr model child"]) (auto simp: starts_plain_def)
next
  case (7 model table c negated b)
  then show ?case by (rule rel_exists_ready)
next
  case (10 model table c negated b)
  then show ?case by (auto intro: rel_exists_ready simp del: write_where_expr.simps)
next
  case (11 model v b)
  show ?case
    by (rule paren_ready [OF 11(2), of "''(''" "write_where_expr model (W_And v)"])
      (use 11 in \<open>auto simp: starts_plain_def simp del: write_where_expr.simps\<close>)
next
  case (12 model v b)
  show ?case
    by (rule paren_ready [OF 12(2), of "''(''" "write_where_expr model (W_Or v)"])
      (use 12 in \<open>auto simp: starts_plain_def simp del: write_where_expr.simps\<close>)
next
  case (13 model v b)
  show ?case
    by (rule paren_ready [OF 13(2), of "''(''" "write_where_expr model (W_Not v)"])
      (use 13 in \<open>auto simp: starts_plain_def simp del: write_where_expr.simps\<close>)
next
  case (14 model v b)
  show ?case
    by (rule paren_ready [OF 14(2), of "''(''" "write_where_expr model (W_Xor v)"])
      (use 14 in \<open>auto simp: starts_plain_def simp del: write_where_expr.simps\<close>)
next
  case (16 model sep first c cs b)
  from 16(6) obtain b1 where b1: "write_child model c (if first then b else push_str sep b) = Inr b1"
    "write_joined model sep False cs b1 = Inr b'" by (auto simp: try_then_Inr)
  have "sql_ready r b1 k" by (rule 16(1) [OF separated [OF 16(3,4,5)] b1(1)])
  then show ?case using 16(2) [OF _ 16(4,5) b1(2)] by simp
next
  case (18 model first c cs b)
  from 18(4) obtain b1 where b1: "write_child model c (push_str ''(CASE WHEN '' (if first then b else push_str '' + '' b)) = Inr b1"
    "write_parity model False cs (push_str '' THEN 1 ELSE 0 END)'' b1) = Inr b'" by (auto simp: try_then_Inr)
  have "sql_ready r b1 (Suc k)" by (rule 18(1) [OF parity_sum_ready [OF 18(3)] b1(1)])
  then have "sql_ready r (push_str '' THEN 1 ELSE 0 END)'' b1) k" by (rule push_close_ready) (simp_all add: starts_plain_def)
  then show ?case using 18(2) [OF _ b1(2)] by simp
next
  case (21 model c c' cs b)
  from 21(3) obtain b1 where b1: "write_parity model True (c # c' # cs) (push_str ''('' b) = Inr b1" "b' = push_str '') % 2 = 1'' b1"
    by (auto simp: try_then_Inr)
  have "fresh r (push_str ''('' b) (Suc k)" by (rule push_open [OF fresh_ready [OF 21(2)]]) (simp_all add: starts_plain_def)
  then have "sql_ready r b1 (Suc k)" using 21(1) [OF _ b1(1)] by simp
  then show ?case unfolding b1(2) by (rule push_close_ready) (simp_all add: starts_plain_def)
qed (auto intro: write_filter_ready write_column_compare_ready fresh_ready paren_ready simp: starts_plain_def split: if_splits)

end
