(* ===== verification/Sql_Statements.thy ===== *)
theory Sql_Statements
  imports Sql_Writer_Lex
begin

text \<open>
  Whole statements: the four kinds of write query a dialect compiles (\<open>Dialect::compile_insert\<close>,
  \<open>compile_bulk_insert\<close>, \<open>compile_update\<close>, \<open>compile_delete\<close>), read back by the server they are for.
\<close>

datatype 'o write_query =
    Insert_Query "'o insert_query" | Bulk_Insert_Query "'o bulk_insert_query"
  | Update_Query "'o update_query" | Delete_Query "'o delete_query"

definition write_statement :: "'o write_query \<Rightarrow> 'o sql_buf \<Rightarrow> sql_error + 'o sql_buf" where
  "write_statement q b =
     (case q of
        Insert_Query i \<Rightarrow> write_insert i b
      | Bulk_Insert_Query i \<Rightarrow> write_bulk_insert i b
      | Update_Query u \<Rightarrow> write_update u b
      | Delete_Query x \<Rightarrow> write_delete x b)"

definition compile_statement :: "dialect \<Rightarrow> 'o write_query \<Rightarrow> sql_error + (string \<times> 'o sql_value list)" where
  "compile_statement d q =
     (case q of
        Insert_Query i \<Rightarrow> compile_insert d i
      | Bulk_Insert_Query i \<Rightarrow> compile_bulk_insert d i
      | Update_Query u \<Rightarrow> compile_update d u
      | Delete_Query x \<Rightarrow> compile_delete d x)"

lemma compile_statement_eq: "compile_statement d q = try_then (write_statement q (new_sql d)) finish"
  by (cases q) (simp_all add: compile_statement_def write_statement_def compile_insert_def compile_bulk_insert_def
      compile_update_def compile_delete_def)

section \<open>Reading a statement back\<close>

lemma new_sql_fresh: "fresh r (new_sql (dialect_of r)) 0"
  by (simp add: fresh_def new_sql_def lex_def)

lemma write_where_ready:
  assumes "sql_ready r b k" "write_where model e b = Inr b'"
  shows "sql_ready r b' k"
proof -
  have "fresh r (push_str '' WHERE '' b) k" by (rule push_text [OF assms(1)]) (simp_all add: starts_plain_def)
  then show ?thesis using assms write_where_expr_ready(1) by (auto simp: write_where_def split: if_splits)
qed

lemma search_cols_ready:
  "(if first then fresh r b k else sql_ready r b k) \<Longrightarrow> sql_ready r (write_search_cols model pattern first cols b) k"
proof (induction model pattern first cols b rule: write_search_cols.induct)
  case (2 model pattern first col cols b)
  let ?b0 = "if first then b else push_str '' OR '' b"
  let ?ty = "column_type_in model col"
  have b0: "fresh r ?b0 k" by (rule separated [OF 2(2)]) (simp_all add: starts_plain_def)
  have d: "dialect_of r = b_d ?b0" using fresh_d [OF b0] by simp
  have "sql_ready r (place (\<lambda>q. write_ilike_typed (b_d ?b0) (render_qualified_col ?b0 col) ?ty q False) (V_String pattern) ?b0) k"
    by (rule place_ready [OF b0]) (use d in \<open>auto intro!: ilike_typed_reads qualified_neutral\<close>)
  then have "sql_ready r (push_str LIKE_ESCAPE_CLAUSE
      (place (\<lambda>q. write_ilike_typed (b_d ?b0) (render_qualified_col ?b0 col) ?ty q False) (V_String pattern) ?b0)) k"
    by (rule fresh_ready [OF push_neutral [OF _ escape_clause_neutral]])
  then show ?case using 2(1) [OF refl refl] by (simp add: Let_def)
qed (auto intro: fresh_ready split: if_splits)

lemma search_tail_ready:
  assumes "fresh r b k"
  shows "sql_ready r (if sc_columns s = [] then push_str ''1 = 0'' b
      else push_str '')'' (write_search_cols model pat True (sc_columns s) (push_str ''('' b))) k"
proof -
  have "fresh r (push_str ''('' b) (Suc k)" by (rule push_open [OF fresh_ready [OF assms]]) (simp_all add: starts_plain_def)
  then have "sql_ready r (write_search_cols model pat True (sc_columns s) (push_str ''('' b)) (Suc k)"
    by (intro search_cols_ready) simp
  then have "sql_ready r (push_str '')'' (write_search_cols model pat True (sc_columns s) (push_str ''('' b))) k"
    by (rule push_close_ready) (simp_all add: starts_plain_def)
  then show ?thesis using push_digit [OF assms, of "''1 = 0''"] by simp
qed

lemma wrapped_ready:
  assumes "fresh r b k"
    and "try_then (write_where_expr model e (if wrap then push_str ''('' b else b)) (\<lambda>b2. Inr (if wrap then push_str '')'' b2 else b2)) = Inr b'"
  shows "sql_ready r b' k"
proof (cases wrap)
  case True
  show ?thesis
    by (rule paren_ready [OF assms(1), of "''(''" "write_where_expr model e"])
      (use assms(2) True write_where_expr_ready(1) in \<open>auto simp: starts_plain_def simp del: write_where_expr.simps\<close>)
next
  case False
  then show ?thesis using assms(2) write_where_expr_ready(1) [OF assms(1)] by (auto simp: try_then_Inr)
qed

lemma write_where_with_search_ready:
  assumes "sql_ready r b k" "write_where_with_search model e search b = Inr b'"
  shows "sql_ready r b' k"
proof -
  define search' where "search' = (case search of Some s \<Rightarrow> if sc_query s \<noteq> [] then Some s else None | None \<Rightarrow> None)"
  have f: "fresh r (push_str '' WHERE '' b) k" by (rule push_text [OF assms(1)]) (simp_all add: starts_plain_def)
  consider (nothing) "where_is_empty e" "search' = None" | (plain) "where_is_empty e" "search' \<noteq> None" | (both) "\<not> where_is_empty e"
    by auto
  then show ?thesis
  proof cases
    case nothing
    then show ?thesis using assms unfolding search'_def by (simp add: write_where_with_search_def)
  next
    case plain
    then obtain s where s: "search = Some s" "sc_query s \<noteq> []"
      unfolding search'_def by (auto split: option.splits if_splits)
    show ?thesis
      using assms(2) plain(1) s search_tail_ready [OF f, of s model "''%'' @ escape_like (sc_query s) @ ''%''"]
      by (simp add: write_where_with_search_def Let_def split: if_splits)
  next
    case both
    from assms(2) both obtain b2 where
      b2: "try_then (write_where_expr model e (if search' \<noteq> None then push_str ''('' (push_str '' WHERE '' b) else push_str '' WHERE '' b))
          (\<lambda>b2. Inr (if search' \<noteq> None then push_str '')'' b2 else b2)) = Inr b2"
      and b': "b' = (case search' of None \<Rightarrow> b2 | Some s \<Rightarrow> let b3 = push_str '' AND '' b2 in
         if sc_columns s = [] then push_str ''1 = 0'' b3
         else push_str '')'' (write_search_cols model (''%'' @ escape_like (sc_query s) @ ''%'') True (sc_columns s) (push_str ''('' b3)))"
      unfolding search'_def
      by (auto simp: write_where_with_search_def Let_def try_then_Inr simp del: write_where_expr.simps)
    have r2: "sql_ready r b2 k" by (rule wrapped_ready [OF f b2])
    have "fresh r (push_str '' AND '' b2) k" by (rule push_text [OF r2]) (simp_all add: starts_plain_def)
    from search_tail_ready [OF this, of "the search'" model "''%'' @ escape_like (sc_query (the search')) @ ''%''"] r2
    show ?thesis by (cases search') (simp_all add: b' Let_def split: if_splits)
  qed
qed

section \<open>Statements\<close>

lemma write_returning_ready: "sql_ready r b k \<Longrightarrow> write_returning cs b = Inr b' \<Longrightarrow> sql_ready r b' k"
  using write_idents_sep_ready [of True r "push_str '' RETURNING '' b" k cs] push_text [of r b k "'' RETURNING ''"]
  by (auto simp: write_returning_def starts_plain_def split: if_splits)

lemma write_on_conflict_ready: "sql_ready r b k \<Longrightarrow> write_on_conflict model cs gs c b = Inr b' \<Longrightarrow> sql_ready r b' k"
  by (auto simp: write_on_conflict_def try_then_Inr ready_d intro!: fresh_ready [OF push_neutral] conflict_clause_neutral
      split: option.splits if_splits)

lemma columns_ready:
  assumes "sql_ready r b k"
  shows "sql_ready r (push_str '') VALUES '' (write_idents_sep True cols (push_str '' ('' b))) k"
    and "fresh r (push_str '') VALUES ('' (write_idents_sep True cols (push_str '' ('' b))) (Suc k)"
proof -
  have "fresh r (push_str '' ('' b) (Suc k)" by (rule push_open [OF assms]) (simp_all add: starts_plain_def)
  then have c: "sql_ready r (write_idents_sep True cols (push_str '' ('' b)) (Suc k)" by (intro write_idents_sep_ready) simp
  show "sql_ready r (push_str '') VALUES '' (write_idents_sep True cols (push_str '' ('' b))) k"
    by (rule push_close_ready [OF c]) (simp_all add: starts_plain_def)
  show "fresh r (push_str '') VALUES ('' (write_idents_sep True cols (push_str '' ('' b))) (Suc k)"
    by (rule push_turn [OF c]) (simp_all add: starts_plain_def)
qed

lemma row_ready:
  assumes "fresh r b (Suc k)" "\<forall>(v, cast)\<in>set ps. cast_ok r cast"
  shows "sql_ready r (push_str '')'' (push_params_sep True ps b)) k"
  by (rule push_close_ready, rule push_params_sep_ready) (use assms in \<open>simp_all add: starts_plain_def\<close>)

lemma table_ready: "fresh r b 0 \<Longrightarrow> bal t 0 = Some 0 \<Longrightarrow> starts_plain t \<Longrightarrow> sql_ready r (write_ident name (push_str t b)) 0"
  by (rule write_ident_ready, rule push_text_ready, rule fresh_ready)

lemma write_insert_ready:
  assumes "fresh r b 0" "write_insert q b = Inr b'"
  shows "sql_ready r b' 0"
proof -
  let ?b1 = "write_ident (md_table (iq_model q)) (push_str ''INSERT INTO '' b)"
  have b1: "sql_ready r ?b1 0" by (rule table_ready [OF assms(1)]) (simp_all add: starts_plain_def)
  have "neutral r (default_values_clause (b_d ?b1))"
    by (auto simp: default_values_clause_def neutral_def plain_step_def after_bind_def split: dialect.splits simp del: neutral_run)
  then have "sql_ready r (push_str (default_values_clause (b_d ?b1)) ?b1) 0" by (rule fresh_ready [OF push_neutral [OF b1]])
  moreover have "sql_ready r (push_str '')'' (push_params_sep True
      (map (\<lambda>(col, v). (v, null_cast_for (b_d ?b1) (iq_model q) col)) (zip (iq_columns q) (iq_values q)))
      (push_str '') VALUES ('' (write_idents_sep True (iq_columns q) (push_str '' ('' ?b1))))) 0"
    by (rule row_ready [OF columns_ready(2) [OF b1]]) auto
  ultimately show ?thesis using assms(2)
    by (auto simp: write_insert_def write_insert_values_def Let_def try_then_Inr split: if_splits
        elim!: write_returning_ready [rotated] write_on_conflict_ready [rotated])
qed

lemma write_rows_ready:
  "(if first then fresh r b 0 \<or> sql_ready r b 0 else sql_ready r b 0) \<Longrightarrow> \<forall>c\<in>set casts. cast_ok r c \<Longrightarrow>
   sql_ready r (write_rows casts first rows b) 0"
proof (induction casts first rows b rule: write_rows.induct)
  case (2 casts first row rows b)
  have "sql_ready r (if first then b else push_str '', '' b) 0"
    using 2(2) by (auto intro: fresh_ready push_text_ready simp: starts_plain_def split: if_splits)
  then have "fresh r (push_str ''('' (if first then b else push_str '', '' b)) (Suc 0)"
    by (rule push_open) (simp_all add: starts_plain_def)
  then have "sql_ready r (push_str '')'' (push_params_sep True (zip row casts) (push_str ''('' (if first then b else push_str '', '' b)))) 0"
    by (rule row_ready) (use 2(3) in \<open>auto dest: set_zip_rightD\<close>)
  then show ?case using 2(1,3) by simp
qed (auto intro: fresh_ready split: if_splits)

lemma default_rows_ready:
  "sql_ready r b 0 \<Longrightarrow> cell = ''NULL'' \<or> cell = ''DEFAULT'' \<Longrightarrow> sql_ready r (write_default_rows cell first n b) 0"
proof (induction cell first n b rule: write_default_rows.induct)
  case (2 cell first n b)
  have "sql_ready r (if first then b else push_str '', '' b) 0"
    using 2(2) by (auto intro: push_text_ready simp: starts_plain_def)
  then have "sql_ready r (push_str '')'' (push_str cell (push_str ''('' (if first then b else push_str '', '' b)))) 0"
    by (intro push_close_ready push_text_ready [of r _ "Suc 0"] push_open_ready) (use 2(3) in \<open>auto simp: starts_plain_def\<close>)
  then show ?case using 2(1,3) by simp
qed simp

lemma write_bulk_rows_ready:
  assumes b: "sql_ready r b 0" and w: "write_bulk_rows q b = Inr b'"
  shows "sql_ready r b' 0"
proof (cases "bq_columns q = []")
  case True
  then obtain pk pks where pk: "bq_returning q = pk # pks" using w by (auto simp: write_bulk_rows_def split: list.splits)
  have "sql_ready r (push_str '') VALUES '' (write_ident pk (push_str '' ('' b))) 0"
    using columns_ready(1) [OF b, of "[pk]"] by simp
  then have "sql_ready r (write_default_rows (case field_by_column (bq_model q) pk of None \<Rightarrow> ''DEFAULT'' | Some f \<Rightarrow> default_pk_cell (b_d b) f)
      True n (push_str '') VALUES '' (write_ident pk (push_str '' ('' b)))) 0" for n
    by (rule default_rows_ready) (auto simp: default_pk_cell_def split: option.splits dialect.splits)
  with w True pk show ?thesis by (auto simp: write_bulk_rows_def Let_def)
next
  case False
  have "sql_ready r (write_rows (map (null_cast_for (b_d b) (bq_model q)) (bq_columns q)) True (bq_rows q)
      (push_str '') VALUES '' (write_idents_sep True (bq_columns q) (push_str '' ('' b)))) 0"
    by (rule write_rows_ready) (use columns_ready(1) [OF b] in auto)
  with w False show ?thesis by (simp add: write_bulk_rows_def)
qed

lemma write_bulk_insert_ready:
  assumes "fresh r b 0" "write_bulk_insert q b = Inr b'"
  shows "sql_ready r b' 0"
proof -
  let ?b1 = "write_ident (md_table (bq_model q)) (push_str ''INSERT INTO '' b)"
  have b1: "sql_ready r ?b1 0" by (rule table_ready [OF assms(1)]) (simp_all add: starts_plain_def)
  from assms(2) obtain b2 b3 where w: "write_bulk_rows q ?b1 = Inr b2"
    "write_on_conflict (bq_model q) (bq_columns q) (bq_generated q) (bq_on_conflict q) b2 = Inr b3"
    "write_returning (bq_returning q) b3 = Inr b'"
    by (auto simp: write_bulk_insert_def try_then_Inr split: if_splits option.splits)
  show ?thesis by (rule write_returning_ready [OF write_on_conflict_ready [OF write_bulk_rows_ready [OF b1 w(1)] w(2)] w(3)])
qed

lemma write_assignments_ready:
  "(if first then fresh r b k else sql_ready r b k) \<Longrightarrow> write_assignments model first as b = Inr b' \<Longrightarrow> sql_ready r b' k"
proof (induction model first as b arbitrary: b' rule: write_assignments.induct)
  case (2 model first col e rest b)
  from 2(3) obtain b1 where b1: "write_expr e (null_cast_for (b_d b) model col)
      (push_str '' = '' (write_ident col (if first then b else push_str '', '' b))) = Inr b1"
    "write_assignments model False rest b1 = Inr b'" by (auto simp: try_then_Inr)
  have "fresh r (if first then b else push_str '', '' b) k" by (rule separated [OF 2(2)]) (simp_all add: starts_plain_def)
  then have "fresh r (push_str '' = '' (write_ident col (if first then b else push_str '', '' b))) k"
    by (intro push_text write_ident_ready fresh_ready) (simp_all add: starts_plain_def)
  from write_expr_ready [OF this _ b1(1)] have "sql_ready r b1 k" by simp
  then show ?case using 2(1) [OF _ b1(2)] by simp
qed (auto intro: fresh_ready split: if_splits)

lemma with_scope_ready:
  assumes "fresh r b 0" "with_scope model f b = Inr b'" "\<And>b0 b1. fresh r b0 0 \<Longrightarrow> f b0 = Inr b1 \<Longrightarrow> sql_ready r b1 0"
  shows "sql_ready r b' 0"
  using assms(2) assms(3) [of "b\<lparr>b_scope_stack := b_scope_stack b @ [scope_plain model], b_dml_target := Some (md_table model)\<rparr>"] assms(1)
  by (auto simp: with_scope_def try_then_Inr)

lemma write_update_ready:
  assumes "fresh r b 0" "write_update q b = Inr b'"
  shows "sql_ready r b' 0"
proof -
  have ne: "uq_set q \<noteq> []" using assms(2) by (auto simp: write_update_def)
  show ?thesis
  proof (rule with_scope_ready [OF assms(1), of "uq_model q" "\<lambda>b1. try_then (write_assignments (uq_model q) True (uq_set q)
      (push_str '' SET '' (write_ident (md_table (uq_model q)) (push_str ''UPDATE '' b1)))) (write_where (Some (uq_model q)) (uq_where q))"])
    show "with_scope (uq_model q) (\<lambda>b1. try_then (write_assignments (uq_model q) True (uq_set q)
      (push_str '' SET '' (write_ident (md_table (uq_model q)) (push_str ''UPDATE '' b1)))) (write_where (Some (uq_model q)) (uq_where q))) b = Inr b'"
      using assms(2) ne by (simp add: write_update_def)
  next
    fix b0 b1 :: "'a sql_buf"
    assume b0: "fresh r b0 0" and "try_then (write_assignments (uq_model q) True (uq_set q)
      (push_str '' SET '' (write_ident (md_table (uq_model q)) (push_str ''UPDATE '' b0)))) (write_where (Some (uq_model q)) (uq_where q)) = Inr b1"
    then obtain b2 where b2: "write_assignments (uq_model q) True (uq_set q)
        (push_str '' SET '' (write_ident (md_table (uq_model q)) (push_str ''UPDATE '' b0))) = Inr b2"
      "write_where (Some (uq_model q)) (uq_where q) b2 = Inr b1" by (auto simp: try_then_Inr)
    have "sql_ready r (write_ident (md_table (uq_model q)) (push_str ''UPDATE '' b0)) 0"
      by (rule table_ready [OF b0]) (simp_all add: starts_plain_def)
    then have "fresh r (push_str '' SET '' (write_ident (md_table (uq_model q)) (push_str ''UPDATE '' b0))) 0"
      by (rule push_text) (simp_all add: starts_plain_def)
    then have "sql_ready r b2 0" using write_assignments_ready [OF _ b2(1)] by simp
    then show "sql_ready r b1 0" by (rule write_where_ready [OF _ b2(2)])
  qed
qed

lemma write_delete_ready:
  assumes "fresh r b 0" "write_delete q b = Inr b'"
  shows "sql_ready r b' 0"
proof (rule with_scope_ready [OF assms(1) assms(2) [unfolded write_delete_def]])
  fix b0 b1 :: "'a sql_buf"
  assume b0: "fresh r b0 0"
    and w: "write_where (Some (dq_model q)) (dq_where q) (write_ident (md_table (dq_model q)) (push_str ''DELETE FROM '' b0)) = Inr b1"
  have "sql_ready r (write_ident (md_table (dq_model q)) (push_str ''DELETE FROM '' b0)) 0"
    by (rule table_ready [OF b0]) (simp_all add: starts_plain_def)
  then show "sql_ready r b1 0" by (rule write_where_ready [OF _ w])
qed

lemma ready_reads_binds: "sql_ready r b 0 \<Longrightarrow> reads_binds r (b_sql b) (length (b_params b))"
  by (auto simp: sql_ready_def lex_settled_def reads_binds_def binds_to_def after_bind_def)

lemma write_statement_ready: "fresh r b 0 \<Longrightarrow> write_statement q b = Inr b' \<Longrightarrow> sql_ready r b' 0"
  by (cases q) (auto simp: write_statement_def intro: write_insert_ready write_bulk_insert_ready write_update_ready write_delete_ready)

lemma statement_reads:
  assumes "compile_statement d q = Inr (sql, params)" "dialect_of r = d"
  shows "reads_binds r sql (length params)"
proof -
  from assms(1) obtain b where b: "write_statement q (new_sql d) = Inr b" "sql = b_sql b" "params = b_params b"
    by (auto simp: compile_statement_eq try_then_Inr finish_def)
  have "sql_ready r b 0" by (rule write_statement_ready [OF _ b(1)]) (use new_sql_fresh [of r] assms(2) in simp)
  from ready_reads_binds [OF this] show ?thesis by (simp add: b)
qed

end
