(* ===== verification/Sql_Erase.thy ===== *)
theory Sql_Erase
  imports Sql_Statements
begin

text \<open>
  What the text of a statement may depend on. \<open>blank\<close> forgets every payload of a value and keeps only
  its kind (and the length of a list); a statement blanked throughout compiles to the same text. The
  one value that reaches the text is the flag of \<open>IS NULL\<close>, which picks between two fixed spellings.
\<close>

section \<open>Blanking\<close>

fun blank :: "'o sql_value \<Rightarrow> unit sql_value" where
  "blank V_Null = V_Null"
| "blank (V_I16 x) = V_I16 0"
| "blank (V_I32 x) = V_I32 0"
| "blank (V_I64 x) = V_I64 0"
| "blank (V_F32 x) = V_F32 0"
| "blank (V_F64 x) = V_F64 0"
| "blank (V_Bool x) = V_Bool False"
| "blank (V_String x) = V_String []"
| "blank (V_DateTime x) = V_DateTime ()"
| "blank (V_Date x) = V_Date ()"
| "blank (V_Uuid x) = V_Uuid 0"
| "blank (V_Json x) = V_Json ()"
| "blank (V_Decimal x) = V_Decimal ()"
| "blank (V_Binary x) = V_Binary []"
| "blank (V_Time x) = V_Time ()"
| "blank (V_List vs) = V_List (map blank vs)"
| "blank (V_Array vs) = V_Array (map blank vs)"
| "blank (V_RangeLiteral x) = V_RangeLiteral []"
| "blank (V_HStore x) = V_HStore []"
| "blank (V_Vector x) = V_Vector []"
| "blank (V_Geometry x y z) = V_Geometry 0 0 0"

definition blank_flag :: "'o sql_value \<Rightarrow> unit sql_value" where
  "blank_flag v = (case v of V_Bool x \<Rightarrow> V_Bool x | _ \<Rightarrow> blank v)"

definition blank_filter :: "'o filter_pred \<Rightarrow> unit filter_pred" where
  "blank_filter f =
     \<lparr>flt_column = flt_column f, flt_op = flt_op f,
      flt_value = (if flt_op f = Op_IsNull then blank_flag (flt_value f) else blank (flt_value f))\<rparr>"

fun blank_expr :: "'o expr \<Rightarrow> unit expr" where
  "blank_expr (E_Literal v) = E_Literal (blank v)"
| "blank_expr (E_Column c) = E_Column c"
| "blank_expr (E_BinOp l bop r) = E_BinOp (blank_expr l) bop (blank_expr r)"
| "blank_expr (E_OuterRef c) = E_OuterRef c"
| "blank_expr (E_AliasedColumn a c) = E_AliasedColumn a c"
| "blank_expr (E_Cast e ty) = E_Cast (blank_expr e) ty"

definition blank_column_filter :: "'o column_filter \<Rightarrow> unit column_filter" where
  "blank_column_filter cf = \<lparr>cf_column = cf_column cf, cf_op = cf_op cf, cf_rhs = blank_expr (cf_rhs cf)\<rparr>"

text \<open>The table name a generic relation compares its type row with is bound too.\<close>

definition blank_ct :: "ct_filter \<Rightarrow> ct_filter" where
  "blank_ct ct = ct\<lparr>ct_parent_table := []\<rparr>"

fun blank_correlation :: "rel_correlation \<Rightarrow> rel_correlation" where
  "blank_correlation (Rel_Fk fk outer ct) = Rel_Fk fk outer (map_option blank_ct ct)"
| "blank_correlation (Rel_Membership pk through dst src outer) = Rel_Membership pk through dst src outer"

fun blank_where :: "'o where_expr \<Rightarrow> unit where_expr" where
  "blank_where (W_Predicate f) = W_Predicate (blank_filter f)"
| "blank_where (W_ColumnCompare cf) = W_ColumnCompare (blank_column_filter cf)"
| "blank_where (W_And items) = W_And (map blank_where items)"
| "blank_where (W_Or items) = W_Or (map blank_where items)"
| "blank_where (W_Not e) = W_Not (blank_where e)"
| "blank_where (W_Xor items) = W_Xor (map blank_where items)"
| "blank_where (W_RelExists table c negated) = W_RelExists table (blank_correlation c) negated"

definition blank_buf :: "'o sql_buf \<Rightarrow> unit sql_buf" where
  "blank_buf b =
     \<lparr>b_d = b_d b, b_sql = b_sql b, b_params = map blank (b_params b), b_scope_stack = b_scope_stack b,
      b_qualifier = b_qualifier b, b_derived_joins = b_derived_joins b, b_join_types = b_join_types b,
      b_dml_target = b_dml_target b, b_read_dml_target = b_read_dml_target b,
      b_derive_dml_target = b_derive_dml_target b, b_outer_reach = b_outer_reach b\<rparr>"

abbreviation blank_res :: "sql_error + 'o sql_buf \<Rightarrow> sql_error + unit sql_buf" where
  "blank_res \<equiv> map_sum id blank_buf"

fun blank_query :: "'o write_query \<Rightarrow> unit write_query" where
  "blank_query (Insert_Query q) = Insert_Query
     \<lparr>iq_model = iq_model q, iq_columns = iq_columns q, iq_values = map blank (iq_values q), iq_returning = iq_returning q,
      iq_on_conflict = iq_on_conflict q, iq_generated = iq_generated q\<rparr>"
| "blank_query (Bulk_Insert_Query q) = Bulk_Insert_Query
     \<lparr>bq_model = bq_model q, bq_columns = bq_columns q, bq_rows = map (map blank) (bq_rows q), bq_returning = bq_returning q,
      bq_on_conflict = bq_on_conflict q, bq_generated = bq_generated q\<rparr>"
| "blank_query (Update_Query q) = Update_Query
     \<lparr>uq_model = uq_model q, uq_set = map (\<lambda>(c, e). (c, blank_expr e)) (uq_set q), uq_where = blank_where (uq_where q)\<rparr>"
| "blank_query (Delete_Query q) = Delete_Query \<lparr>dq_model = dq_model q, dq_where = blank_where (dq_where q)\<rparr>"

section \<open>The writers commute with blanking\<close>

named_theorems blanks \<open>blanking commutes with the writers\<close>

lemma blank_buf_fields [simp]:
  "b_d (blank_buf b) = b_d b" "b_sql (blank_buf b) = b_sql b" "b_params (blank_buf b) = map blank (b_params b)"
  "b_scope_stack (blank_buf b) = b_scope_stack b" "b_qualifier (blank_buf b) = b_qualifier b"
  "b_derived_joins (blank_buf b) = b_derived_joins b" "b_join_types (blank_buf b) = b_join_types b"
  "b_dml_target (blank_buf b) = b_dml_target b" "b_read_dml_target (blank_buf b) = b_read_dml_target b"
  "b_derive_dml_target (blank_buf b) = b_derive_dml_target b" "b_outer_reach (blank_buf b) = b_outer_reach b"
  by (simp_all add: blank_buf_def)

lemma blank_push [blanks]:
  "push_str t (blank_buf b) = blank_buf (push_str t b)"
  "push_value (blank v) (blank_buf b) = blank_buf (push_value v b)"
  "(blank_buf b)\<lparr>b_read_dml_target := x\<rparr> = blank_buf (b\<lparr>b_read_dml_target := x\<rparr>)"
  "(blank_buf b)\<lparr>b_derive_dml_target := y\<rparr> = blank_buf (b\<lparr>b_derive_dml_target := y\<rparr>)"
  "(blank_buf b)\<lparr>b_scope_stack := z\<rparr> = blank_buf (b\<lparr>b_scope_stack := z\<rparr>)"
  "(blank_buf b)\<lparr>b_scope_stack := z, b_dml_target := w\<rparr> = blank_buf (b\<lparr>b_scope_stack := z, b_dml_target := w\<rparr>)"
  "read_outer n (blank_buf b) = blank_buf (read_outer n b)"
  by (simp_all add: push_str_def push_value_def read_outer_def blank_buf_def)

lemma blank_if [blanks]: "(if c then blank_buf a else blank_buf b) = blank_buf (if c then a else b)"
  by simp

lemma blank_scopes [simp]:
  "last_scope (blank_buf b) = last_scope b" "cur_qualifier (blank_buf b) = cur_qualifier b"
  "alias_ref (blank_buf b) = alias_ref b" "scope_model (blank_buf b) = scope_model b"
  by (simp_all add: last_scope_def cur_qualifier_def alias_ref_def scope_model_def fun_eq_iff cong: option.case_cong prod.case_cong)

lemma blank_qualified [simp]:
  "qualify_alias (blank_buf b) = qualify_alias b" "render_qualified_col (blank_buf b) = render_qualified_col b"
  by (simp_all add: qualify_alias_def render_qualified_col_def fun_eq_iff cong: option.case_cong qualifier.case_cong)

lemma blank_value_facts [simp]:
  "bind_text d (blank v) n = bind_text d v n" "is_untyped (blank v) = is_untyped v"
  "discriminant (blank v) = discriminant v" "array_elem_value (blank v) = array_elem_value v"
  "value_field_type (blank v) = value_field_type v" "null_test p (blank v) = null_test p v"
  "is_V_List (blank v) = is_V_List v"
  by (cases v; simp add: bind_text_def is_untyped_def array_elem_value_def null_test_def)+

lemma blank_binds [blanks]:
  "write_bind (blank v) (blank_buf b) = blank_buf (write_bind v b)"
  "push_param_typed (blank v) cast (blank_buf b) = blank_buf (push_param_typed v cast b)"
  "write_ident name (blank_buf b) = blank_buf (write_ident name b)"
  "write_scope_col name (blank_buf b) = blank_buf (write_scope_col name b)"
  by (simp_all add: write_bind_def push_param_typed_def cast_suffix_def write_ident_def write_scope_col_def blanks
      split: option.splits bind_cast.splits)

lemma blank_table [blanks]: "write_table name al (blank_buf b) = blank_buf (write_table name al b)"
  by (simp add: write_table_def Let_def blanks split: option.splits)

lemma blank_params_sep [blanks]:
  "push_params_sep first (map (\<lambda>(v, c). (blank v, c)) ps) (blank_buf b) = blank_buf (push_params_sep first ps b)"
  by (induction first ps b rule: push_params_sep.induct) (auto simp: blanks)

lemma blank_idents_sep [blanks]: "write_idents_sep first cs (blank_buf b) = blank_buf (write_idents_sep first cs b)"
  by (induction first cs b rule: write_idents_sep.induct) (auto simp: blanks)

lemma blank_array [simp]: "binds_as_array d (map blank vs) = binds_as_array d vs"
  by (cases vs) (simp_all add: binds_as_array_def array_bindable_def list_all_iff)

lemma blank_in [blanks]:
  "write_empty_in p (blank_buf b) = blank_buf (write_empty_in p b)"
  "write_in_list p (map blank vs) cast (blank_buf b) = blank_buf (write_in_list p vs cast b)"
  using blank_params_sep [of True "map (\<lambda>e. (e, cast)) vs"] blank_binds(1) [of "V_Array vs"]
  by (auto simp: write_empty_in_def write_in_list_def Let_def blanks comp_def split: option.splits bind_cast.splits)

section \<open>Predicates\<close>

lemma blank_place [blanks]: "place f (blank v) (blank_buf b) = blank_buf (place f v b)"
  by (simp add: place_def push_placeholder_def blanks)

lemma blank_place_or [blanks]: "place_or f (blank v) (blank_buf b) = blank_res (place_or f v b)"
  by (cases "f (placeholder (b_d b) (Suc (length (b_params b))))") (simp_all add: place_or_def push_placeholder_def blanks)

lemma blank_bind_value [blanks]: "bind_value (blank v) (blank_buf b) = map_prod id blank_buf (bind_value v b)"
  by (simp add: bind_value_def blanks)

lemma blank_like [blanks]: "write_like col ty (blank v) neg esc (blank_buf b) = blank_buf (write_like col ty v neg esc b)"
proof (cases "b_d b = Sqlite \<and> (\<exists>s. v = V_String s)")
  case True
  then obtain s where s: "b_d b = Sqlite" "v = V_String s" by auto
  have "bind_value (V_String []) (blank_buf b) = map_prod id blank_buf (bind_value (V_String (like_to_glob esc s)) b)"
    using blank_bind_value [of "V_String (like_to_glob esc s)" b] by simp
  then show ?thesis using s by (auto simp: write_like_def blanks split: prod.splits)
next
  case False
  then have "\<not> (b_d (blank_buf b) = Sqlite \<and> (\<exists>s. blank v = V_String s))" by (cases v) auto
  then show ?thesis using False
    by (auto simp: write_like_plain Let_def blanks split: prod.splits)
qed

lemma blank_param_list [blanks]: "bind_param_list (map blank vs) (blank_buf b) = map_prod id blank_buf (bind_param_list vs b)"
  by (simp add: bind_param_list_eq blank_buf_def)

lemma blank_simple [blanks]: "simple_op col kw (blank v) cast (blank_buf b) = blank_buf (simple_op col kw v cast b)"
  by (simp add: simple_op_def blanks)

lemma blank_json_eq [blanks]: "try_json_eq lhs p (blank v) (blank_buf b) = map_option blank_buf (try_json_eq lhs p v b)"
  using blank_push(2) [of v b]
  by (cases v) (auto simp: try_json_eq_def blanks split: option.splits)

lemma blank_range_cast [simp]: "range_cast d model c (blank v) = range_cast d model c v"
  by (cases v) (simp_all add: range_cast_def)

lemma blank_case_value:
  "(case blank v of V_List xs \<Rightarrow> FL xs | _ \<Rightarrow> e) = (case v of V_List xs \<Rightarrow> FL (map blank xs) | _ \<Rightarrow> e)"
  "(case blank v of V_Json j \<Rightarrow> FJ | _ \<Rightarrow> e) = (case v of V_Json j \<Rightarrow> FJ | _ \<Rightarrow> e)"
  "(case blank v of V_String t \<Rightarrow> FS | _ \<Rightarrow> e) = (case v of V_String t \<Rightarrow> FS | _ \<Rightarrow> e)"
  "(case blank v of V_Array xs \<Rightarrow> FA | _ \<Rightarrow> e) = (case v of V_Array xs \<Rightarrow> FA | _ \<Rightarrow> e)"
  "(case blank_flag v of V_Bool x \<Rightarrow> FB x | _ \<Rightarrow> e) = (case v of V_Bool x \<Rightarrow> FB x | _ \<Rightarrow> e)"
  by (cases v; simp add: blank_flag_def)+

lemma map_sum_case_value:
  "map_sum id h (case v of V_List xs \<Rightarrow> FL xs | _ \<Rightarrow> e) = (case v of V_List xs \<Rightarrow> map_sum id h (FL xs) | _ \<Rightarrow> map_sum id h e)"
  "map_sum id h (case v of V_Json j \<Rightarrow> FJ | _ \<Rightarrow> e) = (case v of V_Json j \<Rightarrow> map_sum id h FJ | _ \<Rightarrow> map_sum id h e)"
  "map_sum id h (case v of V_String t \<Rightarrow> FS | _ \<Rightarrow> e) = (case v of V_String t \<Rightarrow> map_sum id h FS | _ \<Rightarrow> map_sum id h e)"
  "map_sum id h (case v of V_Array xs \<Rightarrow> FA | _ \<Rightarrow> e) = (case v of V_Array xs \<Rightarrow> map_sum id h FA | _ \<Rightarrow> map_sum id h e)"
  "map_sum id h (case v of V_Bool x \<Rightarrow> FB x | _ \<Rightarrow> e) = (case v of V_Bool x \<Rightarrow> map_sum id h (FB x) | _ \<Rightarrow> map_sum id h e)"
  by (cases v; simp)+

lemma blank_try_then: "(\<And>x. f' x = blank_res (f x)) \<Longrightarrow> try_then r f' = blank_res (try_then r f)"
  by (cases r) simp_all

lemma blank_case_pair:
  "(case map blank xs of [lo, hi] \<Rightarrow> F lo hi | _ \<Rightarrow> e) = (case xs of [lo, hi] \<Rightarrow> F (blank lo) (blank hi) | _ \<Rightarrow> e)"
  "map_sum id h (case xs of [lo, hi] \<Rightarrow> G lo hi | _ \<Rightarrow> e') = (case xs of [lo, hi] \<Rightarrow> map_sum id h (G lo hi) | _ \<Rightarrow> map_sum id h e')"
  by (auto split: list.splits)

lemma blank_params_update: "blank_buf (b\<lparr>b_params := ps\<rparr>) = (blank_buf b)\<lparr>b_params := map blank ps\<rparr>"
  by (simp add: blank_buf_def)

lemmas blanks_in = blanks [symmetric] blank_params_update

lemma blank_array_op:
  assumes "flt_op f \<in> {Op_ArrayContains, Op_ArrayContainedBy, Op_ArrayOverlap}"
  shows "write_op (blank_filter f) model col cast (blank_buf b) = blank_res (write_op f model col cast b)"
  using assms by (cases "flt_value f") (auto simp: write_op_def Let_def blank_filter_def blanks_in intro!: blank_try_then)

lemma blank_list_op:
  assumes "flt_op f \<in> {Op_In, Op_NotIn, Op_Between, Op_NotBetween, Op_IsNull, Op_JsonHasAnyKey, Op_JsonHasAllKeys}"
  shows "write_op (blank_filter f) model col cast (blank_buf b) = blank_res (write_op f model col cast b)"
  using assms
  by (cases "flt_value f")
    (auto simp: write_op_def Let_def blank_filter_def blank_flag_def blank_case_pair bind_param_list_eq blanks_in
      intro!: blank_try_then split: list.splits)

lemma blank_json_op:
  assumes "flt_op f \<in> {Op_JsonContains, Op_JsonContainedBy, Op_JsonHasKey}"
  shows "write_op (blank_filter f) model col cast (blank_buf b) = blank_res (write_op f model col cast b)"
  using assms
  by (cases "flt_value f") (auto simp: write_op_def Let_def blank_filter_def blanks_in intro!: blank_try_then)

lemma blank_op:
  "write_op (blank_filter f) model col cast (blank_buf b) = blank_res (write_op f model col cast b)"
proof (cases "flt_op f \<in> {Op_ArrayContains, Op_ArrayContainedBy, Op_ArrayOverlap} \<union>
    {Op_In, Op_NotIn, Op_Between, Op_NotBetween, Op_IsNull, Op_JsonHasAnyKey, Op_JsonHasAllKeys} \<union>
    {Op_JsonContains, Op_JsonContainedBy, Op_JsonHasKey}")
  case True
  then show ?thesis using blank_array_op blank_list_op blank_json_op by blast
next
  case False
  then show ?thesis
    by (cases "flt_op f")
      (auto simp: write_op_def Let_def blank_filter_def blanks split: prod.splits intro!: blank_try_then)
qed

lemma blank_filter_test:
  "null_test (flt_op f) (flt_value (blank_filter f)) = null_test (flt_op f) (flt_value f)"
  "try_json_eq lhs (flt_op f) (flt_value (blank_filter f)) (blank_buf b) = map_option blank_buf (try_json_eq lhs (flt_op f) (flt_value f) b)"
  using blank_json_eq [of lhs "flt_op f" "flt_value f" b] by (auto simp: blank_filter_def null_test_def blank_flag_def try_json_eq_def
    split: sql_value.splits)

lemma blank_filter_fields [simp]: "flt_column (blank_filter f) = flt_column f" "flt_op (blank_filter f) = flt_op f"
  by (simp_all add: blank_filter_def)

lemma blank_write_filter: "write_filter (blank_filter f) model (blank_buf b) = blank_res (write_filter f model b)"
  by (auto simp: write_filter_def Let_def blank_filter_test blank_op blanks split: option.splits)

section \<open>Expressions and trees\<close>

lemma blank_alias_model [simp]: "alias_model (blank_buf b) = alias_model b"
proof -
  have a: "alias_at (blank_buf b) = alias_at b" by (simp add: alias_at_def fun_eq_iff cong: option.case_cong)
  show ?thesis by (rule ext) (simp only: alias_model_def blank_buf_fields a)
qed

lemma blank_expr_type [simp]: "expr_type (blank_buf b) (blank_expr e) = expr_type b e"
  by (induction e) (simp_all cong: option.case_cong qualifier.case_cong)

lemma blank_is_int [simp]: "is_int_expr (blank_buf b) (E_BinOp (blank_expr l) bop (blank_expr r)) = is_int_expr b (E_BinOp l bop r)"
  by (simp add: is_int_expr_def)

lemma map_sum_try_then:
  "(\<And>x. f' (blank_buf x) = blank_res (f x)) \<Longrightarrow> try_then (blank_res r) f' = blank_res (try_then r f)"
  by (cases r) simp_all

lemma blank_write_expr: "write_expr (blank_expr e) cast (blank_buf b) = blank_res (write_expr e cast b)"
proof (induction e cast b rule: write_expr.induct)
  case (3 l bop r cast b)
  show ?case
  proof (cases "refused_bin_op (b_d b) bop")
    case None
    have s1: "write_expr (blank_expr l) None (push_str ''('' (blank_buf b)) = blank_res (write_expr l None (push_str ''('' b))"
      using 3(1) [OF None] by (simp only: blank_push)
    have s2: "write_expr (blank_expr r) None (push_str '' '' (push_str (bin_op_symbol (b_d x) bop (is_int_expr x (E_BinOp l bop r)))
        (push_str '' '' (blank_buf x)))) =
      blank_res (write_expr r None (push_str '' '' (push_str (bin_op_symbol (b_d x) bop (is_int_expr x (E_BinOp l bop r))) (push_str '' '' x))))"
      for x using 3(2) [OF None, of x] by (simp only: blank_push)
    show ?thesis
      by (simp only: write_expr.simps blank_expr.simps None option.case blank_buf_fields blank_is_int s1)
        (rule map_sum_try_then, simp only: blank_buf_fields blank_is_int s2, rule map_sum_try_then, simp add: blanks)
  qed simp
next
  case (4 e ty cast b)
  show ?case
  proof (cases "cast_type (b_d b) ty")
    case (Some tok)
    show ?thesis
      by (simp only: write_expr.simps blank_expr.simps blank_buf_fields Some option.case blank_push 4 [OF Some])
        (rule map_sum_try_then, simp add: blanks)
  qed simp
qed (auto simp: blanks Let_def split: option.splits)

lemma blank_literal_test:
  "(case blank_expr e of E_Literal v \<Rightarrow> null_test p v | _ \<Rightarrow> None) = (case e of E_Literal v \<Rightarrow> null_test p v | _ \<Rightarrow> None)"
  by (cases e) simp_all

lemma blank_column_filter_fields [simp]:
  "cf_column (blank_column_filter cf) = cf_column cf" "cf_op (blank_column_filter cf) = cf_op cf"
  "cf_rhs (blank_column_filter cf) = blank_expr (cf_rhs cf)"
  by (simp_all add: blank_column_filter_def)

lemma blank_column_compare:
  "write_column_compare (blank_column_filter cf) (blank_buf b) = blank_res (write_column_compare cf b)"
  unfolding write_column_compare_def Let_def blank_column_filter_fields blank_literal_test
  by (auto simp: blank_write_expr blanks split: option.splits)

lemma blank_ct_check [blanks]: "write_ct_check table (blank_ct ct) (blank_buf b) = blank_buf (write_ct_check table ct b)"
  by (simp add: write_ct_check_def push_param_def blank_ct_def blanks blank_binds(2) [of "V_String (ct_parent_table ct)" None, simplified])

lemma blank_rel_correlation:
  "write_rel_correlation table (blank_correlation c) (blank_buf b) = blank_res (write_rel_correlation table c b)"
  by (cases c) (auto simp: write_rel_correlation_def Let_def blanks split: option.splits)

lemma blank_derived:
  assumes "\<And>x. f' (blank_buf x) = blank_res (f x)"
  shows "with_derived_dml_target n f' (blank_buf b) = blank_res (with_derived_dml_target n f b)"
  unfolding with_derived_dml_target_def Let_def blank_buf_fields blank_push(4) blank_if assms
  by (rule map_sum_try_then) (simp add: blanks)

lemma blank_wrapped:
  assumes "r' = blank_res r"
  shows "try_then r' (\<lambda>b. Inr (push_str t b)) = blank_res (try_then r (\<lambda>b. Inr (push_str t b)))"
  unfolding assms by (rule map_sum_try_then) (simp add: blanks)

lemma blank_leaf: "blank_res (Inr b) = Inr (blank_buf b)" "blank_res (Inl e) = Inl e"
  by simp_all

lemma blank_cond:
  assumes "s' = blank_res s" and "\<not> c \<Longrightarrow> r' = blank_res r"
  shows "(if c then s' else r') = blank_res (if c then s else r)"
  using assms by (cases c) simp_all

lemma blank_where_tree:
  fixes e :: "'o where_expr" and b :: "'o sql_buf"
  shows "write_where_expr model (blank_where e) (blank_buf b) = blank_res (write_where_expr model e b)"
    and "write_child model (blank_where e) (blank_buf b) = blank_res (write_child model e b)"
    and "write_joined model sep first (map blank_where es) (blank_buf b) = blank_res (write_joined model sep first es b)"
    and "write_parity model first (map blank_where es) (blank_buf b) = blank_res (write_parity model first es b)"
    and "write_xor model (map blank_where es) (blank_buf b) = blank_res (write_xor model es b)"
proof (induction model e b and model e b and model sep first es b and model first es b and model es b
    rule: write_where_expr_write_child_write_joined_write_parity_write_xor.induct)
  case (6 model child b)
  then show ?case by (simp only: write_where_expr.simps blank_where.simps blank_push) (rule blank_wrapped, rule refl)
next
  case (7 model table correlation negated b)
  show ?case
    unfolding write_where_expr.simps blank_where.simps blank_push
    by (rule blank_wrapped, rule blank_derived, rule blank_rel_correlation)
next
  case (11 model vs b)
  then show ?case by (simp only: write_child.simps blank_where.simps blank_push) (rule blank_wrapped, rule refl)
next
  case (12 model vs b)
  then show ?case by (simp only: write_child.simps blank_where.simps blank_push) (rule blank_wrapped, rule refl)
next
  case (13 model vs b)
  then show ?case by (simp only: write_child.simps blank_where.simps blank_push) (rule blank_wrapped, rule refl)
next
  case (14 model vs b)
  then show ?case by (simp only: write_child.simps blank_where.simps blank_push) (rule blank_wrapped, rule refl)
next
  case (16 model sep first c cs b)
  show ?case unfolding write_joined.simps list.map blank_push blank_if 16(1)
    by (rule map_sum_try_then) (rule 16(2))
next
  case (18 model first c cs b)
  show ?case unfolding write_parity.simps list.map blank_push blank_if 18(1)
    by (rule map_sum_try_then) (simp only: blank_push 18(2))
next
  case (21 model c c' cs b)
  then show ?case by (simp only: write_xor.simps list.map blank_push) (rule blank_wrapped, rule refl)
next
  case (3 model items b)
  show ?case unfolding write_where_expr.simps blank_where.simps list.map_disc_iff
    by (rule blank_cond) (simp add: blanks, rule 3)
next
  case (4 model items b)
  show ?case unfolding write_where_expr.simps blank_where.simps list.map_disc_iff
    by (rule blank_cond) (simp add: blanks, rule 4)
qed (simp_all only: write_where_expr.simps write_child.simps write_joined.simps write_parity.simps write_xor.simps
    blank_where.simps list.map blank_write_filter blank_column_compare blank_leaf)

section \<open>Statements\<close>

lemma blank_write_where: "write_where model (blank_where e) (blank_buf b) = blank_res (write_where model e b)"
proof -
  have "where_is_empty (blank_where e) = where_is_empty e" by (cases e) (simp_all add: where_is_empty_def)
  then show ?thesis by (simp only: write_where_def) (rule blank_cond, simp, simp only: blank_push blank_where_tree)
qed

lemma blank_returning: "write_returning cs (blank_buf b) = blank_res (write_returning cs b)"
  by (simp add: write_returning_def blanks)

lemma blank_on_conflict: "write_on_conflict model cs gen c (blank_buf b) = blank_res (write_on_conflict model cs gen c b)"
  by (cases c) (auto simp: write_on_conflict_def blanks intro!: blank_try_then)

lemma blank_zip_casts: "zip (map blank vs) cs = map (\<lambda>(v, c). (blank v, c)) (zip vs cs)"
  by (simp add: zip_map1)

lemma blank_rows: "write_rows casts first (map (map blank) rows) (blank_buf b) = blank_buf (write_rows casts first rows b)"
  by (induction casts first rows b rule: write_rows.induct) (auto simp: blanks blank_zip_casts)

lemma blank_default_rows: "write_default_rows cell first n (blank_buf b) = blank_buf (write_default_rows cell first n b)"
  by (induction cell first n b rule: write_default_rows.induct) (auto simp: blanks)

lemma blank_assignments:
  "write_assignments model first (map (\<lambda>(c, e). (c, blank_expr e)) cs) (blank_buf b) = blank_res (write_assignments model first cs b)"
proof (induction model first cs b rule: write_assignments.induct)
  case (2 model first col e rest b)
  show ?case
    unfolding write_assignments.simps list.map prod.case blanks blank_buf_fields blank_write_expr
    by (rule map_sum_try_then) (rule 2)
qed simp

lemma blank_with_scope:
  assumes "\<And>x. f' (blank_buf x) = blank_res (f x)"
  shows "with_scope model f' (blank_buf b) = blank_res (with_scope model f b)"
  unfolding with_scope_def blank_buf_fields blank_push(6) assms
  by (rule map_sum_try_then) (simp add: blanks)

lemma find_map_blank: "(\<And>v. v \<in> set vs \<Longrightarrow> g (blank v) = f v) \<Longrightarrow> find_map g (map blank vs) = find_map f vs"
  by (induction vs) (auto split: option.splits)

lemma blank_pg_only [simp]: "pg_only_kind (blank v) = pg_only_kind v"
  by (induction v) (auto intro: find_map_blank)

lemma blank_unbindable [simp]: "unbindable_kind d (blank v) = unbindable_kind d v"
  by (simp add: unbindable_kind_def)

lemma blank_finish: "finish (blank_buf b) = map_sum id (map_prod id (map blank)) (finish b)"
  by (auto simp: finish_def refuse_unbindable_values_def find_map_blank split: option.splits)

lemma blank_write_insert:
  "write_insert \<lparr>iq_model = iq_model q, iq_columns = iq_columns q, iq_values = map blank (iq_values q),
      iq_returning = iq_returning q, iq_on_conflict = iq_on_conflict q, iq_generated = iq_generated q\<rparr> (blank_buf b) =
   blank_res (write_insert q b)"
proof -
  have z: "map (\<lambda>(col, v). (v, null_cast_for d m col)) (zip cs (map blank vs)) =
      map (\<lambda>(v, c). (blank v, c)) (map (\<lambda>(col, v). (v, null_cast_for d m col)) (zip cs vs))" for d m cs and vs :: "'a sql_value list"
    by (induction cs vs rule: list_induct2') auto
  have "write_insert_values q' (map blank vs) (blank_buf b) = blank_res (write_insert_values q vs b)"
    if "iq_model q' = iq_model q" "iq_columns q' = iq_columns q" "iq_generated q' = iq_generated q"
      "iq_on_conflict q' = iq_on_conflict q" for q' :: "unit insert_query" and vs
    unfolding write_insert_values_def that Let_def length_map z blanks blank_buf_fields blank_on_conflict
    by simp
  then show ?thesis
    unfolding write_insert_def insert_query.simps
    by (intro blank_cond) (simp_all add: map_sum_try_then blank_returning)
qed

lemma blank_bulk_rows:
  assumes "bq_model q' = bq_model q" "bq_columns q' = bq_columns q" "bq_returning q' = bq_returning q"
    "bq_rows q' = map (map blank) (bq_rows q)"
  shows "write_bulk_rows q' (blank_buf b) = blank_res (write_bulk_rows q b)"
  unfolding write_bulk_rows_def assms blank_buf_fields
  by (auto simp: Let_def blanks blank_rows blank_default_rows split: list.splits)

lemma find_blank_row:
  "List.find (\<lambda>row. length row \<noteq> n) (map (map blank) rows) = map_option (map blank) (List.find (\<lambda>row. length row \<noteq> n) rows)"
  by (induction rows) auto

lemma blank_write_bulk_insert:
  "write_bulk_insert \<lparr>bq_model = bq_model q, bq_columns = bq_columns q, bq_rows = map (map blank) (bq_rows q),
      bq_returning = bq_returning q, bq_on_conflict = bq_on_conflict q, bq_generated = bq_generated q\<rparr> (blank_buf b) =
   blank_res (write_bulk_insert q b)"
  unfolding write_bulk_insert_def bulk_insert_query.simps find_blank_row blanks
  by (auto simp: blank_bulk_rows blank_on_conflict blank_returning intro!: map_sum_try_then split: option.splits)

lemma blank_write_statement: "write_statement (blank_query q) (blank_buf b) = blank_res (write_statement q b)"
proof (cases q)
  case (Update_Query u)
  have f: "try_then (write_assignments (uq_model u) True (map (\<lambda>(c, e). (c, blank_expr e)) (uq_set u))
        (push_str '' SET '' (write_ident (md_table (uq_model u)) (push_str ''UPDATE '' (blank_buf x)))))
      (write_where (Some (uq_model u)) (blank_where (uq_where u))) =
     blank_res (try_then (write_assignments (uq_model u) True (uq_set u)
        (push_str '' SET '' (write_ident (md_table (uq_model u)) (push_str ''UPDATE '' x))))
      (write_where (Some (uq_model u)) (uq_where u)))" for x
    unfolding blanks blank_assignments by (rule map_sum_try_then) (rule blank_write_where)
  show ?thesis
    unfolding Update_Query write_statement_def blank_query.simps write_query.case write_update_def update_query.simps list.map_disc_iff
    by (rule blank_cond) (simp, rule blank_with_scope, rule f)
next
  case (Delete_Query x)
  show ?thesis
    unfolding Delete_Query write_statement_def blank_query.simps write_query.case write_delete_def delete_query.simps
    by (rule blank_with_scope) (simp only: blanks blank_write_where)
qed (simp_all add: write_statement_def blank_write_insert blank_write_bulk_insert)

lemma compile_blank:
  "compile_statement d (blank_query q) = map_sum id (map_prod id (map blank)) (compile_statement d q)"
proof -
  have n: "new_sql d = blank_buf (new_sql d :: 'a sql_buf)" by (simp add: new_sql_def blank_buf_def)
  show ?thesis
    unfolding compile_statement_eq
    by (subst n, cases "write_statement q (new_sql d)") (simp_all add: blank_write_statement blank_finish)
qed

end
