(* ===== verification/Sql_Binds.thy ===== *)
theory Sql_Binds
  imports Sql_Statements
begin

text \<open>
  Which values a statement binds, and in which order: \<open>statement_binds\<close> reads them off the query from
  left to right, and a compiled statement carries exactly that list. A predicate binds its value, a
  list operator each element (or the one array Postgres takes), \<open>IS NULL\<close> and an empty list nothing;
  on SQLite a case-sensitive \<open>LIKE\<close> binds the pattern's \<open>GLOB\<close> form.
\<close>

section \<open>The binds of a query\<close>

definition list_binds :: "dialect \<Rightarrow> 'o sql_value list \<Rightarrow> 'o sql_value list" where
  "list_binds d vs = (if binds_as_array d vs then [V_Array vs] else vs)"

definition like_bind :: "dialect \<Rightarrow> bool \<Rightarrow> 'o sql_value \<Rightarrow> 'o sql_value" where
  "like_bind d escaped v =
     (case v of V_String p \<Rightarrow> V_String (if d = Sqlite then like_to_glob escaped p else p) | _ \<Rightarrow> v)"

fun list_elements :: "'o sql_value \<Rightarrow> 'o sql_value list" where
  "list_elements (V_List vs) = vs"
| "list_elements v = []"

definition filter_binds :: "dialect \<Rightarrow> 'o filter_pred \<Rightarrow> 'o sql_value list" where
  "filter_binds d f =
     (let v = flt_value f; p = flt_op f
      in if v = V_Null \<and> p \<in> {Op_Eq, Op_Ne} \<or> p = Op_IsNull then []
         else if p \<in> {Op_In, Op_NotIn} then list_binds d (list_elements v)
         else if p \<in> {Op_Between, Op_NotBetween, Op_JsonHasAnyKey, Op_JsonHasAllKeys} then list_elements v
         else if p \<in> {Op_Like, Op_NotLike} then [like_bind d False v]
         else if p = Op_LikeEscaped then [like_bind d True v]
         else [v])"

fun expr_binds :: "'o expr \<Rightarrow> 'o sql_value list" where
  "expr_binds (E_Literal v) = [v]"
| "expr_binds (E_BinOp l bop r) = expr_binds l @ expr_binds r"
| "expr_binds (E_Cast e ty) = expr_binds e"
| "expr_binds e = []"

definition compare_binds :: "'o column_filter \<Rightarrow> 'o sql_value list" where
  "compare_binds cf =
     (if cf_rhs cf = E_Literal V_Null \<and> cf_op cf \<in> {Op_Eq, Op_Ne} then [] else expr_binds (cf_rhs cf))"

fun correlation_binds :: "rel_correlation \<Rightarrow> 'o sql_value list" where
  "correlation_binds (Rel_Fk fk outer (Some ct)) = [V_String (ct_parent_table ct)]"
| "correlation_binds c = []"

fun where_binds :: "dialect \<Rightarrow> 'o where_expr \<Rightarrow> 'o sql_value list" where
  "where_binds d (W_Predicate f) = filter_binds d f"
| "where_binds d (W_ColumnCompare cf) = compare_binds cf"
| "where_binds d (W_And items) = concat (map (where_binds d) items)"
| "where_binds d (W_Or items) = concat (map (where_binds d) items)"
| "where_binds d (W_Xor items) = concat (map (where_binds d) items)"
| "where_binds d (W_Not e) = where_binds d e"
| "where_binds d (W_RelExists table c negated) = correlation_binds c"

fun statement_binds :: "dialect \<Rightarrow> 'o write_query \<Rightarrow> 'o sql_value list" where
  "statement_binds d (Insert_Query q) = iq_values q"
| "statement_binds d (Bulk_Insert_Query q) = concat (bq_rows q)"
| "statement_binds d (Update_Query q) = concat (map (expr_binds \<circ> snd) (uq_set q)) @ where_binds d (uq_where q)"
| "statement_binds d (Delete_Query q) = where_binds d (dq_where q)"

section \<open>What each writer binds\<close>

text \<open>\<open>binds b b' vs\<close>: \<open>b'\<close> is \<open>b\<close> with \<open>vs\<close> bound after its binds, for the same dialect.\<close>

definition binds :: "'o sql_buf \<Rightarrow> 'o sql_buf \<Rightarrow> 'o sql_value list \<Rightarrow> bool" where
  "binds b b' vs \<longleftrightarrow> b_d b' = b_d b \<and> b_params b' = b_params b @ vs"

named_theorems bound \<open>the dialect and the binds of a buffer after a writer\<close>

lemma push_bound [bound]:
  "b_d (push_str t b) = b_d b" "b_params (push_str t b) = b_params b"
  "b_d (push_value v b) = b_d b" "b_params (push_value v b) = b_params b @ [v]"
  "b_d (read_outer n b) = b_d b" "b_params (read_outer n b) = b_params b"
  by (simp_all add: push_str_def push_value_def read_outer_def)

lemma write_bind_bound [bound]:
  "b_d (write_bind v b) = b_d b" "b_params (write_bind v b) = b_params b @ [v]"
  "b_d (push_param_typed v c b) = b_d b" "b_params (push_param_typed v c b) = b_params b @ [v]"
  "b_d (push_param v b) = b_d b" "b_params (push_param v b) = b_params b @ [v]"
  by (simp_all add: write_bind_def push_param_typed_def push_param_def bound)

lemma ident_bound [bound]:
  "b_d (write_ident n b) = b_d b" "b_params (write_ident n b) = b_params b"
  "b_d (write_scope_col n b) = b_d b" "b_params (write_scope_col n b) = b_params b"
  by (simp_all add: write_ident_def write_scope_col_def bound)

lemma table_bound [bound]:
  "b_d (write_table n al b) = b_d b" "b_params (write_table n al b) = b_params b"
  by (auto simp: write_table_def Let_def bound split: option.splits)

lemma params_sep_bound [bound]:
  "b_d (push_params_sep first ps b) = b_d b" "b_params (push_params_sep first ps b) = b_params b @ map fst ps"
  by (induction first ps b rule: push_params_sep.induct) (auto simp: bound)

lemma idents_sep_bound [bound]:
  "b_d (write_idents_sep first cs b) = b_d b" "b_params (write_idents_sep first cs b) = b_params b"
  by (induction first cs b rule: write_idents_sep.induct) (auto simp: bound)

lemma in_list_bound [bound]:
  "b_d (write_in_list p vs c b) = b_d b" "b_params (write_in_list p vs c b) = b_params b @ list_binds (b_d b) vs"
  "b_d (write_empty_in p b) = b_d b" "b_params (write_empty_in p b) = b_params b"
  by (auto simp: write_in_list_def write_empty_in_def list_binds_def Let_def bound comp_def split: option.splits bind_cast.splits)

lemma list_binds_Nil [simp]: "list_binds d [] = []"
  by (simp add: list_binds_def binds_as_array_def array_bindable_def)

lemma place_bound [bound]:
  "b_d (place f v b) = b_d b" "b_params (place f v b) = b_params b @ [v]"
  "b_d (simple_op col kw v c b) = b_d b" "b_params (simple_op col kw v c b) = b_params b @ [v]"
  by (simp_all add: place_def push_placeholder_def simple_op_def bound)

lemma place_or_binds: "place_or f v b = Inr b' \<Longrightarrow> binds b b' [v]"
  by (auto simp: place_or_def push_placeholder_def try_then_Inr binds_def bound)

lemma like_bound [bound]:
  "b_d (write_like col ty v neg esc b) = b_d b" "b_params (write_like col ty v neg esc b) = b_params b @ [like_bind (b_d b) esc v]"
proof -
  have "b_d (write_like col ty v neg esc b) = b_d b \<and> b_params (write_like col ty v neg esc b) = b_params b @ [like_bind (b_d b) esc v]"
  proof (cases "b_d b = Sqlite \<and> (\<exists>s. v = V_String s)")
    case True
    then show ?thesis by (auto simp: write_like_def bind_value_def like_bind_def bound)
  next
    case False
    then show ?thesis by (auto simp: write_like_plain bind_value_def like_bind_def Let_def bound split: sql_value.splits)
  qed
  then show "b_d (write_like col ty v neg esc b) = b_d b"
    "b_params (write_like col ty v neg esc b) = b_params b @ [like_bind (b_d b) esc v]" by simp_all
qed

lemma write_op_binds:
  assumes "write_op f model col cast b = Inr b'" "null_test (flt_op f) (flt_value f) = None"
  shows "binds b b' (filter_binds (b_d b) f)"
proof (cases "flt_op f \<in> {Op_In, Op_NotIn, Op_Between, Op_NotBetween, Op_IsNull, Op_JsonHasAnyKey, Op_JsonHasAllKeys}")
  case True
  with assms show ?thesis
    by (auto simp: write_op_def Let_def try_then_Inr case_value_Inr case_pair_Inr bind_param_list_eq binds_def filter_binds_def bound
        split: if_splits prod.splits)
next
  case False
  have n: "\<not> (flt_value f = V_Null \<and> (flt_op f = Op_Eq \<or> flt_op f = Op_Ne))" using assms(2) by (auto simp: null_test_def)
  from False n assms(1) show ?thesis
    by (cases "flt_op f")
      (auto simp: write_op_def Let_def try_then_Inr case_value_Inr bind_value_def binds_def filter_binds_def bound
        dest!: place_or_binds split: if_splits)
qed

lemma write_filter_binds:
  assumes "write_filter f model b = Inr b'"
  shows "binds b b' (filter_binds (b_d b) f)"
proof (cases "null_test (flt_op f) (flt_value f)")
  case (Some t)
  then have "filter_binds (b_d b) f = []" by (auto simp: null_test_def filter_binds_def Let_def split: sql_value.splits if_splits)
  with assms Some show ?thesis by (auto simp: write_filter_def binds_def bound)
next
  case None
  show ?thesis
  proof (cases "try_json_eq (render_qualified_col b (flt_column f)) (flt_op f) (flt_value f) b")
    case None': None
    with assms None show ?thesis by (auto simp: write_filter_def Let_def intro: write_op_binds)
  next
    case (Some b1)
    with assms None show ?thesis
      by (auto simp: write_filter_def Let_def try_json_eq_def filter_binds_def binds_def bound
          split: sql_value.splits if_splits option.splits)
  qed
qed

lemma binds_trans: "binds a b vs \<Longrightarrow> binds b c ws \<Longrightarrow> binds a c (vs @ ws)"
  by (simp add: binds_def)

lemma binds_push [simp]:
  "binds (push_str t b) b' vs \<longleftrightarrow> binds b b' vs" "binds b (push_str t b') vs \<longleftrightarrow> binds b b' vs"
  by (simp_all add: binds_def bound)

lemma binds_d: "binds b b' vs \<Longrightarrow> b_d b' = b_d b"
  by (simp add: binds_def)

lemma write_expr_binds: "write_expr e cast b = Inr b' \<Longrightarrow> binds b b' (expr_binds e)"
proof (induction e cast b arbitrary: b' rule: write_expr.induct)
  case (3 l bop r cast b)
  then obtain b1 b2 where "write_expr l None (push_str ''('' b) = Inr b1"
      "write_expr r None (push_str '' '' (push_str (bin_op_symbol (b_d b1) bop (is_int_expr b1 (E_BinOp l bop r))) (push_str '' '' b1))) = Inr b2"
      "b' = push_str '')'' b2" and n: "refused_bin_op (b_d b) bop = None"
    by (auto simp: try_then_Inr split: option.splits)
  with 3(1) [OF n, of b1] 3(2) [OF n, of b1 b2] show ?case by (auto intro: binds_trans)
next
  case (4 e ty cast b)
  then show ?case by (fastforce simp: try_then_Inr split: option.splits)
qed (auto simp: binds_def bound Let_def split: if_splits)

lemma write_column_compare_binds:
  assumes "write_column_compare cf b = Inr b'"
  shows "binds b b' (compare_binds cf)"
proof (cases "case cf_rhs cf of E_Literal v \<Rightarrow> null_test (cf_op cf) v | _ \<Rightarrow> None")
  case None
  then have "compare_binds cf = expr_binds (cf_rhs cf)" by (auto simp: compare_binds_def null_test_def)
  moreover from assms None obtain s where
    "write_expr (cf_rhs cf) None (push_str s (push_str (render_qualified_col b (cf_column cf)) b)) = Inr b'"
    by (auto simp: write_column_compare_def Let_def simp del: write_expr.simps split: option.splits)
  ultimately show ?thesis by (auto dest!: write_expr_binds)
next
  case (Some t)
  then have "compare_binds cf = []"
    by (auto simp: compare_binds_def null_test_def split: expr.splits sql_value.splits if_splits)
  with assms Some show ?thesis by (auto simp: write_column_compare_def Let_def binds_def bound)
qed

lemma write_rel_correlation_binds: "write_rel_correlation table c b = Inr b' \<Longrightarrow> binds b b' (correlation_binds c)"
  by (cases c) (auto simp: write_rel_correlation_def write_ct_check_def Let_def binds_def bound split: option.splits)

lemma derived_binds:
  assumes "\<And>x x'. f x = Inr x' \<Longrightarrow> binds x x' vs" "with_derived_dml_target n f b = Inr b'"
  shows "binds b b' vs"
  using assms(2) by (auto simp: with_derived_dml_target_def Let_def try_then_Inr binds_def dest!: assms(1) split: if_splits)

lemma where_tree_binds:
  fixes e :: "'o where_expr" and b :: "'o sql_buf"
  shows "write_where_expr model e b = Inr b' \<Longrightarrow> binds b b' (where_binds (b_d b) e)"
    and "write_child model e b = Inr b' \<Longrightarrow> binds b b' (where_binds (b_d b) e)"
    and "write_joined model sep first es b = Inr b' \<Longrightarrow> binds b b' (concat (map (where_binds (b_d b)) es))"
    and "write_parity model first es b = Inr b' \<Longrightarrow> binds b b' (concat (map (where_binds (b_d b)) es))"
    and "write_xor model es b = Inr b' \<Longrightarrow> binds b b' (concat (map (where_binds (b_d b)) es))"
proof (induction model e b and model e b and model sep first es b and model first es b and model es b
    arbitrary: b' and b' and b' and b' and b'
    rule: write_where_expr_write_child_write_joined_write_parity_write_xor.induct)
  case (7 model table correlation negated b)
  then obtain x where x: "b' = push_str '')'' x" and w: "with_derived_dml_target 1 (write_rel_correlation table correlation)
      (push_str ''SELECT 1 FROM '' (push_str (if negated then ''NOT EXISTS ('' else ''EXISTS ('') b)) = Inr x"
    by (auto simp: try_then_Inr)
  from derived_binds [OF _ w, OF write_rel_correlation_binds] show ?case by (simp add: x)
next
  case (16 model sep first c cs b)
  then show ?case by (fastforce simp: try_then_Inr bound intro: binds_trans dest: binds_d split: if_splits)
next
  case (18 model first c cs b)
  then show ?case by (fastforce simp: try_then_Inr bound intro: binds_trans dest: binds_d split: if_splits)
qed (auto simp: try_then_Inr bound binds_def [of _ _ "[]"] write_filter_binds write_column_compare_binds split: if_splits)

section \<open>Statements\<close>

lemma write_where_binds:
  assumes "write_where model e b = Inr b'"
  shows "binds b b' (where_binds (b_d b) e)"
proof (cases "where_is_empty e")
  case True
  then have "e = W_And []" by (auto simp: where_is_empty_def split: where_expr.splits)
  with assms show ?thesis by (simp add: write_where_def where_is_empty_def binds_def)
next
  case False
  with assms have "write_where_expr model e (push_str '' WHERE '' b) = Inr b'" by (simp only: write_where_def if_False)
  from where_tree_binds(1) [OF this] show ?thesis by (simp add: bound)
qed

lemma write_assignments_binds:
  "write_assignments model first cs b = Inr b' \<Longrightarrow> binds b b' (concat (map (expr_binds \<circ> snd) cs))"
proof (induction model first cs b arbitrary: b' rule: write_assignments.induct)
  case (2 model first col e rest b)
  then obtain b1 where b1: "write_expr e (null_cast_for (b_d b) model col)
      (push_str '' = '' (write_ident col (if first then b else push_str '', '' b))) = Inr b1"
      "write_assignments model False rest b1 = Inr b'"
    by (auto simp: try_then_Inr)
  have "binds b b1 (expr_binds e)" using write_expr_binds [OF b1(1)] by (cases first) (auto simp: binds_def bound)
  with 2(1) [OF b1(2)] show ?case by (auto intro: binds_trans)
qed (simp add: binds_def)

lemma returning_binds: "write_returning cs b = Inr b' \<Longrightarrow> binds b b' []"
  by (auto simp: write_returning_def binds_def bound split: if_splits)

lemma on_conflict_binds: "write_on_conflict model cs gen c b = Inr b' \<Longrightarrow> binds b b' []"
  by (auto simp: write_on_conflict_def try_then_Inr binds_def bound split: option.splits if_splits)

lemma fst_zip_casts: "length cs = length vs \<Longrightarrow> map (fst \<circ> (\<lambda>(c, v). (v, g c))) (zip cs vs) = vs"
  by (induction cs vs rule: list_induct2) auto

lemma insert_binds:
  assumes "write_insert q b = Inr b'"
  shows "binds b b' (iq_values q)"
proof -
  from assms obtain b1 where b1: "write_insert_values q (iq_values q) b = Inr b1" "write_returning (iq_returning q) b1 = Inr b'"
    by (auto simp: write_insert_def try_then_Inr split: if_splits)
  have "binds b b1 (iq_values q)"
    using b1(1) by (auto simp: write_insert_values_def Let_def binds_def bound fst_zip_casts dest!: on_conflict_binds split: if_splits)
  with returning_binds [OF b1(2)] show ?thesis using binds_trans by fastforce
qed

lemma rows_bound [bound]:
  "b_d (write_rows casts first rows b) = b_d b"
  "list_all (\<lambda>row. length row = length casts) rows \<Longrightarrow> b_params (write_rows casts first rows b) = b_params b @ concat rows"
  by (induction casts first rows b rule: write_rows.induct) (auto simp: bound)

lemma default_rows_bound [bound]:
  "b_d (write_default_rows cell first n b) = b_d b" "b_params (write_default_rows cell first n b) = b_params b"
  by (induction cell first n b rule: write_default_rows.induct) (auto simp: bound)

lemma bulk_insert_binds:
  assumes "write_bulk_insert q b = Inr b'"
  shows "binds b b' (concat (bq_rows q))"
proof -
  from assms obtain b1 b2 where
    rows: "List.find (\<lambda>row. length row \<noteq> length (bq_columns q)) (bq_rows q) = None"
    and b1: "write_bulk_rows q (write_ident (md_table (bq_model q)) (push_str ''INSERT INTO '' b)) = Inr b1"
    and b2: "write_on_conflict (bq_model q) (bq_columns q) (bq_generated q) (bq_on_conflict q) b1 = Inr b2"
      "write_returning (bq_returning q) b2 = Inr b'"
    by (auto simp: write_bulk_insert_def try_then_Inr split: if_splits option.splits)
  have all: "list_all (\<lambda>row. length row = length (bq_columns q)) (bq_rows q)"
    using rows by (auto simp: find_None_iff list_all_iff)
  then have "binds b b1 (concat (bq_rows q))"
    using b1 by (auto simp: write_bulk_rows_def Let_def binds_def bound list_all_iff split: if_splits list.splits)
  with returning_binds [OF b2(2)] on_conflict_binds [OF b2(1)] show ?thesis by (simp add: binds_def)
qed

lemma with_scope_binds:
  assumes "with_scope model f b = Inr b'" and "\<And>x x'. f x = Inr x' \<Longrightarrow> binds x x' (vs (b_d x))"
  shows "binds b b' (vs (b_d b))"
  using assms(1) by (auto simp: with_scope_def try_then_Inr binds_def dest!: assms(2))

lemma write_statement_binds:
  assumes "write_statement q b = Inr b'"
  shows "binds b b' (statement_binds (b_d b) q)"
proof (cases q)
  case (Update_Query u)
  have "binds x x' (statement_binds (b_d x) q)"
    if "try_then (write_assignments (uq_model u) True (uq_set u)
        (push_str '' SET '' (write_ident (md_table (uq_model u)) (push_str ''UPDATE '' x))))
      (write_where (Some (uq_model u)) (uq_where u)) = Inr x'" for x x' :: "'a sql_buf"
    using that unfolding Update_Query statement_binds.simps try_then_Inr
    by (auto dest!: write_assignments_binds write_where_binds simp: binds_def bound)
  with assms with_scope_binds [where vs = "\<lambda>d. statement_binds d q"] show ?thesis
    by (auto simp: Update_Query write_statement_def write_update_def split: if_splits)
next
  case (Delete_Query x)
  have "binds y y' (statement_binds (b_d y) q)"
    if "write_where (Some (dq_model x)) (dq_where x)
         (write_ident (md_table (dq_model x)) (push_str ''DELETE FROM '' y)) = Inr y'" for y y' :: "'a sql_buf"
    using write_where_binds [OF that] by (simp add: Delete_Query binds_def bound)
  with assms with_scope_binds [where vs = "\<lambda>d. statement_binds d q"] show ?thesis
    by (auto simp: Delete_Query write_statement_def write_delete_def)
qed (use assms in \<open>auto simp: write_statement_def insert_binds bulk_insert_binds\<close>)

lemma compiled_binds:
  assumes "compile_statement d q = Inr (sql, params)"
  shows "params = statement_binds d q"
proof -
  from assms obtain b where "write_statement q (new_sql d) = Inr b" "params = b_params b"
    by (auto simp: compile_statement_eq try_then_Inr finish_def)
  with write_statement_binds show ?thesis by (fastforce simp: binds_def new_sql_def)
qed

end
