(* ===== verification/Like_Match.thy ===== *)
theory Like_Match
  imports Sql_Writer "HOL-Library.Sublist"
begin

text \<open>
  What \<open>LIKE\<close> and SQLite's \<open>GLOB\<close> match, from the manuals of the servers: a pattern is a list of
  items, each taking any run of characters or one character of a class. Strings are lists of
  characters here, as both operators and \<open>like_to_glob\<close> read them. A pattern that ends inside an
  escape or a bracket has no items and matches nothing.
\<close>

section \<open>Patterns\<close>

datatype item = Many | One "char \<Rightarrow> bool"

fun items_match :: "item list \<Rightarrow> string \<Rightarrow> bool" where
  "items_match [] t = (t = [])"
| "items_match (One f # is) [] = False"
| "items_match (One f # is) (c # t) = (f c \<and> items_match is t)"
| "items_match (Many # is) [] = items_match is []"
| "items_match (Many # is) (c # t) = (items_match is (c # t) \<or> items_match (Many # is) t)"

fun like_items :: "bool \<Rightarrow> string \<Rightarrow> item list option" where
  "like_items escaped [] = Some []"
| "like_items escaped (c # p) =
     (if c = LIKE_ESCAPE_CHAR \<and> escaped then
        (case p of [] \<Rightarrow> None | x # rest \<Rightarrow> map_option (Cons (One ((=) x))) (like_items escaped rest))
      else map_option (Cons (if c = CHR ''%'' then Many else if c = CHR ''_'' then One (\<lambda>_. True) else One ((=) c)))
             (like_items escaped p))"

text \<open>\<open>GLOB\<close>'s bracket: an optional \<open>^\<close>, a \<open>]\<close> in first place is a member, \<open>a-z\<close> is a range.\<close>

definition char_in :: "char \<Rightarrow> char \<Rightarrow> char \<Rightarrow> bool" where
  "char_in lo hi c \<longleftrightarrow> (of_char lo :: nat) \<le> of_char c \<and> (of_char c :: nat) \<le> of_char hi"

fun class_tail :: "char option \<Rightarrow> (char \<Rightarrow> bool) \<Rightarrow> string \<Rightarrow> ((char \<Rightarrow> bool) \<times> string) option" where
  "class_tail prior f [] = None"
| "class_tail prior f [c] = (if c = CHR '']'' then Some (f, []) else None)"
| "class_tail prior f (c # x # p) =
     (if c = CHR '']'' then Some (f, x # p)
      else case prior of
             Some lo \<Rightarrow>
               if c = CHR ''-'' \<and> x \<noteq> CHR '']'' then class_tail None (\<lambda>a. f a \<or> char_in lo x a) p
               else class_tail (Some c) (\<lambda>a. f a \<or> a = c) (x # p)
           | None \<Rightarrow> class_tail (Some c) (\<lambda>a. f a \<or> a = c) (x # p))"

definition glob_class :: "string \<Rightarrow> ((char \<Rightarrow> bool) \<times> string) option" where
  "glob_class p =
     (let (inverted, p1) = (case p of c # rest \<Rightarrow> if c = CHR ''^'' then (True, rest) else (False, p) | [] \<Rightarrow> (False, p));
          (f, p2) = (case p1 of c # rest \<Rightarrow> if c = CHR '']'' then ((=) c, rest) else (\<lambda>_. False, p1) | [] \<Rightarrow> (\<lambda>_. False, p1))
      in map_option (\<lambda>(g, rest). ((\<lambda>a. g a \<noteq> inverted), rest)) (class_tail None f p2))"

lemma class_tail_shorter: "class_tail prior f p = Some (g, rest) \<Longrightarrow> length rest < length p"
  by (induction prior f p rule: class_tail.induct) (auto split: if_splits option.splits)

lemma glob_class_shorter: "glob_class p = Some (g, rest) \<Longrightarrow> length rest < length p"
  by (auto simp: glob_class_def dest!: class_tail_shorter split: list.splits if_splits)

function (sequential) glob_items :: "string \<Rightarrow> item list option" where
  "glob_items [] = Some []"
| "glob_items (c # p) =
     (if c = CHR ''*'' then map_option (Cons Many) (glob_items p)
      else if c = CHR ''?'' then map_option (Cons (One (\<lambda>_. True))) (glob_items p)
      else if c = CHR ''['' then
        (case glob_class p of None \<Rightarrow> None | Some (f, rest) \<Rightarrow> map_option (Cons (One f)) (glob_items rest))
      else map_option (Cons (One ((=) c))) (glob_items p))"
  by pat_completeness auto

termination
  by (relation "measure length") (auto dest: glob_class_shorter)

definition like_matches :: "bool \<Rightarrow> string \<Rightarrow> string \<Rightarrow> bool" where
  "like_matches escaped p t = (case like_items escaped p of None \<Rightarrow> False | Some is \<Rightarrow> items_match is t)"

definition glob_matches :: "string \<Rightarrow> string \<Rightarrow> bool" where
  "glob_matches p t = (case glob_items p of None \<Rightarrow> False | Some is \<Rightarrow> items_match is t)"

section \<open>The GLOB form of a LIKE pattern\<close>

lemma glob_items_literal: "glob_items (glob_literal c @ p) = map_option (Cons (One ((=) c))) (glob_items p)"
proof -
  have "glob_class (c # CHR '']'' # p) = Some ((\<lambda>a. a = c), p)" if "c \<in> {CHR ''*'', CHR ''?'', CHR ''[''}"
    using that by (cases p) (auto simp: glob_class_def)
  moreover have "(\<lambda>a. a = c) = (=) c" by auto
  ultimately show ?thesis by (cases "c \<in> {CHR ''*'', CHR ''?'', CHR ''[''}") auto
qed

lemma glob_items_like:
  "like_items escaped p \<noteq> None \<Longrightarrow> glob_items (like_to_glob escaped p) = like_items escaped p"
proof (induction escaped p rule: like_to_glob.induct)
  case (2 escaped c cs)
  show ?case
  proof (cases "c = CHR ''!'' \<and> escaped")
    case True
    with 2(5) obtain x rest where cs: "cs = x # rest" by (cases cs) (auto simp: LIKE_ESCAPE_CHAR_def)
    with 2(1) [OF True cs] 2(5) True show ?thesis
      by (simp add: LIKE_ESCAPE_CHAR_def glob_items_literal del: glob_literal.simps)
  next
    case False
    then have "like_items escaped cs \<noteq> None" using 2(5) by (auto simp: LIKE_ESCAPE_CHAR_def split: if_splits)
    with 2(2,3,4) False show ?thesis
      by (cases "c = CHR ''%''"; cases "c = CHR ''_''")
        (auto simp: LIKE_ESCAPE_CHAR_def glob_items_literal simp del: glob_literal.simps)
  qed
qed simp

section \<open>Escaped text\<close>

definition literal_items :: "string \<Rightarrow> item list" where
  "literal_items s = map (\<lambda>c. One ((=) c)) s"

lemma like_items_escape: "like_items True (escape_like s @ p) = map_option ((@) (literal_items s)) (like_items True p)"
  by (induction s) (auto simp: literal_items_def LIKE_ESCAPE_CHAR_def option.map_comp comp_def option.map_ident split: list.splits)

lemma items_match_literal: "items_match (literal_items s @ is) t \<longleftrightarrow> (\<exists>u. t = s @ u \<and> items_match is u)"
  by (induction s arbitrary: t) (auto simp: literal_items_def; case_tac t; auto)+

lemma items_match_Many: "items_match (Many # is) t \<longleftrightarrow> (\<exists>a b. t = a @ b \<and> items_match is b)"
proof (induction t)
  case (Cons c t)
  show ?case
  proof
    assume "items_match (Many # is) (c # t)"
    with Cons show "\<exists>a b. c # t = a @ b \<and> items_match is b" by (auto intro: exI [of _ "[]"]) (metis append_Cons)
  next
    assume "\<exists>a b. c # t = a @ b \<and> items_match is b"
    then obtain a b where "c # t = a @ b" "items_match is b" by blast
    with Cons show "items_match (Many # is) (c # t)" by (cases a) auto
  qed
qed auto

text \<open>Escaped text matches itself: alone, as a prefix, as a suffix and anywhere.\<close>

lemma like_contains: "like_matches True (''%'' @ escape_like s @ ''%'') t \<longleftrightarrow> sublist s t"
  using like_items_escape [of s "''%''"]
  by (auto simp: like_matches_def LIKE_ESCAPE_CHAR_def items_match_Many items_match_literal sublist_def)

lemma like_startswith: "like_matches True (escape_like s @ ''%'') t \<longleftrightarrow> prefix s t"
  using like_items_escape [of s "''%''"]
  by (auto simp: like_matches_def LIKE_ESCAPE_CHAR_def items_match_Many items_match_literal prefix_def)

lemma like_endswith: "like_matches True (''%'' @ escape_like s) t \<longleftrightarrow> suffix s t"
  using like_items_escape [of s "[]"] items_match_literal [of s "[]"]
  by (auto simp: like_matches_def LIKE_ESCAPE_CHAR_def items_match_Many suffix_def)

lemma like_exact: "like_matches True (escape_like s) t \<longleftrightarrow> t = s"
  using like_items_escape [of s "[]"] items_match_literal [of s "[]"] by (auto simp: like_matches_def)

lemma glob_matches_like:
  "like_items escaped p \<noteq> None \<Longrightarrow> glob_matches (like_to_glob escaped p) t \<longleftrightarrow> like_matches escaped p t"
  by (simp add: glob_matches_def like_matches_def glob_items_like)

end
