(* ===== verification/Sql_Lookups.thy ===== *)
theory Sql_Lookups
  imports Sql_Writer
begin

text \<open>
  The two ways a caller names a predicate: the \<open>Q\<close> builder with its boolean operators
  (\<open>query/q.rs\<close>), and the \<open>field__suffix\<close> keys of \<open>filter\<close> and \<open>exclude\<close> (\<open>parse_lookup\<close> and
  \<open>resolve_filter\<close> in \<open>query/mod.rs\<close>). A \<open>Q\<close> is the tree it wraps.
\<close>

section \<open>Q\<close>

definition q_predicate :: "string \<Rightarrow> op \<Rightarrow> 'o sql_value \<Rightarrow> 'o where_expr" where
  "q_predicate column p v = W_Predicate \<lparr>flt_column = column, flt_op = p, flt_value = v\<rparr>"

definition wrap_escaped :: "string \<Rightarrow> string \<Rightarrow> string \<Rightarrow> string \<Rightarrow> bool \<Rightarrow> 'o where_expr" where
  "wrap_escaped column pre suf v case_insensitive =
     q_predicate column (if case_insensitive then Op_ILikeEscaped else Op_LikeEscaped)
       (V_String (pre @ escape_like v @ suf))"

definition q_contains :: "string \<Rightarrow> string \<Rightarrow> 'o where_expr" where
  "q_contains column v = wrap_escaped column ''%'' ''%'' v False"

definition q_icontains :: "string \<Rightarrow> string \<Rightarrow> 'o where_expr" where
  "q_icontains column v = wrap_escaped column ''%'' ''%'' v True"

definition q_startswith :: "string \<Rightarrow> string \<Rightarrow> 'o where_expr" where
  "q_startswith column v = wrap_escaped column '''' ''%'' v False"

definition q_istartswith :: "string \<Rightarrow> string \<Rightarrow> 'o where_expr" where
  "q_istartswith column v = wrap_escaped column '''' ''%'' v True"

definition q_endswith :: "string \<Rightarrow> string \<Rightarrow> 'o where_expr" where
  "q_endswith column v = wrap_escaped column ''%'' '''' v False"

definition q_iendswith :: "string \<Rightarrow> string \<Rightarrow> 'o where_expr" where
  "q_iendswith column v = wrap_escaped column ''%'' '''' v True"

definition q_in :: "string \<Rightarrow> 'o sql_value list \<Rightarrow> 'o where_expr" where
  "q_in column vs = q_predicate column Op_In (V_List vs)"

definition q_not_in :: "string \<Rightarrow> 'o sql_value list \<Rightarrow> 'o where_expr" where
  "q_not_in column vs = q_predicate column Op_NotIn (V_List vs)"

definition q_is_null :: "string \<Rightarrow> 'o where_expr" where
  "q_is_null column = q_predicate column Op_IsNull (V_Bool True)"

definition q_is_not_null :: "string \<Rightarrow> 'o where_expr" where
  "q_is_not_null column = q_predicate column Op_IsNull (V_Bool False)"

definition q_between :: "string \<Rightarrow> 'o sql_value \<Rightarrow> 'o sql_value \<Rightarrow> 'o where_expr" where
  "q_between column lo hi = q_predicate column Op_Between (V_List [lo, hi])"

definition bitand :: "'o where_expr \<Rightarrow> 'o where_expr \<Rightarrow> 'o where_expr" where
  "bitand a b =
     (case a of
        W_And xs \<Rightarrow> (case b of W_And ys \<Rightarrow> W_And (xs @ ys) | _ \<Rightarrow> W_And (xs @ [b]))
      | _ \<Rightarrow> (case b of W_And ys \<Rightarrow> W_And (a # ys) | _ \<Rightarrow> W_And [a, b]))"

definition bitor :: "'o where_expr \<Rightarrow> 'o where_expr \<Rightarrow> 'o where_expr" where
  "bitor a b =
     (case a of
        W_Or xs \<Rightarrow> (case b of W_Or ys \<Rightarrow> W_Or (xs @ ys) | _ \<Rightarrow> W_Or (xs @ [b]))
      | _ \<Rightarrow> (case b of W_Or ys \<Rightarrow> W_Or (a # ys) | _ \<Rightarrow> W_Or [a, b]))"

definition bitxor :: "'o where_expr \<Rightarrow> 'o where_expr \<Rightarrow> 'o where_expr" where
  "bitxor a b = W_Xor [a, b]"

fun q_not :: "'o where_expr \<Rightarrow> 'o where_expr" where
  "q_not (W_Not inner) = inner"
| "q_not e = W_Not e"

section \<open>Lookup keys\<close>

datatype date_fn =
    ExtractYear | ExtractMonth | ExtractDay | ExtractHour | ExtractMinute | ExtractSecond
  | ExtractQuarter | ExtractWeek | ExtractWeekDay | TruncDate

datatype 'o parsed_lookup =
    PL_Raw string op "'o sql_value"
  | PL_DateTransform string date_fn op "'o sql_value"
  | PL_RelationSpan string "'o sql_value"

definition date_transform_fn :: "string \<Rightarrow> date_fn option" where
  "date_transform_fn token =
     map_of [(''year'', ExtractYear), (''month'', ExtractMonth), (''day'', ExtractDay), (''hour'', ExtractHour),
       (''minute'', ExtractMinute), (''second'', ExtractSecond), (''quarter'', ExtractQuarter), (''week'', ExtractWeek),
       (''week_day'', ExtractWeekDay), (''date'', TruncDate)] token"

definition date_compare_op :: "string \<Rightarrow> op option" where
  "date_compare_op suf =
     map_of [(''exact'', Op_Eq), (''ne'', Op_Ne), (''gt'', Op_Gt), (''gte'', Op_Gte), (''lt'', Op_Lt), (''lte'', Op_Lte)] suf"

text \<open>\<open>key.find("__")\<close>: what stands before and after the first double underscore.\<close>

fun split_dunder :: "string \<Rightarrow> (string \<times> string) option" where
  "split_dunder [] = None"
| "split_dunder [c] = None"
| "split_dunder (c # c' # s) =
     (if c = CHR ''_'' \<and> c' = CHR ''_'' then Some ([], s)
      else map_option (\<lambda>(a, b). (c # a, b)) (split_dunder (c' # s)))"

fun sql_value_shape_name :: "'o sql_value \<Rightarrow> string" where
  "sql_value_shape_name V_Null = ''SqlValue::Null''"
| "sql_value_shape_name (V_I16 _) = ''SqlValue::I16''"
| "sql_value_shape_name (V_I32 _) = ''SqlValue::I32''"
| "sql_value_shape_name (V_I64 _) = ''SqlValue::I64''"
| "sql_value_shape_name (V_F32 _) = ''SqlValue::F32''"
| "sql_value_shape_name (V_F64 _) = ''SqlValue::F64''"
| "sql_value_shape_name (V_Bool _) = ''SqlValue::Bool''"
| "sql_value_shape_name (V_String _) = ''SqlValue::String''"
| "sql_value_shape_name (V_List _) = ''SqlValue::List''"
| "sql_value_shape_name _ = ''SqlValue::<other>''"

definition invalid_value :: "string \<Rightarrow> string \<Rightarrow> string \<Rightarrow> 'o sql_value \<Rightarrow> query_error + 'a" where
  "invalid_value field suf expected v = Inl (InvalidLookupValue field suf expected (sql_value_shape_name v))"

definition wrap_like :: "'o sql_value \<Rightarrow> string \<Rightarrow> string \<Rightarrow> string \<Rightarrow> string \<Rightarrow> query_error + 'o sql_value" where
  "wrap_like v pre suf_char field suf =
     (case v of
        V_String s \<Rightarrow> Inr (V_String (pre @ escape_like s @ suf_char))
      | other \<Rightarrow> invalid_value field suf ''SqlValue::String(...)'' other)"

text \<open>The comparison suffixes, in the groups of the \<open>match\<close> that treat the value alike.\<close>

definition simple_lookup :: "string \<Rightarrow> op option" where
  "simple_lookup suf =
     map_of [(''exact'', Op_Eq), (''ne'', Op_Ne), (''gt'', Op_Gt), (''gte'', Op_Gte), (''lt'', Op_Lt), (''lte'', Op_Lte)] suf"

definition wrapped_lookup :: "string \<Rightarrow> (string \<times> string \<times> op) option" where
  "wrapped_lookup suf =
     map_of [(''iexact'', '''', '''', Op_ILikeEscaped), (''contains'', ''%'', ''%'', Op_LikeEscaped),
       (''icontains'', ''%'', ''%'', Op_ILikeEscaped), (''startswith'', '''', ''%'', Op_LikeEscaped),
       (''istartswith'', '''', ''%'', Op_ILikeEscaped), (''endswith'', ''%'', '''', Op_LikeEscaped),
       (''iendswith'', ''%'', '''', Op_ILikeEscaped)] suf"

definition string_lookup :: "string \<Rightarrow> (string \<times> op) option" where
  "string_lookup suf =
     map_of [(''like'', ''SqlValue::String(<LIKE pattern>)'', Op_Like), (''ilike'', ''SqlValue::String(<LIKE pattern>)'', Op_ILike),
       (''not_like'', ''SqlValue::String(<LIKE pattern>)'', Op_NotLike),
       (''not_ilike'', ''SqlValue::String(<LIKE pattern>)'', Op_NotILike),
       (''regex'', ''SqlValue::String(<regex pattern>)'', Op_Regex), (''iregex'', ''SqlValue::String(<regex pattern>)'', Op_IRegex),
       (''trigram_similar'', ''SqlValue::String(<trigram pattern>)'', Op_TrigramSimilar),
       (''trigram_word_similar'', ''SqlValue::String(<trigram pattern>)'', Op_TrigramWordSimilar),
       (''search'', ''SqlValue::String(<search query>)'', Op_Search)] suf"

definition range_lookup :: "string \<Rightarrow> op option" where
  "range_lookup suf =
     map_of [(''range_contains'', Op_RangeContains), (''range_contained_by'', Op_RangeContainedBy),
       (''range_overlap'', Op_RangeOverlap), (''range_strictly_left'', Op_RangeStrictlyLeft),
       (''range_strictly_right'', Op_RangeStrictlyRight), (''range_adjacent'', Op_RangeAdjacent)] suf"

definition array_lookup :: "string \<Rightarrow> op option" where
  "array_lookup suf =
     map_of [(''array_contains'', Op_ArrayContains), (''array_contained_by'', Op_ArrayContainedBy),
       (''array_overlap'', Op_ArrayOverlap)] suf"

definition between_value :: "string \<Rightarrow> string \<Rightarrow> 'o sql_value \<Rightarrow> query_error + 'o sql_value" where
  "between_value field suf v =
     (case v of
        V_List vs \<Rightarrow>
          if length vs = 2 then Inr v
          else Inl (InvalidLookupValue field suf ''SqlValue::List with exactly 2 elements [lo, hi]''
                      ''SqlValue::List with wrong arity'')
      | other \<Rightarrow> invalid_value field suf ''SqlValue::List([lo, hi])'' other)"

definition range_value :: "string \<Rightarrow> string \<Rightarrow> 'o sql_value \<Rightarrow> query_error + 'o sql_value" where
  "range_value field suf v =
     (case v of
        V_String s \<Rightarrow> Inr (V_RangeLiteral s)
      | V_RangeLiteral s \<Rightarrow> Inr (V_RangeLiteral s)
      | other \<Rightarrow> invalid_value field suf
          (''SqlValue::String(<PG range literal>) '' @ em_dash @ '' e.g. '' @ [CHR 34] @ ''[1, 10)'' @ [CHR 34]) other)"

definition list_value :: "string \<Rightarrow> string \<Rightarrow> 'o sql_value \<Rightarrow> query_error + 'o sql_value" where
  "list_value field suf v =
     (case v of V_List vs \<Rightarrow> Inr v | other \<Rightarrow> invalid_value field suf ''SqlValue::List(...)'' other)"

definition array_value :: "string \<Rightarrow> string \<Rightarrow> 'o sql_value \<Rightarrow> query_error + 'o sql_value" where
  "array_value field suf v =
     (case v of
        V_List vs \<Rightarrow> Inr (V_Array vs)
      | other \<Rightarrow> invalid_value field suf (''SqlValue::List(<elements>) '' @ em_dash @ '' typed homogeneous array'') other)"

fun is_V_Json :: "'o sql_value \<Rightarrow> bool" where
  "is_V_Json (V_Json j) = True"
| "is_V_Json v = False"

fun is_V_Bool :: "'o sql_value \<Rightarrow> bool" where
  "is_V_Bool (V_Bool x) = True"
| "is_V_Bool v = False"

definition pair :: "string \<Rightarrow> op \<Rightarrow> query_error + 'o sql_value \<Rightarrow> query_error + 'o parsed_lookup" where
  "pair field p r = map_sum id (PL_Raw field p) r"

definition value_lookup :: "string \<Rightarrow> string \<Rightarrow> string \<Rightarrow> 'o sql_value \<Rightarrow> query_error + 'o parsed_lookup" where
  "value_lookup key field suf v =
     (if suf = ''in'' then pair field Op_In (list_value field suf v)
      else if suf = ''not_in'' then pair field Op_NotIn (list_value field suf v)
      else if suf = ''isnull'' then
        pair field Op_IsNull (if is_V_Bool v then Inr v else invalid_value field suf ''SqlValue::Bool(true|false)'' v)
      else if suf = ''between'' \<or> suf = ''range'' then pair field Op_Between (between_value field suf v)
      else if suf = ''not_between'' \<or> suf = ''not_range'' then pair field Op_NotBetween (between_value field suf v)
      else case range_lookup suf of
        Some p \<Rightarrow> pair field p (range_value field suf v)
      | None \<Rightarrow>
          (case array_lookup suf of
             Some p \<Rightarrow> pair field p (array_value field suf v)
           | None \<Rightarrow> Inr (PL_RelationSpan key v)))"

definition suffix_lookup :: "string \<Rightarrow> string \<Rightarrow> string \<Rightarrow> 'o sql_value \<Rightarrow> query_error + 'o parsed_lookup" where
  "suffix_lookup key field suf v =
     (case simple_lookup suf of
        Some p \<Rightarrow> pair field p (Inr v)
      | None \<Rightarrow>
          if suf = ''contains'' \<and> is_V_Json v then pair field Op_JsonContains (Inr v)
          else case wrapped_lookup suf of
            Some (pre, post, p) \<Rightarrow> pair field p (wrap_like v pre post field suf)
          | None \<Rightarrow>
              (case string_lookup suf of
                 Some (expected, p) \<Rightarrow> pair field p (if is_V_String v then Inr v else invalid_value field suf expected v)
               | None \<Rightarrow> value_lookup key field suf v))"

definition parse_lookup :: "string \<Rightarrow> 'o sql_value \<Rightarrow> query_error + 'o parsed_lookup" where
  "parse_lookup key v =
     (case split_dunder key of
        None \<Rightarrow> Inr (PL_Raw key Op_Eq v)
      | Some (field, suf) \<Rightarrow>
          let (token, trailing) = (case split_dunder suf of Some (a, b) \<Rightarrow> (a, Some b) | None \<Rightarrow> (suf, None))
          in case date_transform_fn token of
               Some transform \<Rightarrow>
                 (case trailing of
                    None \<Rightarrow> Inr (PL_DateTransform field transform Op_Eq v)
                  | Some t \<Rightarrow>
                      (case date_compare_op t of
                         Some p \<Rightarrow> Inr (PL_DateTransform field transform p v)
                       | None \<Rightarrow> Inl (UnknownLookup field suf)))
             | None \<Rightarrow> suffix_lookup key field suf v)"

section \<open>Resolving\<close>

definition resolve_filter :: "model_schema \<Rightarrow> string \<Rightarrow> op \<Rightarrow> 'o sql_value \<Rightarrow> query_error + 'o filter_pred" where
  "resolve_filter model name p v =
     (case field_by_name model name of
        None \<Rightarrow> Inl (UnknownField (md_name model) name)
      | Some field \<Rightarrow>
          (case check_value_type model field p v of
             Some e \<Rightarrow> Inl e
           | None \<Rightarrow> Inr \<lparr>flt_column = fd_column field, flt_op = p, flt_value = v\<rparr>))"

definition never_match_clause :: "model_schema \<Rightarrow> 'o where_expr \<Rightarrow> query_error + 'o where_expr" where
  "never_match_clause model base =
     (case primary_key_field model of
        None \<Rightarrow> Inl (UnknownField (md_name model) ''<primary_key>'')
      | Some pk \<Rightarrow>
          let never = W_Predicate \<lparr>flt_column = fd_column pk, flt_op = Op_IsNull, flt_value = V_Bool True\<rparr>
          in Inr (case base of
                    W_And nodes \<Rightarrow> if nodes = [] then never else W_And (nodes @ [never])
                  | other \<Rightarrow> W_And [other, never]))"

section \<open>What a tree says of a row\<close>

text \<open>
  SQL's three-valued reading of a tree, \<open>None\<close> for \<open>NULL\<close>, over a valuation of its leaves. The written
  form of \<open>Xor\<close> counts the children that are true, so a \<open>NULL\<close> child counts as false there.
\<close>

definition conj3 :: "bool option list \<Rightarrow> bool option" where
  "conj3 xs = (if Some False \<in> set xs then Some False else if None \<in> set xs then None else Some True)"

definition disj3 :: "bool option list \<Rightarrow> bool option" where
  "disj3 xs = (if Some True \<in> set xs then Some True else if None \<in> set xs then None else Some False)"

fun truth :: "('o where_expr \<Rightarrow> bool option) \<Rightarrow> 'o where_expr \<Rightarrow> bool option" where
  "truth leaf (W_And items) = conj3 (map (truth leaf) items)"
| "truth leaf (W_Or items) = disj3 (map (truth leaf) items)"
| "truth leaf (W_Not e) = map_option Not (truth leaf e)"
| "truth leaf (W_Xor items) =
     (case map (truth leaf) items of
        [x] \<Rightarrow> x
      | xs \<Rightarrow> Some (odd (length (filter (\<lambda>x. x = Some True) xs))))"
| "truth leaf e = leaf e"

lemma conj3_append: "conj3 (xs @ ys) = conj3 [conj3 xs, conj3 ys]"
  by (auto simp: conj3_def)

lemma disj3_append: "disj3 (xs @ ys) = disj3 [disj3 xs, disj3 ys]"
  by (auto simp: disj3_def)

lemma conj3_single: "conj3 [x] = x"
  by (cases x) (auto simp: conj3_def)

lemma disj3_single: "disj3 [x] = x"
  by (cases x) (auto simp: disj3_def)

definition and_items :: "'o where_expr \<Rightarrow> 'o where_expr list" where
  "and_items e = (case e of W_And xs \<Rightarrow> xs | _ \<Rightarrow> [e])"

definition or_items :: "'o where_expr \<Rightarrow> 'o where_expr list" where
  "or_items e = (case e of W_Or xs \<Rightarrow> xs | _ \<Rightarrow> [e])"

lemma bitand_items: "bitand a b = W_And (and_items a @ and_items b)"
  by (cases a; cases b) (simp_all add: bitand_def and_items_def)

lemma bitor_items: "bitor a b = W_Or (or_items a @ or_items b)"
  by (cases a; cases b) (simp_all add: bitor_def or_items_def)

lemma conj3_items: "conj3 (map (truth leaf) (and_items e)) = truth leaf e"
  by (cases e) (simp_all only: and_items_def where_expr.case list.map conj3_single truth.simps)

lemma disj3_items: "disj3 (map (truth leaf) (or_items e)) = truth leaf e"
  by (cases e) (simp_all only: or_items_def where_expr.case list.map disj3_single truth.simps)

lemma truth_bitand: "truth leaf (bitand a b) = conj3 [truth leaf a, truth leaf b]"
  unfolding bitand_items truth.simps map_append conj3_append conj3_items ..

lemma truth_bitor: "truth leaf (bitor a b) = disj3 [truth leaf a, truth leaf b]"
  unfolding bitor_items truth.simps map_append disj3_append disj3_items ..

lemma truth_bitxor: "truth leaf (bitxor a b) = Some ((truth leaf a = Some True) \<noteq> (truth leaf b = Some True))"
  by (simp add: bitxor_def)

lemma truth_q_not: "truth leaf (q_not e) = map_option Not (truth leaf e)"
  by (cases e) (auto simp: option.map_comp comp_def option.map_ident)

section \<open>Lookups compile\<close>

text \<open>The shape of value each operator of a lookup needs, and the dialects that have the operator.\<close>

definition operand_ok :: "op \<Rightarrow> 'o sql_value \<Rightarrow> bool" where
  "operand_ok p v \<longleftrightarrow>
     (if p \<in> {Op_In, Op_NotIn} then is_V_List v
      else if p \<in> {Op_Between, Op_NotBetween} then (\<exists>lo hi. v = V_List [lo, hi])
      else if p = Op_IsNull then is_V_Bool v
      else if p = Op_JsonContains then is_V_Json v
      else if p \<in> {Op_ArrayContains, Op_ArrayContainedBy, Op_ArrayOverlap} then (\<exists>vs. v = V_Array vs)
      else p \<notin> {Op_JsonContainedBy, Op_JsonHasKey, Op_JsonHasAnyKey, Op_JsonHasAllKeys})"

definition pg_only_op :: "op \<Rightarrow> bool" where
  "pg_only_op p \<longleftrightarrow>
     p \<in> {Op_TrigramSimilar, Op_TrigramWordSimilar, Op_Search, Op_ArrayContains, Op_ArrayContainedBy, Op_ArrayOverlap,
          Op_RangeContains, Op_RangeContainedBy, Op_RangeOverlap, Op_RangeStrictlyLeft, Op_RangeStrictlyRight, Op_RangeAdjacent}"

definition op_available :: "dialect \<Rightarrow> op \<Rightarrow> bool" where
  "op_available d p \<longleftrightarrow> supports_op d p \<and> (pg_only_op p \<longrightarrow> d = Postgres)"

definition refused_by :: "dialect \<Rightarrow> sql_error \<Rightarrow> bool" where
  "refused_by d e \<longleftrightarrow>
     (\<exists>what. e = OperatorNotSupportedInDialect what (dialect_name d) \<or> e = OpNotSupportedInDialect what (dialect_name d))"

lemma is_V_simps:
  "is_V_List v \<longleftrightarrow> (\<exists>vs. v = V_List vs)" "is_V_Bool v \<longleftrightarrow> (\<exists>x. v = V_Bool x)" "is_V_Json v \<longleftrightarrow> (\<exists>j. v = V_Json j)"
  by (cases v; simp)+

lemma map_of_in: "map_of ps k = Some v \<Longrightarrow> v \<in> snd ` set ps"
  by (induction ps) (auto split: if_splits)

lemma lookup_ops:
  "simple_lookup suf = Some p \<Longrightarrow> operand_ok p v"
  "wrapped_lookup suf = Some (pre, post, p) \<Longrightarrow> operand_ok p v"
  "string_lookup suf = Some (expected, p) \<Longrightarrow> operand_ok p v"
  "range_lookup suf = Some p \<Longrightarrow> operand_ok p v"
  "array_lookup suf = Some p \<Longrightarrow> operand_ok p v \<longleftrightarrow> (\<exists>vs. v = V_Array vs)"
  unfolding simple_lookup_def wrapped_lookup_def string_lookup_def range_lookup_def array_lookup_def
  by (drule map_of_in, force simp: operand_ok_def)+

lemma between_value_Inr: "between_value field suf v = Inr w \<Longrightarrow> \<exists>lo hi. w = V_List [lo, hi]"
  by (auto simp: between_value_def invalid_value_def length_Suc_conv numeral_2_eq_2 split: sql_value.splits if_splits)

lemma list_value_Inr: "list_value field suf v = Inr w \<Longrightarrow> is_V_List w"
  by (auto simp: list_value_def invalid_value_def split: sql_value.splits)

lemma array_value_Inr: "array_value field suf v = Inr w \<Longrightarrow> \<exists>vs. w = V_Array vs"
  by (auto simp: array_value_def invalid_value_def split: sql_value.splits)

lemma value_operand:
  "list_value field suf v = Inr w \<Longrightarrow> operand_ok Op_In w" "list_value field suf v = Inr w \<Longrightarrow> operand_ok Op_NotIn w"
  "between_value field suf v = Inr w \<Longrightarrow> operand_ok Op_Between w" "between_value field suf v = Inr w \<Longrightarrow> operand_ok Op_NotBetween w"
  "is_V_Bool w \<Longrightarrow> operand_ok Op_IsNull w" "is_V_Json w \<Longrightarrow> operand_ok Op_JsonContains w"
  by (auto simp: operand_ok_def dest: list_value_Inr between_value_Inr)

lemma pair_Inr: "pair field p r = Inr (PL_Raw f q w) \<longleftrightarrow> f = field \<and> q = p \<and> r = Inr w"
  by (cases r) (auto simp: pair_def)

lemma bool_operand:
  "(if is_V_Bool v then Inr v else invalid_value field suf t v) = Inr w \<Longrightarrow> operand_ok Op_IsNull w"
  by (auto simp: invalid_value_def value_operand split: if_splits)

lemma value_lookup_operand:
  assumes "value_lookup key field suf v = Inr (PL_Raw f p w)"
  shows "operand_ok p w"
proof (cases "suf \<in> {''in'', ''not_in'', ''isnull'', ''between'', ''range'', ''not_between'', ''not_range''}")
  case True
  with assms show ?thesis
    by (elim insertE emptyE) (simp_all only: value_lookup_def pair_Inr simp_thms if_True if_False list.inject char.inject list.distinct,
        (elim conjE, simp only: value_operand bool_operand)+)
next
  case False
  with assms show ?thesis
    by (cases "range_lookup suf"; cases "array_lookup suf")
      (auto simp: value_lookup_def pair_Inr lookup_ops dest: array_value_Inr)
qed

lemma suffix_operand:
  assumes "suffix_lookup key field suf v = Inr (PL_Raw f p w)"
  shows "operand_ok p w"
proof (cases "simple_lookup suf")
  case s: None
  show ?thesis
  proof (cases "wrapped_lookup suf")
    case w: None
    with assms s show ?thesis
      by (cases "string_lookup suf")
        (auto simp: suffix_lookup_def pair_Inr lookup_ops value_operand split: if_splits dest: value_lookup_operand)
  next
    case (Some x)
    with assms s show ?thesis
      by (cases x) (auto simp: suffix_lookup_def pair_Inr lookup_ops value_operand split: if_splits)
  qed
qed (use assms in \<open>simp add: suffix_lookup_def pair_Inr lookup_ops\<close>)

lemma parse_operand:
  assumes "parse_lookup key v = Inr (PL_Raw f p w)"
  shows "operand_ok p w"
  using assms by (auto simp: parse_lookup_def Let_def operand_ok_def [of Op_Eq] dest: suffix_operand split: option.splits prod.splits)

lemma op_compiles:
  assumes "operand_ok (flt_op f) (flt_value f)"
  shows "if op_available (b_d b) (flt_op f) then \<exists>b'. write_op f model col cast b = Inr b'
    else \<exists>e. write_op f model col cast b = Inl e \<and> refused_by (b_d b) e"
proof (cases "pg_only_op (flt_op f) \<or> flt_op f = Op_JsonContains")
  case True
  with assms show ?thesis
    by (cases "b_d b")
      (auto simp: pg_only_op_def op_available_def supports_op_def operand_ok_def is_V_simps refused_by_def write_op_def require_op_def Let_def
        place_or_def push_placeholder_def write_trigram_similar_def write_search_def write_array_op_def write_range_op_def dialect_name_def)
next
  case False
  then have "op_available (b_d b) (flt_op f)" using assms
    by (auto simp: op_available_def supports_op_def operand_ok_def)
  moreover have "\<exists>b'. write_op f model col cast b = Inr b'"
    using assms False
    by (cases "flt_op f")
      (auto simp: write_op_def require_op_def supports_op_def operand_ok_def is_V_simps pg_only_op_def Let_def bind_value_def)
  ultimately show ?thesis by simp
qed

lemma filter_compiles:
  assumes "operand_ok (flt_op f) (flt_value f)"
  shows "if op_available (b_d b) (flt_op f) then \<exists>b'. write_filter f model b = Inr b'
    else \<exists>e. write_filter f model b = Inl e \<and> refused_by (b_d b) e"
proof -
  have av: "op_available (b_d b) p" if "p = Op_Eq \<or> p = Op_Ne" for p
    using that by (auto simp: op_available_def supports_op_def pg_only_op_def)
  show ?thesis
  proof (cases "null_test (flt_op f) (flt_value f)")
    case (Some t)
    then have "flt_op f = Op_Eq \<or> flt_op f = Op_Ne" by (auto simp: null_test_def split: sql_value.splits if_splits)
    with Some av show ?thesis by (auto simp: write_filter_def Let_def)
  next
    case None
    show ?thesis
    proof (cases "try_json_eq (render_qualified_col b (flt_column f)) (flt_op f) (flt_value f) b")
      case None': None
      with None op_compiles [OF assms] show ?thesis by (simp add: write_filter_def Let_def)
    next
      case (Some b1)
      then have "flt_op f = Op_Eq \<or> flt_op f = Op_Ne" by (auto simp: try_json_eq_def split: sql_value.splits if_splits)
      with None Some av show ?thesis by (auto simp: write_filter_def Let_def)
    qed
  qed
qed

end
