(* ===== verification/Upsert_Batch.thy ===== *)
theory Upsert_Batch
  imports Sql_Ir
begin

text \<open>
  Rows of a bulk upsert that repeat a conflict key (\<open>last_per_conflict_key\<close> in \<open>core/query.rs\<close>):
  Postgres refuses to update one row twice in a statement, so only the last of them is sent. Two rows
  repeat a key when the \<open>Debug\<close> forms of its cells agree; \<open>dbg\<close> is that form.
\<close>

section \<open>The rows that are kept\<close>

definition column_position :: "'a list \<Rightarrow> 'a \<Rightarrow> nat option" where
  "column_position xs x = (let i = length (takeWhile (\<lambda>y. y \<noteq> x) xs) in if i < length xs then Some i else None)"

fun positions :: "string list \<Rightarrow> string list \<Rightarrow> nat list option" where
  "positions columns [] = Some []"
| "positions columns (t # ts) =
     (case column_position columns t of
        None \<Rightarrow> None
      | Some k \<Rightarrow> map_option (Cons k) (positions columns ts))"

definition keyed :: "nat list \<Rightarrow> 'o sql_value list \<Rightarrow> bool" where
  "keyed idx row \<longleftrightarrow> list_all (\<lambda>k. k < length row \<and> row ! k \<noteq> V_Null) idx"

definition conflict_key :: "('o sql_value \<Rightarrow> string) \<Rightarrow> nat list \<Rightarrow> 'o sql_value list \<Rightarrow> string list" where
  "conflict_key dbg idx row = map (\<lambda>k. dbg (row ! k)) idx"

text \<open>The loop walks the rows from the last to the first, with the keys seen so far.\<close>

fun keep_flags :: "('o sql_value \<Rightarrow> string) \<Rightarrow> nat list \<Rightarrow> 'o sql_value list list \<Rightarrow> bool list \<times> string list list" where
  "keep_flags dbg idx [] = ([], [])"
| "keep_flags dbg idx (row # rows) =
     (let (keep, seen) = keep_flags dbg idx rows; key = conflict_key dbg idx row
      in if keyed idx row then
           (if List.member seen key then (False # keep, seen) else (True # keep, key # seen))
         else (True # keep, seen))"

definition rows_to_keep :: "('o sql_value \<Rightarrow> string) \<Rightarrow> 'o bulk_insert_query \<Rightarrow> bool list option" where
  "rows_to_keep dbg q =
     (case bq_on_conflict q of
        Some (DoUpdate target _) \<Rightarrow>
          (case positions (bq_columns q) target of
             None \<Rightarrow> None
           | Some idx \<Rightarrow>
               let keep = fst (keep_flags dbg idx (bq_rows q))
               in if List.member keep False then Some keep else None)
      | _ \<Rightarrow> None)"

definition last_per_conflict_key :: "('o sql_value \<Rightarrow> string) \<Rightarrow> 'o bulk_insert_query \<Rightarrow> 'o bulk_insert_query" where
  "last_per_conflict_key dbg q =
     (case rows_to_keep dbg q of
        None \<Rightarrow> q
      | Some keep \<Rightarrow> q\<lparr>bq_rows := map fst (filter snd (zip (bq_rows q) keep))\<rparr>)"

section \<open>The last of each key\<close>

text \<open>Reference: a row goes when a later keyed row has its key.\<close>

fun last_rows :: "('o sql_value \<Rightarrow> string) \<Rightarrow> nat list \<Rightarrow> 'o sql_value list list \<Rightarrow> 'o sql_value list list" where
  "last_rows dbg idx [] = []"
| "last_rows dbg idx (row # rows) =
     (if keyed idx row \<and> (\<exists>later \<in> set rows. keyed idx later \<and> conflict_key dbg idx later = conflict_key dbg idx row)
      then last_rows dbg idx rows else row # last_rows dbg idx rows)"

definition upsert_keys :: "('o sql_value \<Rightarrow> string) \<Rightarrow> nat list \<Rightarrow> 'o sql_value list list \<Rightarrow> string list list" where
  "upsert_keys dbg idx rows = map (conflict_key dbg idx) (filter (keyed idx) rows)"

lemma keep_flags_seen: "set (snd (keep_flags dbg idx rows)) = set (upsert_keys dbg idx rows)"
  by (induction rows) (auto simp: Let_def upsert_keys_def split: prod.splits)

lemma keep_flags_length: "length (fst (keep_flags dbg idx rows)) = length rows"
  by (induction rows) (auto simp: Let_def split: prod.splits)

lemma keep_flags_rows: "map fst (filter snd (zip rows (fst (keep_flags dbg idx rows)))) = last_rows dbg idx rows"
proof (induction rows)
  case (Cons row rows)
  have "List.member (snd (keep_flags dbg idx rows)) k \<longleftrightarrow> (\<exists>later \<in> set rows. keyed idx later \<and> conflict_key dbg idx later = k)" for k
    by (auto simp: keep_flags_seen upsert_keys_def)
  with Cons show ?case by (auto simp: Let_def split: prod.splits)
qed simp

lemma all_kept: "length ks = length rows \<Longrightarrow> False \<notin> set ks \<Longrightarrow> map fst (filter snd (zip rows ks)) = rows"
  by (induction ks rows rule: list_induct2) auto

lemma last_per_conflict_key_rows:
  assumes "bq_on_conflict q = Some (DoUpdate target cols)" "positions (bq_columns q) target = Some idx"
  shows "bq_rows (last_per_conflict_key dbg q) = last_rows dbg idx (bq_rows q)"
proof (cases "False \<in> set (fst (keep_flags dbg idx (bq_rows q)))")
  case True
  with assms show ?thesis by (simp add: last_per_conflict_key_def rows_to_keep_def keep_flags_rows)
next
  case False
  from all_kept [OF keep_flags_length this] have "last_rows dbg idx (bq_rows q) = bq_rows q" by (simp add: keep_flags_rows)
  with assms False show ?thesis by (simp add: last_per_conflict_key_def rows_to_keep_def)
qed

lemma upsert_keys_last: "set (upsert_keys dbg idx (last_rows dbg idx rows)) = set (upsert_keys dbg idx rows)"
  by (induction rows) (auto simp: upsert_keys_def intro: rev_image_eqI)

lemma last_rows_distinct: "distinct (upsert_keys dbg idx (last_rows dbg idx rows))"
proof (induction rows)
  case (Cons row rows)
  have "set (upsert_keys dbg idx (last_rows dbg idx rows)) = conflict_key dbg idx ` {r \<in> set rows. keyed idx r}"
    using upsert_keys_last [of dbg idx rows] by (auto simp: upsert_keys_def)
  with Cons show ?case by (auto simp: upsert_keys_def)
qed (simp add: upsert_keys_def)

text \<open>Nothing else is lost: the unkeyed rows all stay, and the last row of each key.\<close>

lemma last_rows_keep:
  assumes "rows = before @ row # after"
    "\<not> (keyed idx row \<and> (\<exists>later \<in> set after. keyed idx later \<and> conflict_key dbg idx later = conflict_key dbg idx row))"
  shows "row \<in> set (last_rows dbg idx rows)"
  unfolding assms(1) using assms(2) by (induction before) auto

end
