(* ===== verification/Sql_Props.thy ===== *)
theory Sql_Props
  imports Sql_Erase Sql_Binds Like_Match Sql_Lookups Upsert_Batch
begin

text \<open>
  What the writers promise their callers, over whole statements: the text is one closed statement
  with the binds in order, it does not depend on the values, identifiers read back, text lookups match
  literally, \<open>Q\<close> composes as its operators say, and an upsert touches only rows of its own key.
\<close>

section \<open>Statements\<close>

text \<open>
  C1. Every statement the writers give is one closed statement to the server it is written for: the
  reader of that server ends outside every quote, comment and parenthesis, and its placeholders, in
  the order they stand, take exactly the binds of the parameter list, each once.
\<close>

theorem statement_reads_back:
  assumes "compile_statement d q = Inr (sql, params)" "dialect_of r = d"
  shows "reads_binds r sql (length params)"
  using assms by (rule statement_reads)

text \<open>
  C2. The text of a statement does not depend on the values in it: two queries that differ only in
  their values' payloads compile to the same text, and their binds have the same kinds.
\<close>

theorem text_ignores_values:
  assumes "blank_query q = blank_query q'" "compile_statement d q = Inr (sql, params)"
  shows "\<exists>params'. compile_statement d q' = Inr (sql, params') \<and> map blank params' = map blank params"
proof -
  have "map_sum id (map_prod id (map blank)) (compile_statement d q') = Inr (sql, map blank params)"
    using compile_blank [of d q] compile_blank [of d q'] assms by simp
  then show ?thesis by (cases "compile_statement d q'") auto
qed

text \<open>
  C22. The parameter list is the list of the query's values from left to right: the assignments before
  the predicates, a list operator's elements one by one or as one array, no bind for \<open>NULL\<close> tests.
\<close>

theorem statement_binds_in_order:
  assumes "compile_statement d q = Inr (sql, params)"
  shows "params = statement_binds d q"
  using assms by (rule compiled_binds)

section \<open>Identifiers\<close>

text \<open>How a server reads a quoted identifier: up to the first quote that is not doubled.\<close>

fun unquote_body :: "char \<Rightarrow> string \<Rightarrow> (string \<times> string) option" where
  "unquote_body q [] = None"
| "unquote_body q [c] = (if c = q then Some ([], []) else None)"
| "unquote_body q (c # c' # s) =
     (if c \<noteq> q then map_option (\<lambda>(a, rest). (c # a, rest)) (unquote_body q (c' # s))
      else if c' = q then map_option (\<lambda>(a, rest). (q # a, rest)) (unquote_body q s)
      else Some ([], c' # s))"

definition read_ident :: "dialect \<Rightarrow> string \<Rightarrow> (string \<times> string) option" where
  "read_ident d t = (case t of c # s \<Rightarrow> if c = ident_quote d then unquote_body c s else None | [] \<Rightarrow> None)"

lemma unquote_body_doubled:
  "rest = [] \<or> hd rest \<noteq> q \<Longrightarrow> unquote_body q (ident_body q name @ q # rest) = Some (name, rest)"
proof (induction name)
  case Nil
  then show ?case by (cases rest) auto
next
  case (Cons c name)
  then obtain x xs where "ident_body q name @ q # rest = x # xs" by (cases "ident_body q name") auto
  with Cons show ?case by auto
qed

text \<open>
  C30. A quoted identifier reads back as the name that was written, whatever characters the name has,
  and the text after it is left alone.
\<close>

theorem identifier_roundtrip:
  assumes "rest = [] \<or> hd rest \<noteq> ident_quote d"
  shows "read_ident d (push_quoted_ident d name @ rest) = Some (name, rest)"
  using unquote_body_doubled [OF assms] by (simp add: read_ident_def push_quoted_ident_def push_quoted_with_body)

section \<open>Text lookups\<close>

text \<open>
  How the server compares a column with the bind of a case-sensitive escaped lookup: with \<open>GLOB\<close> on
  SQLite and with \<open>LIKE \<dots> ESCAPE '!'\<close> elsewhere.
\<close>

definition server_like :: "dialect \<Rightarrow> string \<Rightarrow> string \<Rightarrow> bool" where
  "server_like d p t = (if d = Sqlite then glob_matches p t else like_matches True p t)"

lemma escaped_bind:
  assumes "like_items True p \<noteq> None"
  shows "\<exists>r. filter_binds d \<lparr>flt_column = c, flt_op = Op_LikeEscaped, flt_value = V_String p\<rparr> = [V_String r] \<and>
    (\<forall>t. server_like d r t \<longleftrightarrow> like_matches True p t)"
  using glob_matches_like [OF assms] by (simp add: filter_binds_def like_bind_def server_like_def)

lemma escaped_items: "like_items True (pre @ escape_like s @ suf) \<noteq> None" if "pre \<in> {[], ''%''}" "suf \<in> {[], ''%''}"
proof -
  have "like_items True suf \<noteq> None" using that(2) by (auto simp: LIKE_ESCAPE_CHAR_def)
  with that(1) show ?thesis using like_items_escape [of s suf] by (auto simp: LIKE_ESCAPE_CHAR_def)
qed

text \<open>
  C23. \<open>contains\<close>, \<open>startswith\<close> and \<open>endswith\<close>, as keys and as \<open>Q\<close> constructors, match the given text
  literally on every dialect: the server finds it as a substring, prefix or suffix of the column,
  whatever wildcards of \<open>LIKE\<close> or \<open>GLOB\<close> it contains.
\<close>

theorem text_lookups_match_literally:
  assumes "(suf, rel, q) \<in> {(''contains'', sublist, q_contains), (''startswith'', prefix, q_startswith), (''endswith'', suffix, q_endswith)}"
    "split_dunder key = Some (field, suf)"
  shows "\<exists>v. parse_lookup key (V_String s) = Inr (PL_Raw field Op_LikeEscaped v) \<and>
    q field s = W_Predicate \<lparr>flt_column = field, flt_op = Op_LikeEscaped, flt_value = v\<rparr> \<and>
    (\<forall>d c. \<exists>r. filter_binds d \<lparr>flt_column = c, flt_op = Op_LikeEscaped, flt_value = v\<rparr> = [V_String r] \<and>
       (\<forall>t. server_like d r t \<longleftrightarrow> rel s t))"
proof -
  from assms(1) consider (c) "suf = ''contains''" "rel = sublist" "q = q_contains"
    | (s) "suf = ''startswith''" "rel = prefix" "q = q_startswith" | (e) "suf = ''endswith''" "rel = suffix" "q = q_endswith"
    by auto
  then obtain pre post where p: "wrapped_lookup suf = Some (pre, post, Op_LikeEscaped)" "pre \<in> {[], ''%''}" "post \<in> {[], ''%''}"
    "q field s = wrap_escaped field pre post s False" "\<forall>t. like_matches True (pre @ escape_like s @ post) t \<longleftrightarrow> rel s t"
  proof cases
    case c
    then show ?thesis using like_contains [of s] by (intro that [of "''%''" "''%''"]) (simp_all add: wrapped_lookup_def q_contains_def)
  next
    case s
    then show ?thesis using like_startswith [of s] by (intro that [of "[]" "''%''"]) (simp_all add: wrapped_lookup_def q_startswith_def)
  next
    case e
    then show ?thesis using like_endswith [of s] by (intro that [of "''%''" "[]"]) (simp_all add: wrapped_lookup_def q_endswith_def)
  qed
  have "suf = ''contains'' \<or> suf = ''startswith'' \<or> suf = ''endswith''" using assms(1) by auto
  then have n: "split_dunder suf = None" "date_transform_fn suf = None" "simple_lookup suf = None"
    by (elim disjE; simp add: date_transform_fn_def simple_lookup_def)+
  have "parse_lookup key (V_String s :: 'a sql_value) = Inr (PL_Raw field Op_LikeEscaped (V_String (pre @ escape_like s @ post)))"
    by (simp add: parse_lookup_def assms(2) n suffix_lookup_def p(1) pair_def wrap_like_def)
  with escaped_bind [OF escaped_items [OF p(2,3)], of _ _ s] p(4,5) show ?thesis
    by (auto simp: wrap_escaped_def q_predicate_def)
qed

text \<open>
  C24. A \<open>LIKE\<close> pattern rewritten for SQLite's \<open>GLOB\<close> matches the same text, for every pattern that
  does not end inside an escape.
\<close>

theorem glob_form_matches_like:
  assumes "like_items escaped p \<noteq> None"
  shows "glob_matches (like_to_glob escaped p) t \<longleftrightarrow> like_matches escaped p t"
  using assms by (rule glob_matches_like)

section \<open>Lookups and Q\<close>



text \<open>
  C29. The clause that \<open>none()\<close> puts on an update or delete is never true of a row whose primary key is
  not \<open>NULL\<close>, whatever filters it is added to.
\<close>

theorem never_match_matches_nothing:
  assumes "never_match_clause model e = Inr e'" "primary_key_field model = Some pk"
    "leaf (q_is_null (fd_column pk)) = Some False"
  shows "truth leaf e' = Some False"
  using assms
  by (auto simp: never_match_clause_def q_is_null_def q_predicate_def Let_def conj3_def split: where_expr.splits if_splits)

section \<open>Where the comments on Q differ\<close>

text \<open>
  An empty \<open>in_\<close> is written as a test that is never true, not refused.
\<close>

lemma empty_in_is_written: "write_where_expr model (q_in c []) b = Inr (push_str ''1 = 0'' b)"
  by (simp add: q_in_def q_predicate_def write_filter_def null_test_def try_json_eq_def write_op_def write_empty_in_def Let_def)

text \<open>
  An exclusive or is written the same way on every dialect, SQLite included: \<open>(CASE WHEN a \<dots> + CASE
  WHEN b \<dots>) % 2 = 1\<close>, refused only when a side is.
\<close>

lemma xor_is_written:
  assumes "\<And>b. \<exists>b'. write_child model x b = Inr b'" "\<And>b. \<exists>b'. write_child model y b = Inr b'"
  shows "\<exists>b'. write_where_expr model (bitxor x y) b = Inr (push_str '') % 2 = 1'' b')"
proof -
  obtain b1 where b1: "write_child model x (push_str ''(CASE WHEN '' (push_str ''('' b)) = Inr b1" using assms(1) by blast
  obtain b2 where b2: "write_child model y (push_str ''(CASE WHEN '' (push_str '' + '' (push_str '' THEN 1 ELSE 0 END)'' b1))) = Inr b2"
    using assms(2) by blast
  show ?thesis by (rule exI [of _ "push_str '' THEN 1 ELSE 0 END)'' b2"]) (simp add: bitxor_def b1 b2)
qed

section \<open>Upserts\<close>

text \<open>
  C26. A bulk upsert is sent with the last row of each conflict key and every row without a key: it is
  the reference selection, no key stands in it twice, and no key is lost.
\<close>

theorem upsert_keeps_last_rows:
  assumes "bq_on_conflict q = Some (DoUpdate target cols)" "positions (bq_columns q) target = Some idx"
  shows "bq_rows (last_per_conflict_key dbg q) = last_rows dbg idx (bq_rows q) \<and>
    distinct (upsert_keys dbg idx (bq_rows (last_per_conflict_key dbg q))) \<and>
    set (upsert_keys dbg idx (bq_rows (last_per_conflict_key dbg q))) = set (upsert_keys dbg idx (bq_rows q))"
  by (simp add: last_per_conflict_key_rows [OF assms] last_rows_distinct upsert_keys_last)

text \<open>The unique keys of a model, and the columns of a key that the database fills in itself.\<close>

definition unique_keys :: "model_schema \<Rightarrow> string list list" where
  "unique_keys model =
     (let pk = map fd_column (filter fd_primary_key (md_fields model)) in if pk = [] then [] else [pk])
     @ map (\<lambda>f. [fd_column f]) (filter (\<lambda>f. fd_unique f \<and> \<not> fd_primary_key f) (md_fields model))
     @ map xd_columns (filter xd_unique (md_indexes model))"

definition database_fills :: "model_schema \<Rightarrow> string list \<Rightarrow> string \<Rightarrow> bool" where
  "database_fills model given c \<longleftrightarrow> (\<exists>f. field_by_column model c = Some f \<and> fd_auto f) \<and> c \<notin> set given"

lemma fitting_key:
  assumes "my_target_is_only_unique_key model given target" "key \<in> set (unique_keys model)"
  shows "my_key_fits model given target key"
  using assms by (auto simp: my_target_is_only_unique_key_def unique_keys_def Let_def list_all_iff split: if_splits)

lemma fitting_key_is_target:
  assumes "my_key_fits model given target key" "distinct key" "\<not> list_ex (database_fills model given) key"
  shows "set key = set target"
proof -
  have "length key = length target" "set key \<subseteq> set target"
    using assms(1,3) by (auto simp: my_key_fits_def database_fills_def list_ex_iff list_all_iff split: option.splits)
  with assms(2) show ?thesis
    by (metis card_length card_subset_eq List.finite_set card_mono distinct_card le_antisym)
qed

lemma insert_values_conflict:
  "write_insert_values q vs b = Inr b1 \<Longrightarrow>
   \<exists>b2. b_d b2 = b_d b \<and> write_on_conflict (iq_model q) (iq_columns q) (iq_generated q) (iq_on_conflict q) b2 = Inr b1"
  by (auto simp: write_insert_values_def Let_def split: if_splits) (rule exI, rule conjI [rotated], assumption, simp add: bound)+

text \<open>
  C25. MySQL's \<open>ON DUPLICATE KEY UPDATE\<close> fires on any unique key, so an upsert is written there only
  when the given values can collide on nothing but the conflict target: every unique key of the model
  that the statement itself fills is the target.
\<close>

theorem mysql_upsert_collides_on_target_only:
  assumes "compile_insert MySql q = Inr out" "iq_on_conflict q = Some (DoUpdate target cols)"
    "key \<in> set (unique_keys (iq_model q))" "distinct key"
    "\<not> list_ex (database_fills (iq_model q) (caller_set (iq_columns q) (iq_generated q))) key"
  shows "set key = set target"
proof -
  from assms(1) obtain b where "write_insert q (new_sql MySql) = Inr b" by (auto simp: compile_insert_def try_then_Inr)
  then obtain b1 where "write_insert_values q (iq_values q) (new_sql MySql) = Inr b1"
    by (auto simp: write_insert_def try_then_Inr split: if_splits)
  then obtain b2 where "b_d b2 = MySql"
      "write_on_conflict (iq_model q) (iq_columns q) (iq_generated q) (iq_on_conflict q) b2 = Inr b1"
    using insert_values_conflict by (fastforce simp: new_sql_def)
  then have "my_target_is_only_unique_key (iq_model q) (caller_set (iq_columns q) (iq_generated q)) target"
    using assms(2)
    by (auto simp: write_on_conflict_def write_conflict_clause_def mysql_conflict_clause_def try_then_Inr split: if_splits)
  from fitting_key_is_target [OF fitting_key [OF this assms(3)] assms(4,5)] show ?thesis .
qed

end
