(* ===== verification/Sql_Witnesses.thy ===== *)
theory Sql_Witnesses
  imports Sql_Props
begin

text \<open>
  The theorems on statements applied to an account table: a rename of the accounts whose name holds
  some text, an upsert on the e-mail address, and a batch that repeats one.
\<close>

section \<open>A table and its statements\<close>

definition account_model :: model_schema where
  "account_model = (new_model_schema ''Account'' ''account'')\<lparr>md_fields :=
     [(new_field_schema ''id'' ''id'' I64)\<lparr>fd_primary_key := True, fd_auto := True\<rparr>,
      (new_field_schema ''email'' ''email'' String)\<lparr>fd_unique := True\<rparr>,
      new_field_schema ''name'' ''na`me'' String]\<rparr>"

definition rename_accounts :: "string \<Rightarrow> string \<Rightarrow> string write_query" where
  "rename_accounts s t = Update_Query
     \<lparr>uq_model = account_model, uq_set = [(''na`me'', E_Literal (V_String t))],
      uq_where = bitand (q_contains ''na`me'' s) (q_in ''email'' [V_String s, V_String t])\<rparr>"

lemma text_filter_compiles:
  assumes "p = Op_LikeEscaped \<or> p = Op_In \<and> is_V_List v"
  shows "\<exists>b'. write_filter \<lparr>flt_column = c, flt_op = p, flt_value = v\<rparr> model b = Inr b'"
  using filter_compiles [of "\<lparr>flt_column = c, flt_op = p, flt_value = v\<rparr>" b model] assms
  by (auto simp: operand_ok_def op_available_def supports_op_def pg_only_op_def)

lemma rename_accounts_writes: "\<exists>b'. write_statement (rename_accounts s t) b = Inr b'"
proof -
  let ?w = "bitand (q_contains ''na`me'' s) (q_in ''email'' [V_String s, V_String t]) :: string where_expr"
  have w: "\<exists>b'. write_where model ?w b = Inr b'" for model b
  proof -
    let ?f = "\<lparr>flt_column = ''na`me'', flt_op = Op_LikeEscaped, flt_value = V_String (''%'' @ escape_like s @ ''%'')\<rparr> :: string filter_pred"
    let ?g = "\<lparr>flt_column = ''email'', flt_op = Op_In, flt_value = V_List [V_String s, V_String t]\<rparr> :: string filter_pred"
    have fg: "q_contains ''na`me'' s = W_Predicate ?f" "q_in ''email'' [V_String s, V_String t] = W_Predicate ?g"
      by (simp_all add: q_contains_def q_in_def wrap_escaped_def q_predicate_def)
    obtain b1 where b1: "write_filter ?f model (push_str '' WHERE '' b) = Inr b1" using text_filter_compiles by blast
    obtain b2 where b2: "write_filter ?g model (push_str '' AND '' b1) = Inr b2"
      using text_filter_compiles [of Op_In "V_List [V_String s, V_String t]" "''email''" model "push_str '' AND '' b1"] by auto
    show ?thesis unfolding fg by (simp add: bitand_def write_where_def where_is_empty_def b1 b2 del: append_Cons)
  qed
  obtain b' where "write_where (Some account_model) ?w (push_param_typed (V_String t) (null_cast_for (b_d b) account_model ''na`me'')
      (push_str '' = '' (write_ident ''na`me'' (push_str '' SET '' (write_ident ''account'' (push_str ''UPDATE ''
        (b\<lparr>b_scope_stack := b_scope_stack b @ [scope_plain account_model], b_dml_target := Some ''account''\<rparr>))))))) = Inr b'"
    using w by blast
  moreover have "md_table account_model = ''account''" by (simp add: account_model_def new_model_schema_def)
  ultimately show ?thesis
    by (simp add: rename_accounts_def write_statement_def write_update_def with_scope_def bound)
qed

lemma rename_accounts_compiles:
  "\<exists>sql. compile_statement d (rename_accounts s t) = Inr (sql, statement_binds d (rename_accounts s t))"
proof -
  obtain b where b: "write_statement (rename_accounts s t) (new_sql d) = Inr b" using rename_accounts_writes by blast
  with write_statement_binds [OF b] have p: "b_d b = d" "b_params b = statement_binds d (rename_accounts s t)"
    by (simp_all add: binds_def new_sql_def)
  have "find_map (unbindable_kind d) (statement_binds d (rename_accounts s t)) = None"
    by (cases d) (simp_all add: rename_accounts_def q_contains_def q_in_def wrap_escaped_def q_predicate_def bitand_def filter_binds_def
        like_bind_def list_binds_def binds_as_array_def Let_def unbindable_kind_def binds_pg_only_values_def)
  then show ?thesis by (simp add: compile_statement_eq b finish_def p refuse_unbindable_values_def)
qed

theorem statement_reads_back_witness:
  "\<exists>sql params. compile_statement MySql (rename_accounts ''50%'' ''x'') = Inr (sql, params) \<and>
     length params = 4 \<and> reads_binds ReadMariaDb sql 4"
proof -
  have l: "length (statement_binds MySql (rename_accounts ''50%'' ''x'')) = 4" by code_simp
  obtain sql where s: "compile_statement MySql (rename_accounts ''50%'' ''x'') =
      Inr (sql, statement_binds MySql (rename_accounts ''50%'' ''x''))" using rename_accounts_compiles by blast
  have d: "dialect_of ReadMariaDb = MySql" by (simp add: dialect_of_def)
  from statement_reads_back [OF s d] s l show ?thesis by auto
qed

theorem text_ignores_values_witness:
  "\<exists>sql ps ps'. compile_statement Sqlite (rename_accounts ''50%'' ''x'') = Inr (sql, ps) \<and>
     compile_statement Sqlite (rename_accounts [] ''; --'') = Inr (sql, ps')"
proof -
  obtain sql ps where s: "compile_statement Sqlite (rename_accounts ''50%'' ''x'') = Inr (sql, ps)"
    using rename_accounts_compiles by blast
  have b: "blank_query (rename_accounts ''50%'' ''x'') = blank_query (rename_accounts [] ''; --'')" by code_simp
  from text_ignores_values [OF b s] s show ?thesis by blast
qed

theorem statement_binds_in_order_witness:
  "\<exists>sql. compile_statement Sqlite (rename_accounts ''5*'' ''x'') =
     Inr (sql, [V_String ''x'', V_String ''*5[*]*'', V_String ''5*'', V_String ''x''])"
proof -
  obtain sql ps where s: "compile_statement Sqlite (rename_accounts ''5*'' ''x'') = Inr (sql, ps)"
    using rename_accounts_compiles by blast
  have "statement_binds Sqlite (rename_accounts ''5*'' ''x'') =
      [V_String ''x'', V_String ''*5[*]*'', V_String ''5*'', V_String ''x'']" by code_simp
  with statement_binds_in_order [OF s] s show ?thesis by simp
qed

theorem identifier_roundtrip_witness:
  "read_ident MySql (push_quoted_ident MySql ''na`me'' @ '' = ?'') = Some (''na`me'', '' = ?'')"
  by (rule identifier_roundtrip) (simp add: ident_quote_def)

section \<open>Lookups\<close>

theorem text_lookups_match_literally_witness:
  "\<exists>v. parse_lookup ''name__contains'' (V_String ''50%'' :: string sql_value) = Inr (PL_Raw ''name'' Op_LikeEscaped v) \<and>
     (\<exists>r. filter_binds Sqlite \<lparr>flt_column = ''name'', flt_op = Op_LikeEscaped, flt_value = v\<rparr> = [V_String r] \<and>
        server_like Sqlite r ''-50%-'' \<and> \<not> server_like Sqlite r ''-500-'')"
proof -
  have k: "split_dunder ''name__contains'' = Some (''name'', ''contains'')" by code_simp
  have s: "sublist ''50%'' ''-50%-''" "\<not> sublist ''50%'' ''-500-''" by code_simp+
  from text_lookups_match_literally [OF insertI1 k, of "''50%''"] s show ?thesis by blast
qed

theorem glob_form_matches_like_witness:
  "glob_matches (like_to_glob False ''a*_%'') ''a*bc'' \<and> \<not> glob_matches (like_to_glob False ''a*_%'') ''abc''"
proof -
  have i: "like_items False ''a*_%'' \<noteq> None" by simp
  have "like_matches False ''a*_%'' ''a*bc''" "\<not> like_matches False ''a*_%'' ''abc''"
    by (simp_all add: like_matches_def)
  then show ?thesis using glob_form_matches_like [OF i] by blast
qed


theorem never_match_matches_nothing_witness:
  "\<exists>e'. never_match_clause account_model (q_is_not_null ''email'' :: string where_expr) = Inr e' \<and>
     truth (\<lambda>e. Some (e = q_is_not_null ''email'')) e' = Some False"
proof -
  obtain pk where pk: "primary_key_field account_model = Some pk" "fd_column pk = ''id''"
    by (auto simp: account_model_def primary_key_field_def new_model_schema_def new_field_schema_def)
  then obtain e' where e: "never_match_clause account_model (q_is_not_null ''email'' :: string where_expr) = Inr e'"
    by (auto simp: never_match_clause_def Let_def)
  have l: "(\<lambda>e. Some (e = q_is_not_null ''email'')) (q_is_null (fd_column pk) :: string where_expr) = Some False"
    by (simp add: pk q_is_null_def q_is_not_null_def q_predicate_def)
  from never_match_matches_nothing [where leaf = "\<lambda>e. Some (e = q_is_not_null ''email'')", OF e pk(1) l] e show ?thesis by blast
qed

section \<open>Upserts\<close>

definition account_batch :: "string bulk_insert_query" where
  "account_batch =
     \<lparr>bq_model = account_model, bq_columns = [''email'', ''na`me''],
      bq_rows = [[V_String ''a'', V_String ''old''], [V_Null, V_String ''x''], [V_String ''a'', V_String ''new'']],
      bq_returning = [], bq_on_conflict = Some (DoUpdate [''email''] [''na`me'']), bq_generated = []\<rparr>"

fun debug_string :: "'o sql_value \<Rightarrow> string" where
  "debug_string (V_String s) = s"
| "debug_string v = ''-''"

theorem upsert_keeps_last_rows_witness:
  "bq_rows (last_per_conflict_key debug_string account_batch) =
     [[V_Null, V_String ''x''], [V_String ''a'', V_String ''new'']]"
proof -
  have c: "bq_on_conflict account_batch = Some (DoUpdate [''email''] [''na`me''])" by (simp add: account_batch_def)
  have i: "positions (bq_columns account_batch) [''email''] = Some [0]" by code_simp
  have "last_rows debug_string [0] (bq_rows account_batch) = [[V_Null, V_String ''x''], [V_String ''a'', V_String ''new'']]"
    by (simp add: account_batch_def keyed_def conflict_key_def)
  with upsert_keeps_last_rows [OF c i, of debug_string] show ?thesis by simp
qed

definition account_upsert :: "string insert_query" where
  "account_upsert =
     \<lparr>iq_model = account_model, iq_columns = [''email'', ''na`me''], iq_values = [V_String ''a'', V_String ''b''],
      iq_returning = [], iq_on_conflict = Some (DoUpdate [''email''] [''na`me'']), iq_generated = []\<rparr>"

theorem mysql_upsert_collides_on_target_only_witness:
  "\<not> isl (compile_insert MySql account_upsert) \<and> set [''email''] = set [''email'']"
proof -
  have c: "\<not> isl (compile_insert MySql account_upsert)" by code_simp
  then obtain out where o: "compile_insert MySql account_upsert = Inr out" by (metis sum.collapse(2))
  have k: "iq_on_conflict account_upsert = Some (DoUpdate [''email''] [''na`me''])" by (simp add: account_upsert_def)
  have u: "[''email''] \<in> set (unique_keys (iq_model account_upsert))"
    by (simp add: account_upsert_def account_model_def unique_keys_def new_model_schema_def new_field_schema_def)
  have f: "\<not> list_ex (database_fills (iq_model account_upsert) (caller_set (iq_columns account_upsert) (iq_generated account_upsert))) [''email'']"
    by (simp add: account_upsert_def database_fills_def caller_set_def)
  from mysql_upsert_collides_on_target_only [OF o k u _ f] c show ?thesis by simp
qed

end
