(* ===== verification/Snapshot.thy ===== *)
theory Snapshot
  imports Schema
begin

text \<open>
  Schema snapshots, \<open>crates/rustango/src/migrate/snapshot.rs\<close>: the records a migration file stores,
  the builders that capture them from the model registry, the lookups, \<open>keep_unmanaged\<close>, and the
  checks on the registry. The operations that rewrite a snapshot (\<open>apply_rename\<close>, \<open>merge_branch\<close>) are
  in the theory \<open>Snapshot_Edit\<close>. The JSON encoding (serde) and the log output are not modelled; a
  message is the value its format string interpolates.
\<close>

section \<open>The records\<close>

record relation_snapshot =
  rs_kind :: string
  rs_to :: string
  rs_on :: string
  rs_on_delete :: "string option"

record field_snapshot =
  fs_name :: string
  fs_column :: string
  fs_ty :: string
  fs_nullable :: bool
  fs_primary_key :: bool
  fs_max_length :: "u32 option"
  fs_min :: "i64 option"
  fs_max :: "i64 option"
  fs_default :: "string option"
  fs_auto :: bool
  fs_unique :: bool
  fs_case_insensitive :: bool
  fs_generated_as :: "string option"
  fs_db_comment :: "string option"
  fs_fk :: "relation_snapshot option"

record composite_fk_snapshot =
  cf_name :: string
  cf_to :: string
  cf_from :: "string list"
  cf_on :: "string list"

record table_snapshot =
  ts_name :: string
  ts_model :: string
  ts_fields :: "field_snapshot list"
  ts_composite_fks :: "composite_fk_snapshot list"
  ts_db_table_comment :: "string option"

record m2m_table_snapshot =
  m2_through :: string
  m2_src_table :: string
  m2_src_col :: string
  m2_dst_table :: string
  m2_dst_col :: string

record index_snapshot =
  ix_name :: string
  ix_table :: string
  ix_columns :: "string list"
  ix_unique :: bool
  ix_method :: string
  ix_where_clause :: "string option"
  ix_include :: "string list"

record check_snapshot =
  ck_name :: string
  ck_table :: string
  ck_expr :: string

record exclusion_snapshot =
  ex_name :: string
  ex_table :: string
  ex_using :: string
  ex_elements :: "(string \<times> string) list"
  ex_where_clause :: "string option"

record schema_snapshot =
  sn_tables :: "table_snapshot list"
  sn_m2m_tables :: "m2m_table_snapshot list"
  sn_indexes :: "index_snapshot list"
  sn_checks :: "check_snapshot list"
  sn_excludes :: "exclusion_snapshot list"

text \<open>
  The derived and hand-written comparisons. The derived \<open>PartialOrd\<close> of the index, CHECK and
  EXCLUDE records compares their fields in declaration order; a junction compares by its name and
  its two ends in sorted order, so a mirrored declaration is equal.
\<close>

definition ix_ord ::
  "index_snapshot \<Rightarrow> string \<times> string \<times> string list \<times> bool \<times> string \<times> string option \<times> string list" where
  "ix_ord i = (ix_name i, ix_table i, ix_columns i, ix_unique i, ix_method i, ix_where_clause i, ix_include i)"

definition ck_ord :: "check_snapshot \<Rightarrow> string \<times> string \<times> string" where
  "ck_ord c = (ck_name c, ck_table c, ck_expr c)"

definition ex_ord ::
  "exclusion_snapshot \<Rightarrow> string \<times> string \<times> string \<times> (string \<times> string) list \<times> string option" where
  "ex_ord x = (ex_name x, ex_table x, ex_using x, ex_elements x, ex_where_clause x)"

definition junction_ends :: "string \<Rightarrow> string \<Rightarrow> string \<Rightarrow> string \<Rightarrow> (string \<times> string) list" where
  "junction_ends st sc dt dc = sort [(st, sc), (dt, dc)]"

definition m2_key :: "m2m_table_snapshot \<Rightarrow> string \<times> (string \<times> string) list" where
  "m2_key m = (m2_through m, junction_ends (m2_src_table m) (m2_src_col m) (m2_dst_table m) (m2_dst_col m))"

definition m2_eq :: "m2m_table_snapshot \<Rightarrow> m2m_table_snapshot \<Rightarrow> bool" where
  "m2_eq a b \<longleftrightarrow> m2_key a = m2_key b"

definition m2_canonical :: "m2m_table_snapshot \<Rightarrow> m2m_table_snapshot" where
  "m2_canonical m =
     (if (m2_src_table m, m2_src_col m) > (m2_dst_table m, m2_dst_col m)
      then m\<lparr>m2_src_table := m2_dst_table m, m2_src_col := m2_dst_col m,
             m2_dst_table := m2_src_table m, m2_dst_col := m2_src_col m\<rparr>
      else m)"

definition snapshot_eq :: "schema_snapshot \<Rightarrow> schema_snapshot \<Rightarrow> bool" where
  "snapshot_eq a b \<longleftrightarrow>
     sn_tables a = sn_tables b \<and> list_all2 m2_eq (sn_m2m_tables a) (sn_m2m_tables b) \<and>
     sn_indexes a = sn_indexes b \<and> sn_checks a = sn_checks b \<and> sn_excludes a = sn_excludes b"

section \<open>Lookups\<close>

definition snap_table :: "schema_snapshot \<Rightarrow> string \<Rightarrow> table_snapshot option" where
  "snap_table s name = find_by ts_name name (sn_tables s)"

definition snap_m2m_table :: "schema_snapshot \<Rightarrow> string \<Rightarrow> m2m_table_snapshot option" where
  "snap_m2m_table s through = find_by m2_through through (sn_m2m_tables s)"

definition snap_index :: "schema_snapshot \<Rightarrow> string \<Rightarrow> index_snapshot option" where
  "snap_index s name = find_by ix_name name (sn_indexes s)"

definition snap_check :: "schema_snapshot \<Rightarrow> string \<Rightarrow> check_snapshot option" where
  "snap_check s name = find_by ck_name name (sn_checks s)"

definition snap_exclude :: "schema_snapshot \<Rightarrow> string \<Rightarrow> exclusion_snapshot option" where
  "snap_exclude s name = find_by ex_name name (sn_excludes s)"

definition ts_field :: "table_snapshot \<Rightarrow> string \<Rightarrow> field_snapshot option" where
  "ts_field t column = find_by fs_column column (ts_fields t)"

definition ts_composite_fk :: "table_snapshot \<Rightarrow> string \<Rightarrow> composite_fk_snapshot option" where
  "ts_composite_fk t name = find_by cf_name name (ts_composite_fks t)"

section \<open>Field type names\<close>

definition field_type_name :: "field_type \<Rightarrow> string" where
  "field_type_name ty =
     (case ty of
        Vector dims \<Rightarrow> if dims = 0 then ''vector'' else ''vector('' @ show_nat (unat dims) @ '')''
      | Geometry srid \<Rightarrow> if srid = 0 then ''geometry'' else ''geometry('' @ show_nat (unat srid) @ '')''
      | I16 \<Rightarrow> ''i16'' | I32 \<Rightarrow> ''i32'' | I64 \<Rightarrow> ''i64'' | F32 \<Rightarrow> ''f32'' | F64 \<Rightarrow> ''f64''
      | Bool \<Rightarrow> ''bool'' | String \<Rightarrow> ''string'' | DateTime \<Rightarrow> ''datetime'' | Date \<Rightarrow> ''date''
      | Time \<Rightarrow> ''time'' | Uuid \<Rightarrow> ''uuid'' | Json \<Rightarrow> ''json'' | Decimal \<Rightarrow> ''decimal''
      | Binary \<Rightarrow> ''binary''
      | Array Array_Text \<Rightarrow> ''array_text'' | Array Array_Int \<Rightarrow> ''array_int''
      | Array Array_BigInt \<Rightarrow> ''array_bigint''
      | Range Range_Int \<Rightarrow> ''range_int'' | Range Range_BigInt \<Rightarrow> ''range_bigint''
      | Range Range_Numeric \<Rightarrow> ''range_numeric'' | Range Range_Date \<Rightarrow> ''range_date''
      | Range Range_DateTime \<Rightarrow> ''range_datetime''
      | HStore \<Rightarrow> ''hstore'')"

definition sized_type :: "string \<Rightarrow> string \<Rightarrow> u32 option" where
  "sized_type prefix name =
     (case strip_prefix prefix name of
        None \<Rightarrow> None
      | Some rest \<Rightarrow>
          if rest = [] then Some 0
          else Option.bind (strip_prefix ''('' rest) (\<lambda>r. Option.bind (strip_suffix '')'' r) parse_u32))"

definition named_types :: "(string \<times> field_type) list" where
  "named_types =
     [(''i16'', I16), (''i32'', I32), (''i64'', I64), (''f32'', F32), (''f64'', F64), (''bool'', Bool),
      (''string'', String), (''datetime'', DateTime), (''date'', Date), (''time'', Time),
      (''uuid'', Uuid), (''json'', Json), (''decimal'', Decimal), (''binary'', Binary),
      (''array_text'', Array Array_Text), (''array_int'', Array Array_Int),
      (''array_bigint'', Array Array_BigInt), (''range_int'', Range Range_Int),
      (''range_bigint'', Range Range_BigInt), (''range_numeric'', Range Range_Numeric),
      (''range_date'', Range Range_Date), (''range_datetime'', Range Range_DateTime),
      (''hstore'', HStore)]"

definition field_type_from_name :: "string \<Rightarrow> field_type option" where
  "field_type_from_name name =
     (case sized_type ''vector'' name of
        Some dims \<Rightarrow> Some (Vector dims)
      | None \<Rightarrow>
          (case sized_type ''geometry'' name of
             Some srid \<Rightarrow> Some (Geometry srid)
           | None \<Rightarrow> map_of named_types name))"

definition is_integer_ty :: "string \<Rightarrow> bool" where
  "is_integer_ty name \<longleftrightarrow> field_type_from_name name \<in> {Some I16, Some I32, Some I64}"

section \<open>Capturing a model\<close>

definition field_from_schema :: "field_schema \<Rightarrow> field_snapshot" where
  "field_from_schema f =
     (let on_delete = map_option on_delete_as_sql (fd_fk_on_delete f);
          fk = (case fd_relation f of
                  None \<Rightarrow> None
                | Some (Fk to on) \<Rightarrow> Some \<lparr>rs_kind = ''fk'', rs_to = to, rs_on = on, rs_on_delete = on_delete\<rparr>
                | Some (O2O to on) \<Rightarrow> Some \<lparr>rs_kind = ''o2o'', rs_to = to, rs_on = on, rs_on_delete = on_delete\<rparr>)
      in \<lparr>fs_name = fd_name f, fs_column = fd_column f, fs_ty = field_type_name (fd_ty f),
          fs_nullable = fd_nullable f, fs_primary_key = fd_primary_key f,
          fs_max_length = fd_max_length f, fs_min = fd_min f, fs_max = fd_max f,
          fs_default = fd_default f, fs_auto = fd_auto f, fs_unique = fd_unique f,
          fs_case_insensitive = fd_case_insensitive f, fs_generated_as = fd_generated_as f,
          fs_db_comment = fd_db_comment f, fs_fk = fk\<rparr>)"

definition table_from_schema :: "model_schema \<Rightarrow> table_snapshot" where
  "table_from_schema s =
     \<lparr>ts_name = md_table s, ts_model = md_name s,
      ts_fields = sort_key fs_column (map field_from_schema (scalar_fields s)),
      ts_composite_fks =
        map (\<lambda>rel. \<lparr>cf_name = cr_name rel, cf_to = cr_to rel, cf_from = cr_from rel, cf_on = cr_on rel\<rparr>)
          (md_composite_relations s),
      ts_db_table_comment = md_db_table_comment s\<rparr>"

text \<open>
  \<open>dedup_by_name\<close> sorts by name and then by the definition, and keeps the first entry of every
  name. \<open>ord\<close> is the comparison of the element type.
\<close>

definition dedup_by_name :: "('a \<Rightarrow> 'o::linorder) \<Rightarrow> ('a \<Rightarrow> string) \<Rightarrow> 'a list \<Rightarrow> 'a list" where
  "dedup_by_name ord name xs =
     dedup_by (\<lambda>later kept. name later = name kept) (sort_key (\<lambda>x. (name x, ord x)) xs)"

definition collect_checks :: "model_schema list \<Rightarrow> check_snapshot list" where
  "collect_checks schemas =
     dedup_by_name ck_ord ck_name
       (concat (map (\<lambda>s. map (\<lambda>c. \<lparr>ck_name = cd_name c, ck_table = md_table s, ck_expr = cd_expr c\<rparr>)
                           (md_check_constraints s)) schemas))"

definition collect_excludes :: "model_schema list \<Rightarrow> exclusion_snapshot list" where
  "collect_excludes schemas =
     dedup_by_name ex_ord ex_name
       (concat (map (\<lambda>s. map (\<lambda>x. \<lparr>ex_name = ed_name x, ex_table = md_table s, ex_using = ed_using x,
                                    ex_elements = ed_elements x, ex_where_clause = ed_where_clause x\<rparr>)
                           (md_exclusion_constraints s)) schemas))"

definition collect_indexes :: "model_schema list \<Rightarrow> index_snapshot list" where
  "collect_indexes schemas =
     dedup_by_name ix_ord ix_name
       (concat (map (\<lambda>s. map (\<lambda>i. \<lparr>ix_name = xd_name i, ix_table = md_table s, ix_columns = xd_columns i,
                                    ix_unique = xd_unique i, ix_method = index_method_as_str (xd_method i),
                                    ix_where_clause = xd_where_clause i, ix_include = xd_include i\<rparr>)
                           (md_indexes s)) schemas))"

definition m2m_snapshots :: "model_schema \<Rightarrow> m2m_table_snapshot list" where
  "m2m_snapshots s =
     map (\<lambda>rel. m2_canonical \<lparr>m2_through = mr_through rel, m2_src_table = md_table s,
                 m2_src_col = mr_src_col rel, m2_dst_table = mr_to rel, m2_dst_col = mr_dst_col rel\<rparr>)
       (filter mr_auto_create (md_m2m s))"

text \<open>
  \<open>junction_conflict\<close>: the first declaration (in order) that an earlier one contradicts, paired
  with the first such earlier one.
\<close>

fun junction_conflict_from ::
  "m2m_table_snapshot list \<Rightarrow> m2m_table_snapshot list \<Rightarrow> (m2m_table_snapshot \<times> m2m_table_snapshot) option" where
  "junction_conflict_from seen [] = None"
| "junction_conflict_from seen (a # rest) =
     (case List.find (\<lambda>b. m2_through b = m2_through a \<and> \<not> m2_eq b a) seen of
        Some b \<Rightarrow> Some (b, a)
      | None \<Rightarrow> junction_conflict_from (seen @ [a]) rest)"

definition junction_conflict ::
  "m2m_table_snapshot list \<Rightarrow> (m2m_table_snapshot \<times> m2m_table_snapshot) option" where
  "junction_conflict out = junction_conflict_from [] out"

text \<open>A conflicting junction panics the snapshot builders.\<close>

datatype snapshot_panic = JunctionConflict m2m_table_snapshot m2m_table_snapshot

definition collect_m2m_tables :: "model_schema list \<Rightarrow> snapshot_panic + m2m_table_snapshot list" where
  "collect_m2m_tables schemas =
     (let out = concat (map m2m_snapshots schemas)
      in case junction_conflict out of
           Some (b, a) \<Rightarrow> Inl (JunctionConflict b a)
         | None \<Rightarrow> Inr (dedup_by_name m2_key m2_through out))"

definition build_from :: "model_schema list \<Rightarrow> snapshot_panic + schema_snapshot" where
  "build_from models =
     (case collect_m2m_tables models of
        Inl e \<Rightarrow> Inl e
      | Inr m2m \<Rightarrow>
          Inr \<lparr>sn_tables = sort_key ts_name (map table_from_schema models), sn_m2m_tables = m2m,
               sn_indexes = collect_indexes models, sn_checks = collect_checks models,
               sn_excludes = collect_excludes models\<rparr>)"

definition from_models :: "model_schema list \<Rightarrow> snapshot_panic + schema_snapshot" where
  "from_models models = build_from (filter owns_table models)"

definition from_models_forced :: "model_schema list \<Rightarrow> snapshot_panic + schema_snapshot" where
  "from_models_forced models = build_from (filter (\<lambda>s. \<not> md_is_view s) models)"

section \<open>Capturing the registry\<close>

text \<open>
  \<open>one_owner_per_table\<close> folds the entries into a map from table to entry, kept here as the list of
  the held entries; the map's values come out in the order of the table names.
\<close>

definition own_step :: "model_entry list \<Rightarrow> model_entry \<Rightarrow> model_entry list" where
  "own_step by_table e =
     (case find_by entry_table (entry_table e) by_table of
        None \<Rightarrow> by_table @ [e]
      | Some held \<Rightarrow>
          (let replaced = update_first (\<lambda>x. entry_table x = entry_table e) (\<lambda>_. e) by_table
           in case (is_framework held, is_framework e) of
                (True, False) \<Rightarrow> replaced
              | (False, False) \<Rightarrow> if me_module_path e < me_module_path held then replaced else by_table
              | _ \<Rightarrow> by_table))"

definition one_owner_per_table :: "model_entry list \<Rightarrow> model_entry list" where
  "one_owner_per_table entries = sort_key entry_table (foldl own_step [] entries)"

definition from_user_entries :: "model_entry list \<Rightarrow> snapshot_panic + schema_snapshot" where
  "from_user_entries entries =
     build_from (map me_schema (one_owner_per_table (filter (\<lambda>e. owns_table (me_schema e)) entries)))"

definition from_registry :: "model_entry list \<Rightarrow> snapshot_panic + schema_snapshot" where
  "from_registry inventory = from_user_entries inventory"

definition from_registry_for_scope :: "model_entry list \<Rightarrow> model_scope \<Rightarrow> snapshot_panic + schema_snapshot" where
  "from_registry_for_scope inventory scope =
     from_user_entries (filter (\<lambda>e. md_scope (me_schema e) = scope) inventory)"

definition from_registry_for_app :: "model_entry list \<Rightarrow> string \<Rightarrow> snapshot_panic + schema_snapshot" where
  "from_registry_for_app inventory app =
     from_user_entries (filter (\<lambda>e. resolved_app_label e = Some app) inventory)"

definition shared_system_tables :: "string list" where
  "shared_system_tables = [''rustango_audit_log'', ''rustango_content_types'']"

definition in_system_chain :: "model_schema \<Rightarrow> model_scope \<Rightarrow> bool" where
  "in_system_chain s scope \<longleftrightarrow>
     (md_scope s = scope \<or> md_table s \<in> set shared_system_tables) \<and>
     starts_with (md_table s) ''rustango_'' \<and> owns_table s"

definition scope_owns_system_tables :: "model_entry list \<Rightarrow> model_scope \<Rightarrow> bool" where
  "scope_owns_system_tables inventory scope \<longleftrightarrow>
     list_ex (\<lambda>e. md_scope (me_schema e) = scope \<and> in_system_chain (me_schema e) scope) inventory"

definition from_registry_system_for_scope ::
  "model_entry list \<Rightarrow> model_scope \<Rightarrow> snapshot_panic + schema_snapshot" where
  "from_registry_system_for_scope inventory scope =
     build_from (map me_schema (one_owner_per_table
       (filter (\<lambda>e. in_system_chain (me_schema e) scope) inventory)))"

section \<open>Filtering and carrying over\<close>

definition scope_of_table :: "model_entry list \<Rightarrow> string \<Rightarrow> model_scope" where
  "scope_of_table inventory table =
     (case for_table inventory table of None \<Rightarrow> Tenant | Some e \<Rightarrow> md_scope (me_schema e))"

definition filtered_to_scope :: "model_entry list \<Rightarrow> schema_snapshot \<Rightarrow> model_scope \<Rightarrow> schema_snapshot" where
  "filtered_to_scope inventory s scope =
     (let tables = filter (\<lambda>t. scope_of_table inventory (ts_name t) = scope) (sn_tables s);
          names = set (map ts_name tables)
      in \<lparr>sn_tables = tables,
          sn_m2m_tables = filter (\<lambda>m. m2_src_table m \<in> names) (sn_m2m_tables s),
          sn_indexes = filter (\<lambda>i. ix_table i \<in> names) (sn_indexes s),
          sn_checks = filter (\<lambda>c. ck_table c \<in> names) (sn_checks s),
          sn_excludes = filter (\<lambda>x. ex_table x \<in> names) (sn_excludes s)\<rparr>)"

text \<open>\<open>sort\<close>: the order \<open>from_registry\<close> writes.\<close>

definition snap_sort :: "schema_snapshot \<Rightarrow> schema_snapshot" where
  "snap_sort s =
     \<lparr>sn_tables = map (\<lambda>t. t\<lparr>ts_fields := sort_key fs_column (ts_fields t)\<rparr>) (sort_key ts_name (sn_tables s)),
      sn_m2m_tables = sort_key m2_through (sn_m2m_tables s),
      sn_indexes = sort_key ix_name (sn_indexes s),
      sn_checks = sort_key ck_name (sn_checks s),
      sn_excludes = sort_key ex_name (sn_excludes s)\<rparr>"

definition keep_unmanaged :: "model_entry list \<Rightarrow> schema_snapshot \<Rightarrow> schema_snapshot \<Rightarrow> schema_snapshot" where
  "keep_unmanaged inventory s prev =
     (let kept = filter (\<lambda>t. snap_table s t = None \<and>
                   (case for_table inventory t of
                      None \<Rightarrow> False
                    | Some e \<Rightarrow> \<not> md_managed (me_schema e) \<or> md_is_view (me_schema e)))
                 (map ts_name (sn_tables prev));
          on_kept = (\<lambda>t. t \<in> set kept)
      in if kept = [] then s
         else snap_sort
           \<lparr>sn_tables = sn_tables s @ filter (\<lambda>t. on_kept (ts_name t)) (sn_tables prev),
            sn_m2m_tables = sn_m2m_tables s @
              filter (\<lambda>m. snap_m2m_table s (m2_through m) = None)
                (filter (\<lambda>m. on_kept (m2_src_table m) \<or> on_kept (m2_dst_table m)) (sn_m2m_tables prev)),
            sn_indexes = sn_indexes s @ filter (\<lambda>i. on_kept (ix_table i)) (sn_indexes prev),
            sn_checks = sn_checks s @ filter (\<lambda>c. on_kept (ck_table c)) (sn_checks prev),
            sn_excludes = sn_excludes s @ filter (\<lambda>x. on_kept (ex_table x)) (sn_excludes prev)\<rparr>)"

section \<open>Checks on a snapshot and on the registry\<close>

definition is_unique_key :: "schema_snapshot \<Rightarrow> table_snapshot \<Rightarrow> string list \<Rightarrow> bool" where
  "is_unique_key s table columns \<longleftrightarrow>
     map fs_column (filter fs_primary_key (ts_fields table)) = columns \<or>
     (case columns of
        [one] \<Rightarrow> list_ex (\<lambda>f. fs_unique f \<and> fs_column f = one) (ts_fields table)
      | _ \<Rightarrow> False) \<or>
     list_ex (\<lambda>i. ix_table i = ts_name table \<and> ix_unique i \<and> ix_where_clause i = None \<and>
                  ix_columns i = columns) (sn_indexes s)"

definition unkeyed_composite_fks ::
  "schema_snapshot \<Rightarrow> schema_snapshot \<Rightarrow> (string \<times> composite_fk_snapshot) list" where
  "unkeyed_composite_fks s prev =
     concat (map (\<lambda>t. map (Pair (ts_name t)) (filter (\<lambda>fk.
         \<not> (case snap_table prev (ts_name t) of None \<Rightarrow> False | Some p \<Rightarrow> fk \<in> set (ts_composite_fks p)) \<and>
         (case snap_table s (cf_to fk) of None \<Rightarrow> False | Some target \<Rightarrow> \<not> is_unique_key s target (cf_on fk)))
       (ts_composite_fks t))) (sn_tables s))"

datatype relation_target =
    NoSuchColumn string string string string string \<comment> \<open>model, field, kind, table, column\<close>
  | NamesAModel string string string string string \<comment> \<open>model, field, kind, target, its table\<close>
  | Unregistered string string string string \<comment> \<open>model, field, kind, target\<close>

definition relation_parts :: "relation \<Rightarrow> string \<times> string \<times> string" where
  "relation_parts r = (case r of Fk to on \<Rightarrow> (''fk'', to, on) | O2O to on \<Rightarrow> (''o2o'', to, on))"

definition relation_target_of :: "model_schema list \<Rightarrow> model_schema \<Rightarrow> field_schema \<Rightarrow> relation_target option" where
  "relation_target_of all m f =
     (case fd_relation f of
        None \<Rightarrow> None
      | Some r \<Rightarrow>
          (case relation_parts r of (kind, to, on) \<Rightarrow>
             (case find_by md_table to all of
                Some target \<Rightarrow>
                  if field_by_column target on = None
                  then Some (NoSuchColumn (md_name m) (fd_name f) kind to on) else None
              | None \<Rightarrow>
                  (case List.find (\<lambda>m. eq_ignore_ascii_case (md_name m) to) all of
                     Some other \<Rightarrow> Some (NamesAModel (md_name m) (fd_name f) kind to (md_table other))
                   | None \<Rightarrow> Some (Unregistered (md_name m) (fd_name f) kind to)))))"

fun is_unregistered :: "relation_target \<Rightarrow> bool" where
  "is_unregistered (Unregistered _ _ _ _) = True"
| "is_unregistered _ = False"

text \<open>The hard errors and the warnings, in the order the loop finds them.\<close>

definition relation_targets :: "model_schema list \<Rightarrow> relation_target list \<times> relation_target list" where
  "relation_targets all =
     (let found = concat (map (\<lambda>m. List.map_filter (relation_target_of all m) (md_fields m))
                    (filter owns_table all))
      in (filter (\<lambda>r. \<not> is_unregistered r) found, filter is_unregistered found))"

definition check_relation_targets :: "model_entry list \<Rightarrow> relation_target list + unit" where
  "check_relation_targets inventory =
     (let errors = fst (relation_targets (map me_schema inventory))
      in if errors = [] then Inr () else Inl errors)"

definition check_registry_junctions :: "model_entry list \<Rightarrow> snapshot_panic + unit" where
  "check_registry_junctions inventory =
     (case junction_conflict (concat (map (\<lambda>e. m2m_snapshots (me_schema e))
             (filter (\<lambda>e. owns_table (me_schema e)) inventory))) of
        Some (b, a) \<Rightarrow> Inl (JunctionConflict b a)
      | None \<Rightarrow> Inr ())"

section \<open>Well-formedness\<close>

text \<open>
  Every object of a snapshot has its own name, and the lists are in the order \<open>from_registry\<close>
  writes. Two registry entries of one table are decided when one of them wins whatever the order
  they are met in: a project model over a framework one, the smaller module path over the larger.
\<close>

definition wf_table :: "table_snapshot \<Rightarrow> bool" where
  "wf_table t \<longleftrightarrow> distinct (map fs_column (ts_fields t)) \<and> distinct (map cf_name (ts_composite_fks t))"

definition wf_names :: "schema_snapshot \<Rightarrow> bool" where
  "wf_names s \<longleftrightarrow>
     distinct (map ts_name (sn_tables s)) \<and> (\<forall>t\<in>set (sn_tables s). wf_table t) \<and>
     distinct (map m2_through (sn_m2m_tables s)) \<and> distinct (map ix_name (sn_indexes s)) \<and>
     distinct (map ck_name (sn_checks s)) \<and> distinct (map ex_name (sn_excludes s))"

definition snap_sorted :: "schema_snapshot \<Rightarrow> bool" where
  "snap_sorted s \<longleftrightarrow>
     sorted (map ts_name (sn_tables s)) \<and> (\<forall>t\<in>set (sn_tables s). sorted (map fs_column (ts_fields t))) \<and>
     sorted (map m2_through (sn_m2m_tables s)) \<and> sorted (map ix_name (sn_indexes s)) \<and>
     sorted (map ck_name (sn_checks s)) \<and> sorted (map ex_name (sn_excludes s))"

definition wf_model :: "model_schema \<Rightarrow> bool" where
  "wf_model m \<longleftrightarrow> distinct (map fd_column (md_fields m)) \<and> distinct (map cr_name (md_composite_relations m))"

definition beats :: "model_entry \<Rightarrow> model_entry \<Rightarrow> bool" where
  "beats a b \<longleftrightarrow> \<not> is_framework a \<and> (is_framework b \<or> me_module_path a < me_module_path b)"

definition owners_decided :: "model_entry list \<Rightarrow> bool" where
  "owners_decided es \<longleftrightarrow>
     (\<forall>a\<in>set es. \<forall>b\<in>set es. entry_table a = entry_table b \<longrightarrow> a = b \<or> beats a b \<or> beats b a)"

definition now_unmanaged :: "model_entry list \<Rightarrow> string \<Rightarrow> bool" where
  "now_unmanaged inventory t \<longleftrightarrow>
     (case for_table inventory t of
        None \<Rightarrow> False
      | Some e \<Rightarrow> \<not> md_managed (me_schema e) \<or> md_is_view (me_schema e))"

section \<open>Field type names\<close>

lemma sized_type_named: 
  assumes "n = show_nat (unat w)"
  shows "sized_type p (p @ ''('' @ n @ '')'') = Some w"
proof -
  have "strip_prefix ''('' (''('' @ n @ '')'') = Some (n @ '')'')" by (rule strip_prefix_append)
  then show ?thesis using assms by (simp add: sized_type_def parse_u32_show)
qed

lemma sized_type_bare: "sized_type p p = Some 0"
  using strip_prefix_append [of p "[]"] by (simp add: sized_type_def)

lemma sized_type_mismatch: "\<not> starts_with s p \<Longrightarrow> sized_type p s = None"
  by (simp add: sized_type_def strip_prefix_def)

text \<open>
  The type name a snapshot stores reads back as the same field type, for every type, sized
  vectors and geometries included.
\<close>

theorem field_type_roundtrip: "field_type_from_name (field_type_name ty) = Some ty"
proof (cases ty)
  case (Vector w)
  then show ?thesis
    using sized_type_named [of "show_nat (unat w)" w "''vector''"] sized_type_bare [of "''vector''"]
    by (simp add: field_type_from_name_def field_type_name_def)
next
  case (Geometry w)
  have "sized_type ''vector'' (''geometry'' @ s) = None" for s
    by (rule sized_type_mismatch) (simp add: starts_with_def)
  then show ?thesis
    using Geometry sized_type_named [of "show_nat (unat w)" w "''geometry''"]
      sized_type_bare [of "''geometry''"]
    by (simp add: field_type_from_name_def field_type_name_def)
next
  case (Array e)
  then show ?thesis
    by (cases e) (simp_all add: field_type_from_name_def field_type_name_def sized_type_def
        strip_prefix_def starts_with_def named_types_def)
next
  case (Range e)
  then show ?thesis
    by (cases e) (simp_all add: field_type_from_name_def field_type_name_def sized_type_def
        strip_prefix_def starts_with_def named_types_def)
qed (simp_all add: field_type_from_name_def field_type_name_def sized_type_def
        strip_prefix_def starts_with_def named_types_def)

section \<open>Removing repeated names\<close>

lemma dedup_by_name_sorted: "sorted_wrt (<) (map name (dedup_by_name ord name xs))"
proof -
  have "sorted (map (\<lambda>x. (name x, ord x)) (sort_key (\<lambda>x. (name x, ord x)) xs))" by simp
  then have "sorted (map name (sort_key (\<lambda>x. (name x, ord x)) xs))"
    by (auto simp: sorted_map elim!: sorted_wrt_mono_rel [rotated])
  then show ?thesis unfolding dedup_by_name_def by (rule dedup_by_key_sorted)
qed

lemma dedup_by_name_names: "name ` set (dedup_by_name ord name xs) = name ` set xs"
  by (simp add: dedup_by_name_def dedup_by_key_keys)

lemma dedup_by_name_subset: "set (dedup_by_name ord name xs) \<subseteq> set xs"
  unfolding dedup_by_name_def using set_dedup_by by fastforce

lemma dedup_by_name_least:
  "x \<in> set (dedup_by_name ord name xs) \<Longrightarrow> y \<in> set xs \<Longrightarrow> name y = name x \<Longrightarrow> ord x \<le> ord y"
  unfolding dedup_by_name_def
  by (rule dedup_by_key_least [where key = name and ord = ord and xs = "sort_key (\<lambda>x. (name x, ord x)) xs"])
    simp_all

theorem dedup_by_name_perm:
  assumes "mset xs = mset ys" "inj_on ord (set xs)"
  shows "dedup_by_name ord name xs = dedup_by_name ord name ys"
proof -
  have "inj_on (\<lambda>x. (name x, ord x)) (set xs)" using assms(2) by (auto simp: inj_on_def)
  with assms(1) show ?thesis by (simp add: dedup_by_name_def sort_key_perm [of xs ys])
qed

section \<open>The owner of a table\<close>

lemma beats_trans: "beats a b \<Longrightarrow> beats b c \<Longrightarrow> beats a c"
  by (auto simp: beats_def)

lemma beats_asym: "beats a b \<Longrightarrow> \<not> beats b a"
  by (auto simp: beats_def)

lemma own_step_eq:
  "own_step held e =
     (case find_by entry_table (entry_table e) held of
        None \<Rightarrow> held @ [e]
      | Some h \<Rightarrow> if beats e h then update_first (\<lambda>x. entry_table x = entry_table e) (\<lambda>_. e) held else held)"
  by (auto simp: own_step_def beats_def Let_def split: option.splits bool.splits)

lemma map_table_update_first:
  "map entry_table (update_first (\<lambda>x. entry_table x = entry_table e) (\<lambda>_. e) held) = map entry_table held"
  by (induction held) auto

lemma own_step_distinct:
  "distinct (map entry_table held) \<Longrightarrow> distinct (map entry_table (own_step held e))"
  by (auto simp: own_step_eq map_table_update_first find_by_None_iff split: option.splits)

lemma own_fold_distinct:
  "distinct (map entry_table held) \<Longrightarrow> distinct (map entry_table (foldl own_step held es))"
  by (induction es arbitrary: held) (auto intro: own_step_distinct)

lemma find_by_update_first_table:
  "find_by entry_table t (update_first (\<lambda>x. entry_table x = entry_table e) (\<lambda>_. e) held) =
     (if t = entry_table e \<and> find_by entry_table t held \<noteq> None then Some e else find_by entry_table t held)"
  by (induction held) auto

lemma own_step_find:
  "find_by entry_table t (own_step held e) =
     (if t = entry_table e
      then (case find_by entry_table t held of
              None \<Rightarrow> Some e | Some h \<Rightarrow> if beats e h then Some e else Some h)
      else find_by entry_table t held)"
  by (auto simp: own_step_eq lookup_simps find_by_update_first_table split: option.splits)

lemma own_step_tables: "entry_table ` set (own_step held e) = insert (entry_table e) (entry_table ` set held)"
proof (cases "find_by entry_table (entry_table e) held")
  case None
  then show ?thesis by (simp add: own_step_eq)
next
  case (Some h)
  then have "entry_table e \<in> entry_table ` set held" by (auto dest!: find_by_SomeD intro: rev_image_eqI)
  moreover have "entry_table ` set (update_first (\<lambda>x. entry_table x = entry_table e) (\<lambda>_. e) held) =
      entry_table ` set held"
    using arg_cong [OF map_table_update_first, of set] by simp
  ultimately show ?thesis using Some by (auto simp: own_step_eq)
qed

lemma own_fold_tables: "entry_table ` set (foldl own_step [] es) = entry_table ` set es"
  by (induction es rule: rev_induct) (simp_all add: own_step_tables)

lemma own_fold_find:
  assumes "owners_decided es"
  shows "find_by entry_table t (foldl own_step [] es) = Some w \<longleftrightarrow>
         w \<in> set es \<and> entry_table w = t \<and> (\<forall>e\<in>set es. entry_table e = t \<longrightarrow> e = w \<or> beats w e)"
  using assms
proof (induction es arbitrary: w rule: rev_induct)
  case (snoc x xs)
  let ?h = "find_by entry_table t (foldl own_step [] xs)"
  have IH: "?h = Some v \<longleftrightarrow> v \<in> set xs \<and> entry_table v = t \<and>
      (\<forall>e\<in>set xs. entry_table e = t \<longrightarrow> e = v \<or> beats v e)" for v
    using snoc by (simp add: owners_decided_def)
  show ?case
  proof (cases "entry_table x = t")
    case False
    then show ?thesis using IH by (auto simp: own_step_find)
  next
    case True
    show ?thesis
    proof (cases ?h)
      case None
      then have "find_by entry_table t (foldl own_step [] (xs @ [x])) = Some x"
        using True by (simp add: own_step_find)
      moreover have "entry_table e \<noteq> t" if "e \<in> set xs" for e
      proof -
        have "t \<notin> entry_table ` set (foldl own_step [] xs)" using None by (simp add: find_by_None_iff)
        then show ?thesis using that by (auto simp: own_fold_tables)
      qed
      ultimately show ?thesis using True by auto
    next
      case (Some h)
      then have h: "h \<in> set xs" "entry_table h = t"
        "\<And>e. e \<in> set xs \<Longrightarrow> entry_table e = t \<Longrightarrow> e = h \<or> beats h e" using IH by auto
      have cmp: "x = h \<or> beats x h \<or> beats h x"
        using snoc.prems h True by (auto simp: owners_decided_def)
      have res: "find_by entry_table t (foldl own_step [] (xs @ [x])) = Some (if beats x h then x else h)"
        using True Some by (simp add: own_step_find)
      show ?thesis
        unfolding res using h cmp True by (auto dest: beats_trans beats_asym)
    qed
  qed
qed simp

lemma own_fold_owner:
  assumes "mset es = mset es'" "owners_decided es"
  shows "one_owner_per_table es = one_owner_per_table es'"
proof -
  have set_eq: "set es = set es'" using assms(1) by (rule mset_eq_setD)
  have dec: "owners_decided es'" using assms(2) set_eq by (simp add: owners_decided_def)
  have find_eq: "find_by entry_table t (foldl own_step [] es) = find_by entry_table t (foldl own_step [] es')" for t
    by (rule option_eqI) (simp add: own_fold_find [OF assms(2)] own_fold_find [OF dec] set_eq)
  show ?thesis
    unfolding one_owner_per_table_def
    by (rule distinct_sorted_key_unique [where key = entry_table])
      (simp_all add: own_fold_distinct find_by_sort_key find_eq)
qed

section \<open>Captured snapshots\<close>

lemma fs_column_field_from_schema [simp]: "fs_column (field_from_schema f) = fd_column f"
  by (simp add: field_from_schema_def Let_def)

lemma ts_name_table_from_schema [simp]: "ts_name (table_from_schema m) = md_table m"
  by (simp add: table_from_schema_def)

lemma wf_table_from_schema: "wf_model m \<Longrightarrow> wf_table (table_from_schema m)"
  by (simp add: wf_table_def wf_model_def table_from_schema_def scalar_fields_def comp_def)

lemma sorted_fields_from_schema: "sorted (map fs_column (ts_fields (table_from_schema m)))"
  by (simp add: table_from_schema_def)

lemma dedup_by_name_sorted_distinct [simp]:
  "sorted (map name (dedup_by_name ord name xs))" "distinct (map name (dedup_by_name ord name xs))"
  using strict_sorted_distinct [OF dedup_by_name_sorted] by blast+

lemma build_from_wf:
  assumes "build_from ms = Inr s" "distinct (map md_table ms)" "\<forall>m\<in>set ms. wf_model m"
  shows "wf_names s \<and> snap_sorted s"
  using assms
  by (auto simp: build_from_def wf_names_def snap_sorted_def collect_m2m_tables_def Let_def comp_def
      wf_table_from_schema sorted_fields_from_schema collect_indexes_def collect_checks_def
      collect_excludes_def split: sum.splits option.splits)

lemma own_fold_subset: "set (foldl own_step held es) \<subseteq> set held \<union> set es"
proof (induction es arbitrary: held)
  case (Cons e es)
  have "set (update_first P (\<lambda>_. e) held) \<subseteq> insert e (set held)" for P
    by (induction held) auto
  then have "set (own_step held e) \<subseteq> insert e (set held)"
    by (auto simp: own_step_eq split: option.splits)
  with Cons [of "own_step held e"] show ?case by auto
qed simp

lemma one_owner_subset: "set (one_owner_per_table es) \<subseteq> set es"
  using own_fold_subset [of "[]" es] by (simp add: one_owner_per_table_def)

lemma one_owner_distinct: "distinct (map entry_table (one_owner_per_table es))"
  by (simp add: one_owner_per_table_def own_fold_distinct)

text \<open>
  C39. A snapshot captured from the registry names every table, index, constraint and junction once and
  lists them in name order, whatever models share a table, index or constraint name.
\<close>

theorem from_registry_wf:
  assumes "from_registry inventory = Inr s" "\<forall>e\<in>set inventory. wf_model (me_schema e)"
  shows "wf_names s \<and> snap_sorted s"
proof -
  let ?es = "one_owner_per_table (filter (\<lambda>e. owns_table (me_schema e)) inventory)"
  have "distinct (map md_table (map me_schema ?es))"
    using one_owner_distinct by (simp add: comp_def entry_table_def [abs_def])
  moreover have "\<forall>m\<in>set (map me_schema ?es). wf_model m"
    using assms(2) one_owner_subset by fastforce
  ultimately show ?thesis
    using assms(1) build_from_wf unfolding from_registry_def from_user_entries_def by blast
qed

text \<open>
  The captured snapshot does not depend on the order in which the linker collected the models, as
  long as no table is claimed by two models between which the module path does not decide.
\<close>

theorem from_registry_order:
  assumes "mset inventory = mset inventory'"
    and "owners_decided (filter (\<lambda>e. owns_table (me_schema e)) inventory)"
  shows "from_registry inventory = from_registry inventory'"
proof -
  have "mset (filter (\<lambda>e. owns_table (me_schema e)) inventory) =
        mset (filter (\<lambda>e. owns_table (me_schema e)) inventory')"
    using assms(1) by simp
  from own_fold_owner [OF this assms(2)] show ?thesis
    by (simp add: from_registry_def from_user_entries_def)
qed

section \<open>Unmanaged tables\<close>

lemma snap_table_sort:
  assumes "distinct (map ts_name (sn_tables s))" "\<forall>t\<in>set (sn_tables s). sorted (map fs_column (ts_fields t))"
  shows "snap_table (snap_sort s) n = snap_table s n"
proof -
  have "map (\<lambda>t. t\<lparr>ts_fields := sort_key fs_column (ts_fields t)\<rparr>) (sort_key ts_name (sn_tables s)) =
      sort_key ts_name (sn_tables s)"
    using assms(2) by (intro map_idI) (simp add: sort_key_id_if_sorted)
  then show ?thesis using assms(1) by (simp add: snap_table_def snap_sort_def lookup_simps)
qed

text \<open>
  A table of the previous snapshot that no longer has a managed model is carried over exactly when its
  model is still registered as unmanaged or as a view; the tables of the new snapshot are untouched.
\<close>

theorem keep_unmanaged_tables:
  assumes "wf_names s" "snap_sorted s" "wf_names prev" "snap_sorted prev"
  shows "snap_table (keep_unmanaged inventory s prev) n =
    (case snap_table s n of
       Some t \<Rightarrow> Some t
     | None \<Rightarrow> if now_unmanaged inventory n then snap_table prev n else None)"
proof -
  let ?on = "\<lambda>t. snap_table s t = None \<and> now_unmanaged inventory t"
  let ?kept = "filter ?on (map ts_name (sn_tables prev))"
  let ?pt = "filter (\<lambda>t. ts_name t \<in> set ?kept) (sn_tables prev)"
  have pt: "?pt = filter (\<lambda>t. ?on (ts_name t)) (sn_tables prev)"
    by (rule filter_cong) auto
  have d: "distinct (map ts_name (sn_tables s @ ?pt))"
    unfolding pt using assms(1,3)
    by (auto simp: wf_names_def snap_table_def find_by_None_iff distinct_map_filter image_iff)
  have prev: "snap_table prev n = None" if "?kept = []" "?on n"
    using that by (auto simp: snap_table_def find_by_None_iff filter_empty_conv)
  have look: "find_by ts_name n (sn_tables s @ ?pt) =
      (case snap_table s n of Some t \<Rightarrow> Some t | None \<Rightarrow> if ?on n then snap_table prev n else None)"
    unfolding pt using find_by_filter_key [of ts_name n ?on "sn_tables prev"]
    by (simp add: lookup_simps snap_table_def split: option.split)
  show ?thesis
  proof (cases "?kept = []")
    case True
    have "keep_unmanaged inventory s prev = s"
      using True by (simp add: keep_unmanaged_def now_unmanaged_def Let_def)
    then show ?thesis using prev [OF True] by (auto split: option.splits)
  next
    case False
    let ?s' = "\<lparr>sn_tables = sn_tables s @ ?pt,
      sn_m2m_tables = sn_m2m_tables s @ filter (\<lambda>m. snap_m2m_table s (m2_through m) = None)
         (filter (\<lambda>m. m2_src_table m \<in> set ?kept \<or> m2_dst_table m \<in> set ?kept) (sn_m2m_tables prev)),
      sn_indexes = sn_indexes s @ filter (\<lambda>i. ix_table i \<in> set ?kept) (sn_indexes prev),
      sn_checks = sn_checks s @ filter (\<lambda>c. ck_table c \<in> set ?kept) (sn_checks prev),
      sn_excludes = sn_excludes s @ filter (\<lambda>x. ex_table x \<in> set ?kept) (sn_excludes prev)\<rparr>"
    have eq: "keep_unmanaged inventory s prev = snap_sort ?s'"
      using False by (simp add: keep_unmanaged_def now_unmanaged_def Let_def)
    have "snap_table (snap_sort ?s') n = snap_table ?s' n"
      by (rule snap_table_sort) (use d assms in \<open>auto simp: snap_sorted_def\<close>)
    then show ?thesis unfolding eq using look
      by (auto simp: snap_table_def split: option.splits)
  qed
qed
end
