(* ===== verification/Change.thy ===== *)
theory Change
  imports Snapshot
begin

text \<open>
  The operations of a migration: \<open>SchemaChange\<close> with \<open>table\<close> and \<open>touches\<close>
  (\<open>crates/rustango/src/migrate/diff.rs\<close>), and the file format's \<open>Operation\<close>, \<open>DataOp\<close>,
  \<open>CallbackOp\<close>, \<open>MigrationScope\<close> and \<open>Migration\<close> with the checks a loaded file passes
  (\<open>crates/rustango/src/migrate/file.rs\<close>). The arguments of a constructor are the fields of the Rust
  variant in declaration order. Reading directories and the JSON encoding are not modelled.
\<close>

section \<open>Schema changes\<close>

datatype schema_change =
    CreateTable string
  | DropTable string
  | AddColumn string string \<comment> \<open>table, column\<close>
  | DropColumn string string \<comment> \<open>table, column\<close>
  | AlterColumnType string string string string \<comment> \<open>table, column, from, to\<close>
  | AlterColumnNullable string string bool \<comment> \<open>table, column, nullable\<close>
  | AlterColumnDefault string string "string option" "string option" \<comment> \<open>table, column, from, to\<close>
  | AlterColumnMaxLength string string "u32 option" "u32 option" \<comment> \<open>table, column, from, to\<close>
  | AlterColumnComment string string "string option" "string option" \<comment> \<open>table, column, from, to\<close>
  | AlterTableComment string "string option" "string option" \<comment> \<open>table, from, to\<close>
  | RenameTable string string \<comment> \<open>old_name, new_name\<close>
  | RenameColumn string string string \<comment> \<open>table, old_column, new_column\<close>
  | AlterColumnUnique string string bool \<comment> \<open>table, column, unique\<close>
  | AlterFkOnDelete string string "string option" "string option" \<comment> \<open>table, column, from, to\<close>
  | CreateIndex string string "string list" bool string "string option" "string list"
      \<comment> \<open>name, table, columns, unique, method, where_clause, include\<close>
  | DropIndex string string \<comment> \<open>name, table\<close>
  | AddCheckConstraint string string string \<comment> \<open>name, table, expr\<close>
  | DropCheckConstraint string string \<comment> \<open>name, table\<close>
  | AddExclusionConstraint string string string "(string \<times> string) list" "string option"
      \<comment> \<open>name, table, using, elements, where_clause\<close>
  | DropExclusionConstraint string string \<comment> \<open>name, table\<close>
  | CreateM2MTable string string string string string
      \<comment> \<open>through, src_table, src_col, dst_table, dst_col\<close>
  | DropM2MTable string \<comment> \<open>through\<close>
  | AddCompositeFk string string string "string list" "string list" \<comment> \<open>table, name, to, from, on\<close>
  | DropCompositeFk string string \<comment> \<open>table, name\<close>

fun change_table :: "schema_change \<Rightarrow> string" where
  "change_table (CreateTable t) = t"
| "change_table (DropTable t) = t"
| "change_table (DropM2MTable t) = t"
| "change_table (CreateM2MTable t _ _ _ _) = t"
| "change_table (RenameTable t _) = t"
| "change_table (AddColumn t _) = t"
| "change_table (DropColumn t _) = t"
| "change_table (AlterColumnType t _ _ _) = t"
| "change_table (AlterColumnNullable t _ _) = t"
| "change_table (AlterColumnDefault t _ _ _) = t"
| "change_table (AlterColumnMaxLength t _ _ _) = t"
| "change_table (AlterColumnComment t _ _ _) = t"
| "change_table (AlterTableComment t _ _) = t"
| "change_table (RenameColumn t _ _) = t"
| "change_table (AlterColumnUnique t _ _) = t"
| "change_table (AlterFkOnDelete t _ _ _) = t"
| "change_table (CreateIndex _ t _ _ _ _ _) = t"
| "change_table (DropIndex _ t) = t"
| "change_table (AddCheckConstraint _ t _) = t"
| "change_table (DropCheckConstraint _ t) = t"
| "change_table (AddExclusionConstraint _ t _ _ _) = t"
| "change_table (DropExclusionConstraint _ t) = t"
| "change_table (AddCompositeFk t _ _ _ _) = t"
| "change_table (DropCompositeFk t _) = t"

definition field_fk_to :: "string \<Rightarrow> field_snapshot \<Rightarrow> bool" where
  "field_fk_to table f = (case fs_fk f of None \<Rightarrow> False | Some r \<Rightarrow> rs_to r = table)"

definition column_fk_to :: "schema_snapshot \<Rightarrow> string \<Rightarrow> string \<Rightarrow> string \<Rightarrow> bool" where
  "column_fk_to snapshot t column table =
     (case Option.bind (snap_table snapshot t) (\<lambda>s. ts_field s column) of
        None \<Rightarrow> False
      | Some f \<Rightarrow> field_fk_to table f)"

definition touches :: "schema_change \<Rightarrow> string \<Rightarrow> schema_snapshot \<Rightarrow> bool" where
  "touches change table snapshot \<longleftrightarrow>
     change_table change = table \<or>
     (case change of
        RenameTable _ new_name \<Rightarrow> new_name = table
      | CreateM2MTable _ src_table _ dst_table _ \<Rightarrow> src_table = table \<or> dst_table = table
      | AddCompositeFk _ _ to _ _ \<Rightarrow> to = table
      | CreateTable t \<Rightarrow>
          (case snap_table snapshot t of
             None \<Rightarrow> False
           | Some s \<Rightarrow> list_ex (field_fk_to table) (ts_fields s) \<or>
                       list_ex (\<lambda>c. cf_to c = table) (ts_composite_fks s))
      | AddColumn t column \<Rightarrow> column_fk_to snapshot t column table
      | AlterFkOnDelete t column _ _ \<Rightarrow> column_fk_to snapshot t column table
      | _ \<Rightarrow> False)"

section \<open>Migration files\<close>

record data_op =
  do_sql :: string
  do_reverse_sql :: "string option"
  do_reversible :: bool

record callback_op =
  cb_name :: string
  cb_reverse_name :: "string option"

datatype operation = Schema schema_change | Data data_op | Callback callback_op

datatype migration_scope = RegistryScope | TenantScope

definition migration_scope_default :: migration_scope where
  "migration_scope_default = TenantScope"

definition migration_scope_is_default :: "migration_scope \<Rightarrow> bool" where
  "migration_scope_is_default s \<longleftrightarrow> s = TenantScope"

record migration =
  mg_name :: string
  mg_created_at :: string
  mg_prev :: "string option"
  mg_atomic :: bool
  mg_scope :: migration_scope
  mg_replaces :: "string list"
  mg_merges :: "string list"
  mg_snapshot :: schema_snapshot
  mg_forward :: "operation list"

text \<open>
  \<open>validate\<close>: the first operation that contradicts itself, by its index. A data operation that
  claims to be reversible needs its reverse SQL; a callback may not run in a transaction.
\<close>

datatype file_error =
    MissingReverseSql string nat \<comment> \<open>migration, index\<close>
  | CallbackInTransaction string nat string \<comment> \<open>migration, index, callback\<close>
  | BrokenChain string string \<comment> \<open>migration, missing predecessor\<close>

fun validate_ops :: "migration \<Rightarrow> nat \<Rightarrow> operation list \<Rightarrow> file_error + unit" where
  "validate_ops mig i [] = Inr ()"
| "validate_ops mig i (Data d # ops) =
     (if do_reversible d \<and> do_reverse_sql d = None then Inl (MissingReverseSql (mg_name mig) i)
      else validate_ops mig (Suc i) ops)"
| "validate_ops mig i (Callback c # ops) =
     (if mg_atomic mig then Inl (CallbackInTransaction (mg_name mig) i (cb_name c))
      else validate_ops mig (Suc i) ops)"
| "validate_ops mig i (Schema _ # ops) = validate_ops mig (Suc i) ops"

definition validate :: "migration \<Rightarrow> file_error + unit" where
  "validate mig = validate_ops mig 0 (mg_forward mig)"

fun validate_chain_from :: "migration list \<Rightarrow> migration list \<Rightarrow> file_error + unit" where
  "validate_chain_from all [] = Inr ()"
| "validate_chain_from all (mig # migs) =
     (case mg_prev mig of
        None \<Rightarrow> validate_chain_from all migs
      | Some prev \<Rightarrow>
          if list_ex (\<lambda>m. mg_name m = prev) all then validate_chain_from all migs
          else Inl (BrokenChain (mg_name mig) prev))"

definition validate_chain :: "migration list \<Rightarrow> file_error + unit" where
  "validate_chain migrations = validate_chain_from migrations migrations"

definition extract_index :: "string \<Rightarrow> u32 option" where
  "extract_index name =
     (let prefix = takeWhile is_ascii_digit name
      in if prefix = [] then None else parse_u32 prefix)"

section \<open>Lemmas\<close>

lemma validate_ops_ok:
  "validate_ops mig i ops = Inr () \<longleftrightarrow>
     (\<forall>op\<in>set ops. case op of
        Data d \<Rightarrow> do_reversible d \<longrightarrow> do_reverse_sql d \<noteq> None
      | Callback _ \<Rightarrow> \<not> mg_atomic mig
      | Schema _ \<Rightarrow> True)"
  by (induction mig i ops rule: validate_ops.induct) auto

lemma validate_chain_from_ok:
  "validate_chain_from all migs = Inr () \<longleftrightarrow>
     (\<forall>m\<in>set migs. \<forall>p. mg_prev m = Some p \<longrightarrow> p \<in> mg_name ` set all)"
  by (induction all migs rule: validate_chain_from.induct)
    (auto simp: list_ex_iff image_iff split: option.splits)

end
