(* ===== verification/Snapshot_Edit.thy ===== *)
theory Snapshot_Edit
  imports Change
begin

text \<open>
  The operations of \<open>crates/rustango/src/migrate/snapshot.rs\<close> that rewrite a snapshot:
  \<open>apply_rename\<close>, which replays a hand-written rename, and the three-way merge of two branches,
  \<open>merge_keyed\<close> and \<open>merge_branch\<close>. The lemmas show that a rename keeps names unique, is undone by
  the opposite rename and changes nothing when replayed, and that the merge takes every one-sided
  change and reports exactly the keys both branches changed differently.
\<close>

section \<open>Renames\<close>

definition rename_fk_target :: "string \<Rightarrow> string \<Rightarrow> field_snapshot \<Rightarrow> field_snapshot" where
  "rename_fk_target old new f =
     f\<lparr>fs_fk := map_option (\<lambda>r. r\<lparr>rs_to := swap_str old new (rs_to r)\<rparr>) (fs_fk f)\<rparr>"

definition rename_table_in_table :: "string \<Rightarrow> string \<Rightarrow> table_snapshot \<Rightarrow> table_snapshot" where
  "rename_table_in_table old new t =
     t\<lparr>ts_name := swap_str old new (ts_name t),
       ts_fields := map (rename_fk_target old new) (ts_fields t),
       ts_composite_fks := map (\<lambda>c. c\<lparr>cf_to := swap_str old new (cf_to c)\<rparr>) (ts_composite_fks t)\<rparr>"

definition rename_table_in :: "string \<Rightarrow> string \<Rightarrow> schema_snapshot \<Rightarrow> schema_snapshot" where
  "rename_table_in old new s =
     \<lparr>sn_tables = map (rename_table_in_table old new) (sn_tables s),
      sn_m2m_tables = map (\<lambda>m. m\<lparr>m2_src_table := swap_str old new (m2_src_table m),
                                 m2_dst_table := swap_str old new (m2_dst_table m)\<rparr>) (sn_m2m_tables s),
      sn_indexes = map (\<lambda>i. i\<lparr>ix_table := swap_str old new (ix_table i)\<rparr>) (sn_indexes s),
      sn_checks = map (\<lambda>c. c\<lparr>ck_table := swap_str old new (ck_table c)\<rparr>) (sn_checks s),
      sn_excludes = map (\<lambda>x. x\<lparr>ex_table := swap_str old new (ex_table x)\<rparr>) (sn_excludes s)\<rparr>"

definition rename_own_column :: "string \<Rightarrow> string \<Rightarrow> table_snapshot \<Rightarrow> table_snapshot" where
  "rename_own_column old new t =
     t\<lparr>ts_fields := map (\<lambda>f. f\<lparr>fs_column := swap_str old new (fs_column f)\<rparr>) (ts_fields t),
       ts_composite_fks := map (\<lambda>c. c\<lparr>cf_from := map (swap_str old new) (cf_from c)\<rparr>) (ts_composite_fks t)\<rparr>"

definition rename_inbound_column :: "string \<Rightarrow> string \<Rightarrow> string \<Rightarrow> table_snapshot \<Rightarrow> table_snapshot" where
  "rename_inbound_column table old new t =
     t\<lparr>ts_fields := map (\<lambda>f. f\<lparr>fs_fk := map_option (\<lambda>r. if rs_to r = table
                                  then r\<lparr>rs_on := swap_str old new (rs_on r)\<rparr> else r) (fs_fk f)\<rparr>) (ts_fields t),
       ts_composite_fks := map (\<lambda>c. if cf_to c = table
                                  then c\<lparr>cf_on := map (swap_str old new) (cf_on c)\<rparr> else c) (ts_composite_fks t)\<rparr>"

definition rename_junction_column :: "string \<Rightarrow> string \<Rightarrow> m2m_table_snapshot \<Rightarrow> m2m_table_snapshot" where
  "rename_junction_column old new m =
     (if m2_src_col m \<noteq> new \<and> m2_dst_col m \<noteq> new
      then m\<lparr>m2_src_col := swap_str old new (m2_src_col m), m2_dst_col := swap_str old new (m2_dst_col m)\<rparr>
      else m)"

definition renames_column_of :: "string \<Rightarrow> string \<Rightarrow> string \<Rightarrow> table_snapshot \<Rightarrow> bool" where
  "renames_column_of table old new t \<longleftrightarrow>
     ts_name t = table \<and> ts_field t new = None \<and> ts_field t old \<noteq> None"

definition apply_rename :: "schema_snapshot \<Rightarrow> schema_change \<Rightarrow> schema_snapshot" where
  "apply_rename s change =
     (case change of
        RenameTable old new \<Rightarrow>
          (let taken = (snap_table s new \<noteq> None \<or> snap_m2m_table s new \<noteq> None)
           in if snap_m2m_table s old \<noteq> None
              then if \<not> taken
                   then snap_sort (s\<lparr>sn_m2m_tables := update_first (\<lambda>m. m2_through m = old)
                                       (\<lambda>m. m\<lparr>m2_through := new\<rparr>) (sn_m2m_tables s)\<rparr>)
                   else s
              else if taken \<or> snap_table s old = None then s
              else snap_sort (rename_table_in old new s))
      | RenameColumn table old new \<Rightarrow>
          (let s = s\<lparr>sn_m2m_tables := update_first (\<lambda>m. m2_through m = table)
                       (rename_junction_column old new) (sn_m2m_tables s)\<rparr>
           in case List.find (renames_column_of table old new) (sn_tables s) of
                None \<Rightarrow> s
              | Some _ \<Rightarrow> snap_sort (s\<lparr>
                  sn_tables := map (rename_inbound_column table old new)
                    (update_first (renames_column_of table old new) (rename_own_column old new) (sn_tables s)),
                  sn_indexes := map (\<lambda>i. if ix_table i = table
                    then i\<lparr>ix_columns := map (swap_str old new) (ix_columns i),
                           ix_include := map (swap_str old new) (ix_include i)\<rparr> else i) (sn_indexes s),
                  sn_excludes := map (\<lambda>x. if ex_table x = table
                    then x\<lparr>ex_elements := map (\<lambda>(c, o'). (swap_str old new c, o')) (ex_elements x)\<rparr> else x)
                    (sn_excludes s)\<rparr>))
      | _ \<Rightarrow> s)"

section \<open>The three-way merge\<close>

definition opt_eq :: "('a \<Rightarrow> 'a \<Rightarrow> bool) \<Rightarrow> 'a option \<Rightarrow> 'a option \<Rightarrow> bool" where
  "opt_eq eq a b = (case (a, b) of (None, None) \<Rightarrow> True | (Some x, Some y) \<Rightarrow> eq x y | _ \<Rightarrow> False)"

definition merge_keyed_step ::
  "('a \<Rightarrow> 'a \<Rightarrow> bool) \<Rightarrow> ('a \<Rightarrow> string) \<Rightarrow> 'a list \<Rightarrow> 'a list \<Rightarrow> string list \<times> 'a list \<Rightarrow> string
     \<Rightarrow> string list \<times> 'a list" where
  "merge_keyed_step eq key base theirs acc k =
     (let (conflicts, ours) = acc;
          b = find_by key k base; t = find_by key k theirs; o' = find_by key k ours
      in if opt_eq eq t b then (conflicts, ours)
         else if \<not> opt_eq eq o' b \<and> \<not> opt_eq eq o' t then (conflicts @ [k], ours)
         else (conflicts,
               case (t, o') of
                 (Some t', Some _) \<Rightarrow> update_first (\<lambda>x. key x = k) (\<lambda>_. t') ours
               | (Some t', None) \<Rightarrow> ours @ [t']
               | (None, _) \<Rightarrow> filter (\<lambda>x. key x \<noteq> k) ours))"

definition merge_keys :: "('a \<Rightarrow> string) \<Rightarrow> 'a list \<Rightarrow> 'a list \<Rightarrow> string list" where
  "merge_keys key base theirs = dedup_by (=) (sort (map key (base @ theirs)))"

definition merge_keyed ::
  "('a \<Rightarrow> 'a \<Rightarrow> bool) \<Rightarrow> ('a \<Rightarrow> string) \<Rightarrow> 'a list \<Rightarrow> 'a list \<Rightarrow> 'a list \<Rightarrow> string list \<times> 'a list" where
  "merge_keyed eq key base ours theirs =
     foldl (merge_keyed_step eq key base theirs) ([], ours) (merge_keys key base theirs)"

datatype merge_conflict =
    DroppedAndChanged string \<comment> \<open>table\<close>
  | ColumnConflict string string \<comment> \<open>table, column\<close>
  | CompositeFkConflict string string \<comment> \<open>table, name\<close>
  | ModelConflict string \<comment> \<open>table\<close>
  | M2MConflict string
  | IndexConflict string
  | CheckConflict string
  | ExclusionConflict string

text \<open>First loop: the tables of \<open>base\<close> that \<open>theirs\<close> dropped.\<close>

definition merge_dropped_step ::
  "schema_snapshot \<Rightarrow> merge_conflict list \<times> table_snapshot list \<Rightarrow> table_snapshot
     \<Rightarrow> merge_conflict list \<times> table_snapshot list" where
  "merge_dropped_step theirs acc b =
     (let (conflicts, ours) = acc
      in if snap_table theirs (ts_name b) \<noteq> None then (conflicts, ours)
         else case find_by ts_name (ts_name b) ours of
                Some o' \<Rightarrow> if o' \<noteq> b then (conflicts @ [DroppedAndChanged (ts_name b)], ours)
                          else (conflicts, filter (\<lambda>t. ts_name t \<noteq> ts_name b) ours)
              | None \<Rightarrow> (conflicts, filter (\<lambda>t. ts_name t \<noteq> ts_name b) ours))"

text \<open>One table of \<open>theirs\<close> merged into the one \<open>ours\<close> has.\<close>

definition merge_table ::
  "table_snapshot option \<Rightarrow> table_snapshot \<Rightarrow> table_snapshot \<Rightarrow> merge_conflict list \<times> table_snapshot" where
  "merge_table was ours t =
     (let base_fields = (case was of None \<Rightarrow> [] | Some w \<Rightarrow> ts_fields w);
          base_fks = (case was of None \<Rightarrow> [] | Some w \<Rightarrow> ts_composite_fks w);
          (cf, fields) = merge_keyed (=) fs_column base_fields (ts_fields ours) (ts_fields t);
          (cc, fks) = merge_keyed (=) cf_name base_fks (ts_composite_fks ours) (ts_composite_fks t);
          base_model = map_option ts_model was;
          clash = (base_model \<noteq> Some (ts_model t) \<and> base_model \<noteq> Some (ts_model ours) \<and>
                   ts_model ours \<noteq> ts_model t);
          model = (if base_model \<noteq> Some (ts_model t) \<and> \<not> clash then ts_model t else ts_model ours)
      in (map (ColumnConflict (ts_name t)) cf @ map (CompositeFkConflict (ts_name t)) cc @
            (if clash then [ModelConflict (ts_name t)] else []),
          ours\<lparr>ts_fields := fields, ts_composite_fks := fks, ts_model := model\<rparr>))"

text \<open>Second loop: the tables \<open>theirs\<close> added or changed.\<close>

definition merge_table_step ::
  "schema_snapshot \<Rightarrow> merge_conflict list \<times> table_snapshot list \<Rightarrow> table_snapshot
     \<Rightarrow> merge_conflict list \<times> table_snapshot list" where
  "merge_table_step base acc t =
     (let (conflicts, ours) = acc; was = snap_table base (ts_name t)
      in if was = Some t then (conflicts, ours)
         else case find_by ts_name (ts_name t) ours of
                None \<Rightarrow> if was \<noteq> None then (conflicts @ [DroppedAndChanged (ts_name t)], ours)
                        else (conflicts, ours @ [t])
              | Some o' \<Rightarrow>
                  (let (cs, merged) = merge_table was o' t
                   in (conflicts @ cs, update_first (\<lambda>x. ts_name x = ts_name t) (\<lambda>_. merged) ours)))"

definition merge_branch ::
  "schema_snapshot \<Rightarrow> schema_snapshot \<Rightarrow> schema_snapshot \<Rightarrow> merge_conflict list \<times> schema_snapshot" where
  "merge_branch ours base theirs =
     (let (c1, t1) = foldl (merge_dropped_step theirs) ([], sn_tables ours) (sn_tables base);
          (c2, t2) = foldl (merge_table_step base) (c1, t1) (sn_tables theirs);
          (cm, m2m) = merge_keyed m2_eq m2_through (sn_m2m_tables base) (sn_m2m_tables ours) (sn_m2m_tables theirs);
          (ci, idx) = merge_keyed (=) ix_name (sn_indexes base) (sn_indexes ours) (sn_indexes theirs);
          (cc, chk) = merge_keyed (=) ck_name (sn_checks base) (sn_checks ours) (sn_checks theirs);
          (cx, exc) = merge_keyed (=) ex_name (sn_excludes base) (sn_excludes ours) (sn_excludes theirs)
      in (c2 @ map M2MConflict cm @ map IndexConflict ci @ map CheckConflict cc @ map ExclusionConflict cx,
          snap_sort \<lparr>sn_tables = t2, sn_m2m_tables = m2m, sn_indexes = idx, sn_checks = chk, sn_excludes = exc\<rparr>))"

text \<open>The \<open>Result\<close> of the source: \<open>Err\<close> with the conflicts unless there are none.\<close>

definition merge_branch_result ::
  "schema_snapshot \<Rightarrow> schema_snapshot \<Rightarrow> schema_snapshot \<Rightarrow> merge_conflict list + schema_snapshot" where
  "merge_branch_result ours base theirs =
     (case merge_branch ours base theirs of (cs, s) \<Rightarrow> if cs = [] then Inr s else Inl cs)"

text \<open>
  The specification of a three-way merge at one key: take the side that changed, keep \<open>ours\<close> where
  both changed differently.
\<close>

definition merge3 :: "('a \<Rightarrow> 'a \<Rightarrow> bool) \<Rightarrow> 'a option \<Rightarrow> 'a option \<Rightarrow> 'a option \<Rightarrow> 'a option" where
  "merge3 eq b o' t =
     (if opt_eq eq t b \<or> \<not> opt_eq eq o' b \<and> \<not> opt_eq eq o' t then o' else t)"

definition merge3_conflict :: "('a \<Rightarrow> 'a \<Rightarrow> bool) \<Rightarrow> 'a option \<Rightarrow> 'a option \<Rightarrow> 'a option \<Rightarrow> bool" where
  "merge3_conflict eq b o' t \<longleftrightarrow> \<not> opt_eq eq t b \<and> \<not> opt_eq eq o' b \<and> \<not> opt_eq eq o' t"

definition sort_fields :: "table_snapshot \<Rightarrow> table_snapshot" where
  "sort_fields t = t\<lparr>ts_fields := sort_key fs_column (ts_fields t)\<rparr>"

definition merged_column :: "schema_snapshot \<Rightarrow> string \<Rightarrow> string \<Rightarrow> field_snapshot option" where
  "merged_column s n c = Option.bind (snap_table s n) (\<lambda>t. ts_field t c)"

text \<open>What the two loops over the tables make of one table name.\<close>

definition merge_table3 ::
  "table_snapshot option \<Rightarrow> table_snapshot option \<Rightarrow> table_snapshot option \<Rightarrow> table_snapshot option" where
  "merge_table3 b o' t =
     (case t of
        None \<Rightarrow> (case b of None \<Rightarrow> o' | Some b' \<Rightarrow> if o' = None \<or> o' = Some b' then None else o')
      | Some t' \<Rightarrow>
          if b = Some t' then o'
          else (case o' of
                  None \<Rightarrow> if b = None then Some t' else None
                | Some o'' \<Rightarrow> Some (snd (merge_table b o'' t'))))"

text \<open>A table name that nothing in the snapshot uses or refers to.\<close>

definition table_name_unused :: "string \<Rightarrow> schema_snapshot \<Rightarrow> bool" where
  "table_name_unused n s \<longleftrightarrow>
     snap_table s n = None \<and> snap_m2m_table s n = None \<and>
     (\<forall>t\<in>set (sn_tables s). (\<forall>f\<in>set (ts_fields t). \<forall>r. fs_fk f = Some r \<longrightarrow> rs_to r \<noteq> n) \<and>
                             (\<forall>c\<in>set (ts_composite_fks t). cf_to c \<noteq> n)) \<and>
     (\<forall>m\<in>set (sn_m2m_tables s). m2_src_table m \<noteq> n \<and> m2_dst_table m \<noteq> n) \<and>
     (\<forall>i\<in>set (sn_indexes s). ix_table i \<noteq> n) \<and> (\<forall>c\<in>set (sn_checks s). ck_table c \<noteq> n) \<and>
     (\<forall>x\<in>set (sn_excludes s). ex_table x \<noteq> n)"

section \<open>The merge by key\<close>

lemma opt_eq_eq [simp]: "opt_eq (=) a b \<longleftrightarrow> a = b"
  by (auto simp: opt_eq_def split: option.splits)

lemma opt_eq_None [simp]: "opt_eq eq None None"
  by (simp add: opt_eq_def)

lemma opt_eq_refl: "(\<And>x. eq x x) \<Longrightarrow> opt_eq eq a a"
  by (cases a) (simp_all add: opt_eq_def)

lemma merge_keyed_step_find:
  assumes "merge_keyed_step eq key base theirs (c, ours) k = (c', ours')"
  shows "find_by key k' ours' =
    (if k' = k then merge3 eq (find_by key k base) (find_by key k ours) (find_by key k theirs)
     else find_by key k' ours)"
    and "c' = c @ (if merge3_conflict eq (find_by key k base) (find_by key k ours) (find_by key k theirs)
                   then [k] else [])"
proof -
  have rm: "find_by key k' (filter (\<lambda>x. key x \<noteq> k) ours) = (if k' = k then None else find_by key k' ours)"
    using find_by_filter_key [of key k' "\<lambda>n. n \<noteq> k" ours] by simp
  have t: "key v = k" if "find_by key k theirs = Some v" for v
    using that by (auto dest: find_by_SomeD)
  show "find_by key k' ours' =
    (if k' = k then merge3 eq (find_by key k base) (find_by key k ours) (find_by key k theirs)
     else find_by key k' ours)"
    using assms rm t
    by (auto simp: merge_keyed_step_def Let_def merge3_def find_by_update_first_key find_by_append
        split: option.splits if_splits)
  show "c' = c @ (if merge3_conflict eq (find_by key k base) (find_by key k ours) (find_by key k theirs)
                   then [k] else [])"
    using assms by (auto simp: merge_keyed_step_def Let_def merge3_conflict_def split: if_splits)
qed

lemma merge_keyed_step_distinct:
  assumes "distinct (map key ours)" "merge_keyed_step eq key base theirs (c, ours) k = (c', ours')"
  shows "distinct (map key ours')"
proof -
  have t: "key v = k" if "find_by key k theirs = Some v" for v
    using that by (auto dest: find_by_SomeD)
  show ?thesis using assms t
    by (auto simp: merge_keyed_step_def Let_def map_key_replace find_by_None_iff distinct_map_filter
        split: option.splits if_splits)
qed

lemma merge_keyed_step_look:
  "find_by key k (snd (merge_keyed_step eq key base theirs acc x)) =
     (if k = x then merge3 eq (find_by key k base) (find_by key k (snd acc)) (find_by key k theirs)
      else find_by key k (snd acc))"
  using merge_keyed_step_find(1) [of eq key base theirs "fst acc" "snd acc" x
      "fst (merge_keyed_step eq key base theirs acc x)" "snd (merge_keyed_step eq key base theirs acc x)" k]
  by auto

interpretation merge_loop: keyed_loop
  "\<lambda>acc k. find_by key k (snd acc)" "\<lambda>k. k" "merge_keyed_step eq key base theirs"
  "\<lambda>k o'. merge3 eq (find_by key k base) o' (find_by key k theirs)" "\<lambda>_. True"
  for eq key base theirs
  by unfold_locales (simp add: merge_keyed_step_look)

lemma merge_keyed_fold_conflicts:
  assumes "distinct ks"
  shows "fst (foldl (merge_keyed_step eq key base theirs) (c, ours) ks) =
    c @ filter (\<lambda>k. merge3_conflict eq (find_by key k base) (find_by key k ours) (find_by key k theirs)) ks"
  using assms
proof (induction ks arbitrary: c ours)
  case (Cons x ks)
  obtain c1 ours1 where step: "merge_keyed_step eq key base theirs (c, ours) x = (c1, ours1)"
    by fastforce
  note f = merge_keyed_step_find(1) [OF step] and cc = merge_keyed_step_find(2) [OF step]
  have "filter (\<lambda>k. merge3_conflict eq (find_by key k base) (find_by key k ours1) (find_by key k theirs)) ks =
      filter (\<lambda>k. merge3_conflict eq (find_by key k base) (find_by key k ours) (find_by key k theirs)) ks"
    by (rule filter_cong) (use f Cons.prems in auto)
  with Cons step cc show ?case by simp
qed simp

lemma merge_keyed_fold_distinct:
  "distinct (map key ours) \<Longrightarrow>
   distinct (map key (snd (foldl (merge_keyed_step eq key base theirs) (c, ours) ks)))"
proof (induction ks arbitrary: c ours)
  case (Cons x ks)
  then show ?case
    by (cases "merge_keyed_step eq key base theirs (c, ours) x") (auto dest: merge_keyed_step_distinct)
qed simp

lemma merge_keys_distinct: "distinct (merge_keys key base theirs)"
  unfolding merge_keys_def
  using dedup_by_key_sorted [of "\<lambda>x. x" "sort (map key (base @ theirs))"]
  by (simp add: strict_sorted_iff)

lemma set_merge_keys: "set (merge_keys key base theirs) = key ` (set base \<union> set theirs)"
  using dedup_by_key_keys [of "\<lambda>x. x" "sort (map key (base @ theirs))"]
  by (simp add: merge_keys_def image_Un)

lemma merge_keys_None:
  "k \<notin> set (merge_keys key base theirs) \<Longrightarrow> find_by key k base = None \<and> find_by key k theirs = None"
  by (auto simp: set_merge_keys find_by_None_iff)

theorem merge_keyed_find:
  "find_by key k (snd (merge_keyed eq key base ours theirs)) =
   merge3 eq (find_by key k base) (find_by key k ours) (find_by key k theirs)"
  using merge_loop.fold_look [of "merge_keys key base theirs" key k eq base theirs "([], ours)"]
    merge_keys_None [of k key base theirs]
  by (auto simp: merge_keyed_def merge_keys_distinct find_by_id merge3_def)

theorem merge_keyed_conflicts:
  "k \<in> set (fst (merge_keyed eq key base ours theirs)) \<longleftrightarrow>
   merge3_conflict eq (find_by key k base) (find_by key k ours) (find_by key k theirs)"
  using merge_keys_None [of k key base theirs]
  by (cases "k \<in> set (merge_keys key base theirs)")
    (auto simp: merge_keyed_def merge_keyed_fold_conflicts merge_keys_distinct merge3_conflict_def)

lemma merge_keyed_distinct:
  "distinct (map key ours) \<Longrightarrow> distinct (map key (snd (merge_keyed eq key base ours theirs)))"
  by (simp add: merge_keyed_def merge_keyed_fold_distinct)

lemma merge_keyed_self:
  assumes "\<And>x. eq x x"
  shows "merge_keyed eq key base ours base = ([], ours)"
proof -
  have "foldl (merge_keyed_step eq key base base) (c, ours) ks = (c, ours)" for c ks
    by (induction ks) (simp_all add: merge_keyed_step_def Let_def opt_eq_refl [OF assms])
  then show ?thesis by (simp add: merge_keyed_def)
qed

lemma merge_keyed_ff:
  assumes "\<And>x. eq x x"
  shows "fst (merge_keyed eq key base base theirs) = []"
    and "find_by key k (snd (merge_keyed eq key base base theirs)) = 
       (if opt_eq eq (find_by key k theirs) (find_by key k base) then find_by key k base else find_by key k theirs)"
proof -
  have "k \<notin> set (fst (merge_keyed eq key base base theirs))" for k
    unfolding merge_keyed_conflicts by (simp add: merge3_conflict_def opt_eq_refl [OF assms])
  then show "fst (merge_keyed eq key base base theirs) = []"
    by (metis ex_in_conv set_empty)
qed (simp add: merge_keyed_find merge3_def opt_eq_refl [OF assms])

text \<open>Without a conflict the merge does not depend on which branch is merged into which.\<close>

theorem merge_keyed_commutes:
  assumes "fst (merge_keyed (=) key base ours theirs) = []"
  shows "fst (merge_keyed (=) key base theirs ours) = []"
    and "find_by key k (snd (merge_keyed (=) key base ours theirs)) =
      find_by key k (snd (merge_keyed (=) key base theirs ours))"
proof -
  have nc: "\<not> merge3_conflict (=) (find_by key k base) (find_by key k ours) (find_by key k theirs)" for k
    using merge_keyed_conflicts [of k "(=)" key base ours theirs] assms by simp
  have "k \<notin> set (fst (merge_keyed (=) key base theirs ours))" for k
    using nc [of k] by (auto simp: merge_keyed_conflicts merge3_conflict_def)
  then show "fst (merge_keyed (=) key base theirs ours) = []"
    by (metis ex_in_conv set_empty)
  show "find_by key k (snd (merge_keyed (=) key base ours theirs)) =
      find_by key k (snd (merge_keyed (=) key base theirs ours))"
    using nc [of k] by (auto simp: merge_keyed_find merge3_def merge3_conflict_def)
qed
section \<open>The merge of a branch\<close>

definition merged_tables :: "schema_snapshot \<Rightarrow> schema_snapshot \<Rightarrow> schema_snapshot \<Rightarrow> table_snapshot list" where
  "merged_tables ours base theirs =
     snd (foldl (merge_table_step base)
       (foldl (merge_dropped_step theirs) ([], sn_tables ours) (sn_tables base)) (sn_tables theirs))"

lemma merge_branch_snapshot:
  "snd (merge_branch ours base theirs) = snap_sort
      \<lparr>sn_tables = merged_tables ours base theirs,
       sn_m2m_tables = snd (merge_keyed m2_eq m2_through (sn_m2m_tables base) (sn_m2m_tables ours) (sn_m2m_tables theirs)),
       sn_indexes = snd (merge_keyed (=) ix_name (sn_indexes base) (sn_indexes ours) (sn_indexes theirs)),
       sn_checks = snd (merge_keyed (=) ck_name (sn_checks base) (sn_checks ours) (sn_checks theirs)),
       sn_excludes = snd (merge_keyed (=) ex_name (sn_excludes base) (sn_excludes ours) (sn_excludes theirs))\<rparr>"
  by (simp add: merge_branch_def merged_tables_def Let_def case_prod_unfold)

lemma snap_sort_lookups:
  assumes "distinct (map m2_through (sn_m2m_tables s))" "distinct (map ix_name (sn_indexes s))"
    "distinct (map ck_name (sn_checks s))" "distinct (map ex_name (sn_excludes s))"
  shows "snap_m2m_table (snap_sort s) n = snap_m2m_table s n" "snap_index (snap_sort s) n = snap_index s n"
    "snap_check (snap_sort s) n = snap_check s n" "snap_exclude (snap_sort s) n = snap_exclude s n"
  using assms
  by (simp_all add: snap_sort_def snap_m2m_table_def snap_index_def snap_check_def snap_exclude_def lookup_simps)

lemma snap_sort_table:
  assumes "distinct (map ts_name (sn_tables s))"
  shows "snap_table (snap_sort s) n = map_option sort_fields (snap_table s n)"
  using assms by (simp add: snap_table_def snap_sort_def lookup_simps sort_fields_def [abs_def])

lemma ts_field_sort_fields:
  "distinct (map fs_column (ts_fields t)) \<Longrightarrow> ts_field (sort_fields t) c = ts_field t c"
  by (simp add: ts_field_def sort_fields_def lookup_simps)

text \<open>
  Merging a branch decides every index, CHECK, EXCLUDE constraint and junction by the three-way rule:
  the side that changed it wins, and where both changed it differently it stays as it is.
\<close>

theorem merge_branch_objects:
  assumes "wf_names ours"
  shows "snap_index (snd (merge_branch ours base theirs)) n =
           merge3 (=) (snap_index base n) (snap_index ours n) (snap_index theirs n) \<and>
         snap_check (snd (merge_branch ours base theirs)) n =
           merge3 (=) (snap_check base n) (snap_check ours n) (snap_check theirs n) \<and>
         snap_exclude (snd (merge_branch ours base theirs)) n =
           merge3 (=) (snap_exclude base n) (snap_exclude ours n) (snap_exclude theirs n) \<and>
         snap_m2m_table (snd (merge_branch ours base theirs)) n =
           merge3 m2_eq (snap_m2m_table base n) (snap_m2m_table ours n) (snap_m2m_table theirs n)"
proof -
  have d: "distinct (map m2_through (sn_m2m_tables ours))" "distinct (map ix_name (sn_indexes ours))"
    "distinct (map ck_name (sn_checks ours))" "distinct (map ex_name (sn_excludes ours))"
    using assms by (simp_all add: wf_names_def)
  show ?thesis
    unfolding merge_branch_snapshot using d
    by (simp add: snap_sort_lookups merge_keyed_distinct)
      (simp add: snap_m2m_table_def snap_index_def snap_check_def snap_exclude_def merge_keyed_find)
qed

lemma ts_name_merge_table [simp]: "ts_name (snd (merge_table was o' t)) = ts_name o'"
  by (simp add: merge_table_def Let_def split: prod.splits)

interpretation drop_loop: keyed_loop
  "\<lambda>acc n. find_by ts_name n (snd acc)" ts_name "merge_dropped_step theirs"
  "\<lambda>b o'. if snap_table theirs (ts_name b) \<noteq> None then o'
          else if o' = None \<or> o' = Some b then None else o'" "\<lambda>_. True"
  for theirs
proof unfold_locales
  fix b :: table_snapshot and s :: "merge_conflict list \<times> table_snapshot list" and n
  show "find_by ts_name n (snd (merge_dropped_step theirs s b)) =
      (if n = ts_name b
       then if snap_table theirs (ts_name b) \<noteq> None then find_by ts_name n (snd s)
            else if find_by ts_name n (snd s) = None \<or> find_by ts_name n (snd s) = Some b
                 then None else find_by ts_name n (snd s)
       else find_by ts_name n (snd s))"
    by (cases s) (auto simp: merge_dropped_step_def Let_def split: option.splits)
qed

interpretation table_loop: keyed_loop
  "\<lambda>acc n. find_by ts_name n (snd acc)" ts_name "merge_table_step base"
  "\<lambda>t o'. if snap_table base (ts_name t) = Some t then o'
          else (case o' of
                  None \<Rightarrow> if snap_table base (ts_name t) = None then Some t else None
                | Some o'' \<Rightarrow> Some (snd (merge_table (snap_table base (ts_name t)) o'' t)))" "\<lambda>_. True"
  for base
proof unfold_locales
  fix t :: table_snapshot and s :: "merge_conflict list \<times> table_snapshot list" and n
  have upd: "find_by ts_name m (update_first (\<lambda>x. ts_name x = ts_name t) (\<lambda>_. v) xs) =
      (if m = ts_name t \<and> find_by ts_name (ts_name t) xs \<noteq> None then Some v else find_by ts_name m xs)"
    if "ts_name v = ts_name t" for v xs m
    using that by (rule find_by_update_first_key)
  show "find_by ts_name n (snd (merge_table_step base s t)) =
      (if n = ts_name t
       then if snap_table base (ts_name t) = Some t then find_by ts_name n (snd s)
            else (case find_by ts_name n (snd s) of
                    None \<Rightarrow> if snap_table base (ts_name t) = None then Some t else None
                  | Some o'' \<Rightarrow> Some (snd (merge_table (snap_table base (ts_name t)) o'' t)))
       else find_by ts_name n (snd s))"
  proof (cases "find_by ts_name (ts_name t) (snd s)")
    case None
    then show ?thesis by (auto simp: merge_table_step_def Let_def case_prod_unfold find_by_append split: option.splits)
  next
    case (Some o')
    then have "ts_name o' = ts_name t" by (auto dest: find_by_SomeD)
    with Some show ?thesis by (simp add: merge_table_step_def Let_def case_prod_unfold upd)
  qed
qed

lemma merge_dropped_step_distinct:
  "distinct (map ts_name (snd acc)) \<Longrightarrow> distinct (map ts_name (snd (merge_dropped_step theirs acc b)))"
  by (cases acc) (auto simp: merge_dropped_step_def Let_def distinct_map_filter split: option.splits)

lemma merge_table_step_distinct:
  "distinct (map ts_name (snd acc)) \<Longrightarrow> distinct (map ts_name (snd (merge_table_step base acc t)))"
proof -
  have "map ts_name (update_first (\<lambda>x. ts_name x = ts_name t) (\<lambda>_. snd (merge_table was o' t)) xs) = map ts_name xs"
    if "find_by ts_name (ts_name t) xs = Some o'" for was o' xs
    using that by (intro map_key_replace) (auto dest: find_by_SomeD)
  then show "distinct (map ts_name (snd acc)) \<Longrightarrow> distinct (map ts_name (snd (merge_table_step base acc t)))"
    by (cases acc)
      (auto simp: merge_table_step_def Let_def find_by_None_iff case_prod_unfold split: option.splits)
qed

lemma merged_tables_distinct:
  assumes "distinct (map ts_name (sn_tables ours))"
  shows "distinct (map ts_name (merged_tables ours base theirs))"
proof -
  have "distinct (map ts_name (snd (foldl (merge_dropped_step theirs) ([], sn_tables ours) (sn_tables base))))"
    by (rule foldl_keeps [where P = "\<lambda>acc. distinct (map ts_name (snd acc))"])
      (use assms merge_dropped_step_distinct in auto)
  then show ?thesis unfolding merged_tables_def
    by (rule foldl_keeps [where P = "\<lambda>acc. distinct (map ts_name (snd acc))"])
      (rule merge_table_step_distinct)
qed

lemma merged_tables_find:
  assumes "wf_names base" "wf_names theirs"
  shows "find_by ts_name n (merged_tables ours base theirs) =
     merge_table3 (snap_table base n) (snap_table ours n) (snap_table theirs n)"
proof -
  have d: "distinct (map ts_name (sn_tables base))" "distinct (map ts_name (sn_tables theirs))"
    using assms by (simp_all add: wf_names_def)
  have nm: "ts_name t = n" if "find_by ts_name n ts = Some t" for t ts
    using that by (auto dest: find_by_SomeD)
  show ?thesis
    unfolding merged_tables_def
      table_loop.fold_look [OF ballI [OF TrueI] d(2)] drop_loop.fold_look [OF ballI [OF TrueI] d(1)]
    by (auto simp: merge_table3_def snap_table_def nm split: option.splits)
qed

lemma merge_table_fields:
  "ts_field (snd (merge_table was o' t)) c =
     merge3 (=) (Option.bind was (\<lambda>w. ts_field w c)) (ts_field o' c) (ts_field t c)"
  by (cases was) (simp_all add: merge_table_def ts_field_def Let_def case_prod_unfold merge_keyed_find)

lemma merge_table_distinct:
  "distinct (map fs_column (ts_fields o')) \<Longrightarrow>
   distinct (map fs_column (ts_fields (snd (merge_table was o' t))))"
  by (simp add: merge_table_def Let_def case_prod_unfold merge_keyed_distinct)

lemma merge_table3_distinct:
  assumes "merge_table3 b o' t = Some r"
    and "\<And>x. o' = Some x \<Longrightarrow> distinct (map fs_column (ts_fields x))"
    and "\<And>x. t = Some x \<Longrightarrow> distinct (map fs_column (ts_fields x))"
  shows "distinct (map fs_column (ts_fields r))"
  using assms merge_table_distinct
  by (auto simp: merge_table3_def split: option.splits if_splits)

lemma snap_table_wf: "wf_names s \<Longrightarrow> snap_table s n = Some t \<Longrightarrow> wf_table t \<and> ts_name t = n \<and> t \<in> set (sn_tables s)"
  by (auto simp: wf_names_def snap_table_def dest: find_by_SomeD)

text \<open>
  The columns of a merged table follow the same rule, column by column; a table one branch dropped goes
  when the other left it alone, and a table only one branch created arrives whole.
\<close>

theorem merge_branch_columns:
  assumes "wf_names ours" "wf_names base" "wf_names theirs"
  shows "merged_column (snd (merge_branch ours base theirs)) n c =
     (case (snap_table ours n, snap_table theirs n) of
        (None, None) \<Rightarrow> None
      | (None, Some t) \<Rightarrow> if snap_table base n = None then ts_field t c else None
      | (Some o', None) \<Rightarrow> if snap_table base n = Some o' then None else ts_field o' c
      | (Some o', Some t) \<Rightarrow> merge3 (=) (merged_column base n c) (ts_field o' c) (ts_field t c))"
proof -
  let ?r = "merge_table3 (snap_table base n) (snap_table ours n) (snap_table theirs n)"
  have r: "snap_table (snd (merge_branch ours base theirs)) n = map_option sort_fields ?r"
    unfolding merge_branch_snapshot
    by (subst snap_sort_table)
      (use assms merged_tables_distinct merged_tables_find in \<open>auto simp: wf_names_def snap_table_def\<close>)
  have "ts_field (sort_fields t) c = ts_field t c" if "?r = Some t" for t
  proof (rule ts_field_sort_fields)
    show "distinct (map fs_column (ts_fields t))"
      using that by (rule merge_table3_distinct) (use assms snap_table_wf wf_table_def in blast)+
  qed
  then have "merged_column (snd (merge_branch ours base theirs)) n c = Option.bind ?r (\<lambda>t. ts_field t c)"
    by (cases ?r) (simp_all add: merged_column_def r)
  then show ?thesis
    by (auto simp: merge_table3_def merge_table_fields merged_column_def merge3_def split: option.splits)
qed

lemma merge_branch_comment:
  assumes "wf_names ours" "wf_names base" "wf_names theirs"
    and "snap_table ours n = Some o'" "snap_table (snd (merge_branch ours base theirs)) n = Some r"
  shows "ts_db_table_comment r = ts_db_table_comment o'"
proof -
  let ?r = "merge_table3 (snap_table base n) (snap_table ours n) (snap_table theirs n)"
  have r: "snap_table (snd (merge_branch ours base theirs)) n = map_option sort_fields ?r"
    unfolding merge_branch_snapshot
    by (subst snap_sort_table)
      (use assms merged_tables_distinct merged_tables_find in \<open>auto simp: wf_names_def snap_table_def\<close>)
  have "ts_db_table_comment (snd (merge_table w o' t)) = ts_db_table_comment o'" for w t
    by (simp add: merge_table_def Let_def case_prod_unfold)
  then show ?thesis using r assms(4,5)
    by (auto simp: merge_table3_def sort_fields_def split: option.splits if_splits)
qed

text \<open>
  Merging a branch that changed nothing reports no conflict and changes nothing but the order.
\<close>

theorem merge_branch_unchanged:
  assumes "wf_names base"
  shows "merge_branch ours base base = ([], snap_sort ours)"
proof -
  have 1: "foldl (merge_dropped_step base) acc ts = acc" if "set ts \<subseteq> set (sn_tables base)" for acc ts
    using that
  proof (induction ts)
    case (Cons t ts)
    then have "snap_table base (ts_name t) \<noteq> None" by (auto simp: snap_table_def find_by_None_iff)
    with Cons show ?case by (simp add: merge_dropped_step_def Let_def)
  qed simp
  have 2: "foldl (merge_table_step base) acc ts = acc" if "set ts \<subseteq> set (sn_tables base)" for acc ts
    using that
  proof (induction ts)
    case (Cons t ts)
    then have "snap_table base (ts_name t) = Some t"
      using assms by (simp add: snap_table_def find_by_in wf_names_def)
    with Cons show ?case by (simp add: merge_table_step_def Let_def)
  qed simp
  show ?thesis by (simp add: merge_branch_def Let_def 1 2 merge_keyed_self m2_eq_def snap_sort_def)
qed

section \<open>Replaying a rename\<close>

lemma apply_rename_taken:
  "snap_table s new \<noteq> None \<or> snap_m2m_table s new \<noteq> None \<Longrightarrow> apply_rename s (RenameTable old new) = s"
  by (auto simp: apply_rename_def Let_def)

lemma find_by_sort_exists: "find_by key k (sort_key f xs) \<noteq> None \<longleftrightarrow> find_by key k xs \<noteq> None"
proof -
  have "find_by key k (sort_key f xs) = None \<longleftrightarrow> find_by key k xs = None"
    by (simp add: find_by_None_iff)
  then show ?thesis by simp
qed

lemma apply_rename_table_takes:
  "apply_rename s (RenameTable old new) \<noteq> s \<Longrightarrow>
     snap_table (apply_rename s (RenameTable old new)) new \<noteq> None \<or>
     snap_m2m_table (apply_rename s (RenameTable old new)) new \<noteq> None"
proof -
  assume ne: "apply_rename s (RenameTable old new) \<noteq> s"
  have key: "k \<in> key ` set xs \<Longrightarrow> find_by key k xs \<noteq> None" for k and key :: "'a \<Rightarrow> 'b" and xs
    by (simp add: find_by_None_iff)
  consider (junction) "snap_m2m_table s old \<noteq> None"
      "apply_rename s (RenameTable old new) = snap_sort (s\<lparr>sn_m2m_tables := update_first (\<lambda>m. m2_through m = old)
         (\<lambda>m. m\<lparr>m2_through := new\<rparr>) (sn_m2m_tables s)\<rparr>)"
    | (table) "snap_table s old \<noteq> None"
      "apply_rename s (RenameTable old new) = snap_sort (rename_table_in old new s)"
    using ne by (auto simp: apply_rename_def Let_def split: if_splits)
  then show ?thesis
  proof cases
    case junction
    have "new \<in> m2_through ` set (update_first (\<lambda>m. m2_through m = old) (\<lambda>m. m\<lparr>m2_through := new\<rparr>) ms)"
      if "find_by m2_through old ms \<noteq> None" for ms
      using that by (induction ms) (auto split: if_splits)
    then have "snap_m2m_table (apply_rename s (RenameTable old new)) new \<noteq> None"
      using junction by (simp add: snap_m2m_table_def snap_sort_def find_by_None_iff)
    then show ?thesis by simp
  next
    case table
    then obtain t where "t \<in> set (sn_tables s)" "ts_name t = old"
      by (auto simp: snap_table_def dest: find_by_SomeD)
    then have "new \<in> ts_name ` set (sn_tables (rename_table_in old new s))"
      by (force simp: rename_table_in_def rename_table_in_table_def)
    then have "snap_table (apply_rename s (RenameTable old new)) new \<noteq> None"
      using table by (simp add: snap_table_def snap_sort_def find_by_None_iff image_image)
    then show ?thesis by simp
  qed
qed

lemma rename_junction_column_replay:
  "rename_junction_column old new (rename_junction_column old new m) = rename_junction_column old new m"
  by (cases m) (auto simp: rename_junction_column_def swap_str_def)

lemma m2_through_rename_junction [simp]: "m2_through (rename_junction_column old new m) = m2_through m"
  by (simp add: rename_junction_column_def)

lemma ts_name_rename_own [simp]: "ts_name (rename_own_column old new t) = ts_name t"
  by (simp add: rename_own_column_def)

lemma ts_name_rename_inbound [simp]: "ts_name (rename_inbound_column table old new t) = ts_name t"
  by (simp add: rename_inbound_column_def)

lemma columns_rename_inbound [simp]:
  "map fs_column (ts_fields (rename_inbound_column table old new t)) = map fs_column (ts_fields t)"
  by (simp add: rename_inbound_column_def comp_def)

lemma columns_rename_own:
  "map fs_column (ts_fields (rename_own_column old new t)) = map (swap_str old new) (map fs_column (ts_fields t))"
  by (simp add: rename_own_column_def comp_def)

lemma ts_field_None_iff: "ts_field t c = None \<longleftrightarrow> c \<notin> set (map fs_column (ts_fields t))"
  by (simp add: ts_field_def find_by_None_iff)

lemma has_column_after_rename:
  "ts_field t old \<noteq> None \<Longrightarrow>
   ts_field (rename_inbound_column table old new (rename_own_column old new t)) new \<noteq> None"
  by (simp only: ts_field_None_iff columns_rename_inbound columns_rename_own) (auto simp: image_iff intro!: bexI)

lemma renamed_tables_no_match:
  assumes "distinct (map ts_name ts)"
    and "t \<in> set (map (rename_inbound_column table old new)
     (update_first (renames_column_of table old new) (rename_own_column old new) ts))"
  shows "\<not> renames_column_of table old new t"
proof -
  have eq: "update_first (renames_column_of table old new) (rename_own_column old new) ts =
      map (\<lambda>t. if renames_column_of table old new t then rename_own_column old new t else t) ts"
    by (rule update_first_map [where key = ts_name]) (use assms in \<open>auto simp: renames_column_of_def\<close>)
  obtain u where u: "t = rename_inbound_column table old new
      (if renames_column_of table old new u then rename_own_column old new u else u)"
    using assms(2) unfolding eq by auto
  show ?thesis
  proof (cases "renames_column_of table old new u")
    case True
    then have "ts_field t new \<noteq> None" unfolding u
      using has_column_after_rename by (simp add: renames_column_of_def)
    then show ?thesis by (simp add: renames_column_of_def)
  next
    case False
    then have t: "t = rename_inbound_column table old new u" using u by simp
    have "ts_field t c = None \<longleftrightarrow> ts_field u c = None" for c
      unfolding t by (simp only: ts_field_None_iff columns_rename_inbound)
    moreover have "ts_name t = ts_name u" using t by simp
    ultimately show ?thesis using False unfolding renames_column_of_def by metis
  qed
qed

text \<open>
  Replaying a hand-written rename that the snapshot already holds changes nothing, so replaying the
  same migrations twice is harmless.
\<close>

theorem apply_rename_replay:
  assumes "wf_names s"
  shows "apply_rename (apply_rename s change) change = apply_rename s change"
proof (cases change)
  case (RenameTable old new)
  show ?thesis
  proof (cases "apply_rename s change = s")
    case False
    then show ?thesis
      using apply_rename_table_takes [of s old new] apply_rename_taken RenameTable by blast
  qed simp
next
  case (RenameColumn table old new)
  let ?J = "update_first (\<lambda>m. m2_through m = table) (rename_junction_column old new)"
  let ?s1 = "s\<lparr>sn_m2m_tables := ?J (sn_m2m_tables s)\<rparr>"
  have JJ: "?J (?J ms) = ?J ms" for ms
    by (rule update_first_replay) (simp_all add: rename_junction_column_replay)
  show ?thesis
  proof (cases "List.find (renames_column_of table old new) (sn_tables s)")
    case None
    then have "apply_rename s change = ?s1" by (simp add: apply_rename_def RenameColumn)
    with None show ?thesis by (simp add: apply_rename_def RenameColumn JJ)
  next
    case (Some t)
    let ?ts = "map (rename_inbound_column table old new)
      (update_first (renames_column_of table old new) (rename_own_column old new) (sn_tables s))"
    obtain idx exc where eq: "apply_rename s change = snap_sort (s\<lparr>sn_m2m_tables := ?J (sn_m2m_tables s),
        sn_tables := ?ts, sn_indexes := idx, sn_excludes := exc\<rparr>)"
      using Some by (simp add: apply_rename_def RenameColumn)
    have d: "distinct (map ts_name (sn_tables s))" "distinct (map m2_through (sn_m2m_tables s))"
      using assms by (simp_all add: wf_names_def)
    have dJ: "distinct (map m2_through (?J (sn_m2m_tables s)))"
      using d(2) by (subst map_key_update_first) simp_all
    have none: "List.find (renames_column_of table old new) (sn_tables (apply_rename s change)) = None"
    proof (rule find_none)
      fix t assume "t \<in> set (sn_tables (apply_rename s change))"
      then obtain u where u: "u \<in> set ?ts" "t = u\<lparr>ts_fields := sort_key fs_column (ts_fields u)\<rparr>"
        unfolding eq by (auto simp: snap_sort_def)
      have "ts_field t c = None \<longleftrightarrow> ts_field u c = None" for c
        by (simp add: u(2) ts_field_None_iff)
      with renamed_tables_no_match [OF d(1) u(1)] show "\<not> renames_column_of table old new t"
        by (simp add: renames_column_of_def u(2))
    qed
    have "?J (sn_m2m_tables (apply_rename s change)) = sn_m2m_tables (apply_rename s change)"
      unfolding eq using update_first_sort_key [OF dJ, of "rename_junction_column old new" table]
      by (simp add: snap_sort_def JJ)
    with none show ?thesis
      by (subst apply_rename_def) (simp add: RenameColumn)
  qed
qed (simp_all add: apply_rename_def)


section \<open>Renames keep names unique\<close>

lemma wf_snap_sort [simp]: "wf_names (snap_sort s) = wf_names s"
  by (auto simp: wf_names_def snap_sort_def comp_def wf_table_def)

lemma sorted_snap_sort: "snap_sorted (snap_sort s)"
  by (auto simp: snap_sorted_def snap_sort_def comp_def)

lemma wf_rename_table_in:
  assumes "wf_names s" "snap_table s new = None"
  shows "wf_names (rename_table_in old new s)"
proof -
  have "distinct (map (\<lambda>t. swap_str old new (ts_name t)) (sn_tables s))"
    by (rule distinct_swap) (use assms in \<open>auto simp: wf_names_def snap_table_def find_by_None_iff\<close>)
  moreover have "wf_table (rename_table_in_table old new t)" if "wf_table t" for t
    using that by (simp add: wf_table_def rename_table_in_table_def rename_fk_target_def comp_def)
  ultimately show ?thesis
    using assms(1) by (auto simp: wf_names_def rename_table_in_def comp_def rename_table_in_table_def)
qed

lemma wf_rename_own_column:
  assumes "wf_table t" "ts_field t new = None"
  shows "wf_table (rename_own_column old new t)"
proof -
  have "distinct (map (\<lambda>f. swap_str old new (fs_column f)) (ts_fields t))"
    by (rule distinct_swap) (use assms in \<open>auto simp: wf_table_def ts_field_def find_by_None_iff\<close>)
  with assms(1) show ?thesis by (simp add: wf_table_def rename_own_column_def comp_def)
qed

lemma wf_rename_inbound: "wf_table (rename_inbound_column table old new t) = wf_table t"
  by (simp add: wf_table_def rename_inbound_column_def comp_def if_distrib cong: if_cong)

text \<open>
  A rename keeps names unique: no rename makes two tables, two columns of a table or two junctions
  share a name, also when the new name is taken.
\<close>

theorem apply_rename_wf:
  assumes "wf_names s"
  shows "wf_names (apply_rename s change)"
proof (cases change)
  case (RenameTable old new)
  have "wf_names (s\<lparr>sn_m2m_tables := update_first (\<lambda>m. m2_through m = old) (\<lambda>m. m\<lparr>m2_through := new\<rparr>) (sn_m2m_tables s)\<rparr>)"
    if "snap_m2m_table s new = None"
    using assms distinct_rename_first [of m2_through "sn_m2m_tables s" new "\<lambda>m. m\<lparr>m2_through := new\<rparr>" old] that
    by (simp add: wf_names_def snap_m2m_table_def find_by_None_iff)
  then show ?thesis
    using assms wf_rename_table_in by (auto simp: apply_rename_def RenameTable Let_def)
next
  case (RenameColumn table old new)
  let ?J = "update_first (\<lambda>m. m2_through m = table) (rename_junction_column old new)"
  let ?U = "update_first (renames_column_of table old new) (rename_own_column old new)"
  have J: "map m2_through (?J ms) = map m2_through ms" for ms
    by (rule map_key_update_first) simp
  have U: "map ts_name (?U ts) = map ts_name ts" for ts
    by (rule map_key_update_first) simp
  have wfU: "\<forall>t\<in>set (?U ts). wf_table t" if "\<forall>t\<in>set ts. wf_table t" for ts
    using that by (induction ts) (auto simp: renames_column_of_def wf_rename_own_column)
  have nm: "map ts_name (map (rename_inbound_column table old new) (?U ts)) = map ts_name ts" for ts
    using U by (simp add: comp_def)
  let ?s1 = "s\<lparr>sn_m2m_tables := ?J (sn_m2m_tables s)\<rparr>"
  let ?s2 = "?s1\<lparr>sn_tables := map (rename_inbound_column table old new) (?U (sn_tables s)),
      sn_indexes := map (\<lambda>i. if ix_table i = table
         then i\<lparr>ix_columns := map (swap_str old new) (ix_columns i),
                ix_include := map (swap_str old new) (ix_include i)\<rparr> else i) (sn_indexes s),
      sn_excludes := map (\<lambda>x. if ex_table x = table
         then x\<lparr>ex_elements := map (\<lambda>(c, o'). (swap_str old new c, o')) (ex_elements x)\<rparr> else x)
         (sn_excludes s)\<rparr>"
  have 1: "wf_names ?s1" using assms by (simp add: wf_names_def J)
  have "map ix_name (sn_indexes ?s2) = map ix_name (sn_indexes s)"
    "map ex_name (sn_excludes ?s2) = map ex_name (sn_excludes s)"
    by simp_all
  then have 2: "wf_names ?s2"
    unfolding wf_names_def using assms wfU [of "sn_tables s"] J nm
    by (simp only: wf_names_def schema_snapshot.simps) (simp add: wf_rename_inbound)
  have "apply_rename s change =
      (case List.find (renames_column_of table old new) (sn_tables s) of None \<Rightarrow> ?s1 | Some _ \<Rightarrow> snap_sort ?s2)"
    by (cases "List.find (renames_column_of table old new) (sn_tables s)")
      (simp_all add: apply_rename_def RenameColumn Let_def)
  with 1 2 show ?thesis by (simp split: option.split)
qed (simp_all add: apply_rename_def assms)

section \<open>Undoing a table rename\<close>

lemma rename_fk_target_undo:
  "(\<And>r. fs_fk f = Some r \<Longrightarrow> rs_to r \<noteq> new) \<Longrightarrow> rename_fk_target new old (rename_fk_target old new f) = f"
  by (cases "fs_fk f") (simp_all add: rename_fk_target_def swap_str_roundtrip)

lemma rename_table_in_table_undo:
  assumes "ts_name t \<noteq> new" "\<forall>f\<in>set (ts_fields t). \<forall>r. fs_fk f = Some r \<longrightarrow> rs_to r \<noteq> new"
    "\<forall>c\<in>set (ts_composite_fks t). cf_to c \<noteq> new"
  shows "rename_table_in_table new old (rename_table_in_table old new t) = t"
proof -
  have "map (rename_fk_target new old) (map (rename_fk_target old new) (ts_fields t)) = ts_fields t"
    using assms(2) by (simp add: map_idI rename_fk_target_undo)
  moreover have "map (\<lambda>c. c\<lparr>cf_to := swap_str new old (cf_to c)\<rparr>)
      (map (\<lambda>c. c\<lparr>cf_to := swap_str old new (cf_to c)\<rparr>) (ts_composite_fks t)) = ts_composite_fks t"
    using assms(3) by (simp add: map_idI swap_str_roundtrip)
  ultimately show ?thesis using assms(1) by (simp add: rename_table_in_table_def swap_str_roundtrip)
qed

lemma fs_column_rename_fk_target [simp]: "fs_column (rename_fk_target old new f) = fs_column f"
  by (simp add: rename_fk_target_def)

lemma fields_rename_table_sorted:
  "sorted (map fs_column (ts_fields t)) \<Longrightarrow>
   sort_key fs_column (ts_fields (rename_table_in_table old new t)) = ts_fields (rename_table_in_table old new t)"
  by (intro sort_key_id_if_sorted) (simp add: rename_table_in_table_def comp_def)

lemma snap_sort_rename_table_in:
  assumes "snap_sorted s"
  shows "snap_sort (rename_table_in old new s) =
    (rename_table_in old new s)\<lparr>sn_tables := sort_key ts_name (sn_tables (rename_table_in old new s))\<rparr>"
proof -
  have "map (\<lambda>t. t\<lparr>ts_fields := sort_key fs_column (ts_fields t)\<rparr>)
      (sort_key ts_name (sn_tables (rename_table_in old new s))) = sort_key ts_name (sn_tables (rename_table_in old new s))"
    using assms by (intro map_idI) (auto simp: snap_sorted_def rename_table_in_def fields_rename_table_sorted)
  moreover have "sort_key m2_through (sn_m2m_tables (rename_table_in old new s)) = sn_m2m_tables (rename_table_in old new s)"
    "sort_key ix_name (sn_indexes (rename_table_in old new s)) = sn_indexes (rename_table_in old new s)"
    "sort_key ck_name (sn_checks (rename_table_in old new s)) = sn_checks (rename_table_in old new s)"
    "sort_key ex_name (sn_excludes (rename_table_in old new s)) = sn_excludes (rename_table_in old new s)"
    by (rule sort_key_id_if_sorted, use assms in \<open>simp add: snap_sorted_def rename_table_in_def comp_def\<close>)+
  ultimately show ?thesis by (simp add: snap_sort_def)
qed

text \<open>
  Renaming a table to a name nothing uses and renaming it back gives the snapshot back, with every
  foreign key, junction, index and constraint that follows the table.
\<close>

theorem apply_rename_table_undo:
  assumes "wf_names s" "snap_sorted s" "snap_table s old \<noteq> None" "snap_m2m_table s old = None"
    and "table_name_unused new s"
  shows "apply_rename (apply_rename s (RenameTable old new)) (RenameTable new old) = s"
proof -
  have ne: "old \<noteq> new" using assms(3,5) by (auto simp: table_name_unused_def)
  have unused: "ts_name t \<noteq> new" if "t \<in> set (sn_tables s)" for t
    using assms(5) that by (auto simp: table_name_unused_def snap_table_def find_by_None_iff)
  define r where "r = rename_table_in old new s"
  define s' where "s' = r\<lparr>sn_tables := sort_key ts_name (sn_tables r)\<rparr>"
  have s': "apply_rename s (RenameTable old new) = s'"
    using assms(3-5) snap_sort_rename_table_in [OF assms(2)]
    by (auto simp: apply_rename_def Let_def table_name_unused_def r_def s'_def)
  have names: "ts_name ` set (sn_tables s') = swap_str old new ` ts_name ` set (sn_tables s)"
    by (simp add: s'_def r_def rename_table_in_def rename_table_in_table_def image_image)
  have new_in: "snap_table s' new \<noteq> None"
    using assms(3) by (auto simp: snap_table_def find_by_None_iff names image_iff swap_str_def)
  have old_out: "snap_table s' old = None"
    using ne by (auto simp: snap_table_def find_by_None_iff names swap_str_def split: if_splits)
  have m2: "snap_m2m_table s' n = None \<longleftrightarrow> snap_m2m_table s n = None" for n
    by (simp add: snap_m2m_table_def s'_def r_def rename_table_in_def find_by_None_iff image_image)
  have sorted': "snap_sorted s'"
    using sorted_snap_sort [of "rename_table_in old new s"] snap_sort_rename_table_in [OF assms(2)]
    by (simp add: s'_def r_def)
  have "apply_rename s' (RenameTable new old) = (rename_table_in new old s')\<lparr>
      sn_tables := sort_key ts_name (sn_tables (rename_table_in new old s'))\<rparr>"
    using new_in old_out m2 assms(4,5) snap_sort_rename_table_in [OF sorted']
    by (auto simp: apply_rename_def Let_def table_name_unused_def)
  also have "\<dots> = s"
  proof -
    have undone: "map (rename_table_in_table new old) (map (rename_table_in_table old new) (sn_tables s)) = sn_tables s"
      using assms(5) unused by (simp add: map_idI rename_table_in_table_undo table_name_unused_def)
    have "mset (map (rename_table_in_table new old) (sort_key ts_name (sn_tables r))) = mset (sn_tables s)"
      using arg_cong [OF undone, of mset] by (simp add: r_def rename_table_in_def multiset.map_comp)
    then have "sort_key ts_name (map (rename_table_in_table new old) (sort_key ts_name (sn_tables r))) =
        sort_key ts_name (sn_tables s)"
    proof (rule sort_key_perm)
      show "inj_on ts_name (set (map (rename_table_in_table new old) (sort_key ts_name (sn_tables r))))"
        using arg_cong [OF undone, of set] assms(1)
        by (simp add: r_def rename_table_in_def wf_names_def distinct_map image_image)
    qed
    also have "\<dots> = sn_tables s"
      using assms(2) by (simp add: snap_sorted_def sort_key_id_if_sorted)
    finally have tables: "sort_key ts_name (sn_tables (rename_table_in new old s')) = sn_tables s"
      by (simp add: s'_def rename_table_in_def)
    have others: "sn_m2m_tables (rename_table_in new old s') = sn_m2m_tables s"
      "sn_indexes (rename_table_in new old s') = sn_indexes s"
      "sn_checks (rename_table_in new old s') = sn_checks s"
      "sn_excludes (rename_table_in new old s') = sn_excludes s"
      using assms(5)
      by (simp_all add: s'_def r_def rename_table_in_def table_name_unused_def map_idI swap_str_roundtrip)
    show ?thesis using tables others by simp
  qed
  finally show ?thesis by (simp add: s')
qed

end
