(* ===== verification/Chain.thy ===== *)
theory Chain
  imports Snapshot_Edit
begin

text \<open>
  The graph of a migration directory, from \<open>crates/rustango/src/migrate/make.rs\<close>: a file's parents are
  its \<open>prev\<close> and the branches it merges. \<open>chain_membership\<close> and \<open>reachable\<close> walk the graph with a
  work list, \<open>ancestry\<close> follows \<open>prev\<close> alone, \<open>leaves\<close> and \<open>branched_leaves\<close> find the open ends, and
  \<open>effective_snapshot\<close>, \<open>apply_snapshot\<close> and \<open>rollback_snapshot\<close> compute the schema at a point of the
  graph. Every walk ends, also when \<open>prev\<close> names form a cycle. A \<open>HashSet\<close> of names is the list of the
  names in the order they were inserted, newest first; a chain is the list of the files in directory
  order. Log lines are not modelled.
\<close>

section \<open>Parents\<close>

definition merged_branches :: "migration list \<Rightarrow> migration \<Rightarrow> string list" where
  "merged_branches chain m =
     (if mg_merges m \<noteq> [] then mg_merges m
      else
        let legacy = (mg_forward m = [] \<and> ends_with (mg_name m) ''_merge'' \<and> mg_replaces m = [])
        in case Option.bind (mg_prev m) (\<lambda>p. find_by mg_name p chain) of
             None \<Rightarrow> []
           | Some head \<Rightarrow>
               if \<not> legacy then []
               else map mg_name (filter (\<lambda>c. mg_name c \<noteq> mg_name head \<and> mg_name c < mg_name m \<and> mg_prev c = mg_prev head) chain))"

definition parents :: "migration list \<Rightarrow> migration \<Rightarrow> string list" where
  "parents chain m = (case mg_prev m of None \<Rightarrow> [] | Some p \<Rightarrow> [p]) @ merged_branches chain m"

text \<open>The loop over \<open>todo\<close>, a stack whose top is the head of the list; \<open>seen\<close> gains a name once.\<close>

function walk :: "migration list \<Rightarrow> string list \<Rightarrow> string list \<Rightarrow> string list" where
  "walk chain seen [] = seen"
| "walk chain seen (name # todo) =
     (if name \<in> set seen then walk chain seen todo
      else walk chain (name # seen)
             ((case find_by mg_name name chain of None \<Rightarrow> [] | Some c \<Rightarrow> rev (parents chain c)) @ todo))"
  by pat_completeness auto
termination
proof (relation "measures [\<lambda>(chain, seen, todo). card (mg_name ` set chain - set seen), \<lambda>(chain, seen, todo). length todo]")
  fix chain :: "migration list" and seen todo :: "string list" and name :: string
  assume new: "name \<notin> set seen"
  show "((chain, name # seen, (case find_by mg_name name chain of None \<Rightarrow> [] | Some c \<Rightarrow> rev (parents chain c)) @ todo),
      (chain, seen, name # todo)) \<in>
    measures [\<lambda>(chain, seen, todo). card (mg_name ` set chain - set seen), \<lambda>(chain, seen, todo). length todo]"
  proof (cases "find_by mg_name name chain")
    case None
    then have "mg_name ` set chain - set (name # seen) = mg_name ` set chain - set seen"
      by (auto simp: find_by_None_iff)
    with None show ?thesis by simp
  next
    case (Some c)
    then have "name \<in> mg_name ` set chain" by (auto dest: find_by_SomeD)
    with new have "card (mg_name ` set chain - set (name # seen)) < card (mg_name ` set chain - set seen)"
      by (intro psubset_card_mono) auto
    then show ?thesis by simp
  qed
qed auto

definition chain_membership :: "migration list \<Rightarrow> string list" where
  "chain_membership prior_scoped = walk prior_scoped [] (if prior_scoped = [] then [] else [mg_name (last prior_scoped)])"

definition reachable :: "migration list \<Rightarrow> migration \<Rightarrow> string list" where
  "reachable chain m = walk chain [] [mg_name m]"

section \<open>Ancestors\<close>

definition chain_parent :: "migration list \<Rightarrow> migration \<Rightarrow> migration option" where
  "chain_parent chain m = Option.bind (mg_prev m) (\<lambda>p. find_by mg_name p chain)"

text \<open>\<open>out\<close> holds what the loop has collected before \<open>m\<close>, newest first.\<close>

function ancestry_from :: "migration list \<Rightarrow> migration list \<Rightarrow> migration \<Rightarrow> migration list" where
  "ancestry_from chain out m =
     (case chain_parent chain m of
        None \<Rightarrow> out @ [m]
      | Some p \<Rightarrow>
          if list_ex (\<lambda>o'. mg_name o' = mg_name p) (out @ [m]) then out @ [m]
          else ancestry_from chain (out @ [m]) p)"
  by pat_completeness auto
termination
proof (relation "measure (\<lambda>(chain, out, m). card (mg_name ` set chain - mg_name ` set (out @ [m])))")
  fix chain out :: "migration list" and m p
  assume p: "chain_parent chain m = Some p" and new: "\<not> list_ex (\<lambda>o'. mg_name o' = mg_name p) (out @ [m])"
  have "mg_name p \<in> mg_name ` set chain"
    using p by (auto simp: chain_parent_def Option.bind_eq_Some_conv dest: find_by_SomeD)
  then have "mg_name ` set chain - mg_name ` set ((out @ [m]) @ [p]) \<subset> mg_name ` set chain - mg_name ` set (out @ [m])"
    using new by (auto simp: list_ex_iff)
  then show "((chain, out @ [m], p), (chain, out, m)) \<in>
      measure (\<lambda>(chain, out, m). card (mg_name ` set chain - mg_name ` set (out @ [m])))"
    by (simp add: psubset_card_mono del: set_append)
qed auto

declare ancestry_from.simps [simp del]

definition ancestry :: "migration list \<Rightarrow> migration \<Rightarrow> migration list" where
  "ancestry chain m = ancestry_from chain [] m"

section \<open>The schema after a migration\<close>

text \<open>
  The files whose snapshot is a copy of their parent's, newest first. The loop stops once it has
  more copies than the chain has files.
\<close>

function copies_from :: "migration list \<Rightarrow> migration list \<Rightarrow> migration \<Rightarrow> migration list" where
  "copies_from chain copies m =
     (case chain_parent chain m of
        None \<Rightarrow> copies
      | Some p \<Rightarrow>
          if \<not> snapshot_eq (mg_snapshot p) (mg_snapshot m) then copies
          else if length (copies @ [m]) > length chain then copies @ [m]
          else copies_from chain (copies @ [m]) p)"
  by pat_completeness auto
termination
  by (relation "measure (\<lambda>(chain, copies, m). Suc (length chain) - length copies)") auto

declare copies_from.simps [simp del]

definition effective_snapshot :: "migration list \<Rightarrow> migration \<Rightarrow> schema_snapshot" where
  "effective_snapshot chain head =
     foldl (\<lambda>snap op. case op of Schema change \<Rightarrow> apply_rename snap change | _ \<Rightarrow> snap)
       (mg_snapshot head) (concat (map mg_forward (rev (copies_from chain [] head))))"

section \<open>Open ends\<close>

definition leaves :: "migration list \<Rightarrow> migration list" where
  "leaves chain =
     (let joined = concat (map (\<lambda>m. (case mg_prev m of None \<Rightarrow> [] | Some p \<Rightarrow> [p]) @ mg_replaces m @ merged_branches chain m) chain)
      in filter (\<lambda>m. mg_name m \<notin> set joined) chain)"

text \<open>The groups come in the order of a \<open>BTreeMap\<close> over the name of the root.\<close>

definition root_name :: "migration list \<Rightarrow> migration \<Rightarrow> string" where
  "root_name chain leaf = mg_name (last (ancestry chain leaf))"

definition branched_leaves :: "migration list \<Rightarrow> migration list list" where
  "branched_leaves chain =
     (let ls = leaves chain;
          roots = remdups (sort (map (root_name chain) ls));
          groups = map (\<lambda>r. filter (\<lambda>l. root_name chain l = r) ls) roots
      in map (sort_key mg_name) (filter (\<lambda>g. length g > 1) groups))"

section \<open>Schemas with other branches applied\<close>

text \<open>The loop of \<open>with_other_branches\<close>; it gives \<open>own\<close> back at the first conflict.\<close>

fun merge_leaves ::
  "migration list \<Rightarrow> migration \<Rightarrow> string option \<Rightarrow> schema_snapshot \<Rightarrow> schema_snapshot \<Rightarrow> migration list \<Rightarrow> schema_snapshot" where
  "merge_leaves chain tip skip own snap [] = snap"
| "merge_leaves chain tip skip own snap (leaf # ls) =
     (let reach = reachable chain leaf
      in if mg_name leaf = mg_name tip \<or> (case skip of None \<Rightarrow> False | Some s \<Rightarrow> s \<in> set reach)
         then merge_leaves chain tip skip own snap ls
         else case List.find (\<lambda>a. mg_name a \<in> set reach) (ancestry chain tip) of
                None \<Rightarrow> merge_leaves chain tip skip own snap ls
              | Some base \<Rightarrow>
                  (case merge_branch_result snap (effective_snapshot chain base) (effective_snapshot chain leaf) of
                     Inl conflicts \<Rightarrow> own
                   | Inr snap' \<Rightarrow> merge_leaves chain tip skip own snap' ls))"

definition with_other_branches ::
  "migration list \<Rightarrow> migration \<Rightarrow> string option \<Rightarrow> schema_snapshot \<Rightarrow> schema_snapshot" where
  "with_other_branches chain tip skip own = merge_leaves chain tip skip own own (leaves chain)"

definition rollback_snapshot ::
  "migration list \<Rightarrow> string set \<Rightarrow> migration \<Rightarrow> schema_snapshot \<Rightarrow> schema_snapshot" where
  "rollback_snapshot all applied target prev =
     (let chain = filter (\<lambda>m. mg_name m \<noteq> mg_name target \<and> mg_name m \<in> applied) all
      in case chain_parent chain target of
           None \<Rightarrow> prev
         | Some parent \<Rightarrow> with_other_branches chain parent (Some (mg_name target)) prev)"

definition apply_snapshot :: "migration list \<Rightarrow> string set \<Rightarrow> migration \<Rightarrow> schema_snapshot" where
  "apply_snapshot all applied mig =
     (let chain = filter (\<lambda>m. mg_name m = mg_name mig \<or> mg_name m \<in> applied) all
      in case find_by mg_name (mg_name mig) chain of
           None \<Rightarrow> mg_snapshot mig
         | Some tip \<Rightarrow> with_other_branches chain tip None (mg_snapshot mig))"

section \<open>Walks reach exactly the ancestors\<close>

definition parent_rel :: "migration list \<Rightarrow> (string \<times> string) set" where
  "parent_rel chain =
    {(a, b). \<exists>c. find_by mg_name a chain = Some c \<and> (mg_prev c = Some b \<or> b \<in> set (merged_branches chain c))}"

lemma set_parents: "b \<in> set (parents chain c) \<longleftrightarrow> mg_prev c = Some b \<or> b \<in> set (merged_branches chain c)"
  by (auto simp: parents_def split: option.splits)

lemma closed_reach:
  assumes "\<And>a b. a \<in> S \<Longrightarrow> (a, b) \<in> R \<Longrightarrow> b \<in> S \<union> T"
  shows "R\<^sup>* `` S \<subseteq> S \<union> R\<^sup>* `` T"
proof
  fix y assume "y \<in> R\<^sup>* `` S"
  then obtain x where "x \<in> S" "(x, y) \<in> R\<^sup>*" by auto
  from this(2,1) show "y \<in> S \<union> R\<^sup>* `` T"
  proof (induction rule: rtrancl_induct)
    case (step y z)
    then show ?case using assms [of y z] by (auto intro: rtrancl.rtrancl_into_rtrancl)
  qed simp
qed

lemma walk_set:
  assumes "\<forall>a\<in>set seen. \<forall>b. (a, b) \<in> parent_rel chain \<longrightarrow> b \<in> set seen \<union> set todo"
  shows "set (walk chain seen todo) = set seen \<union> (parent_rel chain)\<^sup>* `` set todo"
  using assms
proof (induction chain seen todo rule: walk.induct)
  case (2 chain seen name todo)
  let ?R = "parent_rel chain"
  show ?case
  proof (cases "name \<in> set seen")
    case True
    have "?R\<^sup>* `` set seen \<subseteq> set seen \<union> ?R\<^sup>* `` set todo"
      by (rule closed_reach) (use 2(3) True in auto)
    then have "?R\<^sup>* `` {name} \<subseteq> set seen \<union> ?R\<^sup>* `` set todo" using True by blast
    then have "set seen \<union> ?R\<^sup>* `` set todo = set seen \<union> ?R\<^sup>* `` set (name # todo)" by auto
    moreover have "set (walk chain seen todo) = set seen \<union> ?R\<^sup>* `` set todo"
      using 2(1) [OF True] 2(3) True by auto
    ultimately show ?thesis using True by simp
  next
    case False
    let ?next = "case find_by mg_name name chain of None \<Rightarrow> [] | Some c \<Rightarrow> rev (parents chain c)"
    have succ: "set ?next = ?R `` {name}" by (cases "find_by mg_name name chain") (auto simp: parent_rel_def set_parents)
    have "set (walk chain (name # seen) (?next @ todo)) = set (name # seen) \<union> ?R\<^sup>* `` set (?next @ todo)"
      by (rule 2(2) [OF False]) (use 2(3) succ in auto)
    moreover have "?R\<^sup>* `` {name} = insert name (?R\<^sup>* `` (?R `` {name}))"
      by (auto elim: converse_rtranclE intro: converse_rtrancl_into_rtrancl)
    ultimately show ?thesis using False succ by simp blast
  qed
qed simp

lemma walk_distinct: "distinct seen \<Longrightarrow> distinct (walk chain seen todo)"
  by (induction chain seen todo rule: walk.induct) auto

lemma set_reachable: "set (reachable chain m) = {n. (mg_name m, n) \<in> (parent_rel chain)\<^sup>*}"
  using walk_set [of "[]" chain "[mg_name m]"] by (auto simp: reachable_def)

section \<open>Ancestors form a path\<close>

lemma ancestry_from_path:
  assumes "successively (\<lambda>a b. chain_parent chain a = Some b) (out @ [m])" "distinct (map mg_name (out @ [m]))"
  shows "successively (\<lambda>a b. chain_parent chain a = Some b) (ancestry_from chain out m) \<and>
    distinct (map mg_name (ancestry_from chain out m)) \<and> (\<exists>rest. ancestry_from chain out m = out @ m # rest) \<and>
    (case chain_parent chain (last (ancestry_from chain out m)) of
       None \<Rightarrow> True
     | Some p \<Rightarrow> mg_name p \<in> mg_name ` set (ancestry_from chain out m))"
  using assms
proof (induction chain out m rule: ancestry_from.induct)
  case (1 chain out m)
  show ?case
  proof (cases "chain_parent chain m")
    case None
    with 1(2,3) show ?thesis by (simp add: ancestry_from.simps [of chain out m])
  next
    case (Some p)
    show ?thesis
    proof (cases "list_ex (\<lambda>o'. mg_name o' = mg_name p) (out @ [m])")
      case True
      then have eq: "ancestry_from chain out m = out @ [m]" using Some by (subst ancestry_from.simps) simp
      have "mg_name p \<in> mg_name ` set (out @ [m])" using True unfolding list_ex_iff by (metis image_eqI)
      then show ?thesis unfolding eq using 1(2,3) Some by simp
    next
      case False
      then have eq: "ancestry_from chain out m = ancestry_from chain (out @ [m]) p"
        using Some by (subst ancestry_from.simps) simp
      have "successively (\<lambda>a b. chain_parent chain a = Some b) ((out @ [m]) @ [p])"
        using 1(2) Some by (simp add: successively_append_iff)
      moreover have "distinct (map mg_name ((out @ [m]) @ [p]))"
        using 1(3) False by (auto simp: list_ex_iff)
      ultimately show ?thesis unfolding eq using 1(1) [OF Some False] by auto
    qed
  qed
qed

lemma ancestry_hd: "ancestry chain m \<noteq> []" "hd (ancestry chain m) = m"
  using ancestry_from_path [of chain "[]" m] by (auto simp: ancestry_def)

lemma chain_parent_own: "chain_parent chain m = Some p \<Longrightarrow> find_by mg_name (mg_name p) chain = Some p"
  by (auto simp: chain_parent_def Option.bind_eq_Some_conv dest: find_by_SomeD)

lemma chain_parent_rel:
  "find_by mg_name (mg_name m) chain = Some m \<Longrightarrow> chain_parent chain m = Some p \<Longrightarrow> (mg_name m, mg_name p) \<in> parent_rel chain"
  by (auto simp: chain_parent_def Option.bind_eq_Some_conv parent_rel_def parents_def dest: find_by_SomeD)

lemma ancestry_from_reach:
  assumes "find_by mg_name (mg_name m) chain = Some m" "a \<in> set (ancestry_from chain out m)"
  shows "a \<in> set out \<or> (mg_name m, mg_name a) \<in> (parent_rel chain)\<^sup>*"
  using assms
proof (induction chain out m rule: ancestry_from.induct)
  case (1 chain out m)
  show ?case
  proof (cases "\<exists>p. chain_parent chain m = Some p \<and> \<not> list_ex (\<lambda>o'. mg_name o' = mg_name p) (out @ [m])")
    case True
    then obtain p where p: "chain_parent chain m = Some p" "\<not> list_ex (\<lambda>o'. mg_name o' = mg_name p) (out @ [m])" by blast
    then have "a \<in> set (ancestry_from chain (out @ [m]) p)" using 1(3) by (subst (asm) ancestry_from.simps) simp
    from 1(1) [OF p chain_parent_own [OF p(1)] this] show ?thesis
      using chain_parent_rel [OF 1(2) p(1)] by (auto intro: converse_rtrancl_into_rtrancl)
  next
    case False
    then have "ancestry_from chain out m = out @ [m]" by (subst ancestry_from.simps) (auto split: option.split)
    then show ?thesis using 1(3) by auto
  qed
qed

lemma ancestry_reachable:
  "find_by mg_name (mg_name m) chain = Some m \<Longrightarrow> a \<in> set (ancestry chain m) \<Longrightarrow> mg_name a \<in> set (reachable chain m)"
  using ancestry_from_reach [of m chain a "[]"] by (simp add: ancestry_def set_reachable)

end
