(* ===== verification/Diff.thy ===== *)
theory Diff
  imports Snapshot_Edit
begin

text \<open>
  The schema diff, \<open>crates/rustango/src/migrate/diff.rs\<close>: \<open>detect_changes\<close> with everything it
  calls, \<open>detect_unsupported_field_changes\<close>, and the warnings and suspected renames computed from a
  list of changes. \<open>detect_changes\<close> appends to one list phase by phase; every phase is a definition
  here and \<open>detect_changes\<close> concatenates them in the order of the source. The correctness of the
  diff against an abstract database catalog is the theory \<open>Catalog\<close>; rendering to SQL is not
  modelled.
\<close>

section \<open>Objects as changes\<close>

definition create_index :: "index_snapshot \<Rightarrow> schema_change" where
  "create_index i =
     CreateIndex (ix_name i) (ix_table i) (ix_columns i) (ix_unique i) (ix_method i) (ix_where_clause i) (ix_include i)"

definition add_check :: "check_snapshot \<Rightarrow> schema_change" where
  "add_check c = AddCheckConstraint (ck_name c) (ck_table c) (ck_expr c)"

definition add_exclude :: "exclusion_snapshot \<Rightarrow> schema_change" where
  "add_exclude x = AddExclusionConstraint (ex_name x) (ex_table x) (ex_using x) (ex_elements x) (ex_where_clause x)"

definition create_m2m :: "m2m_table_snapshot \<Rightarrow> schema_change" where
  "create_m2m m = CreateM2MTable (m2_through m) (m2_src_table m) (m2_src_col m) (m2_dst_table m) (m2_dst_col m)"

definition add_composite_fk :: "string \<Rightarrow> composite_fk_snapshot \<Rightarrow> schema_change" where
  "add_composite_fk table c = AddCompositeFk table (cf_name c) (cf_to c) (cf_from c) (cf_on c)"

section \<open>Junction column renames\<close>

definition is_self_ref :: "m2m_table_snapshot \<Rightarrow> bool" where
  "is_self_ref m \<longleftrightarrow> m2_src_table m = m2_dst_table m"

text \<open>
  \<open>swap_spare\<close>: the longest prefix of \<open>a\<close> of at most 56 bytes that ends on a character boundary,
  then \<open>_swp0\<close>, \<open>_swp1\<close>, \dots until the name is free. A byte \<open>10xxxxxx\<close> continues a character.
\<close>

definition is_char_boundary :: "string \<Rightarrow> nat \<Rightarrow> bool" where
  "is_char_boundary s i \<longleftrightarrow>
     i = 0 \<or> i = length s \<or>
     (i < length s \<and> \<not> ((128::nat) \<le> of_char (s ! i) \<and> of_char (s ! i) < (192::nat)))"

fun floor_boundary :: "string \<Rightarrow> nat \<Rightarrow> nat" where
  "floor_boundary s pos =
     (if is_char_boundary s pos then pos else case pos of 0 \<Rightarrow> 0 | Suc n \<Rightarrow> floor_boundary s n)"

declare floor_boundary.simps [simp del]

definition spare_name :: "string \<Rightarrow> nat \<Rightarrow> string" where
  "spare_name base i = base @ ''_swp'' @ show_nat i"

lemma show_nat_inj: "show_nat i = show_nat j \<longleftrightarrow> i = j"
  using digits_value_show_nat by metis

lemma spare_name_inj: "spare_name base i = spare_name base j \<longleftrightarrow> i = j"
  by (simp add: spare_name_def show_nat_inj)

lemma finite_spares: "finite {j. i \<le> j \<and> (spare_name base j = a \<or> spare_name base j = b)}"
proof (rule finite_subset)
  show "{j. i \<le> j \<and> (spare_name base j = a \<or> spare_name base j = b)} \<subseteq> spare_name base -` {a, b}"
    by auto
  show "finite (spare_name base -` {a, b})"
    by (rule finite_vimageI) (auto simp: inj_def spare_name_inj)
qed

function spare_from :: "string \<Rightarrow> string \<Rightarrow> string \<Rightarrow> nat \<Rightarrow> string" where
  "spare_from base a b i =
     (let s = spare_name base i in if s \<noteq> a \<and> s \<noteq> b then s else spare_from base a b (Suc i))"
  by pat_completeness auto
termination
proof (relation "measure (\<lambda>(base, a, b, i). card {j. i \<le> j \<and> (spare_name base j = a \<or> spare_name base j = b)})")
  fix base a b :: string and i :: nat and s
  assume "s = spare_name base i" "\<not> (s \<noteq> a \<and> s \<noteq> b)"
  then have "i \<in> {j. i \<le> j \<and> (spare_name base j = a \<or> spare_name base j = b)}" by auto
  moreover have "i \<notin> {j. Suc i \<le> j \<and> (spare_name base j = a \<or> spare_name base j = b)}" by simp
  ultimately have "{j. Suc i \<le> j \<and> (spare_name base j = a \<or> spare_name base j = b)} \<subset>
      {j. i \<le> j \<and> (spare_name base j = a \<or> spare_name base j = b)}"
    by (metis (no_types, lifting) Collect_mono Suc_leD psubsetI)
  then show "((base, a, b, Suc i), base, a, b, i) \<in>
      measure (\<lambda>(base, a, b, i). card {j. i \<le> j \<and> (spare_name base j = a \<or> spare_name base j = b)})"
    by (simp add: psubset_card_mono finite_spares)
qed simp

declare spare_from.simps [simp del]

definition swap_spare :: "string \<Rightarrow> string \<Rightarrow> string" where
  "swap_spare a b = spare_from (take (floor_boundary a (min (length a) 56)) a) a b 0"

fun changed_renames :: "(string \<Rightarrow> string \<Rightarrow> schema_change) \<Rightarrow> (string \<times> string) list \<Rightarrow> schema_change list" where
  "changed_renames rename [(a, b)] = [rename a b]"
| "changed_renames rename [(a, b), (c, d)] =
     (if b = c \<and> d = a then (let spare = swap_spare a b in [rename a spare, rename c d, rename spare b])
      else if b = c then [rename c d, rename a b]
      else [rename a b, rename c d])"
| "changed_renames rename _ = []"

definition m2m_renames :: "m2m_table_snapshot \<Rightarrow> m2m_table_snapshot \<Rightarrow> schema_change list option" where
  "m2m_renames old new =
     (let rename = RenameColumn (m2_through old)
      in if is_self_ref old \<and> is_self_ref new \<and> m2_src_table old = m2_src_table new
         then (let olds = [m2_src_col old, m2_dst_col old]; news = [m2_src_col new, m2_dst_col new]
               in case List.find (\<lambda>c. c \<notin> set news) olds of
                    None \<Rightarrow> None
                  | Some gone \<Rightarrow>
                      (case List.find (\<lambda>c. c \<notin> set olds) news of
                         None \<Rightarrow> None
                       | Some came \<Rightarrow>
                           if length (filter (\<lambda>c. c \<in> set news) olds) = 1 then Some [rename gone came] else None))
         else (let direct = (if m2_src_table old = m2_src_table new \<and> m2_dst_table old = m2_dst_table new
                             then Some [(m2_src_col old, m2_src_col new), (m2_dst_col old, m2_dst_col new)] else None);
                   mirrored = (if m2_src_table old = m2_dst_table new \<and> m2_dst_table old = m2_src_table new
                               then Some [(m2_src_col old, m2_dst_col new), (m2_dst_col old, m2_src_col new)] else None)
               in map_option (\<lambda>pairs. changed_renames rename (filter (\<lambda>(a, b). a \<noteq> b) pairs))
                    (case direct of Some p \<Rightarrow> Some p | None \<Rightarrow> mirrored)))"

section \<open>Dropped tables, children first\<close>

definition references :: "table_snapshot \<Rightarrow> string \<Rightarrow> bool" where
  "references t target \<longleftrightarrow>
     ts_name t \<noteq> target \<and>
     (list_ex (field_fk_to target) (ts_fields t) \<or> list_ex (\<lambda>c. cf_to c = target) (ts_composite_fks t))"

fun position :: "('a \<Rightarrow> bool) \<Rightarrow> 'a list \<Rightarrow> nat option" where
  "position P [] = None"
| "position P (x # xs) = (if P x then Some 0 else map_option Suc (position P xs))"

definition next_dropped :: "table_snapshot list \<Rightarrow> nat" where
  "next_dropped left =
     (case position (\<lambda>t. \<not> list_ex (\<lambda>o'. references o' (ts_name t)) left) left of None \<Rightarrow> 0 | Some i \<Rightarrow> i)"

lemma position_Some: "position P xs = Some i \<Longrightarrow> i < length xs \<and> P (xs ! i)"
  by (induction xs arbitrary: i) (auto split: if_splits)

lemma position_None: "position P xs = None \<longleftrightarrow> (\<forall>x\<in>set xs. \<not> P x)"
  by (induction xs) auto

lemma next_dropped_less: "left \<noteq> [] \<Longrightarrow> next_dropped left < length left"
  by (auto simp: next_dropped_def dest: position_Some split: option.splits)

function drop_order :: "table_snapshot list \<Rightarrow> string list" where
  "drop_order left =
     (if left = [] then []
      else let i = next_dropped left
           in ts_name (left ! i) # drop_order (take i left @ drop (Suc i) left))"
  by pat_completeness auto
termination
  by (relation "measure length") (auto dest: next_dropped_less)

declare drop_order.simps [simp del]

definition dropped_tables_child_first :: "schema_snapshot \<Rightarrow> schema_snapshot \<Rightarrow> string list" where
  "dropped_tables_child_first prev current =
     drop_order (filter (\<lambda>t. snap_table current (ts_name t) = None) (sn_tables prev))"

section \<open>Altered columns\<close>

definition fk_identity :: "relation_snapshot \<Rightarrow> string \<times> string \<times> string" where
  "fk_identity r = (rs_kind r, rs_to r, rs_on r)"

definition effective_on_delete :: "relation_snapshot \<Rightarrow> string" where
  "effective_on_delete r = (case rs_on_delete r of None \<Rightarrow> ''NO ACTION'' | Some a \<Rightarrow> a)"

definition same_on_delete :: "relation_snapshot \<Rightarrow> relation_snapshot \<Rightarrow> bool" where
  "same_on_delete p c = eq_ignore_ascii_case (effective_on_delete p) (effective_on_delete c)"

definition alter_changes :: "string \<Rightarrow> field_snapshot \<Rightarrow> field_snapshot \<Rightarrow> schema_change list" where
  "alter_changes table pf cf =
     (let max_length = (if fs_max_length pf \<noteq> fs_max_length cf
                        then [AlterColumnMaxLength table (fs_column cf) (fs_max_length pf) (fs_max_length cf)] else []);
          leaving_string = (fs_ty pf \<noteq> fs_ty cf \<and> fs_ty cf \<noteq> ''string'');
          ci_flip = (fs_ty cf = ''string'' \<and> fs_case_insensitive pf \<noteq> fs_case_insensitive cf)
      in (if leaving_string then max_length else []) @
         (if fs_ty pf \<noteq> fs_ty cf \<or> ci_flip
          then [AlterColumnType table (fs_column cf) (fs_ty pf) (fs_ty cf)] else []) @
         (if \<not> leaving_string then max_length else []) @
         (if fs_default pf \<noteq> fs_default cf \<and> fs_ty pf = fs_ty cf
          then [AlterColumnDefault table (fs_column cf) (fs_default pf) (fs_default cf)] else []) @
         (if fs_nullable pf \<noteq> fs_nullable cf
          then [AlterColumnNullable table (fs_column cf) (fs_nullable cf)] else []) @
         (if fs_unique pf \<noteq> fs_unique cf
          then [AlterColumnUnique table (fs_column cf) (fs_unique cf)] else []) @
         (if fs_db_comment pf \<noteq> fs_db_comment cf
          then [AlterColumnComment table (fs_column cf) (fs_db_comment pf) (fs_db_comment cf)] else []) @
         (case (fs_fk pf, fs_fk cf) of
            (Some p, Some c) \<Rightarrow>
              if fk_identity p = fk_identity c \<and> \<not> same_on_delete p c
              then [AlterFkOnDelete table (fs_column cf) (rs_on_delete p) (rs_on_delete c)] else []
          | _ \<Rightarrow> []))"

section \<open>The phases of a diff\<close>

definition ix_changed :: "index_snapshot \<Rightarrow> index_snapshot \<Rightarrow> bool" where
  "ix_changed c i \<longleftrightarrow>
     ix_columns c \<noteq> ix_columns i \<or> ix_unique c \<noteq> ix_unique i \<or> ix_table c \<noteq> ix_table i \<or>
     ix_method c \<noteq> ix_method i \<or> ix_where_clause c \<noteq> ix_where_clause i \<or> ix_include c \<noteq> ix_include i"

definition composite_fk_changed :: "table_snapshot \<Rightarrow> composite_fk_snapshot \<Rightarrow> bool" where
  "composite_fk_changed ct pf \<longleftrightarrow> ts_composite_fk ct (cf_name pf) \<noteq> Some pf"

definition drop_composite_fks :: "schema_snapshot \<Rightarrow> schema_snapshot \<Rightarrow> schema_change list" where
  "drop_composite_fks prev current =
     concat (map (\<lambda>pt. case snap_table current (ts_name pt) of
         None \<Rightarrow> []
       | Some ct \<Rightarrow> map (\<lambda>pf. DropCompositeFk (ts_name pt) (cf_name pf))
                     (filter (composite_fk_changed ct) (ts_composite_fks pt))) (sn_tables prev))"

definition recreate_composite_fks :: "schema_snapshot \<Rightarrow> schema_snapshot \<Rightarrow> schema_change list" where
  "recreate_composite_fks prev current =
     concat (map (\<lambda>pt. case snap_table current (ts_name pt) of
         None \<Rightarrow> []
       | Some ct \<Rightarrow> List.map_filter (\<lambda>pf. map_option (add_composite_fk (ts_name ct)) (ts_composite_fk ct (cf_name pf)))
                     (filter (composite_fk_changed ct) (ts_composite_fks pt))) (sn_tables prev))"

definition index_gone_or_changed :: "schema_snapshot \<Rightarrow> index_snapshot \<Rightarrow> bool" where
  "index_gone_or_changed current i =
     (case snap_index current (ix_name i) of None \<Rightarrow> True | Some c \<Rightarrow> ix_changed c i)"

definition drop_indexes :: "schema_snapshot \<Rightarrow> schema_snapshot \<Rightarrow> schema_change list" where
  "drop_indexes prev current =
     map (\<lambda>i. DropIndex (ix_name i) (ix_table i)) (filter (index_gone_or_changed current) (sn_indexes prev))"

definition recreate_indexes :: "schema_snapshot \<Rightarrow> schema_snapshot \<Rightarrow> schema_change list" where
  "recreate_indexes prev current =
     List.map_filter (\<lambda>i. case snap_index current (ix_name i) of
         None \<Rightarrow> None
       | Some c \<Rightarrow> if ix_changed c i then Some (create_index c) else None) (sn_indexes prev)"

definition drop_checks :: "schema_snapshot \<Rightarrow> schema_snapshot \<Rightarrow> schema_change list" where
  "drop_checks prev current =
     map (\<lambda>c. DropCheckConstraint (ck_name c) (ck_table c))
       (filter (\<lambda>c. snap_check current (ck_name c) \<noteq> Some c) (sn_checks prev))"

definition recreate_checks :: "schema_snapshot \<Rightarrow> schema_snapshot \<Rightarrow> schema_change list" where
  "recreate_checks prev current =
     List.map_filter (\<lambda>c. map_option add_check (snap_check current (ck_name c)))
       (filter (\<lambda>c. snap_check current (ck_name c) \<noteq> Some c) (sn_checks prev))"

definition drop_excludes :: "schema_snapshot \<Rightarrow> schema_snapshot \<Rightarrow> schema_change list" where
  "drop_excludes prev current =
     map (\<lambda>x. DropExclusionConstraint (ex_name x) (ex_table x))
       (filter (\<lambda>x. snap_exclude current (ex_name x) \<noteq> Some x) (sn_excludes prev))"

definition recreate_excludes :: "schema_snapshot \<Rightarrow> schema_snapshot \<Rightarrow> schema_change list" where
  "recreate_excludes prev current =
     List.map_filter (\<lambda>x. map_option add_exclude (snap_exclude current (ex_name x)))
       (filter (\<lambda>x. snap_exclude current (ex_name x) \<noteq> Some x) (sn_excludes prev))"

text \<open>
  A junction that is still there but differs is renamed column by column when \<open>m2m_renames\<close>
  finds how, and dropped otherwise.
\<close>

definition junction_renames :: "schema_snapshot \<Rightarrow> m2m_table_snapshot \<Rightarrow> schema_change list option" where
  "junction_renames current m =
     (case snap_m2m_table current (m2_through m) of
        None \<Rightarrow> None
      | Some c \<Rightarrow> if \<not> m2_eq c m then m2m_renames m c else None)"

definition junction_same :: "schema_snapshot \<Rightarrow> m2m_table_snapshot \<Rightarrow> bool" where
  "junction_same current m =
     (case snap_m2m_table current (m2_through m) of None \<Rightarrow> False | Some c \<Rightarrow> m2_eq c m)"

definition drop_junctions :: "schema_snapshot \<Rightarrow> schema_snapshot \<Rightarrow> schema_change list" where
  "drop_junctions prev current =
     concat (map (\<lambda>m. case junction_renames current m of
         Some renames \<Rightarrow> renames
       | None \<Rightarrow> if junction_same current m then [] else [DropM2MTable (m2_through m)]) (sn_m2m_tables prev))"

definition recreate_junctions :: "schema_snapshot \<Rightarrow> schema_snapshot \<Rightarrow> schema_change list" where
  "recreate_junctions prev current =
     List.map_filter (\<lambda>m. if junction_renames current m = None \<and> \<not> junction_same current m
         then map_option create_m2m (snap_m2m_table current (m2_through m)) else None) (sn_m2m_tables prev)"

definition create_tables :: "schema_snapshot \<Rightarrow> schema_snapshot \<Rightarrow> schema_change list" where
  "create_tables prev current =
     map (\<lambda>t. CreateTable (ts_name t)) (filter (\<lambda>t. snap_table prev (ts_name t) = None) (sn_tables current))"

definition add_columns :: "schema_snapshot \<Rightarrow> schema_snapshot \<Rightarrow> schema_change list" where
  "add_columns prev current =
     concat (map (\<lambda>t. case snap_table prev (ts_name t) of
         None \<Rightarrow> []
       | Some pt \<Rightarrow> map (\<lambda>f. AddColumn (ts_name t) (fs_column f))
                     (filter (\<lambda>f. ts_field pt (fs_column f) = None) (ts_fields t))) (sn_tables current))"

definition alter_columns :: "schema_snapshot \<Rightarrow> schema_snapshot \<Rightarrow> schema_change list" where
  "alter_columns prev current =
     concat (map (\<lambda>ct. case snap_table prev (ts_name ct) of
         None \<Rightarrow> []
       | Some pt \<Rightarrow> concat (map (\<lambda>cf. case ts_field pt (fs_column cf) of
             None \<Rightarrow> []
           | Some pf \<Rightarrow> alter_changes (ts_name ct) pf cf) (ts_fields ct))) (sn_tables current))"

definition alter_comments :: "schema_snapshot \<Rightarrow> schema_snapshot \<Rightarrow> schema_change list" where
  "alter_comments prev current =
     concat (map (\<lambda>ct. case snap_table prev (ts_name ct) of
         None \<Rightarrow> []
       | Some pt \<Rightarrow> if ts_db_table_comment pt \<noteq> ts_db_table_comment ct
                    then [AlterTableComment (ts_name ct) (ts_db_table_comment pt) (ts_db_table_comment ct)] else [])
       (sn_tables current))"

definition drop_columns :: "schema_snapshot \<Rightarrow> schema_snapshot \<Rightarrow> schema_change list" where
  "drop_columns prev current =
     concat (map (\<lambda>pt. case snap_table current (ts_name pt) of
         None \<Rightarrow> []
       | Some t \<Rightarrow> map (\<lambda>f. DropColumn (ts_name pt) (fs_column f))
                    (filter (\<lambda>f. ts_field t (fs_column f) = None) (ts_fields pt))) (sn_tables prev))"

definition drop_tables :: "schema_snapshot \<Rightarrow> schema_snapshot \<Rightarrow> schema_change list" where
  "drop_tables prev current = map DropTable (dropped_tables_child_first prev current)"

definition new_indexes :: "schema_snapshot \<Rightarrow> schema_snapshot \<Rightarrow> schema_change list" where
  "new_indexes prev current =
     map create_index (filter (\<lambda>i. snap_index prev (ix_name i) = None) (sn_indexes current))"

definition new_checks :: "schema_snapshot \<Rightarrow> schema_snapshot \<Rightarrow> schema_change list" where
  "new_checks prev current =
     map add_check (filter (\<lambda>c. snap_check prev (ck_name c) = None) (sn_checks current))"

definition new_excludes :: "schema_snapshot \<Rightarrow> schema_snapshot \<Rightarrow> schema_change list" where
  "new_excludes prev current =
     map add_exclude (filter (\<lambda>x. \<not> list_ex (\<lambda>p. ex_name p = ex_name x) (sn_excludes prev)) (sn_excludes current))"

definition new_junctions :: "schema_snapshot \<Rightarrow> schema_snapshot \<Rightarrow> schema_change list" where
  "new_junctions prev current =
     map create_m2m (filter (\<lambda>m. snap_m2m_table prev (m2_through m) = None) (sn_m2m_tables current))"

definition new_composite_fks :: "schema_snapshot \<Rightarrow> schema_snapshot \<Rightarrow> schema_change list" where
  "new_composite_fks prev current =
     concat (map (\<lambda>ct. case snap_table prev (ts_name ct) of
         None \<Rightarrow> []
       | Some pt \<Rightarrow> map (add_composite_fk (ts_name ct))
                     (filter (\<lambda>cf. \<not> list_ex (\<lambda>p. cf_name p = cf_name cf) (ts_composite_fks pt)) (ts_composite_fks ct)))
       (sn_tables current))"

definition detect_changes :: "schema_snapshot \<Rightarrow> schema_snapshot \<Rightarrow> schema_change list" where
  "detect_changes prev current =
     drop_composite_fks prev current @ drop_indexes prev current @ drop_checks prev current @
     drop_excludes prev current @ drop_junctions prev current @
     create_tables prev current @ add_columns prev current @ alter_columns prev current @
     alter_comments prev current @ drop_columns prev current @ drop_tables prev current @
     new_indexes prev current @
     (recreate_indexes prev current @ recreate_checks prev current @ recreate_excludes prev current @
      recreate_junctions prev current) @
     new_checks prev current @ new_excludes prev current @ new_junctions prev current @
     new_composite_fks prev current @ recreate_composite_fks prev current"

section \<open>Changes no operation expresses\<close>

datatype unsupported_change =
    PrimaryKeyChanged string string bool bool \<comment> \<open>table, column, from, to\<close>
  | MinChanged string string "i64 option" "i64 option"
  | MaxChanged string string "i64 option" "i64 option"
  | FkChanged string string "relation_snapshot option" "relation_snapshot option"
  | AutoChanged string string bool bool
  | GeneratedChanged string string "string option" "string option"
  | SelfRefRenamedBoth m2m_table_snapshot m2m_table_snapshot

definition field_diffs :: "string \<Rightarrow> field_snapshot \<Rightarrow> field_snapshot \<Rightarrow> unsupported_change list" where
  "field_diffs table pf cf =
     (let col = fs_column cf
      in (if fs_primary_key pf \<noteq> fs_primary_key cf
          then [PrimaryKeyChanged table col (fs_primary_key pf) (fs_primary_key cf)] else []) @
         (if fs_min pf \<noteq> fs_min cf then [MinChanged table col (fs_min pf) (fs_min cf)] else []) @
         (if fs_max pf \<noteq> fs_max cf then [MaxChanged table col (fs_max pf) (fs_max cf)] else []) @
         (if map_option fk_identity (fs_fk pf) \<noteq> map_option fk_identity (fs_fk cf)
          then [FkChanged table col (fs_fk pf) (fs_fk cf)] else []) @
         (if fs_auto pf \<noteq> fs_auto cf then [AutoChanged table col (fs_auto pf) (fs_auto cf)] else []) @
         (if fs_generated_as pf \<noteq> fs_generated_as cf
          then [GeneratedChanged table col (fs_generated_as pf) (fs_generated_as cf)] else []))"

definition detect_unsupported_field_changes ::
  "schema_snapshot \<Rightarrow> schema_snapshot \<Rightarrow> unsupported_change list" where
  "detect_unsupported_field_changes prev current =
     concat (map (\<lambda>ct. case snap_table prev (ts_name ct) of
         None \<Rightarrow> []
       | Some pt \<Rightarrow> concat (map (\<lambda>cf. case ts_field pt (fs_column cf) of
             None \<Rightarrow> []
           | Some pf \<Rightarrow> field_diffs (ts_name ct) pf cf) (ts_fields ct))) (sn_tables current)) @
     List.map_filter (\<lambda>pm. case snap_m2m_table current (m2_through pm) of
         None \<Rightarrow> None
       | Some cm \<Rightarrow>
           if \<not> m2_eq cm pm \<and> is_self_ref cm \<and> m2_src_table cm = m2_src_table pm \<and> m2m_renames pm cm = None
           then Some (SelfRefRenamedBoth pm cm) else None)
       (filter is_self_ref (sn_m2m_tables prev))"

section \<open>Warnings and suspected renames\<close>

datatype drop_warning =
    DropsColumn string string bool \<comment> \<open>table, column, also not reversible once the table has rows\<close>
  | DropsTable string
  | JunctionNotMoved string string \<comment> \<open>dropped, created over the same columns\<close>

definition irreversible_drop :: "schema_snapshot \<Rightarrow> schema_change list \<Rightarrow> schema_change \<Rightarrow> drop_warning option" where
  "irreversible_drop prev changes c =
     (case c of
        DropColumn table column \<Rightarrow>
          map_option (\<lambda>f. DropsColumn table column (\<not> fs_nullable f \<and> fs_default f = None))
            (Option.bind (snap_table prev table) (\<lambda>t. ts_field t column))
      | DropTable table \<Rightarrow> Some (DropsTable table)
      | DropM2MTable through \<Rightarrow>
          (case snap_m2m_table prev through of
             None \<Rightarrow> None
           | Some gone \<Rightarrow>
               (let key = junction_ends (m2_src_table gone) (m2_src_col gone) (m2_dst_table gone) (m2_dst_col gone)
                in case List.map_filter (\<lambda>c. case c of
                        CreateM2MTable new st sc dt dc \<Rightarrow> if junction_ends st sc dt dc = key then Some new else None
                      | _ \<Rightarrow> None) changes of
                     [] \<Rightarrow> None
                   | new # _ \<Rightarrow> Some (JunctionNotMoved through new)))
      | _ \<Rightarrow> None)"

definition irreversible_drops :: "schema_snapshot \<Rightarrow> schema_change list \<Rightarrow> drop_warning list" where
  "irreversible_drops prev changes = List.map_filter (irreversible_drop prev changes) changes"

definition column_ty :: "schema_snapshot \<Rightarrow> string \<Rightarrow> string \<Rightarrow> string option" where
  "column_ty snap table column =
     map_option fs_ty (Option.bind (snap_table snap table) (\<lambda>t. ts_field t column))"

definition suspected_renames ::
  "schema_snapshot \<Rightarrow> schema_snapshot \<Rightarrow> schema_change list \<Rightarrow> (string \<times> string \<times> string) list" where
  "suspected_renames prev current changes =
     concat (map (\<lambda>c. case c of
         DropColumn table column \<Rightarrow>
           (case column_ty prev table column of
              None \<Rightarrow> []
            | Some dropped \<Rightarrow> List.map_filter (\<lambda>a. case a of
                  AddColumn t added \<Rightarrow>
                    if t = table \<and> column_ty current t added = Some dropped then Some (table, column, added) else None
                | _ \<Rightarrow> None) changes)
       | _ \<Rightarrow> []) changes)"

definition column_set :: "table_snapshot \<Rightarrow> string set" where
  "column_set t = set (map fs_column (ts_fields t))"

definition suspected_table_renames ::
  "schema_snapshot \<Rightarrow> schema_snapshot \<Rightarrow> schema_change list \<Rightarrow> (string \<times> string) list" where
  "suspected_table_renames prev current changes =
     concat (map (\<lambda>c. case c of
         DropTable old \<Rightarrow>
           (case map_option column_set (snap_table prev old) of
              None \<Rightarrow> []
            | Some dropped \<Rightarrow> List.map_filter (\<lambda>a. case a of
                  CreateTable new \<Rightarrow>
                    if map_option column_set (snap_table current new) = Some dropped then Some (old, new) else None
                | _ \<Rightarrow> None) changes)
       | _ \<Rightarrow> []) changes)"

end
