(* ===== verification/Make.thy ===== *)
theory Make
  imports Chain Diff
begin

text \<open>
  Planning the next migration, \<open>crates/rustango/src/migrate/make.rs\<close>: \<open>plan_from\<close>, \<open>plan_scoped\<close>,
  \<open>plan_scopes\<close>, \<open>plan_system_step\<close>, the flagless tenancy run and \<open>makemigrations --merge\<close>. The
  directory listing comes in as the list of the files already there; writing a planned file appends
  it. The registry (\<open>inventory\<close>) and the clock (\<open>now\<close>) are arguments. An error carries what its
  message interpolates; a warning is a value. \<open>next_index + 1\<close> is addition on 32-bit words.
\<close>

section \<open>Results\<close>

datatype drop_and_add = Refuse | Allow

datatype make_error =
    FieldChanges "unsupported_change list"
  | FrameworkChanges "unsupported_change list"
  | UnkeyedCompositeFks "(string \<times> composite_fk_snapshot) list"
  | TableRenames "(string \<times> string) list"
  | ColumnRenames "(string \<times> string \<times> string) list"
  | Branched "string list"
  | NothingToMerge
  | NoCommonParent "string list"
  | MergeConflicts string string "merge_conflict list" \<comment> \<open>head, leaf\<close>
  | Junctions snapshot_panic
  | RelationTargets "relation_target list"

fun scope_of_model :: "model_scope \<Rightarrow> migration_scope" where
  "scope_of_model Registry = RegistryScope"
| "scope_of_model Tenant = TenantScope"

section \<open>The baseline\<close>

definition refuse_branched :: "migration list \<Rightarrow> make_error + unit" where
  "refuse_branched chain =
     (case branched_leaves chain of
        [] \<Rightarrow> Inr ()
      | branch # _ \<Rightarrow> Inl (Branched (map mg_name branch)))"

definition framework :: "string \<Rightarrow> bool" where
  "framework name = starts_with name ''rustango_''"

definition fold_in_framework_tables :: "schema_snapshot \<Rightarrow> schema_snapshot \<Rightarrow> schema_snapshot" where
  "fold_in_framework_tables into current =
     into\<lparr>sn_tables := filter (\<lambda>t. \<not> framework (ts_name t)) (sn_tables into) @
            filter (\<lambda>t. framework (ts_name t)) (sn_tables current),
          sn_m2m_tables := filter (\<lambda>m. \<not> framework (m2_through m)) (sn_m2m_tables into) @
            filter (\<lambda>m. framework (m2_through m)) (sn_m2m_tables current),
          sn_indexes := filter (\<lambda>i. \<not> framework (ix_table i)) (sn_indexes into) @
            filter (\<lambda>i. framework (ix_table i)) (sn_indexes current),
          sn_checks := filter (\<lambda>c. \<not> framework (ck_table c)) (sn_checks into) @
            filter (\<lambda>c. framework (ck_table c)) (sn_checks current)\<rparr>"

definition push_missing :: "('a \<Rightarrow> string) \<Rightarrow> 'a list \<Rightarrow> 'a list \<Rightarrow> 'a list" where
  "push_missing key into from =
     foldl (\<lambda>acc x. if list_ex (\<lambda>y. key y = key x) acc then acc else acc @ [x]) into from"

definition fold_in_missing_tables :: "schema_snapshot \<Rightarrow> schema_snapshot \<Rightarrow> schema_snapshot" where
  "fold_in_missing_tables into from =
     into\<lparr>sn_tables := push_missing ts_name (sn_tables into) (sn_tables from),
          sn_m2m_tables := push_missing m2_through (sn_m2m_tables into) (sn_m2m_tables from),
          sn_indexes := push_missing ix_name (sn_indexes into) (sn_indexes from),
          sn_checks := push_missing ck_name (sn_checks into) (sn_checks from)\<rparr>"

definition empty_snapshot :: schema_snapshot where
  "empty_snapshot = \<lparr>sn_tables = [], sn_m2m_tables = [], sn_indexes = [], sn_checks = [], sn_excludes = []\<rparr>"

definition last_snapshot :: "migration list \<Rightarrow> schema_snapshot" where
  "last_snapshot chain = (if chain = [] then empty_snapshot else effective_snapshot chain (last chain))"

section \<open>Refusals\<close>

definition refuse_unkeyed_composite_fks :: "schema_snapshot \<Rightarrow> schema_snapshot \<Rightarrow> make_error + unit" where
  "refuse_unkeyed_composite_fks prev current =
     (let bad = unkeyed_composite_fks current prev in if bad = [] then Inr () else Inl (UnkeyedCompositeFks bad))"

definition check_drops ::
  "schema_snapshot \<Rightarrow> schema_snapshot \<Rightarrow> schema_change list \<Rightarrow> drop_and_add \<Rightarrow> make_error + drop_warning list" where
  "check_drops prev current changes drops =
     (let tables = suspected_table_renames prev current changes;
          renames = suspected_renames prev current changes
      in if drops = Refuse \<and> tables \<noteq> [] then Inl (TableRenames tables)
         else if drops = Refuse \<and> renames \<noteq> [] then Inl (ColumnRenames renames)
         else Inr (irreversible_drops prev changes))"

section \<open>Names\<close>

fun auto_name_one :: "schema_change \<Rightarrow> bool \<Rightarrow> string option" where
  "auto_name_one (CreateTable t) is_first = Some (if is_first then ''initial'' else ''create_'' @ t)"
| "auto_name_one (DropTable t) is_first = Some (''drop_'' @ t)"
| "auto_name_one (AddColumn table column) is_first = Some (''add_'' @ column @ ''_to_'' @ table)"
| "auto_name_one (DropColumn table column) is_first = Some (''drop_'' @ column @ ''_from_'' @ table)"
| "auto_name_one (AlterColumnType table column from to) is_first =
     Some (''alter_'' @ column @ ''_on_'' @ table @ ''_'' @ from @ ''_to_'' @ to)"
| "auto_name_one (AlterColumnNullable table column nullable) is_first =
     Some (''make_'' @ column @ ''_on_'' @ table @ (if nullable then ''_nullable'' else ''_not_null''))"
| "auto_name_one (AlterColumnDefault table column _ _) is_first = Some (''alter_default_of_'' @ column @ ''_on_'' @ table)"
| "auto_name_one (AlterColumnMaxLength table column _ _) is_first =
     Some (''alter_max_length_of_'' @ column @ ''_on_'' @ table)"
| "auto_name_one (AlterColumnComment table column _ _) is_first = Some (''alter_comment_of_'' @ column @ ''_on_'' @ table)"
| "auto_name_one (AlterTableComment table _ _) is_first = Some (''alter_comment_on_'' @ table)"
| "auto_name_one (AlterFkOnDelete table column _ _) is_first = Some (''alter_on_delete_of_'' @ column @ ''_on_'' @ table)"
| "auto_name_one (RenameTable old new) is_first = Some (''rename_'' @ old @ ''_to_'' @ new)"
| "auto_name_one (RenameColumn table old new) is_first = Some (''rename_'' @ old @ ''_to_'' @ new @ ''_on_'' @ table)"
| "auto_name_one (CreateIndex name _ _ _ _ _ _) is_first = Some (''create_index_'' @ name)"
| "auto_name_one (DropIndex name _) is_first = Some (''drop_index_'' @ name)"
| "auto_name_one (AddCheckConstraint name _ _) is_first = Some (''add_check_'' @ name)"
| "auto_name_one (DropCheckConstraint name _) is_first = Some (''drop_check_'' @ name)"
| "auto_name_one (CreateM2MTable through _ _ _ _) is_first = Some (''create_m2m_'' @ through)"
| "auto_name_one (DropM2MTable through) is_first = Some (''drop_m2m_'' @ through)"
| "auto_name_one _ is_first = None"

definition creates_table :: "schema_change \<Rightarrow> string option" where
  "creates_table c = (case c of CreateTable t \<Rightarrow> Some t | _ \<Rightarrow> None)"

definition only_creates :: "schema_change \<Rightarrow> bool" where
  "only_creates c =
     (case c of CreateTable _ \<Rightarrow> True | CreateIndex _ _ _ _ _ _ _ \<Rightarrow> True | CreateM2MTable _ _ _ _ _ \<Rightarrow> True | _ \<Rightarrow> False)"

definition auto_name_many :: "schema_change list \<Rightarrow> bool \<Rightarrow> string" where
  "auto_name_many many is_first =
     (if is_first \<and> list_all (\<lambda>c. creates_table c \<noteq> None) many then ''initial''
      else if list_all only_creates many
      then let tables = dedup_by (=) (sort (List.map_filter creates_table many))
           in if tables = [] then ''auto''
              else if length tables \<le> 3 then ''create_'' @ join_str ''_and_'' tables
              else ''create_'' @ join_str ''_and_'' (take 3 tables) @ ''_etc''
      else ''auto'')"

definition auto_name :: "schema_change list \<Rightarrow> bool \<Rightarrow> string" where
  "auto_name changes is_first =
     (case changes of
        [c] \<Rightarrow> (case auto_name_one c is_first of Some s \<Rightarrow> s | None \<Rightarrow> auto_name_many changes is_first)
      | _ \<Rightarrow> auto_name_many changes is_first)"

definition next_index :: "migration list \<Rightarrow> u32" where
  "next_index prior =
     (if prior = [] then 1
      else case extract_index (mg_name (last prior)) of None \<Rightarrow> 1 | Some n \<Rightarrow> n + 1)"

definition file_name :: "u32 \<Rightarrow> string \<Rightarrow> string" where
  "file_name index suffix = show_nat04 (unat index) @ ''_'' @ suffix"

section \<open>Planning\<close>

definition plan_from ::
  "model_entry list \<Rightarrow> string \<Rightarrow> migration list \<Rightarrow> schema_snapshot \<Rightarrow> string option \<Rightarrow> drop_and_add \<Rightarrow> make_error + migration option" where
  "plan_from inventory now prior models name_override drops =
     (case refuse_branched prior of
        Inl e \<Rightarrow> Inl e
      | Inr _ \<Rightarrow>
          (let prev_snapshot = fold_in_framework_tables (last_snapshot prior) models;
               current = keep_unmanaged inventory models prev_snapshot;
               prev_name = (if prior = [] then None else Some (mg_name (last prior)));
               unsupported = detect_unsupported_field_changes prev_snapshot current
           in if unsupported \<noteq> [] then Inl (FieldChanges unsupported)
              else case refuse_unkeyed_composite_fks prev_snapshot current of
                     Inl e \<Rightarrow> Inl e
                   | Inr _ \<Rightarrow>
                       (let changes = detect_changes prev_snapshot current
                        in if changes = [] then Inr None
                           else case check_drops prev_snapshot current changes drops of
                                  Inl e \<Rightarrow> Inl e
                                | Inr _ \<Rightarrow>
                                    (let suffix = (case name_override of Some s \<Rightarrow> s | None \<Rightarrow> auto_name changes (prior = []))
                                     in Inr (Some \<lparr>mg_name = file_name (next_index prior) suffix, mg_created_at = now,
                                          mg_prev = prev_name, mg_atomic = True, mg_scope = migration_scope_default,
                                          mg_replaces = [], mg_merges = [], mg_snapshot = current,
                                          mg_forward = map Schema changes\<rparr>)))))"

definition plan_scoped ::
  "model_entry list \<Rightarrow> string \<Rightarrow> migration list \<Rightarrow> schema_snapshot \<Rightarrow> model_scope \<Rightarrow> migration_scope \<Rightarrow> string option
     \<Rightarrow> drop_and_add \<Rightarrow> make_error + migration option" where
  "plan_scoped inventory now prior models model_scope migration_scope name_override drops =
     (let prior_scoped = filter (\<lambda>m. mg_scope m = migration_scope) prior
      in case refuse_branched prior_scoped of
        Inl e \<Rightarrow> Inl e
      | Inr _ \<Rightarrow>
          (let in_chain = chain_membership prior_scoped;
               with_sides = foldl (\<lambda>s m. if mg_name m \<in> set in_chain then s else fold_in_missing_tables s (mg_snapshot m))
                  (last_snapshot prior_scoped) prior_scoped;
               prev_snapshot = filtered_to_scope inventory (fold_in_framework_tables with_sides models) model_scope;
               current = keep_unmanaged inventory models prev_snapshot;
               prev_name = (if prior_scoped = [] then None else Some (mg_name (last prior_scoped)));
               unsupported = detect_unsupported_field_changes prev_snapshot current
           in if unsupported \<noteq> [] then Inl (FieldChanges unsupported)
              else case refuse_unkeyed_composite_fks prev_snapshot current of
                     Inl e \<Rightarrow> Inl e
                   | Inr _ \<Rightarrow>
                       (let changes = detect_changes prev_snapshot current
                        in if changes = [] then Inr None
                           else case check_drops prev_snapshot current changes drops of
                                  Inl e \<Rightarrow> Inl e
                                | Inr _ \<Rightarrow>
                                    (let suffix = (case name_override of Some s \<Rightarrow> s | None \<Rightarrow> auto_name changes (prior_scoped = []))
                                     in Inr (Some \<lparr>mg_name = file_name (next_index prior) suffix, mg_created_at = now,
                                          mg_prev = prev_name, mg_atomic = True, mg_scope = migration_scope,
                                          mg_replaces = [], mg_merges = [], mg_snapshot = current,
                                          mg_forward = map Schema changes\<rparr>)))))"

fun plan_scopes ::
  "model_entry list \<Rightarrow> string \<Rightarrow> migration list \<Rightarrow> (model_scope \<times> schema_snapshot) list \<Rightarrow> string option \<Rightarrow> drop_and_add
     \<Rightarrow> make_error + migration option list" where
  "plan_scopes inventory now chain [] name_override drops = Inr []"
| "plan_scopes inventory now chain ((scope, current) # scopes) name_override drops =
     (case plan_scoped inventory now chain current scope (scope_of_model scope) name_override drops of
        Inl e \<Rightarrow> Inl e
      | Inr mig \<Rightarrow>
          (case plan_scopes inventory now (case mig of None \<Rightarrow> chain | Some m \<Rightarrow> chain @ [m]) scopes name_override drops of
             Inl e \<Rightarrow> Inl e
           | Inr migs \<Rightarrow> Inr (mig # migs)))"

text \<open>The framework's own chain; its tables are the subject, so nothing is folded in.\<close>

definition plan_system_step ::
  "model_entry list \<Rightarrow> string \<Rightarrow> model_scope \<Rightarrow> string option \<Rightarrow> migration list \<Rightarrow> make_error + migration option" where
  "plan_system_step inventory now scope name_override prior =
     (if scope = Registry \<and> \<not> scope_owns_system_tables inventory scope then Inr None
      else case check_registry_junctions inventory of
        Inl p \<Rightarrow> Inl (Junctions p)
      | Inr _ \<Rightarrow>
          (case from_registry_system_for_scope inventory scope of
             Inl p \<Rightarrow> Inl (Junctions p)
           | Inr current \<Rightarrow>
               (let migration_scope = scope_of_model scope;
                    prior_scoped = filter (\<lambda>m. mg_scope m = migration_scope) prior;
                    prev_snapshot = (if prior_scoped = [] then empty_snapshot else mg_snapshot (last prior_scoped));
                    prev_name = (if prior_scoped = [] then None else Some (mg_name (last prior_scoped)));
                    unsupported = detect_unsupported_field_changes prev_snapshot current
                in if unsupported \<noteq> [] then Inl (FrameworkChanges unsupported)
                   else
                     let changes = detect_changes prev_snapshot current
                     in if changes = [] then Inr None
                        else
                          let suffix = (case name_override of Some s \<Rightarrow> s | None \<Rightarrow> auto_name changes (prior_scoped = []))
                          in Inr (Some \<lparr>mg_name = file_name (next_index prior) suffix, mg_created_at = now,
                               mg_prev = prev_name, mg_atomic = True, mg_scope = migration_scope,
                               mg_replaces = [], mg_merges = [], mg_snapshot = current,
                               mg_forward = map Schema changes\<rparr>))))"

fun plan_system_steps ::
  "model_entry list \<Rightarrow> string \<Rightarrow> string option \<Rightarrow> migration list \<Rightarrow> model_scope list \<Rightarrow> make_error + (model_scope \<times> migration) list" where
  "plan_system_steps inventory now name_override sys_chain [] = Inr []"
| "plan_system_steps inventory now name_override sys_chain (scope # scopes) =
     (case plan_system_step inventory now scope name_override sys_chain of
        Inl e \<Rightarrow> Inl e
      | Inr None \<Rightarrow> plan_system_steps inventory now name_override sys_chain scopes
      | Inr (Some m) \<Rightarrow>
          (case plan_system_steps inventory now name_override (sys_chain @ [m]) scopes of
             Inl e \<Rightarrow> Inl e
           | Inr ms \<Rightarrow> Inr ((scope, m) # ms)))"

text \<open>
  \<open>make_tenancy_from\<close> on the two directories: everything is planned before the first file is
  written, so an error leaves both as they were. The result holds what was planned; the directories
  after it are the second component.
\<close>

definition make_tenancy_from ::
  "model_entry list \<Rightarrow> string \<Rightarrow> migration list \<Rightarrow> migration list \<Rightarrow> (model_scope \<times> schema_snapshot) list \<Rightarrow> string option
     \<Rightarrow> drop_and_add
     \<Rightarrow> (make_error + (model_scope \<times> migration) list \<times> (model_scope \<times> migration option) list) \<times> migration list \<times> migration list" where
  "make_tenancy_from inventory now sys_dir dir scopes name_override drops =
     (case plan_system_steps inventory now name_override sys_dir [Registry, Tenant] of
        Inl e \<Rightarrow> (Inl e, sys_dir, dir)
      | Inr system \<Rightarrow>
          (case plan_scopes inventory now dir scopes name_override drops of
             Inl e \<Rightarrow> (Inl e, sys_dir, dir)
           | Inr app \<Rightarrow>
               (Inr (system, zip (map fst scopes) app), sys_dir @ map snd system,
                dir @ List.map_filter (\<lambda>m. m) app)))"

section \<open>The models against the directory\<close>

definition check_models :: "model_entry list \<Rightarrow> make_error + unit" where
  "check_models inventory =
     (case check_registry_junctions inventory of
        Inl p \<Rightarrow> Inl (Junctions p)
      | Inr _ \<Rightarrow> (case check_relation_targets inventory of Inl ts \<Rightarrow> Inl (RelationTargets ts) | Inr _ \<Rightarrow> Inr ()))"

fun registry_scopes_from ::
  "model_entry list \<Rightarrow> model_scope list \<Rightarrow> make_error + (model_scope \<times> schema_snapshot) list" where
  "registry_scopes_from inventory [] = Inr []"
| "registry_scopes_from inventory (scope # scopes) =
     (case from_registry_for_scope inventory scope of
        Inl p \<Rightarrow> Inl (Junctions p)
      | Inr s \<Rightarrow> (case registry_scopes_from inventory scopes of Inl e \<Rightarrow> Inl e | Inr ss \<Rightarrow> Inr ((scope, s) # ss)))"

definition registry_scopes :: "model_entry list \<Rightarrow> make_error + (model_scope \<times> schema_snapshot) list" where
  "registry_scopes inventory = registry_scopes_from inventory [Registry, Tenant]"

definition planned_migrations ::
  "model_entry list \<Rightarrow> string \<Rightarrow> migration list \<Rightarrow> bool \<Rightarrow> make_error + migration list" where
  "planned_migrations inventory now prior tenancy =
     (case check_models inventory of
        Inl e \<Rightarrow> Inl e
      | Inr _ \<Rightarrow>
          if \<not> tenancy
          then (case from_registry inventory of
                  Inl p \<Rightarrow> Inl (Junctions p)
                | Inr current \<Rightarrow>
                    (case plan_from inventory now prior current None Allow of
                       Inl e \<Rightarrow> Inl e
                     | Inr mig \<Rightarrow> Inr (case mig of None \<Rightarrow> [] | Some m \<Rightarrow> [m])))
          else (case registry_scopes inventory of
                  Inl e \<Rightarrow> Inl e
                | Inr scopes \<Rightarrow>
                    (case plan_scopes inventory now prior scopes None Allow of
                       Inl e \<Rightarrow> Inl e
                     | Inr migs \<Rightarrow> Inr (List.map_filter (\<lambda>m. m) migs))))"

fun any_scope_ahead :: "model_entry list \<Rightarrow> string \<Rightarrow> migration list \<Rightarrow> model_scope list \<Rightarrow> make_error + bool" where
  "any_scope_ahead inventory now prior [] = Inr False"
| "any_scope_ahead inventory now prior (scope # scopes) =
     (case from_registry_for_scope inventory scope of
        Inl p \<Rightarrow> Inl (Junctions p)
      | Inr current \<Rightarrow>
          (case plan_scoped inventory now prior current scope (scope_of_model scope) None Allow of
             Inl e \<Rightarrow> Inl e
           | Inr (Some _) \<Rightarrow> Inr True
           | Inr None \<Rightarrow> any_scope_ahead inventory now prior scopes))"

definition models_ahead_of :: "model_entry list \<Rightarrow> string \<Rightarrow> migration list \<Rightarrow> bool \<Rightarrow> make_error + bool" where
  "models_ahead_of inventory now prior scoped =
     (case check_models inventory of
        Inl e \<Rightarrow> Inl e
      | Inr _ \<Rightarrow>
          if \<not> scoped
          then (case from_registry inventory of
                  Inl p \<Rightarrow> Inl (Junctions p)
                | Inr current \<Rightarrow>
                    (case plan_from inventory now prior current None Allow of
                       Inl e \<Rightarrow> Inl e
                     | Inr mig \<Rightarrow> Inr (mig \<noteq> None)))
          else any_scope_ahead inventory now prior [Registry, Tenant])"

section \<open>Merging branches\<close>

fun merge_others ::
  "migration list \<Rightarrow> migration \<Rightarrow> schema_snapshot \<Rightarrow> schema_snapshot \<Rightarrow> migration list \<Rightarrow> make_error + schema_snapshot" where
  "merge_others chain head base snapshot [] = Inr snapshot"
| "merge_others chain head base snapshot (leaf # others) =
     (case merge_branch_result snapshot base (effective_snapshot chain leaf) of
        Inl conflicts \<Rightarrow> Inl (MergeConflicts (mg_name head) (mg_name leaf) conflicts)
      | Inr snapshot' \<Rightarrow> merge_others chain head base snapshot' others)"

definition common_base :: "migration list \<Rightarrow> migration list \<Rightarrow> schema_snapshot" where
  "common_base chain branch =
     (let paths = map (ancestry chain) branch
      in case List.find (\<lambda>a. list_all (\<lambda>p. list_ex (\<lambda>m. mg_name m = mg_name a) p) (tl paths)) (hd paths) of
           None \<Rightarrow> empty_snapshot
         | Some a \<Rightarrow> effective_snapshot chain a)"

definition max_index :: "migration list \<Rightarrow> u32 option" where
  "max_index prior =
     (case List.map_filter (\<lambda>m. extract_index (mg_name m)) prior of [] \<Rightarrow> None | is \<Rightarrow> Some (Max (set is)))"

definition make_merge_migration :: "string \<Rightarrow> migration list \<Rightarrow> make_error + migration option" where
  "make_merge_migration now prior =
     (if prior = [] then Inl NothingToMerge
      else case branched_leaves prior of
        [] \<Rightarrow>
          (let heads = map mg_name (leaves prior)
           in if length heads < 2 then Inr None else Inl (NoCommonParent heads))
      | branch # _ \<Rightarrow>
          (let base = common_base prior branch; head = last branch; others = butlast branch
           in case merge_others prior head base (effective_snapshot prior head) others of
                Inl e \<Rightarrow> Inl e
              | Inr snapshot \<Rightarrow>
                  (let index = (case max_index prior of None \<Rightarrow> 1 | Some n \<Rightarrow> n + 1)
                   in Inr (Some \<lparr>mg_name = file_name index ''merge'', mg_created_at = now, mg_prev = Some (mg_name head),
                        mg_atomic = True, mg_scope = mg_scope head, mg_replaces = [], mg_merges = map mg_name others,
                        mg_snapshot = snapshot, mg_forward = []\<rparr>))))"

end
