(* ===== verification/Rebuild.thy ===== *)
theory Rebuild
  imports Diff
begin

text \<open>
  The planning half of \<open>crates/rustango/src/migrate/rebuild.rs\<close>: following names through the renames
  of an operation list (\<open>name_at_end\<close>, \<open>columns_at_end\<close>), and reconstructing the shape a table has in
  the middle of a migration from the snapshot at its end (\<open>shape_at\<close>, \<open>snapshot_at\<close>). The loops with
  mutable locals are functions that carry the locals. Executing a rebuild (the SQLite connection and
  the statements) is not modelled.
\<close>

section \<open>The rebuild record\<close>

record table_rebuild =
  tr_target :: table_snapshot
  tr_checks :: "check_snapshot list"
  tr_dropping :: "string list"
  tr_copy :: "(string \<times> string) list"
  tr_unique_drop :: "(string \<times> string list) option"

definition rebuild_new :: "table_snapshot \<Rightarrow> check_snapshot list \<Rightarrow> table_rebuild" where
  "rebuild_new target checks =
     \<lparr>tr_target = target, tr_checks = checks, tr_dropping = [], tr_copy = [], tr_unique_drop = None\<rparr>"

definition dropping_unique :: "table_rebuild \<Rightarrow> string \<Rightarrow> string list \<Rightarrow> table_rebuild" where
  "dropping_unique r column keep = r\<lparr>tr_unique_drop := Some (column, keep)\<rparr>"

definition copy_as :: "table_rebuild \<Rightarrow> string \<Rightarrow> string \<Rightarrow> table_rebuild" where
  "copy_as r column expr = r\<lparr>tr_copy := tr_copy r @ [(column, expr)]\<rparr>"

definition rebuild_dropping :: "table_rebuild \<Rightarrow> string \<Rightarrow> table_rebuild" where
  "rebuild_dropping r column = r\<lparr>tr_dropping := tr_dropping r @ [column]\<rparr>"

datatype rebuild_error =
    NoSnapshotEntry string string \<comment> \<open>name, table to rebuild\<close>
  | AlteredNotInSnapshot string string \<comment> \<open>table, column\<close>
  | RebuiltBeforeLater string schema_change \<comment> \<open>table, later change\<close>

text \<open>\<open>alters_by_rebuild\<close> is the answer of the dialect.\<close>

definition rebuild_needed :: "bool \<Rightarrow> schema_snapshot \<Rightarrow> string \<Rightarrow> (rebuild_error + table_rebuild) option" where
  "rebuild_needed alters_by_rebuild after table =
     (if alters_by_rebuild
      then Some (let checks = filter (\<lambda>c. ck_table c = table) (sn_checks after)
                 in case snap_table after table of
                      None \<Rightarrow> Inl (NoSnapshotEntry table table)
                    | Some t \<Rightarrow> Inr (rebuild_new t checks))
      else None)"

definition rebuild_table :: "table_rebuild \<Rightarrow> string" where
  "rebuild_table r = ts_name (tr_target r)"

section \<open>Names through renames\<close>

definition rename_name :: "string \<Rightarrow> operation \<Rightarrow> string" where
  "rename_name name op =
     (case op of Schema (RenameTable old new) \<Rightarrow> if old = name then new else name | _ \<Rightarrow> name)"

definition name_at_end :: "string \<Rightarrow> operation list \<Rightarrow> string" where
  "name_at_end table later = foldl rename_name table later"

definition rename_columns :: "string \<times> string list \<Rightarrow> operation \<Rightarrow> string \<times> string list" where
  "rename_columns st op =
     (let (name, columns) = st
      in case op of
           Schema (RenameTable old new) \<Rightarrow> (if old = name then new else name, columns)
         | Schema (RenameColumn table old new) \<Rightarrow>
             (name, if table = name then map (swap_str old new) columns else columns)
         | _ \<Rightarrow> (name, columns))"

definition columns_at_end :: "string \<Rightarrow> string list \<Rightarrow> operation list \<Rightarrow> string list" where
  "columns_at_end table columns later = snd (foldl rename_columns (table, columns) later)"

section \<open>The shape of a table before later operations\<close>

text \<open>The later schema changes, each with the table's name when it runs.\<close>

fun named_changes :: "string \<Rightarrow> operation list \<Rightarrow> (schema_change \<times> string) list" where
  "named_changes name [] = []"
| "named_changes name (Schema change # ops) =
     (change, name) # named_changes (rename_name name (Schema change)) ops"
| "named_changes name (Data _ # ops) = named_changes name ops"
| "named_changes name (Callback _ # ops) = named_changes name ops"

definition with_field ::
  "table_snapshot \<Rightarrow> string \<Rightarrow> (field_snapshot \<Rightarrow> field_snapshot) \<Rightarrow> rebuild_error + table_snapshot" where
  "with_field t column g =
     (if ts_field t column = None then Inl (AlteredNotInSnapshot (ts_name t) column)
      else Inr (t\<lparr>ts_fields := update_first (\<lambda>f. fs_column f = column) g (ts_fields t)\<rparr>))"

text \<open>One later change of the table undone.\<close>

fun undo_shape :: "string \<Rightarrow> table_snapshot \<Rightarrow> schema_change \<Rightarrow> rebuild_error + table_snapshot" where
  "undo_shape table t (AddColumn _ column) =
     Inr (t\<lparr>ts_fields := filter (\<lambda>f. fs_column f \<noteq> column) (ts_fields t)\<rparr>)"
| "undo_shape table t (RenameColumn _ old new) =
     Inr (t\<lparr>ts_fields := update_first (\<lambda>f. fs_column f = new) (\<lambda>f. f\<lparr>fs_column := old\<rparr>) (ts_fields t),
            ts_composite_fks := map (\<lambda>c. c\<lparr>cf_from := map (swap_str new old) (cf_from c)\<rparr>) (ts_composite_fks t)\<rparr>)"
| "undo_shape table t (AlterColumnType _ column from _) = with_field t column (\<lambda>f. f\<lparr>fs_ty := from\<rparr>)"
| "undo_shape table t (AlterColumnNullable _ column nullable) =
     with_field t column (\<lambda>f. f\<lparr>fs_nullable := \<not> nullable\<rparr>)"
| "undo_shape table t (AlterColumnDefault _ column from _) =
     with_field t column (\<lambda>f. if fs_nullable f \<or> from \<noteq> None then f\<lparr>fs_default := from\<rparr> else f)"
| "undo_shape table t (AlterColumnMaxLength _ column from _) = with_field t column (\<lambda>f. f\<lparr>fs_max_length := from\<rparr>)"
| "undo_shape table t (AlterColumnComment _ column from _) = with_field t column (\<lambda>f. f\<lparr>fs_db_comment := from\<rparr>)"
| "undo_shape table t (AlterTableComment _ from _) = Inr (t\<lparr>ts_db_table_comment := from\<rparr>)"
| "undo_shape table t (AlterColumnUnique _ column unique) = with_field t column (\<lambda>f. f\<lparr>fs_unique := \<not> unique\<rparr>)"
| "undo_shape table t (AlterFkOnDelete _ column from _) =
     Inr (t\<lparr>ts_fields := update_first (\<lambda>f. fs_column f = column)
              (\<lambda>f. f\<lparr>fs_fk := map_option (\<lambda>r. r\<lparr>rs_on_delete := from\<rparr>) (fs_fk f)\<rparr>) (ts_fields t)\<rparr>)"
| "undo_shape table t (AddCompositeFk _ name _ _ _) =
     Inr (t\<lparr>ts_composite_fks := filter (\<lambda>c. cf_name c \<noteq> name) (ts_composite_fks t)\<rparr>)"
| "undo_shape table t (DropColumn _ _) = Inr t"
| "undo_shape table t (DropCompositeFk _ _) = Inr t"
| "undo_shape table t (AddCheckConstraint _ _ _) = Inr t"
| "undo_shape table t (DropCheckConstraint _ _) = Inr t"
| "undo_shape table t (RenameTable _ _) = Inr t"
| "undo_shape table t (CreateIndex _ _ _ _ _ _ _) = Inr t"
| "undo_shape table t (DropIndex _ _) = Inr t"
| "undo_shape table t (AddExclusionConstraint _ _ _ _ _) = Inr t"
| "undo_shape table t (DropExclusionConstraint _ _) = Inr t"
| "undo_shape table t other = Inl (RebuiltBeforeLater table other)"

fun undo_shapes ::
  "string \<Rightarrow> table_snapshot \<Rightarrow> (schema_change \<times> string) list \<Rightarrow> rebuild_error + table_snapshot" where
  "undo_shapes table t [] = Inr t"
| "undo_shapes table t ((change, name) # rest) =
     (if change_table change \<noteq> name then undo_shapes table t rest
      else case undo_shape table t change of
             Inl e \<Rightarrow> Inl e
           | Inr t' \<Rightarrow> undo_shapes table t' rest)"

definition shape_at ::
  "string \<Rightarrow> operation list \<Rightarrow> schema_snapshot \<Rightarrow> rebuild_error + (table_snapshot \<times> string)" where
  "shape_at table later after =
     (let name = name_at_end table later
      in case snap_table after name of
           None \<Rightarrow> Inl (NoSnapshotEntry name table)
         | Some t \<Rightarrow>
             (case undo_shapes table (t\<lparr>ts_name := table\<rparr>) (rev (named_changes table later)) of
                Inl e \<Rightarrow> Inl e
              | Inr t' \<Rightarrow> Inr (t', name)))"

section \<open>The snapshot before later operations\<close>

text \<open>\<open>undo_target_rename\<close>: the target and its columns with the rename undone, and whether it applied.\<close>

definition undo_target_rename ::
  "schema_change \<Rightarrow> string \<times> string list \<Rightarrow> (string \<times> string list) \<times> bool" where
  "undo_target_rename change r =
     (let (to, on) = r
      in case change of
           RenameTable old new \<Rightarrow> if to = new then ((old, on), True) else ((to, on), False)
         | RenameColumn table old new \<Rightarrow>
             if table = to then ((to, map (swap_str new old) on), new \<in> set on) else ((to, on), False)
         | _ \<Rightarrow> ((to, on), False))"

definition undo_target_field :: "schema_change \<Rightarrow> field_snapshot \<Rightarrow> field_snapshot \<times> bool" where
  "undo_target_field change f =
     (case fs_fk f of
        None \<Rightarrow> (f, False)
      | Some r \<Rightarrow>
          (let ((to, on), hit) = undo_target_rename change (rs_to r, [rs_on r])
           in (f\<lparr>fs_fk := Some (r\<lparr>rs_to := to, rs_on := hd on\<rparr>)\<rparr>, hit)))"

definition undo_target_fk :: "schema_change \<Rightarrow> composite_fk_snapshot \<Rightarrow> composite_fk_snapshot \<times> bool" where
  "undo_target_fk change c =
     (let ((to, on), hit) = undo_target_rename change (cf_to c, cf_on c)
      in (c\<lparr>cf_to := to, cf_on := on\<rparr>, hit))"

definition undo_targets :: "table_snapshot \<times> bool \<Rightarrow> operation \<Rightarrow> table_snapshot \<times> bool" where
  "undo_targets st op =
     (let (shape, renamed) = st
      in case op of
           Schema change \<Rightarrow>
             (let fields = map (undo_target_field change) (ts_fields shape);
                  fks = map (undo_target_fk change) (ts_composite_fks shape)
              in (shape\<lparr>ts_fields := map fst fields, ts_composite_fks := map fst fks\<rparr>,
                  renamed \<or> list_ex snd fields \<or> list_ex snd fks))
         | _ \<Rightarrow> (shape, renamed))"

definition added_check :: "operation list \<Rightarrow> string \<Rightarrow> bool" where
  "added_check later name = list_ex (\<lambda>op. case op of Schema (AddCheckConstraint n _ _) \<Rightarrow> n = name | _ \<Rightarrow> False) later"

definition added_index :: "operation list \<Rightarrow> string \<Rightarrow> bool" where
  "added_index later name = list_ex (\<lambda>op. case op of Schema (CreateIndex n _ _ _ _ _ _) \<Rightarrow> n = name | _ \<Rightarrow> False) later"

definition snapshot_at ::
  "string \<Rightarrow> operation list \<Rightarrow> schema_snapshot \<Rightarrow> rebuild_error + (schema_snapshot \<times> bool)" where
  "snapshot_at table later after =
     (case shape_at table later after of
        Inl e \<Rightarrow> Inl e
      | Inr (shape0, final) \<Rightarrow>
          (let (shape, renamed) = foldl undo_targets (shape0, final \<noteq> table) (rev later)
           in Inr (after\<lparr>
                sn_tables := filter (\<lambda>t. ts_name t \<noteq> table) (sn_tables after) @ [shape],
                sn_checks := map (\<lambda>c. if ck_table c = final then c\<lparr>ck_table := table\<rparr> else c)
                  (filter (\<lambda>c. \<not> added_check later (ck_name c)) (sn_checks after)),
                sn_indexes := map (\<lambda>i. if ix_table i = final then i\<lparr>ix_table := table\<rparr> else i)
                  (filter (\<lambda>i. \<not> added_index later (ix_name i)) (sn_indexes after))\<rparr>,
              renamed)))"

section \<open>Lemmas\<close>

lemma name_at_end_append: "name_at_end t (xs @ ys) = name_at_end (name_at_end t xs) ys"
  by (simp add: name_at_end_def)

lemma fst_rename_columns: "fst (foldl rename_columns (t, cs) ops) = name_at_end t ops"
proof (induction ops arbitrary: t cs)
  case (Cons op ops)
  have "rename_columns (t, cs) op = (rename_name t op, snd (rename_columns (t, cs) op))"
    by (simp add: rename_columns_def rename_name_def split: operation.split schema_change.split)
  with Cons show ?case by (metis foldl_Cons name_at_end_def)
qed (simp add: name_at_end_def)

lemma columns_at_end_append:
  "columns_at_end t cs (xs @ ys) = columns_at_end (name_at_end t xs) (columns_at_end t cs xs) ys"
  using fst_rename_columns [of t cs xs] by (simp add: columns_at_end_def) (metis prod.collapse)

lemma length_columns_at_end [simp]: "length (columns_at_end t cs ops) = length cs"
proof -
  have "length (snd (foldl rename_columns st ops)) = length (snd st)" for st
    by (induction ops arbitrary: st)
      (auto simp: rename_columns_def Let_def split: operation.split schema_change.split prod.splits)
  then show ?thesis by (simp add: columns_at_end_def)
qed

end
