(* ===== verification/Catalog.thy ===== *)
theory Catalog
  imports Diff
begin

text \<open>
  The abstract specification the migration engine is measured against: the catalog of a database,
  and what each \<open>SchemaChange\<close> does to it. A catalog maps the key of an object (a table, a column,
  an index, \dots) to its definition. \<open>catalog_of\<close> is what a snapshot says the database holds: it
  drops what only Rust sees (\<open>model\<close> and field names) and compares an \<open>ON DELETE\<close> action the way the
  database does. \<open>change_step\<close> runs one operation: it fails when an object the operation needs is
  missing, or when the name it creates is taken, as the DDL does. Like the renderers, the operations
  that only name a table or column read its definition from the migration's own snapshot.
\<close>

section \<open>Catalogs\<close>

datatype obj_key =
    KTable string
  | KColumn string string \<comment> \<open>table, column\<close>
  | KCompositeFk string string \<comment> \<open>table, constraint\<close>
  | KIndex string
  | KCheck string
  | KExclude string
  | KJunction string

record column =
  co_ty :: string
  co_nullable :: bool
  co_primary_key :: bool
  co_max_length :: "u32 option"
  co_min :: "i64 option"
  co_max :: "i64 option"
  co_default :: "string option"
  co_auto :: bool
  co_unique :: bool
  co_ci :: bool
  co_generated_as :: "string option"
  co_comment :: "string option"
  co_fk :: "((string \<times> string \<times> string) \<times> string) option"
    \<comment> \<open>kind, target table, target column; the action in lower case\<close>

datatype obj =
    OTable "string option" \<comment> \<open>comment\<close>
  | OColumn column
  | OCompositeFk string "string list" "string list" \<comment> \<open>to, from, on\<close>
  | OIndex string "string list" bool string "string option" "string list"
      \<comment> \<open>table, columns, unique, method, where_clause, include\<close>
  | OCheck string string \<comment> \<open>table, expr\<close>
  | OExclude string string "(string \<times> string) list" "string option"
      \<comment> \<open>table, using, elements, where_clause\<close>
  | OJunction "(string \<times> string) list" \<comment> \<open>the two ends, sorted\<close>

type_synonym catalog = "obj_key \<Rightarrow> obj option"

definition norm_action :: "string option \<Rightarrow> string" where
  "norm_action a = map ascii_lower (case a of None \<Rightarrow> ''NO ACTION'' | Some s \<Rightarrow> s)"

definition column_of :: "field_snapshot \<Rightarrow> column" where
  "column_of f =
     \<lparr>co_ty = fs_ty f, co_nullable = fs_nullable f, co_primary_key = fs_primary_key f,
      co_max_length = fs_max_length f, co_min = fs_min f, co_max = fs_max f,
      co_default = fs_default f, co_auto = fs_auto f, co_unique = fs_unique f,
      co_ci = (fs_ty f = ''string'' \<and> fs_case_insensitive f), co_generated_as = fs_generated_as f,
      co_comment = fs_db_comment f,
      co_fk = map_option (\<lambda>r. (fk_identity r, norm_action (rs_on_delete r))) (fs_fk f)\<rparr>"

definition index_obj :: "index_snapshot \<Rightarrow> obj" where
  "index_obj i = OIndex (ix_table i) (ix_columns i) (ix_unique i) (ix_method i) (ix_where_clause i) (ix_include i)"

definition check_obj :: "check_snapshot \<Rightarrow> obj" where
  "check_obj c = OCheck (ck_table c) (ck_expr c)"

definition exclude_obj :: "exclusion_snapshot \<Rightarrow> obj" where
  "exclude_obj x = OExclude (ex_table x) (ex_using x) (ex_elements x) (ex_where_clause x)"

definition junction_obj :: "m2m_table_snapshot \<Rightarrow> obj" where
  "junction_obj m = OJunction (junction_ends (m2_src_table m) (m2_src_col m) (m2_dst_table m) (m2_dst_col m))"

definition composite_fk_obj :: "composite_fk_snapshot \<Rightarrow> obj" where
  "composite_fk_obj c = OCompositeFk (cf_to c) (cf_from c) (cf_on c)"

definition snap_field :: "schema_snapshot \<Rightarrow> string \<Rightarrow> string \<Rightarrow> field_snapshot option" where
  "snap_field s t c = Option.bind (snap_table s t) (\<lambda>ts. ts_field ts c)"

fun catalog_of :: "schema_snapshot \<Rightarrow> catalog" where
  "catalog_of s (KTable t) = map_option (\<lambda>ts. OTable (ts_db_table_comment ts)) (snap_table s t)"
| "catalog_of s (KColumn t c) = map_option (\<lambda>f. OColumn (column_of f)) (snap_field s t c)"
| "catalog_of s (KCompositeFk t n) =
     map_option composite_fk_obj (Option.bind (snap_table s t) (\<lambda>ts. ts_composite_fk ts n))"
| "catalog_of s (KIndex n) = map_option index_obj (snap_index s n)"
| "catalog_of s (KCheck n) = map_option check_obj (snap_check s n)"
| "catalog_of s (KExclude n) = map_option exclude_obj (snap_exclude s n)"
| "catalog_of s (KJunction n) = map_option junction_obj (snap_m2m_table s n)"

section \<open>What an operation needs and does\<close>

fun owner :: "obj_key \<Rightarrow> string option" where
  "owner (KTable t) = Some t"
| "owner (KColumn t _) = Some t"
| "owner (KCompositeFk t _) = Some t"
| "owner _ = None"

fun obj_on :: "obj \<Rightarrow> string option" where
  "obj_on (OIndex t _ _ _ _ _) = Some t"
| "obj_on (OCheck t _) = Some t"
| "obj_on (OExclude t _ _ _) = Some t"
| "obj_on _ = None"

definition map_column :: "(column \<Rightarrow> column) \<Rightarrow> obj option \<Rightarrow> obj option" where
  "map_column g v = (case v of Some (OColumn c) \<Rightarrow> Some (OColumn (g c)) | _ \<Rightarrow> v)"

definition rename_end :: "string \<Rightarrow> string \<Rightarrow> obj option \<Rightarrow> obj option" where
  "rename_end old new v =
     (case v of
        Some (OJunction es) \<Rightarrow> Some (OJunction (sort (map (\<lambda>(t, c). (t, swap_str old new c)) es)))
      | _ \<Rightarrow> v)"

text \<open>
  The keys an operation looks at before it runs, and what it needs to find there. A table and a
  junction share one namespace. A dropped index, CHECK or EXCLUDE constraint is named with the table it is on.
\<close>

fun op_keys :: "schema_change \<Rightarrow> obj_key list" where
  "op_keys (CreateTable t) = [KTable t, KJunction t]"
| "op_keys (DropTable t) = [KTable t]"
| "op_keys (AddColumn t c) = [KTable t, KColumn t c]"
| "op_keys (DropColumn t c) = [KColumn t c]"
| "op_keys (AlterColumnType t c _ _) = [KColumn t c]"
| "op_keys (AlterColumnNullable t c _) = [KColumn t c]"
| "op_keys (AlterColumnDefault t c _ _) = [KColumn t c]"
| "op_keys (AlterColumnMaxLength t c _ _) = [KColumn t c]"
| "op_keys (AlterColumnComment t c _ _) = [KColumn t c]"
| "op_keys (AlterTableComment t _ _) = [KTable t]"
| "op_keys (RenameTable _ _) = []"
| "op_keys (RenameColumn t _ _) = [KJunction t]"
| "op_keys (AlterColumnUnique t c _) = [KColumn t c]"
| "op_keys (AlterFkOnDelete t c _ _) = [KColumn t c]"
| "op_keys (CreateIndex n t _ _ _ _ _) = [KIndex n, KTable t]"
| "op_keys (DropIndex n _) = [KIndex n]"
| "op_keys (AddCheckConstraint n t _) = [KCheck n, KTable t]"
| "op_keys (DropCheckConstraint n _) = [KCheck n]"
| "op_keys (AddExclusionConstraint n t _ _ _) = [KExclude n, KTable t]"
| "op_keys (DropExclusionConstraint n _) = [KExclude n]"
| "op_keys (CreateM2MTable n _ _ _ _) = [KJunction n, KTable n]"
| "op_keys (DropM2MTable n) = [KJunction n]"
| "op_keys (AddCompositeFk t n _ _ _) = [KTable t, KCompositeFk t n]"
| "op_keys (DropCompositeFk t n) = [KCompositeFk t n]"

definition has_fk :: "obj option \<Rightarrow> bool" where
  "has_fk v = (case v of Some (OColumn c) \<Rightarrow> co_fk c \<noteq> None | _ \<Rightarrow> False)"

definition can_rename_end :: "string \<Rightarrow> string \<Rightarrow> obj option \<Rightarrow> bool" where
  "can_rename_end old new v =
     (case v of Some (OJunction es) \<Rightarrow> old \<in> snd ` set es \<and> new \<notin> snd ` set es | _ \<Rightarrow> False)"

fun ready :: "schema_change \<Rightarrow> obj_key \<Rightarrow> obj option \<Rightarrow> bool" where
  "ready (CreateTable _) _ v = (v = None)"
| "ready (AddColumn _ _) k v = (case k of KTable _ \<Rightarrow> v \<noteq> None | _ \<Rightarrow> v = None)"
| "ready (AlterFkOnDelete _ _ _ _) _ v = has_fk v"
| "ready (RenameColumn _ old new) _ v = can_rename_end old new v"
| "ready (CreateIndex _ _ _ _ _ _ _) k v = (case k of KTable _ \<Rightarrow> v \<noteq> None | _ \<Rightarrow> v = None)"
| "ready (DropIndex _ t) _ v = (Option.bind v obj_on = Some t)"
| "ready (AddCheckConstraint _ _ _) k v = (case k of KTable _ \<Rightarrow> v \<noteq> None | _ \<Rightarrow> v = None)"
| "ready (DropCheckConstraint _ t) _ v = (Option.bind v obj_on = Some t)"
| "ready (AddExclusionConstraint _ _ _ _ _) k v = (case k of KTable _ \<Rightarrow> v \<noteq> None | _ \<Rightarrow> v = None)"
| "ready (DropExclusionConstraint _ t) _ v = (Option.bind v obj_on = Some t)"
| "ready (CreateM2MTable _ _ _ _ _) _ v = (v = None)"
| "ready (AddCompositeFk _ _ _ _ _) k v = (case k of KTable _ \<Rightarrow> v \<noteq> None | _ \<Rightarrow> v = None)"
| "ready _ _ v = (v \<noteq> None)"

text \<open>
  The effect of an operation on one object. A dropped table takes its columns, its composite keys
  and what is defined on it along. A type change writes the column's new default and collation too.
\<close>

fun obj_effect :: "schema_snapshot \<Rightarrow> schema_change \<Rightarrow> obj_key \<Rightarrow> obj option \<Rightarrow> obj option" where
  "obj_effect tgt (CreateTable t) k v = (if owner k = Some t then catalog_of tgt k else v)"
| "obj_effect tgt (DropTable t) k v =
     (if owner k = Some t \<or> k = KJunction t \<or> owner k = None \<and> Option.bind v obj_on = Some t then None else v)"
| "obj_effect tgt (AddColumn t c) k v = (if k = KColumn t c then catalog_of tgt k else v)"
| "obj_effect tgt (DropColumn t c) k v = (if k = KColumn t c then None else v)"
| "obj_effect tgt (AlterColumnType t c _ ty) k v =
     (if k = KColumn t c
      then map_column (\<lambda>col. case snap_field tgt t c of
             None \<Rightarrow> col\<lparr>co_ty := ty\<rparr>
           | Some f \<Rightarrow> col\<lparr>co_ty := ty, co_default := fs_default f,
                         co_ci := (ty = ''string'' \<and> fs_case_insensitive f)\<rparr>) v
      else v)"
| "obj_effect tgt (AlterColumnNullable t c b) k v =
     (if k = KColumn t c then map_column (\<lambda>col. col\<lparr>co_nullable := b\<rparr>) v else v)"
| "obj_effect tgt (AlterColumnDefault t c _ d) k v =
     (if k = KColumn t c then map_column (\<lambda>col. col\<lparr>co_default := d\<rparr>) v else v)"
| "obj_effect tgt (AlterColumnMaxLength t c _ n) k v =
     (if k = KColumn t c then map_column (\<lambda>col. col\<lparr>co_max_length := n\<rparr>) v else v)"
| "obj_effect tgt (AlterColumnComment t c _ s) k v =
     (if k = KColumn t c then map_column (\<lambda>col. col\<lparr>co_comment := s\<rparr>) v else v)"
| "obj_effect tgt (AlterTableComment t _ s) k v = (if k = KTable t then Some (OTable s) else v)"
| "obj_effect tgt (RenameTable _ _) k v = v"
| "obj_effect tgt (RenameColumn t old new) k v = (if k = KJunction t then rename_end old new v else v)"
| "obj_effect tgt (AlterColumnUnique t c b) k v =
     (if k = KColumn t c then map_column (\<lambda>col. col\<lparr>co_unique := b\<rparr>) v else v)"
| "obj_effect tgt (AlterFkOnDelete t c _ a) k v =
     (if k = KColumn t c
      then map_column (\<lambda>col. col\<lparr>co_fk := map_option (\<lambda>(i, _). (i, norm_action a)) (co_fk col)\<rparr>) v else v)"
| "obj_effect tgt (CreateIndex n t cs u m w i) k v = (if k = KIndex n then Some (OIndex t cs u m w i) else v)"
| "obj_effect tgt (DropIndex n _) k v = (if k = KIndex n then None else v)"
| "obj_effect tgt (AddCheckConstraint n t e) k v = (if k = KCheck n then Some (OCheck t e) else v)"
| "obj_effect tgt (DropCheckConstraint n _) k v = (if k = KCheck n then None else v)"
| "obj_effect tgt (AddExclusionConstraint n t u es w) k v =
     (if k = KExclude n then Some (OExclude t u es w) else v)"
| "obj_effect tgt (DropExclusionConstraint n _) k v = (if k = KExclude n then None else v)"
| "obj_effect tgt (CreateM2MTable n st sc dt dc) k v =
     (if k = KJunction n then Some (OJunction (junction_ends st sc dt dc)) else v)"
| "obj_effect tgt (DropM2MTable n) k v = (if k = KJunction n then None else v)"
| "obj_effect tgt (AddCompositeFk t n to from on) k v =
     (if k = KCompositeFk t n then Some (OCompositeFk to from on) else v)"
| "obj_effect tgt (DropCompositeFk t n) k v = (if k = KCompositeFk t n then None else v)"

text \<open>
  Renaming a table or a column of a table moves the keys, and what refers to the old name by name
  follows. A CHECK expression is text, and stays.
\<close>

fun key_as :: "string \<Rightarrow> obj_key \<Rightarrow> obj_key" where
  "key_as t (KTable _) = KTable t"
| "key_as t (KColumn _ c) = KColumn t c"
| "key_as t (KCompositeFk _ n) = KCompositeFk t n"
| "key_as t (KJunction _) = KJunction t"
| "key_as t k = k"

fun key_table :: "obj_key \<Rightarrow> string option" where
  "key_table (KJunction t) = Some t"
| "key_table k = owner k"

fun rename_table_obj :: "string \<Rightarrow> string \<Rightarrow> obj \<Rightarrow> obj" where
  "rename_table_obj old new (OColumn c) =
     OColumn (c\<lparr>co_fk := map_option (\<lambda>((kind, to, on), a). ((kind, swap_str old new to, on), a)) (co_fk c)\<rparr>)"
| "rename_table_obj old new (OCompositeFk to from on) = OCompositeFk (swap_str old new to) from on"
| "rename_table_obj old new (OIndex t cs u m w i) = OIndex (swap_str old new t) cs u m w i"
| "rename_table_obj old new (OCheck t e) = OCheck (swap_str old new t) e"
| "rename_table_obj old new (OExclude t u es w) = OExclude (swap_str old new t) u es w"
| "rename_table_obj old new (OJunction es) = OJunction (sort (map (\<lambda>(t, c). (swap_str old new t, c)) es))"
| "rename_table_obj old new (OTable c) = OTable c"

definition rename_table_effect :: "string \<Rightarrow> string \<Rightarrow> catalog \<Rightarrow> catalog" where
  "rename_table_effect old new cat k =
     (if key_table k = Some old \<and> old \<noteq> new then None
      else map_option (rename_table_obj old new) (cat (if key_table k = Some new then key_as old k else k)))"

fun rename_column_obj :: "string \<Rightarrow> string \<Rightarrow> string \<Rightarrow> obj_key \<Rightarrow> obj \<Rightarrow> obj" where
  "rename_column_obj t old new k (OColumn c) =
     OColumn (c\<lparr>co_fk := map_option (\<lambda>((kind, to, on), a).
       ((kind, to, if to = t then swap_str old new on else on), a)) (co_fk c)\<rparr>)"
| "rename_column_obj t old new k (OCompositeFk to from on) =
     OCompositeFk to (if owner k = Some t then map (swap_str old new) from else from)
       (if to = t then map (swap_str old new) on else on)"
| "rename_column_obj t old new k (OIndex t' cs u m w i) =
     (if t' = t then OIndex t' (map (swap_str old new) cs) u m w (map (swap_str old new) i)
      else OIndex t' cs u m w i)"
| "rename_column_obj t old new k (OExclude t' u es w) =
     (if t' = t then OExclude t' u (map (\<lambda>(c, p). (swap_str old new c, p)) es) w else OExclude t' u es w)"
| "rename_column_obj t old new k x = x"

definition rename_column_effect :: "string \<Rightarrow> string \<Rightarrow> string \<Rightarrow> catalog \<Rightarrow> catalog" where
  "rename_column_effect t old new cat k =
     (if k = KColumn t old \<and> old \<noteq> new then None
      else map_option (rename_column_obj t old new k) (cat (if k = KColumn t new then KColumn t old else k)))"

section \<open>Running operations\<close>

definition local_step :: "schema_snapshot \<Rightarrow> schema_change \<Rightarrow> catalog \<Rightarrow> catalog option" where
  "local_step tgt op cat =
     (if list_all (\<lambda>k. ready op k (cat k)) (op_keys op) then Some (\<lambda>k. obj_effect tgt op k (cat k)) else None)"

definition name_free :: "catalog \<Rightarrow> string \<Rightarrow> bool" where
  "name_free cat t \<longleftrightarrow> cat (KTable t) = None \<and> cat (KJunction t) = None"

definition change_step :: "schema_snapshot \<Rightarrow> schema_change \<Rightarrow> catalog \<Rightarrow> catalog option" where
  "change_step tgt op cat =
     (case op of
        RenameTable old new \<Rightarrow>
          if \<not> name_free cat old \<and> name_free cat new then Some (rename_table_effect old new cat) else None
      | RenameColumn t old new \<Rightarrow>
          if cat (KJunction t) \<noteq> None then local_step tgt op cat
          else if cat (KColumn t old) \<noteq> None \<and> cat (KColumn t new) = None
          then Some (rename_column_effect t old new cat) else None
      | _ \<Rightarrow> local_step tgt op cat)"

fun run_changes :: "schema_snapshot \<Rightarrow> schema_change list \<Rightarrow> catalog \<Rightarrow> catalog option" where
  "run_changes tgt [] cat = Some cat"
| "run_changes tgt (op # ops) cat = Option.bind (change_step tgt op cat) (run_changes tgt ops)"

text \<open>The same run seen from a single key.\<close>

definition obj_step :: "schema_snapshot \<Rightarrow> obj_key \<Rightarrow> schema_change \<Rightarrow> obj option \<Rightarrow> obj option option" where
  "obj_step tgt k op v =
     (if k \<in> set (op_keys op) \<and> \<not> ready op k v then None else Some (obj_effect tgt op k v))"

fun run_key :: "schema_snapshot \<Rightarrow> obj_key \<Rightarrow> schema_change list \<Rightarrow> obj option \<Rightarrow> obj option option" where
  "run_key tgt k [] v = Some v"
| "run_key tgt k (op # ops) v = Option.bind (obj_step tgt k op v) (run_key tgt k ops)"

end
