(* ===== verification/Run.thy ===== *)
theory Run
  imports Catalog
begin

text \<open>
  Running operations and undoing them. An operation acts on every object by itself, so a run is
  followed key by key (\<open>run_key\<close>). \<open>undo_op\<close> is the opposite of an operation, with what it needs to
  recreate read from the previous snapshot. \<open>run_both\<close> runs a list and accepts the result when the
  opposites, in reverse order, run back to the start.
\<close>

section \<open>Key by key\<close>

lemma run_changes_append:
  "run_changes tgt (xs @ ys) cat = Option.bind (run_changes tgt xs cat) (run_changes tgt ys)"
  by (induction xs arbitrary: cat) (simp_all split: Option.bind_split)

definition moves_keys :: "schema_change \<Rightarrow> bool" where
  "moves_keys op = (case op of RenameTable _ _ \<Rightarrow> True | _ \<Rightarrow> False)"

lemma change_step_by_key:
  assumes "\<not> moves_keys op" "\<And>k. obj_step tgt k op (cat k) = Some (cat' k)"
  shows "change_step tgt op cat = Some cat'"
proof -
  have ready: "k \<in> set (op_keys op) \<Longrightarrow> ready op k (cat k)" for k
    using assms(2) [of k] by (auto simp: obj_step_def split: if_splits)
  then have all: "list_all (\<lambda>k. ready op k (cat k)) (op_keys op)" by (simp add: list_all_iff)
  have "obj_effect tgt op k (cat k) = cat' k" for k
    using assms(2) [of k] by (auto simp: obj_step_def split: if_splits)
  then have eff: "(\<lambda>k. obj_effect tgt op k (cat k)) = cat'" by (rule ext)
  have "change_step tgt op cat = local_step tgt op cat"
  proof (cases op)
    case (RenameColumn t old new)
    then have "can_rename_end old new (cat (KJunction t))" using ready [of "KJunction t"] by simp
    then show ?thesis using RenameColumn by (auto simp: change_step_def can_rename_end_def split: option.splits)
  qed (use assms(1) in \<open>simp_all add: change_step_def moves_keys_def\<close>)
  then show ?thesis using all eff by (simp add: local_step_def)
qed

lemma run_changes_by_key:
  assumes "list_all (\<lambda>op. \<not> moves_keys op) ops" "\<And>k. run_key tgt k ops (cat k) = Some (cat' k)"
  shows "run_changes tgt ops cat = Some cat'"
  using assms
proof (induction ops arbitrary: cat)
  case Nil
  then have "cat = cat'" by (intro ext) simp
  then show ?case by simp
next
  case (Cons op ops)
  let ?mid = "\<lambda>k. the (obj_step tgt k op (cat k))"
  have mid: "obj_step tgt k op (cat k) = Some (?mid k)" for k
    using Cons.prems(2) [of k] by (cases "obj_step tgt k op (cat k)") auto
  have "change_step tgt op cat = Some ?mid"
    by (rule change_step_by_key) (use Cons.prems(1) mid in auto)
  moreover have "run_changes tgt ops ?mid = Some cat'"
  proof (rule Cons.IH)
    fix k
    show "run_key tgt k ops (?mid k) = Some (cat' k)"
      using Cons.prems(2) [of k] by (subst (asm) run_key.simps, subst (asm) mid) simp
  qed (use Cons.prems(1) in simp)
  ultimately show ?case by simp
qed

lemma run_key_append [simp]:
  "run_key tgt k (xs @ ys) = (\<lambda>v. Option.bind (run_key tgt k xs v) (run_key tgt k ys))"
proof
  fix v
  show "run_key tgt k (xs @ ys) v = Option.bind (run_key tgt k xs v) (run_key tgt k ys)"
    by (induction xs arbitrary: v) (simp_all split: Option.bind_split)
qed

section \<open>Opposites\<close>

fun undo_op :: "schema_snapshot \<Rightarrow> schema_change \<Rightarrow> schema_change" where
  "undo_op prev (CreateTable t) = DropTable t"
| "undo_op prev (DropTable t) = CreateTable t"
| "undo_op prev (AddColumn t c) = DropColumn t c"
| "undo_op prev (DropColumn t c) = AddColumn t c"
| "undo_op prev (AlterColumnType t c a b) = AlterColumnType t c b a"
| "undo_op prev (AlterColumnNullable t c b) = AlterColumnNullable t c (\<not> b)"
| "undo_op prev (AlterColumnDefault t c a b) = AlterColumnDefault t c b a"
| "undo_op prev (AlterColumnMaxLength t c a b) = AlterColumnMaxLength t c b a"
| "undo_op prev (AlterColumnComment t c a b) = AlterColumnComment t c b a"
| "undo_op prev (AlterTableComment t a b) = AlterTableComment t b a"
| "undo_op prev (RenameTable a b) = RenameTable b a"
| "undo_op prev (RenameColumn t a b) = RenameColumn t b a"
| "undo_op prev (AlterColumnUnique t c b) = AlterColumnUnique t c (\<not> b)"
| "undo_op prev (AlterFkOnDelete t c a b) = AlterFkOnDelete t c b a"
| "undo_op prev (CreateIndex n t cs u m w i) = DropIndex n t"
| "undo_op prev (DropIndex n t) =
     (case snap_index prev n of None \<Rightarrow> DropIndex n t | Some i \<Rightarrow> create_index i)"
| "undo_op prev (AddCheckConstraint n t e) = DropCheckConstraint n t"
| "undo_op prev (DropCheckConstraint n t) =
     (case snap_check prev n of None \<Rightarrow> DropCheckConstraint n t | Some c \<Rightarrow> add_check c)"
| "undo_op prev (AddExclusionConstraint n t u es w) = DropExclusionConstraint n t"
| "undo_op prev (DropExclusionConstraint n t) =
     (case snap_exclude prev n of None \<Rightarrow> DropExclusionConstraint n t | Some x \<Rightarrow> add_exclude x)"
| "undo_op prev (CreateM2MTable n st sc dt dc) = DropM2MTable n"
| "undo_op prev (DropM2MTable n) =
     (case snap_m2m_table prev n of None \<Rightarrow> DropM2MTable n | Some m \<Rightarrow> create_m2m m)"
| "undo_op prev (AddCompositeFk t n to from on) = DropCompositeFk t n"
| "undo_op prev (DropCompositeFk t n) =
     (case Option.bind (snap_table prev t) (\<lambda>ts. ts_composite_fk ts n) of
        None \<Rightarrow> DropCompositeFk t n | Some c \<Rightarrow> add_composite_fk t c)"

definition both_step ::
  "schema_snapshot \<Rightarrow> schema_snapshot \<Rightarrow> obj_key \<Rightarrow> schema_change \<Rightarrow> obj option \<Rightarrow> obj option option" where
  "both_step p c k op v =
     (case obj_step c k op v of
        None \<Rightarrow> None
      | Some w \<Rightarrow> if obj_step p k (undo_op p op) w = Some v then Some w else None)"

definition run_both ::
  "schema_snapshot \<Rightarrow> schema_snapshot \<Rightarrow> obj_key \<Rightarrow> schema_change list \<Rightarrow> obj option \<Rightarrow> obj option option" where
  "run_both p c k ops v =
     (case run_key c k ops v of
        None \<Rightarrow> None
      | Some w \<Rightarrow> if run_key p k (rev (map (undo_op p) ops)) w = Some v then Some w else None)"

lemma both_stepI: "obj_step c k op v = Some w \<Longrightarrow> obj_step p k (undo_op p op) w = Some v \<Longrightarrow> both_step p c k op v = Some w"
  by (simp add: both_step_def)

lemma run_both_iff:
  "run_both p c k ops v = Some w \<longleftrightarrow>
     run_key c k ops v = Some w \<and> run_key p k (rev (map (undo_op p) ops)) w = Some v"
  by (auto simp: run_both_def split: option.splits)

section \<open>Runs of lists\<close>

lemma run_both_Nil [simp]: "run_both p c k [] v = Some v"
  by (simp add: run_both_def)

lemma run_both_single [simp]: "run_both p c k [op] v = both_step p c k op v"
  by (auto simp: run_both_def both_step_def split: option.splits Option.bind_splits)

lemma run_both_then:
  "run_both p c k xs v = Some u \<Longrightarrow> run_both p c k ys u = Some w \<Longrightarrow> run_both p c k (xs @ ys) v = Some w"
  by (auto simp: run_both_iff)

lemma run_both_Cons:
  "both_step p c k op v = Some u \<Longrightarrow> run_both p c k ops u = Some w \<Longrightarrow> run_both p c k (op # ops) v = Some w"
  using run_both_then [of p c k "[op]" v u ops w] by simp

lemma run_both_if [simp]: "run_both p c k (if b then [op] else []) v = (if b then both_step p c k op v else Some v)"
  by simp

lemma run_both_idle:
  assumes "\<And>v. run_both p c k xs v = Some v"
  shows "run_both p c k (xs @ ys) = run_both p c k ys" "run_both p c k (ys @ xs) = run_both p c k ys"
proof -
  have f: "run_key c k xs v = Some v" and b: "run_key p k (rev (map (undo_op p) xs)) v = Some v" for v
    using assms [of v] by (simp_all add: run_both_iff)
  then have c: "run_key c k xs = Some" and b': "run_key p k (rev (map (undo_op p) xs)) = Some" by (simp_all add: fun_eq_iff)
  show "run_both p c k (xs @ ys) = run_both p c k ys" "run_both p c k (ys @ xs) = run_both p c k ys"
    by (auto simp: fun_eq_iff run_both_def c b' split: option.splits Option.bind_splits)
qed

lemma run_both_keep: "(\<And>op. op \<in> set ops \<Longrightarrow> both_step p c k op v = Some v) \<Longrightarrow> run_both p c k ops v = Some v"
proof (induction ops)
  case (Cons op ops)
  then have "run_both p c k ([op] @ ops) v = Some v"
    by (intro run_both_then [of _ _ _ "[op]" v v ops v]) simp_all
  then show ?case by simp
qed simp

text \<open>Loops in which one entry at most concerns the key.\<close>

lemma run_both_concat:
  assumes "distinct (map key xs)" "\<And>x v. x \<in> set xs \<Longrightarrow> key x \<noteq> n \<Longrightarrow> run_both p c k (g x) v = Some v"
  shows "run_both p c k (concat (map g xs)) v =
     (case find_by key n xs of None \<Rightarrow> Some v | Some x \<Rightarrow> run_both p c k (g x) v)"
  using assms
proof (induction xs arbitrary: v)
  case (Cons x xs)
  show ?case
  proof (cases "key x = n")
    case True
    then have "find_by key n xs = None" using Cons.prems(1) by (auto simp: find_by_None_iff)
    then have "run_both p c k (concat (map g xs)) w = Some w" for w using Cons by simp
    with True show ?thesis by (simp add: run_both_idle(2))
  next
    case False
    with Cons show ?thesis by (simp add: run_both_idle(1))
  qed
qed simp

lemma map_filter_concat:
  "List.map_filter f xs = concat (map (\<lambda>x. case f x of None \<Rightarrow> [] | Some y \<Rightarrow> [y]) xs)"
  by (induction xs) (auto simp: List.map_filter_def split: option.splits)

lemma concat_map_filter: "concat (map g (filter P xs)) = concat (map (\<lambda>x. if P x then g x else []) xs)"
  by (induction xs) auto

lemma map_of_filter_concat: "map f (filter P xs) = concat (map (\<lambda>x. if P x then [f x] else []) xs)"
  by (induction xs) auto

lemma run_both_map_filter:
  assumes "distinct (map key xs)" "\<And>x v. x \<in> set xs \<Longrightarrow> key x \<noteq> n \<Longrightarrow> both_step p c k (f x) v = Some v"
  shows "run_both p c k (map f (filter P xs)) v =
     (case find_by key n xs of None \<Rightarrow> Some v | Some x \<Rightarrow> if P x then both_step p c k (f x) v else Some v)"
proof -
  have "run_both p c k (concat (map (\<lambda>x. if P x then [f x] else []) xs)) v =
     (case find_by key n xs of None \<Rightarrow> Some v | Some x \<Rightarrow> run_both p c k (if P x then [f x] else []) v)"
    by (rule run_both_concat) (use assms in auto)
  then show ?thesis unfolding map_of_filter_concat by (auto split: option.splits)
qed

text \<open>Lists that cannot concern a key, in either direction.\<close>

definition quiet :: "schema_snapshot \<Rightarrow> schema_snapshot \<Rightarrow> obj_key \<Rightarrow> schema_change list \<Rightarrow> bool" where
  "quiet p c k ops \<longleftrightarrow> (\<forall>op\<in>set ops. \<forall>v. both_step p c k op v = Some v)"

lemma run_both_quiet [simp]: "quiet p c k ops \<Longrightarrow> run_both p c k ops v = Some v"
  by (rule run_both_keep) (simp add: quiet_def)

lemma quiet_append [simp]: "quiet p c k (xs @ ys) \<longleftrightarrow> quiet p c k xs \<and> quiet p c k ys"
  by (auto simp: quiet_def)

lemma run_both_skip [simp]:
  "quiet p c k xs \<Longrightarrow> run_both p c k (xs @ ys) = run_both p c k ys"
  "quiet p c k ys \<Longrightarrow> run_both p c k (xs @ ys) = run_both p c k xs"
  by (rule run_both_idle; simp)+

definition leaves_alone :: "schema_snapshot \<Rightarrow> obj_key \<Rightarrow> schema_change \<Rightarrow> bool" where
  "leaves_alone s k op \<longleftrightarrow> k \<notin> set (op_keys op) \<and> (\<forall>v. obj_effect s op k v = v)"

lemma leaves_alone_step: "leaves_alone s k op \<Longrightarrow> obj_step s k op v = Some v"
  by (simp add: leaves_alone_def obj_step_def)

lemma quietI:
  "(\<And>op. op \<in> set ops \<Longrightarrow> leaves_alone c k op \<and> leaves_alone p k (undo_op p op)) \<Longrightarrow> quiet p c k ops"
  by (auto simp: quiet_def both_step_def leaves_alone_step)

text \<open>What is left of a run once the quiet parts are taken out.\<close>

lemma quiet_run_key:
  assumes "quiet p c k ops"
  shows "run_key c k ops = Some" "run_key p k (rev (map (undo_op p) ops)) = Some"
  using run_both_quiet [OF assms] by (simp_all add: fun_eq_iff run_both_iff)

end
