(* ===== verification/Diff_Correct.thy ===== *)
theory Diff_Correct
  imports Run
begin

text \<open>
  Correctness of the schema diff: running \<open>detect_changes prev current\<close> on the catalog of \<open>prev\<close>
  succeeds and gives the catalog of \<open>current\<close>, and running the opposite operations in reverse order on
  the catalog of \<open>current\<close> gives the catalog of \<open>prev\<close> back. In each phase at most one entry of the loop
  concerns a given key; every phase is run in both directions at once (\<open>run_both\<close>).
\<close>

section \<open>The shape of each phase\<close>

lemma changed_renames_shape: "op \<in> set (changed_renames rename ps) \<Longrightarrow> \<exists>a b. op = rename a b"
  by (induction rename ps rule: changed_renames.induct) (auto simp: Let_def split: if_splits)

lemma m2m_renames_shape:
  assumes "m2m_renames old new = Some rs" "op \<in> set rs"
  shows "\<exists>a b. op = RenameColumn (m2_through old) a b"
proof (cases "is_self_ref old \<and> is_self_ref new \<and> m2_src_table old = m2_src_table new")
  case True
  with assms show ?thesis by (auto simp: m2m_renames_def Let_def split: option.splits if_splits)
next
  case False
  with assms obtain ps where "rs = changed_renames (RenameColumn (m2_through old)) ps"
    by (auto simp: m2m_renames_def Let_def)
  with assms(2) show ?thesis using changed_renames_shape by blast
qed

lemma drop_junctions_shape:
  "op \<in> set (drop_junctions p c) \<Longrightarrow> (\<exists>t a b. op = RenameColumn t a b) \<or> (\<exists>t. op = DropM2MTable t)"
proof -
  assume "op \<in> set (drop_junctions p c)"
  then obtain m where m: "op \<in> set (case junction_renames c m of
      Some renames \<Rightarrow> renames | None \<Rightarrow> if junction_same c m then [] else [DropM2MTable (m2_through m)])"
    by (auto simp: drop_junctions_def)
  show ?thesis
  proof (cases "junction_renames c m")
    case None
    with m show ?thesis by (simp split: if_splits)
  next
    case (Some rs)
    then obtain new where "m2m_renames m new = Some rs"
      by (auto simp: junction_renames_def split: option.splits if_splits)
    with m Some show ?thesis using m2m_renames_shape by fastforce
  qed
qed

lemma not_list_ex_key: "(\<not> list_ex (\<lambda>p. key p = k) xs) = (find_by key k xs = None)"
  by (auto simp: find_by_None_iff list_ex_iff)

lemma in_map_filter: "y \<in> set (List.map_filter f xs) \<longleftrightarrow> (\<exists>x\<in>set xs. f x = Some y)"
  by (induction xs) (auto simp: List.map_filter_def split: option.splits)

lemma alter_changes_shape:
  assumes "op \<in> set (alter_changes t pf cf)" "k \<noteq> KColumn t (fs_column cf)"
  shows "leaves_alone s k op \<and> leaves_alone s' k (undo_op s' op) \<and> \<not> moves_keys op"
  using assms by (auto simp: alter_changes_def Let_def moves_keys_def leaves_alone_def split: if_splits option.splits)

lemma alter_columns_shape:
  assumes "op \<in> set (alter_columns p c)" "\<forall>t n. k \<noteq> KColumn t n"
  shows "leaves_alone s k op \<and> leaves_alone s' k (undo_op s' op) \<and> \<not> moves_keys op"
proof -
  obtain t pf cf where "op \<in> set (alter_changes t pf cf)"
    using assms(1) by (auto simp: alter_columns_def split: option.splits)
  then show ?thesis using alter_changes_shape assms(2) by blast
qed

text \<open>Phases that cannot concern a key.\<close>

lemmas op_defs = create_index_def add_check_def add_exclude_def create_m2m_def add_composite_fk_def

lemma quiet_composite_fks [simp]:
  assumes "\<forall>t n. k \<noteq> KCompositeFk t n" "\<forall>t. k \<noteq> KTable t"
  shows "quiet p c k (drop_composite_fks p c)" "quiet p c k (recreate_composite_fks p c)" "quiet p c k (new_composite_fks p c)"
  by (rule quietI;
      use assms in \<open>auto simp: drop_composite_fks_def recreate_composite_fks_def new_composite_fks_def in_map_filter
        leaves_alone_def op_defs split: option.splits\<close>)+

lemma quiet_indexes [simp]:
  assumes "\<forall>n. k \<noteq> KIndex n" "\<forall>t. k \<noteq> KTable t"
  shows "quiet p c k (drop_indexes p c)" "quiet p c k (recreate_indexes p c)" "quiet p c k (new_indexes p c)"
  by (rule quietI;
      use assms in \<open>auto simp: drop_indexes_def recreate_indexes_def new_indexes_def in_map_filter leaves_alone_def op_defs
        split: option.splits if_splits\<close>)+

lemma quiet_checks [simp]:
  assumes "\<forall>n. k \<noteq> KCheck n" "\<forall>t. k \<noteq> KTable t"
  shows "quiet p c k (drop_checks p c)" "quiet p c k (recreate_checks p c)" "quiet p c k (new_checks p c)"
  by (rule quietI;
      use assms in \<open>auto simp: drop_checks_def recreate_checks_def new_checks_def in_map_filter leaves_alone_def op_defs
        split: option.splits\<close>)+

lemma quiet_excludes [simp]:
  assumes "\<forall>n. k \<noteq> KExclude n" "\<forall>t. k \<noteq> KTable t"
  shows "quiet p c k (drop_excludes p c)" "quiet p c k (recreate_excludes p c)" "quiet p c k (new_excludes p c)"
  by (rule quietI;
      use assms in \<open>auto simp: drop_excludes_def recreate_excludes_def new_excludes_def in_map_filter leaves_alone_def op_defs
        split: option.splits\<close>)+

lemma quiet_drop_junctions [simp]:
  "\<forall>n. k \<noteq> KJunction n \<Longrightarrow> \<forall>t. k \<noteq> KTable t \<Longrightarrow> quiet p c k (drop_junctions p c)"
  by (rule quietI) (auto simp: leaves_alone_def op_defs dest!: drop_junctions_shape split: option.splits)

lemma quiet_junctions [simp]:
  assumes "\<forall>n. k \<noteq> KJunction n" "\<forall>t. k \<noteq> KTable t"
  shows "quiet p c k (recreate_junctions p c)" "quiet p c k (new_junctions p c)"
  by (rule quietI;
      use assms in \<open>auto simp: recreate_junctions_def new_junctions_def in_map_filter leaves_alone_def op_defs
        split: if_splits\<close>)+

lemma quiet_columns [simp]:
  assumes "\<forall>t n. k \<noteq> KColumn t n" "\<forall>t. k \<noteq> KTable t"
  shows "quiet p c k (add_columns p c)" "quiet p c k (drop_columns p c)"
  by (rule quietI;
      use assms in \<open>auto simp: add_columns_def drop_columns_def leaves_alone_def split: option.splits\<close>)+

lemma quiet_alter_columns [simp]: "\<forall>t n. k \<noteq> KColumn t n \<Longrightarrow> quiet p c k (alter_columns p c)"
  by (rule quietI) (use alter_columns_shape in blast)

lemma quiet_alter_comments [simp]: "\<forall>t. k \<noteq> KTable t \<Longrightarrow> quiet p c k (alter_comments p c)"
  by (rule quietI) (auto simp: alter_comments_def leaves_alone_def split: option.splits if_splits)

section \<open>Dropped tables\<close>

lemma mset_drop_order: "mset (drop_order left) = mset (map ts_name left)"
proof (induction left rule: drop_order.induct)
  case (1 left)
  show ?case
  proof (cases "left = []")
    case False
    let ?i = "next_dropped left"
    have "left = take ?i left @ left ! ?i # drop (Suc ?i) left"
      using next_dropped_less [OF False] by (rule id_take_nth_drop)
    then have "mset (map ts_name left) =
        mset (map ts_name (take ?i left @ left ! ?i # drop (Suc ?i) left))" by simp
    with 1 False show ?thesis by (simp add: drop_order.simps [of left] Let_def)
  qed (simp add: drop_order.simps)
qed

lemma set_dropped_tables:
  "t \<in> set (dropped_tables_child_first p c) \<longleftrightarrow> snap_table p t \<noteq> None \<and> snap_table c t = None"
proof -
  let ?left = "filter (\<lambda>t. snap_table c (ts_name t) = None) (sn_tables p)"
  have "set (dropped_tables_child_first p c) = set (map ts_name ?left)"
    unfolding dropped_tables_child_first_def by (rule mset_eq_setD) (rule mset_drop_order)
  then show ?thesis by (auto simp: snap_table_def find_by_None_iff)
qed

lemma distinct_dropped_tables:
  assumes "distinct (map ts_name (sn_tables p))"
  shows "distinct (dropped_tables_child_first p c)"
proof -
  let ?left = "filter (\<lambda>t. snap_table c (ts_name t) = None) (sn_tables p)"
  have "distinct (map ts_name ?left)" using assms by (rule distinct_map_filter)
  then show ?thesis
    unfolding dropped_tables_child_first_def
    using mset_eq_imp_distinct_iff [OF mset_drop_order [of ?left]] by simp
qed

lemma run_both_drop_tables_keep:
  assumes "owner k = None" "\<And>t. snap_table p t \<noteq> None \<Longrightarrow> snap_table c t = None \<Longrightarrow>
      Option.bind v obj_on \<noteq> Some t \<and> (k = KJunction t \<longrightarrow> v = None)"
  shows "run_both p c k (drop_tables p c) v = Some v"
  by (rule run_both_keep)
    (use assms in \<open>fastforce simp: drop_tables_def set_dropped_tables obj_step_def both_step_def\<close>)

lemma run_both_create_tables_keep:
  assumes "owner k = None" "\<And>t. snap_table p t = None \<Longrightarrow> snap_table c t \<noteq> None \<Longrightarrow>
      Option.bind v obj_on \<noteq> Some t \<and> (k = KJunction t \<longrightarrow> v = None)"
  shows "run_both p c k (create_tables p c) v = Some v"
proof (rule run_both_keep)
  fix op assume "op \<in> set (create_tables p c)"
  then obtain t where "op = CreateTable t" "snap_table p t = None" "snap_table c t \<noteq> None"
    by (auto simp: create_tables_def snap_table_def find_by_None_iff)
  with assms show "both_step p c k op v = Some v" by (fastforce simp: obj_step_def both_step_def)
qed

section \<open>Objects on a table\<close>

text \<open>
  Every object of the snapshot is on one of its tables; a junction has a name of its own and two
  differently named columns.
\<close>

definition refs_ok :: "schema_snapshot \<Rightarrow> bool" where
  "refs_ok s \<longleftrightarrow>
     (\<forall>i\<in>set (sn_indexes s). snap_table s (ix_table i) \<noteq> None) \<and>
     (\<forall>c\<in>set (sn_checks s). snap_table s (ck_table c) \<noteq> None) \<and>
     (\<forall>x\<in>set (sn_excludes s). snap_table s (ex_table x) \<noteq> None) \<and>
     (\<forall>m\<in>set (sn_m2m_tables s). snap_table s (m2_through m) = None \<and> m2_src_col m \<noteq> m2_dst_col m)"

lemma index_obj_simps [simp]: "obj_on (index_obj i) = Some (ix_table i)"
  "obj_on (check_obj c) = Some (ck_table c)" "obj_on (exclude_obj x) = Some (ex_table x)"
  "obj_on (junction_obj m) = None"
  by (simp_all add: index_obj_def check_obj_def exclude_obj_def junction_obj_def)

lemma ix_changed_iff: "ix_name c = ix_name i \<Longrightarrow> ix_changed c i \<longleftrightarrow> c \<noteq> i"
  by (cases c; cases i) (auto simp: ix_changed_def)

text \<open>
  Indexes, CHECK and EXCLUDE constraints go through the same three phases: drop what is gone or
  differs, create what is new, create again what differs.
\<close>

locale named_objects =
  fixes objs :: "schema_snapshot \<Rightarrow> 'a list" and name :: "'a \<Rightarrow> string" and on_table :: "'a \<Rightarrow> string"
    and as_obj :: "'a \<Rightarrow> obj" and key :: "string \<Rightarrow> obj_key"
    and drop_op :: "'a \<Rightarrow> schema_change" and create_op :: "'a \<Rightarrow> schema_change"
  assumes other_step: "n \<noteq> name x \<Longrightarrow> both_step p c (key n) (drop_op x) v = Some v"
      "n \<noteq> name x \<Longrightarrow> both_step p c (key n) (create_op x) v = Some v"
    and drop_step: "find_by name (name x) (objs p) = Some x \<Longrightarrow>
      both_step p c (key (name x)) (drop_op x) (Some (as_obj x)) = Some None"
    and create_step: "both_step p c (key (name x)) (create_op x) None = Some (Some (as_obj x))"
    and on_table: "obj_on (as_obj x) = Some (on_table x)"
    and free_key: "owner (key n) = None" "key n \<noteq> KJunction t"
    and catalog: "catalog_of s (key n) = map_option as_obj (find_by name n (objs s))"
begin

lemma drops_run:
  assumes "distinct (map name (objs p))"
  shows "run_both p c (key n) (map drop_op (filter (\<lambda>x. find_by name (name x) (objs c) \<noteq> Some x) (objs p)))
      (catalog_of p (key n)) =
    Some (if find_by name n (objs p) = find_by name n (objs c) then catalog_of p (key n) else None)"
proof -
  have "run_both p c (key n) (map drop_op (filter (\<lambda>x. find_by name (name x) (objs c) \<noteq> Some x) (objs p)))
      (catalog_of p (key n)) =
    (case find_by name n (objs p) of None \<Rightarrow> Some (catalog_of p (key n))
     | Some x \<Rightarrow> if find_by name (name x) (objs c) \<noteq> Some x
         then both_step p c (key n) (drop_op x) (catalog_of p (key n)) else Some (catalog_of p (key n)))"
    by (rule run_both_map_filter [OF assms]) (simp add: other_step)
  then show ?thesis
  proof (cases "find_by name n (objs p)")
    case (Some x)
    then have "name x = n" by (auto dest: find_by_SomeD)
    with Some drop_step [of x p c] show ?thesis
      using \<open>run_both _ _ _ _ _ = _\<close> by (auto simp: catalog)
  qed (auto simp: catalog)
qed

lemma tables_run:
  assumes "\<forall>x\<in>set (objs s). snap_table c (on_table x) \<noteq> None" "v = None \<or> v = catalog_of s (key n)"
  shows "run_both p c (key n) (drop_tables p c) v = Some v"
proof (rule run_both_drop_tables_keep [OF free_key(1)])
  fix t
  assume "snap_table c t = None"
  then have "Option.bind (catalog_of s (key n)) obj_on \<noteq> Some t"
    using assms(1) by (cases "find_by name n (objs s)") (fastforce simp: catalog on_table dest: find_by_SomeD)+
  then show "Option.bind v obj_on \<noteq> Some t \<and> (key n = KJunction t \<longrightarrow> v = None)"
    using assms(2) by (auto simp: free_key)
qed

lemma creates_run:
  assumes "\<forall>x\<in>set (objs s). snap_table p (on_table x) \<noteq> None" "v = None \<or> v = catalog_of s (key n)"
  shows "run_both p c (key n) (create_tables p c) v = Some v"
proof (rule run_both_create_tables_keep [OF free_key(1)])
  fix t
  assume "snap_table p t = None"
  then have "Option.bind (catalog_of s (key n)) obj_on \<noteq> Some t"
    using assms(1) by (cases "find_by name n (objs s)") (fastforce simp: catalog on_table dest: find_by_SomeD)+
  then show "Option.bind v obj_on \<noteq> Some t \<and> (key n = KJunction t \<longrightarrow> v = None)"
    using assms(2) by (auto simp: free_key)
qed

lemma news_run:
  assumes "distinct (map name (objs c))" "find_by name n (objs p) = None \<longrightarrow> v = None"
  shows "run_both p c (key n) (map create_op (filter (\<lambda>x. find_by name (name x) (objs p) = None) (objs c))) v =
    Some (if find_by name n (objs p) = None then catalog_of c (key n) else v)"
proof -
  have "run_both p c (key n) (map create_op (filter (\<lambda>x. find_by name (name x) (objs p) = None) (objs c))) v =
    (case find_by name n (objs c) of None \<Rightarrow> Some v
     | Some x \<Rightarrow> if find_by name (name x) (objs p) = None then both_step p c (key n) (create_op x) v else Some v)"
    by (rule run_both_map_filter [OF assms(1)]) (simp add: other_step)
  then show ?thesis
  proof (cases "find_by name n (objs c)")
    case (Some x)
    then have "name x = n" by (auto dest: find_by_SomeD)
    with Some create_step [of p c x] assms(2) show ?thesis
      using \<open>run_both _ _ _ _ _ = _\<close> by (auto simp: catalog)
  qed (use assms(2) in \<open>auto simp: catalog\<close>)
qed

lemma recreates_run:
  assumes "distinct (map name (objs p))"
    and "find_by name n (objs p) \<noteq> None \<longrightarrow> find_by name n (objs p) \<noteq> find_by name n (objs c) \<longrightarrow> v = None"
  shows "run_both p c (key n) (List.map_filter (\<lambda>x. map_option create_op (find_by name (name x) (objs c)))
      (filter (\<lambda>x. find_by name (name x) (objs c) \<noteq> Some x) (objs p))) v =
    Some (if find_by name n (objs p) \<noteq> None \<and> find_by name n (objs p) \<noteq> find_by name n (objs c)
          then catalog_of c (key n) else v)"
proof -
  let ?g = "\<lambda>x. if find_by name (name x) (objs c) = Some x then []
        else case find_by name (name x) (objs c) of None \<Rightarrow> [] | Some y \<Rightarrow> [create_op y]"
  have eq: "List.map_filter (\<lambda>x. map_option create_op (find_by name (name x) (objs c)))
        (filter (\<lambda>x. find_by name (name x) (objs c) \<noteq> Some x) (objs p)) = concat (map ?g (objs p))"
    unfolding map_filter_concat concat_map_filter by (rule arg_cong [where f = concat]) (auto split: option.splits)
  have "run_both p c (key n) (concat (map ?g (objs p))) v =
      (case find_by name n (objs p) of None \<Rightarrow> Some v | Some x \<Rightarrow> run_both p c (key n) (?g x) v)"
    by (rule run_both_concat [OF assms(1)]) (auto simp: other_step dest!: find_by_SomeD split: option.splits)
  moreover have "\<dots> = Some (if find_by name n (objs p) \<noteq> None \<and> find_by name n (objs p) \<noteq> find_by name n (objs c)
      then catalog_of c (key n) else v)"
  proof (cases "find_by name n (objs p)")
    case (Some x)
    then have x: "name x = n" by (auto dest: find_by_SomeD)
    show ?thesis
    proof (cases "find_by name n (objs c)")
      case (Some y)
      then have "name y = n" by (auto dest: find_by_SomeD)
      with \<open>find_by name n (objs p) = Some x\<close> Some x assms(2) create_step [of p c y] show ?thesis
        by (auto simp: catalog)
    qed (use Some x assms(2) in \<open>auto simp: catalog\<close>)
  qed simp
  ultimately show ?thesis unfolding eq by simp
qed

lemma changes_run:
  assumes p: "distinct (map name (objs p))" and c: "distinct (map name (objs c))"
    and on: "\<forall>x\<in>set (objs p). snap_table p (on_table x) \<noteq> None" "\<forall>x\<in>set (objs c). snap_table c (on_table x) \<noteq> None"
    and drops: "drops = map drop_op (filter (\<lambda>x. find_by name (name x) (objs c) \<noteq> Some x) (objs p))"
    and news: "news = map create_op (filter (\<lambda>x. find_by name (name x) (objs p) = None) (objs c))"
    and recreates: "recreates = List.map_filter (\<lambda>x. map_option create_op (find_by name (name x) (objs c)))
      (filter (\<lambda>x. find_by name (name x) (objs c) \<noteq> Some x) (objs p))"
    and post: "post = news @ recreates \<or> post = recreates @ news"
  shows "run_both p c (key n) (drops @ create_tables p c @ drop_tables p c @ post) (catalog_of p (key n)) =
    Some (catalog_of c (key n))"
proof -
  let ?v = "if find_by name n (objs p) = find_by name n (objs c) then catalog_of p (key n) else None"
  let ?C = "catalog_of c (key n)"
  let ?same = "find_by name n (objs p) = find_by name n (objs c)"
  have 1: "run_both p c (key n) drops (catalog_of p (key n)) = Some ?v"
    unfolding drops by (rule drops_run [OF p])
  have 2: "run_both p c (key n) (create_tables p c) ?v = Some ?v"
    by (rule creates_run [OF on(1)]) simp
  have 3: "run_both p c (key n) (drop_tables p c) ?v = Some ?v"
    by (rule tables_run [OF on(2)]) (simp add: catalog)
  have n1: "run_both p c (key n) news ?v = Some (if find_by name n (objs p) = None then ?C else ?v)"
    unfolding news by (rule news_run [OF c]) (simp add: catalog)
  have r1: "run_both p c (key n) recreates (if find_by name n (objs p) = None then ?C else ?v) = Some ?C"
    unfolding recreates by (subst recreates_run [OF p]) (auto simp: catalog)
  have r2: "run_both p c (key n) recreates ?v = Some (if find_by name n (objs p) \<noteq> None \<and> \<not> ?same then ?C else ?v)"
    unfolding recreates by (rule recreates_run [OF p]) simp
  have n2: "run_both p c (key n) news (if find_by name n (objs p) \<noteq> None \<and> \<not> ?same then ?C else ?v) = Some ?C"
    unfolding news by (subst news_run [OF c]) (auto simp: catalog)
  have 4: "run_both p c (key n) post ?v = Some ?C"
    using post run_both_then [OF n1 r1] run_both_then [OF r2 n2] by blast
  show ?thesis by (rule run_both_then [OF 1 run_both_then [OF 2 run_both_then [OF 3 4]]])
qed

end

interpretation indexes: named_objects sn_indexes ix_name ix_table index_obj KIndex
  "\<lambda>i. DropIndex (ix_name i) (ix_table i)" create_index
  by unfold_locales
    (auto simp: both_step_def obj_step_def create_index_def index_obj_def snap_index_def dest!: find_by_SomeD split: option.splits)

interpretation checks: named_objects sn_checks ck_name ck_table check_obj KCheck
  "\<lambda>c. DropCheckConstraint (ck_name c) (ck_table c)" add_check
  by unfold_locales
    (auto simp: both_step_def obj_step_def add_check_def check_obj_def snap_check_def dest!: find_by_SomeD split: option.splits)

interpretation excludes: named_objects sn_excludes ex_name ex_table exclude_obj KExclude
  "\<lambda>x. DropExclusionConstraint (ex_name x) (ex_table x)" add_exclude
  by unfold_locales
    (auto simp: both_step_def obj_step_def add_exclude_def exclude_obj_def snap_exclude_def dest!: find_by_SomeD split: option.splits)

lemma drop_indexes_alt:
  "drop_indexes p c = map (\<lambda>i. DropIndex (ix_name i) (ix_table i))
     (filter (\<lambda>i. find_by ix_name (ix_name i) (sn_indexes c) \<noteq> Some i) (sn_indexes p))"
proof -
  have "index_gone_or_changed c i \<longleftrightarrow> find_by ix_name (ix_name i) (sn_indexes c) \<noteq> Some i" for i
    by (auto simp: index_gone_or_changed_def snap_index_def ix_changed_iff dest!: find_by_SomeD split: option.splits)
  then have "index_gone_or_changed c = (\<lambda>i. find_by ix_name (ix_name i) (sn_indexes c) \<noteq> Some i)" by blast
  then show ?thesis by (simp add: drop_indexes_def)
qed

lemma recreate_indexes_alt:
  "recreate_indexes p c = List.map_filter (\<lambda>i. map_option create_index (find_by ix_name (ix_name i) (sn_indexes c)))
     (filter (\<lambda>i. find_by ix_name (ix_name i) (sn_indexes c) \<noteq> Some i) (sn_indexes p))"
  unfolding recreate_indexes_def map_filter_concat concat_map_filter
  by (rule arg_cong [where f = concat])
    (auto simp: snap_index_def ix_changed_iff dest!: find_by_SomeD split: option.splits)

lemma run_index:
  assumes "wf_names p" "wf_names c" "refs_ok p" "refs_ok c"
  shows "run_both p c (KIndex n) (detect_changes p c) (catalog_of p (KIndex n)) = Some (catalog_of c (KIndex n))"
proof -
  have "run_both p c (KIndex n) (drop_indexes p c @ create_tables p c @ drop_tables p c @ new_indexes p c @ recreate_indexes p c)
      (catalog_of p (KIndex n)) = Some (catalog_of c (KIndex n))"
    by (rule indexes.changes_run [where news = "new_indexes p c" and recreates = "recreate_indexes p c"])
      (use assms in \<open>simp_all add: wf_names_def refs_ok_def drop_indexes_alt new_indexes_def snap_index_def recreate_indexes_alt\<close>)
  then show ?thesis by (simp add: run_both_iff quiet_run_key [of p c] detect_changes_def del: catalog_of.simps)
qed

text \<open>For CHECK and EXCLUDE constraints the recreated ones come first; for one name only one of the two happens.\<close>

lemma run_check:
  assumes "wf_names p" "wf_names c" "refs_ok p" "refs_ok c"
  shows "run_both p c (KCheck n) (detect_changes p c) (catalog_of p (KCheck n)) = Some (catalog_of c (KCheck n))"
proof -
  have "run_both p c (KCheck n) (drop_checks p c @ create_tables p c @ drop_tables p c @ recreate_checks p c @ new_checks p c)
      (catalog_of p (KCheck n)) = Some (catalog_of c (KCheck n))"
    by (rule checks.changes_run [where news = "new_checks p c" and recreates = "recreate_checks p c"])
      (use assms in \<open>simp_all add: wf_names_def refs_ok_def drop_checks_def new_checks_def snap_check_def recreate_checks_def\<close>)
  then show ?thesis by (simp add: run_both_iff quiet_run_key [of p c] detect_changes_def del: catalog_of.simps)
qed

lemma run_exclude:
  assumes "wf_names p" "wf_names c" "refs_ok p" "refs_ok c"
  shows "run_both p c (KExclude n) (detect_changes p c) (catalog_of p (KExclude n)) = Some (catalog_of c (KExclude n))"
proof -
  have "run_both p c (KExclude n) (drop_excludes p c @ create_tables p c @ drop_tables p c @ recreate_excludes p c @ new_excludes p c)
      (catalog_of p (KExclude n)) = Some (catalog_of c (KExclude n))"
    by (rule excludes.changes_run [where news = "new_excludes p c" and recreates = "recreate_excludes p c"])
      (use assms in \<open>simp_all add: wf_names_def refs_ok_def drop_excludes_def new_excludes_def snap_exclude_def recreate_excludes_def
        not_list_ex_key\<close>)
  then show ?thesis by (simp add: run_both_iff quiet_run_key [of p c] detect_changes_def del: catalog_of.simps)
qed

section \<open>Junctions\<close>

lemma spare_from_fresh: "spare_from base a b i \<noteq> a \<and> spare_from base a b i \<noteq> b"
proof (induction base a b i rule: spare_from.induct)
  case (1 base a b i)
  then show ?case by (subst (1 2) spare_from.simps) (simp add: Let_def)
qed

lemma swap_spare_fresh: "swap_spare a b \<noteq> a \<and> swap_spare a b \<noteq> b"
  unfolding swap_spare_def by (rule spare_from_fresh)

lemma sort_map_sort: "sort (map f (sort xs)) = sort (map f xs)"
  by (rule properties_for_sort) simp_all

definition ends_obj :: "string \<Rightarrow> string \<Rightarrow> string \<Rightarrow> string \<Rightarrow> obj option" where
  "ends_obj st sc dt dc = Some (OJunction (junction_ends st sc dt dc))"

lemma ends_obj_swap: "ends_obj st sc dt dc = ends_obj dt dc st sc"
  by (auto simp: ends_obj_def junction_ends_def)

lemma ends_obj_junction: "Some (junction_obj m) = ends_obj (m2_src_table m) (m2_src_col m) (m2_dst_table m) (m2_dst_col m)"
  by (simp add: ends_obj_def junction_obj_def)

lemma rename_end_ends:
  "rename_end old new (ends_obj st sc dt dc) = ends_obj st (swap_str old new sc) dt (swap_str old new dc)"
  unfolding rename_end_def ends_obj_def junction_ends_def option.case obj.case sort_map_sort by simp

lemma can_rename_ends:
  "can_rename_end old new (ends_obj st sc dt dc) \<longleftrightarrow> (sc = old \<or> dc = old) \<and> new \<noteq> sc \<and> new \<noteq> dc"
  by (auto simp: can_rename_end_def ends_obj_def junction_ends_def)

lemma rename_step:
  assumes "sc = old \<or> dc = old" "new \<noteq> sc" "new \<noteq> dc"
  shows "both_step p c (KJunction n) (RenameColumn n old new) (ends_obj st sc dt dc) =
     Some (ends_obj st (swap_str old new sc) dt (swap_str old new dc))"
  by (rule both_stepI)
    (use assms in \<open>auto simp: obj_step_def can_rename_ends rename_end_ends swap_str_def\<close>)

lemma changed_renames_run:
  assumes "a \<noteq> c" "b \<noteq> d"
  shows "run_both prev cur (KJunction n) (changed_renames (RenameColumn n) (filter (\<lambda>(x, y). x \<noteq> y) [(a, b), (c, d)]))
      (ends_obj st a dt c) = Some (ends_obj st b dt d)"
proof -
  have spare: "swap_spare a b \<noteq> a" "swap_spare a b \<noteq> b" by (simp_all add: swap_spare_fresh)
  show ?thesis
  proof (cases "a = b \<or> c = d")
    case True
    then show ?thesis using assms by (auto simp: rename_step)
  next
    case False
    then consider (swap) "b = c" "d = a" | (chain) "b = c" "d \<noteq> a" | (free) "b \<noteq> c" by blast
    then show ?thesis
    proof cases
      case swap
      let ?s = "swap_spare a b"
      have 1: "both_step prev cur (KJunction n) (RenameColumn n a ?s) (ends_obj st a dt c) = Some (ends_obj st ?s dt c)"
        using rename_step [of a a c ?s prev cur n st dt] spare swap assms by simp
      have 2: "both_step prev cur (KJunction n) (RenameColumn n c d) (ends_obj st ?s dt c) = Some (ends_obj st ?s dt d)"
        using rename_step [of ?s c c d prev cur n st dt] spare swap assms by simp
      have 3: "both_step prev cur (KJunction n) (RenameColumn n ?s b) (ends_obj st ?s dt d) = Some (ends_obj st b dt d)"
        using rename_step [of ?s ?s d b prev cur n st dt] spare swap assms by simp
      have "run_both prev cur (KJunction n) [RenameColumn n a ?s, RenameColumn n c d, RenameColumn n ?s b]
          (ends_obj st a dt c) = Some (ends_obj st b dt d)"
        by (rule run_both_Cons [OF 1 run_both_Cons [OF 2 run_both_Cons [OF 3 run_both_Nil]]])
      with swap False show ?thesis by (simp add: Let_def)
    next
      case chain
      have 1: "both_step prev cur (KJunction n) (RenameColumn n c d) (ends_obj st a dt c) = Some (ends_obj st a dt d)"
        using rename_step [of a c c d prev cur n st dt] chain False assms by auto
      have 2: "both_step prev cur (KJunction n) (RenameColumn n a b) (ends_obj st a dt d) = Some (ends_obj st b dt d)"
        using rename_step [of a a d b prev cur n st dt] chain False assms by auto
      have "run_both prev cur (KJunction n) [RenameColumn n c d, RenameColumn n a b] (ends_obj st a dt c) = Some (ends_obj st b dt d)"
        by (rule run_both_Cons [OF 1 run_both_Cons [OF 2 run_both_Nil]])
      with chain False show ?thesis by simp
    next
      case free
      have 1: "both_step prev cur (KJunction n) (RenameColumn n a b) (ends_obj st a dt c) = Some (ends_obj st b dt c)"
        using rename_step [of a a c b prev cur n st dt] free False assms by auto
      have 2: "both_step prev cur (KJunction n) (RenameColumn n c d) (ends_obj st b dt c) = Some (ends_obj st b dt d)"
        using rename_step [of b c c d prev cur n st dt] free False assms by auto
      have "run_both prev cur (KJunction n) [RenameColumn n a b, RenameColumn n c d] (ends_obj st a dt c) = Some (ends_obj st b dt d)"
        by (rule run_both_Cons [OF 1 run_both_Cons [OF 2 run_both_Nil]])
      with free False show ?thesis by simp
    qed
  qed
qed

lemma m2m_renames_run:
  assumes "m2m_renames old new = Some rs" "m2_through new = m2_through old"
    and "m2_src_col old \<noteq> m2_dst_col old" "m2_src_col new \<noteq> m2_dst_col new"
  shows "run_both p c (KJunction (m2_through old)) rs (Some (junction_obj old)) = Some (Some (junction_obj new))"
proof (cases "is_self_ref old \<and> is_self_ref new \<and> m2_src_table old = m2_src_table new")
  case True
  then have t: "m2_dst_table old = m2_src_table old" "m2_src_table new = m2_src_table old" "m2_dst_table new = m2_src_table old"
    by (auto simp: is_self_ref_def)
  have "(m2_src_col old = m2_src_col new \<and> m2_dst_col old \<notin> {m2_src_col new, m2_dst_col new} \<and> rs = [RenameColumn (m2_through old) (m2_dst_col old) (m2_dst_col new)]) \<or>
     (m2_src_col old = m2_dst_col new \<and> m2_dst_col old \<notin> {m2_src_col new, m2_dst_col new} \<and> rs = [RenameColumn (m2_through old) (m2_dst_col old) (m2_src_col new)]) \<or>
     (m2_dst_col old = m2_src_col new \<and> m2_src_col old \<notin> {m2_src_col new, m2_dst_col new} \<and> rs = [RenameColumn (m2_through old) (m2_src_col old) (m2_dst_col new)]) \<or>
     (m2_dst_col old = m2_dst_col new \<and> m2_src_col old \<notin> {m2_src_col new, m2_dst_col new} \<and> rs = [RenameColumn (m2_through old) (m2_src_col old) (m2_src_col new)])"
    using assms(1) True assms(3,4) by (auto simp: m2m_renames_def Let_def split: if_splits)
  then show ?thesis
    using assms(3,4) unfolding ends_obj_junction t
    by (auto simp: rename_step ends_obj_swap [of "m2_src_table old" "m2_src_col new"])
next
  case False
  let ?cr = "\<lambda>ps. changed_renames (RenameColumn (m2_through old)) (filter (\<lambda>(x, y). x \<noteq> y) ps)"
  consider
      (direct) "m2_src_table old = m2_src_table new" "m2_dst_table old = m2_dst_table new"
        "rs = ?cr [(m2_src_col old, m2_src_col new), (m2_dst_col old, m2_dst_col new)]"
    | (mirrored) "m2_src_table old = m2_dst_table new" "m2_dst_table old = m2_src_table new"
        "rs = ?cr [(m2_src_col old, m2_dst_col new), (m2_dst_col old, m2_src_col new)]"
    using assms(1) False by (auto simp: m2m_renames_def Let_def split: if_splits)
  then show ?thesis
  proof cases
    case direct
    then show ?thesis unfolding ends_obj_junction direct(3)
      using changed_renames_run [OF assms(3,4)] by simp
  next
    case mirrored
    have "run_both p c (KJunction (m2_through old)) rs (Some (junction_obj old)) =
        Some (ends_obj (m2_dst_table new) (m2_dst_col new) (m2_src_table new) (m2_src_col new))"
      unfolding ends_obj_junction mirrored
      by (rule changed_renames_run) (use assms(3,4) in auto)
    then show ?thesis by (simp add: ends_obj_junction ends_obj_swap)
  qed
qed

lemma m2_eq_obj: "m2_eq a b \<Longrightarrow> junction_obj a = junction_obj b"
  by (simp add: m2_eq_def m2_key_def junction_obj_def)

text \<open>The junction phases: renamed, dropped, or left alone; then created again or new.\<close>

lemma junction_kept:
  assumes "junction_renames c m = Some rs"
  shows "\<exists>new. snap_m2m_table c (m2_through m) = Some new \<and> m2m_renames m new = Some rs"
  using assms by (auto simp: junction_renames_def split: option.splits if_splits)

definition junction_dropped :: "schema_snapshot \<Rightarrow> m2m_table_snapshot \<Rightarrow> bool" where
  "junction_dropped c m \<longleftrightarrow> junction_renames c m = None \<and> \<not> junction_same c m"

lemma drop_junctions_run:
  assumes wf: "wf_names p" "wf_names c" "refs_ok p" "refs_ok c"
  shows "run_both p c (KJunction n) (drop_junctions p c) (catalog_of p (KJunction n)) =
    Some (case snap_m2m_table p n of
        None \<Rightarrow> None
      | Some m \<Rightarrow> if junction_dropped c m then None else catalog_of c (KJunction n))"
proof -
  have run: "run_both p c (KJunction n) (drop_junctions p c) v = (case snap_m2m_table p n of
        None \<Rightarrow> Some v
      | Some m \<Rightarrow> run_both p c (KJunction n) (case junction_renames c m of
         Some renames \<Rightarrow> renames
       | None \<Rightarrow> if junction_same c m then [] else [DropM2MTable (m2_through m)]) v)" for v
    unfolding drop_junctions_def snap_m2m_table_def
  proof (rule run_both_concat)
    show "distinct (map m2_through (sn_m2m_tables p))" using wf by (simp add: wf_names_def)
    fix m :: m2m_table_snapshot and w
    assume "m2_through m \<noteq> n"
    then show "run_both p c (KJunction n) (case junction_renames c m of
         Some renames \<Rightarrow> renames
       | None \<Rightarrow> if junction_same c m then [] else [DropM2MTable (m2_through m)]) w = Some w"
      by (intro run_both_keep)
        (auto simp: both_step_def obj_step_def op_defs snap_m2m_table_def dest!: junction_kept m2m_renames_shape find_by_SomeD
          split: option.splits if_splits)
  qed
  show ?thesis
  proof (cases "snap_m2m_table p n")
    case None
    then show ?thesis by (simp add: run)
  next
    case (Some m)
    then have m: "m \<in> set (sn_m2m_tables p)" "m2_through m = n"
      by (auto simp: snap_m2m_table_def dest: find_by_SomeD)
    show ?thesis
    proof (cases "junction_renames c m")
      case None
      have "both_step p c (KJunction n) (DropM2MTable n) (Some (junction_obj m)) = Some None"
        by (rule both_stepI) (use Some m(2) in \<open>simp_all add: obj_step_def create_m2m_def junction_obj_def\<close>)
      with None Some m(2) show ?thesis
        by (auto simp: run junction_dropped_def junction_same_def m2_eq_obj split: option.splits)
    next
      case (Some rs)
      then obtain new where new: "snap_m2m_table c n = Some new" "m2m_renames m new = Some rs"
        using junction_kept m(2) by blast
      then have "new \<in> set (sn_m2m_tables c)" "m2_through new = n"
        by (auto simp: snap_m2m_table_def dest: find_by_SomeD)
      with new m wf(3,4) have "run_both p c (KJunction (m2_through m)) rs (Some (junction_obj m)) = Some (Some (junction_obj new))"
        by (intro m2m_renames_run) (auto simp: refs_ok_def)
      then show ?thesis using \<open>snap_m2m_table p n = Some m\<close> Some new m(2) by (simp add: run junction_dropped_def)
    qed
  qed
qed

lemma junction_create_step:
  "n \<noteq> m2_through m \<Longrightarrow> both_step p c (KJunction n) (create_m2m m) v = Some v"
  "both_step p c (KJunction (m2_through m)) (create_m2m m) None = Some (Some (junction_obj m))"
  by (simp_all add: both_step_def obj_step_def create_m2m_def junction_obj_def)

lemma recreate_junctions_run:
  assumes "wf_names p" "\<And>m. snap_m2m_table p n = Some m \<Longrightarrow> junction_dropped c m \<Longrightarrow> v = None"
  shows "run_both p c (KJunction n) (recreate_junctions p c) v =
    Some (case snap_m2m_table p n of
        None \<Rightarrow> v
      | Some m \<Rightarrow> if junction_dropped c m then catalog_of c (KJunction n) else v)"
proof -
  let ?g = "\<lambda>m. case if junction_renames c m = None \<and> \<not> junction_same c m
      then map_option create_m2m (snap_m2m_table c (m2_through m)) else None of None \<Rightarrow> [] | Some y \<Rightarrow> [y]"
  have "run_both p c (KJunction n) (recreate_junctions p c) v =
      (case find_by m2_through n (sn_m2m_tables p) of None \<Rightarrow> Some v | Some m \<Rightarrow> run_both p c (KJunction n) (?g m) v)"
    unfolding recreate_junctions_def map_filter_concat
    by (rule run_both_concat)
      (use assms(1) in \<open>auto simp: wf_names_def snap_m2m_table_def junction_create_step dest!: find_by_SomeD split: option.splits\<close>)
  moreover have "run_both p c (KJunction n) (?g m) v = Some (if junction_dropped c m then catalog_of c (KJunction n) else v)"
    if "snap_m2m_table p n = Some m" for m
  proof -
    have m: "m2_through m = n" using that by (auto simp: snap_m2m_table_def dest: find_by_SomeD)
    show ?thesis
    proof (cases "snap_m2m_table c n")
      case (Some m')
      then have "m2_through m' = n" by (auto simp: snap_m2m_table_def dest: find_by_SomeD)
      with Some m assms(2) [OF that] junction_create_step(2) [of p c m'] show ?thesis
        by (auto simp: junction_dropped_def)
    qed (use m assms(2) [OF that] in \<open>auto simp: junction_dropped_def\<close>)
  qed
  ultimately show ?thesis unfolding snap_m2m_table_def by (auto split: option.splits)
qed

lemma new_junctions_run:
  assumes "wf_names c" "snap_m2m_table p n = None \<longrightarrow> v = None"
  shows "run_both p c (KJunction n) (new_junctions p c) v =
    Some (if snap_m2m_table p n = None then catalog_of c (KJunction n) else v)"
proof -
  have "run_both p c (KJunction n) (new_junctions p c) v =
    (case find_by m2_through n (sn_m2m_tables c) of None \<Rightarrow> Some v
     | Some m \<Rightarrow> if snap_m2m_table p (m2_through m) = None then both_step p c (KJunction n) (create_m2m m) v else Some v)"
    unfolding new_junctions_def
    by (rule run_both_map_filter) (use assms(1) in \<open>auto simp: wf_names_def junction_create_step\<close>)
  then show ?thesis unfolding snap_m2m_table_def [of c, symmetric]
  proof (cases "snap_m2m_table c n")
    case (Some m)
    then have "m2_through m = n" by (auto simp: snap_m2m_table_def dest: find_by_SomeD)
    with Some assms(2) junction_create_step(2) [of p c m] show ?thesis
      using \<open>run_both _ _ _ _ _ = _\<close> by (auto simp flip: snap_m2m_table_def)
  qed (use assms(2) in \<open>auto simp flip: snap_m2m_table_def\<close>)
qed

lemma run_junction:
  assumes wf: "wf_names p" "wf_names c" "refs_ok p" "refs_ok c"
  shows "run_both p c (KJunction n) (detect_changes p c) (catalog_of p (KJunction n)) = Some (catalog_of c (KJunction n))"
proof -
  let ?v = "case snap_m2m_table p n of None \<Rightarrow> None
      | Some m \<Rightarrow> if junction_dropped c m then None else catalog_of c (KJunction n)"
  have no_table: "refs_ok s \<Longrightarrow> snap_m2m_table s t = None \<or> snap_table s t = None" for s t
    by (cases "snap_m2m_table s t") (auto simp: refs_ok_def snap_m2m_table_def dest!: find_by_SomeD)
  have creates: "run_both p c (KJunction n) (create_tables p c) ?v = Some ?v"
    by (rule run_both_create_tables_keep)
      (use no_table [of c n] wf(4) in \<open>auto simp: bind_eq_Some_conv split: option.splits\<close>)
  have drops: "run_both p c (KJunction n) (drop_tables p c) ?v = Some ?v"
    by (rule run_both_drop_tables_keep)
      (use no_table [of p n] wf(3) in \<open>auto simp: bind_eq_Some_conv split: option.splits\<close>)
  have "run_both p c (KJunction n) (recreate_junctions p c) ?v =
      Some (if snap_m2m_table p n = None then None else catalog_of c (KJunction n))"
    by (subst recreate_junctions_run [OF wf(1)]) (auto split: option.splits)
  then have re: "run_both p c (KJunction n) (recreate_junctions p c @ new_junctions p c) ?v = Some (catalog_of c (KJunction n))"
    by (rule run_both_then) (use new_junctions_run [OF wf(2), of p n] in simp)
  have "run_both p c (KJunction n) (drop_junctions p c @ create_tables p c @ drop_tables p c @
      recreate_junctions p c @ new_junctions p c) (catalog_of p (KJunction n)) = Some (catalog_of c (KJunction n))"
    by (rule run_both_then [OF drop_junctions_run [OF wf] run_both_then [OF creates run_both_then [OF drops re]]])
  then show ?thesis by (simp add: run_both_iff quiet_run_key [of p c] detect_changes_def del: catalog_of.simps)
qed

section \<open>Tables and what they own\<close>

abbreviation both_tables :: "schema_snapshot \<Rightarrow> schema_snapshot \<Rightarrow> string \<Rightarrow> bool" where
  "both_tables p c t \<equiv> snap_table p t \<noteq> None \<and> snap_table c t \<noteq> None"

lemma snap_table_in: "snap_table s t = Some x \<Longrightarrow> x \<in> set (sn_tables s) \<and> ts_name x = t"
  by (auto simp: snap_table_def dest: find_by_SomeD)

lemma snap_tableI: "x \<in> set (sn_tables s) \<Longrightarrow> snap_table s (ts_name x) \<noteq> None"
  by (auto simp: snap_table_def find_by_None_iff)

lemma catalog_owner: "owner k = Some t \<Longrightarrow> snap_table s t = None \<Longrightarrow> catalog_of s k = None"
  by (cases k) (auto simp: snap_field_def)

lemma run_tables_loop:
  assumes "wf_names s" "\<And>x v. ts_name x \<noteq> t \<Longrightarrow> run_both p c k (g x) v = Some v"
  shows "run_both p c k (concat (map g (sn_tables s))) v =
     (case snap_table s t of None \<Rightarrow> Some v | Some x \<Rightarrow> run_both p c k (g x) v)"
  unfolding snap_table_def by (rule run_both_concat) (use assms in \<open>auto simp: wf_names_def\<close>)

lemma create_tables_run:
  assumes "wf_names c" "owner k = Some t" "snap_table p t = None \<longrightarrow> v = None"
  shows "run_both p c k (create_tables p c) v = Some (if snap_table p t = None then catalog_of c k else v)"
proof -
  have other: "both_step p c k (CreateTable t') w = Some w" if "t' \<noteq> t" for t' w
    using assms(2) that by (cases k) (auto simp: both_step_def obj_step_def)
  have own: "both_step p c k (CreateTable t) None = Some (catalog_of c k)" if "snap_table c t \<noteq> None"
    using assms(2) that by (cases k) (auto simp: both_step_def obj_step_def)
  have "run_both p c k (create_tables p c) v = (case snap_table c t of None \<Rightarrow> Some v
      | Some x \<Rightarrow> run_both p c k (if snap_table p (ts_name x) = None then [CreateTable (ts_name x)] else []) v)"
    unfolding create_tables_def map_of_filter_concat
    by (rule run_tables_loop [OF assms(1)]) (simp add: other)
  then show ?thesis
    using assms(3) catalog_owner [OF assms(2), of c] own
    by (cases "snap_table c t"; cases "snap_table p t") (auto dest: snap_table_in)
qed

lemma drop_tables_run:
  assumes "wf_names p" "owner k = Some t" "snap_table p t \<noteq> None \<and> snap_table c t = None \<longrightarrow> v = catalog_of p k"
  shows "run_both p c k (drop_tables p c) v =
    Some (if snap_table p t \<noteq> None \<and> snap_table c t = None then None else v)"
proof -
  have other: "both_step p c k (DropTable t') w = Some w" if "t' \<noteq> t" for t' w
    using assms(2) that by (cases k) (auto simp: both_step_def obj_step_def)
  have own: "both_step p c k (DropTable t) (catalog_of p k) = Some None" if "snap_table p t \<noteq> None"
    using assms(2) that by (cases k) (auto simp: both_step_def obj_step_def)
  have "run_both p c k (map DropTable ts) w = (if t \<in> set ts then both_step p c k (DropTable t) w else Some w)"
    if "distinct ts" for ts w
    using run_both_map_filter [of "\<lambda>x. x" ts t p c k DropTable "\<lambda>_. True" w] that other by (simp add: find_by_id)
  from this [OF distinct_dropped_tables, of p c] show ?thesis
    using assms(1,3) own by (auto simp: drop_tables_def wf_names_def set_dropped_tables)
qed

lemma columns_table:
  assumes "both_tables p c t \<longrightarrow> v \<noteq> None"
  shows "run_both p c (KTable t) (add_columns p c) v = Some v" "run_both p c (KTable t) (drop_columns p c) v = Some v"
proof -
  have step: "both_step p c (KTable t) (AddColumn t' col) v = Some v \<and> both_step p c (KTable t) (DropColumn t' col) v = Some v"
    if "both_tables p c t'" for t' col
    using that assms by (auto simp: both_step_def obj_step_def)
  have "\<exists>t' col. op = AddColumn t' col \<and> both_tables p c t'" if "op \<in> set (add_columns p c)" for op
    using that snap_tableI by (fastforce simp: add_columns_def dest!: sym [of "Some _"] split: option.splits)
  then show "run_both p c (KTable t) (add_columns p c) v = Some v" using step by (intro run_both_keep) blast
  have "\<exists>t' col. op = DropColumn t' col \<and> both_tables p c t'" if "op \<in> set (drop_columns p c)" for op
    using that snap_tableI by (fastforce simp: drop_columns_def dest!: sym [of "Some _"] split: option.splits)
  then show "run_both p c (KTable t) (drop_columns p c) v = Some v" using step by (intro run_both_keep) blast
qed

lemma alter_comments_run:
  assumes "wf_names c" "snap_table p t \<noteq> None \<longrightarrow> v = catalog_of p (KTable t)"
  shows "run_both p c (KTable t) (alter_comments p c) v =
    Some (if both_tables p c t then catalog_of c (KTable t) else v)"
  unfolding alter_comments_def
  by (subst run_tables_loop [OF assms(1), where t = t])
    (use assms(2) in \<open>auto simp: both_step_def obj_step_def dest: snap_table_in split: option.splits\<close>)

text \<open>Once the tables of \<open>c\<close> are in place, creating what hangs off them leaves them alone.\<close>

definition dependents :: "schema_snapshot \<Rightarrow> schema_change set" where
  "dependents c = create_index ` set (sn_indexes c) \<union> add_check ` set (sn_checks c) \<union> add_exclude ` set (sn_excludes c) \<union>
     create_m2m ` set (sn_m2m_tables c) \<union> {add_composite_fk t f |t f. snap_table c t \<noteq> None}"

lemma dependents_table:
  assumes "refs_ok c" "op \<in> dependents c"
  shows "obj_step c (KTable t) op (catalog_of c (KTable t)) = Some (catalog_of c (KTable t)) \<and>
     leaves_alone s (KTable t) (undo_op s op)"
  using assms
  by (auto simp: dependents_def refs_ok_def obj_step_def op_defs leaves_alone_def)

lemma create_dependents:
  assumes "refs_ok c" "set ops \<subseteq> dependents c"
  shows "run_both p c (KTable t) ops (catalog_of c (KTable t)) = Some (catalog_of c (KTable t))"
proof (rule run_both_keep)
  fix op assume "op \<in> set ops"
  with assms(2) have "op \<in> dependents c" by blast
  from dependents_table [OF assms(1) this, of t p] show "both_step p c (KTable t) op (catalog_of c (KTable t)) = Some (catalog_of c (KTable t))"
    by (simp add: both_step_def leaves_alone_step)
qed

lemma drop_dependents:
  assumes "refs_ok p" "\<And>op. op \<in> set ops \<Longrightarrow> leaves_alone c (KTable t) op \<and> (undo_op p op \<in> dependents p \<or> leaves_alone p (KTable t) (undo_op p op))"
  shows "run_both p c (KTable t) ops (catalog_of p (KTable t)) = Some (catalog_of p (KTable t))"
proof (rule run_both_keep)
  fix op assume "op \<in> set ops"
  then show "both_step p c (KTable t) op (catalog_of p (KTable t)) = Some (catalog_of p (KTable t))"
    using assms(2) [of op] dependents_table [OF assms(1), of "undo_op p op" t p]
    by (auto simp: both_step_def leaves_alone_step)
qed

lemma drop_phases_table:
  assumes "refs_ok p"
  shows "run_both p c (KTable t) (drop_composite_fks p c) (catalog_of p (KTable t)) = Some (catalog_of p (KTable t))"
    "run_both p c (KTable t) (drop_indexes p c) (catalog_of p (KTable t)) = Some (catalog_of p (KTable t))"
    "run_both p c (KTable t) (drop_checks p c) (catalog_of p (KTable t)) = Some (catalog_of p (KTable t))"
    "run_both p c (KTable t) (drop_excludes p c) (catalog_of p (KTable t)) = Some (catalog_of p (KTable t))"
    "run_both p c (KTable t) (drop_junctions p c) (catalog_of p (KTable t)) = Some (catalog_of p (KTable t))"
proof -
  show "run_both p c (KTable t) (drop_composite_fks p c) (catalog_of p (KTable t)) = Some (catalog_of p (KTable t))"
  proof (rule drop_dependents [OF assms])
    fix op assume "op \<in> set (drop_composite_fks p c)"
    then obtain t' n where op: "op = DropCompositeFk t' n" by (auto simp: drop_composite_fks_def split: option.splits)
    then have "undo_op p op = op \<or> (\<exists>f. undo_op p op = add_composite_fk t' f \<and> snap_table p t' \<noteq> None)"
      by (cases "snap_table p t'") (auto split: option.splits)
    then show "leaves_alone c (KTable t) op \<and> (undo_op p op \<in> dependents p \<or> leaves_alone p (KTable t) (undo_op p op))"
      using op by (auto simp: dependents_def leaves_alone_def)
  qed
  show "run_both p c (KTable t) (drop_indexes p c) (catalog_of p (KTable t)) = Some (catalog_of p (KTable t))"
    by (rule drop_dependents [OF assms])
      (auto simp: drop_indexes_def leaves_alone_def dependents_def snap_index_def dest!: find_by_SomeD split: option.splits)
  show "run_both p c (KTable t) (drop_checks p c) (catalog_of p (KTable t)) = Some (catalog_of p (KTable t))"
    by (rule drop_dependents [OF assms])
      (auto simp: drop_checks_def leaves_alone_def dependents_def snap_check_def dest!: find_by_SomeD split: option.splits)
  show "run_both p c (KTable t) (drop_excludes p c) (catalog_of p (KTable t)) = Some (catalog_of p (KTable t))"
    by (rule drop_dependents [OF assms])
      (auto simp: drop_excludes_def leaves_alone_def dependents_def snap_exclude_def dest!: find_by_SomeD split: option.splits)
  show "run_both p c (KTable t) (drop_junctions p c) (catalog_of p (KTable t)) = Some (catalog_of p (KTable t))"
    by (rule drop_dependents [OF assms])
      (auto simp: leaves_alone_def dependents_def snap_m2m_table_def dest!: drop_junctions_shape find_by_SomeD split: option.splits)
qed

lemma creates_dependents:
  "set (new_indexes p c) \<subseteq> dependents c" "set (recreate_indexes p c) \<subseteq> dependents c"
  "set (new_checks p c) \<subseteq> dependents c" "set (recreate_checks p c) \<subseteq> dependents c"
  "set (new_excludes p c) \<subseteq> dependents c" "set (recreate_excludes p c) \<subseteq> dependents c"
  "set (new_junctions p c) \<subseteq> dependents c" "set (recreate_junctions p c) \<subseteq> dependents c"
  "set (new_composite_fks p c) \<subseteq> dependents c" "set (recreate_composite_fks p c) \<subseteq> dependents c"
proof -
  show "set (new_indexes p c) \<subseteq> dependents c" by (auto simp: new_indexes_def dependents_def)
  show "set (recreate_indexes p c) \<subseteq> dependents c"
    by (auto simp: recreate_indexes_alt dependents_def in_map_filter dest!: find_by_SomeD)
  show "set (new_checks p c) \<subseteq> dependents c" by (auto simp: new_checks_def dependents_def)
  show "set (recreate_checks p c) \<subseteq> dependents c"
    by (auto simp: recreate_checks_def snap_check_def dependents_def in_map_filter dest!: find_by_SomeD)
  show "set (new_excludes p c) \<subseteq> dependents c" by (auto simp: new_excludes_def dependents_def)
  show "set (recreate_excludes p c) \<subseteq> dependents c"
    by (auto simp: recreate_excludes_def snap_exclude_def dependents_def in_map_filter dest!: find_by_SomeD)
  show "set (new_junctions p c) \<subseteq> dependents c" by (auto simp: new_junctions_def dependents_def)
  show "set (recreate_junctions p c) \<subseteq> dependents c"
    by (auto simp: recreate_junctions_def snap_m2m_table_def dependents_def in_map_filter dest!: find_by_SomeD split: if_splits)
  show "set (new_composite_fks p c) \<subseteq> dependents c"
    by (auto simp: new_composite_fks_def dependents_def dest: snap_tableI split: option.splits)
  show "set (recreate_composite_fks p c) \<subseteq> dependents c"
  proof
    fix op assume "op \<in> set (recreate_composite_fks p c)"
    then obtain pt :: table_snapshot and ct f
      where ct: "snap_table c (ts_name pt) = Some ct" "op = add_composite_fk (ts_name ct) f"
      by (auto simp: recreate_composite_fks_def in_map_filter dest!: sym [of "Some _"] split: option.splits)
    then have "ts_name ct = ts_name pt" by (auto dest: snap_table_in)
    with ct show "op \<in> dependents c" by (auto simp: dependents_def)
  qed
qed

lemma run_table:
  assumes wf: "wf_names p" "wf_names c" "refs_ok p" "refs_ok c"
  shows "run_both p c (KTable t) (detect_changes p c) (catalog_of p (KTable t)) = Some (catalog_of c (KTable t))"
proof -
  let ?v = "if snap_table p t = None then catalog_of c (KTable t) else catalog_of p (KTable t)"
  let ?w = "if snap_table c t \<noteq> None then catalog_of c (KTable t) else catalog_of p (KTable t)"
  have 1: "run_both p c (KTable t) (create_tables p c) (catalog_of p (KTable t)) = Some ?v"
    by (rule create_tables_run) (use wf in auto)
  have 2: "run_both p c (KTable t) (add_columns p c) ?v = Some ?v"
    by (rule columns_table) auto
  have "run_both p c (KTable t) (alter_comments p c) ?v = Some (if both_tables p c t then catalog_of c (KTable t) else ?v)"
    by (rule alter_comments_run) (use wf in auto)
  then have 3: "run_both p c (KTable t) (alter_comments p c) ?v = Some ?w" by auto
  have 4: "run_both p c (KTable t) (drop_columns p c) ?w = Some ?w"
    by (rule columns_table) auto
  have "run_both p c (KTable t) (drop_tables p c) ?w = Some (if snap_table p t \<noteq> None \<and> snap_table c t = None then None else ?w)"
    by (rule drop_tables_run [OF wf(1)]) auto
  then have 5: "run_both p c (KTable t) (drop_tables p c) ?w = Some (catalog_of c (KTable t))" by (auto split: if_splits)
  note drops = drop_phases_table [OF wf(3), of c t]
  have 6: "run_both p c (KTable t) (new_indexes p c @ (recreate_indexes p c @ recreate_checks p c @ recreate_excludes p c @
      recreate_junctions p c) @ new_checks p c @ new_excludes p c @ new_junctions p c @
      new_composite_fks p c @ recreate_composite_fks p c) (catalog_of c (KTable t)) = Some (catalog_of c (KTable t))"
    by (rule create_dependents [OF wf(4)]) (use creates_dependents in simp)
  have "run_both p c (KTable t) (drop_composite_fks p c @ drop_indexes p c @ drop_checks p c @ drop_excludes p c @
      drop_junctions p c) (catalog_of p (KTable t)) = Some (catalog_of p (KTable t))"
    by (rule run_both_then [OF drops(1) run_both_then [OF drops(2) run_both_then [OF drops(3) run_both_then [OF drops(4,5)]]]])
  from run_both_then [OF this run_both_then [OF 1 run_both_then [OF 2 run_both_then [OF 3 run_both_then [OF 4 run_both_then [OF 5 6]]]]]]
  show ?thesis by (simp add: run_both_iff quiet_run_key [of p c] detect_changes_def del: catalog_of.simps)
qed

section \<open>Columns\<close>

lemma fk_action_step:
  "co_fk x = Some (i, norm_action r0) \<Longrightarrow>
   both_step p c (KColumn t col) (AlterFkOnDelete t col r0 r) (Some (OColumn x)) =
     Some (Some (OColumn (x\<lparr>co_fk := Some (i, norm_action r)\<rparr>)))"
  by (auto simp: both_step_def obj_step_def map_column_def has_fk_def)

text \<open>
  The changes of one column, each putting one attribute in place; the ones no operation expresses
  are equal, as \<open>field_diffs\<close> found none.
\<close>

lemma field_diffs_Nil:
  "field_diffs t pf cf = [] \<longleftrightarrow>
     fs_primary_key pf = fs_primary_key cf \<and> fs_min pf = fs_min cf \<and> fs_max pf = fs_max cf \<and>
     map_option fk_identity (fs_fk pf) = map_option fk_identity (fs_fk cf) \<and> fs_auto pf = fs_auto cf \<and>
     fs_generated_as pf = fs_generated_as cf"
  by (simp add: field_diffs_def Let_def)

lemma same_on_delete_iff: "same_on_delete p c \<longleftrightarrow> norm_action (rs_on_delete p) = norm_action (rs_on_delete c)"
  by (simp add: same_on_delete_def eq_ignore_ascii_case_def norm_action_def effective_on_delete_def)

lemma alter_changes_run:
  assumes "snap_field c t (fs_column cf) = Some cf" "snap_field p t (fs_column cf) = Some pf" "field_diffs t pf cf = []"
  shows "run_both p c (KColumn t (fs_column cf)) (alter_changes t pf cf) (Some (OColumn (column_of pf))) =
     Some (Some (OColumn (column_of cf)))"
proof -
  let ?k = "KColumn t (fs_column cf)" and ?c = "fs_column cf"
  let ?len = "if fs_max_length pf \<noteq> fs_max_length cf then [AlterColumnMaxLength t ?c (fs_max_length pf) (fs_max_length cf)] else []"
  let ?leaving = "fs_ty pf \<noteq> fs_ty cf \<and> fs_ty cf \<noteq> ''string''"
  let ?fk = "case (fs_fk pf, fs_fk cf) of
            (Some p, Some c) \<Rightarrow>
              if fk_identity p = fk_identity c \<and> \<not> same_on_delete p c
              then [AlterFkOnDelete t ?c (rs_on_delete p) (rs_on_delete c)] else []
          | _ \<Rightarrow> []"
  let ?x1 = "(column_of pf)\<lparr>co_ty := fs_ty cf, co_ci := (fs_ty cf = ''string'' \<and> fs_case_insensitive cf), co_max_length := fs_max_length cf,
      co_default := fs_default cf\<rparr>"
  let ?A = "(if ?leaving then ?len else []) @
      (if fs_ty pf \<noteq> fs_ty cf \<or> fs_ty cf = ''string'' \<and> fs_case_insensitive pf \<noteq> fs_case_insensitive cf
       then [AlterColumnType t ?c (fs_ty pf) (fs_ty cf)] else []) @
      (if \<not> ?leaving then ?len else []) @
      (if fs_default pf \<noteq> fs_default cf \<and> fs_ty pf = fs_ty cf
       then [AlterColumnDefault t ?c (fs_default pf) (fs_default cf)] else [])"
  have 1: "run_both p c ?k ?A (Some (OColumn (column_of pf))) = Some (Some (OColumn ?x1))"
    by (cases "fs_max_length pf = fs_max_length cf"; cases "fs_ty pf = fs_ty cf"; cases "fs_default pf = fs_default cf";
        cases "fs_case_insensitive pf = fs_case_insensitive cf")
      (auto simp: run_both_iff both_step_def obj_step_def map_column_def assms(1,2) column_of_def)
  let ?x2 = "?x1\<lparr>co_nullable := fs_nullable cf, co_unique := fs_unique cf, co_comment := fs_db_comment cf\<rparr>"
  let ?B = "(if fs_nullable pf \<noteq> fs_nullable cf then [AlterColumnNullable t ?c (fs_nullable cf)] else []) @
         (if fs_unique pf \<noteq> fs_unique cf then [AlterColumnUnique t ?c (fs_unique cf)] else []) @
         (if fs_db_comment pf \<noteq> fs_db_comment cf
          then [AlterColumnComment t ?c (fs_db_comment pf) (fs_db_comment cf)] else [])"
  have 2: "run_both p c ?k ?B (Some (OColumn ?x1)) = Some (Some (OColumn ?x2))"
    by (cases "fs_nullable pf = fs_nullable cf"; cases "fs_unique pf = fs_unique cf"; cases "fs_db_comment pf = fs_db_comment cf")
      (auto simp: run_both_iff both_step_def obj_step_def map_column_def column_of_def)
  have 3: "run_both p c ?k ?fk (Some (OColumn ?x2)) = Some (Some (OColumn (column_of cf)))"
    using assms(3) by (cases "fs_fk pf"; cases "fs_fk cf")
      (auto simp: field_diffs_Nil fk_action_step column_of_def same_on_delete_iff)
  have "alter_changes t pf cf = ?A @ ?B @ ?fk" by (simp only: alter_changes_def Let_def append_assoc)
  then show ?thesis using run_both_then [OF 1 run_both_then [OF 2 3]] by (simp only:)
qed

lemma snap_field_Some: "snap_field s t col = Some f \<longleftrightarrow> (\<exists>ts. snap_table s t = Some ts \<and> ts_field ts col = Some f)"
  by (auto simp: snap_field_def bind_eq_Some_conv)

lemma ts_field_in: "ts_field ts col = Some f \<Longrightarrow> f \<in> set (ts_fields ts) \<and> fs_column f = col"
  by (auto simp: ts_field_def dest: find_by_SomeD)

lemma run_fields_loop:
  assumes "wf_table ts" "\<And>f v. fs_column f \<noteq> col \<Longrightarrow> run_both p c k (g f) v = Some v"
  shows "run_both p c k (concat (map g (ts_fields ts))) v =
     (case ts_field ts col of None \<Rightarrow> Some v | Some f \<Rightarrow> run_both p c k (g f) v)"
  unfolding ts_field_def by (rule run_both_concat) (use assms in \<open>auto simp: wf_table_def\<close>)

lemma wf_snap_table: "wf_names s \<Longrightarrow> snap_table s t = Some ts \<Longrightarrow> wf_table ts"
  by (auto simp: wf_names_def dest!: snap_table_in)

lemma add_columns_run:
  assumes wf: "wf_names c" and "snap_table p t \<noteq> None \<and> snap_field p t col = None \<longrightarrow> v = None"
  shows "run_both p c (KColumn t col) (add_columns p c) v =
    Some (if snap_table p t \<noteq> None \<and> snap_field p t col = None then catalog_of c (KColumn t col) else v)"
proof -
  let ?g = "\<lambda>ct. case snap_table p (ts_name ct) of
         None \<Rightarrow> []
       | Some pt \<Rightarrow> map (\<lambda>f. AddColumn (ts_name ct) (fs_column f)) (filter (\<lambda>f. ts_field pt (fs_column f) = None) (ts_fields ct))"
  have "run_both p c (KColumn t col) (?g ct) w = Some w" if "ts_name ct \<noteq> t" for ct w
    by (rule run_both_keep) (use that in \<open>auto simp: both_step_def obj_step_def split: option.splits\<close>)
  then have run: "run_both p c (KColumn t col) (add_columns p c) v =
      (case snap_table c t of None \<Rightarrow> Some v | Some ct \<Rightarrow> run_both p c (KColumn t col) (?g ct) v)"
    unfolding add_columns_def by (rule run_tables_loop [OF wf])
  show ?thesis
  proof (cases "snap_table c t"; cases "snap_table p t")
    fix ct pt
    assume c: "snap_table c t = Some ct" and p: "snap_table p t = Some pt"
    then have name: "ts_name ct = t" by (auto dest: snap_table_in)
    have "run_both p c (KColumn t col) (?g ct) v =
        (case ts_field ct col of None \<Rightarrow> Some v
         | Some f \<Rightarrow> run_both p c (KColumn t col) (if ts_field pt (fs_column f) = None then [AddColumn t (fs_column f)] else []) v)"
      unfolding name p option.case map_of_filter_concat
      by (rule run_fields_loop [OF wf_snap_table [OF wf c]]) (simp add: both_step_def obj_step_def)
    with run c p assms(2) show ?thesis
      by (cases "ts_field ct col"; cases "ts_field pt col") (auto simp: both_step_def obj_step_def snap_field_def dest: ts_field_in)
  qed (use run assms(2) in \<open>auto simp: snap_field_def dest: snap_table_in\<close>)
qed

lemma alter_columns_run:
  assumes wf: "wf_names c" and sup: "detect_unsupported_field_changes p c = []"
    and v: "snap_field p t col \<noteq> None \<longrightarrow> v = catalog_of p (KColumn t col)"
  shows "run_both p c (KColumn t col) (alter_columns p c) v =
    Some (if snap_field p t col \<noteq> None \<and> snap_field c t col \<noteq> None then catalog_of c (KColumn t col) else v)"
proof -
  let ?h = "\<lambda>ct pt cf. case ts_field pt (fs_column cf) of None \<Rightarrow> [] | Some pf \<Rightarrow> alter_changes (ts_name ct) pf cf"
  let ?g = "\<lambda>ct. case snap_table p (ts_name ct) of None \<Rightarrow> [] | Some pt \<Rightarrow> concat (map (?h ct pt) (ts_fields ct))"
  have quiet: "run_both p c (KColumn t col) (alter_changes t' pf cf) w = Some w" if "t' \<noteq> t \<or> fs_column cf \<noteq> col" for t' pf cf w
    by (rule run_both_keep) (use alter_changes_shape [of _ t' pf cf "KColumn t col"] that in \<open>auto simp: both_step_def leaves_alone_step\<close>)
  have "run_both p c (KColumn t col) (?g ct) w = Some w" if "ts_name ct \<noteq> t" for ct w
  proof -
    have "run_both p c (KColumn t col) (concat (map (?h ct pt) fs)) u = Some u" for pt fs u
      using that by (induction fs arbitrary: u) (auto simp: quiet run_both_idle(1) [OF quiet [OF disjI1]] split: option.splits)
    then show ?thesis by (auto split: option.splits)
  qed
  then have run: "run_both p c (KColumn t col) (alter_columns p c) v =
      (case snap_table c t of None \<Rightarrow> Some v | Some ct \<Rightarrow> run_both p c (KColumn t col) (?g ct) v)"
    unfolding alter_columns_def by (rule run_tables_loop [OF wf])
  show ?thesis
  proof (cases "snap_table c t"; cases "snap_table p t")
    fix ct pt
    assume c: "snap_table c t = Some ct" and p: "snap_table p t = Some pt"
    then have name: "ts_name ct = t" by (auto dest: snap_table_in)
    have inner: "run_both p c (KColumn t col) (?g ct) v =
        (case ts_field ct col of None \<Rightarrow> Some v | Some cf \<Rightarrow> run_both p c (KColumn t col) (?h ct pt cf) v)"
      unfolding name p option.case
      by (rule run_fields_loop [OF wf_snap_table [OF wf c]]) (auto simp: quiet split: option.splits)
    show ?thesis
    proof (cases "ts_field ct col"; cases "ts_field pt col")
      fix cf pf
      assume cf: "ts_field ct col = Some cf" and pf: "ts_field pt col = Some pf"
      then have col: "fs_column cf = col" "cf \<in> set (ts_fields ct)" by (auto dest: ts_field_in)
      have "field_diffs t pf cf = []"
        using sup c p cf pf col snap_table_in [OF c]
        by (fastforce simp: detect_unsupported_field_changes_def)
      then have "run_both p c (KColumn t col) (alter_changes t pf cf) (Some (OColumn (column_of pf))) =
          Some (Some (OColumn (column_of cf)))"
        using alter_changes_run [of c t cf p pf] c p cf pf col by (simp add: snap_field_def)
      then show ?thesis using run c p inner cf pf col v name by (simp add: snap_field_def)
    qed (use run c p inner in \<open>auto simp: snap_field_def dest: ts_field_in\<close>)
  qed (use run in \<open>auto simp: snap_field_def dest: snap_table_in\<close>)
qed

lemma drop_columns_run:
  assumes wf: "wf_names p"
    and v: "snap_field p t col \<noteq> None \<and> snap_table c t \<noteq> None \<and> snap_field c t col = None \<longrightarrow>
      v = catalog_of p (KColumn t col)"
  shows "run_both p c (KColumn t col) (drop_columns p c) v =
    Some (if snap_field p t col \<noteq> None \<and> snap_table c t \<noteq> None \<and> snap_field c t col = None then None else v)"
proof -
  let ?g = "\<lambda>pt. case snap_table c (ts_name pt) of
         None \<Rightarrow> []
       | Some ct \<Rightarrow> map (\<lambda>f. DropColumn (ts_name pt) (fs_column f)) (filter (\<lambda>f. ts_field ct (fs_column f) = None) (ts_fields pt))"
  have "run_both p c (KColumn t col) (?g pt) w = Some w" if "ts_name pt \<noteq> t" for pt w
    by (rule run_both_keep) (use that in \<open>auto simp: both_step_def obj_step_def split: option.splits\<close>)
  then have run: "run_both p c (KColumn t col) (drop_columns p c) v =
      (case snap_table p t of None \<Rightarrow> Some v | Some pt \<Rightarrow> run_both p c (KColumn t col) (?g pt) v)"
    unfolding drop_columns_def by (rule run_tables_loop [OF wf])
  show ?thesis
  proof (cases "snap_table c t"; cases "snap_table p t")
    fix ct pt
    assume c: "snap_table c t = Some ct" and p: "snap_table p t = Some pt"
    then have name: "ts_name pt = t" by (auto dest: snap_table_in)
    have "run_both p c (KColumn t col) (?g pt) v =
        (case ts_field pt col of None \<Rightarrow> Some v
         | Some f \<Rightarrow> run_both p c (KColumn t col) (if ts_field ct (fs_column f) = None then [DropColumn t (fs_column f)] else []) v)"
      unfolding name c option.case map_of_filter_concat
      by (rule run_fields_loop [OF wf_snap_table [OF wf p]]) (simp add: both_step_def obj_step_def)
    with run c p v show ?thesis
      by (cases "ts_field ct col"; cases "ts_field pt col") (auto simp: both_step_def obj_step_def snap_field_def dest: ts_field_in)
  qed (use run v in \<open>auto simp: snap_field_def dest: snap_table_in\<close>)
qed

lemma run_column:
  assumes wf: "wf_names p" "wf_names c" and sup: "detect_unsupported_field_changes p c = []"
  shows "run_both p c (KColumn t col) (detect_changes p c) (catalog_of p (KColumn t col)) = Some (catalog_of c (KColumn t col))"
proof -
  let ?k = "KColumn t col"
  let ?v1 = "if snap_table p t = None then catalog_of c ?k else catalog_of p ?k"
  let ?v2 = "if snap_field p t col = None then catalog_of c ?k else catalog_of p ?k"
  let ?v3 = "if snap_field c t col = None then catalog_of p ?k else catalog_of c ?k"
  let ?v4 = "if snap_table c t = None then catalog_of p ?k else catalog_of c ?k"
  have none: "snap_table s t = None \<Longrightarrow> snap_field s t col = None" for s by (simp add: snap_field_def)
  have 1: "run_both p c ?k (create_tables p c) (catalog_of p ?k) = Some ?v1"
    by (rule create_tables_run) (use wf none [of p] in auto)
  have 2: "run_both p c ?k (add_columns p c) ?v1 = Some ?v2"
    by (subst add_columns_run [OF wf(2)]) (auto simp: none)
  have 3: "run_both p c ?k (alter_columns p c) ?v2 = Some ?v3"
    by (subst alter_columns_run [OF wf(2) sup]) auto
  have 4: "run_both p c ?k (drop_columns p c) ?v3 = Some ?v4"
    by (subst drop_columns_run [OF wf(1)]) (auto simp: none)
  have "run_both p c ?k (drop_tables p c) ?v4 = Some (if snap_table p t \<noteq> None \<and> snap_table c t = None then None else ?v4)"
    by (rule drop_tables_run [OF wf(1)]) (auto simp del: catalog_of.simps)
  then have 5: "run_both p c ?k (drop_tables p c) ?v4 = Some (catalog_of c ?k)"
    using none [of p] none [of c] by (auto split: if_splits)
  from run_both_then [OF 1 run_both_then [OF 2 run_both_then [OF 3 run_both_then [OF 4 5]]]]
  show ?thesis by (simp add: run_both_iff quiet_run_key [of p c] detect_changes_def del: catalog_of.simps)
qed

section \<open>Composite foreign keys\<close>

definition snap_composite_fk :: "schema_snapshot \<Rightarrow> string \<Rightarrow> string \<Rightarrow> composite_fk_snapshot option" where
  "snap_composite_fk s t n = Option.bind (snap_table s t) (\<lambda>ts. ts_composite_fk ts n)"

lemma catalog_composite_fk: "catalog_of s (KCompositeFk t n) = map_option composite_fk_obj (snap_composite_fk s t n)"
  by (simp add: snap_composite_fk_def)

lemma ts_composite_fk_in: "ts_composite_fk ts n = Some f \<Longrightarrow> f \<in> set (ts_composite_fks ts) \<and> cf_name f = n"
  by (auto simp: ts_composite_fk_def dest: find_by_SomeD)

lemma run_fks_loop:
  assumes "wf_table ts" "\<And>f v. cf_name f \<noteq> n \<Longrightarrow> run_both p c k (g f) v = Some v"
  shows "run_both p c k (concat (map g (ts_composite_fks ts))) v =
     (case ts_composite_fk ts n of None \<Rightarrow> Some v | Some f \<Rightarrow> run_both p c k (g f) v)"
  unfolding ts_composite_fk_def by (rule run_both_concat) (use assms in \<open>auto simp: wf_table_def\<close>)

text \<open>A loop over the tables that stay, and their composite keys.\<close>

lemma run_fk_phase:
  assumes wf: "wf_names s"
    and other: "\<And>x y f v. snap_table s' (ts_name x) = Some y \<Longrightarrow> ts_name x \<noteq> t \<or> cf_name f \<noteq> n \<Longrightarrow>
      run_both p c k (g x y f) v = Some v"
  shows "run_both p c k (concat (map (\<lambda>x. case snap_table s' (ts_name x) of None \<Rightarrow> []
      | Some y \<Rightarrow> concat (map (g x y) (ts_composite_fks x))) (sn_tables s))) v =
    (case (snap_table s t, snap_table s' t) of
       (Some x, Some y) \<Rightarrow> (case ts_composite_fk x n of None \<Rightarrow> Some v | Some f \<Rightarrow> run_both p c k (g x y f) v)
     | _ \<Rightarrow> Some v)"
proof -
  let ?h = "\<lambda>x. case snap_table s' (ts_name x) of None \<Rightarrow> [] | Some y \<Rightarrow> concat (map (g x y) (ts_composite_fks x))"
  have quiet: "run_both p c k (concat (map (g x y) fs)) w = Some w" if "snap_table s' (ts_name x) = Some y" "ts_name x \<noteq> t"
    for x y fs w
    using that other by (induction fs arbitrary: w) (simp_all add: run_both_idle(1))
  have "run_both p c k (concat (map ?h (sn_tables s))) v =
      (case snap_table s t of None \<Rightarrow> Some v | Some x \<Rightarrow> run_both p c k (?h x) v)"
    by (rule run_tables_loop [OF wf]) (auto simp: quiet split: option.splits)
  moreover have "run_both p c k (?h x) v = (case snap_table s' t of None \<Rightarrow> Some v
      | Some y \<Rightarrow> (case ts_composite_fk x n of None \<Rightarrow> Some v | Some f \<Rightarrow> run_both p c k (g x y f) v))"
    if "snap_table s t = Some x" for x
  proof -
    have "ts_name x = t" using that by (auto dest: snap_table_in)
    then show ?thesis
      using run_fks_loop [OF wf_snap_table [OF wf that], where n = n] other
      by (cases "snap_table s' t") auto
  qed
  ultimately show ?thesis by (auto split: option.splits)
qed

lemma composite_fk_step:
  "t' \<noteq> t \<or> n' \<noteq> n \<Longrightarrow> both_step p c (KCompositeFk t n) (DropCompositeFk t' n') v = Some v"
  "snap_composite_fk p t n = Some f \<Longrightarrow>
   both_step p c (KCompositeFk t n) (DropCompositeFk t n) (Some (composite_fk_obj f)) = Some None"
  "t' \<noteq> t \<or> cf_name f \<noteq> n \<Longrightarrow> both_step p c (KCompositeFk t n) (add_composite_fk t' f) v = Some v"
  "cf_name f = n \<Longrightarrow> both_step p c (KCompositeFk t n) (add_composite_fk t f) None = Some (Some (composite_fk_obj f))"
  by (auto simp: both_step_def obj_step_def op_defs composite_fk_obj_def snap_composite_fk_def bind_eq_Some_conv
      dest: ts_composite_fk_in split: option.splits Option.bind_splits)

lemma drop_composite_fks_run:
  assumes "wf_names p"
  shows "run_both p c (KCompositeFk t n) (drop_composite_fks p c) (catalog_of p (KCompositeFk t n)) =
    Some (if both_tables p c t \<and> snap_composite_fk p t n \<noteq> snap_composite_fk c t n then None
          else catalog_of p (KCompositeFk t n))"
proof -
  let ?k = "KCompositeFk t n" and ?v = "catalog_of p (KCompositeFk t n)"
  have "run_both p c ?k (drop_composite_fks p c) ?v = (case (snap_table p t, snap_table c t) of
      (Some pt, Some ct) \<Rightarrow> (case ts_composite_fk pt n of None \<Rightarrow> Some ?v
        | Some pf \<Rightarrow> run_both p c ?k (if composite_fk_changed ct pf then [DropCompositeFk (ts_name pt) (cf_name pf)] else []) ?v)
    | _ \<Rightarrow> Some ?v)"
    unfolding drop_composite_fks_def map_of_filter_concat
    by (rule run_fk_phase [OF assms]) (auto simp: composite_fk_step)
  moreover have "run_both p c ?k (if composite_fk_changed ct pf then [DropCompositeFk (ts_name pt) (cf_name pf)] else []) ?v =
      Some (if snap_composite_fk p t n \<noteq> snap_composite_fk c t n then None else ?v)"
    if "snap_table p t = Some pt" "snap_table c t = Some ct" "ts_composite_fk pt n = Some pf" for pt ct pf
  proof -
    have "ts_name pt = t" "cf_name pf = n" using that by (auto dest: snap_table_in ts_composite_fk_in)
    then show ?thesis
      using that composite_fk_step(2) [of p t n pf c] by (auto simp: composite_fk_changed_def snap_composite_fk_def)
  qed
  ultimately show ?thesis by (auto simp: snap_composite_fk_def split: option.splits)
qed

lemma new_composite_fks_run:
  assumes "wf_names c" "both_tables p c t \<and> snap_composite_fk p t n = None \<longrightarrow> v = None"
  shows "run_both p c (KCompositeFk t n) (new_composite_fks p c) v =
    Some (if both_tables p c t \<and> snap_composite_fk p t n = None then catalog_of c (KCompositeFk t n) else v)"
proof -
  let ?k = "KCompositeFk t n"
  let ?g = "\<lambda>ct pt cf. if ts_composite_fk pt (cf_name cf) = None then [add_composite_fk (ts_name ct) cf] else []"
  have run: "run_both p c ?k (new_composite_fks p c) v = (case (snap_table c t, snap_table p t) of
      (Some ct, Some pt) \<Rightarrow> (case ts_composite_fk ct n of None \<Rightarrow> Some v | Some cf \<Rightarrow> run_both p c ?k (?g ct pt cf) v)
    | _ \<Rightarrow> Some v)"
    unfolding new_composite_fks_def map_of_filter_concat not_list_ex_key ts_composite_fk_def [symmetric]
    by (rule run_fk_phase [OF assms(1)]) (auto simp: composite_fk_step)
  have block: "run_both p c ?k (?g ct pt cf) v =
      Some (if snap_composite_fk p t n = None then Some (composite_fk_obj cf) else v)"
    if "snap_table p t = Some pt" "snap_table c t = Some ct" "ts_composite_fk ct n = Some cf" for pt ct cf
  proof -
    have "ts_name ct = t" "cf_name cf = n" using that by (auto dest: snap_table_in ts_composite_fk_in)
    then show ?thesis
      using that assms(2) composite_fk_step(4) [of cf n p c t] by (auto simp: snap_composite_fk_def)
  qed
  show ?thesis
  proof (cases "snap_table p t"; cases "snap_table c t")
    fix pt ct
    assume t: "snap_table p t = Some pt" "snap_table c t = Some ct"
    then show ?thesis using run block [OF t] assms(2)
      by (cases "ts_composite_fk ct n") (simp_all add: snap_composite_fk_def)
  qed (use run in \<open>simp_all add: snap_composite_fk_def\<close>)
qed

lemma recreate_composite_fks_run:
  assumes "wf_names p"
    and "both_tables p c t \<and> snap_composite_fk p t n \<noteq> None \<and> snap_composite_fk p t n \<noteq> snap_composite_fk c t n \<longrightarrow> v = None"
  shows "run_both p c (KCompositeFk t n) (recreate_composite_fks p c) v =
    Some (if both_tables p c t \<and> snap_composite_fk p t n \<noteq> None \<and> snap_composite_fk p t n \<noteq> snap_composite_fk c t n
          then catalog_of c (KCompositeFk t n) else v)"
proof -
  let ?k = "KCompositeFk t n"
  let ?g = "\<lambda>pt ct pf. if composite_fk_changed ct pf
      then case map_option (add_composite_fk (ts_name ct)) (ts_composite_fk ct (cf_name pf)) of None \<Rightarrow> [] | Some y \<Rightarrow> [y] else []"
  have "run_both p c ?k (recreate_composite_fks p c) v = (case (snap_table p t, snap_table c t) of
      (Some pt, Some ct) \<Rightarrow> (case ts_composite_fk pt n of None \<Rightarrow> Some v | Some pf \<Rightarrow> run_both p c ?k (?g pt ct pf) v)
    | _ \<Rightarrow> Some v)"
    unfolding recreate_composite_fks_def map_filter_concat concat_map_filter
    by (rule run_fk_phase [OF assms(1)])
      (auto simp: composite_fk_step dest!: snap_table_in ts_composite_fk_in split: option.splits)
  moreover have "run_both p c ?k (?g pt ct pf) v =
      Some (if snap_composite_fk p t n \<noteq> snap_composite_fk c t n then catalog_of c ?k else v)"
    if "snap_table p t = Some pt" "snap_table c t = Some ct" "ts_composite_fk pt n = Some pf" for pt ct pf
  proof -
    have "ts_name ct = t" "cf_name pf = n" using that by (auto dest: snap_table_in ts_composite_fk_in)
    then show ?thesis
      using that assms(2) by (cases "ts_composite_fk ct n")
        (auto simp: composite_fk_step composite_fk_changed_def snap_composite_fk_def dest: ts_composite_fk_in)
  qed
  ultimately show ?thesis by (auto simp: snap_composite_fk_def split: option.splits)
qed

lemma run_composite_fk:
  assumes wf: "wf_names p" "wf_names c"
  shows "run_both p c (KCompositeFk t n) (detect_changes p c) (catalog_of p (KCompositeFk t n)) =
     Some (catalog_of c (KCompositeFk t n))"
proof -
  let ?k = "KCompositeFk t n" and ?P = "snap_composite_fk p t n" and ?C = "snap_composite_fk c t n"
  have none: "snap_table s t = None \<Longrightarrow> snap_composite_fk s t n = None" for s by (simp add: snap_composite_fk_def)
  let ?v1 = "if both_tables p c t \<and> ?P \<noteq> ?C then None else catalog_of p ?k"
  let ?v2 = "if snap_table p t = None then catalog_of c ?k else ?v1"
  let ?v3 = "if both_tables p c t \<and> ?P \<noteq> ?C then None else catalog_of c ?k"
  have 1: "run_both p c ?k (drop_composite_fks p c) (catalog_of p ?k) = Some ?v1"
    by (rule drop_composite_fks_run [OF wf(1)])
  have 2: "run_both p c ?k (create_tables p c) ?v1 = Some ?v2"
    by (rule create_tables_run) (use wf in \<open>auto simp: catalog_composite_fk none simp del: catalog_of.simps\<close>)
  have "run_both p c ?k (drop_tables p c) ?v2 = Some (if snap_table p t \<noteq> None \<and> snap_table c t = None then None else ?v2)"
    by (rule drop_tables_run [OF wf(1)]) (auto simp del: catalog_of.simps)
  then have 3: "run_both p c ?k (drop_tables p c) ?v2 = Some ?v3"
    by (auto simp: catalog_composite_fk none simp del: catalog_of.simps)
  let ?v4 = "if both_tables p c t \<and> ?P \<noteq> None \<and> ?P \<noteq> ?C then None else catalog_of c ?k"
  have 4: "run_both p c ?k (new_composite_fks p c) ?v3 = Some ?v4"
    by (subst new_composite_fks_run [OF wf(2)]) (auto simp: catalog_composite_fk simp del: catalog_of.simps)
  have 5: "run_both p c ?k (recreate_composite_fks p c) ?v4 = Some (catalog_of c ?k)"
    by (subst recreate_composite_fks_run [OF wf(1)]) (auto simp del: catalog_of.simps)
  from run_both_then [OF 1 run_both_then [OF 2 run_both_then [OF 3 run_both_then [OF 4 5]]]]
  show ?thesis by (simp add: run_both_iff quiet_run_key [of p c] detect_changes_def del: catalog_of.simps)
qed

section \<open>The diff is correct\<close>

lemma detect_changes_local: "list_all (\<lambda>op. \<not> moves_keys op) (detect_changes p c)"
proof -
  have "\<not> moves_keys op" if "op \<in> dependents c" for op
    using that by (auto simp: dependents_def moves_keys_def create_index_def add_check_def add_exclude_def create_m2m_def
        add_composite_fk_def)
  then have "\<forall>op\<in>set ops. \<not> moves_keys op" if "set ops \<subseteq> dependents c" for ops using that by blast
  note deps = this [OF creates_dependents(1)] this [OF creates_dependents(2)] this [OF creates_dependents(3)]
    this [OF creates_dependents(4)] this [OF creates_dependents(5)] this [OF creates_dependents(6)]
    this [OF creates_dependents(7)] this [OF creates_dependents(8)] this [OF creates_dependents(9)]
    this [OF creates_dependents(10)]
  have "\<forall>op\<in>set (drop_junctions p c). \<not> moves_keys op"
    using drop_junctions_shape by (fastforce simp: moves_keys_def)
  moreover have "\<forall>op\<in>set (alter_columns p c). \<not> moves_keys op"
    using alter_columns_shape by blast
  moreover have "\<forall>op\<in>set (drop_composite_fks p c @ drop_indexes p c @ drop_checks p c @ drop_excludes p c @
      create_tables p c @ add_columns p c @ alter_comments p c @ drop_columns p c @ drop_tables p c). \<not> moves_keys op"
    by (auto simp: moves_keys_def drop_composite_fks_def drop_indexes_def drop_checks_def drop_excludes_def
        create_tables_def add_columns_def alter_comments_def drop_columns_def drop_tables_def
        split: option.splits if_splits)
  ultimately show ?thesis using deps by (simp add: detect_changes_def list_all_iff ball_Un)
qed

lemma detect_changes_both:
  assumes "wf_names prev" "wf_names current" "refs_ok prev" "refs_ok current"
    and "detect_unsupported_field_changes prev current = []"
  shows "run_both prev current k (detect_changes prev current) (catalog_of prev k) = Some (catalog_of current k)"
  using assms run_table run_column run_composite_fk run_index run_check run_exclude run_junction
  by (cases k) (simp_all del: catalog_of.simps)

lemma detect_changes_run:
  assumes "wf_names prev" "wf_names current" "refs_ok prev" "refs_ok current"
    and "detect_unsupported_field_changes prev current = []"
  shows "run_changes current (detect_changes prev current) (catalog_of prev) = Some (catalog_of current)"
  by (rule run_changes_by_key [OF detect_changes_local])
    (use detect_changes_both [OF assms] in \<open>simp add: run_both_iff\<close>)

lemma moves_keys_undo: "moves_keys (undo_op p op) = moves_keys op"
  by (cases op) (simp_all add: moves_keys_def op_defs split: option.splits)

lemma detect_changes_undo:
  assumes "wf_names prev" "wf_names current" "refs_ok prev" "refs_ok current"
    and "detect_unsupported_field_changes prev current = []"
  shows "run_changes prev (rev (map (undo_op prev) (detect_changes prev current))) (catalog_of current) =
    Some (catalog_of prev)"
proof (rule run_changes_by_key)
  show "list_all (\<lambda>op. \<not> moves_keys op) (rev (map (undo_op prev) (detect_changes prev current)))"
    using detect_changes_local by (simp add: list_all_iff moves_keys_undo)
qed (use detect_changes_both [OF assms] in \<open>simp add: run_both_iff\<close>)

end
