(* ===== verification/Invert.thy ===== *)
theory Invert
  imports Rebuild Diff_Correct
begin

text \<open>
  Rolling a migration back, \<open>crates/rustango/src/migrate/invert.rs\<close>: \<open>invert\<close> walks the forward
  operations in reverse and turns each into its opposite, following the renames that ran before it
  (\<open>Names\<close>); \<open>invert_migration\<close> reorders the dropped tables children first. The lemmas show that the
  rollback of a computed diff restores the previous catalog, and which operations cannot be rolled
  back. An error carries what its message interpolates; shortening the SQL in a message
  (\<open>truncate\<close>) is not modelled.
\<close>

section \<open>Names at an operation\<close>

record names =
  nm_earlier :: "operation list"
  nm_undo :: "operation list"

definition undo_rename :: "operation \<Rightarrow> operation option" where
  "undo_rename op =
     (case op of
        Schema (RenameTable old new) \<Rightarrow> Some (Schema (RenameTable new old))
      | Schema (RenameColumn table old new) \<Rightarrow> Some (Schema (RenameColumn table new old))
      | _ \<Rightarrow> None)"

definition names_new :: "operation list \<Rightarrow> names" where
  "names_new earlier = \<lparr>nm_earlier = earlier, nm_undo = List.map_filter undo_rename (rev earlier)\<rparr>"

definition names_before :: "names \<Rightarrow> string \<Rightarrow> string" where
  "names_before n table = name_at_end table (nm_undo n)"

definition names_column_before :: "names \<Rightarrow> string \<Rightarrow> string \<Rightarrow> string" where
  "names_column_before n table column = hd (columns_at_end table [column] (nm_undo n))"

text \<open>\<open>any\<close> stops at the first hit, so only the name of \<open>prev\<close>'s table is ever compared.\<close>

fun renames_from :: "string \<Rightarrow> operation list \<Rightarrow> bool" where
  "renames_from name [] = False"
| "renames_from name (Schema (RenameTable old new) # ops) = (if old = name then True else renames_from name ops)"
| "renames_from name (Schema (RenameColumn table _ _) # ops) = (table = name \<or> renames_from name ops)"
| "renames_from name (_ # ops) = renames_from name ops"

definition names_renames :: "names \<Rightarrow> string \<Rightarrow> bool" where
  "names_renames n table = renames_from table (nm_earlier n)"

definition names_now :: "names \<Rightarrow> string \<Rightarrow> string" where
  "names_now n table = name_at_end table (nm_earlier n)"

definition columns_now :: "names \<Rightarrow> string \<Rightarrow> string list \<Rightarrow> string list" where
  "columns_now n table columns = columns_at_end table columns (nm_earlier n)"

section \<open>Inverting\<close>

datatype invert_error =
    TableNotInPrev string
  | ColumnTableNotInPrev string string \<comment> \<open>table, column\<close>
  | ColumnNotInPrev string string \<comment> \<open>table, column\<close>
  | CheckNotInPrev string
  | ExclusionNotInPrev string
  | IndexNotInPrev string
  | JunctionNotInPrev string
  | CompositeFkTableNotInPrev string string \<comment> \<open>table, name\<close>
  | CompositeFkNotInPrev string string \<comment> \<open>table, name\<close>
  | DataNotReversible string
  | DataMissingReverseSql string
  | CallbackNotReversible string

text \<open>
  A dropped CHECK, partial index or partial EXCLUDE constraint on a table that an earlier operation
  renamed: recreated as \<open>prev\<close> has it, once every rename is undone.
\<close>

definition recreate_as_prev :: "operation \<Rightarrow> schema_snapshot \<Rightarrow> names \<Rightarrow> operation option" where
  "recreate_as_prev op prev names =
     Option.bind
       (case op of
          Schema (DropCheckConstraint name _) \<Rightarrow>
            map_option (\<lambda>c. AddCheckConstraint name (ck_table c) (ck_expr c)) (snap_check prev name)
        | Schema (DropIndex name _) \<Rightarrow>
            (case snap_index prev name of
               None \<Rightarrow> None
             | Some i \<Rightarrow>
                 if ix_where_clause i \<noteq> None
                 then Some (CreateIndex name (ix_table i) (ix_columns i) (ix_unique i) (ix_method i)
                              (ix_where_clause i) (ix_include i))
                 else None)
        | Schema (DropExclusionConstraint name _) \<Rightarrow>
            map_option add_exclude
              (List.find (\<lambda>x. ex_name x = name \<and> ex_where_clause x \<noteq> None) (sn_excludes prev))
        | _ \<Rightarrow> None)
       (\<lambda>change. if names_renames names (change_table change) then Some (Schema change) else None)"

definition exclude_now :: "names \<Rightarrow> exclusion_snapshot \<Rightarrow> exclusion_snapshot" where
  "exclude_now names x =
     x\<lparr>ex_elements := map (\<lambda>((_, p), now). (now, p))
         (zip (ex_elements x) (columns_now names (ex_table x) (map fst (ex_elements x)))),
       ex_table := names_now names (ex_table x)\<rparr>"

fun invert_change :: "schema_change \<Rightarrow> schema_snapshot \<Rightarrow> names \<Rightarrow> invert_error + schema_change" where
  "invert_change (CreateTable t) prev names = Inr (DropTable t)"
| "invert_change (DropTable t) prev names =
     (if snap_table prev (names_before names t) = None then Inl (TableNotInPrev t) else Inr (CreateTable t))"
| "invert_change (AddColumn table column) prev names = Inr (DropColumn table column)"
| "invert_change (DropColumn table column) prev names =
     (case snap_table prev (names_before names table) of
        None \<Rightarrow> Inl (ColumnTableNotInPrev table column)
      | Some t \<Rightarrow>
          if ts_field t (names_column_before names table column) = None then Inl (ColumnNotInPrev table column)
          else Inr (AddColumn table column))"
| "invert_change (AlterColumnType table column from to) prev names = Inr (AlterColumnType table column to from)"
| "invert_change (AlterColumnNullable table column nullable) prev names =
     Inr (AlterColumnNullable table column (\<not> nullable))"
| "invert_change (AlterColumnDefault table column from to) prev names = Inr (AlterColumnDefault table column to from)"
| "invert_change (AlterColumnMaxLength table column from to) prev names = Inr (AlterColumnMaxLength table column to from)"
| "invert_change (AlterColumnComment table column from to) prev names = Inr (AlterColumnComment table column to from)"
| "invert_change (AlterTableComment table from to) prev names = Inr (AlterTableComment table to from)"
| "invert_change (AlterColumnUnique table column unique) prev names = Inr (AlterColumnUnique table column (\<not> unique))"
| "invert_change (AlterFkOnDelete table column from to) prev names = Inr (AlterFkOnDelete table column to from)"
| "invert_change (RenameTable old new) prev names = Inr (RenameTable new old)"
| "invert_change (RenameColumn table old new) prev names = Inr (RenameColumn table new old)"
| "invert_change (AddCheckConstraint name table _) prev names = Inr (DropCheckConstraint name table)"
| "invert_change (DropCheckConstraint name _) prev names =
     (case snap_check prev name of
        None \<Rightarrow> Inl (CheckNotInPrev name)
      | Some c \<Rightarrow> Inr (AddCheckConstraint name (names_now names (ck_table c)) (ck_expr c)))"
| "invert_change (AddExclusionConstraint name table _ _ _) prev names = Inr (DropExclusionConstraint name table)"
| "invert_change (DropExclusionConstraint name _) prev names =
     (case snap_exclude prev name of
        None \<Rightarrow> Inl (ExclusionNotInPrev name)
      | Some x \<Rightarrow> Inr (add_exclude (exclude_now names x)))"
| "invert_change (CreateIndex name table _ _ _ _ _) prev names = Inr (DropIndex name table)"
| "invert_change (DropIndex name _) prev names =
     (case snap_index prev name of
        None \<Rightarrow> Inl (IndexNotInPrev name)
      | Some i \<Rightarrow> Inr (CreateIndex name (names_now names (ix_table i)) (columns_now names (ix_table i) (ix_columns i))
                        (ix_unique i) (ix_method i) (ix_where_clause i) (columns_now names (ix_table i) (ix_include i))))"
| "invert_change (CreateM2MTable through _ _ _ _) prev names = Inr (DropM2MTable through)"
| "invert_change (DropM2MTable through) prev names =
     (case snap_m2m_table prev (names_before names through) of
        None \<Rightarrow> Inl (JunctionNotInPrev through)
      | Some m \<Rightarrow>
          (let cols = columns_now names (m2_through m) [m2_src_col m, m2_dst_col m]
           in Inr (CreateM2MTable through (names_now names (m2_src_table m)) (cols ! 0)
                     (names_now names (m2_dst_table m)) (cols ! 1))))"
| "invert_change (AddCompositeFk table name _ _ _) prev names = Inr (DropCompositeFk table name)"
| "invert_change (DropCompositeFk table name) prev names =
     (case snap_table prev (names_before names table) of
        None \<Rightarrow> Inl (CompositeFkTableNotInPrev table name)
      | Some t \<Rightarrow>
          (case ts_composite_fk t name of
             None \<Rightarrow> Inl (CompositeFkNotInPrev table name)
           | Some c \<Rightarrow> Inr (AddCompositeFk table name (names_now names (cf_to c))
                             (columns_now names (ts_name t) (cf_from c)) (columns_now names (cf_to c) (cf_on c)))))"

fun invert_one :: "operation \<Rightarrow> schema_snapshot \<Rightarrow> names \<Rightarrow> invert_error + operation" where
  "invert_one (Schema change) prev names =
     (case invert_change change prev names of Inl e \<Rightarrow> Inl e | Inr c \<Rightarrow> Inr (Schema c))"
| "invert_one (Data d) prev names =
     (if \<not> do_reversible d then Inl (DataNotReversible (do_sql d))
      else case do_reverse_sql d of
             None \<Rightarrow> Inl (DataMissingReverseSql (do_sql d))
           | Some reverse_sql \<Rightarrow> Inr (Data \<lparr>do_sql = reverse_sql, do_reverse_sql = None, do_reversible = False\<rparr>))"
| "invert_one (Callback c) prev names =
     (case cb_reverse_name c of
        None \<Rightarrow> Inl (CallbackNotReversible (cb_name c))
      | Some reverse_name \<Rightarrow> Inr (Callback \<lparr>cb_name = reverse_name, cb_reverse_name = None\<rparr>))"

text \<open>
  The loop of \<open>invert\<close> over the indices from the end down: \<open>out\<close> collects the inverses, \<open>last\<close> the
  objects that are recreated once everything else is undone.
\<close>

fun invert_from ::
  "operation list \<Rightarrow> schema_snapshot \<Rightarrow> nat \<Rightarrow> operation list \<Rightarrow> operation list \<Rightarrow> invert_error + operation list" where
  "invert_from forward prev 0 out final = Inr (out @ final)"
| "invert_from forward prev (Suc i) out final =
     (let op = forward ! i; names = names_new (take i forward)
      in case recreate_as_prev op prev names of
           Some op' \<Rightarrow> invert_from forward prev i out (final @ [op'])
         | None \<Rightarrow>
             (case invert_one op prev names of
                Inl e \<Rightarrow> Inl e
              | Inr op' \<Rightarrow> invert_from forward prev i (out @ [op']) final))"

definition invert :: "operation list \<Rightarrow> schema_snapshot \<Rightarrow> invert_error + operation list" where
  "invert forward prev = invert_from forward prev (length forward) [] []"

text \<open>
  \<open>invert_migration\<close>: the positions of the drops of tables that this migration created take those
  names in the order children first, when the two sequences have the same length.
\<close>

definition dropped_created :: "string list \<Rightarrow> operation \<Rightarrow> string option" where
  "dropped_created created op =
     (case op of Schema (DropTable t) \<Rightarrow> if t \<in> set created then Some t else None | _ \<Rightarrow> None)"

fun fill_slots :: "string list \<Rightarrow> string list \<Rightarrow> operation list \<Rightarrow> operation list" where
  "fill_slots created ordered [] = []"
| "fill_slots created [] (op # ops) = op # ops"
| "fill_slots created (t # ts) (op # ops) =
     (if dropped_created created op = None then op # fill_slots created (t # ts) ops
      else Schema (DropTable t) # fill_slots created ts ops)"

definition invert_migration :: "migration \<Rightarrow> schema_snapshot \<Rightarrow> invert_error + operation list" where
  "invert_migration mig prev =
     (case invert (mg_forward mig) prev of
        Inl e \<Rightarrow> Inl e
      | Inr out \<Rightarrow>
          (let created = dropped_tables_child_first (mg_snapshot mig) prev;
               names = List.map_filter (dropped_created created) out;
               ordered = filter (\<lambda>c. c \<in> set names) created
           in Inr (if length ordered = length names then fill_slots created ordered out else out)))"

section \<open>No operation is skipped\<close>

lemma invert_from_length:
  assumes "invert_from forward prev i out final = Inr ops"
  shows "length ops = i + length out + length final"
  using assms
proof (induction forward prev i out final rule: invert_from.induct)
  case (2 forward prev i out final)
  then show ?case by (auto simp: Let_def split: option.splits sum.splits)
qed auto

lemma recreate_as_prev_schema: "recreate_as_prev op prev names \<noteq> None \<Longrightarrow> \<exists>c. op = Schema c"
  by (cases op) (auto simp: recreate_as_prev_def)

lemma invert_from_fails:
  assumes "j < i" "\<And>names. \<exists>e. invert_one (forward ! j) prev names = Inl e" "\<And>c. forward ! j \<noteq> Schema c"
  shows "\<exists>e. invert_from forward prev i out final = Inl e"
  using assms
proof (induction forward prev i out final rule: invert_from.induct)
  case (2 forward prev i out final)
  show ?case
  proof (cases "j = i")
    case True
    moreover have "recreate_as_prev (forward ! i) prev n = None" for n
      using recreate_as_prev_schema [of "forward ! i" prev n] 2(5) True by blast
    moreover obtain e where "invert_one (forward ! i) prev (names_new (take i forward)) = Inl e"
      using 2(4) [of "names_new (take i forward)"] True by blast
    ultimately show ?thesis by (simp add: Let_def)
  next
    case False
    with 2 show ?thesis by (auto simp: Let_def split: option.split sum.split)
  qed
qed simp

section \<open>Rolling back a computed diff\<close>

text \<open>An operation whose inverse is plainly its opposite: no earlier rename changes what it names.\<close>

definition plain_inverse :: "schema_snapshot \<Rightarrow> schema_change list \<Rightarrow> schema_change \<Rightarrow> bool" where
  "plain_inverse prev earlier op \<longleftrightarrow>
     recreate_as_prev (Schema op) prev (names_new (map Schema earlier)) = None \<and>
     invert_change op prev (names_new (map Schema earlier)) = Inr (undo_op prev op)"

lemma invert_from_plain:
  assumes "\<And>j. j < i \<Longrightarrow> plain_inverse prev (take j ops) (ops ! j)" "i \<le> length ops"
  shows "invert_from (map Schema ops) prev i out final =
    Inr (out @ map Schema (rev (map (undo_op prev) (take i ops))) @ final)"
  using assms
proof (induction i arbitrary: out)
  case (Suc i)
  then have "plain_inverse prev (take i ops) (ops ! i)" by simp
  with Suc show ?case by (simp add: plain_inverse_def take_map Let_def take_Suc_conv_app_nth)
qed simp

lemma invert_plain:
  assumes "\<And>xs op ys. ops = xs @ op # ys \<Longrightarrow> plain_inverse prev xs op"
  shows "invert (map Schema ops) prev = Inr (map Schema (rev (map (undo_op prev) ops)))"
proof -
  have "plain_inverse prev (take j ops) (ops ! j)" if "j < length ops" for j
    by (rule assms) (rule id_take_nth_drop [OF that])
  then show ?thesis using invert_from_plain [of "length ops" prev ops] by (simp add: invert_def)
qed

definition renames_only :: "string set \<Rightarrow> schema_change \<Rightarrow> bool" where
  "renames_only T op = (case op of RenameTable _ _ \<Rightarrow> False | RenameColumn t _ _ \<Rightarrow> t \<in> T | _ \<Rightarrow> True)"

lemma rename_name_only: "renames_only T op \<Longrightarrow> rename_name t (Schema op) = t"
  by (cases op) (simp_all add: renames_only_def rename_name_def)

definition undone_rename :: "schema_change \<Rightarrow> schema_change option" where
  "undone_rename op = (case op of RenameTable a b \<Rightarrow> Some (RenameTable b a) | RenameColumn t a b \<Rightarrow> Some (RenameColumn t b a) | _ \<Rightarrow> None)"

lemma names_undo: "nm_undo (names_new (map Schema earlier)) = map Schema (List.map_filter undone_rename (rev earlier))"
proof -
  have step: "undo_rename (Schema op) = map_option Schema (undone_rename op)" for op
    by (cases op) (simp_all add: undo_rename_def undone_rename_def)
  have "List.map_filter undo_rename (map Schema ops) = map Schema (List.map_filter undone_rename ops)" for ops
    by (induction ops) (auto simp: List.map_filter_def step)
  then show ?thesis by (simp add: names_new_def rev_map)
qed

lemma undone_renames_only:
  "list_all (renames_only T) ops \<Longrightarrow> list_all (renames_only T) (List.map_filter undone_rename (rev ops))"
proof -
  have "renames_only T op'" if "undone_rename op = Some op'" "renames_only T op" for op op'
    using that by (cases op) (auto simp: undone_rename_def renames_only_def)
  then show "list_all (renames_only T) ops \<Longrightarrow> ?thesis" by (auto simp: list_all_iff in_map_filter)
qed

lemma name_kept: "list_all (renames_only T) ops \<Longrightarrow> name_at_end t (map Schema ops) = t"
  by (induction ops) (auto simp: name_at_end_def rename_name_only)

lemma columns_kept:
  assumes "list_all (renames_only T) ops" "t \<notin> T"
  shows "columns_at_end t cs (map Schema ops) = cs"
proof -
  have "rename_columns (t, cs) (Schema op) = (t, cs)" if "renames_only T op" for op
    using that assms(2) by (cases op) (auto simp: renames_only_def rename_columns_def)
  with assms(1) have "foldl rename_columns (t, cs) (map Schema ops) = (t, cs)"
    by (induction ops) auto
  then show ?thesis by (simp add: columns_at_end_def)
qed

lemma names_kept:
  assumes "list_all (renames_only T) earlier"
  shows "names_now (names_new (map Schema earlier)) t = t"
    and "names_before (names_new (map Schema earlier)) t = t"
    and "t \<notin> T \<Longrightarrow> columns_now (names_new (map Schema earlier)) t cs = cs"
    and "t \<notin> T \<Longrightarrow> names_column_before (names_new (map Schema earlier)) t col = col"
    and "t \<notin> T \<Longrightarrow> \<not> names_renames (names_new (map Schema earlier)) t"
proof -
  note undone = undone_renames_only [OF assms]
  show "names_now (names_new (map Schema earlier)) t = t"
    by (simp add: names_now_def names_new_def name_kept [OF assms])
  show "names_before (names_new (map Schema earlier)) t = t"
    by (simp add: names_before_def names_undo name_kept [OF undone])
  show "t \<notin> T \<Longrightarrow> columns_now (names_new (map Schema earlier)) t cs = cs"
    by (simp add: columns_now_def names_new_def columns_kept [OF assms])
  show "t \<notin> T \<Longrightarrow> names_column_before (names_new (map Schema earlier)) t col = col"
    by (simp add: names_column_before_def names_undo columns_kept [OF undone])
  assume t: "t \<notin> T"
  have "\<not> renames_from t (map Schema earlier)" using assms t
  proof (induction earlier)
    case (Cons op ops)
    then show ?case by (cases op) (auto simp: renames_only_def)
  qed simp
  then show "\<not> names_renames (names_new (map Schema earlier)) t"
    by (simp add: names_renames_def names_new_def)
qed

lemma prefix_before:
  assumes "xs @ op # ys = as @ bs" "op \<notin> set bs"
  shows "\<exists>zs. as = xs @ op # zs"
proof -
  from assms(1) consider us where "as = xs @ us" "op # ys = us @ bs" | us where "bs = us @ op # ys"
    by (auto simp: append_eq_append_conv2)
  then show ?thesis
  proof cases
    case (1 us)
    then show ?thesis using assms(2) by (cases us) auto
  qed (use assms(2) in auto)
qed

definition drop_dependents_phases :: "schema_snapshot \<Rightarrow> schema_snapshot \<Rightarrow> schema_change list" where
  "drop_dependents_phases p c = drop_composite_fks p c @ drop_indexes p c @ drop_checks p c @ drop_excludes p c"

definition later_phases :: "schema_snapshot \<Rightarrow> schema_snapshot \<Rightarrow> schema_change list" where
  "later_phases p c = create_tables p c @ add_columns p c @ alter_columns p c @ alter_comments p c @
     drop_columns p c @ drop_tables p c @ new_indexes p c @
     (recreate_indexes p c @ recreate_checks p c @ recreate_excludes p c @ recreate_junctions p c) @
     new_checks p c @ new_excludes p c @ new_junctions p c @ new_composite_fks p c @ recreate_composite_fks p c"

lemma detect_changes_phases:
  "detect_changes p c = drop_dependents_phases p c @ drop_junctions p c @ later_phases p c"
  by (simp add: detect_changes_def drop_dependents_phases_def later_phases_def)

definition takes_down :: "schema_change \<Rightarrow> bool" where
  "takes_down op =
     (case op of DropIndex _ _ \<Rightarrow> True | DropCheckConstraint _ _ \<Rightarrow> True | DropExclusionConstraint _ _ \<Rightarrow> True
      | DropCompositeFk _ _ \<Rightarrow> True | _ \<Rightarrow> False)"

definition on_junction :: "schema_change \<Rightarrow> bool" where
  "on_junction op = (case op of RenameColumn _ _ _ \<Rightarrow> True | DropM2MTable _ \<Rightarrow> True | _ \<Rightarrow> False)"

definition is_alter :: "schema_change \<Rightarrow> bool" where
  "is_alter op =
     (case op of AlterColumnType _ _ _ _ \<Rightarrow> True | AlterColumnNullable _ _ _ \<Rightarrow> True | AlterColumnDefault _ _ _ _ \<Rightarrow> True
      | AlterColumnMaxLength _ _ _ _ \<Rightarrow> True | AlterColumnComment _ _ _ _ \<Rightarrow> True | AlterColumnUnique _ _ _ \<Rightarrow> True
      | AlterFkOnDelete _ _ _ _ \<Rightarrow> True | _ \<Rightarrow> False)"

lemma alter_changes_alter: "op \<in> set (alter_changes t pf cf) \<Longrightarrow> is_alter op"
  by (auto simp: alter_changes_def Let_def is_alter_def split: if_splits option.splits)

lemma alter_columns_alter: "op \<in> set (alter_columns p c) \<Longrightarrow> is_alter op"
  by (auto simp: alter_columns_def dest: alter_changes_alter split: option.splits)

lemma is_alter_kind:
  "is_alter op \<Longrightarrow> \<not> takes_down op \<and> \<not> on_junction op \<and> op \<noteq> DropTable t \<and> op \<noteq> DropColumn t col \<and> op \<noteq> CreateTable t"
  by (cases op) (simp_all add: is_alter_def takes_down_def on_junction_def)

lemma later_phases_kind: "op \<in> set (later_phases p c) \<Longrightarrow> \<not> takes_down op \<and> \<not> on_junction op"
proof -
  have dep: "\<not> takes_down op \<and> \<not> on_junction op" if "op \<in> dependents c" for op
    using that by (auto simp: dependents_def takes_down_def on_junction_def op_defs)
  have "\<not> takes_down op \<and> \<not> on_junction op"
    if "op \<in> set (create_tables p c @ add_columns p c @ alter_comments p c @ drop_columns p c @ drop_tables p c)" for op
    using that by (auto simp: create_tables_def add_columns_def alter_comments_def drop_columns_def drop_tables_def
        takes_down_def on_junction_def split: option.splits if_splits)
  then show "op \<in> set (later_phases p c) \<Longrightarrow> \<not> takes_down op \<and> \<not> on_junction op"
    using dep creates_dependents [of p c] alter_columns_alter [of op p c] is_alter_kind [of op] by (auto simp: later_phases_def)
qed

lemma drop_phases_kind: "op \<in> set (drop_dependents_phases p c) \<Longrightarrow> takes_down op \<and> \<not> on_junction op"
  by (auto simp: drop_dependents_phases_def drop_composite_fks_def drop_indexes_def drop_checks_def drop_excludes_def takes_down_def on_junction_def
      split: option.splits)

lemma drop_junctions_kind: "op \<in> set (drop_junctions p c) \<Longrightarrow> on_junction op \<and> \<not> takes_down op"
  using drop_junctions_shape by (fastforce simp: takes_down_def on_junction_def)

text \<open>The renames of a diff are of junctions that stay; no dropped junction is among them.\<close>

definition kept_junctions :: "schema_snapshot \<Rightarrow> schema_snapshot \<Rightarrow> string set" where
  "kept_junctions p c = {m2_through m |m. m \<in> set (sn_m2m_tables p) \<and> junction_renames c m \<noteq> None}"

lemma renames_only_kind: "\<not> on_junction op \<Longrightarrow> \<not> moves_keys op \<Longrightarrow> renames_only T op"
  by (cases op) (simp_all add: on_junction_def moves_keys_def renames_only_def)

lemma drop_junctions_member:
  assumes "op \<in> set (drop_junctions p c)"
  shows "\<exists>m\<in>set (sn_m2m_tables p).
    (\<exists>a b. op = RenameColumn (m2_through m) a b \<and> junction_renames c m \<noteq> None) \<or>
    (op = DropM2MTable (m2_through m) \<and> junction_renames c m = None)"
proof -
  obtain m where m: "m \<in> set (sn_m2m_tables p)" "op \<in> set (case junction_renames c m of
      Some renames \<Rightarrow> renames | None \<Rightarrow> if junction_same c m then [] else [DropM2MTable (m2_through m)])"
    using assms by (auto simp: drop_junctions_def)
  show ?thesis
  proof (cases "junction_renames c m")
    case None
    with m show ?thesis by (auto split: if_splits)
  next
    case (Some rs)
    with junction_kept [OF Some] m have "\<exists>a b. op = RenameColumn (m2_through m) a b"
      using m2m_renames_shape by auto
    with Some m(1) show ?thesis by blast
  qed
qed

lemma drop_junctions_renames: "op \<in> set (drop_junctions p c) \<Longrightarrow> renames_only (kept_junctions p c) op"
  using drop_junctions_member [of op p c] by (fastforce simp: kept_junctions_def renames_only_def)

lemma detect_changes_renames: "list_all (renames_only (kept_junctions p c)) (detect_changes p c)"
proof -
  have "renames_only (kept_junctions p c) op" if "op \<in> set (detect_changes p c)" for op
  proof (cases "op \<in> set (drop_junctions p c)")
    case False
    with that have "\<not> on_junction op"
      unfolding detect_changes_phases using drop_phases_kind later_phases_kind by auto
    moreover have "\<not> moves_keys op" using that detect_changes_local by (simp add: list_all_iff)
    ultimately show ?thesis by (rule renames_only_kind)
  qed (rule drop_junctions_renames)
  then show ?thesis by (simp add: list_all_iff)
qed

lemma kept_junction_not_dropped:
  assumes "wf_names p" "DropM2MTable t \<in> set (drop_junctions p c)"
  shows "t \<notin> kept_junctions p c"
proof
  assume "t \<in> kept_junctions p c"
  then obtain m where m: "m \<in> set (sn_m2m_tables p)" "m2_through m = t" "junction_renames c m \<noteq> None"
    by (auto simp: kept_junctions_def)
  obtain m' where m': "m' \<in> set (sn_m2m_tables p)" "m2_through m' = t" "junction_renames c m' = None"
    using drop_junctions_member [OF assms(2)] by auto
  have "m = m'" using m m' assms(1) by (auto simp: wf_names_def distinct_map inj_on_def)
  with m m' show False by simp
qed

lemma kept_junction_no_table:
  "refs_ok p \<Longrightarrow> snap_table p t \<noteq> None \<Longrightarrow> t \<notin> kept_junctions p c"
  by (auto simp: refs_ok_def kept_junctions_def)

lemma map_fst_zip_self: "map (\<lambda>((_, p), now). (now, p)) (zip xs (map fst xs)) = xs"
  by (induction xs) auto

lemma plain_takes_down:
  assumes wf: "wf_names p" and op: "op \<in> set (drop_dependents_phases p c)" and none: "list_all (renames_only {}) earlier"
  shows "plain_inverse p earlier op"
proof -
  have kept: "names_now (names_new (map Schema earlier)) t = t" "names_before (names_new (map Schema earlier)) t = t"
      "columns_now (names_new (map Schema earlier)) t cs = cs" "\<not> names_renames (names_new (map Schema earlier)) t" for t cs
    using names_kept [OF none] by auto
  have rec: "recreate_as_prev (Schema op) p (names_new (map Schema earlier)) = None"
    by (auto simp: recreate_as_prev_def kept split: Option.bind_split)
  have ex: "exclude_now (names_new (map Schema earlier)) x = x" for x
    by (simp add: exclude_now_def kept map_fst_zip_self)
  from op consider
      (fk) pt pf where "pt \<in> set (sn_tables p)" "pf \<in> set (ts_composite_fks pt)" "op = DropCompositeFk (ts_name pt) (cf_name pf)"
    | (index) i where "i \<in> set (sn_indexes p)" "op = DropIndex (ix_name i) (ix_table i)"
    | (check) k where "k \<in> set (sn_checks p)" "op = DropCheckConstraint (ck_name k) (ck_table k)"
    | (exclude) x where "x \<in> set (sn_excludes p)" "op = DropExclusionConstraint (ex_name x) (ex_table x)"
    by (auto simp: drop_dependents_phases_def drop_composite_fks_def drop_indexes_def drop_checks_def drop_excludes_def
        split: option.splits)
  then have "invert_change op p (names_new (map Schema earlier)) = Inr (undo_op p op)"
  proof cases
    case fk
    then have "snap_table p (ts_name pt) = Some pt" "ts_composite_fk pt (cf_name pf) = Some pf"
      using wf by (auto simp: wf_names_def wf_table_def snap_table_def ts_composite_fk_def find_by_in)
    with fk show ?thesis by (simp add: kept add_composite_fk_def)
  next
    case index
    then have "snap_index p (ix_name i) = Some i"
      using wf by (auto simp: wf_names_def snap_index_def find_by_in)
    with index show ?thesis by (simp add: kept create_index_def)
  next
    case check
    then have "snap_check p (ck_name k) = Some k"
      using wf by (auto simp: wf_names_def snap_check_def find_by_in)
    with check show ?thesis by (simp add: kept add_check_def)
  next
    case exclude
    then have "snap_exclude p (ex_name x) = Some x"
      using wf by (auto simp: wf_names_def snap_exclude_def find_by_in)
    with exclude show ?thesis by (simp add: ex)
  qed
  with rec show ?thesis by (simp add: plain_inverse_def)
qed

lemma no_recreate: "\<not> takes_down op \<Longrightarrow> recreate_as_prev (Schema op) p names = None"
  by (cases op) (simp_all add: recreate_as_prev_def takes_down_def)

lemma plain_drop_junction:
  assumes wf: "wf_names p" and op: "op \<in> set (drop_junctions p c)"
    and only: "list_all (renames_only (kept_junctions p c)) earlier"
  shows "plain_inverse p earlier op"
proof -
  have "invert_change op p (names_new (map Schema earlier)) = Inr (undo_op p op)"
    using drop_junctions_shape [OF op]
  proof (elim disjE exE)
    fix t assume t: "op = DropM2MTable t"
    then have "t \<notin> kept_junctions p c" using kept_junction_not_dropped [OF wf] op by blast
    note kept = names_kept [OF only] names_kept(3) [OF only this]
    obtain m where "m \<in> set (sn_m2m_tables p)" "m2_through m = t"
      using drop_junctions_member [OF op] t by auto
    then have "snap_m2m_table p t = Some m" "m2_through m = t" using wf by (auto simp: wf_names_def snap_m2m_table_def find_by_in)
    with t show ?thesis by (simp add: kept create_m2m_def)
  qed simp
  then show ?thesis using drop_junctions_kind [OF op] no_recreate by (simp add: plain_inverse_def)
qed

lemma plain_later:
  assumes wf: "wf_names p" "refs_ok p" and op: "op \<in> set (later_phases p c)"
    and only: "list_all (renames_only (kept_junctions p c)) earlier"
  shows "plain_inverse p earlier op"
proof -
  have kind: "\<not> takes_down op" "\<not> on_junction op" using later_phases_kind [OF op] by auto
  have "invert_change op p (names_new (map Schema earlier)) = Inr (undo_op p op)"
  proof (cases op)
    case (DropTable t)
    then have "op \<notin> dependents c" by (auto simp: dependents_def op_defs)
    then have "t \<in> set (dropped_tables_child_first p c)"
      using op DropTable creates_dependents [of p c]
      by (auto simp: later_phases_def create_tables_def add_columns_def alter_comments_def drop_columns_def drop_tables_def
          dest!: alter_columns_alter simp: is_alter_def split: option.splits if_splits)
    then show ?thesis using DropTable by (simp add: set_dropped_tables names_kept [OF only])
  next
    case (DropColumn t col)
    then have "op \<notin> dependents c" by (auto simp: dependents_def op_defs)
    then have "op \<in> set (drop_columns p c)"
      using op DropColumn creates_dependents [of p c]
      by (auto simp: later_phases_def create_tables_def add_columns_def alter_comments_def drop_tables_def
          dest!: alter_columns_alter simp: is_alter_def split: option.splits if_splits)
    then obtain pt f where "pt \<in> set (sn_tables p)" "f \<in> set (ts_fields pt)" "ts_name pt = t" "fs_column f = col"
      using DropColumn by (auto simp: drop_columns_def split: option.splits)
    then have "snap_table p t = Some pt" "ts_field pt col = Some f"
      using wf by (auto simp: wf_names_def wf_table_def snap_table_def ts_field_def find_by_in)
    moreover from this have "t \<notin> kept_junctions p c" using kept_junction_no_table [OF wf(2)] by simp
    ultimately show ?thesis using DropColumn by (simp add: names_kept [OF only])
  qed (use kind in \<open>simp_all add: takes_down_def on_junction_def\<close>)
  then show ?thesis using kind no_recreate by (simp add: plain_inverse_def)
qed

lemma invert_detect_changes:
  assumes wf: "wf_names p" "refs_ok p"
  shows "invert (map Schema (detect_changes p c)) p =
    Inr (map Schema (rev (map (undo_op p) (detect_changes p c))))"
proof (rule invert_plain)
  fix xs op ys
  assume eq: "detect_changes p c = xs @ op # ys"
  then have only: "list_all (renames_only (kept_junctions p c)) xs"
    using detect_changes_renames [of p c] by simp
  have op: "op \<in> set (detect_changes p c)" by (simp add: eq)
  show "plain_inverse p xs op"
  proof (cases "takes_down op")
    case True
    then have no: "op \<notin> set (drop_junctions p c @ later_phases p c)"
      using drop_junctions_kind later_phases_kind by auto
    from eq have "xs @ op # ys = drop_dependents_phases p c @ (drop_junctions p c @ later_phases p c)"
      by (simp add: detect_changes_phases)
    from prefix_before [OF this no] obtain zs where zs: "drop_dependents_phases p c = xs @ op # zs" by blast
    then have "set xs \<subseteq> set (drop_dependents_phases p c)" "op \<in> set (drop_dependents_phases p c)" by auto
    moreover have "renames_only {} op'" if "op' \<in> set (drop_dependents_phases p c)" for op'
      using drop_phases_kind [OF that] by (cases op') (simp_all add: takes_down_def renames_only_def)
    ultimately show ?thesis by (intro plain_takes_down [OF wf(1)]) (auto simp: list_all_iff)
  next
    case False
    then have "op \<notin> set (drop_dependents_phases p c)" using drop_phases_kind by blast
    then show ?thesis
      using op plain_drop_junction [OF wf(1) _ only] plain_later [OF wf _ only]
      by (auto simp: detect_changes_phases)
  qed
qed

end
