(* ===== verification/Rollback.thy ===== *)
theory Rollback
  imports Invert Diff_Correct
begin

text \<open>
  What \<open>invert_migration\<close> adds to \<open>invert\<close>: the tables that the migration created are dropped children
  first. The lemmas show that the order is a permutation that drops no table before one that refers to
  it, and that with it the rollback of a computed migration still restores the previous catalog.
\<close>

section \<open>Children first\<close>

definition fk_edges :: "table_snapshot list \<Rightarrow> (string \<times> string) list" where
  "fk_edges tables = concat (map (\<lambda>a. map (\<lambda>b. (ts_name a, ts_name b)) (filter (\<lambda>b. references a (ts_name b)) tables)) tables)"

lemma fk_edges_iff:
  "(x, y) \<in> set (fk_edges tables) \<longleftrightarrow>
     (\<exists>a\<in>set tables. \<exists>b\<in>set tables. x = ts_name a \<and> y = ts_name b \<and> references a (ts_name b))"
  by (auto simp: fk_edges_def)

lemma fk_edges_mono: "set xs \<subseteq> set ys \<Longrightarrow> set (fk_edges xs) \<subseteq> set (fk_edges ys)"
  by (auto simp: fk_edges_def)

lemma next_dropped_free:
  assumes "acyclic (set (fk_edges left))" "left \<noteq> []"
  shows "\<forall>o'\<in>set left. \<not> references o' (ts_name (left ! next_dropped left))"
proof -
  have "wf (set (fk_edges left))" using assms(1) by (simp add: finite_acyclic_wf)
  moreover have "ts_name (hd left) \<in> ts_name ` set left" using assms(2) by simp
  ultimately obtain z where "z \<in> ts_name ` set left" "\<And>y. (y, z) \<in> set (fk_edges left) \<Longrightarrow> y \<notin> ts_name ` set left"
    by (rule wfE_min) blast
  moreover from this(1) obtain t where t: "t \<in> set left" "z = ts_name t" by auto
  ultimately have "\<not> references o' (ts_name t)" if "o' \<in> set left" for o'
    using that fk_edges_iff [of "ts_name o'" z left] by auto
  with t(1) have "\<exists>t\<in>set left. \<not> list_ex (\<lambda>o'. references o' (ts_name t)) left"
    by (auto simp: list_ex_iff)
  then obtain i where "position (\<lambda>t. \<not> list_ex (\<lambda>o'. references o' (ts_name t)) left) left = Some i"
    by (cases "position (\<lambda>t. \<not> list_ex (\<lambda>o'. references o' (ts_name t)) left) left") (auto simp: position_None)
  moreover from position_Some [OF this] have "\<not> list_ex (\<lambda>o'. references o' (ts_name (left ! i))) left" by simp
  ultimately show ?thesis by (simp add: next_dropped_def list_ex_iff)
qed

lemma drop_order_child_first:
  assumes "acyclic (set (fk_edges tables))" "distinct (map ts_name tables)" "set left \<subseteq> set tables"
  shows "sorted_wrt (\<lambda>earlier later. (later, earlier) \<notin> set (fk_edges tables)) (drop_order left)"
  using assms(3)
proof (induction left rule: drop_order.induct)
  case (1 left)
  show ?case
  proof (cases "left = []")
    case False
    let ?i = "next_dropped left"
    let ?rest = "take ?i left @ drop (Suc ?i) left"
    have rest: "set ?rest \<subseteq> set left" by (auto dest: in_set_takeD in_set_dropD)
    have "acyclic (set (fk_edges left))" using assms(1) fk_edges_mono [OF 1(2)] acyclic_subset by blast
    then have head: "\<forall>u\<in>set left. \<not> references u (ts_name (left ! ?i))" using next_dropped_free False by blast
    have "(later, ts_name (left ! ?i)) \<notin> set (fk_edges tables)" if "later \<in> set (drop_order ?rest)" for later
    proof
      assume "(later, ts_name (left ! ?i)) \<in> set (fk_edges tables)"
      then obtain a where a: "a \<in> set tables" "later = ts_name a" "references a (ts_name (left ! ?i))"
        by (auto simp: fk_edges_iff)
      have "set (drop_order ?rest) = ts_name ` set ?rest" using mset_eq_setD [OF mset_drop_order [of ?rest]] by auto
      with that obtain u where u: "u \<in> set left" "ts_name u = later" using rest by auto
      then have "u = a" using a 1(2) assms(2) by (auto simp: distinct_map inj_on_def)
      with u a head show False by blast
    qed
    moreover have "sorted_wrt (\<lambda>earlier later. (later, earlier) \<notin> set (fk_edges tables)) (drop_order ?rest)"
      by (rule 1(1)) (use 1(2) rest False in auto)
    ultimately show ?thesis using False by (simp add: drop_order.simps [of left] Let_def)
  qed (simp add: drop_order.simps)
qed

section \<open>The order of the drops does not change the result\<close>

lemma run_key_drop_tables:
  assumes "distinct ts"
  shows "run_key s k (map DropTable ts) v =
    (if v = None \<and> (\<exists>t\<in>set ts. k = KTable t) then None
     else Some (if \<exists>t\<in>set ts. owner k = Some t \<or> k = KJunction t \<or> owner k = None \<and> Option.bind v obj_on = Some t then None else v))"
  using assms
proof (induction ts arbitrary: v)
  case (Cons t ts)
  then show ?case by (cases "k = KTable t"; cases k) (auto simp: obj_step_def)
qed simp

lemma run_key_drop_tables_perm:
  "distinct ts \<Longrightarrow> distinct us \<Longrightarrow> set ts = set us \<Longrightarrow> run_key s k (map DropTable ts) v = run_key s k (map DropTable us) v"
  by (simp add: run_key_drop_tables)

section \<open>Filling the slots\<close>

lemma fill_slots_phase:
  assumes "\<forall>op\<in>set as. dropped_created created op = None" "set ts \<subseteq> set created" "length us = length ts"
  shows "fill_slots created us (as @ map (\<lambda>t. Schema (DropTable t)) ts @ bs) = as @ map (\<lambda>t. Schema (DropTable t)) us @ bs"
proof -
  have slots: "fill_slots created us (map (\<lambda>t. Schema (DropTable t)) ts @ bs) = map (\<lambda>t. Schema (DropTable t)) us @ bs"
    using assms(2,3)
  proof (induction ts arbitrary: us)
    case Nil
    then show ?case by (cases bs) auto
  next
    case (Cons t ts)
    then show ?case by (cases us) (auto simp: dropped_created_def)
  qed
  have "fill_slots created us (as @ cs) = as @ fill_slots created us cs" for cs
    using assms(1) by (induction as) (cases us; cases cs; auto)+
  with slots show ?thesis by simp
qed

section \<open>The rollback of a computed migration\<close>

definition undo_before :: "schema_snapshot \<Rightarrow> schema_snapshot \<Rightarrow> schema_change list" where
  "undo_before p c = rev (map (undo_op p) (add_columns p c @ alter_columns p c @ alter_comments p c @
     drop_columns p c @ drop_tables p c @ new_indexes p c @
     (recreate_indexes p c @ recreate_checks p c @ recreate_excludes p c @ recreate_junctions p c) @
     new_checks p c @ new_excludes p c @ new_junctions p c @ new_composite_fks p c @ recreate_composite_fks p c))"

definition undo_after :: "schema_snapshot \<Rightarrow> schema_snapshot \<Rightarrow> schema_change list" where
  "undo_after p c = rev (map (undo_op p) (drop_dependents_phases p c @ drop_junctions p c))"

definition created_tables :: "schema_snapshot \<Rightarrow> schema_snapshot \<Rightarrow> string list" where
  "created_tables p c = map ts_name (filter (\<lambda>t. snap_table p (ts_name t) = None) (sn_tables c))"

lemma undo_phases:
  "rev (map (undo_op p) (detect_changes p c)) = undo_before p c @ map DropTable (rev (created_tables p c)) @ undo_after p c"
  by (simp add: detect_changes_phases later_phases_def undo_before_def undo_after_def created_tables_def
      create_tables_def rev_map comp_def)

lemma created_tables_order:
  assumes "wf_names c"
  shows "distinct (created_tables p c)" "set (dropped_tables_child_first c p) = set (created_tables p c)"
    "distinct (dropped_tables_child_first c p)"
proof -
  have d: "distinct (map ts_name (sn_tables c))" using assms by (simp add: wf_names_def)
  then show "distinct (created_tables p c)" by (simp add: created_tables_def distinct_map_filter)
  show "distinct (dropped_tables_child_first c p)" using d by (rule distinct_dropped_tables)
  show "set (dropped_tables_child_first c p) = set (created_tables p c)"
    by (auto simp: set_dropped_tables created_tables_def snap_table_def find_by_None_iff)
qed

definition drops_table :: "schema_change \<Rightarrow> bool" where
  "drops_table op = (case op of DropTable _ \<Rightarrow> True | _ \<Rightarrow> False)"

lemma undo_drops_table: "drops_table (undo_op p op) \<longleftrightarrow> (\<exists>t. op = CreateTable t)"
  by (cases op) (auto simp: drops_table_def op_defs split: option.splits)

lemma no_other_drops:
  "op \<in> set (undo_before p c) \<Longrightarrow> \<not> drops_table op" "op \<in> set (undo_after p c) \<Longrightarrow> \<not> drops_table op"
proof -
  have dep: "CreateTable t \<notin> dependents c" for t by (auto simp: dependents_def op_defs)
  have alter: "CreateTable t \<notin> set (alter_columns p c)" for t by (auto dest!: alter_columns_alter simp: is_alter_def)
  have "CreateTable t \<notin> set (add_columns p c @ alter_comments p c @ drop_columns p c @ drop_tables p c)" for t
    by (auto simp: add_columns_def alter_comments_def drop_columns_def drop_tables_def split: option.splits if_splits)
  then show "op \<in> set (undo_before p c) \<Longrightarrow> \<not> drops_table op"
    by (auto simp: undo_before_def undo_drops_table alter dep dest!: creates_dependents [THEN subsetD])
  have "CreateTable t \<notin> set (drop_dependents_phases p c)" "CreateTable t \<notin> set (drop_junctions p c)" for t
    using drop_phases_kind [of "CreateTable t" p c] drop_junctions_kind [of "CreateTable t" p c]
    by (auto simp: takes_down_def on_junction_def)
  then show "op \<in> set (undo_after p c) \<Longrightarrow> \<not> drops_table op"
    by (auto simp: undo_after_def undo_drops_table)
qed

definition rollback_ops :: "schema_snapshot \<Rightarrow> schema_snapshot \<Rightarrow> schema_change list" where
  "rollback_ops p c = undo_before p c @ map DropTable (dropped_tables_child_first c p) @ undo_after p c"

lemma invert_migration_computed:
  assumes wf: "wf_names p" "refs_ok p" "wf_names c"
    and mig: "mg_forward mig = map Schema (detect_changes p c)" "mg_snapshot mig = c"
  shows "invert_migration mig p = Inr (map Schema (rollback_ops p c))"
proof -
  let ?created = "dropped_tables_child_first c p"
  let ?ts = "rev (created_tables p c)"
  have none: "dropped_created ?created (Schema op) = None" if "\<not> drops_table op" for op
    using that by (cases op) (simp_all add: drops_table_def dropped_created_def)
  then have quiet: "List.map_filter (dropped_created ?created) (map Schema ops) = []" if "\<forall>op\<in>set ops. \<not> drops_table op" for ops
    using that by (induction ops) (simp_all add: List.map_filter_def)
  have own: "List.map_filter (dropped_created ?created) (map (\<lambda>t. Schema (DropTable t)) ts) = ts" if "set ts \<subseteq> set ?created" for ts
    using that by (induction ts) (auto simp: List.map_filter_def dropped_created_def)
  note tables = created_tables_order [OF wf(3), of p]
  have before: "\<forall>op\<in>set (undo_before p c). \<not> drops_table op" and after: "\<forall>op\<in>set (undo_after p c). \<not> drops_table op"
    using no_other_drops by blast+
  let ?out = "map Schema (undo_before p c) @ map (\<lambda>t. Schema (DropTable t)) ?ts @ map Schema (undo_after p c)"
  have out: "invert (mg_forward mig) p = Inr ?out"
    by (simp only: mig(1) invert_detect_changes [OF wf(1,2)] undo_phases) (simp add: comp_def)
  have names: "List.map_filter (dropped_created ?created) ?out = ?ts"
    using quiet [OF before] quiet [OF after] own [of ?ts] tables(2) by (simp add: List.map_filter_def)
  have ordered: "filter (\<lambda>t. t \<in> set ?ts) ?created = ?created" using tables(2) by (simp add: filter_id_conv)
  have len: "length ?created = length ?ts" using tables by (metis distinct_card length_rev)
  have "fill_slots ?created ?created ?out = map Schema (rollback_ops p c)"
    using fill_slots_phase [of "map Schema (undo_before p c)" ?created ?ts ?created "map Schema (undo_after p c)"]
      before none tables(2) len by (auto simp: rollback_ops_def comp_def)
  then show ?thesis using names ordered len by (simp add: invert_migration_def out mig(2) Let_def)
qed

lemma rollback_ops_run:
  assumes wf: "wf_names p" "wf_names c" "refs_ok p" "refs_ok c" "detect_unsupported_field_changes p c = []"
  shows "run_changes p (rollback_ops p c) (catalog_of c) = Some (catalog_of p)"
proof (rule run_changes_by_key)
  have "list_all (\<lambda>op. \<not> moves_keys op) (rev (map (undo_op p) (detect_changes p c)))"
    using detect_changes_local by (simp add: list_all_iff moves_keys_undo)
  then show "list_all (\<lambda>op. \<not> moves_keys op) (rollback_ops p c)"
    by (auto simp: undo_phases rollback_ops_def list_all_iff moves_keys_def)
  fix k
  have "run_key p k (map DropTable (dropped_tables_child_first c p)) = run_key p k (map DropTable (rev (created_tables p c)))"
    using created_tables_order [OF wf(2), of p] by (intro ext run_key_drop_tables_perm) auto
  then have "run_key p k (rollback_ops p c) = run_key p k (rev (map (undo_op p) (detect_changes p c)))"
    by (simp add: rollback_ops_def undo_phases)
  then show "run_key p k (rollback_ops p c) (catalog_of c k) = Some (catalog_of p k)"
    using detect_changes_both [OF wf, of k] by (simp add: run_both_iff)
qed

end
