(* ===== verification/History.thy ===== *)
theory History
  imports Make Rollback
begin

text \<open>
  A project's history: the files that successive \<open>makemigrations\<close> runs write, as a step relation. By
  rule induction its files form one line numbered from \<open>0001\<close>, each step holds the diff of two
  consecutive snapshots, applying them all to an empty database reaches the last snapshot, and every
  step can be rolled back. The chain lemmas are proved once for any diff engine that meets the
  contract of \<open>Diff_Correct\<close> and \<open>Rollback\<close>.
\<close>

section \<open>Diff engines\<close>

locale diff_engine =
  fixes ok :: "'s \<Rightarrow> bool"
    and supported :: "'s \<Rightarrow> 's \<Rightarrow> bool"
    and diff :: "'s \<Rightarrow> 's \<Rightarrow> 'op list"
    and rollback :: "'s \<Rightarrow> 's \<Rightarrow> 'op list"
    and run :: "'s \<Rightarrow> 'op list \<Rightarrow> 'cat \<Rightarrow> 'cat option"
    and cat :: "'s \<Rightarrow> 'cat"
  assumes reaches: "ok p \<Longrightarrow> ok c \<Longrightarrow> supported p c \<Longrightarrow> run c (diff p c) (cat p) = Some (cat c)"
    and restores: "ok p \<Longrightarrow> ok c \<Longrightarrow> supported p c \<Longrightarrow> run p (rollback p c) (cat c) = Some (cat p)"
    and idle: "run s [] x = Some x"
begin

fun forwards :: "'s \<Rightarrow> 's list \<Rightarrow> 'cat \<Rightarrow> 'cat option" where
  "forwards s [] x = Some x"
| "forwards s (t # ts) x = Option.bind (run t (diff s t) x) (forwards t ts)"

fun backwards :: "'s \<Rightarrow> 's list \<Rightarrow> 'cat \<Rightarrow> 'cat option" where
  "backwards s [] x = Some x"
| "backwards s (t # ts) x = Option.bind (backwards t ts x) (run s (rollback s t))"

fun supported_path :: "'s \<Rightarrow> 's list \<Rightarrow> bool" where
  "supported_path s [] = True"
| "supported_path s (t # ts) = (supported s t \<and> supported_path t ts)"

lemma forwards_reach:
  "list_all ok (s # ts) \<Longrightarrow> supported_path s ts \<Longrightarrow> forwards s ts (cat s) = Some (cat (last (s # ts)))"
  by (induction ts arbitrary: s) (simp_all add: reaches)

lemma backwards_restore:
  "list_all ok (s # ts) \<Longrightarrow> supported_path s ts \<Longrightarrow> backwards s ts (cat (last (s # ts))) = Some (cat s)"
proof (induction ts arbitrary: s)
  case (Cons t ts)
  then have "backwards t ts (cat (last (t # ts))) = Some (cat t)" by simp
  with Cons show ?case by (simp add: restores)
qed simp

lemma empty_diff:
  "ok p \<Longrightarrow> ok c \<Longrightarrow> supported p c \<Longrightarrow> diff p c = [] \<Longrightarrow> cat p = cat c"
  using reaches [of p c] idle by simp

end

definition snap_ok :: "schema_snapshot \<Rightarrow> bool" where
  "snap_ok s \<longleftrightarrow> wf_names s \<and> refs_ok s"

definition supported_change :: "schema_snapshot \<Rightarrow> schema_snapshot \<Rightarrow> bool" where
  "supported_change p c \<longleftrightarrow> detect_unsupported_field_changes p c = []"

interpretation engine: diff_engine snap_ok supported_change detect_changes rollback_ops run_changes catalog_of
  by unfold_locales (simp_all add: snap_ok_def supported_change_def detect_changes_run rollback_ops_run)

section \<open>Numbering\<close>

lemma show_nat04_digits: "list_all is_ascii_digit (show_nat04 n)"
  using show_nat_digits [of n] by (auto simp: show_nat04_def list_all_iff is_ascii_digit_def)

lemma digits_value_zeros: "digits_value (replicate k (CHR ''0'') @ ds) = digits_value ds"
proof -
  have "foldl (\<lambda>acc c. acc * 10 + digit_val c) 0 (replicate k (CHR ''0'')) = 0"
    by (induction k) (simp_all add: digit_val_def)
  then show ?thesis by (simp add: digits_value_def)
qed

lemma parse_u32_padded: "parse_u32 (show_nat04 (unat w)) = Some w"
proof -
  obtain c cs where s: "show_nat04 (unat w) = c # cs"
    using show_nat_nonempty [of "unat w"] by (cases "show_nat04 (unat w)") (auto simp: show_nat04_def)
  have "c \<noteq> CHR ''+''" "list_all is_ascii_digit (c # cs)"
    using show_nat04_digits [of "unat w"] s by (simp_all add: is_ascii_digit_not_plus)
  moreover have "digits_value (c # cs) = unat w"
    unfolding s [symmetric] by (simp add: show_nat04_def digits_value_zeros digits_value_show_nat)
  moreover have "unat w < 2 ^ 32" using unsigned_less [of w] by simp
  ultimately show ?thesis by (simp add: parse_u32_def s)
qed

lemma extract_index_file_name: "extract_index (file_name index suffix) = Some index"
proof -
  have "takeWhile is_ascii_digit (file_name index suffix) = show_nat04 (unat index)"
    using show_nat04_digits [of "unat index"]
    by (simp add: file_name_def takeWhile_append2 list_all_iff is_ascii_digit_def)
  moreover have "show_nat04 (unat index) \<noteq> []" using show_nat_nonempty by (simp add: show_nat04_def)
  ultimately show ?thesis by (simp add: extract_index_def Let_def parse_u32_padded)
qed

section \<open>Nothing to do\<close>

lemma m2_eq_find:
  assumes "list_all2 m2_eq ms ns" "distinct (map m2_through ms)" "m \<in> set ms"
  shows "\<exists>n. find_by m2_through (m2_through m) ns = Some n \<and> m2_eq n m"
  using assms
proof (induction rule: list_all2_induct)
  case (Cons x xs y ys)
  have xy: "m2_through x = m2_through y" using Cons(1) by (simp add: m2_eq_def m2_key_def)
  show ?case
  proof (cases "m = x")
    case True
    with Cons(1) xy show ?thesis by (simp add: m2_eq_def)
  next
    case False
    then have "m \<in> set xs" using Cons.prems by simp
    moreover from this have "m2_through m \<noteq> m2_through x" using Cons.prems(1) by (auto simp: image_iff)
    ultimately show ?thesis using Cons xy by simp
  qed
qed simp

lemma m2_eq_throughs: "list_all2 m2_eq ms ns \<Longrightarrow> map m2_through ms = map m2_through ns"
  by (induction rule: list_all2_induct) (simp_all add: m2_eq_def m2_key_def)

lemma alter_changes_same [simp]: "alter_changes t f f = []"
  by (simp add: alter_changes_def same_on_delete_def Let_def split: option.split)

lemma field_diffs_same [simp]: "field_diffs t f f = []"
  by (simp add: field_diffs_def Let_def)

lemma same_tables:
  assumes wf: "wf_names p" and same: "sn_tables c = sn_tables p"
  shows "create_tables p c = []" "add_columns p c = []" "alter_columns p c = []" "alter_comments p c = []"
    "drop_columns p c = []" "drop_tables p c = []" "drop_composite_fks p c = []" "recreate_composite_fks p c = []"
    "new_composite_fks p c = []"
proof -
  have table: "snap_table c (ts_name t) = Some t \<and> snap_table p (ts_name t) = Some t" if "t \<in> set (sn_tables p)" for t
    using wf that by (simp add: wf_names_def snap_table_def same find_by_in)
  have field: "ts_field t (fs_column f) = Some f" if "t \<in> set (sn_tables p)" "f \<in> set (ts_fields t)" for t f
    using wf that by (simp add: wf_names_def wf_table_def ts_field_def find_by_in)
  have fk: "ts_composite_fk t (cf_name f) = Some f" if "t \<in> set (sn_tables p)" "f \<in> set (ts_composite_fks t)" for t f
    using wf that by (simp add: wf_names_def wf_table_def ts_composite_fk_def find_by_in)
  show "create_tables p c = []" "add_columns p c = []" "alter_columns p c = []" "alter_comments p c = []" "drop_columns p c = []"
    using table field
    by (auto simp: create_tables_def add_columns_def alter_columns_def alter_comments_def drop_columns_def same filter_empty_conv)
  show "drop_composite_fks p c = []" "recreate_composite_fks p c = []" "new_composite_fks p c = []"
    using table fk
    by (auto simp: drop_composite_fks_def recreate_composite_fks_def new_composite_fks_def composite_fk_changed_def same
        filter_empty_conv list_ex_iff)
  have "filter (\<lambda>t. snap_table c (ts_name t) = None) (sn_tables p) = []" using table by (simp add: filter_empty_conv)
  then show "drop_tables p c = []" by (simp add: drop_tables_def dropped_tables_child_first_def drop_order.simps)
qed

lemma same_objects:
  assumes wf: "wf_names p" and same: "sn_indexes c = sn_indexes p" "sn_checks c = sn_checks p" "sn_excludes c = sn_excludes p"
  shows "drop_indexes p c = []" "new_indexes p c = []" "recreate_indexes p c = []"
    "drop_checks p c = []" "new_checks p c = []" "recreate_checks p c = []"
    "drop_excludes p c = []" "new_excludes p c = []" "recreate_excludes p c = []"
proof -
  have index: "snap_index s (ix_name i) = Some i" if "i \<in> set (sn_indexes p)" "sn_indexes s = sn_indexes p" for i s
    using wf that by (simp add: wf_names_def snap_index_def find_by_in)
  have check: "snap_check s (ck_name k) = Some k" if "k \<in> set (sn_checks p)" "sn_checks s = sn_checks p" for k s
    using wf that by (simp add: wf_names_def snap_check_def find_by_in)
  have exclude: "snap_exclude s (ex_name x) = Some x" if "x \<in> set (sn_excludes p)" "sn_excludes s = sn_excludes p" for x s
    using wf that by (simp add: wf_names_def snap_exclude_def find_by_in)
  show "drop_indexes p c = []" "new_indexes p c = []" "recreate_indexes p c = []"
    using index same by (auto simp: drop_indexes_def new_indexes_def recreate_indexes_def index_gone_or_changed_def ix_changed_def
        filter_empty_conv List.map_filter_def)
  show "drop_checks p c = []" "new_checks p c = []" "recreate_checks p c = []"
    using check same by (auto simp: drop_checks_def new_checks_def recreate_checks_def filter_empty_conv List.map_filter_def)
  show "drop_excludes p c = []" "new_excludes p c = []" "recreate_excludes p c = []"
    using exclude same
    by (auto simp: drop_excludes_def new_excludes_def recreate_excludes_def filter_empty_conv List.map_filter_def list_ex_iff)
qed

lemma same_junction:
  assumes "wf_names p" "list_all2 m2_eq (sn_m2m_tables p) (sn_m2m_tables c)" "m \<in> set (sn_m2m_tables p)"
  shows "\<exists>n. snap_m2m_table c (m2_through m) = Some n \<and> m2_eq n m"
  unfolding snap_m2m_table_def by (rule m2_eq_find [OF assms(2)]) (use assms in \<open>simp_all add: wf_names_def\<close>)

lemma same_junctions:
  assumes wf: "wf_names p" and same: "list_all2 m2_eq (sn_m2m_tables p) (sn_m2m_tables c)"
  shows "drop_junctions p c = []" "recreate_junctions p c = []" "new_junctions p c = []"
proof -
  have quiet: "junction_renames c m = None \<and> junction_same c m" if "m \<in> set (sn_m2m_tables p)" for m
    using same_junction [OF wf same that] by (auto simp: junction_renames_def junction_same_def)
  then show "drop_junctions p c = []" "recreate_junctions p c = []"
    by (auto simp: drop_junctions_def recreate_junctions_def List.map_filter_def filter_empty_conv)
  have "m2_through ` set (sn_m2m_tables c) = m2_through ` set (sn_m2m_tables p)"
    using m2_eq_throughs [OF same] by (metis list.set_map)
  then show "new_junctions p c = []"
    by (auto simp: new_junctions_def filter_empty_conv snap_m2m_table_def find_by_None_iff)
qed

lemma detect_changes_same:
  assumes wf: "wf_names p" and eq: "snapshot_eq p c"
  shows "detect_changes p c = []" "detect_unsupported_field_changes p c = []"
proof -
  have same: "sn_tables c = sn_tables p" "sn_indexes c = sn_indexes p" "sn_checks c = sn_checks p" "sn_excludes c = sn_excludes p"
    and junctions: "list_all2 m2_eq (sn_m2m_tables p) (sn_m2m_tables c)"
    using eq by (simp_all add: snapshot_eq_def)
  show "detect_changes p c = []"
    by (simp add: detect_changes_def same_tables [OF wf same(1)] same_objects [OF wf same(2-4)] same_junctions [OF wf junctions])
  have "snap_table p (ts_name t) = Some t" if "t \<in> set (sn_tables p)" for t
    using wf that by (simp add: wf_names_def snap_table_def find_by_in)
  moreover have "ts_field t (fs_column f) = Some f" if "t \<in> set (sn_tables p)" "f \<in> set (ts_fields t)" for t f
    using wf that by (simp add: wf_names_def wf_table_def ts_field_def find_by_in)
  ultimately show "detect_unsupported_field_changes p c = []"
    using same_junction [OF wf junctions]
    by (fastforce simp: detect_unsupported_field_changes_def same List.map_filter_def filter_empty_conv)
qed

section \<open>Histories\<close>

text \<open>What the last file of a chain says the schema is.\<close>

definition chain_snapshot :: "migration list \<Rightarrow> schema_snapshot" where
  "chain_snapshot chain = (if chain = [] then empty_snapshot else mg_snapshot (last chain))"

definition framework_free :: "schema_snapshot \<Rightarrow> bool" where
  "framework_free s \<longleftrightarrow>
     (\<forall>t\<in>set (sn_tables s). \<not> framework (ts_name t)) \<and> (\<forall>m\<in>set (sn_m2m_tables s). \<not> framework (m2_through m)) \<and>
     (\<forall>i\<in>set (sn_indexes s). \<not> framework (ix_table i)) \<and> (\<forall>c\<in>set (sn_checks s). \<not> framework (ck_table c))"

text \<open>
  One \<open>makemigrations\<close> run after another, each over the models of its day: the app owns no
  \<open>rustango_\<close> table, and what a run writes is well formed. The files are numbered in 32 bits.
\<close>

inductive history :: "model_entry list \<Rightarrow> migration list \<Rightarrow> bool" for inventory where
  start: "history inventory []"
| makemigrations:
    "history inventory chain \<Longrightarrow> plan_from inventory now chain models name_override drops = Inr (Some mig) \<Longrightarrow>
     framework_free models \<Longrightarrow> framework_free (mg_snapshot mig) \<Longrightarrow> snap_ok (mg_snapshot mig) \<Longrightarrow>
     Suc (length chain) < 2 ^ 32 \<Longrightarrow> history inventory (chain @ [mig])"

inductive_cases history_snocE: "history inventory (chain @ [mig])"

section \<open>One step\<close>

lemma plan_from_Some:
  assumes "plan_from inventory now prior models name_override drops = Inr (Some mig)"
  shows "\<exists>prev suffix. prev = fold_in_framework_tables (last_snapshot prior) models \<and>
     mg_snapshot mig = keep_unmanaged inventory models prev \<and>
     mg_forward mig = map Schema (detect_changes prev (mg_snapshot mig)) \<and>
     detect_changes prev (mg_snapshot mig) \<noteq> [] \<and> supported_change prev (mg_snapshot mig) \<and>
     mg_prev mig = (if prior = [] then None else Some (mg_name (last prior))) \<and>
     mg_name mig = file_name (next_index prior) suffix \<and> mg_merges mig = [] \<and> mg_replaces mig = []"
  using assms
  by (auto simp: plan_from_def Let_def supported_change_def split: sum.splits if_splits option.splits)

lemma fold_in_framework_none:
  "framework_free s \<Longrightarrow> framework_free models \<Longrightarrow> fold_in_framework_tables s models = s"
  by (simp add: fold_in_framework_tables_def framework_free_def filter_True filter_False)

lemma framework_free_empty [simp]: "framework_free empty_snapshot"
  by (simp add: framework_free_def empty_snapshot_def)

lemma snap_ok_empty [simp]: "snap_ok empty_snapshot"
  by (simp add: snap_ok_def wf_names_def refs_ok_def empty_snapshot_def)

lemma effective_snapshot_own:
  assumes "\<And>p. chain_parent chain m = Some p \<Longrightarrow> \<not> snapshot_eq (mg_snapshot p) (mg_snapshot m)"
  shows "effective_snapshot chain m = mg_snapshot m"
  using assms by (simp add: effective_snapshot_def copies_from.simps [of chain "[]" m] split: option.split)

section \<open>The invariant of a history\<close>

definition numbered :: "migration list \<Rightarrow> bool" where
  "numbered chain \<longleftrightarrow>
     length chain < 2 ^ 32 \<and>
     (\<forall>i<length chain. extract_index (mg_name (chain ! i)) = Some (of_nat (Suc i)))"

definition linked :: "migration list \<Rightarrow> bool" where
  "linked chain \<longleftrightarrow>
     map mg_prev chain = butlast (None # map (\<lambda>m. Some (mg_name m)) chain) \<and>
     (\<forall>m\<in>set chain. mg_merges m = [] \<and> mg_replaces m = [] \<and> mg_forward m \<noteq> [])"

lemma numbered_distinct:
  assumes "numbered chain"
  shows "distinct (map mg_name chain)"
proof -
  have "i = j" if "i < length chain" "j < length chain" "mg_name (chain ! i) = mg_name (chain ! j)" for i j
  proof -
    have "(of_nat (Suc i) :: u32) = of_nat (Suc j)"
      using assms that by (metis numbered_def option.inject)
    moreover have "Suc i < 2 ^ 32" "Suc j < 2 ^ 32" using assms that by (auto simp: numbered_def)
    then have "unat (of_nat (Suc i) :: u32) = Suc i" "unat (of_nat (Suc j) :: u32) = Suc j"
      by (simp_all add: unsigned_of_nat take_bit_nat_eq_self del: of_nat_Suc)
    ultimately show ?thesis by simp
  qed
  then show ?thesis by (auto simp: distinct_conv_nth)
qed

lemma next_index_numbered:
  assumes "numbered chain"
  shows "next_index chain = of_nat (Suc (length chain))"
proof (cases "chain = []")
  case False
  then have "extract_index (mg_name (last chain)) = Some (of_nat (length chain))"
    using assms by (cases "length chain") (simp_all add: numbered_def last_conv_nth del: of_nat_Suc)
  with False show ?thesis by (simp add: next_index_def)
qed (simp add: next_index_def)

lemma numbered_snoc:
  assumes "numbered chain" "mg_name mig = file_name (next_index chain) suffix" "Suc (length chain) < 2 ^ 32"
  shows "numbered (chain @ [mig])"
  using assms next_index_numbered [OF assms(1)] extract_index_file_name
  by (auto simp: numbered_def nth_append less_Suc_eq)

lemma linked_snoc:
  assumes "linked chain" "mg_prev mig = (if chain = [] then None else Some (mg_name (last chain)))"
    "mg_merges mig = []" "mg_replaces mig = []" "mg_forward mig \<noteq> []"
  shows "linked (chain @ [mig])"
proof -
  have "butlast (None # map (\<lambda>m. Some (mg_name m)) (chain @ [mig])) =
      butlast (None # map (\<lambda>m. Some (mg_name m)) chain) @ [mg_prev mig]"
    using assms(2) by (cases chain rule: rev_cases) (simp_all add: butlast_append)
  with assms show ?thesis by (auto simp: linked_def)
qed

lemma snoc_parent:
  assumes "distinct (map mg_name (chain @ [mig]))" "mg_prev mig = (if chain = [] then None else Some (mg_name (last chain)))"
  shows "chain_parent (chain @ [mig]) mig = (if chain = [] then None else Some (last chain))"
proof (cases "chain = []")
  case False
  then have "last chain \<in> set chain" by simp
  then have "find_by mg_name (mg_name (last chain)) chain = Some (last chain)"
    using assms(1) by (intro find_by_in) auto
  with False assms(2) show ?thesis by (simp add: chain_parent_def find_by_append)
qed (simp add: chain_parent_def assms(2))

lemma history_invariant:
  "history inventory chain \<Longrightarrow>
     numbered chain \<and> linked chain \<and> last_snapshot chain = chain_snapshot chain \<and>
     framework_free (chain_snapshot chain) \<and> snap_ok (chain_snapshot chain)"
proof (induction rule: history.induct)
  case start
  then show ?case
    by (simp add: numbered_def linked_def last_snapshot_def chain_snapshot_def)
next
  case (makemigrations chain now models name_override drops mig)
  then obtain suffix where p: "mg_snapshot mig = keep_unmanaged inventory models (chain_snapshot chain)"
      "mg_forward mig = map Schema (detect_changes (chain_snapshot chain) (mg_snapshot mig))"
      "detect_changes (chain_snapshot chain) (mg_snapshot mig) \<noteq> []"
      "mg_prev mig = (if chain = [] then None else Some (mg_name (last chain)))"
      "mg_name mig = file_name (next_index chain) suffix" "mg_merges mig = []" "mg_replaces mig = []"
    using plan_from_Some [OF makemigrations(2)] by (auto simp: fold_in_framework_none)
  have n: "numbered (chain @ [mig])" using makemigrations p numbered_snoc by blast
  moreover have "linked (chain @ [mig])" using makemigrations(6-) p linked_snoc by auto
  moreover have "last_snapshot (chain @ [mig]) = mg_snapshot mig"
  proof -
    have "\<not> snapshot_eq (mg_snapshot q) (mg_snapshot mig)" if "chain_parent (chain @ [mig]) mig = Some q" for q
    proof -
      have "mg_snapshot q = chain_snapshot chain"
        using that snoc_parent [OF numbered_distinct [OF n] p(4)] by (simp add: chain_snapshot_def split: if_splits)
      moreover have "wf_names (chain_snapshot chain)" using makemigrations by (simp add: snap_ok_def)
      ultimately show ?thesis using detect_changes_same(1) p(3) by metis
    qed
    then show ?thesis using effective_snapshot_own [of "chain @ [mig]" mig] by (simp add: last_snapshot_def)
  qed
  ultimately show ?case using makemigrations by (simp add: chain_snapshot_def)
qed

lemma history_step:
  assumes "history inventory (chain @ [mig])"
  shows "history inventory chain" "mg_forward mig = map Schema (detect_changes (chain_snapshot chain) (mg_snapshot mig))"
    "supported_change (chain_snapshot chain) (mg_snapshot mig)" "snap_ok (chain_snapshot chain)" "snap_ok (mg_snapshot mig)"
proof -
  obtain now models name_override drops where h: "history inventory chain"
      "plan_from inventory now chain models name_override drops = Inr (Some mig)" "framework_free models"
      "snap_ok (mg_snapshot mig)"
    using assms by (cases rule: history.cases) auto
  note inv = history_invariant [OF h(1)]
  with plan_from_Some [OF h(2)] h(3) show "mg_forward mig = map Schema (detect_changes (chain_snapshot chain) (mg_snapshot mig))"
      "supported_change (chain_snapshot chain) (mg_snapshot mig)"
    by (auto simp: fold_in_framework_none)
  show "history inventory chain" "snap_ok (chain_snapshot chain)" "snap_ok (mg_snapshot mig)" using h inv by auto
qed

section \<open>Applying and rolling back a history\<close>

definition schema_ops :: "operation list \<Rightarrow> schema_change list" where
  "schema_ops ops = List.map_filter (\<lambda>op. case op of Schema c \<Rightarrow> Some c | _ \<Rightarrow> None) ops"

lemma schema_ops_map [simp]: "schema_ops (map Schema cs) = cs"
  by (induction cs) (simp_all add: schema_ops_def List.map_filter_def)

fun replay :: "migration list \<Rightarrow> catalog \<Rightarrow> catalog option" where
  "replay [] cat = Some cat"
| "replay (m # ms) cat = Option.bind (run_changes (mg_snapshot m) (schema_ops (mg_forward m)) cat) (replay ms)"

lemma replay_append: "replay (xs @ ys) cat = Option.bind (replay xs cat) (replay ys)"
  by (induction xs arbitrary: cat) (simp_all split: Option.bind_split)

lemma history_replay:
  "history inventory chain \<Longrightarrow> replay chain (catalog_of empty_snapshot) = Some (catalog_of (chain_snapshot chain))"
proof (induction chain rule: rev_induct)
  case Nil
  then show ?case by (simp add: chain_snapshot_def)
next
  case (snoc mig chain)
  note step = history_step [OF snoc.prems]
  have "run_changes (mg_snapshot mig) (schema_ops (mg_forward mig)) (catalog_of (chain_snapshot chain)) =
      Some (catalog_of (mg_snapshot mig))"
    using engine.reaches [OF step(4,5,3)] step(2) by simp
  with snoc.IH [OF step(1)] show ?case by (simp add: replay_append chain_snapshot_def [of "chain @ [mig]"])
qed

lemma history_rollback:
  assumes "history inventory (chain @ [mig])"
  shows "invert_migration mig (chain_snapshot chain) = Inr (map Schema (rollback_ops (chain_snapshot chain) (mg_snapshot mig)))"
    "run_changes (chain_snapshot chain) (rollback_ops (chain_snapshot chain) (mg_snapshot mig)) (catalog_of (mg_snapshot mig)) =
       Some (catalog_of (chain_snapshot chain))"
proof -
  note step = history_step [OF assms]
  show "invert_migration mig (chain_snapshot chain) = Inr (map Schema (rollback_ops (chain_snapshot chain) (mg_snapshot mig)))"
    by (rule invert_migration_computed) (use step in \<open>simp_all add: snap_ok_def\<close>)
  show "run_changes (chain_snapshot chain) (rollback_ops (chain_snapshot chain) (mg_snapshot mig)) (catalog_of (mg_snapshot mig)) =
       Some (catalog_of (chain_snapshot chain))"
    using engine.restores [OF step(4,5,3)] .
qed

section \<open>One line, one end\<close>

lemma linked_prevs:
  assumes "linked chain"
  shows "concat (map (\<lambda>m. case mg_prev m of None \<Rightarrow> [] | Some p \<Rightarrow> [p]) chain) = map mg_name (butlast chain)"
proof -
  let ?f = "\<lambda>o'. case o' of None \<Rightarrow> [] | Some p \<Rightarrow> [p]"
  have "concat (map (\<lambda>m. ?f (mg_prev m)) chain) = concat (map ?f (map mg_prev chain))" by (simp add: comp_def)
  also have "\<dots> = concat (map ?f (butlast (None # map (\<lambda>m. Some (mg_name m)) chain)))"
    using assms by (simp add: linked_def)
  also have "\<dots> = map mg_name (butlast chain)"
    by (cases chain rule: rev_cases) (simp_all add: butlast_append comp_def concat_map_singleton)
  finally show ?thesis .
qed

lemma linked_no_merges: "linked chain \<Longrightarrow> m \<in> set chain \<Longrightarrow> merged_branches chain m = []"
  by (simp add: linked_def merged_branches_def split: option.split)

lemma linked_leaves:
  assumes "linked chain" "distinct (map mg_name chain)" "chain \<noteq> []"
  shows "leaves chain = [last chain]"
proof -
  have joined: "concat (map (\<lambda>m. (case mg_prev m of None \<Rightarrow> [] | Some p \<Rightarrow> [p]) @ mg_replaces m @ merged_branches chain m) chain) =
      map mg_name (butlast chain)"
    using linked_prevs [OF assms(1)] assms(1) linked_no_merges [OF assms(1)]
    by (simp add: linked_def cong: map_cong)
  obtain ys y where chain: "chain = ys @ [y]" using assms(3) by (cases chain rule: rev_cases) auto
  have "filter (\<lambda>m. mg_name m \<notin> mg_name ` set ys) ys = []" by (simp add: filter_empty_conv)
  then show ?thesis using assms(2) by (simp add: leaves_def Let_def joined) (auto simp: chain)
qed

lemma history_unbranched:
  assumes "history inventory chain"
  shows "refuse_branched chain = Inr ()"
proof (cases "chain = []")
  case True
  then show ?thesis by (simp add: refuse_branched_def branched_leaves_def leaves_def)
next
  case False
  then have "leaves chain = [last chain]"
    using history_invariant [OF assms] by (intro linked_leaves numbered_distinct) auto
  then show ?thesis by (simp add: refuse_branched_def branched_leaves_def)
qed

section \<open>Planning again\<close>

lemma snapshot_eq_refl [simp]: "snapshot_eq s s"
  by (simp add: snapshot_eq_def m2_eq_def list_all2_same)

lemma keep_unmanaged_none:
  "\<forall>t\<in>set (map ts_name (sn_tables prev)). snap_table s t \<noteq> None \<or> \<not> now_unmanaged inventory t \<Longrightarrow> keep_unmanaged inventory s prev = s"
proof -
  assume "\<forall>t\<in>set (map ts_name (sn_tables prev)). snap_table s t \<noteq> None \<or> \<not> now_unmanaged inventory t"
  then have "filter (\<lambda>t. snap_table s t = None \<and> (case for_table inventory t of None \<Rightarrow> False
      | Some e \<Rightarrow> \<not> md_managed (me_schema e) \<or> md_is_view (me_schema e))) (map ts_name (sn_tables prev)) = []"
    unfolding now_unmanaged_def filter_empty_conv by auto
  then show ?thesis by (simp only: keep_unmanaged_def Let_def if_True simp_thms)
qed

lemma unkeyed_same: "wf_names s \<Longrightarrow> unkeyed_composite_fks s s = []"
  by (auto simp: unkeyed_composite_fks_def wf_names_def snap_table_def find_by_in filter_empty_conv)

lemma plan_unchanged:
  assumes "refuse_branched prior = Inr ()" "last_snapshot prior = models" "framework_free models" "wf_names models"
  shows "plan_from inventory now prior models name_override drops = Inr None"
proof -
  have "\<forall>t\<in>set (map ts_name (sn_tables models)). snap_table models t \<noteq> None \<or> \<not> now_unmanaged inventory t"
    by (auto simp: snap_table_def find_by_None_iff)
  then have "keep_unmanaged inventory models models = models" by (rule keep_unmanaged_none)
  then show ?thesis
    using assms detect_changes_same [OF assms(4), of models]
    by (simp add: plan_from_def fold_in_framework_none refuse_unkeyed_composite_fks_def unkeyed_same)
qed

lemma history_plan_again:
  assumes "history inventory chain" "plan_from inventory now chain models name_override drops = Inr (Some mig)"
    "framework_free models" "snap_ok models" "Suc (length chain) < 2 ^ 32" "\<forall>t. \<not> now_unmanaged inventory t"
  shows "plan_from inventory now' (chain @ [mig]) models name_override' drops' = Inr None"
proof -
  have snap: "mg_snapshot mig = models"
    using plan_from_Some [OF assms(2)] assms(6) by (auto simp: keep_unmanaged_none)
  then have "history inventory (chain @ [mig])" using assms by (auto intro: history.makemigrations)
  then have "refuse_branched (chain @ [mig]) = Inr ()" "last_snapshot (chain @ [mig]) = models"
    using history_unbranched history_invariant snap by (auto simp: chain_snapshot_def)
  then show ?thesis using plan_unchanged assms(3,4) by (auto simp: snap_ok_def)
qed

end
