(* ===== verification/Merge.thy ===== *)
theory Merge
  imports History
begin

text \<open>
  What \<open>makemigrations --merge\<close> leaves behind: the new file gets a name no file has, its number follows
  the highest one in the directory, and it joins every end of the branch it merges.
\<close>

section \<open>The merge file\<close>

lemma make_merge_Some:
  assumes "make_merge_migration now prior = Inr (Some mig)"
  shows "\<exists>branch rest. branched_leaves prior = branch # rest \<and>
     mg_name mig = file_name (case max_index prior of None \<Rightarrow> 1 | Some n \<Rightarrow> n + 1) ''merge'' \<and>
     mg_prev mig = Some (mg_name (last branch)) \<and> mg_merges mig = map mg_name (butlast branch) \<and>
     mg_replaces mig = [] \<and> mg_forward mig = []"
  using assms
  by (auto simp: make_merge_migration_def Let_def split: if_splits list.splits sum.splits)

lemma branch_members:
  assumes "branched_leaves chain = branch # rest"
  shows "set branch \<subseteq> set (leaves chain)" "1 < length branch"
    "\<exists>r. set branch = {l \<in> set (leaves chain). root_name chain l = r}"
proof -
  have "branch \<in> set (branched_leaves chain)" by (simp add: assms)
  then obtain g r where "branch = sort_key mg_name g" "length g > 1" "g = filter (\<lambda>l. root_name chain l = r) (leaves chain)"
    by (auto simp: branched_leaves_def Let_def)
  then show "set branch \<subseteq> set (leaves chain)" "1 < length branch"
    "\<exists>r. set branch = {l \<in> set (leaves chain). root_name chain l = r}" by auto
qed

section \<open>A fresh name\<close>

lemma max_index_bound:
  assumes "m \<in> set prior" "extract_index (mg_name m) = Some i"
  shows "\<exists>n. max_index prior = Some n \<and> i \<le> n"
proof -
  let ?is = "List.map_filter (\<lambda>m. extract_index (mg_name m)) prior"
  have i: "i \<in> set ?is" using assms by (auto simp: in_map_filter)
  then obtain x xs where "?is = x # xs" by (cases ?is) auto
  then show ?thesis using i by (auto simp: max_index_def)
qed

lemma merge_name_fresh:
  assumes "max_index prior \<noteq> Some (- 1)" "m \<in> set prior"
  shows "mg_name m \<noteq> file_name (case max_index prior of None \<Rightarrow> 1 | Some n \<Rightarrow> n + 1) suffix"
proof
  let ?next = "case max_index prior of None \<Rightarrow> 1 | Some n \<Rightarrow> n + 1"
  assume "mg_name m = file_name ?next suffix"
  then have "extract_index (mg_name m) = Some ?next" by (simp add: extract_index_file_name)
  from max_index_bound [OF assms(2) this] obtain n where "max_index prior = Some n" "n + 1 \<le> n" by auto
  moreover from this(1) assms(1) have "1 + n \<noteq> 0" by (metis add_eq_0_iff)
  ultimately show False using unatSuc [of n] by (simp add: word_le_nat_alt add.commute)
qed

section \<open>The ends after a merge\<close>

definition refers :: "migration \<Rightarrow> string list" where
  "refers m = (case mg_prev m of None \<Rightarrow> [] | Some p \<Rightarrow> [p]) @ mg_replaces m @ mg_merges m"

definition joined :: "migration list \<Rightarrow> string set" where
  "joined chain = (\<Union>m\<in>set chain. set_option (mg_prev m) \<union> set (mg_replaces m) \<union> set (merged_branches chain m))"

lemma leaves_joined: "leaves chain = filter (\<lambda>m. mg_name m \<notin> joined chain) chain"
proof -
  have "set (concat (map (\<lambda>m. (case mg_prev m of None \<Rightarrow> [] | Some p \<Rightarrow> [p]) @ mg_replaces m @ merged_branches chain m) chain)) =
      joined chain"
    by (auto simp: joined_def split: option.splits)
  then show ?thesis by (simp add: leaves_def Let_def)
qed

lemma merged_branches_snoc:
  assumes "m \<in> set prior" "mg_name mig \<notin> set (refers m)" "mg_prev mig = Some (mg_name l)" "mg_name l \<notin> joined prior"
  shows "merged_branches (prior @ [mig]) m = merged_branches prior m"
proof -
  have "mg_prev m \<noteq> Some (mg_name mig)" using assms(2) by (auto simp: refers_def)
  then have prev: "Option.bind (mg_prev m) (\<lambda>p. find_by mg_name p (prior @ [mig])) = Option.bind (mg_prev m) (\<lambda>p. find_by mg_name p prior)"
    by (cases "mg_prev m") (auto simp: find_by_append split: option.split)
  have "mg_prev h \<noteq> mg_prev mig" if "h \<in> set prior" for h
    using that assms(3,4) by (auto simp: joined_def)
  then have "mg_prev h \<noteq> mg_prev mig" if "Option.bind (mg_prev m) (\<lambda>p. find_by mg_name p prior) = Some h" for h
    using that by (auto simp: Option.bind_eq_Some_conv dest: find_by_SomeD)
  then show ?thesis
    by (auto simp: merged_branches_def prev Let_def split: option.split)
qed

lemma joined_snoc:
  assumes "\<forall>m\<in>set prior. mg_name mig \<notin> set (refers m)" "mg_prev mig = Some (mg_name l)" "mg_name l \<notin> joined prior"
    "mg_replaces mig = []" "mg_merges mig \<noteq> []"
  shows "joined (prior @ [mig]) = joined prior \<union> insert (mg_name l) (set (mg_merges mig))"
  using assms merged_branches_snoc [OF _ _ assms(2,3)]
  by (auto simp: joined_def merged_branches_def [of "prior @ [mig]" mig])

lemma merge_ends:
  assumes merge: "make_merge_migration now prior = Inr (Some mig)" and names: "distinct (map mg_name prior)"
    and fresh: "\<forall>m\<in>set prior. mg_name mig \<noteq> mg_name m \<and> mg_name mig \<notin> set (refers m)"
  shows "leaves (prior @ [mig]) = filter (\<lambda>l. l \<notin> set (hd (branched_leaves prior))) (leaves prior) @ [mig]"
proof -
  obtain branch rest where b: "branched_leaves prior = branch # rest" "mg_prev mig = Some (mg_name (last branch))"
      "mg_merges mig = map mg_name (butlast branch)" "mg_replaces mig = []"
    using make_merge_Some [OF merge] by auto
  note members = branch_members [OF b(1)]
  obtain others l where branch: "branch = others @ [l]" "others \<noteq> []" "last branch = l" "butlast branch = others"
    using members(2) by (cases branch rule: rev_cases) auto
  have leaf: "x \<in> set prior \<and> mg_name x \<notin> joined prior" if "x \<in> set branch" for x
    using that members(1) by (auto simp: leaves_joined)
  have joined: "joined (prior @ [mig]) = joined prior \<union> mg_name ` set branch"
    using joined_snoc [of prior mig l] fresh b branch leaf by auto
  have "mg_name mig \<notin> set (merged_branches prior m)" if "m \<in> set prior" for m
    using fresh that by (auto simp: merged_branches_def refers_def Let_def split: option.splits if_splits)
  then have "mg_name mig \<notin> joined prior"
    using fresh by (fastforce simp: joined_def refers_def split: option.splits)
  then have new: "mg_name mig \<notin> joined (prior @ [mig])" using fresh leaf by (auto simp: joined)
  have same: "x \<in> set branch" if "x \<in> set prior" "y \<in> set branch" "mg_name x = mg_name y" for x y
    using that leaf names by (auto simp: distinct_map inj_on_def)
  have "leaves (prior @ [mig]) = filter (\<lambda>m. mg_name m \<notin> joined prior \<and> mg_name m \<notin> mg_name ` set branch) prior @ [mig]"
    using new by (simp add: leaves_joined joined)
  also have "filter (\<lambda>m. mg_name m \<notin> joined prior \<and> mg_name m \<notin> mg_name ` set branch) prior =
      filter (\<lambda>l. l \<notin> set branch) (leaves prior)"
    unfolding leaves_joined filter_filter by (rule filter_cong) (auto dest: same)
  finally show ?thesis by (simp add: b(1))
qed

end
