(* ===== verification/Diff_Order.thy ===== *)
theory Diff_Order
  imports Diff_Correct
begin

text \<open>
  The order in which a diff runs: what depends on a table or column goes first and comes back last,
  tables come before the columns, and columns before the tables that go.
\<close>

fun change_phase :: "schema_change \<Rightarrow> nat" where
  "change_phase (DropCompositeFk _ _) = 0"
| "change_phase (DropIndex _ _) = 1"
| "change_phase (DropCheckConstraint _ _) = 2"
| "change_phase (DropExclusionConstraint _ _) = 3"
| "change_phase (RenameColumn _ _ _) = 4"
| "change_phase (DropM2MTable _) = 4"
| "change_phase (CreateTable _) = 5"
| "change_phase (AddColumn _ _) = 6"
| "change_phase (AlterColumnType _ _ _ _) = 7"
| "change_phase (AlterColumnNullable _ _ _) = 7"
| "change_phase (AlterColumnDefault _ _ _ _) = 7"
| "change_phase (AlterColumnMaxLength _ _ _ _) = 7"
| "change_phase (AlterColumnComment _ _ _ _) = 7"
| "change_phase (AlterColumnUnique _ _ _) = 7"
| "change_phase (AlterFkOnDelete _ _ _ _) = 7"
| "change_phase (AlterTableComment _ _ _) = 8"
| "change_phase (DropColumn _ _) = 9"
| "change_phase (DropTable _) = 10"
| "change_phase (CreateIndex _ _ _ _ _ _ _) = 11"
| "change_phase (AddCheckConstraint _ _ _) = 11"
| "change_phase (AddExclusionConstraint _ _ _ _ _) = 11"
| "change_phase (CreateM2MTable _ _ _ _ _) = 11"
| "change_phase (AddCompositeFk _ _ _ _ _) = 12"
| "change_phase (RenameTable _ _) = 13"

definition in_phase :: "nat \<Rightarrow> schema_change list \<Rightarrow> bool" where
  "in_phase n ops \<longleftrightarrow> (\<forall>op\<in>set ops. change_phase op = n)"

lemma in_phase_append [simp]: "in_phase n (xs @ ys) \<longleftrightarrow> in_phase n xs \<and> in_phase n ys"
  by (auto simp: in_phase_def)

lemma in_phase_concat: "(\<And>x. x \<in> set xs \<Longrightarrow> in_phase n (f x)) \<Longrightarrow> in_phase n (concat (map f xs))"
  by (auto simp: in_phase_def)

lemma in_phase_alter: "in_phase 7 (alter_changes t pf cf)"
  by (auto simp: in_phase_def alter_changes_def Let_def split: option.splits if_splits)

lemma phase_of_drops:
  "in_phase 0 (drop_composite_fks p c)" "in_phase 1 (drop_indexes p c)" "in_phase 2 (drop_checks p c)"
  "in_phase 3 (drop_excludes p c)" "in_phase 9 (drop_columns p c)" "in_phase 10 (drop_tables p c)"
  by (auto simp: in_phase_def drop_composite_fks_def drop_indexes_def drop_checks_def drop_excludes_def drop_columns_def
      drop_tables_def split: option.splits)

lemma phase_of_junctions: "in_phase 4 (drop_junctions p c)"
  using drop_junctions_shape by (fastforce simp: in_phase_def)

lemma phase_of_tables:
  "in_phase 5 (create_tables p c)" "in_phase 6 (add_columns p c)" "in_phase 8 (alter_comments p c)"
  by (auto simp: in_phase_def create_tables_def add_columns_def alter_comments_def split: option.splits if_splits)

lemma phase_of_alters: "in_phase 7 (alter_columns p c)"
  unfolding alter_columns_def
  by (intro in_phase_concat) (auto simp: in_phase_def dest: in_phase_alter [unfolded in_phase_def, rule_format] split: option.splits)

lemma phase_of_recreated_indexes: "in_phase 11 (recreate_indexes p c)"
proof -
  have "change_phase op = 11" if op: "op \<in> set (recreate_indexes p c)" for op
  proof -
    obtain i where i: "(case snap_index c (ix_name i) of None \<Rightarrow> None
        | Some c \<Rightarrow> if ix_changed c i then Some (create_index c) else None) = Some op"
      using op unfolding recreate_indexes_def in_map_filter by blast
    then show ?thesis by (cases "snap_index c (ix_name i)") (auto simp: create_index_def split: if_split_asm)
  qed
  then show ?thesis by (simp add: in_phase_def)
qed

lemma phase_of_creates:
  "in_phase 11 (new_indexes p c)" "in_phase 11 (new_checks p c)" "in_phase 11 (recreate_checks p c)"
  "in_phase 11 (new_excludes p c)" "in_phase 11 (recreate_excludes p c)"
  "in_phase 11 (new_junctions p c)" "in_phase 11 (recreate_junctions p c)" "in_phase 12 (new_composite_fks p c)"
  "in_phase 12 (recreate_composite_fks p c)"
  by (auto simp: in_phase_def new_indexes_def new_checks_def recreate_checks_def new_excludes_def
      recreate_excludes_def new_junctions_def recreate_junctions_def new_composite_fks_def recreate_composite_fks_def
      in_map_filter op_defs split: option.splits if_splits)

lemmas phases = phase_of_drops phase_of_junctions phase_of_tables phase_of_alters phase_of_recreated_indexes phase_of_creates

definition phased :: "nat \<Rightarrow> schema_change list \<Rightarrow> bool" where
  "phased n ops \<longleftrightarrow> sorted (map change_phase ops) \<and> list_all (\<lambda>op. n \<le> change_phase op \<and> change_phase op \<le> 12) ops"

lemma phased_append: "phased m ys \<Longrightarrow> in_phase n xs \<Longrightarrow> n \<le> m \<Longrightarrow> n \<le> 12 \<Longrightarrow> phased n (xs @ ys)"
  by (induction xs) (auto simp: in_phase_def phased_def list_all_iff intro: order_trans)

lemma phased_one: "in_phase n xs \<Longrightarrow> n \<le> 12 \<Longrightarrow> phased n xs"
  using phased_append [of 12 "[]" n xs] by (simp add: phased_def)

text \<open>
  The operations of a diff come in phases: composite keys, indexes, CHECK and EXCLUDE constraints and
  junctions that go or change are dropped first, then tables are created, columns added and altered,
  comments set, columns and then tables dropped, and only then are indexes, constraints and junctions
  created and at last composite keys; a diff never renames a table.
\<close>

theorem detect_changes_phases_sorted:
  "sorted (map change_phase (detect_changes prev current)) \<and>
   list_all (\<lambda>op. change_phase op \<le> 12) (detect_changes prev current)"
proof -
  have "phased 12 (new_composite_fks prev current @ recreate_composite_fks prev current)"
    by (rule phased_one) (simp_all add: phases)
  then have "phased 11 ((new_indexes prev current @ (recreate_indexes prev current @ recreate_checks prev current @
      recreate_excludes prev current @ recreate_junctions prev current) @ new_checks prev current @ new_excludes prev current @
      new_junctions prev current) @ new_composite_fks prev current @ recreate_composite_fks prev current)" (is "phased 11 ?created")
    by (rule phased_append) (simp_all add: phases)
  then have "phased 9 (drop_columns prev current @ drop_tables prev current @ ?created)" (is "phased 9 ?dropped")
    by (intro phased_append [of 10 _ 9] phased_append [of 11 _ 10] phases) simp_all
  then have "phased 5 (create_tables prev current @ add_columns prev current @ alter_columns prev current @
      alter_comments prev current @ ?dropped)" (is "phased 5 ?tables")
    by (intro phased_append [of 6 _ 5] phased_append [of 7 _ 6] phased_append [of 8 _ 7] phased_append [of 9 _ 8] phases) simp_all
  then have "phased 0 (drop_composite_fks prev current @ drop_indexes prev current @ drop_checks prev current @
      drop_excludes prev current @ drop_junctions prev current @ ?tables)"
    by (intro phased_append [of 1 _ 0] phased_append [of 2 _ 1] phased_append [of 3 _ 2] phased_append [of 4 _ 3]
        phased_append [of 5 _ 4] phases) simp_all
  then show ?thesis by (simp add: phased_def detect_changes_def list_all_iff)
qed

end
