(* ===== verification/Runner.thy ===== *)
theory Runner
  imports Make Invert Catalog
begin

text \<open>
  The migration runner, \<open>crates/rustango/src/migrate/runner.rs\<close>, with the events of
  \<open>migrate/progress.rs\<close>: which files are pending, how a pending file is reconciled with what the
  database already holds, the apply loop, moving to a target, and every form of rollback. The state is
  the database: its catalog and one ledger, a row per applied file with its time. A run returns the
  database also when it fails, since a file that is not atomic leaves what it did. What lies outside
  the sources is a \<open>server\<close>: what the SQL of a data operation does, the callbacks an application
  registers, the probe for repeated keys, the clock. Files run as on PostgreSQL, where an atomic
  file is one transaction. The directory listing is an argument, and a run holds the migrate lock
  throughout, so nothing comes between its steps.
\<close>

section \<open>The database and what surrounds it\<close>

record database =
  db_catalog :: catalog
  db_ledger :: "(string \<times> int) list" \<comment> \<open>name, applied_at\<close>

record server =
  sv_sql :: "string \<Rightarrow> catalog \<Rightarrow> catalog option"
  sv_callback :: "string \<Rightarrow> (catalog \<Rightarrow> catalog option) option"
  sv_duplicates :: "string \<Rightarrow> string \<Rightarrow> string list \<Rightarrow> bool option"
    \<comment> \<open>the file being applied, table, columns; \<open>None\<close> when the probe fails\<close>
  sv_now :: "string \<Rightarrow> int" \<comment> \<open>the time the file is recorded at\<close>

datatype runner_error =
    DriverError
  | UnregisteredCallback string
  | CallbackNeedsNonAtomic string string \<comment> \<open>migration, callback\<close>
  | MissingPrev string string \<comment> \<open>migration, prev\<close>
  | RepeatedKeys string string string \<comment> \<open>migration, name, table\<close>
  | SquashPartlyApplied string nat nat "string list" \<comment> \<open>squash, replaces, present, missing\<close>
  | SquashChangesMixed string nat nat \<comment> \<open>squash, present, absent\<close>
  | SquashDataUnknown string
  | SquashTablesPartial string nat nat \<comment> \<open>squash, existing, targets\<close>
  | NotFound string
  | NotApplied string
  | ReplacedBy string string \<comment> \<open>name, squash\<close>
  | OutOfOrder string string \<comment> \<open>name, head\<close>
  | InTwoFolders string
  | CannotInvert invert_error

text \<open>
  A fallible step on the database, sequencing with \<open>?\<close>, a step that only reads, one that only writes,
  and a transaction, which undoes what it did when it fails.
\<close>

type_synonym 'a run = "database \<Rightarrow> database \<times> (runner_error + 'a)"

definition and_then :: "'a run \<Rightarrow> ('a \<Rightarrow> 'b run) \<Rightarrow> 'b run" where
  "and_then f g db = (case f db of (db', Inl e) \<Rightarrow> (db', Inl e) | (db', Inr x) \<Rightarrow> g x db')"

definition check :: "runner_error + 'a \<Rightarrow> 'a run" where
  "check r db = (db, r)"

definition put :: "(database \<Rightarrow> database) \<Rightarrow> unit run" where
  "put g db = (g db, Inr ())"

definition transaction :: "'a run \<Rightarrow> 'a run" where
  "transaction f db = (case f db of (_, Inl e) \<Rightarrow> (db, Inl e) | (db', Inr x) \<Rightarrow> (db', Inr x))"

definition applied_set_pool :: "database \<Rightarrow> string set" where
  "applied_set_pool db = fst ` set (db_ledger db)"

definition try_table_exists_here :: "catalog \<Rightarrow> string \<Rightarrow> bool" where
  "try_table_exists_here cat t \<longleftrightarrow> cat (KTable t) \<noteq> None \<or> cat (KJunction t) \<noteq> None"

definition live_column :: "catalog \<Rightarrow> string \<Rightarrow> string \<Rightarrow> bool" where
  "live_column cat t c \<longleftrightarrow>
     cat (KColumn t c) \<noteq> None \<or>
     (case cat (KJunction t) of Some (OJunction ends) \<Rightarrow> c \<in> set (map snd ends) | _ \<Rightarrow> False)"

definition index_columns :: "catalog \<Rightarrow> string \<Rightarrow> (string \<times> string) list" where
  "index_columns cat name =
     (case cat (KIndex name) of
        Some (OIndex t cols _ _ _ _) \<Rightarrow> map (Pair t) (filter (live_column cat t) cols)
      | _ \<Rightarrow> [])"

definition count_existing_tables :: "catalog \<Rightarrow> string list \<Rightarrow> nat" where
  "count_existing_tables cat tables = length (filter (try_table_exists_here cat) tables)"

section \<open>Pending files\<close>

datatype migration_state = Applied | Replaced | Pending

definition replaced_by :: "migration list \<Rightarrow> string set \<Rightarrow> string \<Rightarrow> string option" where
  "replaced_by all applied name =
     map_option mg_name (List.find (\<lambda>m. mg_name m \<in> applied \<and> name \<in> set (mg_replaces m)) all)"

definition migration_state_of :: "migration list \<Rightarrow> string set \<Rightarrow> migration \<Rightarrow> migration_state" where
  "migration_state_of all applied m =
     (if mg_name m \<in> applied then Applied
      else if replaced_by all applied (mg_name m) \<noteq> None then Replaced
      else Pending)"

definition migration_states :: "migration list \<Rightarrow> string set \<Rightarrow> (migration \<times> migration_state) list" where
  "migration_states all applied = map (\<lambda>m. (m, migration_state_of all applied m)) all"

definition pending_migrations :: "migration list \<Rightarrow> string set \<Rightarrow> migration list" where
  "pending_migrations all applied = map fst (filter (\<lambda>(_, s). s = Pending) (migration_states all applied))"

definition backward_from :: "migration list \<Rightarrow> string set \<Rightarrow> string \<Rightarrow> migration list" where
  "backward_from all applied target = filter (\<lambda>m. target < mg_name m \<and> mg_name m \<in> applied) (rev all)"

definition forward_to :: "migration list \<Rightarrow> string set \<Rightarrow> string \<Rightarrow> migration list" where
  "forward_to all applied target = filter (\<lambda>m. mg_name m \<le> target) (pending_migrations all applied)"

definition snapshot_before :: "migration list \<Rightarrow> migration \<Rightarrow> runner_error + schema_snapshot" where
  "snapshot_before all mig =
     (case mg_prev mig of
        None \<Rightarrow> Inr empty_snapshot
      | Some prev_name \<Rightarrow>
          (case find_by mg_name prev_name all of
             None \<Rightarrow> Inl (MissingPrev (mg_name mig) prev_name)
           | Some m \<Rightarrow> Inr (effective_snapshot all m)))"

section \<open>What a file creates\<close>

fun created_table :: "operation \<Rightarrow> string option" where
  "created_table (Schema (CreateTable t)) = Some t"
| "created_table (Schema (CreateM2MTable t _ _ _ _)) = Some t"
| "created_table _ = None"

definition create_table_targets :: "migration \<Rightarrow> string list" where
  "create_table_targets mig = List.map_filter created_table (mg_forward mig)"

fun create_only_from :: "string list \<Rightarrow> string list \<Rightarrow> operation list \<Rightarrow> (string list \<times> string list) option" where
  "create_only_from tables targeted [] = Some (tables, targeted)"
| "create_only_from tables targeted (Schema (CreateTable t) # ops) = create_only_from (tables @ [t]) targeted ops"
| "create_only_from tables targeted (Schema (CreateIndex _ t _ _ _ _ _) # ops) =
     create_only_from tables (targeted @ [t]) ops"
| "create_only_from tables targeted (Schema (CreateM2MTable t _ _ _ _) # ops) =
     create_only_from (tables @ [t]) targeted ops"
| "create_only_from tables targeted (_ # ops) = None"

definition create_only_tables :: "migration \<Rightarrow> string list option" where
  "create_only_tables mig =
     (case create_only_from [] [] (mg_forward mig) of
        None \<Rightarrow> None
      | Some (tables, targeted) \<Rightarrow>
          if tables = [] then None
          else if list_ex (\<lambda>t. t \<notin> set tables) targeted then None
          else Some tables)"

definition without_tables :: "migration \<Rightarrow> string list \<Rightarrow> migration" where
  "without_tables mig existing =
     mig\<lparr>mg_forward := filter (\<lambda>op. case op of
           Schema (CreateTable t) \<Rightarrow> t \<notin> set existing
         | Schema (CreateIndex _ t _ _ _ _ _) \<Rightarrow> t \<notin> set existing
         | Schema (CreateM2MTable t _ _ _ _) \<Rightarrow> t \<notin> set existing
         | _ \<Rightarrow> True) (mg_forward mig)\<rparr>"

definition outside_tables :: "migration \<Rightarrow> string list \<Rightarrow> migration" where
  "outside_tables mig existing =
     mig\<lparr>mg_forward := filter (\<lambda>op. case op of
           Schema c \<Rightarrow> change_table c \<notin> set existing
         | _ \<Rightarrow> False) (mg_forward mig)\<rparr>"

section \<open>Reconciling with the live schema\<close>

fun change_applied :: "catalog \<Rightarrow> schema_change \<Rightarrow> bool option" where
  "change_applied cat (CreateTable t) = Some (try_table_exists_here cat t)"
| "change_applied cat (CreateM2MTable t _ _ _ _) = Some (try_table_exists_here cat t)"
| "change_applied cat (DropTable t) = Some (\<not> try_table_exists_here cat t)"
| "change_applied cat (DropM2MTable t) = Some (\<not> try_table_exists_here cat t)"
| "change_applied cat (AddColumn t c) = Some (live_column cat t c)"
| "change_applied cat (DropColumn t c) = Some (\<not> live_column cat t c)"
| "change_applied cat (CreateIndex name _ _ _ _ _ _) = Some (index_columns cat name \<noteq> [])"
| "change_applied cat (DropIndex name _) = Some (index_columns cat name = [])"
| "change_applied cat _ = None"

definition applied_counts :: "catalog \<Rightarrow> schema_change list \<Rightarrow> nat \<times> nat" where
  "applied_counts cat changes =
     (length (filter (\<lambda>c. change_applied cat c = Some True) changes),
      length (filter (\<lambda>c. change_applied cat c = Some False) changes))"

datatype reconcile_action = RunAll | Fake | RunPartial "string list" | RunOutside "string list"

definition outside_changes :: "migration \<Rightarrow> string list \<Rightarrow> schema_change list" where
  "outside_changes mig targets =
     List.map_filter (\<lambda>op. case op of
        Schema c \<Rightarrow> if change_table c \<notin> set targets then Some c else None
      | _ \<Rightarrow> None) (mg_forward mig)"

definition is_schema_op :: "operation \<Rightarrow> bool" where
  "is_schema_op op = (case op of Schema _ \<Rightarrow> True | _ \<Rightarrow> False)"

definition reconcile_tables :: "catalog \<Rightarrow> migration \<Rightarrow> runner_error + reconcile_action" where
  "reconcile_tables cat mig =
     (let targets = create_table_targets mig; existing = count_existing_tables cat targets
      in if targets = [] then Inr RunAll
         else if existing = length targets then
           (let (present, absent) = applied_counts cat (outside_changes mig targets)
            in if present > 0 \<and> absent > 0 then Inl (SquashChangesMixed (mg_name mig) present absent)
               else if absent > 0 then
                 if list_ex (\<lambda>op. \<not> is_schema_op op) (mg_forward mig) then Inl (SquashDataUnknown (mg_name mig))
                 else Inr (RunOutside targets)
               else Inr Fake)
         else if existing > 0 then Inl (SquashTablesPartial (mg_name mig) existing (length targets))
         else Inr RunAll)"

definition reconcile :: "catalog \<Rightarrow> migration \<Rightarrow> string set \<Rightarrow> bool \<Rightarrow> runner_error + reconcile_action" where
  "reconcile cat mig applied fake_initial =
     (if mg_replaces mig \<noteq> [] then
        let present = length (filter (\<lambda>n. n \<in> applied) (mg_replaces mig))
        in if present = length (mg_replaces mig) then Inr Fake
           else if present > 0 then
             Inl (SquashPartlyApplied (mg_name mig) (length (mg_replaces mig)) present
               (filter (\<lambda>n. n \<notin> applied) (mg_replaces mig)))
           else reconcile_tables cat mig
      else if fake_initial then
        case create_only_tables mig of
          None \<Rightarrow> Inr RunAll
        | Some tables \<Rightarrow>
            (let existing = filter (try_table_exists_here cat) tables
             in if length existing = length tables then Inr Fake
                else if existing \<noteq> [] then Inr (RunPartial existing)
                else Inr RunAll)
      else Inr RunAll)"

section \<open>Running the operations of one file\<close>

definition resolve_callbacks :: "server \<Rightarrow> operation list \<Rightarrow> runner_error + unit" where
  "resolve_callbacks sv ops =
     (case List.find (\<lambda>op. case op of Callback c \<Rightarrow> sv_callback sv (cb_name c) = None | _ \<Rightarrow> False) ops of
        Some (Callback c) \<Rightarrow> Inl (UnregisteredCallback (cb_name c))
      | _ \<Rightarrow> Inr ())"

definition driver :: "catalog option \<Rightarrow> runner_error + catalog" where
  "driver r = (case r of None \<Rightarrow> Inl DriverError | Some cat \<Rightarrow> Inr cat)"

fun run_op :: "server \<Rightarrow> string \<Rightarrow> bool \<Rightarrow> schema_snapshot \<Rightarrow> operation \<Rightarrow> catalog \<Rightarrow> runner_error + catalog" where
  "run_op sv mig atomic snapshot (Schema c) cat = driver (change_step snapshot c cat)"
| "run_op sv mig atomic snapshot (Data d) cat = driver (sv_sql sv (do_sql d) cat)"
| "run_op sv mig atomic snapshot (Callback c) cat =
     (if atomic then Inl (CallbackNeedsNonAtomic mig (cb_name c))
      else case sv_callback sv (cb_name c) of
             None \<Rightarrow> Inl (UnregisteredCallback (cb_name c))
           | Some f \<Rightarrow> driver (f cat))"

fun run_ops :: "server \<Rightarrow> string \<Rightarrow> bool \<Rightarrow> schema_snapshot \<Rightarrow> operation list \<Rightarrow> unit run" where
  "run_ops sv mig atomic snapshot [] db = (db, Inr ())"
| "run_ops sv mig atomic snapshot (op # ops) db =
     (case run_op sv mig atomic snapshot op (db_catalog db) of
        Inl e \<Rightarrow> (db, Inl e)
      | Inr cat \<Rightarrow> run_ops sv mig atomic snapshot ops (db\<lparr>db_catalog := cat\<rparr>))"

text \<open>The ledger's name column is its primary key.\<close>

definition ledger_insert :: "server \<Rightarrow> string \<Rightarrow> unit run" where
  "ledger_insert sv name db =
     (if name \<in> applied_set_pool db then (db, Inl DriverError)
      else (db\<lparr>db_ledger := db_ledger db @ [(name, sv_now sv name)]\<rparr>, Inr ()))"

definition ledger_delete :: "string \<Rightarrow> database \<Rightarrow> database" where
  "ledger_delete name db = db\<lparr>db_ledger := filter (\<lambda>r. fst r \<noteq> name) (db_ledger db)\<rparr>"

definition apply_atomic_pool :: "server \<Rightarrow> migration \<Rightarrow> unit run" where
  "apply_atomic_pool sv mig =
     transaction (and_then (run_ops sv (mg_name mig) True (mg_snapshot mig) (mg_forward mig)) (\<lambda>_. ledger_insert sv (mg_name mig)))"

definition apply_nonatomic_pool :: "server \<Rightarrow> migration \<Rightarrow> unit run" where
  "apply_nonatomic_pool sv mig =
     and_then (check (resolve_callbacks sv (mg_forward mig)))
       (\<lambda>_. and_then (run_ops sv (mg_name mig) False (mg_snapshot mig) (mg_forward mig)) (\<lambda>_. ledger_insert sv (mg_name mig)))"

text \<open>
  \<open>refuse_duplicate_keys\<close>: the unique keys a file adds on tables and columns it does not make itself,
  up to its first data step, probed one by one. A probe that fails is only logged.
\<close>

fun new_key :: "schema_change \<Rightarrow> (string \<times> string \<times> string list) option" where
  "new_key (CreateIndex name t cols True _ None _) = Some (name, t, cols)"
| "new_key (AlterColumnUnique t c True) = Some (c, t, [c])"
| "new_key _ = None"

fun made_tables :: "schema_change \<Rightarrow> string list" where
  "made_tables (CreateTable t) = [t]"
| "made_tables (CreateM2MTable t _ _ _ _) = [t]"
| "made_tables (RenameTable _ t) = [t]"
| "made_tables _ = []"

fun made_columns :: "schema_change \<Rightarrow> (string \<times> string) list" where
  "made_columns (AddColumn t c) = [(t, c)]"
| "made_columns (RenameColumn t _ c) = [(t, c)]"
| "made_columns _ = []"

fun refuse_keys_from ::
  "server \<Rightarrow> string \<Rightarrow> string list \<Rightarrow> (string \<times> string) list \<Rightarrow> operation list \<Rightarrow> runner_error + unit" where
  "refuse_keys_from sv mig new_tables new_columns (Schema change # ops) =
     (case new_key change of
        None \<Rightarrow> refuse_keys_from sv mig (new_tables @ made_tables change) (new_columns @ made_columns change) ops
      | Some (name, table, columns) \<Rightarrow>
          if table \<in> set new_tables \<or> list_ex (\<lambda>c. (table, c) \<in> set new_columns) columns
          then refuse_keys_from sv mig new_tables new_columns ops
          else if sv_duplicates sv mig table columns = Some True then Inl (RepeatedKeys mig name table)
          else refuse_keys_from sv mig new_tables new_columns ops)"
| "refuse_keys_from sv mig new_tables new_columns _ = Inr ()"

definition refuse_duplicate_keys :: "server \<Rightarrow> migration \<Rightarrow> runner_error + unit" where
  "refuse_duplicate_keys sv mig = refuse_keys_from sv (mg_name mig) [] [] (mg_forward mig)"

definition apply_one_pool :: "server \<Rightarrow> migration \<Rightarrow> unit run" where
  "apply_one_pool sv mig =
     and_then (check (refuse_duplicate_keys sv mig))
       (\<lambda>_. if mg_atomic mig then apply_atomic_pool sv mig else apply_nonatomic_pool sv mig)"

definition fake_apply_pool :: "server \<Rightarrow> migration \<Rightarrow> database \<Rightarrow> database" where
  "fake_apply_pool sv mig db =
     foldl (\<lambda>d replaced. ledger_delete replaced d) (fst (ledger_insert sv (mg_name mig) db)) (mg_replaces mig)"

section \<open>The apply loop\<close>

datatype outcome = Ran | RanPartial "string list" | Faked

datatype migration_event =
    Planned nat
  | Started string nat nat \<comment> \<open>name, index, total\<close>
  | Finished string nat nat outcome
  | Failed string nat nat runner_error

definition on_live_branches :: "migration list \<Rightarrow> string set \<Rightarrow> migration \<Rightarrow> migration" where
  "on_live_branches all done_names mig =
     (let snapshot = apply_snapshot all done_names mig
      in if snapshot_eq snapshot (mg_snapshot mig) then mig else mig\<lparr>mg_snapshot := snapshot\<rparr>)"

definition effective_file :: "reconcile_action \<Rightarrow> migration \<Rightarrow> migration \<times> outcome" where
  "effective_file action mig =
     (case action of
        RunPartial existing \<Rightarrow> (without_tables mig existing, RanPartial existing)
      | RunOutside existing \<Rightarrow> (outside_tables mig existing, RanPartial existing)
      | _ \<Rightarrow> (mig, Ran))"

definition reconcile_and_apply ::
  "server \<Rightarrow> migration list \<Rightarrow> string set \<Rightarrow> migration \<Rightarrow> string set \<Rightarrow> bool \<Rightarrow> outcome run" where
  "reconcile_and_apply sv all done_names mig applied fake_initial db =
     (case reconcile (db_catalog db) mig applied fake_initial of
        Inl e \<Rightarrow> (db, Inl e)
      | Inr Fake \<Rightarrow> (fake_apply_pool sv mig db, Inr Faked)
      | Inr action \<Rightarrow>
          (let (effective, outcome) = effective_file action mig
           in and_then (check (snapshot_before all mig))
                (\<lambda>_. and_then (apply_one_pool sv (on_live_branches all done_names effective)) (\<lambda>_. check (Inr outcome))) db))"

text \<open>The loop over the pending files; \<open>i\<close> is the index of the next one.\<close>

fun apply_pending ::
  "server \<Rightarrow> migration list \<Rightarrow> string set \<Rightarrow> bool \<Rightarrow> nat \<Rightarrow> nat \<Rightarrow> string set \<Rightarrow> migration list \<Rightarrow> database \<Rightarrow>
   migration_event list \<times> database \<times> (runner_error + migration list)" where
  "apply_pending sv all applied fake_initial n i done_names [] db = ([], db, Inr [])"
| "apply_pending sv all applied fake_initial n i done_names (mig # migs) db =
     (case reconcile_and_apply sv all done_names mig applied fake_initial db of
        (db', Inl e) \<Rightarrow> ([Started (mg_name mig) i n, Failed (mg_name mig) i n e], db', Inl e)
      | (db', Inr outcome) \<Rightarrow>
          (case apply_pending sv all applied fake_initial n (Suc i) (insert (mg_name mig) done_names) migs db' of
             (events, db'', result) \<Rightarrow>
               (Started (mg_name mig) i n # Finished (mg_name mig) i n outcome # events, db'',
                map_sum id (Cons mig) result)))"

definition apply_chain ::
  "server \<Rightarrow> migration list \<Rightarrow> bool \<Rightarrow> database \<Rightarrow> migration_event list \<times> database \<times> (runner_error + migration list)" where
  "apply_chain sv all fake_initial db =
     (let applied = applied_set_pool db;
          pending = pending_migrations all applied;
          (events, db', result) = apply_pending sv all applied fake_initial (length pending) 1 applied pending db
      in (Planned (length pending) # events, db', result))"

section \<open>Rolling back\<close>

definition unapply_atomic_pool :: "server \<Rightarrow> migration \<Rightarrow> operation list \<Rightarrow> schema_snapshot \<Rightarrow> unit run" where
  "unapply_atomic_pool sv target inverted snapshot =
     transaction (and_then (run_ops sv (mg_name target) True snapshot inverted) (\<lambda>_. put (ledger_delete (mg_name target))))"

definition unapply_nonatomic_pool :: "server \<Rightarrow> migration \<Rightarrow> operation list \<Rightarrow> schema_snapshot \<Rightarrow> unit run" where
  "unapply_nonatomic_pool sv target inverted snapshot =
     and_then (check (resolve_callbacks sv inverted))
       (\<lambda>_. and_then (run_ops sv (mg_name target) False snapshot inverted) (\<lambda>_. put (ledger_delete (mg_name target))))"

definition find_file :: "migration list \<Rightarrow> string \<Rightarrow> runner_error + migration" where
  "find_file all name = (case find_by mg_name name all of None \<Rightarrow> Inl (NotFound name) | Some m \<Rightarrow> Inr m)"

definition refuse_unapplied :: "migration list \<Rightarrow> string set \<Rightarrow> string \<Rightarrow> runner_error + unit" where
  "refuse_unapplied all applied name =
     (if name \<in> applied then Inr ()
      else Inl (case replaced_by all applied name of None \<Rightarrow> NotApplied name | Some squash \<Rightarrow> ReplacedBy name squash))"

text \<open>\<open>unapply_locked_pool\<close> once it has read the ledger.\<close>

definition unapply_file :: "server \<Rightarrow> migration list \<Rightarrow> string \<Rightarrow> string set \<Rightarrow> migration run" where
  "unapply_file sv all name applied =
     and_then (check (find_file all name)) (\<lambda>target.
     and_then (check (refuse_unapplied all applied name)) (\<lambda>_.
     and_then (check (snapshot_before all target)) (\<lambda>prev.
     and_then (check (map_sum CannotInvert id (invert_migration target prev))) (\<lambda>inverted.
       let after = rollback_snapshot all applied target prev
       in and_then (if mg_atomic target then unapply_atomic_pool sv target inverted after
                    else unapply_nonatomic_pool sv target inverted after) (\<lambda>_.
          check (Inr target))))))"

definition unapply_locked_pool :: "server \<Rightarrow> migration list \<Rightarrow> string \<Rightarrow> migration run" where
  "unapply_locked_pool sv all name db = unapply_file sv all name (applied_set_pool db) db"

definition check_is_head_pool :: "migration list \<Rightarrow> string \<Rightarrow> database \<Rightarrow> runner_error + unit" where
  "check_is_head_pool all name db =
     (if name \<notin> applied_set_pool db then Inr ()
      else case List.find (\<lambda>m. mg_name m \<in> applied_set_pool db) (rev all) of
             None \<Rightarrow> Inr ()
           | Some h \<Rightarrow> if mg_name h = name then Inr () else Inl (OutOfOrder name (mg_name h)))"

definition unapply_pool :: "server \<Rightarrow> migration list \<Rightarrow> string \<Rightarrow> migration run" where
  "unapply_pool sv all name db =
     and_then (check (check_is_head_pool all name db)) (\<lambda>_. unapply_locked_pool sv all name) db"

fun unapply_each :: "server \<Rightarrow> migration list \<Rightarrow> migration list \<Rightarrow> migration list run" where
  "unapply_each sv all [] = check (Inr [])"
| "unapply_each sv all (mig # migs) =
     and_then (unapply_locked_pool sv all (mg_name mig)) (\<lambda>_.
     and_then (unapply_each sv all migs) (\<lambda>touched. check (Inr (mig # touched))))"

definition unapply_all_in_order_pool :: "server \<Rightarrow> migration list \<Rightarrow> string set \<Rightarrow> migration list run" where
  "unapply_all_in_order_pool sv all applied = unapply_each sv all (rev (filter (\<lambda>m. mg_name m \<in> applied) all))"

section \<open>Moving to a target\<close>

record moved =
  mv_unapplied :: "migration list"
  mv_applied :: "migration list"

definition target_on_disk :: "migration list \<Rightarrow> string \<Rightarrow> runner_error + unit" where
  "target_on_disk all target = (if list_ex (\<lambda>m. mg_name m = target) all then Inr () else Inl (NotFound target))"

definition refuse_replaced :: "migration list \<Rightarrow> string set \<Rightarrow> string \<Rightarrow> runner_error + unit" where
  "refuse_replaced all applied target =
     (case replaced_by all applied target of None \<Rightarrow> Inr () | Some squash \<Rightarrow> Inl (ReplacedBy target squash))"

text \<open>\<open>migrate_to_locked\<close> once it has read the ledger.\<close>

definition migrate_to_target :: "server \<Rightarrow> migration list \<Rightarrow> string \<Rightarrow> string set \<Rightarrow> moved run" where
  "migrate_to_target sv all target applied =
     (if target = ''zero'' then
        and_then (unapply_all_in_order_pool sv all applied) (\<lambda>ms. check (Inr \<lparr>mv_unapplied = ms, mv_applied = []\<rparr>))
      else
        and_then (check (target_on_disk all target)) (\<lambda>_.
        and_then (check (refuse_replaced all applied target)) (\<lambda>_.
          let later = backward_from all applied target; applied' = applied - mg_name ` set later
          in and_then (unapply_each sv all later) (\<lambda>unapplied.
             and_then (\<lambda>db. snd (apply_pending sv all applied' False 0 0 applied' (forward_to all applied' target) db)) (\<lambda>ms.
             check (Inr \<lparr>mv_unapplied = unapplied, mv_applied = ms\<rparr>))))))"

definition migrate_to_locked :: "server \<Rightarrow> migration list \<Rightarrow> string \<Rightarrow> moved run" where
  "migrate_to_locked sv all target db = migrate_to_target sv all target (applied_set_pool db) db"

section \<open>Rolling back by apply order\<close>

datatype rollback = Steps nat | After string

definition apply_order :: "(string \<times> int) list \<Rightarrow> string \<Rightarrow> nat option" where
  "apply_order ledger name =
     (case find_by fst name ledger of
        None \<Rightarrow> None
      | Some r \<Rightarrow> Some (length (filter (\<lambda>l. snd l < snd r) ledger)))"

record rollback_plan =
  rp_unapply :: "(nat \<times> migration) list" \<comment> \<open>folder, file\<close>
  rp_kept :: "string list"

definition folder_files :: "migration list list \<Rightarrow> (nat \<times> migration) list" where
  "folder_files dirs = concat (map (\<lambda>(i, ms). map (Pair i) ms) (List.enumerate 0 dirs))"

text \<open>The applied files, newest first, as (rank, position) pairs in descending order.\<close>

definition applied_positions :: "(nat \<times> migration) list \<Rightarrow> (string \<Rightarrow> nat option) \<Rightarrow> (nat \<times> nat) list" where
  "applied_positions files order =
     rev (sort (List.map_filter (\<lambda>(pos, _, m). map_option (\<lambda>r. (r, pos)) (order (mg_name m))) (List.enumerate 0 files)))"

definition pick_after ::
  "(nat \<times> migration) list \<Rightarrow> (string \<Rightarrow> nat option) \<Rightarrow> (nat \<times> nat) list \<Rightarrow> string \<Rightarrow> runner_error + nat list \<times> string list" where
  "pick_after files order applied target =
     (case filter (\<lambda>(_, _, m). mg_name m = target) (List.enumerate 0 files) of
        [] \<Rightarrow> Inl (NotFound target)
      | [(t, folder, _)] \<Rightarrow>
          (let key = map_option (\<lambda>r. (r, t)) (order target);
               later = filter (\<lambda>(r, pos). case key of None \<Rightarrow> pos > t | Some k \<Rightarrow> (r, pos) > k) applied
           in Inr (map snd (filter (\<lambda>(_, pos). fst (files ! pos) = folder) later),
                   if key = None then []
                   else map (\<lambda>(_, pos). mg_name (snd (files ! pos))) (filter (\<lambda>(_, pos). fst (files ! pos) \<noteq> folder) later)))
      | _ \<Rightarrow> Inl (InTwoFolders target))"

fun take_files :: "(nat \<times> migration) list \<Rightarrow> nat list \<Rightarrow> runner_error + (nat \<times> migration) list" where
  "take_files files [] = Inr []"
| "take_files files (pos # picked) =
     (let mig = snd (files ! pos)
      in if length (filter (\<lambda>(_, m). mg_name m = mg_name mig) files) > 1 then Inl (InTwoFolders (mg_name mig))
         else map_sum id (Cons (files ! pos)) (take_files files picked))"

definition plan_rollback :: "rollback \<Rightarrow> migration list list \<Rightarrow> (string \<Rightarrow> nat option) \<Rightarrow> runner_error + rollback_plan" where
  "plan_rollback what dirs order =
     (let files = folder_files dirs; applied = applied_positions files order
      in case (case what of Steps n \<Rightarrow> Inr (map snd (take n applied), []) | After target \<Rightarrow> pick_after files order applied target) of
           Inl e \<Rightarrow> Inl e
         | Inr (picked, kept) \<Rightarrow>
             map_sum id (\<lambda>fs. \<lparr>rp_unapply = fs, rp_kept = kept\<rparr>) (take_files files picked))"

fun unapply_planned :: "server \<Rightarrow> migration list list \<Rightarrow> (nat \<times> migration) list \<Rightarrow> unit run" where
  "unapply_planned sv dirs [] = check (Inr ())"
| "unapply_planned sv dirs ((folder, mig) # rest) =
     and_then (unapply_locked_pool sv (dirs ! folder) (mg_name mig)) (\<lambda>_. unapply_planned sv dirs rest)"

definition rollback_pool :: "server \<Rightarrow> migration list list \<Rightarrow> rollback \<Rightarrow> rollback_plan run" where
  "rollback_pool sv dirs what db =
     and_then (check (plan_rollback what dirs (apply_order (db_ledger db)))) (\<lambda>plan.
     and_then (unapply_planned sv dirs (rp_unapply plan)) (\<lambda>_. check (Inr plan))) db"

definition downgrade_pool :: "server \<Rightarrow> migration list \<Rightarrow> nat \<Rightarrow> migration list run" where
  "downgrade_pool sv dir steps =
     (if steps = 0 then check (Inr [])
      else and_then (rollback_pool sv [dir] (Steps steps)) (\<lambda>p. check (Inr (map snd (rp_unapply p)))))"

section \<open>Sequencing\<close>

lemma and_then_Inr:
  "and_then f g db = (db', Inr y) \<longleftrightarrow> (\<exists>db1 x. f db = (db1, Inr x) \<and> g x db1 = (db', Inr y))"
  by (auto simp: and_then_def split: prod.splits sum.splits)

lemma and_then_Inl:
  "and_then f g db = (db', Inl e) \<longleftrightarrow>
     f db = (db', Inl e) \<or> (\<exists>db1 x. f db = (db1, Inr x) \<and> g x db1 = (db', Inl e))"
  by (auto simp: and_then_def split: prod.splits sum.splits)

lemma and_then_step: "f db = (db1, Inr x) \<Longrightarrow> and_then f g db = g x db1"
  by (simp add: and_then_def)

lemma check_simps [simp]:
  "check r db = (db', Inr x) \<longleftrightarrow> db' = db \<and> r = Inr x" "check r db = (db', Inl e) \<longleftrightarrow> db' = db \<and> r = Inl e"
  by (auto simp: check_def)

lemma and_then_check [simp]: "and_then (check (Inr x)) g = g x" "and_then (check (Inl e)) g db = (db, Inl e)"
  by (auto simp: and_then_def check_def)

lemma put_simps [simp]:
  "put g db = (db', Inr u) \<longleftrightarrow> db' = g db" "put g db \<noteq> (db', Inl e)"
  by (auto simp: put_def)

lemma transaction_Inr: "transaction f db = (db', Inr x) \<longleftrightarrow> f db = (db', Inr x)"
  by (auto simp: transaction_def split: prod.splits sum.splits)

lemma transaction_Inl: "transaction f db = (db', Inl e) \<longleftrightarrow> db' = db \<and> (\<exists>db1. f db = (db1, Inl e))"
  by (auto simp: transaction_def split: prod.splits sum.splits)

lemmas run_Inr = and_then_Inr transaction_Inr

end
