(* ===== verification/Runner_Correct.thy ===== *)
theory Runner_Correct
  imports Runner
begin

text \<open>
  What the runner guarantees whatever the server does: the ledger names each file once, a run that ends
  without an error leaves nothing pending, a run that fails leaves the database as the files before the
  failing one left it when the files are atomic, every start is reported once, and moving to a target
  leaves exactly the files up to it.
\<close>

section \<open>Ledger rows\<close>

named_theorems ledger_simps

lemma applied_set_catalog [simp, ledger_simps]: "applied_set_pool (db\<lparr>db_catalog := cat\<rparr>) = applied_set_pool db"
  by (simp add: applied_set_pool_def)

lemma applied_set_delete [simp, ledger_simps]: "applied_set_pool (ledger_delete n db) = applied_set_pool db - {n}"
  by (auto simp: applied_set_pool_def ledger_delete_def)

lemma ledger_delete_catalog [simp]: "db_catalog (ledger_delete n db) = db_catalog db"
  by (simp add: ledger_delete_def)

lemma ledger_insert_Inr:
  "ledger_insert sv n db = (db', Inr u) \<Longrightarrow>
     n \<notin> applied_set_pool db \<and> applied_set_pool db' = insert n (applied_set_pool db) \<and> db_catalog db' = db_catalog db"
  by (auto simp: ledger_insert_def applied_set_pool_def split: if_splits)

lemma deletes_applied: "applied_set_pool (foldl (\<lambda>d r. ledger_delete r d) db rs) = applied_set_pool db - set rs"
  by (induction rs arbitrary: db) auto

lemma deletes_catalog [simp]: "db_catalog (foldl (\<lambda>d r. ledger_delete r d) db rs) = db_catalog db"
  by (induction rs arbitrary: db) auto

lemma fake_apply_applied:
  "applied_set_pool (fake_apply_pool sv mig db) = insert (mg_name mig) (applied_set_pool db) - set (mg_replaces mig)"
proof -
  have "applied_set_pool (fst (ledger_insert sv (mg_name mig) db)) = insert (mg_name mig) (applied_set_pool db)"
    by (auto simp: ledger_insert_def applied_set_pool_def)
  then show ?thesis by (simp add: fake_apply_pool_def deletes_applied)
qed

lemma fake_apply_catalog [simp]: "db_catalog (fake_apply_pool sv mig db) = db_catalog db"
  by (simp add: fake_apply_pool_def ledger_insert_def)

section \<open>One file\<close>

lemma run_ops_ledger: "run_ops sv n atomic snap ops db = (db', r) \<Longrightarrow> db_ledger db' = db_ledger db"
  by (induction sv n atomic snap ops db rule: run_ops.induct) (auto split: sum.splits)

lemma apply_one_pool_Inr:
  assumes "apply_one_pool sv mig db = (db', Inr u)"
  shows "mg_name mig \<notin> applied_set_pool db" "applied_set_pool db' = insert (mg_name mig) (applied_set_pool db)"
proof -
  obtain snap atomic db1 where r: "run_ops sv (mg_name mig) atomic snap (mg_forward mig) db = (db1, Inr ())"
      "ledger_insert sv (mg_name mig) db1 = (db', Inr u)"
    using assms by (auto simp: apply_one_pool_def apply_atomic_pool_def apply_nonatomic_pool_def run_Inr split: if_splits)
  from r(1) have "applied_set_pool db1 = applied_set_pool db" using run_ops_ledger by (simp add: applied_set_pool_def)
  with ledger_insert_Inr [OF r(2)] show "mg_name mig \<notin> applied_set_pool db"
      "applied_set_pool db' = insert (mg_name mig) (applied_set_pool db)" by auto
qed

lemma on_live_branches_fields [simp]:
  "mg_name (on_live_branches all d mig) = mg_name mig" "mg_atomic (on_live_branches all d mig) = mg_atomic mig"
  "mg_forward (on_live_branches all d mig) = mg_forward mig"
  by (simp_all add: on_live_branches_def Let_def)

lemma effective_file_fields [simp]:
  "mg_name (fst (effective_file action mig)) = mg_name mig" "mg_atomic (fst (effective_file action mig)) = mg_atomic mig"
  by (simp_all add: effective_file_def without_tables_def outside_tables_def split: reconcile_action.split)

lemma effective_file_outcome: "snd (effective_file action mig) \<noteq> Faked"
  by (simp add: effective_file_def split: reconcile_action.split)

text \<open>The two ways a file gets into the ledger.\<close>

lemma reconcile_and_apply_ran:
  assumes "reconcile (db_catalog db) mig applied fake = Inr action" "action \<noteq> Fake" "effective_file action mig = (eff, oc)"
  shows "reconcile_and_apply sv all d mig applied fake db =
     and_then (check (snapshot_before all mig))
       (\<lambda>_. and_then (apply_one_pool sv (on_live_branches all d eff)) (\<lambda>_. check (Inr oc))) db"
  using assms by (cases action) (simp_all add: reconcile_and_apply_def)

lemma reconcile_and_apply_cases:
  assumes "reconcile_and_apply sv all d mig applied fake db = (db', Inr out)"
  obtains (faked) "out = Faked" "db' = fake_apply_pool sv mig db" "reconcile (db_catalog db) mig applied fake = Inr Fake"
  | (ran) action where "out \<noteq> Faked" "reconcile (db_catalog db) mig applied fake = Inr action" "action \<noteq> Fake"
      "apply_one_pool sv (on_live_branches all d (fst (effective_file action mig))) db = (db', Inr ())"
proof -
  obtain action where r: "reconcile (db_catalog db) mig applied fake = Inr action"
    using assms by (cases "reconcile (db_catalog db) mig applied fake") (auto simp: reconcile_and_apply_def)
  show ?thesis
  proof (cases "action = Fake")
    case True
    then show ?thesis using assms r faked by (auto simp: reconcile_and_apply_def)
  next
    case False
    obtain eff oc where e: "effective_file action mig = (eff, oc)" by fastforce
    have out: "oc \<noteq> Faked" using effective_file_outcome [of action mig] e by simp
    show ?thesis using assms r False out ran [of action] e
      by (auto simp: reconcile_and_apply_ran [OF r False e] and_then_Inr)
  qed
qed

lemma reconcile_and_apply_applied:
  assumes "reconcile_and_apply sv all d mig applied fake db = (db', Inr out)"
  shows "applied_set_pool db' = insert (mg_name mig) (applied_set_pool db) - (if out = Faked then set (mg_replaces mig) else {})"
  using assms by (cases rule: reconcile_and_apply_cases) (auto simp: fake_apply_applied apply_one_pool_Inr(2))

section \<open>Nothing stays pending\<close>

lemma pending_filter: "pending_migrations all applied = filter (\<lambda>m. migration_state_of all applied m = Pending) all"
  by (induction all rule: rev_induct; simp add: pending_migrations_def migration_states_def filter_map comp_def)

lemma replaced_by_None_iff:
  "replaced_by all applied n = None \<longleftrightarrow> (\<forall>m\<in>set all. mg_name m \<in> applied \<longrightarrow> n \<notin> set (mg_replaces m))"
  by (auto simp: replaced_by_def find_None_iff)

definition settled :: "migration list \<Rightarrow> string set \<Rightarrow> migration \<Rightarrow> bool" where
  "settled all applied m \<longleftrightarrow>
     mg_name m \<in> applied \<or> (\<exists>s\<in>set all. mg_name s \<in> applied \<and> mg_name m \<in> set (mg_replaces s))"

lemma pending_iff: "migration_state_of all applied m = Pending \<longleftrightarrow> \<not> settled all applied m"
  by (auto simp: migration_state_of_def settled_def replaced_by_None_iff)

definition flat_squashes :: "migration list \<Rightarrow> bool" where
  "flat_squashes all \<longleftrightarrow>
     list_all (\<lambda>m. mg_name m \<notin> set (mg_replaces m) \<and>
       list_all (\<lambda>f. mg_name f \<in> set (mg_replaces m) \<longrightarrow> set (mg_replaces f) \<subseteq> set (mg_replaces m)) all) all"

lemma settled_insert: "settled all applied m \<Longrightarrow> settled all (insert n applied) m"
  by (auto simp: settled_def)

lemma settled_fake:
  assumes "flat_squashes all" "s \<in> set all" "settled all applied m \<or> m = s"
  shows "settled all (insert (mg_name s) applied - set (mg_replaces s)) m"
proof -
  have own: "mg_name s \<notin> set (mg_replaces s)"
    and flat: "f \<in> set all \<Longrightarrow> mg_name f \<in> set (mg_replaces s) \<Longrightarrow> set (mg_replaces f) \<subseteq> set (mg_replaces s)" for f
    using assms(1,2) by (auto simp: flat_squashes_def list_all_iff)
  show ?thesis
  proof (cases "mg_name m \<in> set (mg_replaces s)")
    case True
    with own assms(2) show ?thesis by (auto simp: settled_def)
  next
    case False
    from assms(3) consider "m = s" | "mg_name m \<in> applied" | r where "r \<in> set all" "mg_name r \<in> applied" "mg_name m \<in> set (mg_replaces r)"
      by (auto simp: settled_def)
    then show ?thesis
    proof cases
      case 3
      with False flat [of r] have "mg_name r \<notin> set (mg_replaces s)" by blast
      with 3 show ?thesis by (auto simp: settled_def)
    qed (use own False in \<open>auto simp: settled_def\<close>)
  qed
qed

lemma map_sum_Inr: "map_sum id f r = Inr y \<longleftrightarrow> (\<exists>x. r = Inr x \<and> y = f x)"
  by (cases r) auto

lemma apply_pending_Cons:
  "apply_pending sv all applied fake n i d (mig # migs) db = (ev, db', Inr ms) \<longleftrightarrow>
     (\<exists>db1 out ev1 ms1.
        reconcile_and_apply sv all d mig applied fake db = (db1, Inr out) \<and>
        apply_pending sv all applied fake n (Suc i) (insert (mg_name mig) d) migs db1 = (ev1, db', Inr ms1) \<and>
        ev = Started (mg_name mig) i n # Finished (mg_name mig) i n out # ev1 \<and> ms = mig # ms1)"
  by (auto simp: map_sum_Inr split: prod.splits sum.splits)

lemma apply_pending_settles:
  assumes "flat_squashes all" "set migs \<subseteq> set all"
    and "apply_pending sv all applied fake n i d migs db = (ev, db', Inr ms)"
    and "settled all (applied_set_pool db) f \<or> f \<in> set migs"
  shows "settled all (applied_set_pool db') f"
  using assms
proof (induction migs arbitrary: i d db ev ms)
  case (Cons mig migs)
  obtain db1 out ev1 ms1 where s: "reconcile_and_apply sv all d mig applied fake db = (db1, Inr out)"
      "apply_pending sv all applied fake n (Suc i) (insert (mg_name mig) d) migs db1 = (ev1, db', Inr ms1)"
    using Cons.prems(3) unfolding apply_pending_Cons by blast
  note a = reconcile_and_apply_applied [OF s(1)]
  have "settled all (applied_set_pool db1) f \<or> f \<in> set migs"
  proof (cases "settled all (applied_set_pool db) f \<or> f = mig")
    case True
    then have "settled all (applied_set_pool db1) f"
      using settled_fake [OF Cons.prems(1), of mig "applied_set_pool db" f] Cons.prems(2) a
      by (cases "out = Faked") (auto intro: settled_insert simp: settled_def)
    then show ?thesis ..
  qed (use Cons.prems(4) in auto)
  then show ?case using Cons.IH [OF Cons.prems(1) _ s(2)] Cons.prems(2) by auto
qed simp

lemma pending_subset: "set (pending_migrations all applied) \<subseteq> set all"
  by (auto simp: pending_filter)

lemma apply_chain_settles:
  assumes "flat_squashes all" "apply_chain sv all fake db = (ev, db', Inr ms)"
  shows "pending_migrations all (applied_set_pool db') = []"
proof -
  obtain ev1 where "apply_pending sv all (applied_set_pool db) fake (length (pending_migrations all (applied_set_pool db))) 1
      (applied_set_pool db) (pending_migrations all (applied_set_pool db)) db = (ev1, db', Inr ms)"
    using assms(2) by (auto simp: apply_chain_def Let_def split: prod.splits)
  moreover have "settled all (applied_set_pool db) f \<or> f \<in> set (pending_migrations all (applied_set_pool db))"
    if "f \<in> set all" for f
    using that by (auto simp: pending_filter pending_iff)
  ultimately have "settled all (applied_set_pool db') f" if "f \<in> set all" for f
    using apply_pending_settles [OF assms(1) pending_subset] that by blast
  then show ?thesis by (simp add: pending_filter pending_iff filter_empty_conv)
qed

lemma apply_chain_idle:
  "pending_migrations all (applied_set_pool db) = [] \<Longrightarrow> apply_chain sv all fake db = ([Planned 0], db, Inr [])"
  by (simp add: apply_chain_def Let_def)

section \<open>A failing file\<close>

lemma run_Inl_transaction: "transaction f db = (db', Inl e) \<Longrightarrow> db' = db"
  by (simp add: transaction_Inl)

lemma apply_one_pool_Inl:
  "apply_one_pool sv mig db = (db', Inl e) \<Longrightarrow> mg_atomic mig \<Longrightarrow> db' = db"
  by (auto simp: apply_one_pool_def apply_atomic_pool_def and_then_Inl dest: run_Inl_transaction)

lemma reconcile_and_apply_Inl:
  assumes "reconcile_and_apply sv all d mig applied fake db = (db', Inl e)" "mg_atomic mig"
  shows "db' = db"
proof -
  consider e' where "reconcile (db_catalog db) mig applied fake = Inl e'" | "reconcile (db_catalog db) mig applied fake = Inr Fake"
    | action where "reconcile (db_catalog db) mig applied fake = Inr action" "action \<noteq> Fake"
    by (cases "reconcile (db_catalog db) mig applied fake") auto
  then show ?thesis
  proof cases
    case (3 action)
    obtain eff oc where e: "effective_file action mig = (eff, oc)" by fastforce
    then have "mg_atomic eff" using effective_file_fields(2) [of action mig] assms(2) by simp
    with assms(1) show ?thesis
      by (auto simp: reconcile_and_apply_ran [OF 3 e] and_then_Inl dest: apply_one_pool_Inl)
  qed (use assms(1) in \<open>auto simp: reconcile_and_apply_def\<close>)
qed

text \<open>The events of the files that went through.\<close>

fun file_events :: "nat \<Rightarrow> nat \<Rightarrow> (migration \<times> outcome) list \<Rightarrow> migration_event list" where
  "file_events n i [] = []"
| "file_events n i ((m, out) # rest) = Started (mg_name m) i n # Finished (mg_name m) i n out # file_events n (Suc i) rest"

lemma apply_pending_Inr:
  assumes "apply_pending sv all applied fake n i d migs db = (ev, db', Inr ms)"
  shows "ms = migs \<and> (\<exists>outs. length outs = length migs \<and> ev = file_events n i (zip migs outs))"
  using assms
proof (induction migs arbitrary: i d db ev ms)
  case (Cons mig migs)
  obtain db1 out ev1 ms1 where s:
      "apply_pending sv all applied fake n (Suc i) (insert (mg_name mig) d) migs db1 = (ev1, db', Inr ms1)"
      "ev = Started (mg_name mig) i n # Finished (mg_name mig) i n out # ev1" "ms = mig # ms1"
    using Cons.prems unfolding apply_pending_Cons by blast
  then obtain outs where "length outs = length migs" "ev1 = file_events n (Suc i) (zip migs outs)" "ms1 = migs"
    using Cons.IH by blast
  with s show ?case by (intro conjI exI [of _ "out # outs"]) simp_all
qed simp

lemma apply_pending_Inl:
  assumes "apply_pending sv all applied fake n i d migs db = (ev, db', Inl e)" "list_all mg_atomic migs"
  shows "\<exists>before mig rest ev1. migs = before @ mig # rest \<and>
     apply_pending sv all applied fake n i d before db = (ev1, db', Inr before) \<and>
     ev = ev1 @ [Started (mg_name mig) (i + length before) n, Failed (mg_name mig) (i + length before) n e]"
  using assms
proof (induction migs arbitrary: i d db ev)
  case (Cons mig migs)
  obtain db1 r where s: "reconcile_and_apply sv all d mig applied fake db = (db1, r)" by fastforce
  show ?case
  proof (cases r)
    case (Inl e')
    with s Cons.prems have "db1 = db" using reconcile_and_apply_Inl by simp
    with Inl s Cons.prems show ?thesis by (intro exI [of _ "[]"] exI [of _ mig] exI [of _ migs]) auto
  next
    case (Inr out)
    obtain ev1 where ev1: "apply_pending sv all applied fake n (Suc i) (insert (mg_name mig) d) migs db1 = (ev1, db', Inl e)"
        "ev = Started (mg_name mig) i n # Finished (mg_name mig) i n out # ev1"
      using Cons.prems(1) s Inr by (auto split: prod.splits) (metis (no_types, lifting) id_apply map_sum.simps(2) old.sum.exhaust sum.simps(4) map_sum.simps(1) Inl_Inr_False)
    with Cons.IH [OF ev1(1)] Cons.prems(2) obtain before f rest ev2 where b: "migs = before @ f # rest"
        "apply_pending sv all applied fake n (Suc i) (insert (mg_name mig) d) before db1 = (ev2, db', Inr before)"
        "ev1 = ev2 @ [Started (mg_name f) (Suc i + length before) n, Failed (mg_name f) (Suc i + length before) n e]"
      by auto
    then have "apply_pending sv all applied fake n i d (mig # before) db =
        (Started (mg_name mig) i n # Finished (mg_name mig) i n out # ev2, db', Inr (mig # before))"
      using s Inr unfolding apply_pending_Cons by blast
    with b ev1(2) show ?thesis
      by (intro exI [of _ "mig # before"] exI [of _ f] exI [of _ rest]) auto
  qed
qed simp

section \<open>Invariants of the database\<close>

text \<open>
  What every run keeps: an invariant that survives recording an allowed name that is not there, removing a
  name, and any change of the catalog.
\<close>

locale run_invariant =
  fixes inv :: "database \<Rightarrow> bool"
    and allowed :: "string \<Rightarrow> bool"
  assumes insert_keeps: "inv db \<Longrightarrow> allowed n \<Longrightarrow> n \<notin> applied_set_pool db \<Longrightarrow> inv (db\<lparr>db_ledger := db_ledger db @ [(n, t)]\<rparr>)"
    and delete_keeps: "inv db \<Longrightarrow> inv (ledger_delete n db)"
    and catalog_keeps: "inv db \<Longrightarrow> inv (db\<lparr>db_catalog := cat\<rparr>)"
begin

definition keeps :: "'a run \<Rightarrow> bool" where
  "keeps f \<longleftrightarrow> (\<forall>db db' r. f db = (db', r) \<longrightarrow> inv db \<longrightarrow> inv db')"

lemma keepsD: "keeps f \<Longrightarrow> f db = (db', r) \<Longrightarrow> inv db \<Longrightarrow> inv db'"
  by (auto simp: keeps_def)

lemma keeps_result: "keeps f \<Longrightarrow> inv db \<Longrightarrow> inv (fst (f db))"
  by (metis keepsD prod.collapse)

lemma keeps_and_then [intro]: "keeps f \<Longrightarrow> (\<And>x. keeps (g x)) \<Longrightarrow> keeps (and_then f g)"
  unfolding keeps_def and_then_def by (auto split: prod.splits sum.splits) blast+

lemma keeps_reading: "(\<And>a. keeps (f a)) \<Longrightarrow> keeps (\<lambda>db. f (h db) db)"
  by (auto simp: keeps_def)

lemma keeps_transaction [intro]: "keeps f \<Longrightarrow> keeps (transaction f)"
  unfolding keeps_def transaction_def by (auto split: prod.splits sum.splits)

lemma keeps_run_ops [intro, simp]: "keeps (run_ops sv n atomic snap ops)"
proof -
  have "run_ops sv n atomic snap ops db = (db', r) \<Longrightarrow> inv db \<Longrightarrow> inv db'" for db db' r
    by (induction sv n atomic snap ops db rule: run_ops.induct) (auto intro: catalog_keeps split: sum.splits)
  then show ?thesis by (auto simp: keeps_def)
qed

lemma keeps_check [intro, simp]: "keeps (check r)"
  by (simp add: keeps_def check_def)

lemma keeps_delete [intro, simp]: "keeps (put (ledger_delete n))"
  by (auto simp: keeps_def put_def intro: delete_keeps)

lemma keeps_insert [intro]: "allowed n \<Longrightarrow> keeps (ledger_insert sv n)"
  by (auto simp: keeps_def ledger_insert_def intro: insert_keeps)

lemma fake_keeps:
  assumes "inv db" "allowed (mg_name mig)"
  shows "inv (fake_apply_pool sv mig db)"
proof -
  have "inv (foldl (\<lambda>d r. ledger_delete r d) d rs)" if "inv d" for d rs
    using that by (induction rs arbitrary: d) (auto intro: delete_keeps)
  then show ?thesis using keeps_result [OF keeps_insert] assms by (simp add: fake_apply_pool_def)
qed

lemma keeps_apply_one [intro]: "allowed (mg_name mig) \<Longrightarrow> keeps (apply_one_pool sv mig)"
  by (auto simp: apply_one_pool_def apply_atomic_pool_def apply_nonatomic_pool_def)

lemma keeps_reconcile_and_apply [intro]:
  assumes "allowed (mg_name mig)"
  shows "keeps (reconcile_and_apply sv all d mig applied fake)"
  unfolding keeps_def
proof (intro allI impI)
  fix db db' r assume a: "reconcile_and_apply sv all d mig applied fake db = (db', r)" "inv db"
  consider e' where "reconcile (db_catalog db) mig applied fake = Inl e'" | "reconcile (db_catalog db) mig applied fake = Inr Fake"
    | action where "reconcile (db_catalog db) mig applied fake = Inr action" "action \<noteq> Fake"
    by (cases "reconcile (db_catalog db) mig applied fake") auto
  then show "inv db'"
  proof cases
    case (3 action)
    obtain eff oc where e: "effective_file action mig = (eff, oc)" by fastforce
    then have "allowed (mg_name (on_live_branches all d eff))" using effective_file_fields(1) [of action mig] assms by simp
    then have "keeps (and_then (check (snapshot_before all mig))
        (\<lambda>_. and_then (apply_one_pool sv (on_live_branches all d eff)) (\<lambda>_. check (Inr oc))))" by (intro keeps_and_then keeps_check keeps_apply_one)
    then show ?thesis using a unfolding reconcile_and_apply_ran [OF 3 e] by (rule keepsD)
  qed (use a assms in \<open>auto simp: reconcile_and_apply_def intro: fake_keeps\<close>)
qed

lemma keeps_unapply_one [intro, simp]:
  "keeps (unapply_atomic_pool sv target inverted after)" "keeps (unapply_nonatomic_pool sv target inverted after)"
  by (auto simp: unapply_atomic_pool_def unapply_nonatomic_pool_def)

lemma keeps_unapply [intro, simp]: "keeps (unapply_locked_pool sv all name)"
proof -
  have "keeps (unapply_file sv all name applied)" for applied
    unfolding unapply_file_def Let_def by (intro keeps_and_then) auto
  then show ?thesis unfolding unapply_locked_pool_def [abs_def] by (rule keeps_reading [where h = applied_set_pool])
qed

lemma apply_pending_keeps:
  "apply_pending sv all applied fake n i d migs db = (ev, db', r) \<Longrightarrow> list_all (\<lambda>m. allowed (mg_name m)) migs \<Longrightarrow>
     inv db \<Longrightarrow> inv db'"
proof (induction migs arbitrary: i d db ev r)
  case (Cons mig migs)
  obtain db1 r1 where s: "reconcile_and_apply sv all d mig applied fake db = (db1, r1)" by fastforce
  with Cons.prems have "inv db1" using keepsD [OF keeps_reconcile_and_apply s] by simp
  with s Cons show ?case by (cases r1) (auto split: prod.splits)
qed simp

lemma keeps_unapply_each [intro, simp]: "keeps (unapply_each sv all migs)"
  by (induction sv all migs rule: unapply_each.induct) auto

lemma apply_chain_keeps:
  assumes "list_all (\<lambda>m. allowed (mg_name m)) all" "inv db"
  shows "inv (fst (snd (apply_chain sv all fake db)))"
proof -
  have "list_all (\<lambda>m. allowed (mg_name m)) (pending_migrations all applied)" for applied
    using assms(1) pending_subset [of all applied] by (auto simp: list_all_iff)
  then show ?thesis using apply_pending_keeps assms(2) by (auto simp: apply_chain_def Let_def split: prod.split)
qed

lemma keeps_migrate_to [intro]:
  assumes "list_all (\<lambda>m. allowed (mg_name m)) all"
  shows "keeps (migrate_to_locked sv all target)"
proof -
  have "list_all (\<lambda>m. allowed (mg_name m)) (forward_to all applied target)" for applied
    using assms pending_subset [of all applied] by (auto simp: list_all_iff forward_to_def)
  then have "keeps (\<lambda>db. snd (apply_pending sv all a f n i d (forward_to all applied target) db))" for a f n i d applied
    unfolding keeps_def using apply_pending_keeps by (metis prod.collapse)
  then have "keeps (migrate_to_target sv all target applied)" for applied
    unfolding migrate_to_target_def unapply_all_in_order_pool_def Let_def
    by (cases "target = ''zero''") (auto intro!: keeps_and_then)
  then show ?thesis unfolding migrate_to_locked_def [abs_def] by (rule keeps_reading [where h = applied_set_pool])
qed

lemma keeps_rollback [intro, simp]: "keeps (rollback_pool sv dirs what)"
proof -
  have each: "keeps (unapply_planned sv dirs fs)" for fs
    by (induction sv dirs fs rule: unapply_planned.induct) auto
  have "keeps (and_then (check (plan_rollback what dirs (apply_order ledger))) (\<lambda>plan.
      and_then (unapply_planned sv dirs (rp_unapply plan)) (\<lambda>_. check (Inr plan))))" for ledger
    using each by auto
  then show ?thesis unfolding rollback_pool_def [abs_def] by (rule keeps_reading [where h = db_ledger])
qed

end

text \<open>The names in the ledger are unique, and a run adds none but those of the files it was given.\<close>

definition ledger_ok :: "database \<Rightarrow> bool" where
  "ledger_ok db \<longleftrightarrow> distinct (map fst (db_ledger db))"

interpretation unique_names: run_invariant ledger_ok "\<lambda>_. True"
  by unfold_locales (auto simp: ledger_ok_def applied_set_pool_def ledger_delete_def distinct_map_filter)

interpretation known_names: run_invariant "\<lambda>db. applied_set_pool db \<subseteq> names" "\<lambda>n. n \<in> names" for names
  by unfold_locales (auto simp: applied_set_pool_def ledger_delete_def)

section \<open>Moving to a target\<close>

lemma unapply_locked_Inr:
  assumes "unapply_locked_pool sv all name db = (db', Inr m)"
  shows "applied_set_pool db' = applied_set_pool db - {name}" "name \<in> applied_set_pool db"
proof -
  obtain target snap atomic inverted db1 where
      "find_file all name = Inr target" "refuse_unapplied all (applied_set_pool db) name = Inr ()"
      "run_ops sv (mg_name target) atomic snap inverted db = (db1, Inr ())" "db' = ledger_delete (mg_name target) db1"
    using assms
    by (auto simp: unapply_locked_pool_def unapply_file_def Let_def and_then_Inr unapply_atomic_pool_def unapply_nonatomic_pool_def
        transaction_Inr split: if_splits)
  then show "applied_set_pool db' = applied_set_pool db - {name}" "name \<in> applied_set_pool db"
    using run_ops_ledger find_by_SomeD [of mg_name name all target]
    by (auto simp: find_file_def refuse_unapplied_def applied_set_pool_def ledger_delete_def split: option.splits if_splits)
qed

lemma unapply_each_Inr:
  "unapply_each sv all migs db = (db', Inr ms) \<Longrightarrow>
     ms = migs \<and> applied_set_pool db' = applied_set_pool db - mg_name ` set migs"
proof (induction migs arbitrary: db ms)
  case (Cons mig migs)
  obtain m db1 ms1 where s: "unapply_locked_pool sv all (mg_name mig) db = (db1, Inr m)"
      "unapply_each sv all migs db1 = (db', Inr ms1)" "ms = mig # ms1"
    using Cons.prems by (auto simp: and_then_Inr)
  with Cons.IH [OF s(2)] unapply_locked_Inr(1) [OF s(1)] show ?case by auto
qed simp

lemma reconcile_plain: "mg_replaces mig = [] \<Longrightarrow> reconcile cat mig applied False = Inr RunAll"
  by (simp add: reconcile_def)

lemma apply_pending_plain:
  "apply_pending sv all applied False n i d migs db = (ev, db', Inr ms) \<Longrightarrow> list_all (\<lambda>m. mg_replaces m = []) migs \<Longrightarrow>
     applied_set_pool db' = applied_set_pool db \<union> mg_name ` set migs"
proof (induction migs arbitrary: i d db ev ms)
  case (Cons mig migs)
  obtain db1 out ev1 ms1 where s: "reconcile_and_apply sv all d mig applied False db = (db1, Inr out)"
      "apply_pending sv all applied False n (Suc i) (insert (mg_name mig) d) migs db1 = (ev1, db', Inr ms1)"
    using Cons.prems(1) unfolding apply_pending_Cons by blast
  with Cons.IH [OF s(2)] Cons.prems(2) reconcile_and_apply_applied [OF s(1)] show ?case by auto
qed simp

lemma pending_plain:
  "list_all (\<lambda>m. mg_replaces m = []) all \<Longrightarrow> pending_migrations all applied = filter (\<lambda>m. mg_name m \<notin> applied) all"
  by (auto simp: pending_filter pending_iff settled_def list_all_iff intro!: filter_cong)

lemma migrate_to_ledger:
  assumes "list_all (\<lambda>m. mg_replaces m = []) all" "migrate_to_locked sv all target db = (db', Inr mv)" "target \<noteq> ''zero''"
  shows "applied_set_pool db' =
     {n \<in> applied_set_pool db. n \<notin> mg_name ` set all} \<union> {n \<in> mg_name ` set all. n \<le> target}"
proof -
  let ?A = "applied_set_pool db"
  let ?later = "backward_from all ?A target"
  let ?A' = "?A - mg_name ` set ?later"
  obtain db1 ev ms where s: "unapply_each sv all ?later db = (db1, Inr ?later)"
      "apply_pending sv all ?A' False 0 0 ?A' (forward_to all ?A' target) db1 = (ev, db', Inr ms)"
  proof -
    from assms(2,3) obtain db1 unapplied ms where u: "unapply_each sv all ?later db = (db1, Inr unapplied)"
        "snd (apply_pending sv all ?A' False 0 0 ?A' (forward_to all ?A' target) db1) = (db', Inr ms)"
      by (auto simp: migrate_to_locked_def migrate_to_target_def Let_def and_then_Inr)
    then show thesis using unapply_each_Inr [OF u(1)] that by (metis prod.collapse)
  qed
  have "list_all (\<lambda>m. mg_replaces m = []) (forward_to all ?A' target)"
    using assms(1) pending_subset [of all ?A'] by (auto simp: forward_to_def list_all_iff)
  then have "applied_set_pool db' = applied_set_pool db1 \<union> mg_name ` set (forward_to all ?A' target)"
    using apply_pending_plain [OF s(2)] by simp
  also have "applied_set_pool db1 = ?A'" using unapply_each_Inr [OF s(1)] by simp
  finally show ?thesis
    by (auto simp: backward_from_def forward_to_def pending_plain [OF assms(1)])
qed

lemma migrate_to_zero_ledger:
  assumes "migrate_to_locked sv all ''zero'' db = (db', Inr mv)"
  shows "applied_set_pool db' = applied_set_pool db - mg_name ` set all"
proof -
  obtain ms where "unapply_each sv all (rev (filter (\<lambda>m. mg_name m \<in> applied_set_pool db) all)) db = (db', Inr ms)"
    using assms by (auto simp: migrate_to_locked_def migrate_to_target_def unapply_all_in_order_pool_def Let_def and_then_Inr)
  from unapply_each_Inr [OF this] show ?thesis by auto
qed

section \<open>Reconciling never creates a table twice\<close>

lemma created_table_owner: "created_table op = Some t \<Longrightarrow> \<exists>c. op = Schema c \<and> change_table c = t"
  by (cases op rule: created_table.cases) auto

lemma set_targets: "set (create_table_targets mig) = {t. \<exists>op\<in>set (mg_forward mig). created_table op = Some t}"
  by (force simp: create_table_targets_def List.map_filter_def)

lemma create_only_from_targets:
  "create_only_from tables targeted ops = Some (ts, gs) \<Longrightarrow> ts = tables @ List.map_filter created_table ops"
  by (induction tables targeted ops rule: create_only_from.induct) (simp_all add: List.map_filter_def)

lemma create_only_targets: "create_only_tables mig = Some tables \<Longrightarrow> tables = create_table_targets mig"
  by (auto simp: create_only_tables_def create_table_targets_def split: option.splits if_splits
      dest: create_only_from_targets)

lemma without_tables_targets:
  "set (create_table_targets (without_tables mig existing)) = set (create_table_targets mig) - set existing"
proof -
  have "created_table op = Some t \<Longrightarrow> (case op of
           Schema (CreateTable t) \<Rightarrow> t \<notin> set existing
         | Schema (CreateIndex _ t _ _ _ _ _) \<Rightarrow> t \<notin> set existing
         | Schema (CreateM2MTable t _ _ _ _) \<Rightarrow> t \<notin> set existing
         | _ \<Rightarrow> True) \<longleftrightarrow> t \<notin> set existing" for op t
    by (cases op rule: created_table.cases) auto
  then show ?thesis unfolding set_targets without_tables_def by auto
qed

lemma outside_tables_targets: "create_table_targets (outside_tables mig (create_table_targets mig)) = []"
proof -
  have "t \<notin> set (create_table_targets (outside_tables mig (create_table_targets mig)))" for t
  proof
    assume t: "t \<in> set (create_table_targets (outside_tables mig (create_table_targets mig)))"
    then obtain op where op: "op \<in> set (mg_forward (outside_tables mig (create_table_targets mig)))" "created_table op = Some t"
      unfolding set_targets [of "outside_tables mig (create_table_targets mig)"] by blast
    then obtain c where c: "op = Schema c" "change_table c = t" using created_table_owner by blast
    with op have "t \<notin> set (create_table_targets mig)" "Schema c \<in> set (mg_forward mig)" by (auto simp: outside_tables_def)
    with op c show False unfolding set_targets by blast
  qed
  then have "set (create_table_targets (outside_tables mig (create_table_targets mig))) = {}" by (metis equals0I)
  then show ?thesis by simp
qed

lemma none_exist: "count_existing_tables cat ts = 0 \<Longrightarrow> t \<in> set ts \<Longrightarrow> \<not> try_table_exists_here cat t"
  by (simp add: count_existing_tables_def filter_empty_conv)

lemma reconcile_tables_fresh:
  assumes "reconcile_tables cat mig = Inr action" "action \<noteq> Fake" "t \<in> set (create_table_targets (fst (effective_file action mig)))"
  shows "\<not> try_table_exists_here cat t"
  using assms none_exist [of cat "create_table_targets mig" t]
  by (auto simp: reconcile_tables_def effective_file_def Let_def outside_tables_targets split: if_splits prod.splits)

lemma reconcile_fresh:
  assumes "reconcile cat mig applied fake = Inr action" "action \<noteq> Fake"
    and "mg_replaces mig \<noteq> [] \<or> fake \<and> create_only_tables mig \<noteq> None"
    and "t \<in> set (create_table_targets (fst (effective_file action mig)))"
  shows "\<not> try_table_exists_here cat t"
proof (cases "mg_replaces mig = []")
  case False
  then have "reconcile_tables cat mig = Inr action"
    using assms(1,2) by (auto simp: reconcile_def Let_def split: if_splits)
  then show ?thesis using reconcile_tables_fresh assms(2,4) by blast
next
  case True
  then obtain tables where tables: "create_only_tables mig = Some tables" "fake" using assms(3) by auto
  with True have "action = RunAll \<and> filter (try_table_exists_here cat) tables = [] \<or>
      action = RunPartial (filter (try_table_exists_here cat) tables)"
    using assms(1,2) by (auto simp: reconcile_def Let_def split: if_splits)
  then show ?thesis
    using assms(4) create_only_targets [OF tables(1)] without_tables_targets
    by (auto simp: effective_file_def filter_empty_conv)
qed

end
