(* ===== verification/Runner_History.thy ===== *)
theory Runner_History
  imports History Runner_Correct
begin

text \<open>
  The runner on a project whose files came from \<open>makemigrations\<close>. A database stands at a position of the
  history when its ledger holds the files before the position and its catalog is their snapshot. Applying
  moves it one position up, unapplying one down; so \<open>migrate\<close>, \<open>migrate <target>\<close> and \<open>downgrade\<close> move it
  to the position they name.
\<close>

section \<open>Files of a history\<close>

lemma history_take: "history inventory chain \<Longrightarrow> history inventory (take k chain)"
proof (induction rule: history.induct)
  case (makemigrations chain now models name_override drops mig)
  then show ?case by (cases "k \<le> length chain") (auto intro: history.makemigrations)
qed (simp add: history.start)

lemma history_distinct: "history inventory chain \<Longrightarrow> distinct (map mg_name chain)"
  using history_invariant numbered_distinct by blast

lemma history_plain: "history inventory chain \<Longrightarrow> list_all (\<lambda>m. mg_replaces m = []) chain"
  using history_invariant by (auto simp: linked_def list_all_iff)

lemma history_nth:
  assumes "history inventory chain" "k < length chain"
  defines "before \<equiv> chain_snapshot (take k chain)"
  shows "mg_forward (chain ! k) = map Schema (detect_changes before (mg_snapshot (chain ! k)))"
    "supported_change before (mg_snapshot (chain ! k))" "snap_ok before" "snap_ok (mg_snapshot (chain ! k))"
    "mg_prev (chain ! k) = (if k = 0 then None else Some (mg_name (chain ! (k - 1))))"
    "\<not> snapshot_eq before (mg_snapshot (chain ! k))"
proof -
  have h: "history inventory (take k chain @ [chain ! k])"
    using history_take [OF assms(1), of "Suc k"] assms(2) by (simp add: take_Suc_conv_app_nth)
  note step = history_step [OF h]
  show "mg_forward (chain ! k) = map Schema (detect_changes before (mg_snapshot (chain ! k)))"
    "supported_change before (mg_snapshot (chain ! k))" "snap_ok before" "snap_ok (mg_snapshot (chain ! k))"
    using step unfolding before_def by auto
  have l: "linked (take k chain @ [chain ! k])" using history_invariant [OF h] by simp
  then have "mg_forward (chain ! k) \<noteq> []" by (auto simp: linked_def)
  then show "\<not> snapshot_eq before (mg_snapshot (chain ! k))"
    using step(2,4) detect_changes_same(1) unfolding before_def by (auto simp: snap_ok_def)
  have "map mg_prev (take k chain @ [chain ! k]) ! k =
      butlast (None # map (\<lambda>m. Some (mg_name m)) (take k chain @ [chain ! k])) ! k"
    using l by (simp add: linked_def)
  then show "mg_prev (chain ! k) = (if k = 0 then None else Some (mg_name (chain ! (k - 1))))"
    using assms(2) by (cases k) (simp_all add: nth_append nth_butlast min_def)
qed

lemma chain_snapshot_take:
  "k < length chain \<Longrightarrow> chain_snapshot (take (Suc k) chain) = mg_snapshot (chain ! k)"
  by (simp add: chain_snapshot_def take_Suc_conv_app_nth)

lemma chain_snapshot_nth:
  "0 < k \<Longrightarrow> k \<le> length chain \<Longrightarrow> chain_snapshot (take k chain) = mg_snapshot (chain ! (k - 1))"
  using chain_snapshot_take [of "k - 1" chain] by simp

lemma find_nth: "distinct (map mg_name chain) \<Longrightarrow> k < length chain \<Longrightarrow> find_by mg_name (mg_name (chain ! k)) chain = Some (chain ! k)"
  by (rule find_by_in) simp_all

lemma find_take:
  assumes "distinct (map mg_name chain)" "k < length chain"
  shows "find_by mg_name (mg_name (chain ! k)) (take (Suc k) chain) = Some (chain ! k)"
proof (rule find_by_in)
  show "distinct (map mg_name (take (Suc k) chain))" using distinct_take [OF assms(1)] by (simp add: take_map)
qed (use assms(2) in \<open>simp add: take_Suc_conv_app_nth\<close>)

lemma name_new:
  assumes "distinct (map mg_name chain)" "k < length chain"
  shows "mg_name (chain ! k) \<notin> mg_name ` set (take k chain)"
  using distinct_take [OF assms(1), of "Suc k"] assms(2) by (simp add: take_map take_Suc_conv_app_nth)

lemma history_effective:
  assumes "history inventory chain" "k < length chain"
  shows "effective_snapshot chain (chain ! k) = mg_snapshot (chain ! k)"
proof (rule effective_snapshot_own)
  fix p assume p: "chain_parent chain (chain ! k) = Some p"
  then have k: "0 < k" "p = chain ! (k - 1)"
    using history_nth(5) [OF assms] find_nth [OF history_distinct [OF assms(1)], of "k - 1"] assms(2)
    by (auto simp: chain_parent_def split: if_splits)
  then have "chain_snapshot (take k chain) = mg_snapshot p" using chain_snapshot_nth [of k chain] assms(2) by simp
  with history_nth(6) [OF assms] show "\<not> snapshot_eq (mg_snapshot p) (mg_snapshot (chain ! k))" by simp
qed

lemma history_snapshot_before:
  assumes "history inventory chain" "k < length chain"
  shows "snapshot_before chain (chain ! k) = Inr (chain_snapshot (take k chain))"
proof (cases "k = 0")
  case True
  with history_nth(5) [OF assms] show ?thesis by (simp add: snapshot_before_def chain_snapshot_def)
next
  case False
  then have j: "k - 1 < length chain" using assms(2) by simp
  show ?thesis
    using False history_nth(5) [OF assms] find_nth [OF history_distinct [OF assms(1)] j] history_effective [OF assms(1) j]
      chain_snapshot_nth [of k chain] assms(2)
    by (simp add: snapshot_before_def)
qed

lemma filter_names_take:
  assumes "distinct (map mg_name chain)"
  shows "filter (\<lambda>m. mg_name m \<in> mg_name ` set (take k chain)) chain = take k chain"
    "filter (\<lambda>m. mg_name m \<notin> mg_name ` set (take k chain)) chain = drop k chain"
proof -
  have "distinct (map mg_name (take k chain @ drop k chain))" using assms by simp
  then have "mg_name ` set (take k chain) \<inter> mg_name ` set (drop k chain) = {}"
    by (simp only: map_append distinct_append set_map)
  then have "filter (\<lambda>m. mg_name m \<in> mg_name ` set (take k chain)) (take k chain @ drop k chain) = take k chain"
    "filter (\<lambda>m. mg_name m \<notin> mg_name ` set (take k chain)) (take k chain @ drop k chain) = drop k chain"
    unfolding filter_append by (auto simp: filter_empty_conv filter_id_conv)
  then show "filter (\<lambda>m. mg_name m \<in> mg_name ` set (take k chain)) chain = take k chain"
    "filter (\<lambda>m. mg_name m \<notin> mg_name ` set (take k chain)) chain = drop k chain"
    by (simp_all only: append_take_drop_id)
qed

text \<open>On a line there is no other branch to keep.\<close>

lemma history_leaves:
  assumes "history inventory chain" "k < length chain"
  shows "leaves (take (Suc k) chain) = [chain ! k]"
proof -
  note h = history_take [OF assms(1), of "Suc k"]
  have "leaves (take (Suc k) chain) = [last (take (Suc k) chain)]"
    using history_invariant [OF h] assms(2) by (intro linked_leaves history_distinct [OF h]) auto
  then show ?thesis using assms(2) by (simp add: take_Suc_conv_app_nth)
qed

lemma history_apply_snapshot:
  assumes "history inventory chain" "k < length chain"
  shows "apply_snapshot chain (mg_name ` set (take k chain)) (chain ! k) = mg_snapshot (chain ! k)"
proof -
  note d = history_distinct [OF assms(1)]
  have "filter (\<lambda>m. mg_name m = mg_name (chain ! k) \<or> mg_name m \<in> mg_name ` set (take k chain)) chain = take (Suc k) chain"
    using filter_names_take(1) [OF d, of "Suc k"] assms(2) by (simp add: take_Suc_conv_app_nth)
  then show ?thesis
    using history_leaves [OF assms] find_take [OF d assms(2)] by (simp add: apply_snapshot_def Let_def with_other_branches_def)
qed

lemma history_rollback_snapshot:
  assumes "history inventory chain" "k < length chain"
  shows "rollback_snapshot chain (mg_name ` set (take (Suc k) chain)) (chain ! k) prev = prev"
proof -
  note d = history_distinct [OF assms(1)]
  note new = name_new [OF d assms(2)]
  have f: "filter (\<lambda>m. mg_name m \<noteq> mg_name (chain ! k) \<and> mg_name m \<in> mg_name ` set (take (Suc k) chain)) chain = take k chain"
  proof -
    have "mg_name m \<noteq> mg_name (chain ! k) \<and> mg_name m \<in> mg_name ` set (take (Suc k) chain) \<longleftrightarrow>
        mg_name m \<in> mg_name ` set (take k chain)" for m :: migration
      using new assms(2) by (auto simp: take_Suc_conv_app_nth)
    then show ?thesis by (simp only: filter_names_take(1) [OF d])
  qed
  show ?thesis
  proof (cases "k = 0")
    case True
    then show ?thesis using f history_nth(5) [OF assms] by (simp add: rollback_snapshot_def Let_def chain_parent_def)
  next
    case False
    then have k: "take k chain = take (Suc (k - 1)) chain" "k - 1 < length chain" using assms(2) by simp_all
    have "find_by mg_name (mg_name (chain ! (k - 1))) (take k chain) = Some (chain ! (k - 1))"
      using find_take [OF d k(2)] k(1) by simp
    moreover have "leaves (take k chain) = [chain ! (k - 1)]" using history_leaves [OF assms(1) k(2)] k(1) by simp
    ultimately show ?thesis
      using f history_nth(5) [OF assms] False by (simp add: rollback_snapshot_def Let_def chain_parent_def with_other_branches_def)
  qed
qed

section \<open>Positions\<close>

definition at_position :: "migration list \<Rightarrow> nat \<Rightarrow> database \<Rightarrow> bool" where
  "at_position chain k db \<longleftrightarrow>
     k \<le> length chain \<and> applied_set_pool db = mg_name ` set (take k chain) \<and>
     db_catalog db = catalog_of (chain_snapshot (take k chain))"

definition no_repeated_keys :: "server \<Rightarrow> migration list \<Rightarrow> bool" where
  "no_repeated_keys sv chain \<longleftrightarrow> list_all (\<lambda>m. refuse_duplicate_keys sv m = Inr ()) chain"

lemma run_ops_schema:
  "run_changes snap cs (db_catalog db) = Some cat \<Longrightarrow>
     run_ops sv n atomic snap (map Schema cs) db = (db\<lparr>db_catalog := cat\<rparr>, Inr ())"
proof (induction cs arbitrary: db)
  case (Cons c cs)
  then obtain cat1 where "change_step snap c (db_catalog db) = Some cat1" "run_changes snap cs cat1 = Some cat"
    by (auto simp: Option.bind_eq_Some_conv)
  with Cons.IH [of "db\<lparr>db_catalog := cat1\<rparr>"] show ?case by (simp add: driver_def)
qed simp

lemma resolve_schema: "resolve_callbacks sv (map Schema cs) = Inr ()"
proof -
  have "List.find P (map Schema cs) = None" if "\<And>c. \<not> P (Schema c)" for P
    using that by (induction cs) simp_all
  then show ?thesis by (simp add: resolve_callbacks_def)
qed

lemma apply_one_schema:
  assumes "refuse_duplicate_keys sv mig = Inr ()" "mg_forward mig = map Schema cs" "mg_name mig \<notin> applied_set_pool db"
    "run_changes (mg_snapshot mig) cs (db_catalog db) = Some cat"
  shows "\<exists>db'. apply_one_pool sv mig db = (db', Inr ()) \<and> db_catalog db' = cat \<and>
     applied_set_pool db' = insert (mg_name mig) (applied_set_pool db)"
proof -
  let ?db' = "db\<lparr>db_catalog := cat, db_ledger := db_ledger db @ [(mg_name mig, sv_now sv (mg_name mig))]\<rparr>"
  have "and_then (run_ops sv (mg_name mig) atomic (mg_snapshot mig) (mg_forward mig)) (\<lambda>_. ledger_insert sv (mg_name mig)) db =
      (?db', Inr ())" for atomic
    using assms run_ops_schema [OF assms(4)] by (simp add: and_then_def ledger_insert_def)
  then have "apply_one_pool sv mig db = (?db', Inr ())"
    using assms by (simp add: apply_one_pool_def apply_atomic_pool_def apply_nonatomic_pool_def resolve_schema transaction_def)
  then show ?thesis by (auto simp: applied_set_pool_def)
qed

lemma position_up:
  assumes h: "history inventory chain" and k: "k < length chain" and p: "at_position chain k db"
    and dup: "no_repeated_keys sv chain" and d: "done_names = mg_name ` set (take k chain)"
  shows "\<exists>db'. reconcile_and_apply sv chain done_names (chain ! k) applied False db = (db', Inr Ran) \<and>
     at_position chain (Suc k) db'"
proof -
  let ?m = "chain ! k" and ?before = "chain_snapshot (take k chain)"
  have live: "on_live_branches chain done_names ?m = ?m"
    using history_apply_snapshot [OF h k] d by (simp add: on_live_branches_def)
  have "mg_name ?m \<notin> applied_set_pool db"
    using p name_new [OF history_distinct [OF h] k] by (simp add: at_position_def)
  moreover have "run_changes (mg_snapshot ?m) (detect_changes ?before (mg_snapshot ?m)) (db_catalog db) = Some (catalog_of (mg_snapshot ?m))"
    using engine.reaches history_nth [OF h k] p by (simp add: at_position_def)
  moreover have "refuse_duplicate_keys sv ?m = Inr ()" using dup k by (simp add: no_repeated_keys_def list_all_length)
  ultimately obtain db' where db': "apply_one_pool sv ?m db = (db', Inr ())" "db_catalog db' = catalog_of (mg_snapshot ?m)"
      "applied_set_pool db' = insert (mg_name ?m) (applied_set_pool db)"
    using apply_one_schema [OF _ history_nth(1) [OF h k]] by blast
  have "reconcile (db_catalog db) ?m applied False = Inr RunAll"
    using history_plain [OF h] k by (intro reconcile_plain) (simp add: list_all_length)
  then have "reconcile_and_apply sv chain done_names ?m applied False db = (db', Inr Ran)"
    using db'(1) live history_snapshot_before [OF h k]
    by (subst reconcile_and_apply_ran [where action = RunAll and eff = ?m and oc = Ran]) (simp_all add: effective_file_def and_then_def check_def)
  then show ?thesis
    using db' p k chain_snapshot_take [OF k] by (auto simp: at_position_def take_Suc_conv_app_nth)
qed

lemma positions_up:
  assumes "history inventory chain" "no_repeated_keys sv chain"
  shows "k + n \<le> length chain \<Longrightarrow> at_position chain k db \<Longrightarrow> d = mg_name ` set (take k chain) \<Longrightarrow>
     \<exists>ev db'. apply_pending sv chain applied False t i d (take n (drop k chain)) db = (ev, db', Inr (take n (drop k chain))) \<and>
       at_position chain (k + n) db'"
proof (induction n arbitrary: k i d db)
  case (Suc n)
  then have k: "k < length chain" by simp
  obtain db1 where u: "reconcile_and_apply sv chain d (chain ! k) applied False db = (db1, Inr Ran)" "at_position chain (Suc k) db1"
    using position_up [OF assms(1) k Suc.prems(2) assms(2) Suc.prems(3)] by blast
  have d: "insert (mg_name (chain ! k)) d = mg_name ` set (take (Suc k) chain)"
    using k Suc.prems(3) by (simp add: take_Suc_conv_app_nth)
  then obtain ev db' where r: "apply_pending sv chain applied False t (Suc i) (insert (mg_name (chain ! k)) d)
      (take n (drop (Suc k) chain)) db1 = (ev, db', Inr (take n (drop (Suc k) chain)))" "at_position chain (Suc k + n) db'"
    using Suc.IH [OF _ u(2) d, of "Suc i"] Suc.prems(1) by auto
  have "take (Suc n) (drop k chain) = chain ! k # take n (drop (Suc k) chain)"
    using k by (simp add: Cons_nth_drop_Suc [symmetric])
  then show ?case using u(1) r by auto
qed simp

lemma history_pending:
  assumes "history inventory chain"
  shows "pending_migrations chain (mg_name ` set (take k chain)) = drop k chain"
  unfolding pending_plain [OF history_plain [OF assms]] by (rule filter_names_take(2) [OF history_distinct [OF assms]])

lemma migrate_position:
  assumes "history inventory chain" "no_repeated_keys sv chain" "at_position chain k db"
  shows "\<exists>ev db'. apply_chain sv chain False db = (ev, db', Inr (drop k chain)) \<and> at_position chain (length chain) db'"
proof -
  have k: "k \<le> length chain" "applied_set_pool db = mg_name ` set (take k chain)" using assms(3) by (auto simp: at_position_def)
  then obtain ev db' where "apply_pending sv chain (applied_set_pool db) False (length (drop k chain)) 1 (applied_set_pool db)
      (take (length chain - k) (drop k chain)) db = (ev, db', Inr (take (length chain - k) (drop k chain)))"
      "at_position chain (length chain) db'"
    using positions_up [OF assms(1,2), of k "length chain - k"] assms(3) by fastforce
  then show ?thesis using k history_pending [OF assms(1)] by (simp add: apply_chain_def Let_def)
qed

section \<open>Down\<close>

lemma position_down:
  assumes h: "history inventory chain" and k: "k < length chain" and p: "at_position chain (Suc k) db"
  shows "\<exists>db'. unapply_locked_pool sv chain (mg_name (chain ! k)) db = (db', Inr (chain ! k)) \<and> at_position chain k db'"
proof -
  let ?m = "chain ! k" and ?before = "chain_snapshot (take k chain)"
  have applied: "applied_set_pool db = mg_name ` set (take (Suc k) chain)" using p by (simp add: at_position_def)
  have h': "history inventory (take k chain @ [?m])"
    using history_take [OF h, of "Suc k"] k by (simp add: take_Suc_conv_app_nth)
  note back_ops = history_rollback [OF h']
  define db' where "db' = ledger_delete (mg_name ?m) (db\<lparr>db_catalog := catalog_of ?before\<rparr>)"
  have "and_then (run_ops sv (mg_name ?m) atomic ?before (map Schema (rollback_ops ?before (mg_snapshot ?m))))
      (\<lambda>_. put (ledger_delete (mg_name ?m))) db = (db', Inr ())" for atomic
    using back_ops(2) p chain_snapshot_take [OF k] run_ops_schema [of ?before _ db]
    by (simp add: and_then_def put_def at_position_def db'_def)
  then have "(if mg_atomic ?m then unapply_atomic_pool sv ?m (map Schema (rollback_ops ?before (mg_snapshot ?m))) ?before
      else unapply_nonatomic_pool sv ?m (map Schema (rollback_ops ?before (mg_snapshot ?m))) ?before) db = (db', Inr ())"
    by (simp add: unapply_atomic_pool_def unapply_nonatomic_pool_def resolve_schema transaction_def)
  moreover have "find_file chain (mg_name ?m) = Inr ?m"
    using find_nth [OF history_distinct [OF h] k] by (simp add: find_file_def)
  moreover have "refuse_unapplied chain (applied_set_pool db) (mg_name ?m) = Inr ()"
    using applied k by (simp add: refuse_unapplied_def take_Suc_conv_app_nth)
  ultimately have "unapply_locked_pool sv chain (mg_name ?m) db = (db', Inr ?m)"
    using history_snapshot_before [OF h k] back_ops(1) history_rollback_snapshot [OF h k] applied
    by (simp add: unapply_locked_pool_def unapply_file_def and_then_step check_def)
  moreover have "at_position chain k db'"
    using applied k name_new [OF history_distinct [OF h] k] by (auto simp: at_position_def db'_def take_Suc_conv_app_nth)
  ultimately show ?thesis by blast
qed

lemma positions_down:
  assumes "history inventory chain"
  shows "k + n \<le> length chain \<Longrightarrow> at_position chain (k + n) db \<Longrightarrow>
     \<exists>db'. unapply_each sv chain (rev (take n (drop k chain))) db = (db', Inr (rev (take n (drop k chain)))) \<and>
       at_position chain k db'"
proof (induction n arbitrary: db)
  case (Suc n)
  then have kn: "k + n < length chain" by simp
  obtain db1 where u: "unapply_locked_pool sv chain (mg_name (chain ! (k + n))) db = (db1, Inr (chain ! (k + n)))"
      "at_position chain (k + n) db1"
    using position_down [OF assms kn] Suc.prems(2) by auto
  with Suc.IH kn obtain db' where "unapply_each sv chain (rev (take n (drop k chain))) db1 = (db', Inr (rev (take n (drop k chain))))"
      "at_position chain k db'" by (metis less_imp_le)
  moreover have "rev (take (Suc n) (drop k chain)) = chain ! (k + n) # rev (take n (drop k chain))"
    using kn by (simp add: take_Suc_conv_app_nth)
  ultimately show ?case using u(1) by (auto simp: and_then_step check_def)
qed (simp add: check_def)

section \<open>The order of file names\<close>

lemma digits_value_Cons: "digits_value (c # cs) = digit_val c * 10 ^ length cs + digits_value cs"
proof (induction cs rule: rev_induct)
  case (snoc d cs)
  then show ?case using digits_value_snoc [of "c # cs" d] digits_value_snoc [of cs d] by simp
qed (simp add: digits_value_def)

lemma digits_value_less: "list_all is_ascii_digit ds \<Longrightarrow> digits_value ds < 10 ^ length ds"
proof (induction ds)
  case (Cons c cs)
  then have "digit_val c \<le> 9" "digits_value cs < 10 ^ length cs" by (auto simp: is_ascii_digit_def digit_val_def)
  then have "digit_val c * 10 ^ length cs + digits_value cs < 9 * 10 ^ length cs + 10 ^ length cs"
    by (intro add_le_less_mono mult_right_mono) auto
  then show ?case by (simp add: digits_value_Cons)
qed (simp add: digits_value_def)

lemma digit_order: "is_ascii_digit c \<Longrightarrow> is_ascii_digit d \<Longrightarrow> digit_val c < digit_val d \<longleftrightarrow> c < d"
  by (auto simp: is_ascii_digit_def digit_val_def less_char_def)

lemma digits_less:
  "length ds = length es \<Longrightarrow> list_all is_ascii_digit ds \<Longrightarrow> list_all is_ascii_digit es \<Longrightarrow>
     digits_value ds < digits_value es \<Longrightarrow> ds @ xs < es @ ys"
proof (induction ds es rule: list_induct2)
  case (Cons d ds e es)
  have bounds: "digits_value ds < 10 ^ length ds" "digits_value es < 10 ^ length ds"
    using Cons digits_value_less by force+
  show ?case
  proof (cases "digit_val d < digit_val e")
    case True
    then show ?thesis using Cons.prems by (simp add: digit_order)
  next
    case False
    have "digit_val e = digit_val d"
    proof (rule ccontr)
      assume "digit_val e \<noteq> digit_val d"
      then have "(digit_val e + 1) * 10 ^ length ds \<le> digit_val d * 10 ^ length ds" using False by (intro mult_right_mono) auto
      then show False using Cons.prems(3) Cons.hyps bounds by (simp add: digits_value_Cons add_mult_distrib)
    qed
    moreover from this have "d = e"
      using Cons.prems digit_order [of d e] digit_order [of e d] by auto
    ultimately show ?thesis using Cons by (simp add: digits_value_Cons)
  qed
qed (simp add: digits_value_def)

lemma length_show_nat: "n < 10 ^ k \<Longrightarrow> 0 < k \<Longrightarrow> length (show_nat n) \<le> k"
proof (induction k arbitrary: n)
  case (Suc k)
  show ?case
  proof (cases "n < 10")
    case False
    then have "0 < k" using Suc.prems by (cases k) auto
    moreover have "n div 10 < 10 ^ k" using Suc.prems by (simp add: less_mult_imp_div_less mult.commute)
    ultimately have "length (show_nat (n div 10)) \<le> k" by (rule Suc.IH [rotated])
    with False show ?thesis by (simp add: show_nat.simps [of n])
  qed (simp add: show_nat.simps [of n])
qed simp

lemma file_names_less:
  assumes "unat i < unat j" "unat j < 10000"
  shows "file_name i s < file_name j t"
proof -
  have four: "length (show_nat04 n) = 4" if "n < 10000" for n
    using length_show_nat [of n 4] that by (simp add: show_nat04_def)
  have val: "digits_value (show_nat04 n) = n" for n
    by (simp add: show_nat04_def digits_value_zeros digits_value_show_nat)
  show ?thesis unfolding file_name_def
    using assms by (intro digits_less show_nat04_digits) (simp_all add: four val)
qed

lemma history_names:
  "history inventory chain \<Longrightarrow> k < length chain \<Longrightarrow> \<exists>suffix. mg_name (chain ! k) = file_name (of_nat (Suc k)) suffix"
proof (induction rule: history.induct)
  case (makemigrations chain now models name_override drops mig)
  have "numbered chain" using history_invariant [OF makemigrations(1)] by simp
  then have "\<exists>suffix. mg_name mig = file_name (of_nat (Suc (length chain))) suffix"
    using plan_from_Some [OF makemigrations(2)] next_index_numbered by metis
  with makemigrations show ?case by (cases "k < length chain") (auto simp: nth_append less_Suc_eq)
qed simp

lemma history_sorted:
  assumes "history inventory chain" "length chain < 10000" "i < j" "j < length chain"
  shows "mg_name (chain ! i) < mg_name (chain ! j)"
proof -
  obtain s t where "mg_name (chain ! i) = file_name (of_nat (Suc i)) s" "mg_name (chain ! j) = file_name (of_nat (Suc j)) t"
    using history_names [OF assms(1)] assms by (meson less_trans)
  moreover have "unat (of_nat (Suc k) :: u32) = Suc k" if "Suc k < 2 ^ 32" for k
    using that by (simp add: unsigned_of_nat take_bit_nat_eq_self del: of_nat_Suc)
  ultimately show ?thesis using assms by (simp add: file_names_less del: of_nat_Suc)
qed

lemma history_name_less_iff:
  assumes "history inventory chain" "length chain < 10000" "i < length chain" "j < length chain"
  shows "mg_name (chain ! i) < mg_name (chain ! j) \<longleftrightarrow> i < j" "mg_name (chain ! i) \<le> mg_name (chain ! j) \<longleftrightarrow> i \<le> j"
  using history_sorted [OF assms(1,2), of i j] history_sorted [OF assms(1,2), of j i] assms(3,4)
  by (cases i j rule: linorder_cases; auto)+

section \<open>Moving to a target\<close>

lemma filter_by_index:
  assumes "\<And>i. i < length xs \<Longrightarrow> P (xs ! i) \<longleftrightarrow> a \<le> i \<and> i < b"
  shows "filter P xs = take (b - a) (drop a xs)"
proof -
  have "filter P xs = map ((!) xs) (filter (\<lambda>i. P (xs ! i)) [0..<length xs])"
    by (metis (mono_tags, lifting) filter_map map_nth comp_def filter_cong)
  also have "filter (\<lambda>i. P (xs ! i)) [0..<length xs] = filter (\<lambda>i. a \<le> i \<and> i < b) [0..<length xs]"
    using assms by (intro filter_cong) auto
  also have "\<dots> = [a..<min b (length xs)]"
    by (rule sorted_distinct_set_unique) (auto intro: sorted_wrt_filter)
  also have "map ((!) xs) [a..<min b (length xs)] = take (b - a) (drop a xs)"
  proof -
    have "map ((!) xs) [a..<c] = take (c - a) (drop a xs)" if "c \<le> length xs" for c
      using that by (intro nth_equalityI) simp_all
    from this [of "min b (length xs)"] show ?thesis by (simp add: min_def split: if_splits)
  qed
  finally show ?thesis .
qed

lemma name_in_take:
  assumes "distinct (map mg_name chain)" "i < length chain" "k \<le> length chain"
  shows "mg_name (chain ! i) \<in> mg_name ` set (take k chain) \<longleftrightarrow> i < k"
proof
  assume "mg_name (chain ! i) \<in> mg_name ` set (take k chain)"
  then obtain j where "j < k" "j < length chain" "mg_name (chain ! i) = mg_name (chain ! j)"
    by (auto simp: in_set_conv_nth)
  then show "i < k" using assms nth_eq_iff_index_eq [of "map mg_name chain" i j] by simp
next
  assume "i < k"
  then have "chain ! i \<in> set (take k chain)" using assms by (auto simp: in_set_conv_nth)
  then show "mg_name (chain ! i) \<in> mg_name ` set (take k chain)" by simp
qed

lemma history_backward:
  assumes "history inventory chain" "length chain < 10000" "j < length chain" "k \<le> length chain"
  shows "backward_from chain (mg_name ` set (take k chain)) (mg_name (chain ! j)) = rev (take (k - Suc j) (drop (Suc j) chain))"
  unfolding backward_from_def rev_filter [symmetric]
  by (subst filter_by_index [where a = "Suc j" and b = k])
    (use assms history_name_less_iff [OF assms(1,2)] name_in_take [OF history_distinct [OF assms(1)]] in auto)

lemma history_forward:
  assumes "history inventory chain" "length chain < 10000" "j < length chain" "k \<le> length chain"
  shows "forward_to chain (mg_name ` set (take k chain)) (mg_name (chain ! j)) = take (Suc j - k) (drop k chain)"
  unfolding forward_to_def pending_plain [OF history_plain [OF assms(1)]] filter_filter
  by (subst filter_by_index [where a = k and b = "Suc j"])
    (use assms history_name_less_iff [OF assms(1,2)] name_in_take [OF history_distinct [OF assms(1)]] in auto)

lemma history_not_zero: "history inventory chain \<Longrightarrow> k < length chain \<Longrightarrow> mg_name (chain ! k) \<noteq> ''zero''"
proof
  assume "history inventory chain" "k < length chain" "mg_name (chain ! k) = ''zero''"
  then have "extract_index ''zero'' = Some (of_nat (Suc k))"
    using history_invariant by (metis numbered_def)
  then show False by (simp add: extract_index_def is_ascii_digit_def)
qed

lemma history_replaced_by: "history inventory chain \<Longrightarrow> replaced_by chain applied n = None"
  using history_plain by (force simp: replaced_by_None_iff list_all_iff)

lemma migrate_to_position:
  assumes h: "history inventory chain" "length chain < 10000" and j: "j < length chain" and dup: "no_repeated_keys sv chain"
    and p: "at_position chain k db"
  shows "\<exists>db' mv. migrate_to_locked sv chain (mg_name (chain ! j)) db = (db', Inr mv) \<and> at_position chain (Suc j) db'"
proof -
  have k: "k \<le> length chain" and applied: "applied_set_pool db = mg_name ` set (take k chain)"
    using p by (auto simp: at_position_def)
  let ?later = "rev (take (k - Suc j) (drop (Suc j) chain))" and ?m = "min k (Suc j)"
  note later = history_backward [OF h j k]
  obtain db1 where d: "unapply_each sv chain ?later db = (db1, Inr ?later)" "at_position chain ?m db1"
  proof (cases "Suc j \<le> k")
    case True
    then have "at_position chain (Suc j + (k - Suc j)) db" "Suc j + (k - Suc j) \<le> length chain" "?m = Suc j" using p k by simp_all
    then show thesis using positions_down [OF h(1), of "Suc j" "k - Suc j" db sv] that by auto
  next
    case False
    then show thesis using p that by (simp add: check_def min_def)
  qed
  have applied': "applied_set_pool db - mg_name ` set ?later = mg_name ` set (take ?m chain)"
    using unapply_each_Inr [OF d(1)] d(2) by (simp add: at_position_def)
  have m: "?m \<le> length chain" "?m + (Suc j - ?m) = Suc j" using j by auto
  obtain ev db' where u: "apply_pending sv chain (mg_name ` set (take ?m chain)) False 0 0 (mg_name ` set (take ?m chain))
      (take (Suc j - ?m) (drop ?m chain)) db1 = (ev, db', Inr (take (Suc j - ?m) (drop ?m chain)))" "at_position chain (Suc j) db'"
    using positions_up [OF h(1) dup, of ?m "Suc j - ?m" db1 "mg_name ` set (take ?m chain)"] d(2) m j by (metis Suc_leI)
  have "target_on_disk chain (mg_name (chain ! j)) = Inr ()"
    using j by (auto simp: target_on_disk_def list_ex_length)
  moreover have "refuse_replaced chain (applied_set_pool db) (mg_name (chain ! j)) = Inr ()"
    by (simp add: refuse_replaced_def history_replaced_by [OF h(1)])
  ultimately have "migrate_to_locked sv chain (mg_name (chain ! j)) db =
      (db', Inr \<lparr>mv_unapplied = ?later, mv_applied = take (Suc j - ?m) (drop ?m chain)\<rparr>)"
    using d(1) u(1) later applied' history_forward [OF h j m(1)] history_not_zero [OF h(1) j]
    by (simp add: migrate_to_locked_def migrate_to_target_def Let_def applied and_then_def check_def)
  with u(2) show ?thesis by blast
qed

lemma migrate_zero_position:
  assumes "history inventory chain" "at_position chain k db"
  shows "\<exists>db' mv. migrate_to_locked sv chain ''zero'' db = (db', Inr mv) \<and> at_position chain 0 db'"
proof -
  have k: "k \<le> length chain" "applied_set_pool db = mg_name ` set (take k chain)" using assms(2) by (auto simp: at_position_def)
  have "rev (filter (\<lambda>m. mg_name m \<in> applied_set_pool db) chain) = rev (take k (drop 0 chain))"
    using filter_names_take(1) [OF history_distinct [OF assms(1)]] k(2) by simp
  then obtain db' ms where "unapply_all_in_order_pool sv chain (applied_set_pool db) db = (db', Inr ms)" "at_position chain 0 db'"
    using positions_down [OF assms(1), of 0 k db sv] k(1) assms(2) by (auto simp: unapply_all_in_order_pool_def)
  then show ?thesis by (auto simp: migrate_to_locked_def migrate_to_target_def and_then_def check_def)
qed

section \<open>Stepping back\<close>

text \<open>The clock did not go back while the files were recorded.\<close>

definition recorded_in_order :: "migration list \<Rightarrow> database \<Rightarrow> bool" where
  "recorded_in_order chain db \<longleftrightarrow>
     ledger_ok db \<and>
     sorted (List.map_filter (\<lambda>m. map_option snd (find_by fst (mg_name m) (db_ledger db))) chain)"

lemma find_row: "n \<in> applied_set_pool db \<longleftrightarrow> find_by fst n (db_ledger db) \<noteq> None"
  by (auto simp: applied_set_pool_def find_by_None_iff)

lemma rank_mono:
  assumes "find_by fst a ledger = Some r" "find_by fst b ledger = Some s" "snd r \<le> snd s"
  shows "\<exists>x y. apply_order ledger a = Some x \<and> apply_order ledger b = Some y \<and> x \<le> y"
proof -
  have "length (filter (\<lambda>l. snd l < snd r) ledger) \<le> length (filter (\<lambda>l. snd l < snd s) ledger)"
    using assms(3) by (induction ledger) auto
  with assms show ?thesis by (auto simp: apply_order_def)
qed

lemma recorded_ranks:
  assumes "distinct (map mg_name chain)" "at_position chain k db" "recorded_in_order chain db"
  obtains r where "\<And>i. i < k \<Longrightarrow> apply_order (db_ledger db) (mg_name (chain ! i)) = Some (r i)"
    "\<And>i. k \<le> i \<Longrightarrow> i < length chain \<Longrightarrow> apply_order (db_ledger db) (mg_name (chain ! i)) = None"
    "\<And>i j. i < j \<Longrightarrow> j < k \<Longrightarrow> r i \<le> r j"
proof -
  let ?row = "\<lambda>m. find_by fst (mg_name m) (db_ledger db)" and ?rank = "\<lambda>i. apply_order (db_ledger db) (mg_name (chain ! i))"
  have k: "k \<le> length chain" using assms(2) by (simp add: at_position_def)
  have row: "?row (chain ! i) \<noteq> None \<longleftrightarrow> i < k" if "i < length chain" for i
    using find_row [of "mg_name (chain ! i)" db] name_in_take [OF assms(1) that k] assms(2) by (simp add: at_position_def)
  have "List.map_filter (\<lambda>m. map_option snd (?row m)) chain = map (\<lambda>m. snd (the (?row m))) (take k chain)"
  proof -
    have "filter (\<lambda>m. ?row m \<noteq> None) chain = take (k - 0) (drop 0 chain)" by (rule filter_by_index) (use row in auto)
    then have f: "filter (\<lambda>m. ?row m \<noteq> None) chain = take k chain" by simp
    have "?row m \<noteq> None" if "m \<in> set (take k chain)" for m using that unfolding f [symmetric] by simp
    then have "map (\<lambda>m. the (map_option snd (?row m))) (take k chain) = map (\<lambda>m. snd (the (?row m))) (take k chain)"
      by (intro map_cong) (auto simp: option.map_sel)
    with f show ?thesis by (simp add: List.map_filter_def comp_def)
  qed
  then have sorted: "sorted (map (\<lambda>m. snd (the (?row m))) (take k chain))" using assms(3) by (simp add: recorded_in_order_def)
  have mono: "\<exists>x y. ?rank i = Some x \<and> ?rank j = Some y \<and> x \<le> y" if ij: "i \<le> j" "j < k" for i j
  proof -
    have "snd (the (?row (chain ! i))) \<le> snd (the (?row (chain ! j)))"
      using sorted_nth_mono [OF sorted ij(1)] ij k by simp
    moreover obtain r s where "?row (chain ! i) = Some r" "?row (chain ! j) = Some s" using row [of i] row [of j] ij k by fastforce
    ultimately show ?thesis using rank_mono [of _ "db_ledger db"] by simp
  qed
  show thesis
  proof (rule that [of "\<lambda>i. the (?rank i)"])
    show "?rank i = Some (the (?rank i))" if "i < k" for i using mono [of i i] that by auto
    show "?rank i = None" if "k \<le> i" "i < length chain" for i
      using row [of i] that by (auto simp: apply_order_def split: option.split)
    show "the (?rank i) \<le> the (?rank j)" if "i < j" "j < k" for i j using mono [of i j] that by auto
  qed
qed

lemma applied_positions_ranked:
  assumes "\<And>i. i < k \<Longrightarrow> order (mg_name (snd (files ! i))) = Some (r i)" "\<And>i. k \<le> i \<Longrightarrow> i < length files \<Longrightarrow> order (mg_name (snd (files ! i))) = None"
    "\<And>i j. i < j \<Longrightarrow> j < k \<Longrightarrow> r i \<le> r j" "k \<le> length files"
  shows "applied_positions files order = rev (map (\<lambda>i. (r i, i)) [0..<k])"
proof -
  let ?f = "\<lambda>(pos, _, m). map_option (\<lambda>r. (r, pos)) (order (mg_name m))"
  have "List.map_filter ?f (map (\<lambda>i. (i, files ! i)) [0..<k]) = map (\<lambda>i. (r i, i)) [0..<k]"
    unfolding List.map_filter_def using assms(1)
    by (subst filter_True) (auto simp: case_prod_beta)
  moreover have "List.map_filter ?f (map (\<lambda>i. (i, files ! i)) [k..<length files]) = []"
    using assms(2) by (auto simp: List.map_filter_def filter_empty_conv case_prod_beta)
  moreover have "List.enumerate 0 files = map (\<lambda>i. (i, files ! i)) ([0..<k] @ [k..<length files])"
  proof -
    have "[0..<k] @ [k..<length files] = [0..<length files]"
      using upt_add_eq_append [of 0 k "length files - k"] assms(4) by simp
    then show ?thesis by (simp only:) (intro nth_equalityI; simp add: nth_enumerate_eq)
  qed
  ultimately have "List.map_filter ?f (List.enumerate 0 files) = map (\<lambda>i. (r i, i)) [0..<k]"
    by (simp add: List.map_filter_def)
  moreover have "sorted (map (\<lambda>i. (r i, i)) [0..<k])"
    using assms(3) by (auto simp: sorted_iff_nth_mono less_eq_prod_def le_less)
  ultimately show ?thesis by (simp add: applied_positions_def sorted_sort_id)
qed

lemma one_per_name: "distinct (map g xs) \<Longrightarrow> \<forall>x\<in>set xs. g x = v \<Longrightarrow> length xs \<le> 1"
  by (cases xs; cases "tl xs") auto

lemma take_files_distinct:
  assumes "distinct (map (\<lambda>f. mg_name (snd f)) files)" "list_all (\<lambda>pos. pos < length files) picked"
  shows "take_files files picked = Inr (map ((!) files) picked)"
  using assms(2)
proof (induction picked)
  case (Cons pos picked)
  then have "distinct (map (\<lambda>f. mg_name (snd f)) (filter (\<lambda>f. mg_name (snd f) = mg_name (snd (files ! pos))) files))"
    using assms(1) by (simp add: distinct_map_filter)
  then have "length (filter (\<lambda>f. mg_name (snd f) = mg_name (snd (files ! pos))) files) \<le> 1"
    by (rule one_per_name [where v = "mg_name (snd (files ! pos))"]) simp
  with Cons show ?case by (simp add: case_prod_beta' Let_def)
qed simp

lemma unapply_planned_each:
  "unapply_each sv chain migs db = (db', Inr ms) \<Longrightarrow> unapply_planned sv [chain] (map (Pair 0) migs) db = (db', Inr ())"
proof (induction migs arbitrary: db ms)
  case (Cons mig migs)
  then obtain m db1 ms1 where "unapply_locked_pool sv chain (mg_name mig) db = (db1, Inr m)"
      "unapply_each sv chain migs db1 = (db', Inr ms1)"
    by (auto simp: and_then_Inr)
  with Cons.IH show ?case by (simp add: and_then_step)
qed (simp add: check_def)

lemma downgrade_position:
  assumes h: "history inventory chain" and p: "at_position chain k db" and r: "recorded_in_order chain db"
  shows "\<exists>db'. downgrade_pool sv chain n db = (db', Inr (rev (drop (k - n) (take k chain)))) \<and> at_position chain (k - n) db'"
proof (cases "n = 0")
  case True
  with p show ?thesis by (simp add: downgrade_pool_def check_def at_position_def)
next
  case False
  note d = history_distinct [OF h]
  have k: "k \<le> length chain" using p by (simp add: at_position_def)
  obtain rank where rank: "\<And>i. i < k \<Longrightarrow> apply_order (db_ledger db) (mg_name (chain ! i)) = Some (rank i)"
    "\<And>i. k \<le> i \<Longrightarrow> i < length chain \<Longrightarrow> apply_order (db_ledger db) (mg_name (chain ! i)) = None"
    "\<And>i j. i < j \<Longrightarrow> j < k \<Longrightarrow> rank i \<le> rank j"
    using recorded_ranks [OF d p r] by blast
  let ?files = "map (Pair (0::nat)) chain" and ?later = "rev (drop (k - n) (take k chain))"
  have "applied_positions ?files (apply_order (db_ledger db)) = rev (map (\<lambda>i. (rank i, i)) [0..<k])"
    by (rule applied_positions_ranked) (use rank k in auto)
  then have picked: "map snd (take n (applied_positions ?files (apply_order (db_ledger db)))) = rev [k - n..<k]"
    by (simp add: take_rev rev_map [symmetric] take_map drop_map comp_def drop_upt)
  have "map ((!) ?files) (rev [k - n..<k]) = map (Pair 0) ?later"
    using k by (intro nth_equalityI) (auto simp: rev_nth)
  then have "take_files ?files (rev [k - n..<k]) = Inr (map (Pair 0) ?later)"
    using d k by (subst take_files_distinct) (auto simp: comp_def list_all_iff)
  then have plan: "plan_rollback (Steps n) [chain] (apply_order (db_ledger db)) = Inr \<lparr>rp_unapply = map (Pair 0) ?later, rp_kept = []\<rparr>"
    using picked by (simp add: plan_rollback_def folder_files_def Let_def)
  have later: "drop (k - n) (take k chain) = take (k - (k - n)) (drop (k - n) chain)" by (simp add: drop_take)
  have "k - n + (k - (k - n)) = k" by simp
  then obtain db' where u: "unapply_each sv chain ?later db = (db', Inr ?later)" "at_position chain (k - n) db'"
    using positions_down [OF h, of "k - n" "k - (k - n)" db sv] p k later by auto
  have "downgrade_pool sv chain n db = (db', Inr (map snd (map (Pair (0::nat)) ?later)))"
    using False plan unapply_planned_each [OF u(1)] by (simp add: downgrade_pool_def rollback_pool_def and_then_def check_def)
  with u(2) show ?thesis by (simp add: comp_def)
qed

end
