(* ===== verification/Rename_Correct.thy ===== *)
theory Rename_Correct
  imports Diff_Correct
begin

text \<open>
  Replaying a hand-written rename on a snapshot (\<open>apply_rename\<close>) refines what the rename does to the
  catalog of the database: \<open>catalog_of\<close> after the replay is the effect of the rename on \<open>catalog_of\<close>
  before it.
\<close>

section \<open>Lookups after a table rename\<close>

lemma find_by_swapped:
  assumes "\<And>x. key (f x) = swap_str old new (key x)" "new \<notin> key ` set xs" "old \<noteq> new"
  shows "find_by key n (map f xs) = (if n = old then None else map_option f (find_by key (if n = new then old else n) xs))"
  using assms(2) by (induction xs) (auto simp: assms(1) swap_str_def assms(3) assms(3) [symmetric])

lemma snap_table_renamed:
  assumes "snap_table s new = None" "old \<noteq> new"
  shows "snap_table (rename_table_in old new s) n =
    (if n = old then None else map_option (rename_table_in_table old new) (snap_table s (if n = new then old else n)))"
  unfolding snap_table_def rename_table_in_def
  using find_by_swapped [of ts_name "rename_table_in_table old new" old new "sn_tables s" n] assms
  by (simp add: rename_table_in_table_def snap_table_def find_by_None_iff)

lemma renamed_lookups:
  "snap_m2m_table (rename_table_in old new s) n =
     map_option (\<lambda>m. m\<lparr>m2_src_table := swap_str old new (m2_src_table m), m2_dst_table := swap_str old new (m2_dst_table m)\<rparr>)
       (snap_m2m_table s n)"
  "snap_index (rename_table_in old new s) n = map_option (\<lambda>i. i\<lparr>ix_table := swap_str old new (ix_table i)\<rparr>) (snap_index s n)"
  "snap_check (rename_table_in old new s) n = map_option (\<lambda>c. c\<lparr>ck_table := swap_str old new (ck_table c)\<rparr>) (snap_check s n)"
  "snap_exclude (rename_table_in old new s) n = map_option (\<lambda>x. x\<lparr>ex_table := swap_str old new (ex_table x)\<rparr>) (snap_exclude s n)"
  by (simp_all add: snap_m2m_table_def snap_index_def snap_check_def snap_exclude_def rename_table_in_def lookup_simps)

lemma ts_field_renamed:
  "ts_field (rename_table_in_table old new t) c = map_option (rename_fk_target old new) (ts_field t c)"
  by (simp add: ts_field_def rename_table_in_table_def lookup_simps rename_fk_target_def)

lemma ts_composite_fk_renamed:
  "ts_composite_fk (rename_table_in_table old new t) n = map_option (\<lambda>c. c\<lparr>cf_to := swap_str old new (cf_to c)\<rparr>) (ts_composite_fk t n)"
  by (simp add: ts_composite_fk_def rename_table_in_table_def lookup_simps)

section \<open>Sorting changes no object\<close>

lemma ts_comment_sort_fields [simp]: "ts_db_table_comment (sort_fields t) = ts_db_table_comment t"
  by (simp add: sort_fields_def)

lemma ts_composite_fk_sort_fields [simp]: "ts_composite_fk (sort_fields t) n = ts_composite_fk t n"
  by (simp add: ts_composite_fk_def sort_fields_def)

lemma catalog_of_snap_sort:
  assumes "wf_names s"
  shows "catalog_of (snap_sort s) = catalog_of s"
proof
  fix k
  have d: "distinct (map ts_name (sn_tables s))" "distinct (map m2_through (sn_m2m_tables s))" "distinct (map ix_name (sn_indexes s))"
    "distinct (map ck_name (sn_checks s))" "distinct (map ex_name (sn_excludes s))"
    using assms by (simp_all add: wf_names_def)
  note look = snap_sort_table [OF d(1)] snap_sort_lookups [OF d(2-5)]
  have field: "ts_field (sort_fields t) c = ts_field t c" if "snap_table s n = Some t" for n t c
    by (rule ts_field_sort_fields) (use wf_snap_table [OF assms that] in \<open>simp add: wf_table_def\<close>)
  show "catalog_of (snap_sort s) k = catalog_of s k"
    by (cases k) (auto simp: look snap_field_def field option.map_comp comp_def split: Option.bind_split intro!: option.map_cong)
qed

section \<open>Tables\<close>

lemma junction_renamed_table:
  "junction_obj (m\<lparr>m2_src_table := swap_str old new (m2_src_table m), m2_dst_table := swap_str old new (m2_dst_table m)\<rparr>) =
   rename_table_obj old new (junction_obj m)"
  by (simp add: junction_obj_def junction_ends_def sort_map_sort del: sort_key_simps)

lemma column_renamed_table:
  "OColumn (column_of (rename_fk_target old new f)) = rename_table_obj old new (OColumn (column_of f))"
  by (cases "fs_fk f") (simp_all add: column_of_def rename_fk_target_def fk_identity_def)

lemma catalog_of_rename_table_in:
  assumes "snap_table s new = None" "old \<noteq> new" "snap_m2m_table s old = None" "snap_m2m_table s new = None"
  shows "catalog_of (rename_table_in old new s) = rename_table_effect old new (catalog_of s)"
proof
  fix k
  note look = snap_table_renamed [OF assms(1,2)] renamed_lookups snap_field_def ts_field_renamed ts_composite_fk_renamed
  show "catalog_of (rename_table_in old new s) k = rename_table_effect old new (catalog_of s) k"
  proof (cases k)
    case (KTable t)
    then show ?thesis using assms(2)
      by (auto simp: rename_table_effect_def look option.map_comp comp_def rename_table_in_table_def intro!: option.map_cong)
  next
    case (KColumn t c)
    then show ?thesis using assms(2) column_renamed_table
      by (auto simp: rename_table_effect_def look option.map_comp comp_def split: Option.bind_split intro!: option.map_cong)
  next
    case (KCompositeFk t n)
    then show ?thesis using assms(2)
      by (auto simp: rename_table_effect_def look option.map_comp comp_def composite_fk_obj_def
          split: Option.bind_split intro!: option.map_cong)
  next
    case (KIndex n)
    then show ?thesis by (simp add: rename_table_effect_def look option.map_comp comp_def index_obj_def)
  next
    case (KCheck n)
    then show ?thesis by (simp add: rename_table_effect_def look option.map_comp comp_def check_obj_def)
  next
    case (KExclude n)
    then show ?thesis by (simp add: rename_table_effect_def look option.map_comp comp_def exclude_obj_def)
  next
    case (KJunction n)
    then show ?thesis using assms
      by (auto simp: rename_table_effect_def look option.map_comp comp_def junction_renamed_table)
  qed
qed

text \<open>
  Replaying the rename of a table on a snapshot refines the rename in the database: the catalog of the
  new snapshot is the catalog of the old one with the table's objects under the new name and every
  foreign key, index, constraint and junction that referred to the old name referring to the new one.
\<close>

theorem apply_rename_table_refines:
  assumes "wf_names s" "snap_table s old \<noteq> None" "snap_m2m_table s old = None"
    and "snap_table s new = None" "snap_m2m_table s new = None"
  shows "change_step s (RenameTable old new) (catalog_of s) = Some (catalog_of (apply_rename s (RenameTable old new)))"
proof -
  have ne: "old \<noteq> new" using assms by auto
  have "apply_rename s (RenameTable old new) = snap_sort (rename_table_in old new s)"
    using assms by (auto simp: apply_rename_def Let_def)
  then have "catalog_of (apply_rename s (RenameTable old new)) = rename_table_effect old new (catalog_of s)"
    using catalog_of_snap_sort [OF wf_rename_table_in] catalog_of_rename_table_in assms ne by simp
  with assms show ?thesis by (auto simp: change_step_def name_free_def)
qed

section \<open>Columns\<close>











lemma column_of_column [simp]: "column_of (f\<lparr>fs_column := c\<rparr>) = column_of f"
  by (simp add: column_of_def)




end
