(* ===== verification/Samples.thy ===== *)
theory Samples
  imports Runner
begin

text \<open>
  A small blog schema in two versions, on which the theorems with hypotheses are applied: an author
  table, posts that refer to it, tags, a junction between posts and tags, and a table that the second
  version drops; a directory with one branch; and a server without data operations, with a database
  nothing was applied to.
\<close>

definition plain_field :: "string \<Rightarrow> string \<Rightarrow> field_snapshot" where
  "plain_field column ty =
     \<lparr>fs_name = column, fs_column = column, fs_ty = ty, fs_nullable = False, fs_primary_key = False,
      fs_max_length = None, fs_min = None, fs_max = None, fs_default = None, fs_auto = False,
      fs_unique = False, fs_case_insensitive = False, fs_generated_as = None, fs_db_comment = None,
      fs_fk = None\<rparr>"

definition id_field :: field_snapshot where
  "id_field = (plain_field ''id'' ''i64'')\<lparr>fs_primary_key := True, fs_auto := True\<rparr>"

definition author_fk :: field_snapshot where
  "author_fk = (plain_field ''author_id'' ''i64'')\<lparr>fs_fk :=
     Some \<lparr>rs_kind = ''fk'', rs_to = ''author'', rs_on = ''id'', rs_on_delete = None\<rparr>\<rparr>"

definition plain_table :: "string \<Rightarrow> field_snapshot list \<Rightarrow> table_snapshot" where
  "plain_table name cols =
     \<lparr>ts_name = name, ts_model = name, ts_fields = cols, ts_composite_fks = [], ts_db_table_comment = None\<rparr>"

definition title_index :: "bool \<Rightarrow> index_snapshot" where
  "title_index unique =
     \<lparr>ix_name = ''post_title'', ix_table = ''post'', ix_columns = [''title''], ix_unique = unique,
      ix_method = ''btree'', ix_where_clause = None, ix_include = []\<rparr>"

definition post_tags :: "string \<Rightarrow> m2m_table_snapshot" where
  "post_tags tag_col =
     \<lparr>m2_through = ''post_tags'', m2_src_table = ''post'', m2_src_col = ''post_id'',
      m2_dst_table = ''tag'', m2_dst_col = tag_col\<rparr>"

definition blog_v1 :: schema_snapshot where
  "blog_v1 =
     \<lparr>sn_tables = [plain_table ''author'' [id_field, plain_field ''name'' ''string''],
                   plain_table ''legacy'' [author_fk, id_field],
                   plain_table ''post'' [author_fk, id_field, plain_field ''title'' ''string''],
                   plain_table ''tag'' [id_field]],
      sn_m2m_tables = [post_tags ''tag_id''],
      sn_indexes = [title_index False],
      sn_checks = [\<lparr>ck_name = ''named'', ck_table = ''author'', ck_expr = ''name <> x''\<rparr>],
      sn_excludes = []\<rparr>"

definition blog_v2 :: schema_snapshot where
  "blog_v2 =
     \<lparr>sn_tables = [plain_table ''author'' [plain_field ''bio'' ''string'', id_field,
                     (plain_field ''name'' ''string'')\<lparr>fs_nullable := True\<rparr>],
                   plain_table ''post'' [author_fk, id_field, plain_field ''title'' ''string''],
                   plain_table ''tag'' [id_field]],
      sn_m2m_tables = [post_tags ''label_id''],
      sn_indexes = [title_index True],
      sn_checks = [],
      sn_excludes = []\<rparr>"

lemmas blog_defs = blog_v1_def blog_v2_def plain_table_def plain_field_def id_field_def author_fk_def
  title_index_def post_tags_def

section \<open>A branched directory\<close>

definition sample_migration :: "string \<Rightarrow> string option \<Rightarrow> schema_snapshot \<Rightarrow> operation list \<Rightarrow> migration" where
  "sample_migration name prev snapshot forward =
     \<lparr>mg_name = name, mg_created_at = ''2025-01-01'', mg_prev = prev, mg_atomic = True, mg_scope = TenantScope,
      mg_replaces = [], mg_merges = [], mg_snapshot = snapshot, mg_forward = forward\<rparr>"

definition one_table :: "string list \<Rightarrow> schema_snapshot" where
  "one_table names =
     \<lparr>sn_tables = map (\<lambda>n. plain_table n [id_field]) names, sn_m2m_tables = [], sn_indexes = [], sn_checks = [], sn_excludes = []\<rparr>"

definition branched :: "migration list" where
  "branched =
     [sample_migration ''0001_initial'' None (one_table [''a'']) [Schema (CreateTable ''a'')],
      sample_migration ''0002_create_b'' (Some ''0001_initial'') (one_table [''a'', ''b'']) [Schema (CreateTable ''b'')],
      sample_migration ''0002_create_c'' (Some ''0001_initial'') (one_table [''a'', ''c'']) [Schema (CreateTable ''c'')]]"

section \<open>A server\<close>

definition quiet_server :: server where
  "quiet_server =
     \<lparr>sv_sql = (\<lambda>_ cat. Some cat), sv_callback = (\<lambda>_. None), sv_duplicates = (\<lambda>_ _ _. Some False), sv_now = (\<lambda>_. 0)\<rparr>"

definition fresh_database :: database where
  "fresh_database = \<lparr>db_catalog = catalog_of empty_snapshot, db_ledger = []\<rparr>"

end
