(* ===== verification/Witnesses.thy ===== *)
theory Witnesses
  imports Rename_Correct Samples
begin

text \<open>
  The theorems of the single components applied at concrete inputs: two registry entries, the two
  versions of the sample schema, and a branch that changed one index and one column.
\<close>

section \<open>Registry\<close>

definition note_model :: model_schema where
  "note_model = (new_model_schema ''Note'' ''note'')\<lparr>md_fields := [(new_field_schema ''id'' ''id'' I64)\<lparr>fd_primary_key := True\<rparr>]\<rparr>"

definition note_entry :: "string \<Rightarrow> model_entry" where
  "note_entry path = \<lparr>me_schema = note_model, me_module_path = path\<rparr>"

definition two_notes :: "model_entry list" where
  "two_notes = [note_entry ''rustango::note'', note_entry ''app::note'']"

theorem from_registry_wf_witness:
  "\<exists>s. from_registry two_notes = Inr s \<and> sn_tables s \<noteq> [] \<and> wf_names s \<and> snap_sorted s"
proof -
  have "case from_registry two_notes of Inr s \<Rightarrow> sn_tables s \<noteq> [] | Inl _ \<Rightarrow> False" by code_simp
  then obtain s where s: "from_registry two_notes = Inr s" "sn_tables s \<noteq> []" by (auto split: sum.splits)
  have wf: "\<forall>e\<in>set two_notes. wf_model (me_schema e)" by code_simp
  show ?thesis using s from_registry_wf [OF s(1) wf] by blast
qed

theorem from_registry_order_witness: "from_registry two_notes = from_registry (rev two_notes)"
proof -
  have m: "mset two_notes = mset (rev two_notes)" by simp
  have d: "owners_decided (filter (\<lambda>e. owns_table (me_schema e)) two_notes)" by code_simp
  show ?thesis by (rule from_registry_order [OF m d])
qed

definition legacy_entry :: model_entry where
  "legacy_entry = \<lparr>me_schema = (new_model_schema ''Legacy'' ''legacy'')\<lparr>md_managed := False\<rparr>, me_module_path = ''app''\<rparr>"

theorem keep_unmanaged_tables_witness:
  "snap_table (keep_unmanaged [legacy_entry] (one_table [''tag'']) blog_v1) ''legacy'' \<noteq> None \<and>
   snap_table (keep_unmanaged [legacy_entry] (one_table [''tag'']) blog_v1) ''post'' = None"
proof -
  have 1: "wf_names (one_table [''tag''])" "snap_sorted (one_table [''tag''])" "wf_names blog_v1" "snap_sorted blog_v1"
    by code_simp+
  have 2: "snap_table (one_table [''tag'']) ''legacy'' = None" "snap_table (one_table [''tag'']) ''post'' = None"
    "snap_table blog_v1 ''legacy'' \<noteq> None" "now_unmanaged [legacy_entry] ''legacy''" "\<not> now_unmanaged [legacy_entry] ''post''"
    by code_simp+
  show ?thesis
    using keep_unmanaged_tables [OF 1, of "[legacy_entry]" "''legacy''"] keep_unmanaged_tables [OF 1, of "[legacy_entry]" "''post''"] 2
    by simp
qed

section \<open>Merges\<close>

definition other_branch :: schema_snapshot where
  "other_branch = blog_v1\<lparr>sn_tables := map (\<lambda>t. if ts_name t = ''author''
     then t\<lparr>ts_fields := ts_fields t @ [plain_field ''web'' ''string'']\<rparr> else t) (sn_tables blog_v1)\<rparr>"

theorem merge_branch_objects_witness:
  "snap_index (snd (merge_branch other_branch blog_v1 blog_v2)) ''post_title'' = Some (title_index True) \<and>
   snap_check (snd (merge_branch other_branch blog_v1 blog_v2)) ''named'' = None"
proof -
  have wf: "wf_names other_branch" by code_simp
  have look: "snap_index blog_v1 ''post_title'' = Some (title_index False)" "snap_index other_branch ''post_title'' = Some (title_index False)"
    "snap_index blog_v2 ''post_title'' = Some (title_index True)" "snap_check blog_v1 ''named'' = snap_check other_branch ''named''"
    "snap_check blog_v2 ''named'' = None"
    by code_simp+
  show ?thesis
    using merge_branch_objects [OF wf, of blog_v1 blog_v2 "''post_title''"] merge_branch_objects [OF wf, of blog_v1 blog_v2 "''named''"]
    by (simp add: look merge3_def title_index_def)
qed

theorem merge_branch_columns_witness:
  "merged_column (snd (merge_branch other_branch blog_v1 blog_v2)) ''author'' ''bio'' \<noteq> None \<and>
   merged_column (snd (merge_branch other_branch blog_v1 blog_v2)) ''author'' ''web'' \<noteq> None"
proof -
  have wf: "wf_names other_branch" "wf_names blog_v1" "wf_names blog_v2" by code_simp+
  show ?thesis unfolding merge_branch_columns [OF wf] by code_simp
qed

theorem merge_branch_unchanged_witness: "merge_branch blog_v2 blog_v1 blog_v1 = ([], snap_sort blog_v2)"
proof -
  have wf: "wf_names blog_v1" by code_simp
  show ?thesis by (rule merge_branch_unchanged [OF wf])
qed

section \<open>Renames\<close>

theorem apply_rename_replay_witness:
  "snap_table (apply_rename blog_v1 (RenameTable ''post'' ''article'')) ''article'' \<noteq> None \<and>
   apply_rename (apply_rename blog_v1 (RenameTable ''post'' ''article'')) (RenameTable ''post'' ''article'') =
     apply_rename blog_v1 (RenameTable ''post'' ''article'')"
proof -
  have wf: "wf_names blog_v1" by code_simp
  have "snap_table (apply_rename blog_v1 (RenameTable ''post'' ''article'')) ''article'' \<noteq> None" by code_simp
  then show ?thesis using apply_rename_replay [OF wf] by simp
qed

theorem apply_rename_wf_witness: "wf_names (apply_rename blog_v1 (RenameColumn ''post'' ''title'' ''headline''))"
proof -
  have wf: "wf_names blog_v1" by code_simp
  show ?thesis by (rule apply_rename_wf [OF wf])
qed

theorem apply_rename_table_undo_witness:
  "apply_rename (apply_rename blog_v1 (RenameTable ''author'' ''writer'')) (RenameTable ''writer'' ''author'') = blog_v1"
proof -
  have 1: "wf_names blog_v1" "snap_sorted blog_v1" by code_simp+
  have 2: "snap_table blog_v1 ''author'' \<noteq> None" "snap_m2m_table blog_v1 ''author'' = None" by code_simp+
  have 3: "table_name_unused ''writer'' blog_v1" by (simp add: table_name_unused_def blog_defs snap_table_def snap_m2m_table_def)
  show ?thesis by (rule apply_rename_table_undo [OF 1 2 3])
qed

theorem apply_rename_table_refines_witness:
  "change_step blog_v1 (RenameTable ''author'' ''writer'') (catalog_of blog_v1) =
     Some (catalog_of (apply_rename blog_v1 (RenameTable ''author'' ''writer'')))"
proof -
  have 1: "wf_names blog_v1" by code_simp
  have 2: "snap_table blog_v1 ''author'' \<noteq> None" "snap_m2m_table blog_v1 ''author'' = None"
    "snap_table blog_v1 ''writer'' = None" "snap_m2m_table blog_v1 ''writer'' = None" by code_simp+
  show ?thesis by (rule apply_rename_table_refines [OF 1 2])
qed


end
