(* ===== verification/Findings.thy ===== *)
theory Findings
  imports Samples
begin

text \<open>
  Behaviours of the code that differ from what its comments and documentation say, each at a concrete
  input: the owner of a table that two models of one module declare, the comment of a table that a merge
  loses, the EXCLUDE constraint of a framework table that an app migration creates, a reverted rename
  that \<open>makemigrations\<close> writes again and again, a squash that runs after the files it replaces, and a file
  that is pending again once the squash over it is squashed.
\<close>

section \<open>Two owners in one module\<close>

definition twin :: "string \<Rightarrow> model_entry" where
  "twin column = \<lparr>me_schema = (new_model_schema ''Note'' ''note'')\<lparr>md_fields := [new_field_schema column column I64]\<rparr>,
     me_module_path = ''app::models''\<rparr>"

theorem owner_depends_on_inventory_order:
  "from_registry [twin ''a'', twin ''b''] \<noteq> from_registry [twin ''b'', twin ''a'']"
  by code_simp

section \<open>A merge loses a table comment\<close>

definition commented :: "string option \<Rightarrow> schema_snapshot" where
  "commented c = (one_table [''note''])\<lparr>sn_tables := [(plain_table ''note'' [id_field])\<lparr>ts_db_table_comment := c\<rparr>]\<rparr>"

theorem merge_loses_table_comment:
  "merge_branch_result (commented None) (commented None) (commented (Some ''kept'')) = Inr (commented None)"
  by code_simp

section \<open>An app migration on a framework table\<close>

definition framework_exclude :: schema_snapshot where
  "framework_exclude = (one_table [''rustango_slots''])\<lparr>sn_excludes :=
     [\<lparr>ex_name = ''no_overlap'', ex_table = ''rustango_slots'', ex_using = ''gist'', ex_elements = [(''id'', ''='')], ex_where_clause = None\<rparr>]\<rparr>"

theorem app_migration_touches_framework_table:
  "case plan_from [] ''now'' [] framework_exclude None Refuse of
     Inr (Some mig) \<Rightarrow> mg_forward mig =
       [Schema (AddExclusionConstraint ''no_overlap'' ''rustango_slots'' ''gist'' [(''id'', ''='')] None)]
   | _ \<Rightarrow> False"
  by code_simp

section \<open>A reverted rename is written again\<close>

definition renamed_by_hand :: "migration list" where
  "renamed_by_hand =
     [sample_migration ''0001_initial'' None (one_table [''a'']) [Schema (CreateTable ''a'')],
      sample_migration ''0002_rename_a'' (Some ''0001_initial'') (one_table [''a'']) [Schema (RenameTable ''a'' ''b'')]]"

theorem reverted_rename_is_planned_again:
  "case plan_from [] ''now'' renamed_by_hand (one_table [''a'']) None Allow of
     Inr (Some m3) \<Rightarrow>
       (case plan_from [] ''now'' (renamed_by_hand @ [m3]) (one_table [''a'']) None Allow of
          Inr (Some m4) \<Rightarrow> mg_forward m3 = [Schema (CreateTable ''a''), Schema (DropTable ''b'')] \<and> mg_forward m4 = mg_forward m3
        | _ \<Rightarrow> False)
   | _ \<Rightarrow> False"
  by code_simp

section \<open>A squash runs after the files it replaces\<close>

definition column_squash :: "migration list" where
  "column_squash =
     (let full = (one_table [])\<lparr>sn_tables := [plain_table ''note'' [id_field, plain_field ''title'' ''string'']]\<rparr>
      in [sample_migration ''0001_initial'' None (one_table [''note'']) [Schema (CreateTable ''note'')],
          sample_migration ''0002_add_title'' (Some ''0001_initial'') full [Schema (AddColumn ''note'' ''title'')],
          (sample_migration ''0003_squashed'' (Some ''0001_initial'') full [Schema (AddColumn ''note'' ''title'')])
             \<lparr>mg_replaces := [''0002_add_title'']\<rparr>])"

theorem squash_reruns_on_fresh_database:
  "snd (snd (apply_chain quiet_server column_squash False fresh_database)) = Inl DriverError"
  by code_simp

section \<open>A squash of a squash\<close>

definition squash_of_squash :: "migration list" where
  "squash_of_squash =
     [sample_migration ''0001_initial'' None (one_table [''note'']) [Schema (CreateTable ''note'')],
      (sample_migration ''0002_squashed'' None (one_table [''note'']) [Schema (CreateTable ''note'')])\<lparr>mg_replaces := [''0001_initial'']\<rparr>,
      (sample_migration ''0003_squashed'' None (one_table [''note'']) [Schema (CreateTable ''note'')])\<lparr>mg_replaces := [''0002_squashed'']\<rparr>]"

theorem replaced_file_pending_again:
  "case apply_chain quiet_server squash_of_squash False
      \<lparr>db_catalog = catalog_of (one_table [''note'']), db_ledger = [(''0002_squashed'', 0)]\<rparr> of
     (_, db, Inr ms) \<Rightarrow> map mg_name ms = [''0003_squashed''] \<and>
       map mg_name (pending_migrations squash_of_squash (applied_set_pool db)) = [''0001_initial''] \<and>
       snd (snd (apply_chain quiet_server squash_of_squash False db)) = Inl DriverError
   | _ \<Rightarrow> False"
  by code_simp

end
