(* ===== verification/Cache.thy ===== *)
theory Cache
  imports Prelude
begin

text \<open>
  The cache, \<open>crates/rustango/src/cache/mod.rs\<close>: the trait \<open>Cache\<close> as a record of its operations, the
  rules a counter follows, \<open>NullCache\<close>, and \<open>InMemoryCache\<close> with its budgets, pinned entries and eviction. Time is
  a number of microseconds, one clock for \<open>Instant\<close> and \<open>Utc\<close>, read once per operation; every operation holds the
  cache's lock from start to end, so it is one step. A map is an association list with distinct keys. The
  totals are sums of sizes of what is in memory and fit their \<open>usize\<close>.
\<close>

section \<open>Text and counters\<close>

text \<open>UTF-8, as \<open>String::from_utf8\<close> checks it.\<close>

definition cont_byte :: "nat \<Rightarrow> bool" where
  "cont_byte b \<longleftrightarrow> 128 \<le> b \<and> b < 192"

fun utf8_bytes :: "nat list \<Rightarrow> bool" where
  "utf8_bytes [] = True"
| "utf8_bytes (a # bs) =
     (if a < 128 then utf8_bytes bs
      else case bs of
        [] \<Rightarrow> False
      | b # cs \<Rightarrow>
          if 194 \<le> a \<and> a < 224 then cont_byte b \<and> utf8_bytes cs
          else (case cs of
            [] \<Rightarrow> False
          | c # ds \<Rightarrow>
              if 224 \<le> a \<and> a < 240 then
                cont_byte b \<and> (a = 224 \<longrightarrow> 160 \<le> b) \<and> (a = 237 \<longrightarrow> b < 160) \<and> cont_byte c \<and> utf8_bytes ds
              else (case ds of
                [] \<Rightarrow> False
              | d # es \<Rightarrow>
                  240 \<le> a \<and> a < 245 \<and> cont_byte b \<and> (a = 240 \<longrightarrow> 144 \<le> b) \<and> (a = 244 \<longrightarrow> b < 144) \<and>
                  cont_byte c \<and> cont_byte d \<and> utf8_bytes es)))"

definition is_utf8 :: "string \<Rightarrow> bool" where
  "is_utf8 s = utf8_bytes (map of_char s)"

definition i64_range :: "int \<Rightarrow> bool" where
  "i64_range n \<longleftrightarrow> - (2 ^ 63) \<le> n \<and> n < 2 ^ 63"

text \<open>\<open>i64::to_string\<close> and \<open>str::parse::<i64>\<close>, which also takes a sign and leading zeros.\<close>

definition show_int :: "int \<Rightarrow> string" where
  "show_int n = (if n < 0 then CHR ''-'' # show_nat (nat (- n)) else show_nat (nat n))"

definition parse_i64 :: "string \<Rightarrow> int option" where
  "parse_i64 s =
     (let (neg, ds) = (case s of
            [] \<Rightarrow> (False, [])
          | c # cs \<Rightarrow> if c = CHR ''-'' then (True, cs) else if c = CHR ''+'' then (False, cs) else (False, s));
          v = (if neg then - int (digits_value ds) else int (digits_value ds))
      in if ds = [] \<or> \<not> list_all is_ascii_digit ds \<or> \<not> i64_range v then None else Some v)"

datatype cache_error = Connection | IncrOverflow | Serialization | Refused

definition counter_value :: "string \<Rightarrow> int option" where
  "counter_value stored =
     (case parse_i64 stored of None \<Rightarrow> None | Some n \<Rightarrow> if show_int n = stored then Some n else None)"

definition check_text :: "string \<Rightarrow> cache_error + unit" where
  "check_text value = (if CHR 0x00 \<in> set value then Inl Serialization else Inr ())"

definition checked_add :: "int \<Rightarrow> int \<Rightarrow> cache_error + int" where
  "checked_add a b = (if i64_range (a + b) then Inr (a + b) else Inl IncrOverflow)"

section \<open>The trait\<close>

text \<open>An operation reads the clock and the cache and returns the cache it leaves with its result.\<close>

type_synonym ('c, 'a) cache_call = "nat \<Rightarrow> 'c \<Rightarrow> 'c \<times> (cache_error + 'a)"

record 'c cache_api =
  ca_get :: "string \<Rightarrow> ('c, string option) cache_call"
  ca_set :: "string \<Rightarrow> string \<Rightarrow> nat option \<Rightarrow> ('c, unit) cache_call"
  ca_delete :: "string \<Rightarrow> ('c, unit) cache_call"
  ca_exists :: "string \<Rightarrow> ('c, bool) cache_call"
  ca_incr :: "string \<Rightarrow> int \<Rightarrow> nat option \<Rightarrow> ('c, int) cache_call"
  ca_add :: "string \<Rightarrow> string \<Rightarrow> nat option \<Rightarrow> ('c, bool) cache_call"

definition call_then :: "('c, 'a) cache_call \<Rightarrow> ('a \<Rightarrow> ('c, 'b) cache_call) \<Rightarrow> ('c, 'b) cache_call" where
  "call_then f g now c = (case f now c of (c', Inl e) \<Rightarrow> (c', Inl e) | (c', Inr x) \<Rightarrow> g x now c')"

definition call_ok :: "cache_error + 'a \<Rightarrow> ('c, 'a) cache_call" where
  "call_ok r now c = (c, r)"

text \<open>The methods a backend inherits when it does not override them.\<close>

definition default_incr ::
  "(string \<Rightarrow> ('c, string option) cache_call) \<Rightarrow> (string \<Rightarrow> string \<Rightarrow> nat option \<Rightarrow> ('c, unit) cache_call) \<Rightarrow>
   string \<Rightarrow> int \<Rightarrow> nat option \<Rightarrow> ('c, int) cache_call" where
  "default_incr get set' key by ttl =
     call_then (get key) (\<lambda>v.
     call_then (call_ok (checked_add (case Option.bind v counter_value of None \<Rightarrow> 0 | Some n \<Rightarrow> n) by)) (\<lambda>new.
     call_then (set' key (show_int new) ttl) (\<lambda>_. call_ok (Inr new))))"

definition default_add ::
  "(string \<Rightarrow> ('c, bool) cache_call) \<Rightarrow> (string \<Rightarrow> string \<Rightarrow> nat option \<Rightarrow> ('c, unit) cache_call) \<Rightarrow>
   string \<Rightarrow> string \<Rightarrow> nat option \<Rightarrow> ('c, bool) cache_call" where
  "default_add exists' set' key value ttl =
     call_then (exists' key) (\<lambda>there.
       if there then call_ok (Inr False) else call_then (set' key value ttl) (\<lambda>_. call_ok (Inr True)))"

definition decr :: "'c cache_api \<Rightarrow> string \<Rightarrow> int \<Rightarrow> nat option \<Rightarrow> ('c, int) cache_call" where
  "decr api key by ttl =
     (if i64_range (- by) then ca_incr api key (- by) ttl else call_ok (Inl IncrOverflow))"

definition get_or :: "'c cache_api \<Rightarrow> string \<Rightarrow> string \<Rightarrow> ('c, string) cache_call" where
  "get_or api key fallback =
     call_then (ca_get api key) (\<lambda>v. call_ok (Inr (case v of None \<Rightarrow> fallback | Some x \<Rightarrow> x)))"

text \<open>The calls for many keys, one key after the other; the answer of \<open>get_many\<close> is a map.\<close>

fun get_many_step ::
  "'c cache_api \<Rightarrow> string list \<Rightarrow> (string \<rightharpoonup> string) \<Rightarrow> ('c, string \<rightharpoonup> string) cache_call" where
  "get_many_step api [] out = call_ok (Inr out)"
| "get_many_step api (k # keys) out =
     call_then (ca_get api k) (\<lambda>v. get_many_step api keys (case v of None \<Rightarrow> out | Some x \<Rightarrow> out(k \<mapsto> x)))"

definition get_many :: "'c cache_api \<Rightarrow> string list \<Rightarrow> ('c, string \<rightharpoonup> string) cache_call" where
  "get_many api keys = get_many_step api keys Map.empty"

fun set_many :: "'c cache_api \<Rightarrow> (string \<times> string) list \<Rightarrow> nat option \<Rightarrow> ('c, unit) cache_call" where
  "set_many api [] ttl = call_ok (Inr ())"
| "set_many api ((k, v) # entries) ttl = call_then (ca_set api k v ttl) (\<lambda>_. set_many api entries ttl)"

fun delete_many :: "'c cache_api \<Rightarrow> string list \<Rightarrow> ('c, unit) cache_call" where
  "delete_many api [] = call_ok (Inr ())"
| "delete_many api (k # keys) = call_then (ca_delete api k) (\<lambda>_. delete_many api keys)"

definition null_set :: "string \<Rightarrow> string \<Rightarrow> nat option \<Rightarrow> (unit, unit) cache_call" where
  "null_set key value ttl = call_ok (check_text value)"

definition null_cache :: "unit cache_api" where
  "null_cache =
     \<lparr>ca_get = \<lambda>_. call_ok (Inr None), ca_set = null_set, ca_delete = \<lambda>_. call_ok (Inr ()),
      ca_exists = \<lambda>_. call_ok (Inr False),
      ca_incr = default_incr (\<lambda>_. call_ok (Inr None)) null_set,
      ca_add = default_add (\<lambda>_. call_ok (Inr False)) null_set\<rparr>"

section \<open>The store\<close>

record cache_entry =
  ce_value :: string
  ce_expires_at :: "nat option"
  ce_last_used :: "64 word"
  ce_size :: nat
  ce_pinned :: bool

definition is_expired :: "nat \<Rightarrow> cache_entry \<Rightarrow> bool" where
  "is_expired now e = (case ce_expires_at e of None \<Rightarrow> False | Some t \<Rightarrow> now > t)"

record store =
  st_map :: "(string \<times> cache_entry) list"
  st_used_bytes :: nat
  st_evictable :: nat
  st_pinned_bytes :: nat
  st_pinned :: nat

definition without_key :: "string \<Rightarrow> (string \<times> cache_entry) list \<Rightarrow> (string \<times> cache_entry) list" where
  "without_key key m = filter (\<lambda>p. fst p \<noteq> key) m"

definition store_take :: "string \<Rightarrow> store \<Rightarrow> store" where
  "store_take key s =
     (case map_of (st_map s) key of
        None \<Rightarrow> s
      | Some e \<Rightarrow>
          (let s' = s\<lparr>st_map := without_key key (st_map s)\<rparr>
           in if ce_pinned e then s'\<lparr>st_pinned_bytes := st_pinned_bytes s - ce_size e, st_pinned := st_pinned s - 1\<rparr>
              else s'\<lparr>st_used_bytes := st_used_bytes s - ce_size e, st_evictable := st_evictable s - 1\<rparr>))"

definition store_put :: "string \<Rightarrow> cache_entry \<Rightarrow> store \<Rightarrow> store" where
  "store_put key e s =
     (let t = store_take key s;
          t' = (if ce_pinned e then t\<lparr>st_pinned_bytes := st_pinned_bytes t + ce_size e, st_pinned := st_pinned t + 1\<rparr>
                else t\<lparr>st_used_bytes := st_used_bytes t + ce_size e, st_evictable := st_evictable t + 1\<rparr>)
      in t'\<lparr>st_map := (key, e) # st_map t'\<rparr>)"

definition sizes :: "(string \<times> cache_entry) list \<Rightarrow> nat" where
  "sizes m = sum_list (map (\<lambda>p. ce_size (snd p)) m)"

definition store_retain :: "(string \<Rightarrow> cache_entry \<Rightarrow> bool) \<Rightarrow> store \<Rightarrow> store" where
  "store_retain keep s =
     (let gone = filter (\<lambda>(k, e). \<not> keep k e) (st_map s);
          pinned = filter (\<lambda>p. ce_pinned (snd p)) gone; plain = filter (\<lambda>p. \<not> ce_pinned (snd p)) gone
      in s\<lparr>st_map := filter (\<lambda>(k, e). keep k e) (st_map s),
           st_used_bytes := st_used_bytes s - sizes plain, st_evictable := st_evictable s - length plain,
           st_pinned_bytes := st_pinned_bytes s - sizes pinned, st_pinned := st_pinned s - length pinned\<rparr>)"

definition pinned_fits :: "string \<Rightarrow> nat \<Rightarrow> nat \<Rightarrow> nat \<Rightarrow> store \<Rightarrow> bool" where
  "pinned_fits key size' max_bytes max_entries s =
     (let (old_bytes, old_count) = (case map_of (st_map s) key of
            Some e \<Rightarrow> if ce_pinned e then (ce_size e, 1) else (0, 0)
          | None \<Rightarrow> (0, 0))
      in (max_bytes = 0 \<or> st_pinned_bytes s - old_bytes + size' \<le> max_bytes) \<and>
         (max_entries = 0 \<or> st_pinned s - old_count < max_entries))"

section \<open>InMemoryCache\<close>

record in_memory_cache =
  ic_store :: store
  ic_default_ttl :: "nat option"
  ic_max_bytes :: nat
  ic_max_entries :: nat
  ic_max_pinned_bytes :: nat
  ic_max_pinned_entries :: nat
  ic_tick :: "64 word"

definition empty_store :: store where
  "empty_store = \<lparr>st_map = [], st_used_bytes = 0, st_evictable = 0, st_pinned_bytes = 0, st_pinned = 0\<rparr>"

definition build_cache :: "nat option \<Rightarrow> nat \<Rightarrow> nat \<Rightarrow> in_memory_cache" where
  "build_cache default_ttl max_bytes max_entries =
     \<lparr>ic_store = empty_store, ic_default_ttl = default_ttl, ic_max_bytes = max_bytes, ic_max_entries = max_entries,
      ic_max_pinned_bytes = 16 * 1024 * 1024, ic_max_pinned_entries = 10000, ic_tick = 0\<rparr>"

definition in_memory_new :: in_memory_cache where
  "in_memory_new = build_cache None (256 * 1024 * 1024) 100000"

definition far_future :: nat where
  "far_future = 100 * 365 * 24 * 3600 * 1000000"

definition resolve_ttl :: "in_memory_cache \<Rightarrow> nat option \<Rightarrow> nat \<Rightarrow> nat option" where
  "resolve_ttl c ttl now =
     map_option (\<lambda>effective. now + min effective far_future) (case ttl of None \<Rightarrow> ic_default_ttl c | Some t \<Rightarrow> Some t)"

definition low_water :: "nat \<Rightarrow> nat" where
  "low_water limit = limit - limit div 10"

definition over :: "nat \<Rightarrow> nat \<Rightarrow> store \<Rightarrow> bool" where
  "over max_bytes max_entries s \<longleftrightarrow>
     (max_bytes > 0 \<and> st_used_bytes s > max_bytes) \<or> (max_entries > 0 \<and> st_evictable s > max_entries)"

fun evict_lru :: "nat \<Rightarrow> nat \<Rightarrow> string list \<Rightarrow> store \<Rightarrow> store" where
  "evict_lru bytes entries [] s = s"
| "evict_lru bytes entries (k # ks) s =
     (if over bytes entries s then evict_lru bytes entries ks (store_take k s) else s)"

definition lru_keys :: "string \<Rightarrow> store \<Rightarrow> string list" where
  "lru_keys newest s =
     map fst (sort_key (\<lambda>p. ce_last_used (snd p)) (filter (\<lambda>(k, e). \<not> ce_pinned e \<and> k \<noteq> newest) (st_map s)))"

definition evict_locked :: "in_memory_cache \<Rightarrow> nat \<Rightarrow> string \<Rightarrow> store \<Rightarrow> store" where
  "evict_locked c now newest s =
     (if \<not> over (ic_max_bytes c) (ic_max_entries c) s then s
      else let bytes = low_water (ic_max_bytes c); entries = low_water (ic_max_entries c);
               s' = store_retain (\<lambda>_ e. \<not> is_expired now e) s
           in if \<not> over bytes entries s' then s' else evict_lru bytes entries (lru_keys newest s') s')"

text \<open>Write one entry, ticked under the lock, then evict.\<close>

definition put_entry :: "string \<Rightarrow> string \<Rightarrow> nat option \<Rightarrow> bool \<Rightarrow> nat \<Rightarrow> in_memory_cache \<Rightarrow> in_memory_cache" where
  "put_entry key value expires_at pinned now c =
     (let e = \<lparr>ce_value = value, ce_expires_at = expires_at, ce_last_used = ic_tick c,
               ce_size = length key + length value, ce_pinned = pinned\<rparr>;
          c' = c\<lparr>ic_tick := ic_tick c + 1\<rparr>
      in c'\<lparr>ic_store := evict_locked c' now key (store_put key e (ic_store c))\<rparr>)"

definition cache_insert :: "string \<Rightarrow> string \<Rightarrow> nat option \<Rightarrow> bool \<Rightarrow> nat \<Rightarrow> in_memory_cache \<Rightarrow> in_memory_cache" where
  "cache_insert key value expires_at pinned now c =
     put_entry key value expires_at
       (pinned \<and> pinned_fits key (length key + length value) (ic_max_pinned_bytes c) (ic_max_pinned_entries c) (ic_store c)) now c"

definition live_entry :: "in_memory_cache \<Rightarrow> nat \<Rightarrow> string \<Rightarrow> cache_entry option" where
  "live_entry c now key =
     (case map_of (st_map (ic_store c)) key of
        None \<Rightarrow> None
      | Some e \<Rightarrow> if is_expired now e then None else Some e)"

definition bump :: "string \<Rightarrow> in_memory_cache \<Rightarrow> in_memory_cache" where
  "bump key c =
     c\<lparr>ic_tick := ic_tick c + 1,
       ic_store := (ic_store c)\<lparr>st_map :=
         map (\<lambda>(k, e). (k, if k = key then e\<lparr>ce_last_used := ic_tick c\<rparr> else e)) (st_map (ic_store c))\<rparr>\<rparr>"

definition mem_get_bytes :: "string \<Rightarrow> (in_memory_cache, string option) cache_call" where
  "mem_get_bytes key now c =
     (case live_entry c now key of
        None \<Rightarrow> (c, Inr None)
      | Some e \<Rightarrow> (bump key c, Inr (Some (ce_value e))))"

definition mem_get :: "string \<Rightarrow> (in_memory_cache, string option) cache_call" where
  "mem_get key =
     call_then (mem_get_bytes key) (\<lambda>v. call_ok (case v of
        None \<Rightarrow> Inr None
      | Some b \<Rightarrow> if is_utf8 b then Inr (Some b) else Inl Serialization))"

definition mem_set_bytes :: "string \<Rightarrow> string \<Rightarrow> nat option \<Rightarrow> (in_memory_cache, unit) cache_call" where
  "mem_set_bytes key value ttl now c = (cache_insert key value (resolve_ttl c ttl now) False now c, Inr ())"

definition mem_set :: "string \<Rightarrow> string \<Rightarrow> nat option \<Rightarrow> (in_memory_cache, unit) cache_call" where
  "mem_set key value ttl = call_then (call_ok (check_text value)) (\<lambda>_. mem_set_bytes key value ttl)"

definition mem_set_forever :: "string \<Rightarrow> string \<Rightarrow> (in_memory_cache, unit) cache_call" where
  "mem_set_forever key value =
     call_then (call_ok (check_text value)) (\<lambda>_ now c. (cache_insert key value None True now c, Inr ()))"

definition mem_incr :: "string \<Rightarrow> int \<Rightarrow> nat option \<Rightarrow> (in_memory_cache, int) cache_call" where
  "mem_incr key by ttl now c =
     (let current = (case live_entry c now key of
            None \<Rightarrow> 0
          | Some e \<Rightarrow> (case (if is_utf8 (ce_value e) then counter_value (ce_value e) else None) of None \<Rightarrow> 0 | Some n \<Rightarrow> n))
      in case checked_add current by of
           Inl e \<Rightarrow> (c\<lparr>ic_tick := ic_tick c + 1\<rparr>, Inl e)
         | Inr new \<Rightarrow>
             (let expires_at = (case live_entry c now key of
                    Some e \<Rightarrow> if ttl = None then ce_expires_at e else resolve_ttl c ttl now
                  | None \<Rightarrow> resolve_ttl c ttl now)
              in (put_entry key (show_int new) expires_at False now c, Inr new)))"

definition mem_add :: "string \<Rightarrow> string \<Rightarrow> nat option \<Rightarrow> (in_memory_cache, bool) cache_call" where
  "mem_add key value ttl =
     call_then (call_ok (check_text value)) (\<lambda>_ now c.
       if live_entry c now key \<noteq> None then (c, Inr False)
       else (put_entry key value (resolve_ttl c ttl now) False now c, Inr True))"

definition mem_touch :: "string \<Rightarrow> nat option \<Rightarrow> (in_memory_cache, bool) cache_call" where
  "mem_touch key ttl now c =
     (case live_entry c now key of
        None \<Rightarrow> (c, Inr False)
      | Some e \<Rightarrow>
          (let expires_at = resolve_ttl c ttl now;
               e' = e\<lparr>ce_expires_at := expires_at, ce_last_used := ic_tick c, ce_pinned := (ce_pinned e \<and> expires_at = None)\<rparr>;
               c' = c\<lparr>ic_tick := ic_tick c + 1\<rparr>
           in (c'\<lparr>ic_store := evict_locked c' now key (store_put key e' (store_take key (ic_store c)))\<rparr>, Inr True)))"

definition mem_delete :: "string \<Rightarrow> (in_memory_cache, unit) cache_call" where
  "mem_delete key now c = (c\<lparr>ic_store := store_take key (ic_store c)\<rparr>, Inr ())"

definition mem_exists :: "string \<Rightarrow> (in_memory_cache, bool) cache_call" where
  "mem_exists key now c = (c, Inr (live_entry c now key \<noteq> None))"

definition mem_clear :: "(in_memory_cache, unit) cache_call" where
  "mem_clear now c = (c\<lparr>ic_store := empty_store\<rparr>, Inr ())"

definition mem_delete_prefix :: "string \<Rightarrow> (in_memory_cache, unit) cache_call" where
  "mem_delete_prefix prefix now c = (c\<lparr>ic_store := store_retain (\<lambda>k _. \<not> starts_with k prefix) (ic_store c)\<rparr>, Inr ())"

definition in_memory_api :: "in_memory_cache cache_api" where
  "in_memory_api =
     \<lparr>ca_get = mem_get, ca_set = mem_set, ca_delete = mem_delete, ca_exists = mem_exists,
      ca_incr = mem_incr, ca_add = mem_add\<rparr>"

end
