(* ===== verification/Cache_Correct.thy ===== *)
theory Cache_Correct
  imports Cache
begin

text \<open>
  \<open>InMemoryCache\<close> keeps its totals exact, stays within its budgets, keeps what was just written and what is
  pinned, and follows the rules the trait documents for counters. The locale \<open>counter_cache\<close> states what the
  clients of the trait rely on, for a cache that does not evict.
\<close>

section \<open>Numbers as text\<close>

lemma show_nat_no_sign: "show_nat n = c # cs \<Longrightarrow> c \<noteq> CHR ''-'' \<and> c \<noteq> CHR ''+''"
  using show_nat_digits [of n] by (auto simp: is_ascii_digit_def)

lemma parse_show_int: "i64_range n \<Longrightarrow> parse_i64 (show_int n) = Some n"
proof -
  assume r: "i64_range n"
  obtain c cs where s: "show_nat (nat \<bar>n\<bar>) = c # cs" using show_nat_nonempty by (cases "show_nat (nat \<bar>n\<bar>)") auto
  have d: "list_all is_ascii_digit (c # cs)" "digits_value (c # cs) = nat \<bar>n\<bar>"
    using show_nat_digits [of "nat \<bar>n\<bar>"] digits_value_show_nat [of "nat \<bar>n\<bar>"] s by simp_all
  show ?thesis
  proof (cases "n < 0")
    case True
    then have "show_int n = CHR ''-'' # c # cs" using s by (simp add: show_int_def)
    then show ?thesis using d r True by (simp add: parse_i64_def)
  next
    case False
    then have "show_int n = c # cs" using s by (simp add: show_int_def)
    then show ?thesis using d r False show_nat_no_sign [OF s] by (simp add: parse_i64_def)
  qed
qed

lemma counter_value_show [simp]: "i64_range n \<Longrightarrow> counter_value (show_int n) = Some n"
  by (simp add: counter_value_def parse_show_int)

lemma counter_value_range: "counter_value s = Some n \<Longrightarrow> i64_range n \<and> s = show_int n"
  by (auto simp: counter_value_def parse_i64_def Let_def split: option.splits if_splits prod.splits)

lemma utf8_ascii: "list_all (\<lambda>b. b < 128) bs \<Longrightarrow> utf8_bytes bs"
  by (induction bs) simp_all

lemma is_utf8_show_int: "is_utf8 (show_int n)"
proof -
  have "list_all (\<lambda>c. of_char c < (128 :: nat)) (show_nat m)" for m
    using show_nat_digits [of m] by (auto simp: list_all_iff is_ascii_digit_def)
  then have "list_all (\<lambda>b. b < 128) (map of_char (show_int n) :: nat list)"
    by (auto simp: show_int_def list_all_iff)
  then show ?thesis unfolding is_utf8_def by (rule utf8_ascii)
qed

section \<open>The store\<close>

definition entry_ok :: "string \<Rightarrow> cache_entry \<Rightarrow> bool" where
  "entry_ok k e \<longleftrightarrow> ce_size e = length k + length (ce_value e) \<and> (ce_pinned e \<longrightarrow> ce_expires_at e = None)"

definition plain :: "(string \<times> cache_entry) list \<Rightarrow> (string \<times> cache_entry) list" where
  "plain m = filter (\<lambda>p. \<not> ce_pinned (snd p)) m"

definition pins :: "(string \<times> cache_entry) list \<Rightarrow> (string \<times> cache_entry) list" where
  "pins m = filter (\<lambda>p. ce_pinned (snd p)) m"

definition store_ok :: "store \<Rightarrow> bool" where
  "store_ok s \<longleftrightarrow>
     distinct (map fst (st_map s)) \<and> list_all (\<lambda>(k, e). entry_ok k e) (st_map s) \<and>
     st_used_bytes s = sizes (plain (st_map s)) \<and> st_evictable s = length (plain (st_map s)) \<and>
     st_pinned_bytes s = sizes (pins (st_map s)) \<and> st_pinned s = length (pins (st_map s))"

lemma sizes_simps [simp]: "sizes [] = 0" "sizes (p # m) = ce_size (snd p) + sizes m" "sizes (m @ n) = sizes m + sizes n"
  by (simp_all add: sizes_def)

lemma map_of_without_key: "map_of (without_key key m) = (map_of m)(key := None)"
  by (induction m) (auto simp: without_key_def)

lemma without_key_absent: "map_of m key = None \<Longrightarrow> without_key key m = m"
  by (auto simp: without_key_def map_of_eq_None_iff filter_id_conv)

lemma sizes_filter_split: "sizes (filter P m) + sizes (filter (\<lambda>p. \<not> P p) m) = sizes m"
  by (induction m) auto

lemma length_filter_split: "length (filter P m) + length (filter (\<lambda>p. \<not> P p) m) = length m"
  by (rule sum_length_filter_compl)

lemma without_key_totals:
  assumes "distinct (map fst m)" "map_of m key = Some e"
  shows "ce_pinned e \<Longrightarrow> sizes (pins m) = ce_size e + sizes (pins (without_key key m)) \<and>
      length (pins m) = Suc (length (pins (without_key key m))) \<and> plain (without_key key m) = plain m"
    and "\<not> ce_pinned e \<Longrightarrow> sizes (plain m) = ce_size e + sizes (plain (without_key key m)) \<and>
      length (plain m) = Suc (length (plain (without_key key m))) \<and> pins (without_key key m) = pins m"
proof -
  have "(key, e) \<in> set m" using assms(2) by (rule map_of_SomeD)
  then obtain xs ys where m: "m = xs @ (key, e) # ys" by (meson split_list)
  then have "key \<notin> fst ` set xs" "key \<notin> fst ` set ys" using assms(1) by auto
  then have "filter (\<lambda>p. fst p \<noteq> key) xs = xs" "filter (\<lambda>p. fst p \<noteq> key) ys = ys"
    unfolding filter_id_conv by (metis image_eqI)+
  then have w: "without_key key m = xs @ ys" using m by (simp add: without_key_def)
  show "ce_pinned e \<Longrightarrow> sizes (pins m) = ce_size e + sizes (pins (without_key key m)) \<and>
      length (pins m) = Suc (length (pins (without_key key m))) \<and> plain (without_key key m) = plain m"
    "\<not> ce_pinned e \<Longrightarrow> sizes (plain m) = ce_size e + sizes (plain (without_key key m)) \<and>
      length (plain m) = Suc (length (plain (without_key key m))) \<and> pins (without_key key m) = pins m"
    unfolding w unfolding m by (simp_all add: plain_def pins_def)
qed

lemma map_of_take: "map_of (st_map (store_take key s)) = (map_of (st_map s))(key := None)"
  by (auto simp: store_take_def Let_def map_of_without_key split: option.split)

lemma store_take_map: "st_map (store_take key s) = without_key key (st_map s)"
  by (auto simp: store_take_def Let_def without_key_absent split: option.split)

lemma distinct_without_key: "distinct (map fst m) \<Longrightarrow> distinct (map fst (without_key key m))"
  unfolding without_key_def by (rule distinct_map_filter)

lemma store_take_ok: "store_ok s \<Longrightarrow> store_ok (store_take key s)"
proof (cases "map_of (st_map s) key")
  case (Some e)
  assume ok: "store_ok s"
  then have d: "distinct (map fst (st_map s))" by (simp add: store_ok_def)
  have "list_all (\<lambda>(k, e). entry_ok k e) (without_key key (st_map s))"
    using ok by (auto simp: store_ok_def list_all_iff without_key_def)
  then show ?thesis
    using ok Some without_key_totals [OF d Some] distinct_without_key [OF d]
    by (auto simp: store_ok_def store_take_def Let_def)
qed (simp add: store_take_def)

lemma map_of_put: "map_of (st_map (store_put key e s)) = (map_of (st_map s))(key \<mapsto> e)"
  by (simp add: store_put_def Let_def map_of_take)

lemma store_put_ok:
  assumes "store_ok s" "entry_ok key e"
  shows "store_ok (store_put key e s)"
proof -
  have t: "store_ok (store_take key s)" using assms(1) by (rule store_take_ok)
  have "key \<notin> set (map fst (st_map (store_take key s)))"
    by (auto simp: store_take_map without_key_def)
  with t assms(2) show ?thesis
    by (auto simp: store_ok_def store_put_def Let_def plain_def pins_def)
qed

lemma map_of_retain:
  "distinct (map fst (st_map s)) \<Longrightarrow>
   map_of (st_map (store_retain keep s)) k =
     (case map_of (st_map s) k of None \<Rightarrow> None | Some e \<Rightarrow> if keep k e then Some e else None)"
proof -
  have "distinct (map fst m) \<Longrightarrow> map_of (filter (\<lambda>(k, e). keep k e) m) k =
      (case map_of m k of None \<Rightarrow> None | Some e \<Rightarrow> if keep k e then Some e else None)" for m
    by (induction m) (auto simp: map_of_eq_None_iff split: option.split dest: map_of_SomeD)
  then show "distinct (map fst (st_map s)) \<Longrightarrow> map_of (st_map (store_retain keep s)) k =
     (case map_of (st_map s) k of None \<Rightarrow> None | Some e \<Rightarrow> if keep k e then Some e else None)"
    by (simp add: store_retain_def Let_def)
qed

lemma store_retain_ok:
  assumes "store_ok s"
  shows "store_ok (store_retain keep s)"
proof -
  let ?m = "st_map s"
  have eq: "filter P (filter (\<lambda>(k, e). keep k e) ?m) = filter (\<lambda>p. keep (fst p) (snd p)) (filter P ?m)"
    "filter P (filter (\<lambda>(k, e). \<not> keep k e) ?m) = filter (\<lambda>p. \<not> keep (fst p) (snd p)) (filter P ?m)" for P
    by (simp_all add: case_prod_beta' conj_commute)
  have "sizes (filter P (filter (\<lambda>(k, e). keep k e) ?m)) = sizes (filter P ?m) - sizes (filter P (filter (\<lambda>(k, e). \<not> keep k e) ?m))"
    "length (filter P (filter (\<lambda>(k, e). keep k e) ?m)) = length (filter P ?m) - length (filter P (filter (\<lambda>(k, e). \<not> keep k e) ?m))" for P
    unfolding eq using sizes_filter_split [of "\<lambda>p. keep (fst p) (snd p)" "filter P ?m"]
      length_filter_split [of "\<lambda>p. keep (fst p) (snd p)" "filter P ?m"] by linarith+
  moreover have "distinct (map fst (filter (\<lambda>(k, e). keep k e) ?m))"
    using assms by (simp add: store_ok_def distinct_map_filter)
  moreover have "list_all (\<lambda>(k, e). entry_ok k e) (filter (\<lambda>(k, e). keep k e) ?m)"
    using assms by (auto simp: store_ok_def list_all_iff)
  ultimately show ?thesis
    using assms by (simp add: store_ok_def store_retain_def Let_def plain_def pins_def)
qed

section \<open>Eviction\<close>

lemma evict_lru_ok: "store_ok s \<Longrightarrow> store_ok (evict_lru b n ks s)"
  by (induction b n ks s rule: evict_lru.induct) (simp_all add: store_take_ok)

lemma evict_lru_keeps: "k \<notin> set ks \<Longrightarrow> map_of (st_map (evict_lru b n ks s)) k = map_of (st_map s) k"
  by (induction b n ks s rule: evict_lru.induct) (auto simp: map_of_take)

lemma evict_lru_sub:
  "map_of (st_map (evict_lru b n ks s)) k = Some e \<Longrightarrow> map_of (st_map s) k = Some e"
  by (induction b n ks s rule: evict_lru.induct) (auto simp: map_of_take split: if_splits)

lemma evict_lru_ends:
  "over b n (evict_lru b n ks s) \<Longrightarrow> k \<in> set ks \<Longrightarrow> map_of (st_map (evict_lru b n ks s)) k = None"
proof (induction b n ks s rule: evict_lru.induct)
  case (2 b n k' ks s)
  have gone: "map_of (st_map (evict_lru b n ks (store_take k' s))) k' = None"
    using evict_lru_sub [of b n ks "store_take k' s" k'] by (cases "map_of (st_map (evict_lru b n ks (store_take k' s))) k'") (auto simp: map_of_take)
  with 2 show ?case by (auto split: if_splits)
qed simp

lemma set_lru_keys:
  "distinct (map fst (st_map s)) \<Longrightarrow>
   k \<in> set (lru_keys newest s) \<longleftrightarrow> k \<noteq> newest \<and> (\<exists>e. map_of (st_map s) k = Some e \<and> \<not> ce_pinned e)"
  by (force simp: lru_keys_def)

lemma low_water_le: "low_water n \<le> n" "0 < n \<Longrightarrow> 0 < low_water n"
  by (auto simp: low_water_def)

lemma over_low_water: "over b n s \<Longrightarrow> over (low_water b) (low_water n) s"
  using low_water_le [of b] low_water_le [of n] by (auto simp: over_def)

lemma evict_locked_ok: "store_ok s \<Longrightarrow> store_ok (evict_locked c now newest s)"
  by (simp add: evict_locked_def Let_def store_retain_ok evict_lru_ok)

lemma evict_locked_sub:
  assumes "store_ok s" "map_of (st_map (evict_locked c now newest s)) k = Some e"
  shows "map_of (st_map s) k = Some e"
proof -
  have d: "distinct (map fst (st_map s))" using assms(1) by (simp add: store_ok_def)
  let ?s = "store_retain (\<lambda>_ e. \<not> is_expired now e) s"
  consider "evict_locked c now newest s = s" | "evict_locked c now newest s = ?s"
    | "evict_locked c now newest s = evict_lru (low_water (ic_max_bytes c)) (low_water (ic_max_entries c)) (lru_keys newest ?s) ?s"
    by atomize_elim (simp add: evict_locked_def Let_def)
  moreover have "map_of (st_map ?s) k = Some e \<Longrightarrow> ?thesis"
    by (auto simp: map_of_retain [OF d] split: option.splits if_splits)
  ultimately show ?thesis using assms(2) evict_lru_sub by cases metis+
qed

lemma evict_locked_keeps:
  assumes "store_ok s" "map_of (st_map s) k = Some e" "\<not> is_expired now e" "ce_pinned e \<or> k = newest"
  shows "map_of (st_map (evict_locked c now newest s)) k = Some e"
proof -
  have d: "distinct (map fst (st_map s))" using assms(1) by (simp add: store_ok_def)
  let ?s = "store_retain (\<lambda>_ e. \<not> is_expired now e) s"
  have kept: "map_of (st_map ?s) k = Some e" using assms by (simp add: map_of_retain [OF d])
  have "store_ok ?s" using assms(1) by (rule store_retain_ok)
  then have "k \<notin> set (lru_keys newest ?s)" using kept assms(4) by (subst set_lru_keys) (auto simp: store_ok_def)
  with kept assms(2) show ?thesis by (simp add: evict_locked_def Let_def evict_lru_keeps)
qed

lemma evict_locked_bound:
  assumes "store_ok s" "over (ic_max_bytes c) (ic_max_entries c) (evict_locked c now newest s)"
    "map_of (st_map (evict_locked c now newest s)) k = Some e"
  shows "ce_pinned e \<or> k = newest"
proof (rule ccontr)
  assume neg: "\<not> (ce_pinned e \<or> k = newest)"
  let ?s = "store_retain (\<lambda>_ e. \<not> is_expired now e) s" and ?b = "low_water (ic_max_bytes c)" and ?n = "low_water (ic_max_entries c)"
  have ok: "store_ok ?s" using assms(1) by (rule store_retain_ok)
  have r: "evict_locked c now newest s = evict_lru ?b ?n (lru_keys newest ?s) ?s"
    using assms(2) over_low_water by (auto simp: evict_locked_def Let_def split: if_splits)
  have "map_of (st_map ?s) k = Some e" using assms(3) evict_lru_sub unfolding r by blast
  then have "k \<in> set (lru_keys newest ?s)" using neg ok by (subst set_lru_keys) (auto simp: store_ok_def)
  then have "map_of (st_map (evict_locked c now newest s)) k = None"
    unfolding r using over_low_water [OF assms(2)] unfolding r by (intro evict_lru_ends)
  with assms(3) show False by simp
qed

section \<open>InMemoryCache\<close>

definition cache_ok :: "in_memory_cache \<Rightarrow> bool" where
  "cache_ok c \<longleftrightarrow> store_ok (ic_store c)"

lemma put_entry_ok:
  "cache_ok c \<Longrightarrow> (pinned \<Longrightarrow> expires_at = None) \<Longrightarrow> cache_ok (put_entry key value expires_at pinned now c)"
  by (simp add: cache_ok_def put_entry_def Let_def evict_locked_ok store_put_ok entry_ok_def)

lemma bump_ok:
  assumes "cache_ok c"
  shows "cache_ok (bump key c)"
proof -
  define u where "u k e = (if k = key then e\<lparr>ce_last_used := ic_tick c\<rparr> else e)" for k and e :: cache_entry
  define f where "f p = (fst p, u (fst p) (snd p))" for p
  have u [simp]: "ce_pinned (u k e) = ce_pinned e" "ce_size (u k e) = ce_size e" "entry_ok k (u k e) = entry_ok k e" for k e
    by (simp_all add: u_def entry_ok_def)
  have f [simp]: "fst (f p) = fst p" "snd (f p) = u (fst p) (snd p)" for p by (simp_all add: f_def)
  have m: "st_map (ic_store (bump key c)) = map f (st_map (ic_store c))"
    by (auto simp: bump_def f_def u_def)
  have "sizes (plain (map f m)) = sizes (plain m)" "length (plain (map f m)) = length (plain m)"
    "sizes (pins (map f m)) = sizes (pins m)" "length (pins (map f m)) = length (pins m)" for m
    by (induction m) (simp_all add: plain_def pins_def)
  moreover have "map fst (map f m) = map fst m" for m by simp
  moreover have "list_all (\<lambda>(k, e). entry_ok k e) (map f m) = list_all (\<lambda>(k, e). entry_ok k e) m" for m
    by (induction m) (simp_all add: case_prod_beta')
  moreover have "st_used_bytes (ic_store (bump key c)) = st_used_bytes (ic_store c)"
    "st_evictable (ic_store (bump key c)) = st_evictable (ic_store c)"
    "st_pinned_bytes (ic_store (bump key c)) = st_pinned_bytes (ic_store c)"
    "st_pinned (ic_store (bump key c)) = st_pinned (ic_store c)" by (simp_all add: bump_def)
  ultimately show ?thesis using assms unfolding cache_ok_def store_ok_def m by metis
qed

lemma map_of_bump:
  "map_of (st_map (ic_store (bump key c))) k =
     map_option (\<lambda>e. if k = key then e\<lparr>ce_last_used := ic_tick c\<rparr> else e) (map_of (st_map (ic_store c)) k)"
proof -
  have "map_of (map (\<lambda>(k, e). (k, if k = key then e\<lparr>ce_last_used := t\<rparr> else e)) m) k =
      map_option (\<lambda>e. if k = key then e\<lparr>ce_last_used := t\<rparr> else e) (map_of m k)" for t m
    by (induction m) auto
  then show ?thesis by (simp add: bump_def)
qed

text \<open>What every operation of the cache keeps.\<close>

definition keeps_cache :: "(in_memory_cache, 'a) cache_call \<Rightarrow> bool" where
  "keeps_cache f \<longleftrightarrow> (\<forall>now c. cache_ok c \<longrightarrow> cache_ok (fst (f now c)))"

lemma keeps_cache_then: "keeps_cache f \<Longrightarrow> (\<And>x. keeps_cache (g x)) \<Longrightarrow> keeps_cache (call_then f g)"
  unfolding keeps_cache_def call_then_def by (auto split: prod.split sum.split) (metis fst_conv)+

lemma keeps_cache_ops:
  "keeps_cache (mem_get key)" "keeps_cache (mem_get_bytes key)" "keeps_cache (mem_set key value ttl)"
  "keeps_cache (mem_set_bytes key value ttl)" "keeps_cache (mem_set_forever key value)" "keeps_cache (mem_incr key by' ttl)"
  "keeps_cache (mem_add key value ttl)" "keeps_cache (mem_touch key ttl)" "keeps_cache (mem_delete key)"
  "keeps_cache (mem_exists key)" "keeps_cache mem_clear" "keeps_cache (mem_delete_prefix prefix)"
proof -
  have ok: "keeps_cache (call_ok r)" for r :: "cache_error + 'a" by (simp add: keeps_cache_def call_ok_def)
  have ins: "cache_ok c \<Longrightarrow> (pinned \<Longrightarrow> expires_at = None) \<Longrightarrow> cache_ok (cache_insert key value expires_at pinned now c)"
    for c pinned expires_at now by (auto simp: cache_insert_def intro: put_entry_ok)
  show bytes: "keeps_cache (mem_get_bytes key)"
    by (auto simp: keeps_cache_def mem_get_bytes_def intro: bump_ok split: option.split)
  show "keeps_cache (mem_get key)" unfolding mem_get_def
    by (rule keeps_cache_then [OF bytes]) (simp add: keeps_cache_def call_ok_def)
  show sb: "keeps_cache (mem_set_bytes key value ttl)" by (auto simp: keeps_cache_def mem_set_bytes_def intro: ins)
  have unit: "keeps_cache (call_ok (check_text value))" by (simp add: keeps_cache_def call_ok_def)
  show "keeps_cache (mem_set key value ttl)" unfolding mem_set_def by (rule keeps_cache_then [OF unit sb])
  show "keeps_cache (mem_set_forever key value)" unfolding mem_set_forever_def
    by (rule keeps_cache_then [OF unit]) (auto simp: keeps_cache_def intro: ins)
  show "keeps_cache (mem_incr key by' ttl)"
    by (auto simp: keeps_cache_def mem_incr_def Let_def intro: put_entry_ok split: sum.split) (simp add: cache_ok_def)
  show "keeps_cache (mem_add key value ttl)" unfolding mem_add_def
    by (rule keeps_cache_then [OF unit]) (auto simp: keeps_cache_def intro: put_entry_ok)
  show "keeps_cache (mem_touch key ttl)"
  proof -
    have "cache_ok c \<Longrightarrow> live_entry c now key = Some e \<Longrightarrow> entry_ok key e" for c now e
      by (auto simp: cache_ok_def store_ok_def live_entry_def list_all_iff split: option.splits if_splits dest: map_of_SomeD)
    then have "cache_ok c \<Longrightarrow> live_entry c now key = Some e \<Longrightarrow> ce_size e = length key + length (ce_value e)" for c now e
      by (simp add: entry_ok_def)
    then show ?thesis
      by (auto simp: keeps_cache_def mem_touch_def Let_def cache_ok_def entry_ok_def
          intro!: evict_locked_ok store_put_ok store_take_ok split: option.split)
  qed
  show "keeps_cache (mem_delete key)" by (simp add: keeps_cache_def mem_delete_def cache_ok_def store_take_ok)
  show "keeps_cache (mem_exists key)" by (simp add: keeps_cache_def mem_exists_def)
  show "keeps_cache mem_clear"
    by (simp add: keeps_cache_def mem_clear_def cache_ok_def store_ok_def empty_store_def plain_def pins_def)
  show "keeps_cache (mem_delete_prefix prefix)" by (simp add: keeps_cache_def mem_delete_prefix_def cache_ok_def store_retain_ok)
qed

section \<open>Every reachable cache\<close>

text \<open>The calls of the cache and a history of them, each with its time.\<close>

datatype mem_call =
    GetCall string
  | GetBytesCall string
  | SetCall string string "nat option"
  | SetBytesCall string string "nat option"
  | SetForeverCall string string
  | IncrCall string int "nat option"
  | AddCall string string "nat option"
  | TouchCall string "nat option"
  | DeleteCall string
  | ExistsCall string
  | ClearCall
  | DeletePrefixCall string

fun mem_do :: "mem_call \<Rightarrow> nat \<Rightarrow> in_memory_cache \<Rightarrow> in_memory_cache" where
  "mem_do (GetCall k) now c = fst (mem_get k now c)"
| "mem_do (GetBytesCall k) now c = fst (mem_get_bytes k now c)"
| "mem_do (SetCall k v ttl) now c = fst (mem_set k v ttl now c)"
| "mem_do (SetBytesCall k v ttl) now c = fst (mem_set_bytes k v ttl now c)"
| "mem_do (SetForeverCall k v) now c = fst (mem_set_forever k v now c)"
| "mem_do (IncrCall k n ttl) now c = fst (mem_incr k n ttl now c)"
| "mem_do (AddCall k v ttl) now c = fst (mem_add k v ttl now c)"
| "mem_do (TouchCall k ttl) now c = fst (mem_touch k ttl now c)"
| "mem_do (DeleteCall k) now c = fst (mem_delete k now c)"
| "mem_do (ExistsCall k) now c = fst (mem_exists k now c)"
| "mem_do ClearCall now c = fst (mem_clear now c)"
| "mem_do (DeletePrefixCall p) now c = fst (mem_delete_prefix p now c)"

definition mem_run :: "(nat \<times> mem_call) list \<Rightarrow> in_memory_cache \<Rightarrow> in_memory_cache" where
  "mem_run h c = fold (\<lambda>(now, call). mem_do call now) h c"

lemma mem_run_induct:
  assumes "\<And>call now c. P c \<Longrightarrow> (now, call) \<in> set h \<Longrightarrow> P (mem_do call now c)" "P c"
  shows "P (mem_run h c)"
  using assms unfolding mem_run_def by (induction h arbitrary: c) auto

lemma do_cache_ok: "cache_ok c \<Longrightarrow> cache_ok (mem_do call now c)"
  by (cases call) (use keeps_cache_ops in \<open>simp_all add: keeps_cache_def\<close>)

text \<open>The evictable entries fit their budgets, or a single one is left; the pinned ones fit their caps.\<close>

definition within_budget :: "in_memory_cache \<Rightarrow> store \<Rightarrow> bool" where
  "within_budget c s \<longleftrightarrow>
     (over (ic_max_bytes c) (ic_max_entries c) s \<longrightarrow> st_evictable s \<le> 1) \<and>
     (ic_max_pinned_bytes c > 0 \<longrightarrow> st_pinned_bytes s \<le> ic_max_pinned_bytes c) \<and>
     (ic_max_pinned_entries c > 0 \<longrightarrow> st_pinned s \<le> ic_max_pinned_entries c)"

lemma one_plain_left:
  assumes ok: "store_ok s" and only: "\<And>k e. map_of (st_map s) k = Some e \<Longrightarrow> ce_pinned e \<or> k = newest"
  shows "st_evictable s \<le> 1"
proof -
  let ?m = "plain (st_map s)"
  have d: "distinct (map fst (st_map s))" using ok by (simp add: store_ok_def)
  then have dm: "distinct (map fst ?m)" unfolding plain_def by (rule distinct_map_filter)
  have "set (map fst ?m) \<subseteq> {newest}"
    using only d by (auto simp: plain_def) blast
  then have "card (set (map fst ?m)) \<le> card {newest}" by (intro card_mono) simp_all
  then have "length ?m \<le> 1" using distinct_card [OF dm] by simp
  then show ?thesis using ok by (simp add: store_ok_def)
qed

definition shrinks :: "store \<Rightarrow> store \<Rightarrow> bool" where
  "shrinks s' s \<longleftrightarrow>
     st_used_bytes s' \<le> st_used_bytes s \<and> st_evictable s' \<le> st_evictable s \<and>
     st_pinned_bytes s' \<le> st_pinned_bytes s \<and> st_pinned s' \<le> st_pinned s"

lemma shrinks_refl [simp]: "shrinks s s"
  by (simp add: shrinks_def)

lemma shrinks_trans: "shrinks a b \<Longrightarrow> shrinks b c \<Longrightarrow> shrinks a c"
  by (auto simp: shrinks_def)

lemma shrinks_take: "shrinks (store_take key s) s"
  by (simp add: shrinks_def store_take_def Let_def split: option.split)

lemma shrinks_retain: "shrinks (store_retain keep s) s"
  by (simp add: shrinks_def store_retain_def Let_def)

lemma shrinks_evict_lru: "shrinks (evict_lru b n ks s) s"
  by (induction b n ks s rule: evict_lru.induct) (auto intro: shrinks_trans [OF _ shrinks_take])

lemma shrinks_evict_locked: "shrinks (evict_locked c now newest s) s"
  by (simp add: evict_locked_def Let_def shrinks_retain shrinks_trans [OF shrinks_evict_lru shrinks_retain])

lemma within_budget_shrinks: "shrinks s' s \<Longrightarrow> within_budget c s \<Longrightarrow> within_budget c s'"
  by (auto simp: shrinks_def within_budget_def over_def)

definition pins_fit :: "in_memory_cache \<Rightarrow> store \<Rightarrow> bool" where
  "pins_fit c s \<longleftrightarrow>
     (ic_max_pinned_bytes c > 0 \<longrightarrow> st_pinned_bytes s \<le> ic_max_pinned_bytes c) \<and>
     (ic_max_pinned_entries c > 0 \<longrightarrow> st_pinned s \<le> ic_max_pinned_entries c)"

lemma pins_fit_shrinks: "shrinks s' s \<Longrightarrow> pins_fit c s \<Longrightarrow> pins_fit c s'"
  by (auto simp: shrinks_def pins_fit_def)

lemma evict_within_budget:
  assumes ok: "store_ok s" and fit: "pins_fit c s"
  shows "within_budget c (evict_locked c now newest s)"
proof -
  let ?s = "evict_locked c now newest s"
  have "over (ic_max_bytes c) (ic_max_entries c) ?s \<Longrightarrow> st_evictable ?s \<le> 1"
    using evict_locked_bound [OF ok] by (intro one_plain_left [OF evict_locked_ok [OF ok]])
  then show ?thesis
    using pins_fit_shrinks [OF shrinks_evict_locked fit] by (simp add: within_budget_def pins_fit_def)
qed

lemma put_plain_fits: "\<not> ce_pinned e \<Longrightarrow> pins_fit c s \<Longrightarrow> pins_fit c (store_put key e s)"
  using shrinks_take [of key s] by (auto simp: pins_fit_def shrinks_def store_put_def Let_def)

lemma put_pinned_fits:
  assumes "pinned_fits key (ce_size e) (ic_max_pinned_bytes c) (ic_max_pinned_entries c) s" "pins_fit c s"
  shows "pins_fit c (store_put key e s)"
  using assms shrinks_take [of key s]
  by (auto simp: pins_fit_def shrinks_def store_put_def store_take_def pinned_fits_def Let_def
      split: option.splits if_splits)

lemma store_ok_entry:
  assumes "store_ok s" "map_of (st_map s) key = Some e"
  shows "entry_ok key e" "ce_pinned e \<Longrightarrow> ce_size e \<le> st_pinned_bytes s" "ce_pinned e \<Longrightarrow> 1 \<le> st_pinned s"
  using assms without_key_totals(1) [OF _ assms(2)] map_of_SomeD [OF assms(2)]
  by (auto simp: store_ok_def list_all_iff)

lemma retouch_fits:
  assumes ok: "store_ok s" and e: "map_of (st_map s) key = Some e" and fit: "pins_fit c s"
    and e': "ce_pinned e' \<longrightarrow> ce_pinned e" "ce_size e' = ce_size e"
  shows "pins_fit c (store_put key e' (store_take key s))"
proof (cases "ce_pinned e'")
  case True
  then have p: "ce_pinned e" using e'(1) by simp
  have t: "store_take key (store_take key s) = store_take key s"
    by (simp add: store_take_def [of key "store_take key s"] map_of_take)
  have "st_pinned_bytes (store_put key e' (store_take key s)) = st_pinned_bytes s"
    "st_pinned (store_put key e' (store_take key s)) = st_pinned s"
    using store_ok_entry(2,3) [OF ok e p] True p e e'(2)
    by (simp_all add: store_put_def t) (simp_all add: store_take_def Let_def)
  then show ?thesis using fit by (simp add: pins_fit_def)
next
  case False
  then show ?thesis by (rule put_plain_fits) (rule pins_fit_shrinks [OF shrinks_take fit])
qed

definition budget_ok :: "in_memory_cache \<Rightarrow> bool" where
  "budget_ok c \<longleftrightarrow> cache_ok c \<and> within_budget c (ic_store c)"

lemma budget_ok_pins: "budget_ok c \<Longrightarrow> pins_fit c (ic_store c)"
  by (simp add: budget_ok_def within_budget_def pins_fit_def)

lemma evict_locked_tick [simp]: "evict_locked (c\<lparr>ic_tick := t\<rparr>) now k s = evict_locked c now k s"
  by (simp add: evict_locked_def)

lemma within_budget_tick [simp]: "within_budget (c\<lparr>ic_tick := t\<rparr>) s = within_budget c s"
  "within_budget (c\<lparr>ic_store := s'\<rparr>) s = within_budget c s"
  by (simp_all add: within_budget_def)

lemma put_entry_within:
  assumes b: "budget_ok c" and p: "pinned \<Longrightarrow> expires_at = None \<and>
    pinned_fits key (length key + length value) (ic_max_pinned_bytes c) (ic_max_pinned_entries c) (ic_store c)"
  shows "budget_ok (put_entry key value expires_at pinned now c)"
proof -
  let ?e = "\<lparr>ce_value = value, ce_expires_at = expires_at, ce_last_used = ic_tick c,
      ce_size = length key + length value, ce_pinned = pinned\<rparr>"
  have ok: "store_ok (store_put key ?e (ic_store c))"
    using b p by (intro store_put_ok) (auto simp: budget_ok_def cache_ok_def entry_ok_def)
  have "pins_fit c (store_put key ?e (ic_store c))"
    using put_plain_fits [OF _ budget_ok_pins [OF b]] put_pinned_fits [OF _ budget_ok_pins [OF b]] p
    by (cases pinned) simp_all
  from evict_within_budget [OF ok this] show ?thesis
    using b p put_entry_ok [of c pinned expires_at key "value" now] by (simp add: budget_ok_def put_entry_def Let_def)
qed

lemma cache_insert_within:
  "budget_ok c \<Longrightarrow> (pinned \<Longrightarrow> expires_at = None) \<Longrightarrow> budget_ok (cache_insert key value expires_at pinned now c)"
  unfolding cache_insert_def by (rule put_entry_within) auto

lemma touch_within:
  assumes b: "budget_ok c" and e: "live_entry c now key = Some e"
  shows "budget_ok (fst (mem_touch key ttl now c))"
proof -
  have m: "map_of (st_map (ic_store c)) key = Some e"
    using e by (auto simp: live_entry_def split: option.splits if_splits)
  have ok: "store_ok (ic_store c)" using b by (simp add: budget_ok_def cache_ok_def)
  let ?e = "e\<lparr>ce_expires_at := resolve_ttl c ttl now, ce_last_used := ic_tick c, ce_pinned := (ce_pinned e \<and> resolve_ttl c ttl now = None)\<rparr>"
  have "entry_ok key ?e" using store_ok_entry(1) [OF ok m] by (simp add: entry_ok_def)
  then have "store_ok (store_put key ?e (store_take key (ic_store c)))" by (intro store_put_ok store_take_ok ok)
  moreover have "pins_fit c (store_put key ?e (store_take key (ic_store c)))"
    by (rule retouch_fits [OF ok m budget_ok_pins [OF b]]) simp_all
  ultimately have "within_budget c (evict_locked c now key (store_put key ?e (store_take key (ic_store c))))"
    by (rule evict_within_budget)
  moreover have "cache_ok (fst (mem_touch key ttl now c))"
    using keeps_cache_ops(8) b by (simp add: keeps_cache_def budget_ok_def)
  ultimately show ?thesis using e by (simp add: budget_ok_def mem_touch_def Let_def)
qed

lemma bump_within: "budget_ok c \<Longrightarrow> budget_ok (bump key c)"
  using bump_ok [of c key] by (simp add: budget_ok_def within_budget_def over_def bump_def)

lemma tick_within: "budget_ok c \<Longrightarrow> budget_ok (c\<lparr>ic_tick := t\<rparr>)"
  by (simp add: budget_ok_def cache_ok_def)

lemma shrink_within:
  "budget_ok c \<Longrightarrow> store_ok s \<Longrightarrow> shrinks s (ic_store c) \<Longrightarrow> budget_ok (c\<lparr>ic_store := s\<rparr>)"
  using within_budget_shrinks by (simp add: budget_ok_def cache_ok_def)

lemma do_within: "budget_ok c \<Longrightarrow> budget_ok (mem_do call now c)"
proof (cases call)
  case (TouchCall k ttl)
  assume "budget_ok c"
  then show ?thesis using TouchCall touch_within by (cases "live_entry c now k") (auto simp: mem_touch_def)
next
  case (DeleteCall k)
  assume "budget_ok c"
  then show ?thesis using DeleteCall shrink_within [OF _ store_take_ok shrinks_take]
    by (simp add: mem_delete_def) (simp add: budget_ok_def cache_ok_def)
next
  case (DeletePrefixCall p)
  assume "budget_ok c"
  then show ?thesis using DeletePrefixCall shrink_within [OF _ store_retain_ok shrinks_retain]
    by (simp add: mem_delete_prefix_def) (simp add: budget_ok_def cache_ok_def)
next
  case ClearCall
  assume "budget_ok c"
  then show ?thesis using ClearCall shrink_within [of c empty_store]
    by (simp add: mem_clear_def store_ok_def shrinks_def empty_store_def plain_def pins_def)
qed (auto simp: mem_get_def call_then_def mem_get_bytes_def call_ok_def mem_set_def mem_set_bytes_def mem_set_forever_def
    mem_incr_def Let_def mem_add_def mem_exists_def
    intro: bump_within cache_insert_within put_entry_within tick_within split: option.split sum.split)

lemma run_within: "budget_ok c \<Longrightarrow> budget_ok (mem_run h c)"
  by (rule mem_run_induct) (simp_all add: do_within)

lemma empty_within: "ic_store c = empty_store \<Longrightarrow> budget_ok c"
  by (simp add: budget_ok_def cache_ok_def store_ok_def within_budget_def over_def empty_store_def plain_def pins_def)

section \<open>What a write leaves behind\<close>

lemma map_of_put_entry_same:
  assumes "cache_ok c" "pinned \<Longrightarrow> expires_at = None" "case expires_at of None \<Rightarrow> True | Some t \<Rightarrow> now \<le> t"
  shows "map_of (st_map (ic_store (put_entry key value expires_at pinned now c))) key =
    Some \<lparr>ce_value = value, ce_expires_at = expires_at, ce_last_used = ic_tick c,
      ce_size = length key + length value, ce_pinned = pinned\<rparr>"
proof -
  let ?e = "\<lparr>ce_value = value, ce_expires_at = expires_at, ce_last_used = ic_tick c,
      ce_size = length key + length value, ce_pinned = pinned\<rparr>"
  have "store_ok (store_put key ?e (ic_store c))"
    using assms by (intro store_put_ok) (auto simp: cache_ok_def entry_ok_def)
  from evict_locked_keeps [OF this, of key ?e now key c] assms(3) show ?thesis
    by (simp add: put_entry_def Let_def map_of_put is_expired_def split: option.splits)
qed

lemma resolve_ttl_later: "resolve_ttl c ttl now = Some t \<Longrightarrow> now \<le> t"
  by (auto simp: resolve_ttl_def)

lemma get_live:
  "map_of (st_map (ic_store c)) key = Some e \<Longrightarrow> \<not> is_expired now e \<Longrightarrow> is_utf8 (ce_value e) \<Longrightarrow>
   snd (mem_get key now c) = Inr (Some (ce_value e))"
  by (simp add: mem_get_def call_then_def mem_get_bytes_def live_entry_def call_ok_def)

text \<open>A pinned entry outlives everything but a write, a delete or a clear of its own.\<close>

fun spares :: "string \<Rightarrow> mem_call \<Rightarrow> bool" where
  "spares key (SetCall k v ttl) = (k \<noteq> key)"
| "spares key (SetBytesCall k v ttl) = (k \<noteq> key)"
| "spares key (SetForeverCall k v) = (k \<noteq> key)"
| "spares key (IncrCall k n ttl) = (k \<noteq> key)"
| "spares key (AddCall k v ttl) = (k \<noteq> key)"
| "spares key (TouchCall k ttl) = (k \<noteq> key)"
| "spares key (DeleteCall k) = (k \<noteq> key)"
| "spares key ClearCall = False"
| "spares key (DeletePrefixCall p) = (\<not> starts_with key p)"
| "spares key call = True"

definition pinned_as :: "string \<Rightarrow> string \<Rightarrow> in_memory_cache \<Rightarrow> bool" where
  "pinned_as key value c \<longleftrightarrow>
     (case map_of (st_map (ic_store c)) key of None \<Rightarrow> False | Some e \<Rightarrow> ce_pinned e \<and> ce_value e = value)"

lemma pinned_not_expired: "store_ok s \<Longrightarrow> map_of (st_map s) key = Some e \<Longrightarrow> ce_pinned e \<Longrightarrow> \<not> is_expired now e"
  using store_ok_entry(1) by (auto simp: entry_ok_def is_expired_def)

lemma pinned_evict:
  assumes "store_ok s" "map_of (st_map s) key = Some e" "ce_pinned e"
  shows "map_of (st_map (evict_locked c now newest s)) key = Some e"
  using assms by (intro evict_locked_keeps pinned_not_expired) simp_all

lemma pinned_put_entry:
  assumes ok: "cache_ok c" and p: "pinned \<Longrightarrow> expires_at = None" and ne: "k \<noteq> key" and h: "pinned_as key v c"
  shows "pinned_as key v (put_entry k value expires_at pinned now c)"
proof -
  let ?e = "\<lparr>ce_value = value, ce_expires_at = expires_at, ce_last_used = ic_tick c,
      ce_size = length k + length value, ce_pinned = pinned\<rparr>"
  obtain e where e: "map_of (st_map (ic_store c)) key = Some e" "ce_pinned e" "ce_value e = v"
    using h by (auto simp: pinned_as_def split: option.splits)
  have "store_ok (store_put k ?e (ic_store c))"
    using ok p by (intro store_put_ok) (auto simp: cache_ok_def entry_ok_def)
  from pinned_evict [OF this, of key e] e ne show ?thesis
    by (simp add: pinned_as_def put_entry_def Let_def map_of_put)
qed

lemma pinned_insert:
  "cache_ok c \<Longrightarrow> (pinned \<Longrightarrow> expires_at = None) \<Longrightarrow> k \<noteq> key \<Longrightarrow> pinned_as key v c \<Longrightarrow>
   pinned_as key v (cache_insert k value expires_at pinned now c)"
  unfolding cache_insert_def by (rule pinned_put_entry) auto

lemma pinned_bump: "pinned_as key v c \<Longrightarrow> pinned_as key v (bump k c)"
  by (auto simp: pinned_as_def map_of_bump split: option.splits)

lemma pinned_touch:
  assumes ok: "cache_ok c" and ne: "k \<noteq> key" and h: "pinned_as key v c" and t: "live_entry c now k = Some e"
  shows "pinned_as key v (fst (mem_touch k ttl now c))"
proof -
  let ?e = "e\<lparr>ce_expires_at := resolve_ttl c ttl now, ce_last_used := ic_tick c, ce_pinned := (ce_pinned e \<and> resolve_ttl c ttl now = None)\<rparr>"
  obtain f where f: "map_of (st_map (ic_store c)) key = Some f" "ce_pinned f" "ce_value f = v"
    using h by (auto simp: pinned_as_def split: option.splits)
  have sok: "store_ok (ic_store c)" using ok by (simp add: cache_ok_def)
  have "map_of (st_map (ic_store c)) k = Some e" using t by (auto simp: live_entry_def split: option.splits if_splits)
  then have "entry_ok k ?e" using store_ok_entry(1) [OF sok] by (simp add: entry_ok_def)
  then have "store_ok (store_put k ?e (store_take k (ic_store c)))" by (intro store_put_ok store_take_ok sok)
  from pinned_evict [OF this, of key f] f ne t show ?thesis
    by (simp add: pinned_as_def mem_touch_def Let_def map_of_put map_of_take)
qed

lemma pinned_do:
  assumes ok: "cache_ok c" and h: "pinned_as key v c" and s: "spares key call"
  shows "pinned_as key v (mem_do call now c)"
proof (cases call)
  case (TouchCall k ttl)
  then show ?thesis using pinned_touch [OF ok _ h] h s by (cases "live_entry c now k") (auto simp: mem_touch_def)
next
  case (DeleteCall k)
  then show ?thesis using h s by (auto simp: mem_delete_def pinned_as_def map_of_take)
next
  case (DeletePrefixCall p)
  have "distinct (map fst (st_map (ic_store c)))" using ok by (simp add: cache_ok_def store_ok_def)
  then have "map_of (st_map (store_retain (\<lambda>k _. \<not> starts_with k p) (ic_store c))) key = map_of (st_map (ic_store c)) key"
    using DeletePrefixCall s by (simp add: map_of_retain split: option.split)
  then show ?thesis using DeletePrefixCall h by (simp add: mem_delete_prefix_def pinned_as_def)
next
  case (IncrCall k n ttl)
  have "pinned_as key v (c\<lparr>ic_tick := t\<rparr>)" for t using h by (simp add: pinned_as_def)
  then show ?thesis using IncrCall pinned_put_entry [OF ok, of False] h s
    by (simp add: mem_incr_def Let_def split: sum.split)
next
  case (GetCall k)
  then show ?thesis using pinned_bump [OF h] h
    by (simp add: mem_get_def call_then_def mem_get_bytes_def call_ok_def split: option.split)
next
  case (GetBytesCall k)
  then show ?thesis using pinned_bump [OF h] h by (simp add: mem_get_bytes_def split: option.split)
next
  case (SetCall k v' ttl)
  then show ?thesis using pinned_insert [OF ok, of False] h s
    by (simp add: mem_set_def call_then_def call_ok_def mem_set_bytes_def split: sum.split)
next
  case (SetBytesCall k v' ttl)
  then show ?thesis using pinned_insert [OF ok, of False] h s by (simp add: mem_set_bytes_def)
next
  case (SetForeverCall k v')
  then show ?thesis using pinned_insert [OF ok, of True None] h s
    by (simp add: mem_set_forever_def call_then_def call_ok_def split: sum.split)
next
  case (AddCall k v' ttl)
  then show ?thesis using pinned_put_entry [OF ok, of False] h s
    by (simp add: mem_add_def call_then_def call_ok_def split: sum.split)
qed (use h s in \<open>simp_all add: mem_exists_def\<close>)

lemma pinned_run:
  "cache_ok c \<Longrightarrow> pinned_as key v c \<Longrightarrow> \<forall>(now, call) \<in> set h. spares key call \<Longrightarrow> pinned_as key v (mem_run h c)"
proof -
  assume a: "cache_ok c" "pinned_as key v c" "\<forall>(now, call) \<in> set h. spares key call"
  have "cache_ok (mem_run h c) \<and> pinned_as key v (mem_run h c)"
  proof (rule mem_run_induct)
    fix call now c
    assume "cache_ok c \<and> pinned_as key v c" "(now, call) \<in> set h"
    then show "cache_ok (mem_do call now c) \<and> pinned_as key v (mem_do call now c)"
      using a(3) by (blast intro: do_cache_ok pinned_do)
  qed (use a in simp)
  then show "pinned_as key v (mem_run h c)" by simp
qed

end
