(* ===== verification/Cache_Contract.thy ===== *)
theory Cache_Contract
  imports Cache_Correct
begin

text \<open>
  What the counters built on the trait \<open>Cache\<close> rely on: an atomic map from keys to text with an expiry, for a cache
  that neither fails nor evicts. The trait leaves open whether \<open>incr\<close> restarts the expiry of a live counter, so the
  locale does too. The in-memory cache keeps the contract while it has no budgets (\<open>with_max_bytes(0)\<close>,
  \<open>with_max_entries(0)\<close>) and holds text.
\<close>

section \<open>Entries with an expiry\<close>

type_synonym cache_view = "string \<Rightarrow> (string \<times> nat option) option"

definition live_at :: "nat \<Rightarrow> (string \<times> nat option) option \<Rightarrow> string option" where
  "live_at now e =
     (case e of
        None \<Rightarrow> None
      | Some (v, d) \<Rightarrow> (case d of None \<Rightarrow> Some v | Some t \<Rightarrow> if now > t then None else Some v))"

definition count_at :: "nat \<Rightarrow> (string \<times> nat option) option \<Rightarrow> int" where
  "count_at now e = (case Option.bind (live_at now e) counter_value of None \<Rightarrow> 0 | Some n \<Rightarrow> n)"

definition is_text :: "string \<Rightarrow> bool" where
  "is_text v \<longleftrightarrow> is_utf8 v \<and> CHR 0x00 \<notin> set v"

lemma live_at_simps [simp]:
  "live_at now None = None" "live_at now (Some (v, None)) = Some v"
  "live_at now (Some (v, Some t)) = (if now > t then None else Some v)"
  by (simp_all add: live_at_def)

lemma count_at_simps [simp]:
  "count_at now None = 0"
  "i64_range n \<Longrightarrow> count_at now (Some (show_int n, Some t)) = (if now > t then 0 else n)"
  by (simp_all add: count_at_def)

lemma is_text_show_int [simp]: "is_text (show_int n)"
proof -
  have "CHR 0x00 \<notin> set (show_nat m)" for m
    using show_nat_digits [of m] by (auto simp: list_all_iff is_ascii_digit_def)
  then have "CHR 0x00 \<notin> set (show_int n)" by (simp add: show_int_def)
  then show ?thesis by (simp add: is_text_def is_utf8_show_int)
qed

text \<open>Whether \<open>incr\<close> kept the expiry of a live entry or started a new one.\<close>

definition expiry_after_incr :: "nat \<Rightarrow> nat \<Rightarrow> (string \<times> nat option) option \<Rightarrow> nat option \<Rightarrow> bool" where
  "expiry_after_incr now fresh old d \<longleftrightarrow>
     d = Some fresh \<or> (live_at now old \<noteq> None \<and> d = snd (the old))"

locale counter_cache =
  fixes api :: "'c cache_api"
    and ok :: "'c \<Rightarrow> bool"
    and entry :: "'c \<Rightarrow> cache_view"
    and limit :: nat
  assumes get_law: "ok c \<Longrightarrow>
      \<exists>c'. ca_get api k now c = (c', Inr (live_at now (entry c k))) \<and> ok c' \<and> entry c' = entry c"
    and exists_law: "ok c \<Longrightarrow>
      \<exists>c'. ca_exists api k now c = (c', Inr (live_at now (entry c k) \<noteq> None)) \<and> ok c' \<and> entry c' = entry c"
    and set_law: "ok c \<Longrightarrow> is_text v \<Longrightarrow>
      \<exists>c'. ca_set api k v (Some t) now c = (c', Inr ()) \<and> ok c' \<and> entry c' = (entry c)(k \<mapsto> (v, Some (now + min t limit)))"
    and delete_law: "ok c \<Longrightarrow>
      \<exists>c'. ca_delete api k now c = (c', Inr ()) \<and> ok c' \<and> entry c' = (entry c)(k := None)"
    and add_law: "ok c \<Longrightarrow> is_text v \<Longrightarrow>
      \<exists>c'. ca_add api k v (Some t) now c = (c', Inr (live_at now (entry c k) = None)) \<and> ok c' \<and>
        entry c' = (if live_at now (entry c k) = None then (entry c)(k \<mapsto> (v, Some (now + min t limit))) else entry c)"
    and incr_law: "ok c \<Longrightarrow> checked_add (count_at now (entry c k)) n = Inr m \<Longrightarrow>
      \<exists>c' d. ca_incr api k n (Some t) now c = (c', Inr m) \<and> ok c' \<and>
        expiry_after_incr now (now + min t limit) (entry c k) d \<and> entry c' = (entry c)(k \<mapsto> (show_int m, d))"
    and incr_overflow_law: "ok c \<Longrightarrow> checked_add (count_at now (entry c k)) n = Inl e \<Longrightarrow>
      \<exists>c'. ca_incr api k n (Some t) now c = (c', Inl e) \<and> ok c' \<and> entry c' = entry c"

section \<open>The in-memory cache without budgets\<close>

definition mem_entry :: "in_memory_cache \<Rightarrow> cache_view" where
  "mem_entry c k = map_option (\<lambda>e. (ce_value e, ce_expires_at e)) (map_of (st_map (ic_store c)) k)"

definition unbounded :: "in_memory_cache \<Rightarrow> bool" where
  "unbounded c \<longleftrightarrow> ic_max_bytes c = 0 \<and> ic_max_entries c = 0 \<and> list_all (\<lambda>(k, e). is_utf8 (ce_value e)) (st_map (ic_store c))"

lemma empty_unbounded:
  "ic_store c = empty_store \<Longrightarrow> ic_max_bytes c = 0 \<Longrightarrow> ic_max_entries c = 0 \<Longrightarrow> unbounded c \<and> mem_entry c = (\<lambda>_. None)"
  by (simp add: unbounded_def empty_store_def mem_entry_def fun_eq_iff)

lemma live_entry_view: "live_at now (mem_entry c k) = map_option ce_value (live_entry c now k)"
  by (auto simp: live_at_def mem_entry_def live_entry_def is_expired_def split: option.split)

lemma unbounded_evict: "unbounded c \<Longrightarrow> evict_locked c now k s = s"
  by (simp add: unbounded_def evict_locked_def over_def)

lemma store_put_utf8:
  "list_all (\<lambda>(k, e). is_utf8 (ce_value e)) (st_map s) \<Longrightarrow> is_utf8 (ce_value e) \<Longrightarrow>
   list_all (\<lambda>(k, e). is_utf8 (ce_value e)) (st_map (store_put k e s))"
  by (auto simp: list_all_iff store_put_def Let_def store_take_map without_key_def)

lemma put_entry_unbounded:
  assumes "unbounded c" "is_utf8 v"
  shows "unbounded (put_entry k v d p now c)"
    and "mem_entry (put_entry k v d p now c) = (mem_entry c)(k \<mapsto> (v, d))"
  using assms store_put_utf8 [of "ic_store c"]
  by (auto simp: put_entry_def Let_def unbounded_evict mem_entry_def map_of_put fun_eq_iff) (simp add: unbounded_def)

lemma bump_unbounded:
  assumes "unbounded c"
  shows "unbounded (bump k c)" "mem_entry (bump k c) = mem_entry c"
proof -
  have "list_all (\<lambda>(k, e). is_utf8 (ce_value e)) (map (\<lambda>(k', e). (k', if k' = k then e\<lparr>ce_last_used := t\<rparr> else e)) m) =
      list_all (\<lambda>(k, e). is_utf8 (ce_value e)) m" for t m
    by (induction m) (auto split: if_splits)
  from this [of "ic_tick c" "st_map (ic_store c)"] show "unbounded (bump k c)"
    using assms by (simp add: unbounded_def bump_def)
  show "mem_entry (bump k c) = mem_entry c"
    by (auto simp: mem_entry_def map_of_bump fun_eq_iff option.map_comp comp_def intro: option.map_cong)
qed

lemma live_entry_utf8: "unbounded c \<Longrightarrow> live_entry c now k = Some e \<Longrightarrow> is_utf8 (ce_value e)"
  by (auto simp: unbounded_def live_entry_def list_all_iff split: option.splits if_splits dest: map_of_SomeD)

lemma resolve_some: "resolve_ttl c (Some t) now = Some (now + min t far_future)"
  by (simp add: resolve_ttl_def)

lemma mem_incr_current:
  assumes "unbounded c"
  shows "(case live_entry c now k of
      None \<Rightarrow> 0
    | Some e \<Rightarrow> (case (if is_utf8 (ce_value e) then counter_value (ce_value e) else None) of None \<Rightarrow> 0 | Some n \<Rightarrow> n)) =
    count_at now (mem_entry c k)"
  using live_entry_utf8 [OF assms] by (simp add: count_at_def live_entry_view split: option.split)

interpretation mem: counter_cache in_memory_api unbounded mem_entry far_future
proof
  fix c :: in_memory_cache and k v :: string and t now :: nat and n m :: int and e :: cache_error
  assume u: "unbounded c"
  show "\<exists>c'. ca_get in_memory_api k now c = (c', Inr (live_at now (mem_entry c k))) \<and> unbounded c' \<and> mem_entry c' = mem_entry c"
    using u bump_unbounded [OF u] live_entry_utf8 [OF u]
    by (simp add: in_memory_api_def mem_get_def call_then_def mem_get_bytes_def call_ok_def live_entry_view split: option.split)
  show "\<exists>c'. ca_exists in_memory_api k now c = (c', Inr (live_at now (mem_entry c k) \<noteq> None)) \<and> unbounded c' \<and> mem_entry c' = mem_entry c"
    using u by (simp add: in_memory_api_def mem_exists_def live_entry_view)
  have "map_of (st_map (store_take k (ic_store c))) = (map_of (st_map (ic_store c)))(k := None)" by (rule map_of_take)
  moreover have "list_all (\<lambda>(k, e). is_utf8 (ce_value e)) (st_map (store_take k (ic_store c)))"
    using u by (auto simp: unbounded_def list_all_iff store_take_map without_key_def)
  ultimately show "\<exists>c'. ca_delete in_memory_api k now c = (c', Inr ()) \<and> unbounded c' \<and> mem_entry c' = (mem_entry c)(k := None)"
    using u by (auto simp: in_memory_api_def mem_delete_def unbounded_def mem_entry_def fun_eq_iff)
  have plain_text: "is_text v \<Longrightarrow> is_utf8 v \<and> check_text v = Inr ()" by (simp add: is_text_def check_text_def)
  show "is_text v \<Longrightarrow> \<exists>c'. ca_set in_memory_api k v (Some t) now c = (c', Inr ()) \<and> unbounded c' \<and>
      mem_entry c' = (mem_entry c)(k \<mapsto> (v, Some (now + min t far_future)))"
    using put_entry_unbounded [OF u] plain_text
    by (simp add: in_memory_api_def mem_set_def call_then_def call_ok_def mem_set_bytes_def cache_insert_def resolve_some)
  show "is_text v \<Longrightarrow> \<exists>c'. ca_add in_memory_api k v (Some t) now c = (c', Inr (live_at now (mem_entry c k) = None)) \<and> unbounded c' \<and>
      mem_entry c' = (if live_at now (mem_entry c k) = None then (mem_entry c)(k \<mapsto> (v, Some (now + min t far_future))) else mem_entry c)"
    using put_entry_unbounded [OF u] plain_text u
    by (auto simp: in_memory_api_def mem_add_def call_then_def call_ok_def resolve_some live_entry_view)
  show "checked_add (count_at now (mem_entry c k)) n = Inr m \<Longrightarrow>
      \<exists>c' d. ca_incr in_memory_api k n (Some t) now c = (c', Inr m) \<and> unbounded c' \<and>
        expiry_after_incr now (now + min t far_future) (mem_entry c k) d \<and> mem_entry c' = (mem_entry c)(k \<mapsto> (show_int m, d))"
    using put_entry_unbounded [OF u is_utf8_show_int]
    by (auto simp: in_memory_api_def mem_incr_def Let_def mem_incr_current [OF u] resolve_some expiry_after_incr_def
        split: option.split)
  show "checked_add (count_at now (mem_entry c k)) n = Inl e \<Longrightarrow>
      \<exists>c'. ca_incr in_memory_api k n (Some t) now c = (c', Inl e) \<and> unbounded c' \<and> mem_entry c' = mem_entry c"
    using u by (auto simp: in_memory_api_def mem_incr_def Let_def mem_incr_current [OF u] unbounded_def mem_entry_def)
qed

end
