(* ===== verification/Cache_Program.thy ===== *)
theory Cache_Program
  imports Cache_Contract
begin

text \<open>
  Code that awaits a cache between its steps, as a program: a tree of cache calls and clock readings. An operation
  written once as a program runs alone (\<open>run_prog\<close>, all its calls at one instant) or among others: in a pool, any
  thread may take the next step, the clock may move on, and other clients may change other keys. The locale
  \<open>slot_protocol\<close> is the argument shared by the protocols that count slots in one key.
\<close>

section \<open>Programs\<close>

datatype 'a prog =
    Return 'a
  | Clock "nat \<Rightarrow> 'a prog"
  | Get string "cache_error + string option \<Rightarrow> 'a prog"
  | Put string string "nat option" "cache_error + unit \<Rightarrow> 'a prog"
  | Del string "cache_error + unit \<Rightarrow> 'a prog"
  | Exists string "cache_error + bool \<Rightarrow> 'a prog"
  | Incr string int "nat option" "cache_error + int \<Rightarrow> 'a prog"
  | AddNew string string "nat option" "cache_error + bool \<Rightarrow> 'a prog"

primrec bind_prog :: "'a prog \<Rightarrow> ('a \<Rightarrow> 'b prog) \<Rightarrow> 'b prog" where
  "bind_prog (Return a) g = g a"
| "bind_prog (Clock f) g = Clock (\<lambda>x. bind_prog (f x) g)"
| "bind_prog (Get k f) g = Get k (\<lambda>x. bind_prog (f x) g)"
| "bind_prog (Put k v t f) g = Put k v t (\<lambda>x. bind_prog (f x) g)"
| "bind_prog (Del k f) g = Del k (\<lambda>x. bind_prog (f x) g)"
| "bind_prog (Exists k f) g = Exists k (\<lambda>x. bind_prog (f x) g)"
| "bind_prog (Incr k n t f) g = Incr k n t (\<lambda>x. bind_prog (f x) g)"
| "bind_prog (AddNew k v t f) g = AddNew k v t (\<lambda>x. bind_prog (f x) g)"

lemma bind_prog_if [simp]: "bind_prog (if b then p else q) g = (if b then bind_prog p g else bind_prog q g)"
  by simp

lemma bind_prog_sum [simp]:
  "bind_prog (case r of Inl e \<Rightarrow> p e | Inr x \<Rightarrow> q x) g = (case r of Inl e \<Rightarrow> bind_prog (p e) g | Inr x \<Rightarrow> bind_prog (q x) g)"
  by (simp split: sum.split)

lemma bind_prog_option [simp]:
  "bind_prog (case r of None \<Rightarrow> p | Some x \<Rightarrow> q x) g = (case r of None \<Rightarrow> bind_prog p g | Some x \<Rightarrow> bind_prog (q x) g)"
  by (simp split: option.split)

lemma bind_prog_assoc [simp]: "bind_prog (bind_prog p f) g = bind_prog p (\<lambda>x. bind_prog (f x) g)"
  by (induction p) simp_all

text \<open>\<open>Cache::decr\<close>: an \<open>incr\<close> by the negated amount.\<close>

definition Decr :: "string \<Rightarrow> int \<Rightarrow> nat option \<Rightarrow> (cache_error + int \<Rightarrow> 'a prog) \<Rightarrow> 'a prog" where
  "Decr k n t f = (if i64_range (- n) then Incr k (- n) t f else f (Inl IncrOverflow))"

lemma Decr_one [simp]: "Decr k 1 t f = Incr k (- 1) t f"
  by (simp add: Decr_def i64_range_def)

text \<open>\<open>u32::try_from(n).unwrap_or(u32::MAX)\<close>.\<close>

definition to_u32 :: "int \<Rightarrow> nat" where
  "to_u32 n = (if 0 \<le> n \<and> n < 2 ^ 32 then nat n else 2 ^ 32 - 1)"

section \<open>Running alone\<close>

primrec run_prog :: "'a prog \<Rightarrow> 'c cache_api \<Rightarrow> nat \<Rightarrow> 'c \<Rightarrow> 'c \<times> 'a" where
  "run_prog (Return a) = (\<lambda>api now c. (c, a))"
| "run_prog (Clock f) = (\<lambda>api now c. run_prog (f now) api now c)"
| "run_prog (Get k f) = (\<lambda>api now c. case ca_get api k now c of (c', r) \<Rightarrow> run_prog (f r) api now c')"
| "run_prog (Put k v t f) = (\<lambda>api now c. case ca_set api k v t now c of (c', r) \<Rightarrow> run_prog (f r) api now c')"
| "run_prog (Del k f) = (\<lambda>api now c. case ca_delete api k now c of (c', r) \<Rightarrow> run_prog (f r) api now c')"
| "run_prog (Exists k f) = (\<lambda>api now c. case ca_exists api k now c of (c', r) \<Rightarrow> run_prog (f r) api now c')"
| "run_prog (Incr k n t f) = (\<lambda>api now c. case ca_incr api k n t now c of (c', r) \<Rightarrow> run_prog (f r) api now c')"
| "run_prog (AddNew k v t f) = (\<lambda>api now c. case ca_add api k v t now c of (c', r) \<Rightarrow> run_prog (f r) api now c')"

lemma run_bind:
  "run_prog (bind_prog p g) api now c = (case run_prog p api now c of (c', a) \<Rightarrow> run_prog (g a) api now c')"
  by (induction p arbitrary: c) (simp_all split: prod.split)

text \<open>What a program leaves in a cache that keeps the contract, and what it answers.\<close>

context counter_cache
begin

definition leaves :: "nat \<Rightarrow> 'a prog \<Rightarrow> (cache_view \<Rightarrow> 'a \<Rightarrow> bool) \<Rightarrow> cache_view \<Rightarrow> bool" where
  "leaves now p Q V \<longleftrightarrow>
     (\<forall>c. ok c \<longrightarrow> entry c = V \<longrightarrow> (\<exists>c' a. run_prog p api now c = (c', a) \<and> ok c' \<and> Q (entry c') a))"

lemma leaves_return: "Q V a \<Longrightarrow> leaves now (Return a) Q V"
  by (simp add: leaves_def)

lemma leaves_clock: "leaves now (f now) Q V \<Longrightarrow> leaves now (Clock f) Q V"
  by (simp add: leaves_def)

lemma leaves_call:
  assumes run: "\<And>c. run_prog p api now c = (case call now c of (c', r) \<Rightarrow> run_prog (f r) api now c')"
    and law: "\<And>c. ok c \<Longrightarrow> entry c = V \<Longrightarrow> \<exists>c'. call now c = (c', r) \<and> ok c' \<and> entry c' = V'"
    and rest: "leaves now (f r) Q V'"
  shows "leaves now p Q V"
  unfolding leaves_def
proof (intro allI impI)
  fix c
  assume "ok c" "entry c = V"
  then obtain c' where "call now c = (c', r)" "ok c'" "entry c' = V'" using law by blast
  then show "\<exists>c' a. run_prog p api now c = (c', a) \<and> ok c' \<and> Q (entry c') a"
    using rest by (simp add: run leaves_def)
qed

lemma leaves_get: "leaves now (f (Inr (live_at now (V k)))) Q V \<Longrightarrow> leaves now (Get k f) Q V"
  by (rule leaves_call [where call = "ca_get api k" and f = f and r = "Inr (live_at now (V k))" and V' = V])
    (simp, metis get_law, assumption)

lemma leaves_exists: "leaves now (f (Inr (live_at now (V k) \<noteq> None))) Q V \<Longrightarrow> leaves now (Exists k f) Q V"
  by (rule leaves_call [where call = "ca_exists api k" and f = f and r = "Inr (live_at now (V k) \<noteq> None)" and V' = V])
    (simp, metis exists_law, assumption)

lemma leaves_put:
  "is_text v \<Longrightarrow> leaves now (f (Inr ())) Q (V(k \<mapsto> (v, Some (now + min t limit)))) \<Longrightarrow> leaves now (Put k v (Some t) f) Q V"
  by (rule leaves_call [where call = "ca_set api k v (Some t)" and f = f and r = "Inr ()" and V' = "V(k \<mapsto> (v, Some (now + min t limit)))"])
    (simp, metis set_law, assumption)

lemma leaves_del: "leaves now (f (Inr ())) Q (V(k := None)) \<Longrightarrow> leaves now (Del k f) Q V"
  by (rule leaves_call [where call = "ca_delete api k" and f = f and r = "Inr ()" and V' = "V(k := None)"])
    (simp, metis delete_law, assumption)

lemma leaves_add:
  assumes "is_text v" "live_at now (V k) = None" "leaves now (f (Inr True)) Q (V(k \<mapsto> (v, Some (now + min t limit))))"
  shows "leaves now (AddNew k v (Some t) f) Q V"
proof (rule leaves_call [where call = "ca_add api k v (Some t)" and f = f and r = "Inr True"])
  fix c
  assume "ok c" "entry c = V"
  then show "\<exists>c'. ca_add api k v (Some t) now c = (c', Inr True) \<and> ok c' \<and> entry c' = V(k \<mapsto> (v, Some (now + min t limit)))"
    using add_law [OF _ assms(1), of c k t now] assms(2) by simp
qed (simp_all add: assms(3))

lemma leaves_incr:
  assumes "checked_add (count_at now (V k)) n = Inr m"
    and "\<And>d. expiry_after_incr now (now + min t limit) (V k) d \<Longrightarrow> leaves now (f (Inr m)) Q (V(k \<mapsto> (show_int m, d)))"
  shows "leaves now (Incr k n (Some t) f) Q V"
  unfolding leaves_def
proof (intro allI impI)
  fix c
  assume c: "ok c" "entry c = V"
  obtain c' d where c': "ca_incr api k n (Some t) now c = (c', Inr m)" "ok c'"
      "expiry_after_incr now (now + min t limit) (V k) d" "entry c' = V(k \<mapsto> (show_int m, d))"
    using incr_law [OF c(1), of now k n m t] assms(1) c(2) by auto
  then show "\<exists>c' a. run_prog (Incr k n (Some t) f) api now c = (c', a) \<and> ok c' \<and> Q (entry c') a"
    using assms(2) [OF c'(3)] by (simp add: leaves_def)
qed

lemma leaves_bind: "leaves now p (\<lambda>V' a. leaves now (g a) Q V') V \<Longrightarrow> leaves now (bind_prog p g) Q V"
  unfolding leaves_def by (simp add: run_bind split: prod.split) (metis prod.inject)

lemma leaves_mono: "leaves now p Q V \<Longrightarrow> (\<And>V' a. Q V' a \<Longrightarrow> R V' a) \<Longrightarrow> leaves now p R V"
  unfolding leaves_def by (intro allI impI) blast

end

section \<open>Running among others\<close>

fun prog_step :: "'c cache_api \<Rightarrow> nat \<Rightarrow> 'c \<Rightarrow> 'a prog \<Rightarrow> 'c \<times> 'a prog" where
  "prog_step api now c (Return a) = (c, Return a)"
| "prog_step api now c (Clock f) = (c, f now)"
| "prog_step api now c (Get k f) = map_prod id f (ca_get api k now c)"
| "prog_step api now c (Put k v t f) = map_prod id f (ca_set api k v t now c)"
| "prog_step api now c (Del k f) = map_prod id f (ca_delete api k now c)"
| "prog_step api now c (Exists k f) = map_prod id f (ca_exists api k now c)"
| "prog_step api now c (Incr k n t f) = map_prod id f (ca_incr api k n t now c)"
| "prog_step api now c (AddNew k v t f) = map_prod id f (ca_add api k v t now c)"

text \<open>
  A thread asks for a slot; when the answer grants one it holds it until it reports it back. \<open>grant\<close> reads the slot
  from the answer, \<open>report\<close> is the program that gives it back.
\<close>

datatype ('r, 's) thread = Busy "'r prog" | Refused 'r | Holding 's | Reporting "unit prog" | Gone

fun thread_next ::
  "'c cache_api \<Rightarrow> ('r \<Rightarrow> 's option) \<Rightarrow> ('s \<Rightarrow> unit prog) \<Rightarrow> nat \<Rightarrow> 'c \<Rightarrow> ('r, 's) thread \<Rightarrow> 'c \<times> ('r, 's) thread" where
  "thread_next api grant report now c (Busy (Return r)) =
     (c, case grant r of None \<Rightarrow> Refused r | Some s \<Rightarrow> Holding s)"
| "thread_next api grant report now c (Busy p) = map_prod id Busy (prog_step api now c p)"
| "thread_next api grant report now c (Refused r) = (c, Refused r)"
| "thread_next api grant report now c (Holding s) = (c, Reporting (report s))"
| "thread_next api grant report now c (Reporting (Return u)) = (c, Gone)"
| "thread_next api grant report now c (Reporting p) = map_prod id Reporting (prog_step api now c p)"
| "thread_next api grant report now c Gone = (c, Gone)"

type_synonym ('c, 'r, 's) pool = "nat \<times> 'c \<times> ('r, 's) thread list"

inductive pool_step ::
  "'c cache_api \<Rightarrow> ('r \<Rightarrow> 's option) \<Rightarrow> ('s \<Rightarrow> unit prog) \<Rightarrow> ('c \<Rightarrow> 'c \<Rightarrow> bool) \<Rightarrow> ('c, 'r, 's) pool \<Rightarrow> ('c, 'r, 's) pool \<Rightarrow> bool"
  for api grant report env where
  tick: "now \<le> now' \<Longrightarrow> pool_step api grant report env (now, c, ts) (now', c, ts)"
| act: "i < length ts \<Longrightarrow> thread_next api grant report now c (ts ! i) = (c', t) \<Longrightarrow>
    pool_step api grant report env (now, c, ts) (now, c', ts[i := t])"
| other: "env c c' \<Longrightarrow> pool_step api grant report env (now, c, ts) (now, c', ts)"

definition holding :: "('r, 's) thread list \<Rightarrow> nat" where
  "holding ts = length (filter (\<lambda>t. case t of Holding s \<Rightarrow> True | _ \<Rightarrow> False) ts)"

lemma pool_now_mono: "(pool_step api grant report env)\<^sup>*\<^sup>* s s' \<Longrightarrow> fst s \<le> fst s'"
  by (induction rule: rtranclp_induct) (auto elim: pool_step.cases)

text \<open>One interleaving: the threads that step, in order, at one instant.\<close>

fun pool_run ::
  "'c cache_api \<Rightarrow> ('r \<Rightarrow> 's option) \<Rightarrow> ('s \<Rightarrow> unit prog) \<Rightarrow> nat list \<Rightarrow> ('c, 'r, 's) pool \<Rightarrow> ('c, 'r, 's) pool" where
  "pool_run api grant report [] s = s"
| "pool_run api grant report (i # sched) (now, c, ts) =
     (if i < length ts
      then case thread_next api grant report now c (ts ! i) of (c', t) \<Rightarrow> pool_run api grant report sched (now, c', ts[i := t])
      else pool_run api grant report sched (now, c, ts))"

lemma pool_run_reachable: "(pool_step api grant report env)\<^sup>*\<^sup>* s (pool_run api grant report sched s)"
proof (induction api grant report sched s rule: pool_run.induct)
  case (2 api grant report i sched now c ts)
  show ?case
  proof (cases "i < length ts")
    case True
    obtain c' t where t: "thread_next api grant report now c (ts ! i) = (c', t)" by fastforce
    have "pool_step api grant report env (now, c, ts) (now, c', ts[i := t])" by (rule act [OF True t])
    then show ?thesis using 2(1) [OF True t [symmetric]] True t by (simp add: converse_rtranclp_into_rtranclp)
  qed (use 2 in simp)
qed simp

lemma pool_run_now: "fst (pool_run api grant report sched s) = fst s"
  by (induction api grant report sched s rule: pool_run.induct) (auto split: prod.split)

section \<open>Counting slots\<close>

text \<open>The counter at a key stands at \<open>n\<close> and will not expire before \<open>deadline\<close>.\<close>

definition counter_stands :: "cache_view \<Rightarrow> string \<Rightarrow> nat \<Rightarrow> nat \<Rightarrow> bool" where
  "counter_stands view key deadline n \<longleftrightarrow>
     (case view key of
        None \<Rightarrow> n = 0
      | Some (v, d) \<Rightarrow> v = show_int (int n) \<and> (case d of None \<Rightarrow> True | Some t \<Rightarrow> deadline \<le> t))"

lemma counter_stands_count:
  "counter_stands view key deadline n \<Longrightarrow> now \<le> deadline \<Longrightarrow> int n < 2 ^ 63 \<Longrightarrow> count_at now (view key) = int n"
  by (auto simp: counter_stands_def count_at_def live_at_def i64_range_def split: option.splits)

lemma counter_stands_other: "view key = view' key \<Longrightarrow> counter_stands view key d n = counter_stands view' key d n"
  by (simp add: counter_stands_def)

text \<open>An expiry that carries a counter to its deadline, and what other clients may do: anything but touch our keys.\<close>

definition left_ok :: "nat \<Rightarrow> nat \<Rightarrow> nat \<Rightarrow> nat \<Rightarrow> bool" where
  "left_ok limit deadline now left \<longleftrightarrow> deadline \<le> now + left \<and> left \<le> limit"

definition other_keys :: "('c \<Rightarrow> bool) \<Rightarrow> ('c \<Rightarrow> cache_view) \<Rightarrow> string set \<Rightarrow> 'c \<Rightarrow> 'c \<Rightarrow> bool" where
  "other_keys ok view keys c c' \<longleftrightarrow> ok c' \<and> (\<forall>k \<in> keys. view c' k = view c k)"

lemma left_ok_later: "left_ok limit deadline now left \<Longrightarrow> now \<le> now' \<Longrightarrow> left_ok limit deadline now' left"
  by (simp add: left_ok_def)

context counter_cache
begin

lemma counter_moves:
  assumes "ok c" "counter_stands (entry c) key deadline n" "now \<le> deadline" "left_ok limit deadline now left"
    "int n < 2 ^ 63" "m = int n + d" "0 \<le> m" "m < 2 ^ 63"
  shows "\<exists>c'. ca_incr api key d (Some left) now c = (c', Inr m) \<and> ok c' \<and>
    counter_stands (entry c') key deadline (nat m) \<and> (\<forall>k. k \<noteq> key \<longrightarrow> entry c' k = entry c k)"
proof -
  have "count_at now (entry c key) = int n" by (rule counter_stands_count [OF assms(2,3,5)])
  then have "checked_add (count_at now (entry c key)) d = Inr m"
    using assms(6-8) by (simp add: checked_add_def i64_range_def)
  from incr_law [OF assms(1) this, of left] obtain c' e where c': "ca_incr api key d (Some left) now c = (c', Inr m)" "ok c'"
      "expiry_after_incr now (now + min left limit) (entry c key) e" "entry c' = (entry c)(key \<mapsto> (show_int m, e))"
    by blast
  have "case e of None \<Rightarrow> True | Some t \<Rightarrow> deadline \<le> t"
    using c'(3) assms(2,4) by (auto simp: expiry_after_incr_def counter_stands_def left_ok_def split: option.splits)
  then have "counter_stands (entry c') key deadline (nat m)" using c'(4) assms(7) by (simp add: counter_stands_def)
  then show ?thesis using c' by auto
qed

end

lemma sum_list_update_nat:
  fixes f :: "'l \<Rightarrow> nat"
  shows "i < length ls \<Longrightarrow> sum_list (map f (ls[i := l])) + f (ls ! i) = sum_list (map f ls) + f l"
proof (induction ls arbitrary: i)
  case (Cons x ls)
  then show ?case by (cases i) fastforce+
qed simp

lemma sum_list_nth_le:
  fixes f :: "'l \<Rightarrow> nat"
  shows "i < length ls \<Longrightarrow> f (ls ! i) \<le> sum_list (map f ls)"
  using elem_le_sum_list [of i "map f ls"] by simp

text \<open>
  A label says where a thread stands in the protocol: whether the shared state counts it, and whether it is admitted.
  \<open>stands c n\<close> says that the cache counts \<open>n\<close> slots; a step moves the count with the label, and admits only under the cap.
\<close>

locale slot_protocol =
  fixes api :: "'c cache_api"
    and grant :: "'r \<Rightarrow> 's option"
    and report :: "'s \<Rightarrow> unit prog"
    and env :: "'c \<Rightarrow> 'c \<Rightarrow> bool"
    and ok :: "'c \<Rightarrow> bool"
    and stands :: "'c \<Rightarrow> nat \<Rightarrow> bool"
    and deadline cap :: nat
    and thread_of :: "'l \<Rightarrow> ('r, 's) thread"
    and counted admitted :: "'l \<Rightarrow> nat"
    and timely :: "nat \<Rightarrow> 'l \<Rightarrow> bool"
  assumes thread_law:
      "ok c \<Longrightarrow> now \<le> deadline \<Longrightarrow> stands c n \<Longrightarrow> int n + 1 < 2 ^ 63 \<Longrightarrow> counted l \<le> n \<Longrightarrow>
       timely now l \<Longrightarrow> thread_next api grant report now c (thread_of l) = (c', t) \<Longrightarrow>
       \<exists>l' n'. t = thread_of l' \<and> ok c' \<and> timely now l' \<and> stands c' n' \<and>
         n' + counted l = n + counted l' \<and> (admitted l' \<le> admitted l \<or> n' \<le> cap)"
    and env_law: "env c c' \<Longrightarrow> ok c \<Longrightarrow> ok c' \<and> (stands c n \<longrightarrow> stands c' n)"
    and timely_law: "timely now l \<Longrightarrow> now \<le> now' \<Longrightarrow> timely now' l"
    and label_law: "admitted l \<le> counted l" "counted l \<le> 1"
    and holding_law: "thread_of l = Holding s \<Longrightarrow> admitted l = 1"
begin

definition slots_inv :: "('c, 'r, 's) pool \<Rightarrow> bool" where
  "slots_inv s = (case s of (now, c, ts) \<Rightarrow> ok c \<and>
     (\<exists>ls. ts = map thread_of ls \<and> (\<forall>l \<in> set ls. timely now l) \<and>
       stands c (sum_list (map counted ls)) \<and> sum_list (map admitted ls) \<le> cap))"

lemma counted_le_length: "sum_list (map counted ls) \<le> length ls"
proof (induction ls)
  case (Cons l ls)
  then show ?case using label_law(2) [of l] by simp
qed simp

lemma act_keeps:
  assumes inv: "slots_inv (now, c, ts)" and i: "i < length ts" and "int (length ts) + 1 < 2 ^ 63" "now \<le> deadline"
    and step: "thread_next api grant report now c (ts ! i) = (c', t)"
  shows "slots_inv (now, c', ts[i := t])"
proof -
  obtain ls where ls: "ts = map thread_of ls" "\<forall>l \<in> set ls. timely now l" "ok c"
      "stands c (sum_list (map counted ls))" "sum_list (map admitted ls) \<le> cap"
    using inv by (auto simp: slots_inv_def)
  have len: "i < length ls" using i ls(1) by simp
  have n: "int (sum_list (map counted ls)) + 1 < 2 ^ 63"
    using assms(3) counted_le_length [of ls] ls(1) by simp
  have tl: "timely now (ls ! i)" using ls(2) len by simp
  have st: "thread_next api grant report now c (thread_of (ls ! i)) = (c', t)" using step ls(1) len by simp
  obtain l' n' where l': "t = thread_of l'" "ok c'" "timely now l'" "stands c' n'"
      "n' + counted (ls ! i) = sum_list (map counted ls) + counted l'" "admitted l' \<le> admitted (ls ! i) \<or> n' \<le> cap"
    using thread_law [OF ls(3) assms(4) ls(4) n sum_list_nth_le [OF len] tl st] by blast
  let ?ls = "ls[i := l']"
  have n': "n' = sum_list (map counted ?ls)" using l'(5) sum_list_update_nat [OF len, of counted l'] by simp
  have "sum_list (map admitted ?ls) \<le> sum_list (map counted ?ls)" by (intro sum_list_mono label_law)
  then have "sum_list (map admitted ?ls) \<le> cap"
    using l'(6) n' ls(5) sum_list_update_nat [OF len, of admitted l'] by linarith
  moreover have "\<forall>l \<in> set ?ls. timely now l" using ls(2) l'(3) set_update_subset_insert by fastforce
  ultimately show ?thesis
    using l' n' ls(1) by (auto simp: slots_inv_def map_update intro!: exI [of _ ?ls])
qed

lemma step_keeps:
  assumes "pool_step api grant report env (now, c, ts) (now', c', ts')" "slots_inv (now, c, ts)"
    "int (length ts) + 1 < 2 ^ 63" "now \<le> deadline"
  shows "slots_inv (now', c', ts') \<and> length ts' = length ts"
  using assms(1)
proof (cases rule: pool_step.cases)
  case tick
  moreover obtain ls where "ts = map thread_of ls" "\<forall>l \<in> set ls. timely now l" "ok c"
      "stands c (sum_list (map counted ls))" "sum_list (map admitted ls) \<le> cap"
    using assms(2) by (auto simp: slots_inv_def)
  ultimately show ?thesis using timely_law by (auto simp: slots_inv_def intro!: exI [of _ ls])
next
  case (act i t)
  then show ?thesis using act_keeps [OF assms(2) _ assms(3,4)] by simp
next
  case other
  then show ?thesis using assms(2) env_law by (auto simp: slots_inv_def)
qed

lemma reachable_keeps:
  assumes "(pool_step api grant report env)\<^sup>*\<^sup>* s s'" "slots_inv s" "int (length (snd (snd s))) + 1 < 2 ^ 63" "fst s' \<le> deadline"
  shows "slots_inv s' \<and> length (snd (snd s')) = length (snd (snd s))"
  using assms
proof (induction rule: rtranclp_induct)
  case (step y z)
  obtain now c ts now' c' ts' where s: "y = (now, c, ts)" "z = (now', c', ts')" by (metis prod_cases3)
  have "now \<le> now'" using step(2) unfolding s by (cases rule: pool_step.cases) simp_all
  then show ?case using step s step_keeps [of now c ts now' c' ts'] by simp
qed simp

lemma holding_le: "holding (map thread_of ls) \<le> sum_list (map admitted ls)"
proof (induction ls)
  case (Cons l ls)
  then show ?case using holding_law [of l] by (cases "thread_of l") (auto simp: holding_def)
qed (simp add: holding_def)

lemma slots_bounded:
  assumes "(pool_step api grant report env)\<^sup>*\<^sup>* s (now', c', ts')" "slots_inv s" "int (length (snd (snd s))) + 1 < 2 ^ 63"
    "now' \<le> deadline"
  shows "holding ts' \<le> cap"
proof -
  have "slots_inv (now', c', ts')" using reachable_keeps [OF assms(1-3)] assms(4) by simp
  then obtain ls where "ts' = map thread_of ls" "sum_list (map admitted ls) \<le> cap" by (auto simp: slots_inv_def)
  then show ?thesis using holding_le [of ls] by simp
qed

lemma fresh_pool:
  assumes "ok c" "stands c 0" "\<And>l. l \<in> set ls \<Longrightarrow> counted l = 0 \<and> timely now l"
  shows "slots_inv (now, c, map thread_of ls)"
proof -
  have z: "sum_list (map counted ls) = 0" using assms(3) by (induction ls) auto
  moreover have "sum_list (map admitted ls) \<le> sum_list (map counted ls)" by (intro sum_list_mono label_law)
  ultimately have "sum_list (map admitted ls) \<le> cap" by linarith
  moreover have "stands c (sum_list (map counted ls))" unfolding z by (rule assms(2))
  ultimately show ?thesis using assms by (auto simp: slots_inv_def intro!: exI [of _ ls])
qed

end

end
