(* ===== verification/Lockout.thy ===== *)
theory Lockout
  imports Cache_Program
begin

text \<open>
  Per-account login lockout, \<open>crates/rustango/src/account_lockout.rs\<close>. Every operation is a program over the cache, in
  the order the source awaits its calls; a log line is not modelled. A duration is a number of microseconds.
\<close>

section \<open>Configuration and keys\<close>

record lockout =
  lo_max_attempts :: nat
  lo_lockout_duration :: nat
  lo_counter_ttl :: nat
  lo_key_prefix :: string

definition lockout_new :: lockout where
  "lockout_new = \<lparr>lo_max_attempts = 5, lo_lockout_duration = 900 * 1000000, lo_counter_ttl = 3600 * 1000000, lo_key_prefix = ''lockout:''\<rparr>"

definition max_attempts :: "nat \<Rightarrow> lockout \<Rightarrow> lockout" where
  "max_attempts n l = l\<lparr>lo_max_attempts := max n 1\<rparr>"

definition lockout_duration :: "nat \<Rightarrow> lockout \<Rightarrow> lockout" where
  "lockout_duration d l = l\<lparr>lo_lockout_duration := d\<rparr>"

definition counter_ttl :: "nat \<Rightarrow> lockout \<Rightarrow> lockout" where
  "counter_ttl d l = l\<lparr>lo_counter_ttl := d\<rparr>"

definition key_prefix :: "string \<Rightarrow> lockout \<Rightarrow> lockout" where
  "key_prefix p l = l\<lparr>lo_key_prefix := p\<rparr>"

definition window_counter_key :: "lockout \<Rightarrow> string \<Rightarrow> string \<Rightarrow> string" where
  "window_counter_key l account window_id = lo_key_prefix l @ ''attempts:'' @ account @ '':'' @ window_id"

definition window_failures_key :: "lockout \<Rightarrow> string \<Rightarrow> string \<Rightarrow> string" where
  "window_failures_key l account window_id = lo_key_prefix l @ ''failures:'' @ account @ '':'' @ window_id"

definition window_key :: "lockout \<Rightarrow> string \<Rightarrow> string" where
  "window_key l account = lo_key_prefix l @ ''window:'' @ account"

definition lock_key :: "lockout \<Rightarrow> string \<Rightarrow> string" where
  "lock_key l account = lo_key_prefix l @ ''locked:'' @ account"

definition account_prefixes :: "lockout \<Rightarrow> string \<Rightarrow> string list" where
  "account_prefixes l prefix =
     map (\<lambda>kind. lo_key_prefix l @ kind @ '':'' @ prefix) [''attempts'', ''failures'', ''window'', ''locked'']"

section \<open>Windows\<close>

definition sat_i64 :: "int \<Rightarrow> int" where
  "sat_i64 n = max (- (2 ^ 63)) (min (2 ^ 63 - 1) n)"

text \<open>The time left in a window, at least one millisecond.\<close>

definition window_left_at :: "lockout \<Rightarrow> string \<Rightarrow> nat \<Rightarrow> nat" where
  "window_left_at l window_id now =
     (let started = (case parse_i64 window_id of None \<Rightarrow> 2 ^ 63 - 1 | Some n \<Rightarrow> n);
          elapsed = sat_i64 (int now - started)
      in max (lo_counter_ttl l - nat elapsed) 1000)"

definition window_left :: "lockout \<Rightarrow> string \<Rightarrow> nat prog" where
  "window_left l window_id = Clock (\<lambda>now. Return (window_left_at l window_id now))"

fun window_loop :: "lockout \<Rightarrow> string \<Rightarrow> bool \<Rightarrow> nat \<Rightarrow> (cache_error + string option) prog" where
  "window_loop l account open' 0 = Return (Inr None)"
| "window_loop l account open' (Suc n) =
     Get (window_key l account) (\<lambda>r. case r of
         Inl e \<Rightarrow> Return (Inl e)
       | Inr (Some wid) \<Rightarrow> Return (Inr (Some wid))
       | Inr None \<Rightarrow>
           if \<not> open' then Return (Inr None)
           else Clock (\<lambda>now. let wid = show_int (int now) in
             AddNew (window_key l account) wid (Some (lo_counter_ttl l)) (\<lambda>r. case r of
                 Inl e \<Rightarrow> Return (Inl e)
               | Inr True \<Rightarrow> Return (Inr (Some wid))
               | Inr False \<Rightarrow> window_loop l account open' n)))"

definition window :: "lockout \<Rightarrow> string \<Rightarrow> bool \<Rightarrow> (cache_error + string option) prog" where
  "window l account open' = window_loop l account open' 2"

definition counter_key :: "lockout \<Rightarrow> string \<Rightarrow> bool \<Rightarrow> (cache_error + string option) prog" where
  "counter_key l account open' =
     bind_prog (window l account open') (\<lambda>r. Return (case r of
        Inl e \<Rightarrow> Inl e
      | Inr w \<Rightarrow> Inr (map_option (window_counter_key l account) w)))"

section \<open>Counting\<close>

definition read_count :: "string \<Rightarrow> nat prog" where
  "read_count key = Get key (\<lambda>r. Return (case r of
      Inr (Some s) \<Rightarrow> (case parse_u32 s of None \<Rightarrow> 0 | Some n \<Rightarrow> unat n)
    | _ \<Rightarrow> 0))"

definition decrement :: "lockout \<Rightarrow> string \<Rightarrow> string \<Rightarrow> unit prog" where
  "decrement l key window_id =
     bind_prog (window_left l window_id) (\<lambda>left.
     Decr key 1 (Some left) (\<lambda>r. case r of
         Inl e \<Rightarrow> Return ()
       | Inr n \<Rightarrow> if n < 0 then Incr key 1 (Some left) (\<lambda>_. Return ()) else Return ()))"

definition count_failure :: "lockout \<Rightarrow> string \<Rightarrow> (cache_error + int option) prog" where
  "count_failure l account =
     bind_prog (window l account True) (\<lambda>w. case w of
         Inl e \<Rightarrow> Return (Inl e)
       | Inr None \<Rightarrow> Return (Inr None)
       | Inr (Some wid) \<Rightarrow>
           bind_prog (window_left l wid) (\<lambda>left.
           Incr (window_counter_key l account wid) 1 (Some left) (\<lambda>r. Return (case r of
              Inl e \<Rightarrow> Inl e
            | Inr n \<Rightarrow> Inr (Some n)))))"

definition clear_window :: "lockout \<Rightarrow> string \<Rightarrow> unit prog" where
  "clear_window l account =
     bind_prog (window l account False) (\<lambda>w.
     bind_prog
       (case w of
          Inr (Some wid) \<Rightarrow>
            Del (window_counter_key l account wid) (\<lambda>_. Del (window_failures_key l account wid) (\<lambda>_. Return ()))
        | _ \<Rightarrow> Return ())
       (\<lambda>_. Del (window_key l account) (\<lambda>_. Return ())))"

definition failure_count :: "lockout \<Rightarrow> string \<Rightarrow> nat prog" where
  "failure_count l account =
     bind_prog (window l account False) (\<lambda>w. case w of
         Inr (Some wid) \<Rightarrow> read_count (window_failures_key l account wid)
       | _ \<Rightarrow> Return 0)"

definition attempt_count :: "lockout \<Rightarrow> string \<Rightarrow> nat prog" where
  "attempt_count l account =
     bind_prog (counter_key l account False) (\<lambda>k. case k of
         Inr (Some key) \<Rightarrow> read_count key
       | _ \<Rightarrow> Return 0)"

section \<open>Locking\<close>

definition is_locked :: "lockout \<Rightarrow> string \<Rightarrow> bool prog" where
  "is_locked l account = Exists (lock_key l account) (\<lambda>r. Return (case r of Inl e \<Rightarrow> False | Inr b \<Rightarrow> b))"

definition force_lock :: "lockout \<Rightarrow> string \<Rightarrow> unit prog" where
  "force_lock l account = Put (lock_key l account) ''1'' (Some (lo_lockout_duration l)) (\<lambda>_. Return ())"

definition clear :: "lockout \<Rightarrow> string \<Rightarrow> unit prog" where
  "clear l account =
     bind_prog (clear_window l account) (\<lambda>_. Del (lock_key l account) (\<lambda>_. Return ()))"

definition record_failure :: "lockout \<Rightarrow> string \<Rightarrow> nat prog" where
  "record_failure l account =
     bind_prog (is_locked l account) (\<lambda>locked.
       if locked then Return (lo_max_attempts l)
       else bind_prog (count_failure l account) (\<lambda>r.
         let next_count = to_u32 (case r of Inr (Some n) \<Rightarrow> n | _ \<Rightarrow> 0)
         in if next_count \<ge> lo_max_attempts l then
              Put (lock_key l account) ''1'' (Some (lo_lockout_duration l)) (\<lambda>_.
              bind_prog (clear_window l account) (\<lambda>_. Return next_count))
            else Return next_count))"

definition uid_account :: "int \<Rightarrow> string" where
  "uid_account user_id = ''uid:'' @ show_int user_id"

definition record_failure_by_id :: "lockout \<Rightarrow> int \<Rightarrow> nat prog" where
  "record_failure_by_id l user_id = record_failure l (uid_account user_id)"

definition is_locked_by_id :: "lockout \<Rightarrow> int \<Rightarrow> bool prog" where
  "is_locked_by_id l user_id = is_locked l (uid_account user_id)"

definition clear_by_id :: "lockout \<Rightarrow> int \<Rightarrow> unit prog" where
  "clear_by_id l user_id = clear l (uid_account user_id)"

section \<open>Reservations\<close>

text \<open>A reserved slot is the window it was counted in, \<open>None\<close> when the cache could not count it.\<close>

type_synonym reserved_slot = "string option"

datatype reservation = Counted reserved_slot | Locked | Full

definition reserve :: "lockout \<Rightarrow> string \<Rightarrow> reservation prog" where
  "reserve l account =
     bind_prog (is_locked l account) (\<lambda>locked.
       if locked then Return Locked
       else bind_prog (window l account True) (\<lambda>w. case w of
           Inl e \<Rightarrow> Return (Counted None)
         | Inr None \<Rightarrow> Return (Counted None)
         | Inr (Some wid) \<Rightarrow>
             let key = window_counter_key l account wid in
             bind_prog (window_left l wid) (\<lambda>left.
             Incr key 1 (Some left) (\<lambda>r. case r of
                 Inl e \<Rightarrow> Return (Counted None)
               | Inr n \<Rightarrow>
                   if n > int (lo_max_attempts l) then bind_prog (decrement l key wid) (\<lambda>_. Return Full)
                   else bind_prog (is_locked l account) (\<lambda>locked.
                     if locked then bind_prog (decrement l key wid) (\<lambda>_. Return Locked)
                     else Return (Counted (Some wid)))))))"

definition reserve_sole :: "lockout \<Rightarrow> string \<Rightarrow> reserved_slot option prog" where
  "reserve_sole l account =
     bind_prog (window l account True) (\<lambda>w. case w of
         Inl e \<Rightarrow> Return None
       | Inr None \<Rightarrow> Return None
       | Inr (Some wid) \<Rightarrow>
           let key = window_counter_key l account wid in
           bind_prog (window_left l wid) (\<lambda>left.
           Incr key 1 (Some left) (\<lambda>r. case r of
               Inl e \<Rightarrow> Return None
             | Inr n \<Rightarrow>
                 if n \<noteq> 1 then bind_prog (decrement l key wid) (\<lambda>_. Return None)
                 else bind_prog (is_locked l account) (\<lambda>locked.
                   if locked then bind_prog (decrement l key wid) (\<lambda>_. Return None)
                   else Return (Some (Some wid))))))"

definition release :: "lockout \<Rightarrow> string \<Rightarrow> reserved_slot \<Rightarrow> unit prog" where
  "release l account slot =
     (case slot of None \<Rightarrow> Return () | Some wid \<Rightarrow> decrement l (window_counter_key l account wid) wid)"

definition reserved_failed :: "lockout \<Rightarrow> string \<Rightarrow> reserved_slot \<Rightarrow> unit prog" where
  "reserved_failed l account slot =
     bind_prog
       (case slot of
          Some wid \<Rightarrow> Return (Some wid)
        | None \<Rightarrow> bind_prog (window l account True) (\<lambda>w. Return (case w of Inr (Some wid) \<Rightarrow> Some wid | _ \<Rightarrow> None)))
       (\<lambda>w. case w of
           None \<Rightarrow> Return ()
         | Some wid \<Rightarrow>
             bind_prog (window_left l wid) (\<lambda>left.
             Incr (window_failures_key l account wid) 1 (Some left) (\<lambda>r. case r of
                 Inl e \<Rightarrow> Return ()
               | Inr failures \<Rightarrow>
                   if failures \<ge> int (lo_max_attempts l) then
                     Put (lock_key l account) ''1'' (Some (lo_lockout_duration l)) (\<lambda>_. clear_window l account)
                   else Return ())))"

definition reserved_succeeded :: "lockout \<Rightarrow> string \<Rightarrow> reserved_slot \<Rightarrow> unit prog" where
  "reserved_succeeded l account slot =
     bind_prog (failure_count l account) (\<lambda>n.
       if n > 0 then clear_window l account else release l account slot)"

end
