(* ===== verification/Lockout_Correct.thy ===== *)
theory Lockout_Correct
  imports Lockout
begin

text \<open>
  The lockout keeps its promises on any cache with the contract \<open>counter_cache\<close>: however many logins run at once,
  at most \<open>max_attempts\<close> reservations are held in a window, and, one login at a time, the operations refine a
  small state machine of a lock, a window and its counts.
\<close>

section \<open>Keys\<close>

lemma lockout_keys_differ [simp]:
  "window_key l a \<noteq> window_counter_key l a w" "window_key l a \<noteq> window_failures_key l a w" "window_key l a \<noteq> lock_key l a"
  "lock_key l a \<noteq> window_counter_key l a w" "lock_key l a \<noteq> window_failures_key l a w"
  "window_counter_key l a w \<noteq> window_failures_key l a w"
  by (simp_all add: window_key_def window_counter_key_def window_failures_key_def lock_key_def)

lemmas lockout_keys_differ' [simp] = lockout_keys_differ [symmetric]

section \<open>Reserving at once\<close>

text \<open>The programs \<open>reserve\<close> and \<open>release\<close> pass through.\<close>

definition undo :: "lockout \<Rightarrow> string \<Rightarrow> string \<Rightarrow> 'a \<Rightarrow> 'a prog" where
  "undo l key wid r = bind_prog (decrement l key wid) (\<lambda>_. Return r)"

definition undo_at :: "string \<Rightarrow> nat \<Rightarrow> 'a \<Rightarrow> 'a prog" where
  "undo_at key left r = Incr key (- 1) (Some left) (\<lambda>a. case a of
      Inl e \<Rightarrow> Return r
    | Inr n \<Rightarrow> if n < 0 then Incr key 1 (Some left) (\<lambda>_. Return r) else Return r)"

definition after_incr :: "lockout \<Rightarrow> string \<Rightarrow> string \<Rightarrow> cache_error + int \<Rightarrow> reservation prog" where
  "after_incr l account wid r = (case r of
      Inl e \<Rightarrow> Return (Counted None)
    | Inr n \<Rightarrow>
        if n > int (lo_max_attempts l) then undo l (window_counter_key l account wid) wid Full
        else bind_prog (is_locked l account) (\<lambda>locked.
          if locked then undo l (window_counter_key l account wid) wid Locked else Return (Counted (Some wid))))"

definition count_in :: "lockout \<Rightarrow> string \<Rightarrow> string \<Rightarrow> reservation prog" where
  "count_in l account wid = Clock (\<lambda>now.
     Incr (window_counter_key l account wid) 1 (Some (window_left_at l wid now)) (after_incr l account wid))"

definition after_window :: "lockout \<Rightarrow> string \<Rightarrow> cache_error + string option \<Rightarrow> reservation prog" where
  "after_window l account w =
     (case w of Inl e \<Rightarrow> Return (Counted None) | Inr None \<Rightarrow> Return (Counted None) | Inr (Some wid) \<Rightarrow> count_in l account wid)"

lemma undo_unfold: "undo l key wid r = Clock (\<lambda>now. undo_at key (window_left_at l wid now) r)"
  by (simp add: undo_def undo_at_def decrement_def window_left_def cong: sum.case_cong if_cong)

lemma release_unfold: "release l account (Some wid) = undo l (window_counter_key l account wid) wid ()"
  by (simp add: release_def undo_unfold undo_at_def decrement_def window_left_def)

lemma is_locked_bind:
  "bind_prog (is_locked l account) g = Exists (lock_key l account) (\<lambda>r. g (case r of Inl e \<Rightarrow> False | Inr b \<Rightarrow> b))"
  by (simp add: is_locked_def)

lemma reserve_unfold:
  "reserve l account = Exists (lock_key l account) (\<lambda>r.
     if (case r of Inl e \<Rightarrow> False | Inr b \<Rightarrow> b) then Return Locked
     else bind_prog (window l account True) (after_window l account))"
proof -
  have eq: "after_window l account = (\<lambda>w. case w of
           Inl e \<Rightarrow> Return (Counted None)
         | Inr None \<Rightarrow> Return (Counted None)
         | Inr (Some wid) \<Rightarrow>
             let key = window_counter_key l account wid in
             bind_prog (window_left l wid) (\<lambda>left.
             Incr key 1 (Some left) (\<lambda>r. case r of
                 Inl e \<Rightarrow> Return (Counted None)
               | Inr n \<Rightarrow>
                   if n > int (lo_max_attempts l) then bind_prog (decrement l key wid) (\<lambda>_. Return Full)
                   else bind_prog (is_locked l account) (\<lambda>locked.
                     if locked then bind_prog (decrement l key wid) (\<lambda>_. Return Locked)
                     else Return (Counted (Some wid))))))"
    unfolding after_window_def count_in_def after_incr_def undo_def window_left_def Let_def
    by (rule ext) (simp split: sum.split option.split)
  show ?thesis unfolding reserve_def eq is_locked_bind ..
qed

text \<open>Where a thread stands. The clock readings between two calls keep the time left they saw.\<close>

datatype reserve_label =
    Asking | Looking | Opening | Counting nat | OverFull | OverFullUndo nat | Checking | Barred | BarredUndo nat
  | Answered bool | Granted | Denied bool | Held | Returning | ReturningUndo nat | Returned | Left

fun reserve_thread :: "lockout \<Rightarrow> string \<Rightarrow> string \<Rightarrow> reserve_label \<Rightarrow> (reservation, reserved_slot) thread" where
  "reserve_thread l a w Asking = Busy (reserve l a)"
| "reserve_thread l a w Looking = Busy (bind_prog (window l a True) (after_window l a))"
| "reserve_thread l a w Opening = Busy (count_in l a w)"
| "reserve_thread l a w (Counting left) = Busy (Incr (window_counter_key l a w) 1 (Some left) (after_incr l a w))"
| "reserve_thread l a w OverFull = Busy (undo l (window_counter_key l a w) w Full)"
| "reserve_thread l a w (OverFullUndo left) = Busy (undo_at (window_counter_key l a w) left Full)"
| "reserve_thread l a w Checking = Busy (bind_prog (is_locked l a) (\<lambda>locked.
     if locked then undo l (window_counter_key l a w) w Locked else Return (Counted (Some w))))"
| "reserve_thread l a w Barred = Busy (undo l (window_counter_key l a w) w Locked)"
| "reserve_thread l a w (BarredUndo left) = Busy (undo_at (window_counter_key l a w) left Locked)"
| "reserve_thread l a w (Answered full) = Busy (Return (if full then Full else Locked))"
| "reserve_thread l a w Granted = Busy (Return (Counted (Some w)))"
| "reserve_thread l a w (Denied full) = Refused (if full then Full else Locked)"
| "reserve_thread l a w Held = Holding (Some w)"
| "reserve_thread l a w Returning = Reporting (undo l (window_counter_key l a w) w ())"
| "reserve_thread l a w (ReturningUndo left) = Reporting (undo_at (window_counter_key l a w) left ())"
| "reserve_thread l a w Returned = Reporting (Return ())"
| "reserve_thread l a w Left = Gone"

fun label_counted :: "reserve_label \<Rightarrow> nat" where
  "label_counted OverFull = 1" | "label_counted (OverFullUndo left) = 1" | "label_counted Checking = 1"
| "label_counted Barred = 1" | "label_counted (BarredUndo left) = 1" | "label_counted Granted = 1"
| "label_counted Held = 1" | "label_counted Returning = 1" | "label_counted (ReturningUndo left) = 1"
| "label_counted _ = 0"

fun label_admitted :: "reserve_label \<Rightarrow> nat" where
  "label_admitted Checking = 1" | "label_admitted Granted = 1" | "label_admitted Held = 1" | "label_admitted _ = 0"

definition label_timely :: "nat \<Rightarrow> nat \<Rightarrow> nat \<Rightarrow> nat \<Rightarrow> reserve_label \<Rightarrow> bool" where
  "label_timely limit started deadline now lb \<longleftrightarrow> started \<le> now \<and>
     (case lb of
        Counting left \<Rightarrow> left_ok limit deadline now left
      | OverFullUndo left \<Rightarrow> left_ok limit deadline now left
      | BarredUndo left \<Rightarrow> left_ok limit deadline now left
      | ReturningUndo left \<Rightarrow> left_ok limit deadline now left
      | _ \<Rightarrow> True)"

text \<open>The window that opened at \<open>started\<close> stands until \<open>started + counter_ttl\<close>.\<close>

definition window_stands :: "nat \<Rightarrow> lockout \<Rightarrow> string \<Rightarrow> nat \<Rightarrow> cache_view \<Rightarrow> bool" where
  "window_stands limit l account started view \<longleftrightarrow>
     i64_range (int started) \<and> max (lo_counter_ttl l) 1000 \<le> limit \<and>
     (case view (window_key l account) of
        None \<Rightarrow> False
      | Some (v, d) \<Rightarrow> v = show_int (int started) \<and> (case d of None \<Rightarrow> True | Some t \<Rightarrow> started + lo_counter_ttl l \<le> t))"

definition granted_slot :: "reservation \<Rightarrow> reserved_slot option" where
  "granted_slot r = (case r of Counted s \<Rightarrow> Some s | _ \<Rightarrow> None)"

lemma window_left_ok:
  assumes "i64_range (int started)" "max (lo_counter_ttl l) 1000 \<le> limit" "started \<le> now"
  shows "left_ok limit (started + lo_counter_ttl l) now (window_left_at l (show_int (int started)) now)"
proof -
  define e where "e = nat (sat_i64 (int now - int started))"
  have e: "e \<le> now - started" using assms(3) by (simp add: e_def sat_i64_def)
  have "window_left_at l (show_int (int started)) now = max (lo_counter_ttl l - e) 1000"
    using assms(1) by (simp add: window_left_at_def parse_show_int e_def)
  then show ?thesis unfolding left_ok_def using e assms(2,3) by auto
qed

lemma window_stands_get:
  "window_stands limit l a started view \<Longrightarrow> now \<le> started + lo_counter_ttl l \<Longrightarrow>
   live_at now (view (window_key l a)) = Some (show_int (int started))"
  by (auto simp: window_stands_def live_at_def split: option.splits)

lemma window_stands_other:
  "view (window_key l a) = view' (window_key l a) \<Longrightarrow> window_stands limit l a s view = window_stands limit l a s view'"
  by (simp add: window_stands_def)

lemma undo_next:
  "thread_next api grant report now c (Busy (undo_at key left r)) = map_prod id Busy (prog_step api now c (undo_at key left r))"
  "thread_next api grant report now c (Reporting (undo_at key left u)) = map_prod id Reporting (prog_step api now c (undo_at key left u))"
  by (simp_all add: undo_at_def)

context counter_cache
begin

definition reserve_ok :: "lockout \<Rightarrow> string \<Rightarrow> nat \<Rightarrow> 'c \<Rightarrow> bool" where
  "reserve_ok l a started c \<longleftrightarrow> ok c \<and> window_stands limit l a started (entry c)"

lemma undo_moves:
  assumes "reserve_ok l a started c" "counter_stands (entry c) (window_counter_key l a w) deadline n" "now \<le> deadline"
    "left_ok limit deadline now left" "int n + 1 < 2 ^ 63" "1 \<le> n"
  shows "\<exists>c'. prog_step api now c (undo_at (window_counter_key l a w) left r) = (c', Return r) \<and> reserve_ok l a started c' \<and>
    counter_stands (entry c') (window_counter_key l a w) deadline (n - 1)"
proof -
  have m: "int n - 1 = int n + (- 1)" "0 \<le> int n - 1" "int n - 1 < 2 ^ 63" "int n < 2 ^ 63" using assms(5,6) by simp_all
  have "ok c" using assms(1) by (simp add: reserve_ok_def)
  from counter_moves [OF this assms(2-4) m(4,1-3)] obtain c' where
    "ca_incr api (window_counter_key l a w) (- 1) (Some left) now c = (c', Inr (int n - 1))" "ok c'"
    "counter_stands (entry c') (window_counter_key l a w) deadline (nat (int n - 1))"
    "entry c' (window_key l a) = entry c (window_key l a)" by auto
  then show ?thesis
    using assms(1,6) window_stands_other [of "entry c'" l a "entry c" limit started]
    by (simp add: undo_at_def reserve_ok_def nat_diff_distrib)
qed

lemma count_moves:
  assumes "reserve_ok l a started c" "counter_stands (entry c) (window_counter_key l a w) deadline n" "now \<le> deadline"
    "left_ok limit deadline now left" "int n + 1 < 2 ^ 63"
  shows "\<exists>c'. ca_incr api (window_counter_key l a w) 1 (Some left) now c = (c', Inr (int n + 1)) \<and> reserve_ok l a started c' \<and>
    counter_stands (entry c') (window_counter_key l a w) deadline (n + 1)"
proof -
  have m: "int n < 2 ^ 63" "0 \<le> int n + 1" using assms(5) by simp_all
  have "ok c" using assms(1) by (simp add: reserve_ok_def)
  from counter_moves [OF this assms(2-4) m(1) refl m(2) assms(5)] obtain c' where
    "ca_incr api (window_counter_key l a w) 1 (Some left) now c = (c', Inr (int n + 1))" "ok c'"
    "counter_stands (entry c') (window_counter_key l a w) deadline (nat (int n + 1))"
    "entry c' (window_key l a) = entry c (window_key l a)" by auto
  then show ?thesis
    using assms(1) window_stands_other [of "entry c'" l a "entry c" limit started]
    by (simp add: reserve_ok_def nat_add_distrib)
qed

lemma reserve_ok_get:
  assumes "reserve_ok l a started c" "now \<le> started + lo_counter_ttl l"
  shows "\<exists>c'. ca_get api (window_key l a) now c = (c', Inr (Some (show_int (int started)))) \<and> reserve_ok l a started c' \<and> entry c' = entry c"
  using assms get_law [of c "window_key l a" now] window_stands_get [of limit l a started "entry c" now]
  by (auto simp: reserve_ok_def)

lemma reserve_ok_exists:
  assumes "reserve_ok l a started c"
  shows "\<exists>c' b. ca_exists api (lock_key l a) now c = (c', Inr b) \<and> reserve_ok l a started c' \<and> entry c' = entry c"
  using assms exists_law [of c "lock_key l a" now] by (fastforce simp: reserve_ok_def)

lemma reserve_ok_left:
  "reserve_ok l a started c \<Longrightarrow> started \<le> now \<Longrightarrow>
   left_ok limit (started + lo_counter_ttl l) now (window_left_at l (show_int (int started)) now)"
  by (auto simp: reserve_ok_def window_stands_def intro: window_left_ok)

text \<open>One thread moves from a label to the next, and the counter with it.\<close>

definition label_moves :: "lockout \<Rightarrow> string \<Rightarrow> nat \<Rightarrow> nat \<Rightarrow> nat \<Rightarrow> reserve_label \<Rightarrow> 'c \<Rightarrow> (reservation, reserved_slot) thread \<Rightarrow> bool" where
  "label_moves l a started now n lb c' t' \<longleftrightarrow>
     (\<exists>lb' n'. t' = reserve_thread l a (show_int (int started)) lb' \<and> reserve_ok l a started c' \<and>
       label_timely limit started (started + lo_counter_ttl l) now lb' \<and>
       counter_stands (entry c') (window_counter_key l a (show_int (int started))) (started + lo_counter_ttl l) n' \<and>
       n' + label_counted lb = n + label_counted lb' \<and> (label_admitted lb' \<le> label_admitted lb \<or> n' \<le> lo_max_attempts l))"

lemma label_stays:
  assumes "reserve_ok l a started c'" "label_timely limit started (started + lo_counter_ttl l) now lb'"
    "counter_stands (entry c') (window_counter_key l a (show_int (int started))) (started + lo_counter_ttl l) n"
    "t' = reserve_thread l a (show_int (int started)) lb'"
    "label_counted lb' = label_counted lb" "label_admitted lb' \<le> label_admitted lb"
  shows "label_moves l a started now n lb c' t'"
  unfolding label_moves_def using assms by auto

lemma reserve_reads:
  assumes ok: "reserve_ok l a started c" and now: "now \<le> started + lo_counter_ttl l"
    and n: "counter_stands (entry c) (window_counter_key l a (show_int (int started))) (started + lo_counter_ttl l) n"
    and t: "label_timely limit started (started + lo_counter_ttl l) now lb" and lb: "lb = Asking \<or> lb = Looking \<or> lb = Checking"
    and step: "thread_next api granted_slot (release l a) now c (reserve_thread l a (show_int (int started)) lb) = (c', t')"
  shows "label_moves l a started now n lb c' t'"
proof -
  let ?w = "show_int (int started)"
  have st: "started \<le> now" using t by (simp add: label_timely_def)
  obtain g where g: "ca_get api (window_key l a) now c = (g, Inr (Some ?w))" "reserve_ok l a started g" "entry g = entry c"
    using reserve_ok_get [OF ok now] by blast
  obtain x b where x: "ca_exists api (lock_key l a) now c = (x, Inr b)" "reserve_ok l a started x" "entry x = entry c"
    using reserve_ok_exists [OF ok] by blast
  consider "lb = Asking" | "lb = Looking" | "lb = Checking" using lb by blast
  then show ?thesis
  proof cases
    case 1
    then show ?thesis using step x st n
      by (intro label_stays [where lb' = "if b then Answered False else Looking"]) (auto simp: reserve_unfold label_timely_def)
  next
    case 2
    then have "t' = reserve_thread l a ?w Opening" "c' = g"
      using step g by (simp_all add: window_def numeral_2_eq_2 after_window_def)
    then show ?thesis using 2 g n st by (intro label_stays [where lb' = Opening]) (simp_all add: label_timely_def)
  next
    case 3
    then show ?thesis using step x st n
      by (intro label_stays [where lb' = "if b then Barred else Granted"]) (auto simp: is_locked_bind label_timely_def)
  qed
qed

lemma reserve_counts:
  assumes ok: "reserve_ok l a started c" and now: "now \<le> started + lo_counter_ttl l"
    and n: "counter_stands (entry c) (window_counter_key l a (show_int (int started))) (started + lo_counter_ttl l) n"
      "int n + 1 < 2 ^ 63" "label_counted lb \<le> n"
    and t: "label_timely limit started (started + lo_counter_ttl l) now lb"
    and lb: "lb = Counting lf \<or> lb = OverFullUndo lf \<or> lb = BarredUndo lf \<or> lb = ReturningUndo lf"
    and step: "thread_next api granted_slot (release l a) now c (reserve_thread l a (show_int (int started)) lb) = (c', t')"
  shows "label_moves l a started now n lb c' t'"
proof -
  let ?w = "show_int (int started)" and ?d = "started + lo_counter_ttl l"
  let ?key = "window_counter_key l a ?w"
  have st: "started \<le> now" "left_ok limit ?d now lf" using t lb by (auto simp: label_timely_def)
  note undone = undo_moves [OF ok n(1) now st(2) n(2)]
  consider "lb = Counting lf" | "lb = OverFullUndo lf" | "lb = BarredUndo lf" | "lb = ReturningUndo lf" using lb by blast
  then show ?thesis
  proof cases
    case 1
    obtain y where y: "ca_incr api ?key 1 (Some lf) now c = (y, Inr (int n + 1))" "reserve_ok l a started y"
        "counter_stands (entry y) ?key ?d (n + 1)"
      using count_moves [OF ok n(1) now st(2) n(2)] by blast
    have "t' = reserve_thread l a ?w (if n + 1 > lo_max_attempts l then OverFull else Checking)" "c' = y"
      using step y 1 by (auto simp: after_incr_def)
    then show ?thesis unfolding label_moves_def using y st 1
      by (intro exI [of _ "if n + 1 > lo_max_attempts l then OverFull else Checking"] exI [of _ "n + 1"]) (simp add: label_timely_def)
  next
    case 2
    then show ?thesis using undone [where r = Full] step t n(3)
      by (auto simp: label_moves_def undo_next label_timely_def intro!: exI [of _ "Answered True"] exI [of _ "n - 1"])
  next
    case 3
    then show ?thesis using undone [where r = Locked] step t n(3)
      by (auto simp: label_moves_def undo_next label_timely_def intro!: exI [of _ "Answered False"] exI [of _ "n - 1"])
  next
    case 4
    then show ?thesis using undone [where r = "()"] step t n(3)
      by (auto simp: label_moves_def undo_next label_timely_def intro!: exI [of _ Returned] exI [of _ "n - 1"])
  qed
qed

lemma reserve_thread_law:
  assumes ok: "reserve_ok l a started c" and now: "now \<le> started + lo_counter_ttl l"
    and n: "counter_stands (entry c) (window_counter_key l a (show_int (int started))) (started + lo_counter_ttl l) n"
      "int n + 1 < 2 ^ 63" "label_counted lb \<le> n"
    and t: "label_timely limit started (started + lo_counter_ttl l) now lb"
    and step: "thread_next api granted_slot (release l a) now c (reserve_thread l a (show_int (int started)) lb) = (c', t')"
  shows "label_moves l a started now n lb c' t'"
proof -
  let ?left = "window_left_at l (show_int (int started)) now"
  have st: "started \<le> now" using t by (simp add: label_timely_def)
  have left: "left_ok limit (started + lo_counter_ttl l) now ?left" by (rule reserve_ok_left [OF ok st])
  have stay: "label_moves l a started now n lb c' t'" if "c' = c" "t' = reserve_thread l a (show_int (int started)) lb'"
      "label_timely limit started (started + lo_counter_ttl l) now lb'" "label_counted lb' = label_counted lb"
      "label_admitted lb' \<le> label_admitted lb" for lb'
    using that ok n(1) by (intro label_stays) simp_all
  note reads = reserve_reads [OF ok now n(1) t _ step] and counts = reserve_counts [OF ok now n t _ step]
  show ?thesis
  proof (cases lb)
    case Opening
    then show ?thesis using step left st by (intro stay [of "Counting ?left"]) (auto simp: count_in_def label_timely_def)
  next
    case OverFull
    then show ?thesis using step left st by (intro stay [of "OverFullUndo ?left"]) (auto simp: undo_unfold label_timely_def)
  next
    case Barred
    then show ?thesis using step left st by (intro stay [of "BarredUndo ?left"]) (auto simp: undo_unfold label_timely_def)
  next
    case (Answered full)
    then show ?thesis using step st by (intro stay [of "Denied full"]) (auto simp: granted_slot_def label_timely_def)
  next
    case Granted
    then show ?thesis using step st by (intro stay [of Held]) (auto simp: granted_slot_def label_timely_def)
  next
    case Held
    then show ?thesis using step st by (intro stay [of Returning]) (auto simp: release_unfold label_timely_def)
  next
    case Returning
    then show ?thesis using step left st by (intro stay [of "ReturningUndo ?left"]) (auto simp: undo_unfold label_timely_def)
  next
    case Returned
    then show ?thesis using step st by (intro stay [of Left]) (auto simp: label_timely_def)
  qed (use reads counts step t stay [of lb] in auto)
qed

lemma reserve_slots:
  "slot_protocol api granted_slot (release l a)
     (other_keys ok entry {window_key l a, window_counter_key l a (show_int (int started))}) (reserve_ok l a started)
     (\<lambda>c. counter_stands (entry c) (window_counter_key l a (show_int (int started))) (started + lo_counter_ttl l))
     (started + lo_counter_ttl l) (lo_max_attempts l)
     (reserve_thread l a (show_int (int started))) label_counted label_admitted
     (label_timely limit started (started + lo_counter_ttl l))"
proof
  fix c c' and now n :: nat and lb t
  assume "reserve_ok l a started c" "now \<le> started + lo_counter_ttl l"
    "counter_stands (entry c) (window_counter_key l a (show_int (int started))) (started + lo_counter_ttl l) n"
    "int n + 1 < 2 ^ 63" "label_counted lb \<le> n" "label_timely limit started (started + lo_counter_ttl l) now lb"
    "thread_next api granted_slot (release l a) now c (reserve_thread l a (show_int (int started)) lb) = (c', t)"
  from reserve_thread_law [OF this] show "\<exists>l' n'. t = reserve_thread l a (show_int (int started)) l' \<and> reserve_ok l a started c' \<and>
      label_timely limit started (started + lo_counter_ttl l) now l' \<and>
      counter_stands (entry c') (window_counter_key l a (show_int (int started))) (started + lo_counter_ttl l) n' \<and>
      n' + label_counted lb = n + label_counted l' \<and> (label_admitted l' \<le> label_admitted lb \<or> n' \<le> lo_max_attempts l)"
    by (simp add: label_moves_def)
next
  fix c c' and n :: nat
  assume "other_keys ok entry {window_key l a, window_counter_key l a (show_int (int started))} c c'" "reserve_ok l a started c"
  then show "reserve_ok l a started c' \<and>
      (counter_stands (entry c) (window_counter_key l a (show_int (int started))) (started + lo_counter_ttl l) n \<longrightarrow>
       counter_stands (entry c') (window_counter_key l a (show_int (int started))) (started + lo_counter_ttl l) n)"
    using window_stands_other [of "entry c'" l a "entry c" limit started] counter_stands_other [of "entry c'" _ "entry c"]
    by (simp add: other_keys_def reserve_ok_def)
next
  fix now now' :: nat and lb
  assume "label_timely limit started (started + lo_counter_ttl l) now lb" "now \<le> now'"
  then show "label_timely limit started (started + lo_counter_ttl l) now' lb"
    by (auto simp: label_timely_def intro: left_ok_later split: reserve_label.splits)
next
  fix lb and s :: reserved_slot
  show "label_admitted lb \<le> label_counted lb" "label_counted lb \<le> 1" by (cases lb; simp)+
  show "reserve_thread l a (show_int (int started)) lb = Holding s \<Longrightarrow> label_admitted lb = 1" by (cases lb) simp_all
qed

end

interpretation reserve_slots: slot_protocol in_memory_api granted_slot "release l a"
  "other_keys unbounded mem_entry {window_key l a, window_counter_key l a (show_int (int started))}" "mem.reserve_ok l a started"
  "\<lambda>c. counter_stands (mem_entry c) (window_counter_key l a (show_int (int started))) (started + lo_counter_ttl l)" "started + lo_counter_ttl l" "lo_max_attempts l"
  "reserve_thread l a (show_int (int started))" label_counted label_admitted
  "label_timely far_future started (started + lo_counter_ttl l)" for l a started
  by (rule mem.reserve_slots)

end
