(* ===== verification/Lockout_Spec.thy ===== *)
theory Lockout_Spec
  imports Lockout_Correct
begin

text \<open>
  The lockout of one account as a state machine: until when it is locked, when its window opened and how many
  failures the window counts. The operations on the cache refine it, call by call, as time passes.
\<close>

section \<open>The state machine\<close>

record acct =
  locked_until :: "nat option"
  opened_at :: "nat option"
  failures :: nat

definition new_acct :: acct where
  "new_acct = \<lparr>locked_until = None, opened_at = None, failures = 0\<rparr>"

definition age :: "lockout \<Rightarrow> nat \<Rightarrow> acct \<Rightarrow> acct" where
  "age l now s =
     (let s' = (case locked_until s of Some u \<Rightarrow> if now > u then s\<lparr>locked_until := None\<rparr> else s | None \<Rightarrow> s)
      in case opened_at s of
           Some t \<Rightarrow> if now > t + lo_counter_ttl l then s'\<lparr>opened_at := None, failures := 0\<rparr> else s'
         | None \<Rightarrow> s')"

datatype lock_call = Fail | AskLocked | Reset | Force | AskCount

datatype lock_answer = Count nat | Flag bool | Done

definition spec_failure :: "lockout \<Rightarrow> nat \<Rightarrow> acct \<Rightarrow> acct \<times> nat" where
  "spec_failure l now s =
     (if locked_until s \<noteq> None then (s, lo_max_attempts l)
      else let n = failures s + 1
           in if n \<ge> lo_max_attempts l
              then (\<lparr>locked_until = Some (now + lo_lockout_duration l), opened_at = None, failures = 0\<rparr>, n)
              else (s\<lparr>opened_at := Some (case opened_at s of None \<Rightarrow> now | Some t \<Rightarrow> t), failures := n\<rparr>, n))"

fun spec_call :: "lockout \<Rightarrow> nat \<Rightarrow> lock_call \<Rightarrow> acct \<Rightarrow> acct \<times> lock_answer" where
  "spec_call l now Fail s = map_prod id Count (spec_failure l now s)"
| "spec_call l now AskLocked s = (s, Flag (locked_until s \<noteq> None))"
| "spec_call l now Reset s = (new_acct, Done)"
| "spec_call l now Force s = (s\<lparr>locked_until := Some (now + lo_lockout_duration l)\<rparr>, Done)"
| "spec_call l now AskCount s = (s, Count (failures s))"

fun spec_run :: "lockout \<Rightarrow> (nat \<times> lock_call) list \<Rightarrow> acct \<Rightarrow> acct \<times> lock_answer list" where
  "spec_run l [] s = (s, [])"
| "spec_run l ((now, call) # h) s =
     (let (s1, r) = spec_call l now call (age l now s); (s2, rs) = spec_run l h s1 in (s2, r # rs))"

text \<open>The same calls on the cache.\<close>

fun lock_prog :: "lockout \<Rightarrow> string \<Rightarrow> lock_call \<Rightarrow> lock_answer prog" where
  "lock_prog l a Fail = bind_prog (record_failure l a) (\<lambda>n. Return (Count n))"
| "lock_prog l a AskLocked = bind_prog (is_locked l a) (\<lambda>b. Return (Flag b))"
| "lock_prog l a Reset = bind_prog (clear l a) (\<lambda>_. Return Done)"
| "lock_prog l a Force = bind_prog (force_lock l a) (\<lambda>_. Return Done)"
| "lock_prog l a AskCount = bind_prog (attempt_count l a) (\<lambda>n. Return (Count n))"

fun lock_run :: "'c cache_api \<Rightarrow> lockout \<Rightarrow> string \<Rightarrow> (nat \<times> lock_call) list \<Rightarrow> 'c \<Rightarrow> 'c \<times> lock_answer list" where
  "lock_run api l a [] c = (c, [])"
| "lock_run api l a ((now, call) # h) c =
     (let (c1, r) = run_prog (lock_prog l a call) api now c; (c2, rs) = lock_run api l a h c1 in (c2, r # rs))"

section \<open>The state in the cache\<close>

definition lock_in :: "nat \<Rightarrow> (string \<times> nat option) option \<Rightarrow> nat option \<Rightarrow> bool" where
  "lock_in now e u \<longleftrightarrow>
     (case u of None \<Rightarrow> live_at now e = None | Some t \<Rightarrow> now \<le> t \<and> (\<exists>v. e = Some (v, Some t)))"

definition window_in :: "lockout \<Rightarrow> string \<Rightarrow> nat \<Rightarrow> cache_view \<Rightarrow> nat option \<Rightarrow> nat \<Rightarrow> bool" where
  "window_in l a now view opened n \<longleftrightarrow>
     (case opened of
        None \<Rightarrow> live_at now (view (window_key l a)) = None \<and> n = 0
      | Some t \<Rightarrow> t \<le> now \<and> now \<le> t + lo_counter_ttl l \<and>
          view (window_key l a) = Some (show_int (int t), Some (t + lo_counter_ttl l)) \<and>
          counter_stands view (window_counter_key l a (show_int (int t))) (t + lo_counter_ttl l) n)"

definition no_later_counter :: "lockout \<Rightarrow> string \<Rightarrow> nat \<Rightarrow> cache_view \<Rightarrow> nat option \<Rightarrow> bool" where
  "no_later_counter l a now view opened \<longleftrightarrow>
     (\<forall>t \<ge> now. Some t \<noteq> opened \<longrightarrow> view (window_counter_key l a (show_int (int t))) = None)"

definition acct_in :: "lockout \<Rightarrow> string \<Rightarrow> nat \<Rightarrow> cache_view \<Rightarrow> acct \<Rightarrow> bool" where
  "acct_in l a now view s \<longleftrightarrow>
     lock_in now (view (lock_key l a)) (locked_until s) \<and> window_in l a now view (opened_at s) (failures s) \<and>
     no_later_counter l a now view (opened_at s) \<and> failures s < lo_max_attempts l"

text \<open>A configuration and a time the machine integers and the cache's longest expiry leave exact.\<close>

definition lock_scope :: "nat \<Rightarrow> lockout \<Rightarrow> nat \<Rightarrow> bool" where
  "lock_scope limit l now \<longleftrightarrow>
     0 < lo_max_attempts l \<and> lo_max_attempts l < 2 ^ 32 \<and> max (lo_counter_ttl l) 1000 \<le> limit \<and>
     lo_lockout_duration l \<le> limit \<and> int now < 2 ^ 63"

lemma lock_in_age: "lock_in now e u \<Longrightarrow> now \<le> now' \<Longrightarrow>
  lock_in now' e (case u of None \<Rightarrow> None | Some t \<Rightarrow> if now' > t then None else Some t)"
  by (auto simp: lock_in_def live_at_def split: option.splits if_splits)

lemma acct_in_age:
  assumes "acct_in l a now view s" "now \<le> now'" "0 < lo_max_attempts l"
  shows "acct_in l a now' view (age l now' s)"
proof -
  have lock: "locked_until (age l now' s) = (case locked_until s of None \<Rightarrow> None | Some t \<Rightarrow> if now' > t then None else Some t)"
    by (auto simp: age_def Let_def split: option.split)
  have win: "opened_at (age l now' s) = (case opened_at s of None \<Rightarrow> None | Some t \<Rightarrow> if now' > t + lo_counter_ttl l then None else Some t)"
    "failures (age l now' s) = (case opened_at s of None \<Rightarrow> failures s | Some t \<Rightarrow> if now' > t + lo_counter_ttl l then 0 else failures s)"
    by (auto simp: age_def Let_def split: option.split)
  have "lock_in now' (view (lock_key l a)) (locked_until (age l now' s))"
    unfolding lock using assms by (intro lock_in_age) (simp_all add: acct_in_def)
  moreover have "window_in l a now' view (opened_at (age l now' s)) (failures (age l now' s))"
    using assms unfolding win by (auto simp: acct_in_def window_in_def live_at_def split: option.splits)
  moreover have "no_later_counter l a now' view (opened_at (age l now' s))"
    using assms unfolding win by (auto simp: acct_in_def no_later_counter_def window_in_def split: option.splits if_splits)
  moreover have "failures (age l now' s) < lo_max_attempts l"
    using assms unfolding win by (auto simp: acct_in_def split: option.split)
  ultimately show ?thesis by (simp add: acct_in_def)
qed

section \<open>Each call refines its specification\<close>

lemma counter_stands_zero: "view key = None \<Longrightarrow> counter_stands view key d 0"
  by (simp add: counter_stands_def)

lemma show_int_inj: "i64_range m \<Longrightarrow> i64_range n \<Longrightarrow> show_int m = show_int n \<Longrightarrow> m = n"
  by (metis parse_show_int option.inject)

lemma counter_keys_inj:
  "window_counter_key l a w = window_counter_key l a w' \<longleftrightarrow> w = w'"
  by (simp add: window_counter_key_def)

lemma failures_counter_differ [simp]:
  "window_failures_key l a w \<noteq> window_counter_key l a w'" "window_counter_key l a w \<noteq> window_failures_key l a w'"
  by (simp_all add: window_counter_key_def window_failures_key_def)

lemma counter_elsewhere:
  "k \<noteq> key \<Longrightarrow> counter_stands (V(k := e)) key d n = counter_stands V key d n"
  by (rule counter_stands_other) simp

lemma i64_now: "lock_scope limit l now \<Longrightarrow> i64_range (int now)"
  by (simp add: lock_scope_def i64_range_def)

context counter_cache
begin

lemma leaves_is_locked:
  assumes "lock_in now (V (lock_key l a)) u" "Q V (u \<noteq> None)"
  shows "leaves now (is_locked l a) Q V"
proof -
  have "live_at now (V (lock_key l a)) \<noteq> None \<longleftrightarrow> u \<noteq> None"
    using assms(1) by (auto simp: lock_in_def split: option.splits)
  then show ?thesis unfolding is_locked_def using assms(2)
    by (intro leaves_exists leaves_return) simp
qed

lemma leaves_window_closed:
  assumes "window_in l a now V opened n" "Q V (Inr (map_option (\<lambda>t. show_int (int t)) opened))"
  shows "leaves now (window l a False) Q V"
  unfolding window_def numeral_2_eq_2 window_loop.simps
  using assms by (intro leaves_get) (auto simp: window_in_def intro: leaves_return split: option.splits)

lemma leaves_window_open:
  assumes w: "window_in l a now V opened n" and scope: "lock_scope limit l now"
    and Q: "\<And>t. opened = Some t \<Longrightarrow> Q V (Inr (Some (show_int (int t))))"
      "opened = None \<Longrightarrow> Q (V(window_key l a \<mapsto> (show_int (int now), Some (now + lo_counter_ttl l)))) (Inr (Some (show_int (int now))))"
  shows "leaves now (window l a True) Q V"
proof (cases opened)
  case None
  then have none: "live_at now (V (window_key l a)) = None" using w by (simp add: window_in_def)
  have "min (lo_counter_ttl l) limit = lo_counter_ttl l" using scope by (simp add: lock_scope_def)
  then have "leaves now (AddNew (window_key l a) (show_int (int now)) (Some (lo_counter_ttl l)) (\<lambda>r. case r of
      Inl e \<Rightarrow> Return (Inl e) | Inr True \<Rightarrow> Return (Inr (Some (show_int (int now)))) | Inr False \<Rightarrow> window_loop l a True (Suc 0))) Q V"
    using Q(2) [OF None] none by (intro leaves_add) (simp_all add: leaves_return)
  then show ?thesis unfolding window_def numeral_2_eq_2 window_loop.simps(2) [of l a True "Suc 0"]
    by (intro leaves_get) (simp add: none Let_def leaves_clock del: window_loop.simps)
next
  case (Some t)
  then show ?thesis unfolding window_def numeral_2_eq_2 window_loop.simps
    using Q(1) [OF Some] w by (intro leaves_get) (auto simp: window_in_def intro: leaves_return)
qed

lemma leaves_count_in:
  assumes "t \<le> now" "now \<le> t + lo_counter_ttl l" "lock_scope limit l now"
    and stands: "counter_stands V (window_counter_key l a (show_int (int t))) (t + lo_counter_ttl l) n" and n: "n < lo_max_attempts l"
    and Q: "\<And>e. counter_stands (V(window_counter_key l a (show_int (int t)) \<mapsto> e))
        (window_counter_key l a (show_int (int t))) (t + lo_counter_ttl l) (n + 1) \<Longrightarrow>
      leaves now (f (Inr (int n + 1))) Q (V(window_counter_key l a (show_int (int t)) \<mapsto> e))"
  shows "leaves now (Incr (window_counter_key l a (show_int (int t))) 1 (Some (window_left_at l (show_int (int t)) now)) f) Q V"
proof (rule leaves_incr)
  let ?k = "window_counter_key l a (show_int (int t))"
  have n64: "int n + 1 < 2 ^ 63" using n assms(3) by (simp add: lock_scope_def)
  then show "checked_add (count_at now (V ?k)) 1 = Inr (int n + 1)"
    using counter_stands_count [OF stands assms(2)] by (simp add: checked_add_def i64_range_def)
  have r: "i64_range (int t)" using assms(1,3) by (simp add: lock_scope_def i64_range_def)
  have "left_ok limit (t + lo_counter_ttl l) now (window_left_at l (show_int (int t)) now)"
    using assms(3) by (intro window_left_ok r assms(1)) (simp add: lock_scope_def)
  moreover fix d
  assume "expiry_after_incr now (now + min (window_left_at l (show_int (int t)) now) limit) (V ?k) d"
  ultimately have "case d of None \<Rightarrow> True | Some u \<Rightarrow> t + lo_counter_ttl l \<le> u"
    using stands by (auto simp: expiry_after_incr_def counter_stands_def left_ok_def split: option.splits)
  then have "counter_stands (V(?k \<mapsto> (show_int (int n + 1), d))) ?k (t + lo_counter_ttl l) (n + 1)"
    by (simp add: counter_stands_def add.commute)
  then show "leaves now (f (Inr (int n + 1))) Q (V(?k \<mapsto> (show_int (int n + 1), d)))" by (rule Q)
qed

lemma leaves_count_failure:
  assumes s: "acct_in l a now V s" and scope: "lock_scope limit l now"
    and Q: "\<And>V'. window_in l a now V' (Some (case opened_at s of None \<Rightarrow> now | Some t \<Rightarrow> t)) (failures s + 1) \<Longrightarrow>
      no_later_counter l a now V' (Some (case opened_at s of None \<Rightarrow> now | Some t \<Rightarrow> t)) \<Longrightarrow>
      V' (lock_key l a) = V (lock_key l a) \<Longrightarrow> Q V' (Inr (Some (int (failures s) + 1)))"
  shows "leaves now (count_failure l a) Q V"
  unfolding count_failure_def
proof (rule leaves_bind)
  have w: "window_in l a now V (opened_at s) (failures s)" and later: "no_later_counter l a now V (opened_at s)"
    and n: "failures s < lo_max_attempts l" using s by (simp_all add: acct_in_def)
  let ?go = "\<lambda>w. case w of Inl e \<Rightarrow> Return (Inl e) | Inr None \<Rightarrow> Return (Inr None)
      | Inr (Some wid) \<Rightarrow> bind_prog (window_left l wid) (\<lambda>left. Incr (window_counter_key l a wid) 1 (Some left)
          (\<lambda>r. Return (case r of Inl e \<Rightarrow> Inl e | Inr n \<Rightarrow> Inr (Some n))))"
  have counted: "leaves now (?go (Inr (Some (show_int (int t))))) Q W"
    if "window_in l a now W (Some t) (failures s)" "no_later_counter l a now W (Some t)" "W (lock_key l a) = V (lock_key l a)"
      "t = (case opened_at s of None \<Rightarrow> now | Some t \<Rightarrow> t)" for W t
  proof -
    note W = that
    have wt: "t \<le> now" "now \<le> t + lo_counter_ttl l"
      "counter_stands W (window_counter_key l a (show_int (int t))) (t + lo_counter_ttl l) (failures s)"
      using W(1) by (simp_all add: window_in_def)
    have "leaves now (Incr (window_counter_key l a (show_int (int t))) 1 (Some (window_left_at l (show_int (int t)) now))
        (\<lambda>r. Return (case r of Inl e \<Rightarrow> Inl e | Inr n \<Rightarrow> Inr (Some n)))) Q W"
    proof (rule leaves_count_in [OF wt(1,2) scope wt(3) n])
      fix e
      assume "counter_stands (W(window_counter_key l a (show_int (int t)) \<mapsto> e)) (window_counter_key l a (show_int (int t)))
          (t + lo_counter_ttl l) (failures s + 1)"
      then have "window_in l a now (W(window_counter_key l a (show_int (int t)) \<mapsto> e)) (Some t) (failures s + 1)"
        using W(1) by (simp add: window_in_def)
      moreover have "no_later_counter l a now (W(window_counter_key l a (show_int (int t)) \<mapsto> e)) (Some t)"
      proof -
        have "show_int (int u) = show_int (int t) \<Longrightarrow> u = t" for u
          by (metis digits_value_show_nat nat_int not_less of_nat_0_le_iff show_int_def)
        then show ?thesis using W(2) by (auto simp: no_later_counter_def counter_keys_inj)
      qed
      ultimately show "leaves now (Return (case Inr (int (failures s) + 1) of Inl e \<Rightarrow> Inl e | Inr n \<Rightarrow> Inr (Some n))) Q
          (W(window_counter_key l a (show_int (int t)) \<mapsto> e))"
        using Q W(3,4) by (intro leaves_return) simp
    qed
    then show ?thesis by (simp add: window_left_def leaves_clock)
  qed
  show "leaves now (window l a True) (\<lambda>V' w. leaves now (?go w) Q V') V"
  proof (rule leaves_window_open [OF w scope])
    fix t
    assume "opened_at s = Some t"
    then show "leaves now (?go (Inr (Some (show_int (int t))))) Q V" using w later by (intro counted) simp_all
  next
    assume none: "opened_at s = None"
    let ?W = "V(window_key l a \<mapsto> (show_int (int now), Some (now + lo_counter_ttl l)))"
    have "V (window_counter_key l a (show_int (int now))) = None" "failures s = 0"
      using later w none by (simp_all add: no_later_counter_def window_in_def)
    then have "window_in l a now ?W (Some now) (failures s)"
      by (simp add: window_in_def counter_elsewhere counter_stands_zero)
    moreover have "no_later_counter l a now ?W (Some now)" using later none by (simp add: no_later_counter_def)
    ultimately show "leaves now (?go (Inr (Some (show_int (int now))))) Q ?W"
      using none by (intro counted) simp_all
  qed
qed

lemma leaves_clear_window:
  assumes w: "window_in l a now V opened n" "no_later_counter l a now V opened"
    and Q: "\<And>V'. window_in l a now V' None 0 \<Longrightarrow> no_later_counter l a now V' None \<Longrightarrow>
      V' (lock_key l a) = V (lock_key l a) \<Longrightarrow> Q V' ()"
  shows "leaves now (clear_window l a) Q V"
  unfolding clear_window_def
proof (rule leaves_bind, rule leaves_window_closed [OF w(1)])
  show "leaves now (bind_prog (case Inr (map_option (\<lambda>t. show_int (int t)) opened) of
      Inr (Some wid) \<Rightarrow> Del (window_counter_key l a wid) (\<lambda>_. Del (window_failures_key l a wid) (\<lambda>_. Return ()))
    | _ \<Rightarrow> Return ()) (\<lambda>_. Del (window_key l a) (\<lambda>_. Return ()))) Q V"
  proof (cases opened)
    case None
    have "Q (V(window_key l a := None)) ()"
      using w(2) None by (intro Q) (simp_all add: window_in_def no_later_counter_def)
    then show ?thesis using None by (simp add: leaves_del leaves_return)
  next
    case (Some t)
    have "Q (V(window_counter_key l a (show_int (int t)) := None, window_failures_key l a (show_int (int t)) := None, window_key l a := None)) ()"
      using w(2) Some by (intro Q) (auto simp: window_in_def no_later_counter_def)
    then show ?thesis using Some by (simp add: leaves_del leaves_return)
  qed
qed

lemma leaves_lock_out:
  assumes w: "window_in l a now V opened n" "no_later_counter l a now V opened" and scope: "lock_scope limit l now"
    and Q: "\<And>V'. acct_in l a now V' \<lparr>locked_until = Some (now + lo_lockout_duration l), opened_at = None, failures = 0\<rparr> \<Longrightarrow> Q V' ()"
  shows "leaves now (Put (lock_key l a) ''1'' (Some (lo_lockout_duration l)) (\<lambda>_. clear_window l a)) Q V"
proof (rule leaves_put)
  let ?W = "V(lock_key l a \<mapsto> (''1'', Some (now + lo_lockout_duration l)))"
  show "is_text ''1''" by (simp add: is_text_def is_utf8_def)
  have "window_in l a now ?W opened n" "no_later_counter l a now ?W opened"
    using w by (auto simp: window_in_def no_later_counter_def counter_elsewhere split: option.splits)
  then have "leaves now (clear_window l a) Q ?W"
    using scope by (intro leaves_clear_window Q) (simp_all add: acct_in_def lock_in_def lock_scope_def)
  then show "leaves now (clear_window l a) Q (V(lock_key l a \<mapsto> (''1'', Some (now + min (lo_lockout_duration l) limit))))"
    using scope by (simp add: lock_scope_def)
qed

lemma leaves_record_failure:
  assumes s: "acct_in l a now V s" and scope: "lock_scope limit l now"
    and Q: "\<And>V'. acct_in l a now V' (fst (spec_failure l now s)) \<Longrightarrow> Q V' (snd (spec_failure l now s))"
  shows "leaves now (record_failure l a) Q V"
  unfolding record_failure_def
proof (rule leaves_bind, rule leaves_is_locked [where u = "locked_until s"])
  show lock: "lock_in now (V (lock_key l a)) (locked_until s)" using s by (simp add: acct_in_def)
  let ?n = "failures s + 1"
  have n: "?n \<le> lo_max_attempts l" "to_u32 (int (failures s) + 1) = ?n"
    using s scope by (simp_all add: acct_in_def lock_scope_def to_u32_def nat_add_distrib)
  let ?lock = "\<lambda>next_count. if lo_max_attempts l \<le> next_count then
      Put (lock_key l a) ''1'' (Some (lo_lockout_duration l)) (\<lambda>_. bind_prog (clear_window l a) (\<lambda>_. Return next_count))
    else Return next_count"
  have tail: "leaves now (?lock ?n) Q V'" if "locked_until s = None" "window_in l a now V' (Some t) ?n"
      "no_later_counter l a now V' (Some t)" "V' (lock_key l a) = V (lock_key l a)"
      "t = (case opened_at s of None \<Rightarrow> now | Some t \<Rightarrow> t)" for V' t
  proof (cases "lo_max_attempts l \<le> ?n")
    case True
    have "leaves now (Put (lock_key l a) ''1'' (Some (lo_lockout_duration l)) (\<lambda>_. clear_window l a)) (\<lambda>U r. leaves now (Return ?n) Q U) V'"
      using that(1) True Q by (intro leaves_lock_out [OF that(2,3) scope] leaves_return) (simp add: spec_failure_def)
    then show ?thesis using True leaves_bind by fastforce
  next
    case False
    then have "acct_in l a now V' (fst (spec_failure l now s))"
      using that lock n(1) by (simp add: spec_failure_def acct_in_def)
    then show ?thesis using False that(1) Q by (simp add: spec_failure_def leaves_return)
  qed
  show "leaves now (if locked_until s \<noteq> None then Return (lo_max_attempts l)
      else bind_prog (count_failure l a) (\<lambda>r. let next_count = to_u32 (case r of Inr (Some n) \<Rightarrow> n | _ \<Rightarrow> 0) in ?lock next_count)) Q V"
  proof (cases "locked_until s")
    case None
    have "leaves now (bind_prog (count_failure l a) (\<lambda>r. let next_count = to_u32 (case r of Inr (Some n) \<Rightarrow> n | _ \<Rightarrow> 0) in ?lock next_count)) Q V"
    proof (rule leaves_bind, rule leaves_count_failure [OF s scope])
      fix V' let ?t = "case opened_at s of None \<Rightarrow> now | Some t \<Rightarrow> t"
      assume "window_in l a now V' (Some ?t) ?n" "no_later_counter l a now V' (Some ?t)" "V' (lock_key l a) = V (lock_key l a)"
      from tail [OF None this refl] show "leaves now (let next_count = to_u32 (case Inr (Some (int (failures s) + 1)) of
          Inr (Some n) \<Rightarrow> n | _ \<Rightarrow> 0) in ?lock next_count) Q V'"
        unfolding Let_def sum.case option.case n(2) .
    qed
    then show ?thesis using None by simp
  next
    case (Some u)
    then show ?thesis using Q [of V] s by (simp add: spec_failure_def leaves_return)
  qed
qed

lemma leaves_attempt_count:
  assumes "acct_in l a now V s" "lock_scope limit l now" "Q V (failures s)"
  shows "leaves now (attempt_count l a) Q V"
proof -
  have w: "window_in l a now V (opened_at s) (failures s)" and n: "failures s < 2 ^ 32"
    using assms by (simp_all add: acct_in_def lock_scope_def)
  have read: "leaves now (read_count (window_counter_key l a (show_int (int t)))) Q V" if t: "opened_at s = Some t" for t
  proof -
    let ?k = "window_counter_key l a (show_int (int t))"
    have "live_at now (V ?k) = None \<and> failures s = 0 \<or> live_at now (V ?k) = Some (show_int (int (failures s)))"
      using w t by (auto simp: window_in_def counter_stands_def live_at_def split: option.splits)
    moreover have "parse_u32 (show_int (int (failures s))) = Some (of_nat (failures s))"
      using parse_u32_show [of "of_nat (failures s)"] n by (simp add: show_int_def unat_of_nat take_bit_nat_eq_self)
    ultimately show ?thesis unfolding read_count_def using assms(3) n
      by (intro leaves_get leaves_return) (auto simp: unat_of_nat take_bit_nat_eq_self)
  qed
  then show ?thesis unfolding attempt_count_def counter_key_def
    using w assms(3)
    by (intro leaves_bind leaves_window_closed [OF w] leaves_return)
      (auto simp: window_in_def intro: leaves_return split: option.splits)
qed

lemma leaves_lock_prog:
  assumes s: "acct_in l a now V s" and scope: "lock_scope limit l now"
    and Q: "\<And>V'. acct_in l a now V' (fst (spec_call l now call s)) \<Longrightarrow> Q V' (snd (spec_call l now call s))"
  shows "leaves now (lock_prog l a call) Q V"
proof (cases call)
  case Fail
  then show ?thesis using Q
    by (auto intro!: leaves_bind leaves_record_failure [OF s scope] leaves_return)
next
  case AskLocked
  then show ?thesis using Q [of V] s
    by (auto simp: acct_in_def intro!: leaves_bind leaves_is_locked leaves_return)
next
  case Reset
  have "leaves now (clear_window l a) (\<lambda>V' _. leaves now (Del (lock_key l a) (\<lambda>_. Return Done)) Q V') V"
  proof (rule leaves_clear_window [where opened = "opened_at s" and n = "failures s"])
    fix V'
    assume "window_in l a now V' None 0" "no_later_counter l a now V' None"
    then have "acct_in l a now (V'(lock_key l a := None)) new_acct"
      using scope by (auto simp: acct_in_def new_acct_def lock_in_def window_in_def no_later_counter_def lock_scope_def)
    then show "leaves now (Del (lock_key l a) (\<lambda>_. Return Done)) Q V'"
      using Q Reset by (intro leaves_del leaves_return) simp
  qed (use s in \<open>simp_all add: acct_in_def\<close>)
  then show ?thesis using Reset by (simp add: clear_def leaves_bind)
next
  case Force
  have "acct_in l a now (V(lock_key l a \<mapsto> (''1'', Some (now + lo_lockout_duration l)))) (s\<lparr>locked_until := Some (now + lo_lockout_duration l)\<rparr>)"
    using s by (auto simp: acct_in_def lock_in_def window_in_def no_later_counter_def counter_elsewhere split: option.splits)
  then show ?thesis using Force Q scope
    by (auto simp: force_lock_def is_text_def is_utf8_def lock_scope_def intro!: leaves_put leaves_return)
next
  case AskCount
  then show ?thesis using Q [of V] s
    by (auto intro!: leaves_bind leaves_attempt_count [OF s scope] leaves_return)
qed

lemma lock_run_refines:
  assumes "ok c" "acct_in l a now (entry c) s" "sorted (now # map fst h)" "\<forall>(t, call) \<in> set h. lock_scope limit l t"
  shows "snd (lock_run api l a h c) = snd (spec_run l h s) \<and>
    acct_in l a (last (now # map fst h)) (entry (fst (lock_run api l a h c))) (fst (spec_run l h s)) \<and> ok (fst (lock_run api l a h c))"
  using assms
proof (induction h arbitrary: c s now)
  case (Cons tc h)
  obtain t call where tc: "tc = (t, call)" by fastforce
  have scope: "lock_scope limit l t" and le: "now \<le> t" using Cons.prems(3,4) tc by auto
  have aged: "acct_in l a t (entry c) (age l t s)"
    using scope by (intro acct_in_age [OF Cons.prems(2) le]) (simp add: lock_scope_def)
  obtain c' r where run: "run_prog (lock_prog l a call) api t c = (c', r)" "ok c'"
      "acct_in l a t (entry c') (fst (spec_call l t call (age l t s)))" "r = snd (spec_call l t call (age l t s))"
    using leaves_lock_prog [OF aged scope, of call
        "\<lambda>V' r. acct_in l a t V' (fst (spec_call l t call (age l t s))) \<and> r = snd (spec_call l t call (age l t s))"] Cons.prems(1)
    by (auto simp: leaves_def)
  have "sorted (t # map fst h)" "\<forall>(t, call) \<in> set h. lock_scope limit l t" using Cons.prems(3,4) tc by auto
  from Cons.IH [OF run(2,3) this] show ?case
    using run tc by (simp add: Let_def case_prod_beta')
qed simp

end

section \<open>Failed logins lock\<close>

lemma spec_run_append:
  "spec_run l (h @ h') s = (fst (spec_run l h' (fst (spec_run l h s))), snd (spec_run l h s) @ snd (spec_run l h' (fst (spec_run l h s))))"
  by (induction h arbitrary: s) (auto simp: Let_def case_prod_beta')

definition after_failures :: "lockout \<Rightarrow> nat list \<Rightarrow> acct" where
  "after_failures l ts =
     (if ts = [] then new_acct
      else if length ts < lo_max_attempts l then \<lparr>locked_until = None, opened_at = Some (hd ts), failures = length ts\<rparr>
      else \<lparr>locked_until = Some (last ts + lo_lockout_duration l), opened_at = None, failures = 0\<rparr>)"

lemma spec_failures:
  assumes "sorted ts" "length ts \<le> lo_max_attempts l" "\<forall>t \<in> set ts. t \<le> hd ts + lo_counter_ttl l" "0 < lo_max_attempts l"
  shows "spec_run l (map (\<lambda>t. (t, Fail)) ts) new_acct = (after_failures l ts, map Count [1..<Suc (length ts)])"
  using assms
proof (induction ts rule: rev_induct)
  case Nil
  then show ?case by (simp add: after_failures_def)
next
  case (snoc t ts)
  have "\<forall>u \<in> set ts. u \<le> hd ts + lo_counter_ttl l" using snoc.prems(3) by (cases ts) auto
  then have IH: "spec_run l (map (\<lambda>t. (t, Fail)) ts) new_acct = (after_failures l ts, map Count [1..<Suc (length ts)])"
    using snoc by (simp add: sorted_append)
  have "t \<le> hd ts + lo_counter_ttl l" if "ts \<noteq> []" using snoc.prems(3) that by (simp add: hd_append)
  then have "spec_failure l t (age l t (after_failures l ts)) = (after_failures l (ts @ [t]), Suc (length ts))"
    using snoc.prems(2) by (cases ts) (auto simp: after_failures_def age_def spec_failure_def new_acct_def Let_def)
  then show ?case by (simp add: spec_run_append IH Let_def del: upt_Suc) simp
qed

lemma spec_locked_after_failures:
  assumes "ts \<noteq> []" "length ts \<le> lo_max_attempts l"
  shows "snd (spec_run l [(u, AskLocked)] (after_failures l ts)) =
    [Flag (length ts = lo_max_attempts l \<and> u \<le> last ts + lo_lockout_duration l)]"
  using assms by (auto simp: after_failures_def age_def Let_def)

lemma new_acct_in: "V = (\<lambda>_. None) \<Longrightarrow> 0 < lo_max_attempts l \<Longrightarrow> acct_in l a 0 V new_acct"
  by (simp add: acct_in_def new_acct_def lock_in_def window_in_def no_later_counter_def)

lemma lock_run_from_empty:
  assumes "ic_store c = empty_store" "ic_max_bytes c = 0" "ic_max_entries c = 0" "sorted (map fst h)"
    "\<forall>(t, call) \<in> set h. lock_scope far_future l t"
  shows "snd (lock_run in_memory_api l a h c) = snd (spec_run l h new_acct)"
proof (cases h)
  case (Cons x h')
  then have "0 < lo_max_attempts l" using assms(5) by (cases x) (auto simp: lock_scope_def)
  then have "acct_in l a 0 (mem_entry c) new_acct" using empty_unbounded [OF assms(1-3)] by (intro new_acct_in) simp_all
  then show ?thesis
    using mem.lock_run_refines [of c l a 0 new_acct h] empty_unbounded [OF assms(1-3)] assms(4,5) by simp
qed simp

end
