(* ===== verification/Keyspace.thy ===== *)
theory Keyspace
  imports Cache
begin

text \<open>
  Who a cache key belongs to, \<open>crates/rustango/src/cache/keyspace.rs\<close>, and the tenant's namespace of
  \<open>tenancy/principal.rs\<close>: a global key never reads as a tenant's key, and no two names of one area meet.
\<close>

section \<open>Keys\<close>

record tenant_slug =
  ts_slug :: string
  ts_org_id :: int

definition tenant_namespace :: "tenant_slug \<Rightarrow> string" where
  "tenant_namespace t = ''#org:'' @ show_int (ts_org_id t) @ '':'' @ ts_slug t"

definition tenant_binds :: "tenant_slug \<Rightarrow> string \<Rightarrow> int \<Rightarrow> bool" where
  "tenant_binds t slug org_id \<longleftrightarrow> ts_slug t = slug \<and> ts_org_id t = org_id"

datatype area = App | Lock | Idem | Page | Rl | FlagArea | Session

definition area_name :: "area \<Rightarrow> string" where
  "area_name a =
     (case a of App \<Rightarrow> ''app'' | Lock \<Rightarrow> ''lock'' | Idem \<Rightarrow> ''idem'' | Page \<Rightarrow> ''page'' | Rl \<Rightarrow> ''rl''
      | FlagArea \<Rightarrow> ''flag'' | Session \<Rightarrow> ''session'')"

definition area_bare :: "area \<Rightarrow> bool" where
  "area_bare a \<longleftrightarrow> a = App \<or> a = Page \<or> a = Rl"

datatype key_space = GlobalSpace | TenantSpace tenant_slug

definition tenant_prefix :: string where
  "tenant_prefix = ''tenant''"

definition space_key :: "key_space \<Rightarrow> area \<Rightarrow> string \<Rightarrow> string" where
  "space_key s a rest =
     (case s of
        GlobalSpace \<Rightarrow>
          (let tenant_like = (case strip_prefix tenant_prefix rest of None \<Rightarrow> False | Some r \<Rightarrow> starts_with r '':'');
               rest' = (if tenant_like \<or> starts_with rest ''~'' then CHR ''~'' # rest else rest)
           in if area_bare a then rest' else area_name a @ '':'' @ rest')
      | TenantSpace t \<Rightarrow> tenant_prefix @ '':'' @ tenant_namespace t @ '':'' @ area_name a @ '':'' @ rest)"

definition space_namespace :: "key_space \<Rightarrow> string option" where
  "space_namespace s = (case s of GlobalSpace \<Rightarrow> None | TenantSpace t \<Rightarrow> Some (tenant_namespace t))"

definition legacy_key :: "key_space \<Rightarrow> area \<Rightarrow> string \<Rightarrow> string option" where
  "legacy_key s a rest =
     (case space_namespace s of
        None \<Rightarrow> None
      | Some ns \<Rightarrow>
          (case a of
             Lock \<Rightarrow> Some (''lock:'' @ tenant_prefix @ '':'' @ ns @ '':'' @ rest)
           | Idem \<Rightarrow> Some (''idem:'' @ rest)
           | Page \<Rightarrow> Some rest
           | _ \<Rightarrow> None))"

definition purge_prefixes :: "key_space \<Rightarrow> string list" where
  "purge_prefixes s =
     (case space_namespace s of
        None \<Rightarrow> []
      | Some ns \<Rightarrow> [tenant_prefix @ '':'' @ ns @ '':'', ''lock:'' @ tenant_prefix @ '':'' @ ns @ '':''])"

section \<open>Global and tenant keys\<close>

text \<open>The escape of a global name.\<close>

definition escape_name :: "string \<Rightarrow> string" where
  "escape_name rest = (if starts_with rest ''tenant:'' \<or> starts_with rest ''~'' then CHR ''~'' # rest else rest)"

lemma starts_with_iff: "starts_with s p \<longleftrightarrow> (\<exists>r. s = p @ r)"
proof
  assume "starts_with s p"
  then have "s = p @ drop (length p) s" unfolding starts_with_def by (metis append_take_drop_id)
  then show "\<exists>r. s = p @ r" by blast
qed auto

lemma starts_with_both: "starts_with s (p @ q) \<longleftrightarrow> starts_with s p \<and> starts_with (drop (length p) s) q"
  by (auto simp: starts_with_iff)

lemma tenant_like_iff:
  "(case strip_prefix tenant_prefix rest of None \<Rightarrow> False | Some r \<Rightarrow> starts_with r '':'') \<longleftrightarrow> starts_with rest ''tenant:''"
  using starts_with_both [of rest "''tenant''" "'':''"] by (simp add: strip_prefix_def tenant_prefix_def)

lemma global_key: "space_key GlobalSpace a rest = (if area_bare a then escape_name rest else area_name a @ '':'' @ escape_name rest)"
  by (simp add: space_key_def tenant_like_iff escape_name_def Let_def)

lemma escape_name_inj: "escape_name x = escape_name y \<Longrightarrow> x = y"
  by (auto simp: escape_name_def starts_with_def split: if_splits)

lemma escape_name_not_tenant: "\<not> starts_with (escape_name rest) ''tenant:''"
  by (auto simp: escape_name_def starts_with_def)

lemma area_not_tenant: "\<not> starts_with (area_name a @ '':'' @ rest) ''tenant:''"
  by (cases a) (simp_all add: area_name_def starts_with_def)

lemma global_key_not_tenant: "\<not> starts_with (space_key GlobalSpace a rest) ''tenant:''"
  by (simp add: global_key escape_name_not_tenant area_not_tenant del: append.simps)

lemma tenant_key_tenant: "starts_with (space_key (TenantSpace t) a rest) ''tenant:''"
  by (simp add: space_key_def tenant_prefix_def starts_with_def)

lemma colon_split:
  "CHR '':'' \<notin> set x \<Longrightarrow> CHR '':'' \<notin> set x' \<Longrightarrow> x @ CHR '':'' # y = x' @ CHR '':'' # y' \<longleftrightarrow> x = x' \<and> y = y'"
proof (induction x arbitrary: x')
  case Nil
  then show ?case by (cases x') auto
next
  case (Cons c x)
  then show ?case by (cases x') auto
qed

lemma show_int_no_colon: "CHR '':'' \<notin> set (show_int n)"
proof -
  have "CHR '':'' \<notin> set (show_nat m)" for m
    using show_nat_digits [of m] by (auto simp: list_all_iff is_ascii_digit_def)
  then show ?thesis by (simp add: show_int_def)
qed

lemma area_name_no_colon: "CHR '':'' \<notin> set (area_name a)"
  by (cases a) (simp_all add: area_name_def)

lemma area_name_inj: "area_name a = area_name b \<longleftrightarrow> a = b"
  by (cases a; cases b) (simp_all add: area_name_def)

lemma show_int_eq_iff: "show_int m = show_int n \<longleftrightarrow> m = n"
proof -
  have nat: "show_nat i = show_nat j \<longleftrightarrow> i = j" for i j by (metis digits_value_show_nat)
  have sign: "show_nat i \<noteq> CHR ''-'' # cs" for i cs
    using show_nat_digits [of i] by (auto simp: is_ascii_digit_def)
  show ?thesis by (auto simp: show_int_def nat sign dest: sym [of "CHR ''-'' # _"])
qed

lemma tenant_key_form:
  "space_key (TenantSpace t) a rest =
     ''tenant:#org:'' @ show_int (ts_org_id t) @ CHR '':'' # ts_slug t @ CHR '':'' # area_name a @ CHR '':'' # rest"
  by (simp add: space_key_def tenant_prefix_def tenant_namespace_def)

lemma tenant_keys_org:
  "space_key (TenantSpace t) a r = space_key (TenantSpace t') a' r' \<Longrightarrow> ts_org_id t = ts_org_id t'"
  by (simp add: tenant_key_form colon_split show_int_no_colon show_int_eq_iff)

lemma tenant_keys_inj:
  assumes "space_key (TenantSpace t) a r = space_key (TenantSpace t') a' r'" "CHR '':'' \<notin> set (ts_slug t)" "CHR '':'' \<notin> set (ts_slug t')"
  shows "ts_slug t = ts_slug t' \<and> a = a' \<and> r = r'"
  using assms by (simp add: tenant_key_form colon_split show_int_no_colon area_name_no_colon area_name_inj)

lemma global_keys_inj: "space_key GlobalSpace a r = space_key GlobalSpace a r' \<Longrightarrow> r = r'"
  by (auto simp: global_key split: if_splits dest: escape_name_inj)

lemma global_tenant_apart: "space_key GlobalSpace a r \<noteq> space_key (TenantSpace t) a' r'"
  using global_key_not_tenant tenant_key_tenant by metis

end
