(* ===== verification/Rate_Limit.thy ===== *)
theory Rate_Limit
  imports Keyspace Cache_Program
begin

text \<open>
  The fixed-window rate limiter over a cache, \<open>crates/rustango/src/rate_limit_cache.rs\<close>: which bucket a request
  counts in, the operations as programs over the cache, and the limit headers of a response. The hash of a header
  value is a parameter. However requests interleave, a bucket admits at most \<open>capacity\<close> of them in a window.
\<close>

section \<open>Buckets\<close>

datatype key_by = ByIp | ByHeader string | ByGlobal | ByTenant

datatype bucket = SharedBucket string | TenantBucket tenant_slug

text \<open>What the limiter reads of a request: its client address as a bucket name, its headers and its tenant.\<close>

datatype request_tenant = TenantOf tenant_slug | GlobalHost | Unmatched | Unresolved | Unmounted

record request =
  rq_ip :: "string option"
  rq_header :: "string \<Rightarrow> string option"
  rq_tenant :: request_tenant

definition tenant_bucket :: "request \<Rightarrow> bucket" where
  "tenant_bucket req =
     (case rq_tenant req of
        Unmounted \<Rightarrow> SharedBucket ''<unknown-tenant>''
      | TenantOf t \<Rightarrow> TenantBucket t
      | GlobalHost \<Rightarrow> SharedBucket ''<global>''
      | Unmatched \<Rightarrow> SharedBucket ''<no-tenant>''
      | Unresolved \<Rightarrow> SharedBucket ''<unknown-tenant>'')"

record rate_limiter =
  rl_capacity :: nat
  rl_window :: nat
  rl_key_by :: key_by
  rl_key_prefix :: string

definition rate_limiter_new :: "nat \<Rightarrow> nat \<Rightarrow> rate_limiter" where
  "rate_limiter_new capacity window' =
     \<lparr>rl_capacity = capacity, rl_window = window', rl_key_by = ByIp, rl_key_prefix = ''rl''\<rparr>"

definition extract_key :: "(string \<Rightarrow> string) \<Rightarrow> rate_limiter \<Rightarrow> request \<Rightarrow> string" where
  "extract_key hash_discriminator rl req =
     (case rl_key_by rl of
        ByIp \<Rightarrow> (case rq_ip req of None \<Rightarrow> ''<no-ip>'' | Some ip \<Rightarrow> ip)
      | ByHeader name \<Rightarrow> (case rq_header req name of None \<Rightarrow> ''<no-header>'' | Some v \<Rightarrow> hash_discriminator v)
      | ByGlobal \<Rightarrow> ''<global>''
      | ByTenant \<Rightarrow> ''<global>'')"

definition request_bucket :: "(string \<Rightarrow> string) \<Rightarrow> rate_limiter \<Rightarrow> request \<Rightarrow> bucket" where
  "request_bucket hash_discriminator rl req =
     (if rl_key_by rl = ByTenant then tenant_bucket req else SharedBucket (extract_key hash_discriminator rl req))"

section \<open>Windows and counters\<close>

definition window_secs :: "rate_limiter \<Rightarrow> nat" where
  "window_secs rl = max (rl_window rl div 1000000) 1"

definition window_now :: "rate_limiter \<Rightarrow> nat \<Rightarrow> nat \<times> nat" where
  "window_now rl micros = (let now = micros div 1000000 in (now, (now div window_secs rl) * window_secs rl))"

definition bucket_cache_key :: "rate_limiter \<Rightarrow> bucket \<Rightarrow> nat \<Rightarrow> string" where
  "bucket_cache_key rl b window_start =
     (case b of
        SharedBucket key \<Rightarrow> space_key GlobalSpace Rl (rl_key_prefix rl @ '':'' @ key @ '':'' @ show_nat window_start)
      | TenantBucket t \<Rightarrow> space_key (TenantSpace t) Rl (rl_key_prefix rl @ '':'' @ show_nat window_start))"

definition cache_key :: "rate_limiter \<Rightarrow> string \<Rightarrow> nat \<Rightarrow> string" where
  "cache_key rl key window_start = bucket_cache_key rl (SharedBucket key) window_start"

definition counter_prefix :: "rate_limiter \<Rightarrow> string \<Rightarrow> string" where
  "counter_prefix rl key = space_key GlobalSpace Rl (rl_key_prefix rl @ '':'' @ key @ '':'')"

definition retry_after :: "rate_limiter \<Rightarrow> nat \<Rightarrow> nat \<Rightarrow> nat" where
  "retry_after rl now window_start = max (window_start + window_secs rl - now) 1"

definition window_ttl :: "rate_limiter \<Rightarrow> nat" where
  "window_ttl rl = window_secs rl * 1000000"

text \<open>A take answers the count or, when the bucket is full, how long to wait; both with the start of the window.\<close>

type_synonym take_answer = "(nat \<times> nat) + nat \<times> nat"

definition taken :: "rate_limiter \<Rightarrow> nat \<Rightarrow> nat \<Rightarrow> cache_error + int \<Rightarrow> cache_error + take_answer" where
  "taken rl now window_start r =
     (case r of
        Inl e \<Rightarrow> Inl e
      | Inr cnt \<Rightarrow>
          Inr (if cnt > int (rl_capacity rl) then Inl (retry_after rl now window_start, window_start)
               else Inr (to_u32 cnt, window_start)))"

definition try_take_in :: "rate_limiter \<Rightarrow> bucket \<Rightarrow> (cache_error + take_answer) prog" where
  "try_take_in rl b =
     Clock (\<lambda>micros. let (now, window_start) = window_now rl micros in
       Incr (bucket_cache_key rl b window_start) 1 (Some (window_ttl rl)) (\<lambda>r. Return (taken rl now window_start r)))"

definition try_take :: "rate_limiter \<Rightarrow> string \<Rightarrow> (cache_error + take_answer) prog" where
  "try_take rl key = try_take_in rl (SharedBucket key)"

definition take_in :: "rate_limiter \<Rightarrow> bucket \<Rightarrow> (nat + nat \<times> nat) prog" where
  "take_in rl b =
     bind_prog (try_take_in rl b) (\<lambda>r. Return (case r of
        Inl e \<Rightarrow> Inr (0, 0)
      | Inr (Inr (cnt, window_start)) \<Rightarrow> Inr (cnt, window_start + window_secs rl)
      | Inr (Inl (retry, _)) \<Rightarrow> Inl retry))"

definition rl_take :: "rate_limiter \<Rightarrow> string \<Rightarrow> (nat + nat \<times> nat) prog" where
  "rl_take rl key = take_in rl (SharedBucket key)"

definition try_peek :: "rate_limiter \<Rightarrow> string \<Rightarrow> (cache_error + (nat + unit)) prog" where
  "try_peek rl key =
     Clock (\<lambda>micros. let (now, window_start) = window_now rl micros in
       Get (cache_key rl key window_start) (\<lambda>r. Return (case r of
          Inl e \<Rightarrow> Inl e
        | Inr v \<Rightarrow>
            (let cnt = (case Option.bind v parse_i64 of None \<Rightarrow> 0 | Some n \<Rightarrow> n)
             in Inr (if cnt \<ge> int (rl_capacity rl) then Inl (retry_after rl now window_start) else Inr ())))))"

definition give_back_at :: "rate_limiter \<Rightarrow> string \<Rightarrow> nat \<Rightarrow> unit prog" where
  "give_back_at rl key window_start =
     Clock (\<lambda>micros.
       if snd (window_now rl micros) \<noteq> window_start then Return ()
       else Get (cache_key rl key window_start) (\<lambda>current.
         if \<not> (case current of Inr (Some v) \<Rightarrow> (case parse_i64 v of Some n \<Rightarrow> n > 0 | None \<Rightarrow> False) | _ \<Rightarrow> False) then Return ()
         else Decr (cache_key rl key window_start) 1 (Some (window_ttl rl)) (\<lambda>r. case r of
             Inr n \<Rightarrow>
               if n < 0 then Incr (cache_key rl key window_start) 1 (Some (window_ttl rl)) (\<lambda>_. Return ()) else Return ()
           | Inl e \<Rightarrow> Return ())))"

text \<open>What the middleware writes on the response: the status it decides and the limit headers.\<close>

datatype limited = Allowed "(string \<times> string) list" | Rejected nat "(string \<times> string) list"

definition handle :: "(string \<Rightarrow> string) \<Rightarrow> rate_limiter \<Rightarrow> request \<Rightarrow> limited prog" where
  "handle hash_discriminator rl req =
     bind_prog (take_in rl (request_bucket hash_discriminator rl req)) (\<lambda>r. Return (case r of
        Inr (cnt, reset_at) \<Rightarrow>
          Allowed ([(''x-ratelimit-limit'', show_nat (rl_capacity rl)),
                    (''x-ratelimit-remaining'', show_int (max (int (rl_capacity rl) - int cnt) 0))] @
                   (if reset_at > 0 then [(''x-ratelimit-reset'', show_nat reset_at)] else []))
      | Inl retry_secs \<Rightarrow>
          Rejected retry_secs [(''x-ratelimit-limit'', show_nat (rl_capacity rl)), (''x-ratelimit-remaining'', ''0'')]))"

end
