(* ===== verification/Rate_Limit_Correct.thy ===== *)
theory Rate_Limit_Correct
  imports Rate_Limit
begin

text \<open>
  At most \<open>capacity\<close> requests hold a slot of a bucket in a window, however takes and refunds interleave: the rate
  limiter is a second instance of \<open>slot_protocol\<close>. A refused take stays counted until its window ends.
\<close>

section \<open>Windows\<close>

lemma window_secs_pos: "0 < window_secs rl"
  by (simp add: window_secs_def)

lemma window_now_in:
  assumes "window_start * 1000000 \<le> now" "now < window_start * 1000000 + window_ttl rl" "window_secs rl dvd window_start"
  shows "snd (window_now rl now) = window_start"
proof -
  obtain q where q: "window_start = window_secs rl * q" using assms(3) by blast
  have "window_secs rl * q \<le> now div 1000000" using assms(1) q by (simp add: less_eq_div_iff_mult_less_eq)
  moreover have "now div 1000000 < window_secs rl * Suc q"
    using assms(2) q by (simp add: div_less_iff_less_mult window_ttl_def algebra_simps)
  ultimately have "now div 1000000 div window_secs rl = q"
    by (intro div_nat_eqI) (simp_all add: mult.commute)
  then show ?thesis using q by (simp add: window_now_def Let_def mult.commute)
qed

section \<open>Takes and refunds at once\<close>

definition take_slot :: "cache_error + take_answer \<Rightarrow> nat option" where
  "take_slot r = (case r of Inr (Inr (n, window_start)) \<Rightarrow> Some window_start | _ \<Rightarrow> None)"

definition refund :: "rate_limiter \<Rightarrow> string \<Rightarrow> nat \<Rightarrow> unit prog" where
  "refund rl key window_start =
     Decr (cache_key rl key window_start) 1 (Some (window_ttl rl)) (\<lambda>r. case r of
         Inr n \<Rightarrow>
           if n < 0 then Incr (cache_key rl key window_start) 1 (Some (window_ttl rl)) (\<lambda>_. Return ()) else Return ()
       | Inl e \<Rightarrow> Return ())"

definition refund_read :: "rate_limiter \<Rightarrow> string \<Rightarrow> nat \<Rightarrow> unit prog" where
  "refund_read rl key window_start =
     Get (cache_key rl key window_start) (\<lambda>current.
       if \<not> (case current of Inr (Some v) \<Rightarrow> (case parse_i64 v of Some n \<Rightarrow> n > 0 | None \<Rightarrow> False) | _ \<Rightarrow> False) then Return ()
       else refund rl key window_start)"

lemma give_back_unfold:
  "give_back_at rl key ws = Clock (\<lambda>micros. if snd (window_now rl micros) \<noteq> ws then Return () else refund_read rl key ws)"
  unfolding give_back_at_def refund_read_def refund_def ..

datatype take_label =
    Arriving | Taking nat | Admitting nat | Turning nat | Turned nat | InHand | Refunding | RefundReading | RefundWriting | Refunded | Out

fun take_thread :: "rate_limiter \<Rightarrow> string \<Rightarrow> nat \<Rightarrow> take_label \<Rightarrow> (cache_error + take_answer, nat) thread" where
  "take_thread rl k ws Arriving = Busy (try_take rl k)"
| "take_thread rl k ws (Taking now) =
     Busy (Incr (cache_key rl k ws) 1 (Some (window_ttl rl)) (\<lambda>r. Return (taken rl now ws r)))"
| "take_thread rl k ws (Admitting n) = Busy (Return (Inr (Inr (n, ws))))"
| "take_thread rl k ws (Turning retry) = Busy (Return (Inr (Inl (retry, ws))))"
| "take_thread rl k ws (Turned retry) = Refused (Inr (Inl (retry, ws)))"
| "take_thread rl k ws InHand = Holding ws"
| "take_thread rl k ws Refunding = Reporting (give_back_at rl k ws)"
| "take_thread rl k ws RefundReading = Reporting (refund_read rl k ws)"
| "take_thread rl k ws RefundWriting = Reporting (refund rl k ws)"
| "take_thread rl k ws Refunded = Reporting (Return ())"
| "take_thread rl k ws Out = Gone"

fun take_counted :: "take_label \<Rightarrow> nat" where
  "take_counted Arriving = 0" | "take_counted (Taking now) = 0" | "take_counted Refunded = 0" | "take_counted Out = 0"
| "take_counted _ = 1"

fun take_admitted :: "take_label \<Rightarrow> nat" where
  "take_admitted (Admitting n) = 1" | "take_admitted InHand = 1" | "take_admitted _ = 0"

text \<open>The window's counter is read and written within the window, up to its last microsecond.\<close>

definition window_end :: "rate_limiter \<Rightarrow> nat \<Rightarrow> nat" where
  "window_end rl ws = ws * 1000000 + window_ttl rl - 1"

definition take_timely :: "rate_limiter \<Rightarrow> nat \<Rightarrow> nat \<Rightarrow> take_label \<Rightarrow> bool" where
  "take_timely rl ws now lb \<longleftrightarrow> ws * 1000000 \<le> now"

definition window_fits :: "nat \<Rightarrow> rate_limiter \<Rightarrow> nat \<Rightarrow> bool" where
  "window_fits limit rl ws \<longleftrightarrow> window_secs rl dvd ws \<and> window_ttl rl \<le> limit \<and> rl_capacity rl < 2 ^ 32"

lemma window_end_now:
  "window_fits limit rl ws \<Longrightarrow> take_timely rl ws now lb \<Longrightarrow> now \<le> window_end rl ws \<Longrightarrow>
   snd (window_now rl now) = ws \<and> left_ok limit (window_end rl ws) now (window_ttl rl)"
  using window_now_in [of ws now rl] window_secs_pos [of rl]
  by (auto simp: window_fits_def take_timely_def window_end_def left_ok_def window_ttl_def)

context counter_cache
begin

definition take_ok :: "rate_limiter \<Rightarrow> nat \<Rightarrow> 'c \<Rightarrow> bool" where
  "take_ok rl ws c \<longleftrightarrow> ok c \<and> window_fits limit rl ws"

definition take_moves ::
  "rate_limiter \<Rightarrow> string \<Rightarrow> nat \<Rightarrow> nat \<Rightarrow> nat \<Rightarrow> take_label \<Rightarrow> 'c \<Rightarrow> (cache_error + take_answer, nat) thread \<Rightarrow> bool" where
  "take_moves rl k ws now n lb c' t' \<longleftrightarrow>
     (\<exists>lb' n'. t' = take_thread rl k ws lb' \<and> take_ok rl ws c' \<and> take_timely rl ws now lb' \<and>
       counter_stands (entry c') (cache_key rl k ws) (window_end rl ws) n' \<and>
       n' + take_counted lb = n + take_counted lb' \<and> (take_admitted lb' \<le> take_admitted lb \<or> n' \<le> rl_capacity rl))"

lemma take_stays:
  assumes "take_ok rl ws c'" "take_timely rl ws now lb" "counter_stands (entry c') (cache_key rl k ws) (window_end rl ws) n"
    "t' = take_thread rl k ws lb'" "take_counted lb' = take_counted lb" "take_admitted lb' \<le> take_admitted lb"
  shows "take_moves rl k ws now n lb c' t'"
  unfolding take_moves_def using assms by (auto simp: take_timely_def)

lemma take_counts:
  assumes ok: "take_ok rl ws c" and now: "now \<le> window_end rl ws" "ws * 1000000 \<le> now"
    and n: "counter_stands (entry c) (cache_key rl k ws) (window_end rl ws) n" "int n + 1 < 2 ^ 63"
    and step: "thread_next api take_slot (give_back_at rl k) now c (take_thread rl k ws (Taking secs)) = (c', t')"
  shows "take_moves rl k ws now n (Taking secs) c' t'"
proof -
  have fits: "left_ok limit (window_end rl ws) now (window_ttl rl)" "ok c"
    using ok now window_end_now [of limit rl ws now] by (simp_all add: take_ok_def take_timely_def)
  obtain y where y: "ca_incr api (cache_key rl k ws) 1 (Some (window_ttl rl)) now c = (y, Inr (int n + 1))" "ok y"
      "counter_stands (entry y) (cache_key rl k ws) (window_end rl ws) (n + 1)"
    using counter_moves [OF fits(2) n(1) now(1) fits(1), of "int n + 1" 1] n(2) by (auto simp: nat_add_distrib)
  let ?lb = "if n + 1 > rl_capacity rl then Turning (retry_after rl secs ws) else Admitting (n + 1)"
  have "int (rl_capacity rl) < 2 ^ 32" using ok by (simp add: take_ok_def window_fits_def)
  then have "t' = take_thread rl k ws ?lb" "c' = y"
    using step y by (auto simp: taken_def to_u32_def nat_add_distrib)
  then show ?thesis unfolding take_moves_def using y ok now(2)
    by (intro exI [of _ ?lb] exI [of _ "n + 1"]) (simp add: take_ok_def take_timely_def)
qed

lemma take_refunds:
  assumes ok: "take_ok rl ws c" and now: "now \<le> window_end rl ws" "ws * 1000000 \<le> now"
    and n: "counter_stands (entry c) (cache_key rl k ws) (window_end rl ws) n" "int n + 1 < 2 ^ 63" "1 \<le> n"
    and step: "thread_next api take_slot (give_back_at rl k) now c (take_thread rl k ws RefundWriting) = (c', t')"
  shows "take_moves rl k ws now n RefundWriting c' t'"
proof -
  have fits: "left_ok limit (window_end rl ws) now (window_ttl rl)" "ok c"
    using ok now window_end_now [of limit rl ws now] by (simp_all add: take_ok_def take_timely_def)
  obtain y where y: "ca_incr api (cache_key rl k ws) (- 1) (Some (window_ttl rl)) now c = (y, Inr (int n - 1))" "ok y"
      "counter_stands (entry y) (cache_key rl k ws) (window_end rl ws) (n - 1)"
    using counter_moves [OF fits(2) n(1) now(1) fits(1), of "int n - 1" "- 1"] n(2,3) by (auto simp: nat_diff_distrib)
  then show ?thesis unfolding take_moves_def using step ok now(2) n(3)
    by (intro exI [of _ Refunded] exI [of _ "n - 1"]) (auto simp: refund_def take_ok_def take_timely_def)
qed

lemma take_thread_law:
  assumes ok: "take_ok rl ws c" and now: "now \<le> window_end rl ws"
    and n: "counter_stands (entry c) (cache_key rl k ws) (window_end rl ws) n" "int n + 1 < 2 ^ 63" "take_counted lb \<le> n"
    and t: "take_timely rl ws now lb"
    and step: "thread_next api take_slot (give_back_at rl k) now c (take_thread rl k ws lb) = (c', t')"
  shows "take_moves rl k ws now n lb c' t'"
proof -
  have ws: "ws * 1000000 \<le> now" using t by (simp add: take_timely_def)
  have here: "snd (window_now rl now) = ws" using ok now t window_end_now [of limit rl ws now lb] by (simp add: take_ok_def)
  have stay: "take_moves rl k ws now n lb c' t'" if "c' = c" "t' = take_thread rl k ws lb'"
      "take_counted lb' = take_counted lb" "take_admitted lb' \<le> take_admitted lb" for lb'
    using take_stays [OF ok t n(1)] that by simp
  show ?thesis
  proof (cases lb)
    case Arriving
    then have "t' = take_thread rl k ws (Taking (fst (window_now rl now)))" "c' = c"
      using step here by (auto simp: try_take_def try_take_in_def cache_key_def case_prod_beta' Let_def)
    then show ?thesis using Arriving by (intro stay [of "Taking (fst (window_now rl now))"]) simp_all
  next
    case (Taking secs)
    then show ?thesis using take_counts [OF ok now ws n(1,2)] step by simp
  next
    case (Admitting m)
    then show ?thesis using step by (intro stay [of InHand]) (auto simp: take_slot_def)
  next
    case (Turning r)
    then show ?thesis using step by (intro stay [of "Turned r"]) (auto simp: take_slot_def)
  next
    case (Turned r)
    then show ?thesis using step by (intro stay [of lb]) auto
  next
    case InHand
    then show ?thesis using step by (intro stay [of Refunding]) auto
  next
    case Refunding
    then show ?thesis using step here by (intro stay [of RefundReading]) (auto simp: give_back_unfold)
  next
    case RefundReading
    obtain g where g: "ca_get api (cache_key rl k ws) now c = (g, Inr (live_at now (entry c (cache_key rl k ws))))"
        "take_ok rl ws g" "entry g = entry c"
      using get_law [of c "cache_key rl k ws" now] ok by (auto simp: take_ok_def)
    have "live_at now (entry c (cache_key rl k ws)) = Some (show_int (int n))" "0 < n"
      using n(1,3) now RefundReading by (auto simp: counter_stands_def live_at_def split: option.splits)
    then have "t' = take_thread rl k ws RefundWriting" "c' = g"
      using step g n(2) RefundReading by (auto simp: refund_read_def parse_show_int i64_range_def)
    then show ?thesis using g n(1) t RefundReading by (intro take_stays [where lb' = RefundWriting]) simp_all
  next
    case RefundWriting
    then show ?thesis using take_refunds [OF ok now ws n(1,2)] n(3) step by simp
  next
    case Refunded
    then show ?thesis using step by (intro stay [of Out]) auto
  next
    case Out
    then show ?thesis using step by (intro stay [of lb]) auto
  qed
qed

lemma take_slots:
  "slot_protocol api take_slot (give_back_at rl k) (other_keys ok entry {cache_key rl k ws}) (take_ok rl ws)
     (\<lambda>c. counter_stands (entry c) (cache_key rl k ws) (window_end rl ws)) (window_end rl ws) (rl_capacity rl) (take_thread rl k ws) take_counted take_admitted (take_timely rl ws)"
proof
  fix c c' and now n :: nat and lb t
  assume "take_ok rl ws c" "now \<le> window_end rl ws" "counter_stands (entry c) (cache_key rl k ws) (window_end rl ws) n"
    "int n + 1 < 2 ^ 63" "take_counted lb \<le> n" "take_timely rl ws now lb"
    "thread_next api take_slot (give_back_at rl k) now c (take_thread rl k ws lb) = (c', t)"
  from take_thread_law [OF this] show "\<exists>l' n'. t = take_thread rl k ws l' \<and> take_ok rl ws c' \<and> take_timely rl ws now l' \<and>
      counter_stands (entry c') (cache_key rl k ws) (window_end rl ws) n' \<and>
      n' + take_counted lb = n + take_counted l' \<and> (take_admitted l' \<le> take_admitted lb \<or> n' \<le> rl_capacity rl)"
    by (simp add: take_moves_def)
next
  fix lb and s :: nat
  show "take_admitted lb \<le> take_counted lb" "take_counted lb \<le> 1" by (cases lb; simp)+
  show "take_thread rl k ws lb = Holding s \<Longrightarrow> take_admitted lb = 1" by (cases lb) simp_all
qed (auto simp: other_keys_def take_ok_def take_timely_def counter_stands_def)

end

interpretation take_slots: slot_protocol in_memory_api take_slot "give_back_at rl k" "other_keys unbounded mem_entry {cache_key rl k ws}"
  "mem.take_ok rl ws" "\<lambda>c. counter_stands (mem_entry c) (cache_key rl k ws) (window_end rl ws)" "window_end rl ws" "rl_capacity rl" "take_thread rl k ws" take_counted take_admitted
  "take_timely rl ws" for rl k ws
  by (rule mem.take_slots)

end
