(* ===== verification/Jti_Store.thy ===== *)
theory Jti_Store
  imports Prelude
begin

text \<open>
  The store of spent token ids, \<open>crates/rustango/src/jti_store.rs\<close>: a map from a token id to its expiry beside a heap
  on the expiry. The binary heap is the sorted list of its elements, so its peek is the head. Every call holds the
  mutex, so it is one step; \<open>now\<close> is the clock in unix seconds.
\<close>

section \<open>The store\<close>

record jti_store =
  js_map :: "(string \<times> int) list"
  js_expiry :: "(int \<times> string) list"
  js_capacity :: nat

definition with_capacity :: "nat \<Rightarrow> jti_store" where
  "with_capacity capacity = \<lparr>js_map = [], js_expiry = [], js_capacity = capacity\<rparr>"

definition jti_store_new :: jti_store where
  "jti_store_new = with_capacity 1000000"

definition map_remove :: "string \<Rightarrow> (string \<times> int) list \<Rightarrow> (string \<times> int) list" where
  "map_remove jti m = filter (\<lambda>p. fst p \<noteq> jti) m"

text \<open>\<open>JtiMap::prune\<close>: pop while the earliest expiry has passed.\<close>

fun prune_loop :: "int \<Rightarrow> (int \<times> string) list \<Rightarrow> (string \<times> int) list \<Rightarrow> (int \<times> string) list \<times> (string \<times> int) list" where
  "prune_loop now [] m = ([], m)"
| "prune_loop now ((exp, jti) # heap) m =
     (if exp > now then ((exp, jti) # heap, m)
      else prune_loop now heap (if map_of m jti = Some exp then map_remove jti m else m))"

definition prune :: "int \<Rightarrow> jti_store \<Rightarrow> jti_store" where
  "prune now s = (case prune_loop now (js_expiry s) (js_map s) of (h, m) \<Rightarrow> s\<lparr>js_expiry := h, js_map := m\<rparr>)"

definition jti_insert :: "string \<Rightarrow> int \<Rightarrow> jti_store \<Rightarrow> jti_store" where
  "jti_insert jti exp s =
     s\<lparr>js_map := (jti, exp) # map_remove jti (js_map s), js_expiry := insort (exp, jti) (js_expiry s)\<rparr>"

definition is_used :: "string \<Rightarrow> jti_store \<Rightarrow> bool" where
  "is_used jti s \<longleftrightarrow> map_of (js_map s) jti \<noteq> None"

definition mark_used :: "int \<Rightarrow> string \<Rightarrow> int \<Rightarrow> jti_store \<Rightarrow> jti_store \<times> bool" where
  "mark_used now jti exp_unix s =
     (let s' = prune now s
      in if map_of (js_map s') jti \<noteq> None then (s', False)
         else if length (js_map s') \<ge> js_capacity s' then (s', False)
         else (jti_insert jti exp_unix s', True))"

definition approx_size :: "jti_store \<Rightarrow> nat option" where
  "approx_size s = Some (length (js_map s))"

section \<open>The heap mirrors the map\<close>

text \<open>The heap holds exactly the entries of the map, and the map holds at most its capacity.\<close>

definition jti_ok :: "jti_store \<Rightarrow> bool" where
  "jti_ok s \<longleftrightarrow>
     distinct (map fst (js_map s)) \<and> sorted (js_expiry s) \<and>
     mset (js_expiry s) = mset (map (\<lambda>(j, e). (e, j)) (js_map s)) \<and> length (js_map s) \<le> js_capacity s"

lemma mset_map_remove:
  assumes "distinct (map fst m)" "map_of m jti = Some exp"
  shows "mset (map (\<lambda>(j, e). (e, j)) m) = add_mset (exp, jti) (mset (map (\<lambda>(j, e). (e, j)) (map_remove jti m)))"
proof -
  have "(jti, exp) \<in> set m" using assms(2) by (rule map_of_SomeD)
  then obtain xs ys where m: "m = xs @ (jti, exp) # ys" by (meson split_list)
  then have "jti \<notin> fst ` set xs" "jti \<notin> fst ` set ys" using assms(1) by auto
  then have "filter (\<lambda>p. fst p \<noteq> jti) xs = xs" "filter (\<lambda>p. fst p \<noteq> jti) ys = ys"
    unfolding filter_id_conv by (metis image_eqI)+
  then show ?thesis by (simp add: m map_remove_def)
qed

lemma prune_loop_filter:
  assumes "distinct (map fst m)" "sorted h" "mset h = mset (map (\<lambda>(j, e). (e, j)) m)"
  shows "prune_loop now h m = (filter (\<lambda>(e, j). e > now) h, filter (\<lambda>(j, e). e > now) m)"
  using assms
proof (induction now h m rule: prune_loop.induct)
  case (1 now m)
  then show ?case by simp
next
  case (2 now exp jti heap m)
  have "(exp, jti) \<in># mset (map (\<lambda>(j, e). (e, j)) m)" using 2(4) by (metis list.set_intros(1) set_mset_mset)
  then have mem: "map_of m jti = Some exp" using 2(2) by (auto simp: case_prod_beta')
  show ?case
  proof (cases "exp > now")
    case True
    have heap: "\<forall>p \<in> set ((exp, jti) # heap). (case p of (e, j) \<Rightarrow> e > now)"
      using 2(3) True by (auto simp: less_eq_prod_def)
    moreover have "set m = (\<lambda>(e, j). (j, e)) ` set ((exp, jti) # heap)"
      using arg_cong [OF 2(4), of set_mset] by (force simp: image_iff)
    ultimately have "\<forall>p \<in> set m. (case p of (j, e) \<Rightarrow> e > now)" by auto
    then show ?thesis using True filter_True [OF heap] by (simp add: filter_True del: filter.simps)
  next
    case False
    have rest: "distinct (map fst (map_remove jti m))" unfolding map_remove_def by (rule distinct_map_filter [OF 2(2)])
    have "mset heap = mset (map (\<lambda>(j, e). (e, j)) (map_remove jti m))"
      using 2(4) mset_map_remove [OF 2(2) mem] by simp
    moreover have "filter (\<lambda>(j, e). e > now) (map_remove jti m) = filter (\<lambda>(j, e). e > now) m"
      unfolding map_remove_def filter_filter
    proof (rule filter_cong [OF refl])
      fix p assume "p \<in> set m"
      then have "map_of m (fst p) = Some (snd p)" using 2(2) by (simp add: map_of_eq_Some_iff)
      then show "(fst p \<noteq> jti \<and> (case p of (j, e) \<Rightarrow> now < e)) = (case p of (j, e) \<Rightarrow> now < e)"
        using mem False by (cases p) auto
    qed
    ultimately show ?thesis using 2(1) False mem rest 2(3) by simp
  qed
qed

lemma prune_filter:
  "jti_ok s \<Longrightarrow> prune now s =
     s\<lparr>js_expiry := filter (\<lambda>(e, j). e > now) (js_expiry s), js_map := filter (\<lambda>(j, e). e > now) (js_map s)\<rparr>"
  by (simp add: prune_def jti_ok_def prune_loop_filter)

lemma prune_ok: "jti_ok s \<Longrightarrow> jti_ok (prune now s)"
proof -
  assume ok: "jti_ok s"
  have "mset (filter (\<lambda>(e, j). e > now) (js_expiry s)) = mset (map (\<lambda>(j, e). (e, j)) (filter (\<lambda>(j, e). e > now) (js_map s)))"
    using ok by (simp add: jti_ok_def mset_filter filter_mset_image_mset case_prod_beta' comp_def)
  then show "jti_ok (prune now s)"
    using ok by (auto simp: prune_filter [OF ok] jti_ok_def distinct_map_filter sorted_wrt_filter
        intro: order_trans [OF length_filter_le])
qed

lemma map_of_prune:
  "jti_ok s \<Longrightarrow> map_of (js_map (prune now s)) j = (case map_of (js_map s) j of None \<Rightarrow> None | Some e \<Rightarrow> if e > now then Some e else None)"
proof -
  have "distinct (map fst m) \<Longrightarrow> map_of (filter (\<lambda>(j, e). e > now) m) j =
      (case map_of m j of None \<Rightarrow> None | Some e \<Rightarrow> if e > now then Some e else None)" for m :: "(string \<times> int) list"
    by (induction m) (auto simp: map_of_eq_None_iff split: option.split dest: map_of_SomeD)
  then show "jti_ok s \<Longrightarrow> map_of (js_map (prune now s)) j = (case map_of (js_map s) j of None \<Rightarrow> None | Some e \<Rightarrow> if e > now then Some e else None)"
    by (simp add: prune_filter) (simp add: jti_ok_def)
qed

lemma map_remove_absent: "map_of m jti = None \<Longrightarrow> map_remove jti m = m"
  by (auto simp: map_remove_def map_of_eq_None_iff filter_id_conv)

lemma mark_used_ok: "jti_ok s \<Longrightarrow> jti_ok (fst (mark_used now jti exp s))"
proof -
  assume "jti_ok s"
  then have ok: "jti_ok (prune now s)" by (rule prune_ok)
  then show "jti_ok (fst (mark_used now jti exp s))"
    by (auto simp: mark_used_def Let_def jti_ok_def jti_insert_def map_remove_absent map_of_eq_None_iff sorted_insort)
qed

lemma mark_used_map:
  assumes "jti_ok s"
  shows "map_of (js_map (fst (mark_used now jti exp s))) j =
    (if snd (mark_used now jti exp s) \<and> j = jti then Some exp else map_of (js_map (prune now s)) j)"
  by (auto simp: mark_used_def Let_def jti_insert_def map_remove_absent)

lemma mark_used_answer:
  assumes "jti_ok s"
  shows "snd (mark_used now jti exp s) \<longleftrightarrow>
    map_of (js_map (prune now s)) jti = None \<and> length (js_map (prune now s)) < js_capacity s"
  by (auto simp: mark_used_def Let_def prune_filter [OF assms])

section \<open>Histories\<close>

text \<open>Calls of \<open>mark_used\<close>, each with its time, token and expiry.\<close>

definition mark_all :: "(int \<times> string \<times> int) list \<Rightarrow> jti_store \<Rightarrow> jti_store" where
  "mark_all h s = fold (\<lambda>(now, jti, exp) s. fst (mark_used now jti exp s)) h s"

lemma mark_all_ok: "jti_ok s \<Longrightarrow> jti_ok (mark_all h s)"
  unfolding mark_all_def by (induction h arbitrary: s) (auto simp: mark_used_ok)

lemma mark_all_keeps:
  assumes "jti_ok s" "map_of (js_map s) jti = Some exp" "\<forall>(now, j, e) \<in> set h. now < exp"
  shows "map_of (js_map (mark_all h s)) jti = Some exp"
  using assms
proof (induction h arbitrary: s)
  case (Cons x h)
  obtain now j e where x: "x = (now, j, e)" by (metis prod_cases3)
  have kept: "map_of (js_map (prune now s)) jti = Some exp" using Cons.prems x by (simp add: map_of_prune)
  then have "map_of (js_map (fst (mark_used now j e s))) jti = Some exp"
    using Cons.prems(1) by (auto simp: mark_used_map mark_used_answer)
  then show ?case using Cons x by (simp add: mark_all_def mark_used_ok)
qed (simp add: mark_all_def)

lemma new_ok: "jti_ok (with_capacity n)"
  by (simp add: jti_ok_def with_capacity_def)

end
