(* ===== verification/Limits.thy ===== *)
theory Limits
  imports Lockout_Spec Rate_Limit_Correct Jti_Store
begin

text \<open>
  What the guards in front of a login promise: the in-memory cache and its budgets, the account lockout, the rate
  limiter, the keys tenants are kept apart by, and the store of spent tokens.
\<close>

section \<open>The cache\<close>

lemma mem_do_config:
  "ic_max_bytes (mem_do call now c) = ic_max_bytes c" "ic_max_entries (mem_do call now c) = ic_max_entries c"
  "ic_max_pinned_bytes (mem_do call now c) = ic_max_pinned_bytes c" "ic_max_pinned_entries (mem_do call now c) = ic_max_pinned_entries c"
  by (cases call; simp add: mem_get_def call_then_def mem_get_bytes_def call_ok_def mem_set_def mem_set_bytes_def
      mem_set_forever_def cache_insert_def put_entry_def mem_incr_def mem_add_def mem_touch_def mem_delete_def mem_exists_def
      mem_clear_def mem_delete_prefix_def bump_def Let_def split: option.split sum.split)+

lemma mem_run_config:
  "ic_max_bytes (mem_run h c) = ic_max_bytes c \<and> ic_max_entries (mem_run h c) = ic_max_entries c \<and>
   ic_max_pinned_bytes (mem_run h c) = ic_max_pinned_bytes c \<and> ic_max_pinned_entries (mem_run h c) = ic_max_pinned_entries c"
  by (rule mem_run_induct) (simp_all add: mem_do_config)

text \<open>
  C12. Whatever calls an in-memory cache has served, its totals are the sizes and the numbers of the entries it holds;
  its evictable entries fit both budgets, unless a single entry alone exceeds them; its pinned entries fit their caps.
\<close>

theorem cache_within_budget:
  assumes "ic_store c = empty_store" "s = ic_store (mem_run h c)"
  shows "st_used_bytes s = sizes (plain (st_map s)) \<and> st_evictable s = length (plain (st_map s)) \<and>
    st_pinned_bytes s = sizes (pins (st_map s)) \<and> st_pinned s = length (pins (st_map s)) \<and>
    (st_evictable s \<le> 1 \<or>
      (ic_max_bytes c = 0 \<or> st_used_bytes s \<le> ic_max_bytes c) \<and> (ic_max_entries c = 0 \<or> st_evictable s \<le> ic_max_entries c)) \<and>
    (ic_max_pinned_bytes c = 0 \<or> st_pinned_bytes s \<le> ic_max_pinned_bytes c) \<and>
    (ic_max_pinned_entries c = 0 \<or> st_pinned s \<le> ic_max_pinned_entries c)"
proof -
  have "budget_ok (mem_run h c)" by (rule run_within [OF empty_within [OF assms(1)]])
  then have "store_ok s" "within_budget (mem_run h c) s" using assms(2) by (simp_all add: budget_ok_def cache_ok_def)
  then show ?thesis using mem_run_config [of h c] by (auto simp: store_ok_def within_budget_def over_def)
qed

theorem cache_within_budget_witness:
  "let s = ic_store (mem_run [(1, SetCall ''a'' ''12345'' None), (2, SetCall ''b'' ''123456'' (Some 5)), (3, SetForeverCall ''c'' ''1'')]
       (build_cache None 10 100))
   in st_used_bytes s = sizes (plain (st_map s)) \<and> (st_evictable s \<le> 1 \<or> st_used_bytes s \<le> 10 \<and> st_evictable s \<le> 100)"
  using cache_within_budget [of "build_cache None 10 100" _
      "[(1, SetCall ''a'' ''12345'' None), (2, SetCall ''b'' ''123456'' (Some 5)), (3, SetForeverCall ''c'' ''1'')]"]
  by (auto simp: build_cache_def Let_def)

text \<open>
  C13. An entry that \<open>set_forever\<close> stored within the pinned caps is still read after any history of calls that do not
  write, touch, delete or clear that key, at any time: it neither expires nor is evicted.
\<close>

theorem pinned_entry_survives:
  assumes "ic_store c0 = empty_store" "c = mem_run h0 c0" "is_text v"
    "pinned_fits key (length key + length v) (ic_max_pinned_bytes c) (ic_max_pinned_entries c) (ic_store c)"
    "\<forall>(t, call) \<in> set h. spares key call"
  shows "snd (mem_set_forever key v now c) = Inr () \<and>
    snd (mem_get key later (mem_run h (fst (mem_set_forever key v now c)))) = Inr (Some v)"
proof -
  let ?c = "fst (mem_set_forever key v now c)"
  have ok: "cache_ok c" using run_within [OF empty_within [OF assms(1)]] assms(2) by (simp add: budget_ok_def)
  have text_ok: "check_text v = Inr ()" "is_utf8 v" using assms(3) by (simp_all add: is_text_def check_text_def)
  then have set: "snd (mem_set_forever key v now c) = Inr ()" "?c = put_entry key v None True now c"
    using assms(4) by (simp_all add: mem_set_forever_def call_then_def call_ok_def cache_insert_def)
  have ok': "cache_ok ?c" using keeps_cache_ops(5) ok by (simp add: keeps_cache_def)
  have "pinned_as key v ?c"
    using map_of_put_entry_same [OF ok, of True None now key v] by (simp add: set(2) pinned_as_def)
  then have p: "pinned_as key v (mem_run h ?c)" by (rule pinned_run [OF ok' _ assms(5)])
  have ok'': "store_ok (ic_store (mem_run h ?c))"
    using mem_run_induct [of cache_ok h ?c] do_cache_ok ok' by (simp add: cache_ok_def)
  obtain e where e: "map_of (st_map (ic_store (mem_run h ?c))) key = Some e" "ce_pinned e" "ce_value e = v"
    using p by (auto simp: pinned_as_def split: option.splits)
  then show ?thesis using get_live [OF e(1) pinned_not_expired [OF ok'' e(1,2)], of later] text_ok(2) set(1) by simp
qed

theorem pinned_entry_survives_witness:
  "snd (mem_get ''k'' 99 (mem_run [(5, SetCall ''a'' ''12345678'' None), (6, SetCall ''b'' ''12345678'' None)]
     (fst (mem_set_forever ''k'' ''v'' 3 (mem_run [] (build_cache None 10 1)))))) = Inr (Some ''v'')"
proof -
  have "is_text ''v''" by (simp add: is_text_def is_utf8_def)
  moreover have "pinned_fits ''k'' (length ''k'' + length ''v'') (ic_max_pinned_bytes (mem_run [] (build_cache None 10 1)))
      (ic_max_pinned_entries (mem_run [] (build_cache None 10 1))) (ic_store (mem_run [] (build_cache None 10 1)))"
    by (simp add: pinned_fits_def mem_run_def build_cache_def empty_store_def)
  ultimately show ?thesis
    by (intro pinned_entry_survives [THEN conjunct2, OF _ refl]) (simp_all add: build_cache_def)
qed

section \<open>The lockout\<close>


definition one_attempt :: lockout where
  "one_attempt = max_attempts 1 lockout_new"





text \<open>
  C9. The lockout of an account on a cache refines a state machine of a lock, a window and a count: any history of
  failures, checks, resets and forced locks, at times that never go back, gets the answers of the machine.
\<close>

theorem lockout_refines_machine:
  assumes "ic_store c = empty_store" "ic_max_bytes c = 0" "ic_max_entries c = 0" "sorted (map fst h)"
    "\<forall>(t, call) \<in> set h. lock_scope far_future l t"
  shows "snd (lock_run in_memory_api l a h c) = snd (spec_run l h new_acct)"
  by (rule lock_run_from_empty [OF assms])

theorem lockout_refines_machine_witness:
  "snd (lock_run in_memory_api one_attempt ''ann'' [(5, AskLocked), (6, Fail), (6, AskLocked), (7, Reset), (8, AskCount)] (build_cache None 0 0)) =
   [Flag False, Count 1, Flag True, Done, Count 0]"
proof -
  let ?h = "[(5, AskLocked), (6, Fail), (6, AskLocked), (7, Reset), (8, AskCount)]"
  have "\<forall>(t, call) \<in> set ?h. lock_scope far_future one_attempt t"
    by (simp add: lock_scope_def one_attempt_def max_attempts_def lockout_new_def far_future_def)
  then have "snd (lock_run in_memory_api one_attempt ''ann'' ?h (build_cache None 0 0)) = snd (spec_run one_attempt ?h new_acct)"
    by (intro lockout_refines_machine) (simp_all add: build_cache_def)
  also have "\<dots> = [Flag False, Count 1, Flag True, Done, Count 0]"
    by (simp add: new_acct_def age_def spec_failure_def one_attempt_def max_attempts_def lockout_new_def)
  finally show ?thesis .
qed

text \<open>
  C10. Failed logins within one window are counted one by one; the account locks with the failure number
  \<open>max_attempts\<close> and not before, and stays locked for exactly \<open>lockout_duration\<close> after it.
\<close>

theorem failed_logins_lock:
  assumes "ic_store c = empty_store" "ic_max_bytes c = 0" "ic_max_entries c = 0" "ts \<noteq> []" "sorted (ts @ [u])"
    "length ts \<le> lo_max_attempts l" "last ts \<le> hd ts + lo_counter_ttl l" "lock_scope far_future l u"
  shows "snd (lock_run in_memory_api l a (map (\<lambda>t. (t, Fail)) ts @ [(u, AskLocked)]) c) =
    map Count [1..<Suc (length ts)] @ [Flag (length ts = lo_max_attempts l \<and> u \<le> last ts + lo_lockout_duration l)]"
proof -
  have le: "t \<le> u" if "t \<in> set ts" for t using assms(5) that by (simp add: sorted_append)
  have scope: "\<forall>(t, call) \<in> set (map (\<lambda>t. (t, Fail)) ts @ [(u, AskLocked)]). lock_scope far_future l t"
    using assms(8) le by (fastforce simp: lock_scope_def)
  obtain xs x where ts: "ts = xs @ [x]" using assms(4) by (metis append_butlast_last_id)
  have "\<forall>t \<in> set ts. t \<le> hd ts + lo_counter_ttl l" using assms(5,7) by (auto simp: ts sorted_append)
  moreover have "sorted ts" "0 < lo_max_attempts l" using assms(5,8) by (simp_all add: sorted_append lock_scope_def)
  ultimately have "spec_run l (map (\<lambda>t. (t, Fail)) ts) new_acct = (after_failures l ts, map Count [1..<Suc (length ts)])"
    using assms(6) by (intro spec_failures)
  moreover have "sorted (map fst (map (\<lambda>t. (t, Fail)) ts @ [(u, AskLocked)]))" using assms(5) by (simp add: comp_def)
  ultimately show ?thesis
    using lock_run_from_empty [OF assms(1-3) _ scope] spec_locked_after_failures [OF assms(4,6)]
    by (simp add: spec_run_append del: spec_run.simps upt_Suc)
qed

theorem failed_logins_lock_witness:
  "snd (lock_run in_memory_api lockout_new ''ann'' (map (\<lambda>t. (t, Fail)) [1, 2, 3, 4, 5] @ [(9, AskLocked)]) (build_cache None 0 0)) =
   [Count 1, Count 2, Count 3, Count 4, Count 5, Flag True]"
proof -
  have "lock_scope far_future lockout_new 9" by (simp add: lock_scope_def lockout_new_def far_future_def)
  then have "snd (lock_run in_memory_api lockout_new ''ann'' (map (\<lambda>t. (t, Fail)) [1, 2, 3, 4, 5] @ [(9, AskLocked)]) (build_cache None 0 0)) =
      map Count [1..<Suc (length [1, 2, 3, 4, 5 :: nat])] @
      [Flag (length [1, 2, 3, 4, 5 :: nat] = lo_max_attempts lockout_new \<and> 9 \<le> last [1, 2, 3, 4, 5] + lo_lockout_duration lockout_new)]"
    by (intro failed_logins_lock) (simp_all add: build_cache_def lockout_new_def)
  also have "\<dots> = [Count 1, Count 2, Count 3, Count 4, Count 5, Flag True]"
    by (simp add: upt_rec lockout_new_def)
  finally show ?thesis .
qed

section \<open>The rate limiter\<close>

text \<open>
  C11. However many requests of one bucket take a slot at once and give it back, in any interleaving with each other,
  the clock and other clients of the cache, at most \<open>capacity\<close> of them hold a slot of a window while it lasts.
\<close>

theorem admissions_bounded:
  assumes "unbounded c" "window_fits far_future rl ws" "mem_entry c (cache_key rl key ws) = None" "ws * 1000000 \<le> now"
    "int n + 1 < 2 ^ 63"
    "(pool_step in_memory_api take_slot (give_back_at rl key) (other_keys unbounded mem_entry {cache_key rl key ws}))\<^sup>*\<^sup>*
       (now, c, replicate n (Busy (try_take rl key))) (now', c', ts)"
    "now' < ws * 1000000 + window_ttl rl"
  shows "holding ts \<le> rl_capacity rl"
proof -
  have "take_slots.slots_inv rl ws key (now, c, map (take_thread rl key ws) (replicate n Arriving))"
    using assms(1-4) by (intro take_slots.fresh_pool) (auto simp: mem.take_ok_def take_timely_def counter_stands_def)
  moreover have "now' \<le> window_end rl ws" using assms(7) by (simp add: window_end_def)
  ultimately show ?thesis
    using take_slots.slots_bounded [OF assms(6)] assms(5) by simp
qed

theorem admissions_bounded_witness:
  "holding (snd (snd (pool_run in_memory_api take_slot (give_back_at (rate_limiter_new 1 60000000) ''1.2.3.4'') [0, 1, 0, 1, 0, 1]
     (60000000, build_cache None 0 0, replicate 2 (Busy (try_take (rate_limiter_new 1 60000000) ''1.2.3.4'')))))) \<le> 1"
proof -
  let ?rl = "rate_limiter_new 1 60000000"
  define s where "s = pool_run in_memory_api take_slot (give_back_at ?rl ''1.2.3.4'') [0, 1, 0, 1, 0, 1]
     (60000000, build_cache None 0 0, replicate 2 (Busy (try_take ?rl ''1.2.3.4'')))"
  have "unbounded (build_cache None 0 0)" "mem_entry (build_cache None 0 0) (cache_key ?rl ''1.2.3.4'' 60) = None"
    by (simp_all add: unbounded_def build_cache_def empty_store_def mem_entry_def)
  moreover have "window_fits far_future ?rl 60" "window_ttl ?rl = 60000000" "rl_capacity ?rl = 1"
    by (simp_all add: window_fits_def window_secs_def window_ttl_def rate_limiter_new_def far_future_def)
  moreover have "fst s = 60000000" unfolding s_def pool_run_now by simp
  moreover have "(pool_step in_memory_api take_slot (give_back_at ?rl ''1.2.3.4'') env)\<^sup>*\<^sup>*
      (60000000, build_cache None 0 0, replicate 2 (Busy (try_take ?rl ''1.2.3.4''))) (fst s, fst (snd s), snd (snd s))" for env
    unfolding prod.collapse s_def by (rule pool_run_reachable)
  ultimately have "holding (snd (snd s)) \<le> 1"
    using admissions_bounded [of "build_cache None 0 0" ?rl 60 "''1.2.3.4''" 60000000 2 "fst s" "fst (snd s)" "snd (snd s)"] by simp
  then show ?thesis unfolding s_def .
qed

section \<open>Keys\<close>

text \<open>
  C15. A key of the application and a key of a tenant are never equal, nor are the keys of two tenants with different
  org ids; within one area a key names one owner and one name, as long as slugs hold no colon.
\<close>

theorem keys_keep_owners_apart:
  "space_key GlobalSpace a r \<noteq> space_key (TenantSpace t) a' r' \<and>
   (space_key (TenantSpace t) a r = space_key (TenantSpace t') a' r' \<longrightarrow> ts_org_id t = ts_org_id t') \<and>
   (CHR '':'' \<notin> set (ts_slug t) \<longrightarrow> CHR '':'' \<notin> set (ts_slug t') \<longrightarrow>
     space_key (TenantSpace t) a r = space_key (TenantSpace t') a' r' \<longrightarrow> t = t' \<and> a = a' \<and> r = r') \<and>
   (space_key GlobalSpace a r = space_key GlobalSpace a r' \<longrightarrow> r = r')"
  using global_tenant_apart tenant_keys_org [of t a r t' a' r'] tenant_keys_inj [of t a r t' a' r'] global_keys_inj
  by (auto intro: tenant_slug.equality)

theorem keys_keep_owners_apart_witness:
  "space_key GlobalSpace App ''tenant:#org:1:acme:app:x'' \<noteq> space_key (TenantSpace \<lparr>ts_slug = ''acme'', ts_org_id = 1\<rparr>) App ''x'' \<and>
   space_key (TenantSpace \<lparr>ts_slug = ''acme'', ts_org_id = 1\<rparr>) App ''x'' \<noteq> space_key (TenantSpace \<lparr>ts_slug = ''acme'', ts_org_id = 2\<rparr>) App ''x''"
  using keys_keep_owners_apart [of App "''tenant:#org:1:acme:app:x''" "\<lparr>ts_slug = ''acme'', ts_org_id = 1\<rparr>" App "''x''"]
    keys_keep_owners_apart [of App "''x''" "\<lparr>ts_slug = ''acme'', ts_org_id = 1\<rparr>" App "''x''" "\<lparr>ts_slug = ''acme'', ts_org_id = 2\<rparr>"]
  by auto

section \<open>Spent tokens\<close>

text \<open>
  C14. The store of spent tokens lets each token through once: after a \<open>mark_used\<close> that returned true, the token is
  used, and no other call before its expiry returns true for it, whatever else the store is asked. The store never
  holds more than its capacity; a token it does not know is let through exactly when there is room.
\<close>

theorem token_used_once:
  assumes "s = mark_all h0 (with_capacity n)" "snd (mark_used now jti exp s)"
    "\<forall>(t, j, e) \<in> set h. t < exp" "later < exp"
  shows "is_used jti (mark_all h (fst (mark_used now jti exp s))) \<and>
    \<not> snd (mark_used later jti exp' (mark_all h (fst (mark_used now jti exp s)))) \<and>
    length (js_map s) \<le> js_capacity s \<and>
    (map_of (js_map s) other = None \<longrightarrow>
      (snd (mark_used now other exp' s) \<longleftrightarrow> length (js_map (prune now s)) < js_capacity s))"
proof -
  have ok: "jti_ok s" using assms(1) by (simp add: mark_all_ok new_ok)
  let ?s = "fst (mark_used now jti exp s)"
  have "map_of (js_map ?s) jti = Some exp" using assms(2) by (simp add: mark_used_map [OF ok])
  then have used: "map_of (js_map (mark_all h ?s)) jti = Some exp"
    by (rule mark_all_keeps [OF mark_used_ok [OF ok] _ assms(3)])
  have ok': "jti_ok (mark_all h ?s)" by (rule mark_all_ok [OF mark_used_ok [OF ok]])
  have "\<not> snd (mark_used later jti exp' (mark_all h ?s))"
    using used assms(4) by (simp add: mark_used_answer [OF ok'] map_of_prune [OF ok'])
  then show ?thesis using used ok by (simp add: is_used_def jti_ok_def mark_used_answer [OF ok] map_of_prune [OF ok])
qed

theorem token_used_once_witness:
  "is_used ''t1'' (mark_all [(12, ''t2'', 50)] (fst (mark_used 10 ''t1'' 20 (mark_all [(5, ''t0'', 8)] (with_capacity 2))))) \<and>
   \<not> snd (mark_used 19 ''t1'' 90 (mark_all [(12, ''t2'', 50)] (fst (mark_used 10 ''t1'' 20 (mark_all [(5, ''t0'', 8)] (with_capacity 2))))))"
proof -
  have "snd (mark_used 10 ''t1'' 20 (mark_all [(5, ''t0'', 8)] (with_capacity 2)))" by code_simp
  then show ?thesis
    using token_used_once [of _ "[(5, ''t0'', 8)]" 2 10 "''t1''" 20 "[(12, ''t2'', 50)]" 19 90 "''t9''", OF refl] by simp
qed

end
