(* ===== verification/Scoped.thy ===== *)
theory Scoped
  imports Keyspace Cache_Contract
begin

text \<open>
  Views of one cache, \<open>crates/rustango/src/cache/scoped.rs\<close> and \<open>scope.rs\<close>: a scoped cache maps every key and forwards, so
  it keeps the contract \<open>counter_cache\<close> of the cache below it, and a purge deletes a tenant's keys and no others.
\<close>

section \<open>Views\<close>

record scoped_cache =
  sc_prefix :: string
  sc_space :: "(key_space \<times> area) option"

definition scoped_new :: "string \<Rightarrow> scoped_cache" where
  "scoped_new namespace = \<lparr>sc_prefix = namespace @ '':'', sc_space = None\<rparr>"

definition in_space :: "key_space \<Rightarrow> area \<Rightarrow> scoped_cache" where
  "in_space space area' = \<lparr>sc_prefix = space_key space area' [], sc_space = Some (space, area')\<rparr>"

definition scoped_k :: "scoped_cache \<Rightarrow> string \<Rightarrow> string" where
  "scoped_k sc key = (case sc_space sc of Some (space, area') \<Rightarrow> space_key space area' key | None \<Rightarrow> sc_prefix sc @ key)"

definition scoped_api :: "'c cache_api \<Rightarrow> scoped_cache \<Rightarrow> 'c cache_api" where
  "scoped_api api sc =
     \<lparr>ca_get = \<lambda>k. ca_get api (scoped_k sc k), ca_set = \<lambda>k. ca_set api (scoped_k sc k),
      ca_delete = \<lambda>k. ca_delete api (scoped_k sc k), ca_exists = \<lambda>k. ca_exists api (scoped_k sc k),
      ca_incr = \<lambda>k. ca_incr api (scoped_k sc k), ca_add = \<lambda>k. ca_add api (scoped_k sc k)\<rparr>"

text \<open>A single call and the calls for many keys, each given the call of the cache below.\<close>

definition scoped_call :: "(string \<Rightarrow> 'r) \<Rightarrow> scoped_cache \<Rightarrow> string \<Rightarrow> 'r" where
  "scoped_call call sc key = call (scoped_k sc key)"

definition scoped_get_many ::
  "(string list \<Rightarrow> ('c, string \<rightharpoonup> string) cache_call) \<Rightarrow> scoped_cache \<Rightarrow> string list \<Rightarrow> ('c, string \<rightharpoonup> string) cache_call" where
  "scoped_get_many inner_get_many sc keys =
     call_then (inner_get_many (map (scoped_k sc) keys)) (\<lambda>got.
       call_ok (Inr (fold (\<lambda>k out. case got (scoped_k sc k) of None \<Rightarrow> out | Some v \<Rightarrow> out(k \<mapsto> v)) keys Map.empty)))"

definition scoped_set_many ::
  "((string \<times> string) list \<Rightarrow> nat option \<Rightarrow> ('c, unit) cache_call) \<Rightarrow> scoped_cache \<Rightarrow> (string \<times> string) list \<Rightarrow> nat option \<Rightarrow> ('c, unit) cache_call" where
  "scoped_set_many inner_set_many sc entries = inner_set_many (map (\<lambda>(k, v). (scoped_k sc k, v)) entries)"

definition scoped_delete_many :: "(string list \<Rightarrow> ('c, unit) cache_call) \<Rightarrow> scoped_cache \<Rightarrow> string list \<Rightarrow> ('c, unit) cache_call" where
  "scoped_delete_many inner_delete_many sc keys = inner_delete_many (map (scoped_k sc) keys)"

text \<open>The calls that take a prefix; \<open>delete_prefix\<close> is the one of the cache below.\<close>

definition scoped_clear :: "(string \<Rightarrow> ('c, unit) cache_call) \<Rightarrow> scoped_cache \<Rightarrow> ('c, unit) cache_call" where
  "scoped_clear delete_prefix sc =
     (if sc_prefix sc = [] then call_ok (Inl Refused) else delete_prefix (sc_prefix sc))"

definition scoped_delete_prefix :: "(string \<Rightarrow> ('c, unit) cache_call) \<Rightarrow> scoped_cache \<Rightarrow> string \<Rightarrow> ('c, unit) cache_call" where
  "scoped_delete_prefix delete_prefix sc prefix = delete_prefix (scoped_k sc prefix)"

definition scoped_delete_prefixes :: "(string list \<Rightarrow> ('c, unit) cache_call) \<Rightarrow> scoped_cache \<Rightarrow> string list \<Rightarrow> ('c, unit) cache_call" where
  "scoped_delete_prefixes inner_delete_prefixes sc prefixes = inner_delete_prefixes (map (scoped_k sc) prefixes)"

text \<open>\<open>Cache::delete_prefixes\<close>, one prefix after the other, and \<open>CacheScope\<close>'s purge.\<close>

fun delete_prefixes :: "(string \<Rightarrow> ('c, unit) cache_call) \<Rightarrow> string list \<Rightarrow> ('c, unit) cache_call" where
  "delete_prefixes delete_prefix [] = call_ok (Inr ())"
| "delete_prefixes delete_prefix (p # ps) = call_then (delete_prefix p) (\<lambda>_. delete_prefixes delete_prefix ps)"

definition scope_app :: "key_space \<Rightarrow> scoped_cache" where
  "scope_app space = in_space space App"

definition scope_purge :: "(string \<Rightarrow> ('c, unit) cache_call) \<Rightarrow> key_space \<Rightarrow> ('c, unit) cache_call" where
  "scope_purge delete_prefix space =
     (let prefixes = purge_prefixes space
      in if prefixes = [] then call_ok (Inr ()) else delete_prefixes delete_prefix prefixes)"

section \<open>A view keeps the contract\<close>

text \<open>A view made by one of its constructors.\<close>

definition view_ok :: "scoped_cache \<Rightarrow> bool" where
  "view_ok sc \<longleftrightarrow> (\<exists>ns. sc = scoped_new ns) \<or> (\<exists>space area'. sc = in_space space area')"

lemma scoped_k_inj: "view_ok sc \<Longrightarrow> scoped_k sc x = scoped_k sc y \<longleftrightarrow> x = y"
proof -
  have "space_key space area' x = space_key space area' y \<Longrightarrow> x = y" for space area'
    using global_keys_inj by (cases space) (auto simp: tenant_key_form)
  then show "view_ok sc \<Longrightarrow> scoped_k sc x = scoped_k sc y \<longleftrightarrow> x = y"
    by (auto simp: view_ok_def scoped_k_def scoped_new_def in_space_def)
qed

context counter_cache
begin

lemma scoped_contract:
  assumes "view_ok sc"
  shows "counter_cache (scoped_api api sc) ok (\<lambda>c k. entry c (scoped_k sc k)) limit"
proof
  fix c :: 'c and k v :: string and t now :: nat and n m :: int and e :: cache_error
  assume ok: "ok c"
  note api = scoped_api_def and upd = fun_eq_iff scoped_k_inj [OF assms]
  show "\<exists>c'. ca_get (scoped_api api sc) k now c = (c', Inr (live_at now (entry c (scoped_k sc k)))) \<and> ok c' \<and>
      (\<lambda>k. entry c' (scoped_k sc k)) = (\<lambda>k. entry c (scoped_k sc k))"
    using get_law [OF ok, of "scoped_k sc k" now] by (auto simp: api)
  show "\<exists>c'. ca_exists (scoped_api api sc) k now c = (c', Inr (live_at now (entry c (scoped_k sc k)) \<noteq> None)) \<and> ok c' \<and>
      (\<lambda>k. entry c' (scoped_k sc k)) = (\<lambda>k. entry c (scoped_k sc k))"
    using exists_law [OF ok, of "scoped_k sc k" now] by (auto simp: api)
  show "\<exists>c'. ca_delete (scoped_api api sc) k now c = (c', Inr ()) \<and> ok c' \<and>
      (\<lambda>k. entry c' (scoped_k sc k)) = (\<lambda>k. entry c (scoped_k sc k))(k := None)"
    using delete_law [OF ok, of "scoped_k sc k" now] by (auto simp: api upd)
  show "is_text v \<Longrightarrow> \<exists>c'. ca_set (scoped_api api sc) k v (Some t) now c = (c', Inr ()) \<and> ok c' \<and>
      (\<lambda>k. entry c' (scoped_k sc k)) = (\<lambda>k. entry c (scoped_k sc k))(k \<mapsto> (v, Some (now + min t limit)))"
    using set_law [OF ok, of v "scoped_k sc k" t now] by (auto simp: api upd)
  show "is_text v \<Longrightarrow> \<exists>c'. ca_add (scoped_api api sc) k v (Some t) now c = (c', Inr (live_at now (entry c (scoped_k sc k)) = None)) \<and> ok c' \<and>
      (\<lambda>k. entry c' (scoped_k sc k)) = (if live_at now (entry c (scoped_k sc k)) = None
        then (\<lambda>k. entry c (scoped_k sc k))(k \<mapsto> (v, Some (now + min t limit))) else (\<lambda>k. entry c (scoped_k sc k)))"
    using add_law [OF ok, of v "scoped_k sc k" t now] by (auto simp: api upd)
  show "checked_add (count_at now (entry c (scoped_k sc k))) n = Inr m \<Longrightarrow>
      \<exists>c' d. ca_incr (scoped_api api sc) k n (Some t) now c = (c', Inr m) \<and> ok c' \<and>
        expiry_after_incr now (now + min t limit) (entry c (scoped_k sc k)) d \<and>
        (\<lambda>k. entry c' (scoped_k sc k)) = (\<lambda>k. entry c (scoped_k sc k))(k \<mapsto> (show_int m, d))"
    using incr_law [OF ok, of now "scoped_k sc k" n m t] by (auto simp: api upd)
  show "checked_add (count_at now (entry c (scoped_k sc k))) n = Inl e \<Longrightarrow>
      \<exists>c'. ca_incr (scoped_api api sc) k n (Some t) now c = (c', Inl e) \<and> ok c' \<and>
        (\<lambda>k. entry c' (scoped_k sc k)) = (\<lambda>k. entry c (scoped_k sc k))"
    using incr_overflow_law [OF ok, of now "scoped_k sc k" n e t] by (auto simp: api)
qed

end

interpretation tenant_view: counter_cache "scoped_api in_memory_api (in_space (TenantSpace t) a)" unbounded
  "\<lambda>c k. mem_entry c (scoped_k (in_space (TenantSpace t) a) k)" far_future for t a
  by (rule mem.scoped_contract) (auto simp: view_ok_def)

section \<open>Many keys\<close>

text \<open>The calls for many keys are those of the trait on the view: prefixes do not leak out.\<close>

lemma scoped_set_many_default: "scoped_set_many (set_many api) sc entries ttl = set_many (scoped_api api sc) entries ttl"
proof (induction entries)
  case (Cons e entries)
  then show ?case by (cases e) (simp add: scoped_set_many_def scoped_api_def)
qed (simp add: scoped_set_many_def)

lemma scoped_delete_many_default: "scoped_delete_many (delete_many api) sc keys = delete_many (scoped_api api sc) keys"
  by (induction keys) (simp_all add: scoped_delete_many_def scoped_api_def)

definition unscoped :: "scoped_cache \<Rightarrow> (string \<rightharpoonup> string) \<Rightarrow> string \<rightharpoonup> string" where
  "unscoped sc got = got \<circ> scoped_k sc"

lemma get_many_step_scoped:
  assumes "view_ok sc"
  shows "get_many_step (scoped_api api sc) keys (unscoped sc out) now c =
    map_prod id (map_sum id (unscoped sc)) (get_many_step api (map (scoped_k sc) keys) out now c)"
proof (induction keys arbitrary: out c)
  case (Cons k keys)
  have upd: "(case v of None \<Rightarrow> unscoped sc out | Some x \<Rightarrow> (unscoped sc out)(k \<mapsto> x)) =
      unscoped sc (case v of None \<Rightarrow> out | Some x \<Rightarrow> out(scoped_k sc k \<mapsto> x))" for v
    by (auto simp: unscoped_def fun_eq_iff scoped_k_inj [OF assms] split: option.split)
  have get: "ca_get (scoped_api api sc) k = ca_get api (scoped_k sc k)" by (simp add: scoped_api_def)
  obtain c' r where call: "ca_get api (scoped_k sc k) now c = (c', r)" by fastforce
  show ?case by (cases r) (simp_all add: call_then_def get call upd Cons.IH)
qed (simp add: call_ok_def)

lemma get_many_step_dom:
  assumes "get_many_step api keys out now c = (c', Inr got)"
  shows "dom got \<subseteq> dom out \<union> set keys"
  using assms
proof (induction keys arbitrary: out c)
  case (Cons k keys)
  obtain c1 r where call: "ca_get api k now c = (c1, r)" by fastforce
  then obtain v where v: "r = Inr v" "get_many_step api keys (case v of None \<Rightarrow> out | Some x \<Rightarrow> out(k \<mapsto> x)) now c1 = (c', Inr got)"
    using Cons.prems by (cases r) (auto simp: call_then_def)
  then show ?case using Cons.IH [OF v(2)] by (auto split: option.splits if_splits)
qed (simp add: call_ok_def)

lemma fold_known:
  "fold (\<lambda>k out. case got (scoped_k sc k) of None \<Rightarrow> out | Some v \<Rightarrow> out(k \<mapsto> v)) keys out =
   (\<lambda>k. if k \<in> set keys \<and> got (scoped_k sc k) \<noteq> None then got (scoped_k sc k) else out k)"
  by (induction keys arbitrary: out) (auto simp: fun_eq_iff split: option.split)

lemma scoped_get_many_default:
  assumes "view_ok sc"
  shows "scoped_get_many (get_many api) sc keys = get_many (scoped_api api sc) keys"
proof (intro ext)
  fix now c
  obtain c' r where got: "get_many_step api (map (scoped_k sc) keys) Map.empty now c = (c', r)" by fastforce
  have "fold (\<lambda>k out. case g (scoped_k sc k) of None \<Rightarrow> out | Some v \<Rightarrow> out(k \<mapsto> v)) keys Map.empty = unscoped sc g" if "r = Inr g" for g
  proof -
    have "g (scoped_k sc k) = None" if "k \<notin> set keys" for k
      using get_many_step_dom [OF got [unfolded \<open>r = Inr g\<close>]] that scoped_k_inj [OF assms] by (auto simp: image_iff)
    then show ?thesis by (auto simp: fold_known unscoped_def fun_eq_iff)
  qed
  moreover have "unscoped sc Map.empty = Map.empty" by (simp add: unscoped_def fun_eq_iff)
  ultimately show "scoped_get_many (get_many api) sc keys now c = get_many (scoped_api api sc) keys now c"
    using get_many_step_scoped [OF assms, of api keys Map.empty now c] got
    by (cases r) (simp_all add: scoped_get_many_def get_many_def call_then_def call_ok_def)
qed

section \<open>Deleting by prefix\<close>

lemma map_of_delete_prefix:
  "distinct (map fst (st_map (ic_store c))) \<Longrightarrow>
   map_of (st_map (ic_store (fst (mem_delete_prefix p now c)))) k =
     (if starts_with k p then None else map_of (st_map (ic_store c)) k)"
  by (simp add: mem_delete_prefix_def map_of_retain split: option.split)

lemma mem_entry_delete_prefix:
  "cache_ok c \<Longrightarrow> mem_entry (fst (mem_delete_prefix p now c)) k = (if starts_with k p then None else mem_entry c k)"
  by (simp add: mem_entry_def map_of_delete_prefix cache_ok_def store_ok_def)

lemma delete_prefixes_mem:
  assumes "cache_ok c"
  shows "snd (delete_prefixes mem_delete_prefix ps now c) = Inr () \<and> cache_ok (fst (delete_prefixes mem_delete_prefix ps now c)) \<and>
    mem_entry (fst (delete_prefixes mem_delete_prefix ps now c)) k = (if \<exists>p \<in> set ps. starts_with k p then None else mem_entry c k)"
  using assms
proof (induction ps arbitrary: c)
  case (Cons p ps)
  have ok: "cache_ok (fst (mem_delete_prefix p now c))" using keeps_cache_ops(12) Cons.prems by (simp add: keeps_cache_def)
  have "snd (mem_delete_prefix p now c) = Inr ()" by (simp add: mem_delete_prefix_def)
  then have "delete_prefixes mem_delete_prefix (p # ps) now c = delete_prefixes mem_delete_prefix ps now (fst (mem_delete_prefix p now c))"
    by (cases "mem_delete_prefix p now c") (simp add: call_then_def)
  then show ?case using Cons.IH [OF ok] mem_entry_delete_prefix [OF Cons.prems, of p now k] by simp
qed (simp add: call_ok_def)

definition tenant_root :: "tenant_slug \<Rightarrow> string" where
  "tenant_root t = ''tenant:#org:'' @ show_int (ts_org_id t) @ CHR '':'' # ts_slug t @ '':''"

lemma tenant_key_root: "space_key (TenantSpace t) a r = tenant_root t @ area_name a @ CHR '':'' # r"
  by (simp add: tenant_key_form tenant_root_def)

lemma purge_prefixes_tenant: "purge_prefixes (TenantSpace t) = [tenant_root t, ''lock:'' @ tenant_root t]"
  by (simp add: purge_prefixes_def space_namespace_def tenant_prefix_def tenant_namespace_def tenant_root_def)

lemma other_tenant_root:
  assumes "ts_org_id t \<noteq> ts_org_id t'"
  shows "\<not> starts_with (space_key (TenantSpace t') a r) (tenant_root t)"
proof
  assume "starts_with (space_key (TenantSpace t') a r) (tenant_root t)"
  then obtain r' where "space_key (TenantSpace t') a r = tenant_root t @ r'" by (auto simp: starts_with_iff)
  then have "show_int (ts_org_id t') = show_int (ts_org_id t)"
    by (simp add: tenant_key_form tenant_root_def colon_split show_int_no_colon)
  then show False using assms by (simp add: show_int_eq_iff)
qed

lemma not_lock_tenant: "\<not> starts_with (space_key (TenantSpace t') a r) (''lock:'' @ p)"
  by (simp add: tenant_key_form starts_with_def)

lemma purge_tenant:
  assumes "cache_ok c"
  shows "mem_entry (fst (scope_purge mem_delete_prefix (TenantSpace t) now c)) (space_key (TenantSpace t) a r) = None"
    and "ts_org_id t \<noteq> ts_org_id t' \<Longrightarrow>
      mem_entry (fst (scope_purge mem_delete_prefix (TenantSpace t) now c)) (space_key (TenantSpace t') a r) =
      mem_entry c (space_key (TenantSpace t') a r)"
  using delete_prefixes_mem [OF assms, of "purge_prefixes (TenantSpace t)" now] other_tenant_root not_lock_tenant
  by (simp_all add: scope_purge_def purge_prefixes_tenant tenant_key_root Let_def)

end
