(* ===== verification/Dist_Lock.thy ===== *)
theory Dist_Lock
  imports Keyspace Cache_Program
begin

text \<open>
  Locks across processes on a cache, \<open>crates/rustango/src/distributed_lock.rs\<close>, as programs over the cache. The process
  id is a parameter of an acquire, as is the code a lock guards; the clock gives the token's time in nanoseconds
  up to the microsecond. Dropping a guard is its expiry.
\<close>

section \<open>Locks and guards\<close>

record dist_lock =
  dl_space :: key_space
  dl_named :: "string option"

definition dist_lock_new :: dist_lock where
  "dist_lock_new = \<lparr>dl_space = GlobalSpace, dl_named = None\<rparr>"

definition lock_in_space :: "key_space \<Rightarrow> dist_lock" where
  "lock_in_space space = \<lparr>dl_space = space, dl_named = None\<rparr>"

definition lock_scoped :: "string \<Rightarrow> dist_lock" where
  "lock_scoped namespace = dist_lock_new\<lparr>dl_named := Some namespace\<rparr>"

definition lock_rest :: "dist_lock \<Rightarrow> string \<Rightarrow> string" where
  "lock_rest dl name = (case dl_named dl of Some ns \<Rightarrow> ns @ '':'' @ name | None \<Rightarrow> name)"

definition key_for :: "dist_lock \<Rightarrow> string \<Rightarrow> string" where
  "key_for dl name = space_key (dl_space dl) Lock (lock_rest dl name)"

definition legacy_key_for :: "dist_lock \<Rightarrow> string \<Rightarrow> string option" where
  "legacy_key_for dl name = legacy_key (dl_space dl) Lock (lock_rest dl name)"

record lock_guard =
  lg_key :: string
  lg_legacy :: "string option"
  lg_token :: string
  lg_released :: bool

definition lock_token :: "nat \<Rightarrow> nat \<Rightarrow> string" where
  "lock_token process_id now = show_nat process_id @ ''-'' @ show_nat (now * 1000)"

definition release_key :: "lock_guard \<Rightarrow> string option \<Rightarrow> unit prog" where
  "release_key g key =
     (case key of
        None \<Rightarrow> Return ()
      | Some k \<Rightarrow> Get k (\<lambda>stored.
          if (case stored of Inr (Some v) \<Rightarrow> v = lg_token g | _ \<Rightarrow> False) then Del k (\<lambda>_. Return ()) else Return ()))"

definition release_guard :: "lock_guard \<Rightarrow> unit prog" where
  "release_guard g =
     (if lg_released g then Return ()
      else bind_prog (release_key g (Some (lg_key g))) (\<lambda>_. release_key g (lg_legacy g)))"

definition try_acquire :: "nat \<Rightarrow> dist_lock \<Rightarrow> string \<Rightarrow> nat \<Rightarrow> lock_guard option prog" where
  "try_acquire process_id dl name ttl =
     Clock (\<lambda>now.
       let token = lock_token process_id now;
           guard = \<lparr>lg_key = key_for dl name, lg_legacy = legacy_key_for dl name, lg_token = token, lg_released = False\<rparr>;
           main = AddNew (lg_key guard) token (Some ttl) (\<lambda>r.
             if r = Inr True then Return (Some guard)
             else bind_prog (release_key guard (lg_legacy guard)) (\<lambda>_. Return None))
       in case lg_legacy guard of
            None \<Rightarrow> main
          | Some old \<Rightarrow> AddNew old token (Some ttl) (\<lambda>r. if r = Inr True then main else Return None))"

definition with_lock :: "nat \<Rightarrow> dist_lock \<Rightarrow> string \<Rightarrow> nat \<Rightarrow> 'r prog \<Rightarrow> 'r option prog" where
  "with_lock process_id dl name ttl body =
     bind_prog (try_acquire process_id dl name ttl) (\<lambda>g. case g of
         None \<Rightarrow> Return None
       | Some guard \<Rightarrow> bind_prog body (\<lambda>result. bind_prog (release_guard guard) (\<lambda>_. Return (Some result))))"

section \<open>Once per period\<close>

text \<open>What the guarded code of a scheduled job does: it returns, fails or panics.\<close>

datatype ('t, 'e) body_end = BodyOk 't | BodyErr 'e | BodyPanic

definition once_in_window ::
  "nat \<Rightarrow> dist_lock \<Rightarrow> string \<Rightarrow> nat \<Rightarrow> nat \<Rightarrow> ('t, 'e) body_end prog \<Rightarrow> ('t, 'e) body_end option prog" where
  "once_in_window process_id dl name period window' body =
     bind_prog (try_acquire process_id dl (name @ ''@'' @ show_nat window') (2 * period)) (\<lambda>g. case g of
         None \<Rightarrow> Return None
       | Some guard \<Rightarrow>
           bind_prog
             (if window' < 2 then Return ()
              else let old = name @ ''@'' @ show_nat (window' - 2) in
                Del (key_for dl old) (\<lambda>_. case legacy_key_for dl old of
                    None \<Rightarrow> Return ()
                  | Some legacy \<Rightarrow> Del legacy (\<lambda>_. Return ())))
             (\<lambda>_.
           bind_prog (try_acquire process_id dl name period) (\<lambda>r. case r of
               None \<Rightarrow> bind_prog (release_guard guard) (\<lambda>_. Return None)
             | Some running \<Rightarrow>
                 bind_prog body (\<lambda>result.
                 bind_prog (release_guard running) (\<lambda>_. case result of
                     BodyOk v \<Rightarrow> Return (Some result)
                   | _ \<Rightarrow> bind_prog (release_guard guard) (\<lambda>_. Return (Some result)))))))"

definition once_per_period ::
  "nat \<Rightarrow> dist_lock \<Rightarrow> string \<Rightarrow> nat \<Rightarrow> ('t, 'e) body_end prog \<Rightarrow> ('t, 'e) body_end option prog" where
  "once_per_period process_id dl name period body =
     Clock (\<lambda>now. let period' = max period 1000 in
       once_in_window process_id dl name period' ((now div 1000) div (period' div 1000)) body)"

end
