(* ===== verification/Dist_Lock_Correct.thy ===== *)
theory Dist_Lock_Correct
  imports Dist_Lock
begin

text \<open>
  One holder at a time: however acquires and releases of a lock interleave, two of them never hold it together before
  the first expiry can pass. The lock is a third instance of \<open>slot_protocol\<close>, with one slot and the presence of
  the key as its count. A finished run keeps its window's key, so the window is not run twice.
\<close>

section \<open>Tokens and keys\<close>

lemma is_text_token: "is_text (lock_token pid now)"
proof -
  have "list_all (\<lambda>c. of_char c < (128 :: nat) \<and> c \<noteq> CHR 0x00) (show_nat m)" for m
    using show_nat_digits [of m] by (auto simp: list_all_iff is_ascii_digit_def)
  then have "list_all (\<lambda>c. of_char c < (128 :: nat) \<and> c \<noteq> CHR 0x00) (lock_token pid now)"
    by (simp add: lock_token_def)
  then have "list_all (\<lambda>b. b < 128) (map of_char (lock_token pid now) :: nat list)" "CHR 0x00 \<notin> set (lock_token pid now)"
    by (auto simp: list_all_iff)
  then show ?thesis unfolding is_text_def is_utf8_def using utf8_ascii by blast
qed

lemma legacy_differs: "legacy_key_for dl name = Some old \<Longrightarrow> old \<noteq> key_for dl name"
  by (cases "dl_space dl") (auto simp: legacy_key_for_def legacy_key_def space_namespace_def key_for_def tenant_key_form)

section \<open>One holder\<close>

definition guard_of :: "dist_lock \<Rightarrow> string \<Rightarrow> string \<Rightarrow> lock_guard" where
  "guard_of dl name token =
     \<lparr>lg_key = key_for dl name, lg_legacy = legacy_key_for dl name, lg_token = token, lg_released = False\<rparr>"

definition acquire_main :: "dist_lock \<Rightarrow> string \<Rightarrow> nat \<Rightarrow> string \<Rightarrow> lock_guard option prog" where
  "acquire_main dl name ttl token =
     AddNew (key_for dl name) token (Some ttl) (\<lambda>r.
       if r = Inr True then Return (Some (guard_of dl name token))
       else bind_prog (release_key (guard_of dl name token) (legacy_key_for dl name)) (\<lambda>_. Return None))"

definition acquire_first :: "dist_lock \<Rightarrow> string \<Rightarrow> nat \<Rightarrow> string \<Rightarrow> lock_guard option prog" where
  "acquire_first dl name ttl token =
     (case legacy_key_for dl name of
        None \<Rightarrow> acquire_main dl name ttl token
      | Some old \<Rightarrow> AddNew old token (Some ttl) (\<lambda>r. if r = Inr True then acquire_main dl name ttl token else Return None))"

lemma try_acquire_unfold: "try_acquire pid dl name ttl = Clock (\<lambda>now. acquire_first dl name ttl (lock_token pid now))"
proof -
  have "(let token = lock_token pid now;
           guard = \<lparr>lg_key = key_for dl name, lg_legacy = legacy_key_for dl name, lg_token = token, lg_released = False\<rparr>;
           main = AddNew (lg_key guard) token (Some ttl) (\<lambda>r.
             if r = Inr True then Return (Some guard)
             else bind_prog (release_key guard (lg_legacy guard)) (\<lambda>_. Return None))
       in case lg_legacy guard of
            None \<Rightarrow> main
          | Some old \<Rightarrow> AddNew old token (Some ttl) (\<lambda>r. if r = Inr True then main else Return None)) =
      acquire_first dl name ttl (lock_token pid now)" for now
    unfolding acquire_first_def acquire_main_def guard_of_def Let_def lock_guard.select_convs ..
  then show ?thesis unfolding try_acquire_def by simp
qed

lemma release_key_some:
  "release_key g (Some k) = Get k (\<lambda>stored. if stored = Inr (Some (lg_token g)) then Del k (\<lambda>_. Return ()) else Return ())"
proof -
  have "(case stored of Inr (Some v) \<Rightarrow> v = lg_token g | _ \<Rightarrow> False) \<longleftrightarrow> stored = Inr (Some (lg_token g))" for stored :: "cache_error + string option"
    by (auto split: sum.split option.split)
  then show ?thesis unfolding release_key_def by simp
qed

lemma lg_token_guard [simp]: "lg_token (guard_of dl name tok) = tok"
  by (simp add: guard_of_def)

lemma release_guard_unfold:
  "release_guard (guard_of dl name tok) =
     Get (key_for dl name) (\<lambda>stored. if stored = Inr (Some tok)
       then Del (key_for dl name) (\<lambda>_. release_key (guard_of dl name tok) (legacy_key_for dl name))
       else release_key (guard_of dl name tok) (legacy_key_for dl name))"
proof -
  have "release_guard (guard_of dl name tok) =
      bind_prog (release_key (guard_of dl name tok) (Some (key_for dl name))) (\<lambda>_. release_key (guard_of dl name tok) (legacy_key_for dl name))"
    by (simp add: release_guard_def guard_of_def)
  then show ?thesis unfolding release_key_some [of _ "key_for dl name"] lg_token_guard bind_prog.simps bind_prog_if .
qed

datatype lock_label =
    Wanting nat | First string | Second string | Back string | BackDel string | GivingUp | GivenUp | Locking string | Owning string
  | Letting string | LettingDel string | Clearing bool string | ClearingDel bool | Cleared bool | Free bool

fun lock_thread :: "dist_lock \<Rightarrow> string \<Rightarrow> nat \<Rightarrow> lock_label \<Rightarrow> (lock_guard option, lock_guard) thread" where
  "lock_thread dl name ttl (Wanting pid) = Busy (try_acquire pid dl name ttl)"
| "lock_thread dl name ttl (First tok) = Busy (acquire_first dl name ttl tok)"
| "lock_thread dl name ttl (Second tok) = Busy (acquire_main dl name ttl tok)"
| "lock_thread dl name ttl (Back tok) = Busy (bind_prog (release_key (guard_of dl name tok) (legacy_key_for dl name)) (\<lambda>_. Return None))"
| "lock_thread dl name ttl (BackDel old) = Busy (Del old (\<lambda>_. Return None))"
| "lock_thread dl name ttl GivingUp = Busy (Return None)"
| "lock_thread dl name ttl GivenUp = Refused None"
| "lock_thread dl name ttl (Locking tok) = Busy (Return (Some (guard_of dl name tok)))"
| "lock_thread dl name ttl (Owning tok) = Holding (guard_of dl name tok)"
| "lock_thread dl name ttl (Letting tok) = Reporting (release_guard (guard_of dl name tok))"
| "lock_thread dl name ttl (LettingDel tok) =
     Reporting (Del (key_for dl name) (\<lambda>_. release_key (guard_of dl name tok) (legacy_key_for dl name)))"
| "lock_thread dl name ttl (Clearing stale tok) = Reporting (release_key (guard_of dl name tok) (legacy_key_for dl name))"
| "lock_thread dl name ttl (ClearingDel stale) =
     (case legacy_key_for dl name of None \<Rightarrow> Reporting (Return ()) | Some old \<Rightarrow> Reporting (Del old (\<lambda>_. Return ())))"
| "lock_thread dl name ttl (Cleared stale) = Reporting (Return ())"
| "lock_thread dl name ttl (Free stale) = Gone"

text \<open>A release that found another's token left the key behind.\<close>

fun lock_counted :: "lock_label \<Rightarrow> nat" where
  "lock_counted (Locking tok) = 1" | "lock_counted (Owning tok) = 1" | "lock_counted (Letting tok) = 1" | "lock_counted (LettingDel tok) = 1"
| "lock_counted (Clearing stale tok) = of_bool stale" | "lock_counted (ClearingDel stale) = of_bool stale"
| "lock_counted (Cleared stale) = of_bool stale" | "lock_counted (Free stale) = of_bool stale"
| "lock_counted _ = 0"

fun lock_admitted :: "lock_label \<Rightarrow> nat" where
  "lock_admitted (Locking tok) = 1" | "lock_admitted (Owning tok) = 1" | "lock_admitted _ = 0"

definition lock_stands :: "cache_view \<Rightarrow> string \<Rightarrow> nat \<Rightarrow> nat \<Rightarrow> bool" where
  "lock_stands view key deadline n \<longleftrightarrow>
     (case view key of None \<Rightarrow> n = 0 | Some (v, d) \<Rightarrow> n = 1 \<and> (case d of None \<Rightarrow> True | Some t \<Rightarrow> deadline \<le> t))"

text \<open>Tokens are text, and a legacy key is the lock's own.\<close>

definition lock_timely :: "dist_lock \<Rightarrow> string \<Rightarrow> nat \<Rightarrow> nat \<Rightarrow> lock_label \<Rightarrow> bool" where
  "lock_timely dl name start now lb \<longleftrightarrow> start \<le> now \<and>
     (case lb of First tok \<Rightarrow> is_text tok | Second tok \<Rightarrow> is_text tok | BackDel old \<Rightarrow> legacy_key_for dl name = Some old | _ \<Rightarrow> True)"

lemma lock_stands_live:
  "lock_stands view key deadline n \<Longrightarrow> now \<le> deadline \<Longrightarrow> live_at now (view key) = None \<longleftrightarrow> n = 0"
  by (auto simp: lock_stands_def live_at_def split: option.splits)

lemma lock_stands_other: "view key = view' key \<Longrightarrow> lock_stands view key d n = lock_stands view' key d n"
  by (simp add: lock_stands_def)

context counter_cache
begin

definition lock_ok :: "dist_lock \<Rightarrow> string \<Rightarrow> nat \<Rightarrow> 'c \<Rightarrow> bool" where
  "lock_ok dl name ttl c \<longleftrightarrow> ok c \<and> ttl \<le> limit"

definition lock_moves ::
  "dist_lock \<Rightarrow> string \<Rightarrow> nat \<Rightarrow> nat \<Rightarrow> nat \<Rightarrow> nat \<Rightarrow> lock_label \<Rightarrow> 'c \<Rightarrow> (lock_guard option, lock_guard) thread \<Rightarrow> bool" where
  "lock_moves dl name ttl start now n lb c' t' \<longleftrightarrow>
     (\<exists>lb' n'. t' = lock_thread dl name ttl lb' \<and> lock_ok dl name ttl c' \<and> lock_timely dl name start now lb' \<and>
       lock_stands (entry c') (key_for dl name) (start + ttl) n' \<and>
       n' + lock_counted lb = n + lock_counted lb' \<and> (lock_admitted lb' \<le> lock_admitted lb \<or> n' \<le> 1))"

lemma lock_stays:
  assumes "lock_ok dl name ttl c'" "lock_stands (entry c') (key_for dl name) (start + ttl) n" "t' = lock_thread dl name ttl lb'"
    "lock_timely dl name start now lb'" "lock_counted lb' = lock_counted lb" "lock_admitted lb' \<le> lock_admitted lb"
  shows "lock_moves dl name ttl start now n lb c' t'"
  unfolding lock_moves_def using assms by auto

lemma get_step:
  assumes "ok c"
  shows "\<exists>c'. ca_get api k now c = (c', Inr (live_at now (entry c k))) \<and> ok c' \<and> entry c' = entry c"
  using get_law [OF assms] by blast

lemma acquire_main_moves:
  assumes ok: "lock_ok dl name ttl c" and now: "start \<le> now" "now \<le> start + ttl" and tok: "is_text tok"
    and n: "lock_stands (entry c) (key_for dl name) (start + ttl) n"
    and step: "thread_next api id release_guard now c (Busy (acquire_main dl name ttl tok)) = (c', t')"
    and lb: "lock_counted lb = 0"
  shows "lock_moves dl name ttl start now n lb c' t'"
proof -
  have okc: "ok c" "min ttl limit = ttl" using ok by (simp_all add: lock_ok_def)
  obtain y where y: "ca_add api (key_for dl name) tok (Some ttl) now c = (y, Inr (live_at now (entry c (key_for dl name)) = None))" "ok y"
      "entry y = (if live_at now (entry c (key_for dl name)) = None
        then (entry c)(key_for dl name \<mapsto> (tok, Some (now + ttl))) else entry c)"
    using add_law [OF okc(1) tok, of "key_for dl name" ttl now] okc(2) by auto
  note live = lock_stands_live [OF n now(2)]
  show ?thesis
  proof (cases "n = 0")
    case True
    then have "t' = lock_thread dl name ttl (Locking tok)" "c' = y" "lock_stands (entry y) (key_for dl name) (start + ttl) 1"
      using step y live now by (auto simp: acquire_main_def lock_stands_def)
    then show ?thesis unfolding lock_moves_def using y(2) ok now True lb
      by (intro exI [of _ "Locking tok"] exI [of _ 1]) (simp add: lock_ok_def lock_timely_def)
  next
    case False
    then have "t' = lock_thread dl name ttl (Back tok)" "c' = y" "entry y = entry c"
      using step y live by (auto simp: acquire_main_def)
    then show ?thesis using y(2) ok now n lb
      by (intro lock_stays [where lb' = "Back tok"]) (simp_all add: lock_ok_def lock_timely_def)
  qed
qed

lemma get_moves:
  assumes "lock_ok dl name ttl c"
  obtains c' where "ca_get api k now c = (c', Inr (live_at now (entry c k)))" "lock_ok dl name ttl c'" "entry c' = entry c"
  using get_law [of c k now] assms by (auto simp: lock_ok_def)

lemma legacy_del_moves:
  assumes "lock_ok dl name ttl c" "legacy_key_for dl name = Some old"
  obtains c' where "ca_delete api old now c = (c', Inr ())" "lock_ok dl name ttl c'" "entry c' (key_for dl name) = entry c (key_for dl name)"
  using delete_law [of c old now] assms legacy_differs [OF assms(2)] by (auto simp: lock_ok_def)

lemma acquire_first_moves:
  assumes ok: "lock_ok dl name ttl c" and now: "start \<le> now" "now \<le> start + ttl" and tok: "is_text tok"
    and n: "lock_stands (entry c) (key_for dl name) (start + ttl) n"
    and step: "thread_next api id release_guard now c (Busy (acquire_first dl name ttl tok)) = (c', t')"
    and lb: "lock_counted lb = 0"
  shows "lock_moves dl name ttl start now n lb c' t'"
proof (cases "legacy_key_for dl name")
  case None
  then show ?thesis using acquire_main_moves [OF ok now tok n _ lb] step by (simp add: acquire_first_def)
next
  case (Some old)
  have okc: "ok c" using ok by (simp add: lock_ok_def)
  obtain y b where y: "ca_add api old tok (Some ttl) now c = (y, Inr b)" "ok y" "entry y (key_for dl name) = entry c (key_for dl name)"
    using add_law [OF okc tok, of old ttl now] legacy_differs [OF Some] by (auto split: if_splits)
  have "lock_stands (entry y) (key_for dl name) (start + ttl) n" using n y(3) by (simp add: lock_stands_def)
  moreover have "t' = lock_thread dl name ttl (if b then Second tok else GivingUp)" "c' = y"
    using step y(1) Some by (auto simp: acquire_first_def)
  ultimately show ?thesis using y(2) ok now(1) tok lb
    by (intro lock_stays [where lb' = "if b then Second tok else GivingUp"]) (simp_all add: lock_ok_def lock_timely_def)
qed

lemma letting_moves:
  assumes ok: "lock_ok dl name ttl c" and now: "start \<le> now"
    and n: "lock_stands (entry c) (key_for dl name) (start + ttl) n"
    and step: "thread_next api id release_guard now c (lock_thread dl name ttl (Letting tok)) = (c', t')"
  shows "lock_moves dl name ttl start now n (Letting tok) c' t'"
proof -
  obtain y where y: "ca_get api (key_for dl name) now c = (y, Inr (live_at now (entry c (key_for dl name))))"
      "lock_ok dl name ttl y" "entry y = entry c"
    by (rule get_moves [OF ok])
  let ?lb = "if live_at now (entry c (key_for dl name)) = Some tok then LettingDel tok else Clearing True tok"
  have "t' = lock_thread dl name ttl ?lb" "c' = y"
    using step y(1) by (auto simp: release_guard_unfold)
  then show ?thesis using y n now by (intro lock_stays [where lb' = ?lb]) (simp_all add: lock_timely_def)
qed

lemma letting_del_moves:
  assumes ok: "lock_ok dl name ttl c" and now: "start \<le> now" and one: "1 \<le> n"
    and n: "lock_stands (entry c) (key_for dl name) (start + ttl) n"
    and step: "thread_next api id release_guard now c (lock_thread dl name ttl (LettingDel tok)) = (c', t')"
  shows "lock_moves dl name ttl start now n (LettingDel tok) c' t'"
proof -
  have okc: "ok c" using ok by (simp add: lock_ok_def)
  obtain y where y: "ca_delete api (key_for dl name) now c = (y, Inr ())" "ok y" "entry y = (entry c)(key_for dl name := None)"
    using delete_law [OF okc] by blast
  have "t' = lock_thread dl name ttl (Clearing False tok)" "c' = y" using step y(1) by auto
  moreover have "n = 1" using n one by (auto simp: lock_stands_def split: option.splits)
  ultimately show ?thesis unfolding lock_moves_def using y ok now
    by (intro exI [of _ "Clearing False tok"] exI [of _ 0]) (simp add: lock_ok_def lock_timely_def lock_stands_def)
qed

lemma back_moves:
  assumes ok: "lock_ok dl name ttl c" and now: "start \<le> now"
    and n: "lock_stands (entry c) (key_for dl name) (start + ttl) n"
    and step: "thread_next api id release_guard now c (lock_thread dl name ttl (Back tok)) = (c', t')"
  shows "lock_moves dl name ttl start now n (Back tok) c' t'"
proof (cases "legacy_key_for dl name")
  case None
  then show ?thesis using step ok n now
    by (intro lock_stays [where lb' = GivenUp]) (auto simp: release_key_def lock_timely_def)
next
  case (Some old)
  obtain y where y: "ca_get api old now c = (y, Inr (live_at now (entry c old)))" "lock_ok dl name ttl y" "entry y = entry c"
    by (rule get_moves [OF ok])
  let ?lb = "if live_at now (entry c old) = Some tok then BackDel old else GivingUp"
  have "t' = lock_thread dl name ttl ?lb" "c' = y"
    using step y(1) Some by (auto simp: release_key_some)
  then show ?thesis using y n now Some by (intro lock_stays [where lb' = ?lb]) (simp_all add: lock_timely_def)
qed

lemma clearing_moves:
  assumes ok: "lock_ok dl name ttl c" and now: "start \<le> now"
    and n: "lock_stands (entry c) (key_for dl name) (start + ttl) n"
    and step: "thread_next api id release_guard now c (lock_thread dl name ttl (Clearing stale tok)) = (c', t')"
  shows "lock_moves dl name ttl start now n (Clearing stale tok) c' t'"
proof (cases "legacy_key_for dl name")
  case None
  then show ?thesis using step ok n now
    by (intro lock_stays [where lb' = "Free stale"]) (auto simp: release_key_def lock_timely_def)
next
  case (Some old)
  obtain y where y: "ca_get api old now c = (y, Inr (live_at now (entry c old)))" "lock_ok dl name ttl y" "entry y = entry c"
    by (rule get_moves [OF ok])
  let ?lb = "if live_at now (entry c old) = Some tok then ClearingDel stale else Cleared stale"
  have "t' = lock_thread dl name ttl ?lb" "c' = y"
    using step y(1) Some by (auto simp: release_key_some)
  then show ?thesis using y n now by (intro lock_stays [where lb' = ?lb]) (simp_all add: lock_timely_def)
qed

lemma lock_thread_law:
  assumes ok: "lock_ok dl name ttl c" and now: "now \<le> start + ttl"
    and n: "lock_stands (entry c) (key_for dl name) (start + ttl) n" "lock_counted lb \<le> n"
    and t: "lock_timely dl name start now lb"
    and step: "thread_next api id release_guard now c (lock_thread dl name ttl lb) = (c', t')"
  shows "lock_moves dl name ttl start now n lb c' t'"
proof -
  have began: "start \<le> now" using t by (simp add: lock_timely_def)
  have stay: "lock_moves dl name ttl start now n lb c' t'" if "c' = c" "t' = lock_thread dl name ttl lb'"
      "lock_timely dl name start now lb'" "lock_counted lb' = lock_counted lb" "lock_admitted lb' \<le> lock_admitted lb" for lb'
    using lock_stays [OF ok n(1)] that by simp
  have old_gone: "lock_moves dl name ttl start now n lb c' t'" if "legacy_key_for dl name = Some old"
      "thread_next api id release_guard now c (lock_thread dl name ttl lb) = map_prod id (\<lambda>_. lock_thread dl name ttl lb') (ca_delete api old now c)"
      "lock_timely dl name start now lb'" "lock_counted lb' = lock_counted lb" "lock_admitted lb' \<le> lock_admitted lb" for old lb'
  proof -
    obtain y where "ca_delete api old now c = (y, Inr ())" "lock_ok dl name ttl y" "entry y (key_for dl name) = entry c (key_for dl name)"
      by (rule legacy_del_moves [OF ok \<open>legacy_key_for dl name = Some old\<close>])
    then show ?thesis using that(2-) step n(1)
      by (intro lock_stays [where lb' = lb']) (simp_all add: lock_stands_def)
  qed
  show ?thesis
  proof (cases lb)
    case (Wanting pid)
    then show ?thesis using step is_text_token began
      by (intro stay [of "First (lock_token pid now)"]) (auto simp: try_acquire_unfold lock_timely_def)
  next
    case (First tok)
    then show ?thesis using step t
      by (intro acquire_first_moves [OF ok began now _ n(1), of tok]) (simp_all add: lock_timely_def)
  next
    case (Second tok)
    then show ?thesis using step t
      by (intro acquire_main_moves [OF ok began now _ n(1), of tok]) (simp_all add: lock_timely_def)
  next
    case (Back tok)
    then show ?thesis using back_moves [OF ok began n(1)] step by simp
  next
    case (BackDel old)
    then show ?thesis using t by (intro old_gone [of old GivingUp]) (auto simp: lock_timely_def prod.map_comp comp_def id_def)
  next
    case GivingUp
    then show ?thesis using step t by (intro stay [of GivenUp]) (auto simp: lock_timely_def)
  next
    case (Locking tok)
    then show ?thesis using step t by (intro stay [of "Owning tok"]) (auto simp: lock_timely_def)
  next
    case (Owning tok)
    then show ?thesis using step t by (intro stay [of "Letting tok"]) (auto simp: lock_timely_def)
  next
    case (Letting tok)
    then show ?thesis using letting_moves [OF ok began n(1)] step by simp
  next
    case (LettingDel tok)
    then show ?thesis using letting_del_moves [OF ok began _ n(1)] n(2) step by simp
  next
    case (Clearing stale tok)
    then show ?thesis using clearing_moves [OF ok began n(1)] step by simp
  next
    case (ClearingDel stale)
    show ?thesis
    proof (cases "legacy_key_for dl name")
      case None
      then show ?thesis using ClearingDel step t by (intro stay [of "Free stale"]) (auto simp: lock_timely_def)
    next
      case (Some old)
      then show ?thesis using ClearingDel t
        by (intro old_gone [of old "Cleared stale"]) (auto simp: lock_timely_def prod.map_comp comp_def id_def)
    qed
  next
    case (Cleared stale)
    then show ?thesis using step t by (intro stay [of "Free stale"]) (auto simp: lock_timely_def)
  next
    case GivenUp
    then show ?thesis using step t by (intro stay [of lb]) auto
  next
    case (Free stale)
    then show ?thesis using step t by (intro stay [of lb]) auto
  qed
qed

lemma lock_slots:
  "slot_protocol api id release_guard (other_keys ok entry {key_for dl name}) (lock_ok dl name ttl)
     (\<lambda>c. lock_stands (entry c) (key_for dl name) (start + ttl)) (start + ttl) 1 (lock_thread dl name ttl)
     lock_counted lock_admitted (lock_timely dl name start)"
proof
  fix c c' and now n :: nat and lb t
  assume "lock_ok dl name ttl c" "now \<le> start + ttl" "lock_stands (entry c) (key_for dl name) (start + ttl) n"
    "lock_counted lb \<le> n" "lock_timely dl name start now lb"
    "thread_next api id release_guard now c (lock_thread dl name ttl lb) = (c', t)"
  from lock_thread_law [OF this] show "\<exists>l' n'. t = lock_thread dl name ttl l' \<and> lock_ok dl name ttl c' \<and> lock_timely dl name start now l' \<and>
      lock_stands (entry c') (key_for dl name) (start + ttl) n' \<and>
      n' + lock_counted lb = n + lock_counted l' \<and> (lock_admitted l' \<le> lock_admitted lb \<or> n' \<le> 1)"
    by (simp add: lock_moves_def)
next
  fix lb :: lock_label and s :: lock_guard
  show "lock_admitted lb \<le> lock_counted lb" "lock_counted lb \<le> 1" by (cases lb; simp)+
  show "lock_thread dl name ttl lb = Holding s \<Longrightarrow> lock_admitted lb = 1" by (cases lb) (simp_all split: option.splits)
qed (auto simp: other_keys_def lock_ok_def lock_timely_def lock_stands_def split: lock_label.splits)

end

interpretation lock_slots: slot_protocol in_memory_api id release_guard "other_keys unbounded mem_entry {key_for dl name}"
  "mem.lock_ok dl name ttl" "\<lambda>c. lock_stands (mem_entry c) (key_for dl name) (start + ttl)" "start + ttl" 1 "lock_thread dl name ttl"
  lock_counted lock_admitted "lock_timely dl name start" for dl name ttl start
  by (rule mem.lock_slots)

end
