(* ===== verification/Lock_Windows.thy ===== *)
theory Lock_Windows
  imports Dist_Lock_Correct
begin

text \<open>
  Jobs that run once per period, \<open>once_in_window\<close>: a run that succeeds leaves the key of its window behind, so the
  window is not run again while that key lives; a run that fails or panics frees it.
\<close>

section \<open>The keys of a lock\<close>

definition lock_keys :: "dist_lock \<Rightarrow> string \<Rightarrow> string set" where
  "lock_keys dl name = insert (key_for dl name) (set_option (legacy_key_for dl name))"

definition own_window :: "string \<Rightarrow> nat \<Rightarrow> string" where
  "own_window name w = name @ ''@'' @ show_nat w"

lemma show_nat_eq_iff: "show_nat i = show_nat j \<longleftrightarrow> i = j"
  by (metis digits_value_show_nat)

lemma lock_rest_inj: "lock_rest dl x = lock_rest dl y \<longleftrightarrow> x = y"
  by (simp add: lock_rest_def split: option.split)

lemma lock_keys_disjoint:
  assumes "x \<noteq> y"
  shows "lock_keys dl x \<inter> lock_keys dl y = {}"
proof (cases "dl_space dl")
  case GlobalSpace
  then show ?thesis using assms global_keys_inj [of Lock "lock_rest dl x" "lock_rest dl y"]
    by (auto simp: lock_keys_def key_for_def legacy_key_for_def legacy_key_def space_namespace_def lock_rest_inj)
next
  case (TenantSpace t)
  then show ?thesis using assms
    by (auto simp: lock_keys_def key_for_def legacy_key_for_def legacy_key_def space_namespace_def lock_rest_inj tenant_key_form)
qed

lemma own_window_other: "own_window name w \<noteq> name" "own_window name w = own_window name w' \<longleftrightarrow> w = w'"
  by (simp_all add: own_window_def show_nat_eq_iff)

section \<open>Taking and freeing a lock alone\<close>

definition lock_view :: "cache_view \<Rightarrow> dist_lock \<Rightarrow> string \<Rightarrow> (string \<times> nat option) option \<Rightarrow> cache_view" where
  "lock_view V dl name e = (\<lambda>k. if k \<in> lock_keys dl name then e else V k)"

lemma lock_view_key: "lock_view V dl name e (key_for dl name) = e"
  by (simp add: lock_view_def lock_keys_def)

lemma lock_view_upd:
  "lock_view V dl name e = (case legacy_key_for dl name of None \<Rightarrow> V | Some old \<Rightarrow> V(old := e))(key_for dl name := e)"
  by (auto simp: lock_view_def lock_keys_def fun_eq_iff split: option.split)

lemma lock_view_other: "x \<noteq> y \<Longrightarrow> k \<in> lock_keys dl x \<Longrightarrow> lock_view V dl y e k = V k"
  using lock_keys_disjoint [of x y dl] by (auto simp: lock_view_def)

text \<open>The parts of \<open>once_in_window\<close>.\<close>

definition close_window :: "lock_guard \<Rightarrow> ('t, 'e) body_end \<Rightarrow> ('t, 'e) body_end option prog" where
  "close_window guard result =
     (case result of BodyOk v \<Rightarrow> Return (Some result) | _ \<Rightarrow> bind_prog (release_guard guard) (\<lambda>_. Return (Some result)))"

definition run_window ::
  "nat \<Rightarrow> dist_lock \<Rightarrow> string \<Rightarrow> nat \<Rightarrow> lock_guard \<Rightarrow> ('t, 'e) body_end prog \<Rightarrow> ('t, 'e) body_end option prog" where
  "run_window pid dl name period guard body =
     bind_prog (try_acquire pid dl name period) (\<lambda>r. case r of
         None \<Rightarrow> bind_prog (release_guard guard) (\<lambda>_. Return None)
       | Some running \<Rightarrow>
           bind_prog body (\<lambda>result. bind_prog (release_guard running) (\<lambda>_. close_window guard result)))"

definition drop_old_window :: "dist_lock \<Rightarrow> string \<Rightarrow> nat \<Rightarrow> unit prog" where
  "drop_old_window dl name w =
     (if w < 2 then Return ()
      else let old = name @ ''@'' @ show_nat (w - 2) in
        Del (key_for dl old) (\<lambda>_. case legacy_key_for dl old of None \<Rightarrow> Return () | Some legacy \<Rightarrow> Del legacy (\<lambda>_. Return ())))"

lemma once_in_window_unfold:
  "once_in_window pid dl name period w body =
     bind_prog (try_acquire pid dl (own_window name w) (2 * period)) (\<lambda>g. case g of
         None \<Rightarrow> Return None
       | Some guard \<Rightarrow> bind_prog (drop_old_window dl name w) (\<lambda>_. run_window pid dl name period guard body))"
  unfolding once_in_window_def own_window_def drop_old_window_def run_window_def close_window_def ..

context counter_cache
begin

lemma leaves_acquire_free:
  assumes "\<forall>k \<in> lock_keys dl name. live_at now (V k) = None"
    and Q: "Q (lock_view V dl name (Some (lock_token pid now, Some (now + min ttl limit)))) (Some (guard_of dl name (lock_token pid now)))"
  shows "leaves now (try_acquire pid dl name ttl) Q V"
proof -
  let ?tok = "lock_token pid now"
  have main: "leaves now (acquire_main dl name ttl ?tok) Q W"
    if "live_at now (W (key_for dl name)) = None" "Q (W(key_for dl name \<mapsto> (?tok, Some (now + min ttl limit)))) (Some (guard_of dl name ?tok))" for W
    unfolding acquire_main_def using that by (intro leaves_add is_text_token) (simp_all add: leaves_return)
  have "leaves now (acquire_first dl name ttl ?tok) Q V"
  proof (cases "legacy_key_for dl name")
    case None
    then show ?thesis using assms unfolding acquire_first_def by (auto intro!: main simp: lock_view_upd lock_keys_def)
  next
    case (Some old)
    let ?W = "V(old \<mapsto> (?tok, Some (now + min ttl limit)))"
    have "leaves now (acquire_main dl name ttl ?tok) Q ?W"
      using assms Some legacy_differs [OF Some] by (intro main) (simp_all add: lock_view_upd lock_keys_def)
    then show ?thesis using assms(1) Some unfolding acquire_first_def
      by (auto intro!: leaves_add is_text_token simp: lock_keys_def)
  qed
  then show ?thesis by (simp add: try_acquire_unfold leaves_clock)
qed

lemma leaves_add_taken:
  assumes "is_text v" "live_at now (V k) \<noteq> None" "leaves now (f (Inr False)) Q V"
  shows "leaves now (AddNew k v (Some t) f) Q V"
proof (rule leaves_call [where call = "ca_add api k v (Some t)" and f = f and r = "Inr False"])
  fix c
  assume "ok c" "entry c = V"
  then show "\<exists>c'. ca_add api k v (Some t) now c = (c', Inr False) \<and> ok c' \<and> entry c' = V"
    using add_law [OF _ assms(1), of c k t now] assms(2) by simp
qed (simp_all add: assms(3))

lemma leaves_release_key:
  assumes "\<And>V'. (\<forall>k'. k' \<noteq> k \<longrightarrow> V' k' = V k') \<Longrightarrow> leaves now (g ()) Q V'"
  shows "leaves now (bind_prog (release_key guard (Some k)) g) Q V"
  unfolding release_key_some bind_prog.simps bind_prog_if
  using assms by (intro leaves_get) (auto intro!: leaves_del)

lemma leaves_acquire_taken:
  assumes "live_at now (V (key_for dl name)) \<noteq> None"
    and Q: "\<And>V'. (\<forall>k. k \<notin> set_option (legacy_key_for dl name) \<longrightarrow> V' k = V k) \<Longrightarrow> Q V' None"
  shows "leaves now (try_acquire pid dl name ttl) Q V"
proof -
  let ?tok = "lock_token pid now"
  have main: "leaves now (acquire_main dl name ttl ?tok) Q W"
    if "\<forall>k. k \<notin> set_option (legacy_key_for dl name) \<longrightarrow> W k = V k" for W
  proof -
    have "leaves now (bind_prog (release_key (guard_of dl name ?tok) (legacy_key_for dl name)) (\<lambda>_. Return None)) Q W"
    proof (cases "legacy_key_for dl name")
      case None
      then show ?thesis using that Q by (simp add: release_key_def leaves_return)
    next
      case (Some old)
      show ?thesis unfolding Some by (rule leaves_release_key, rule leaves_return, rule Q) (use that Some in simp)
    qed
    moreover have "W (key_for dl name) = V (key_for dl name)"
      using that legacy_differs [of dl name] by (cases "legacy_key_for dl name") auto
    ultimately show ?thesis unfolding acquire_main_def using assms(1) by (intro leaves_add_taken is_text_token) simp_all
  qed
  have "leaves now (acquire_first dl name ttl ?tok) Q V"
  proof (cases "legacy_key_for dl name")
    case None
    then show ?thesis using main by (simp add: acquire_first_def)
  next
    case (Some old)
    show ?thesis
    proof (cases "live_at now (V old) = None")
      case True
      then show ?thesis unfolding acquire_first_def Some option.case
        by (intro leaves_add is_text_token) (auto intro!: main simp: Some split: if_splits)
    next
      case False
      then show ?thesis unfolding acquire_first_def Some option.case
        by (intro leaves_add_taken is_text_token) (auto intro!: leaves_return Q)
    qed
  qed
  then show ?thesis by (simp add: try_acquire_unfold leaves_clock)
qed

lemma leaves_release_own:
  assumes "\<forall>k \<in> lock_keys dl name. live_at now (V k) = Some tok" "Q (lock_view V dl name None) ()"
  shows "leaves now (release_guard (guard_of dl name tok)) Q V"
proof -
  have key: "live_at now (V (key_for dl name)) = Some tok" using assms(1) by (simp add: lock_keys_def)
  have "leaves now (release_key (guard_of dl name tok) (legacy_key_for dl name)) Q (V(key_for dl name := None))"
  proof (cases "legacy_key_for dl name")
    case None
    then show ?thesis using assms(2) by (simp add: release_key_def leaves_return lock_view_upd)
  next
    case (Some old)
    have "live_at now (V old) = Some tok" using assms(1) Some by (simp add: lock_keys_def)
    moreover have "lock_view V dl name None = V(key_for dl name := None, old := None)"
      using legacy_differs [OF Some] by (simp add: lock_view_upd Some fun_upd_twist)
    ultimately show ?thesis unfolding Some release_key_some using assms(2) legacy_differs [OF Some]
      by (intro leaves_get) (simp add: leaves_del leaves_return)
  qed
  then show ?thesis unfolding release_guard_unfold using key by (intro leaves_get) (simp add: leaves_del)
qed

lemma leaves_old_window:
  assumes "\<And>V'. (\<forall>k. k \<notin> lock_keys dl (own_window name (w - 2)) \<or> w < 2 \<longrightarrow> V' k = V k) \<Longrightarrow> Q V' ()"
  shows "leaves now (drop_old_window dl name w) Q V"
  using assms unfolding drop_old_window_def own_window_def Let_def
  by (auto intro!: leaves_return leaves_del simp: lock_keys_def split: option.split)

text \<open>A body that leaves the lock's own keys alone.\<close>

definition body_leaves :: "nat \<Rightarrow> dist_lock \<Rightarrow> string \<Rightarrow> nat \<Rightarrow> ('t, 'e) body_end prog \<Rightarrow> ('t, 'e) body_end \<Rightarrow> bool" where
  "body_leaves now dl name w body res \<longleftrightarrow>
     (\<forall>V. leaves now body (\<lambda>V' r. r = res \<and> (\<forall>k \<in> lock_keys dl name \<union> lock_keys dl (own_window name w). V' k = V k)) V)"

text \<open>What the lock's keys hold when a run that began at \<open>now\<close> is over.\<close>

definition ran :: "nat \<Rightarrow> dist_lock \<Rightarrow> string \<Rightarrow> nat \<Rightarrow> nat \<Rightarrow> nat \<Rightarrow> ('t, 'e) body_end \<Rightarrow> cache_view \<Rightarrow> bool" where
  "ran now dl name w pid period res V \<longleftrightarrow> (\<forall>k \<in> lock_keys dl name. V k = None) \<and>
     (\<forall>k \<in> lock_keys dl (own_window name w). V k =
       (case res of BodyOk v \<Rightarrow> Some (lock_token pid now, Some (now + min (2 * period) limit)) | _ \<Rightarrow> None))"

definition window_held :: "nat \<Rightarrow> dist_lock \<Rightarrow> string \<Rightarrow> nat \<Rightarrow> nat \<Rightarrow> nat \<Rightarrow> cache_view \<Rightarrow> bool" where
  "window_held now dl name w pid period V \<longleftrightarrow>
     (\<forall>k \<in> lock_keys dl (own_window name w). V k = Some (lock_token pid now, Some (now + min (2 * period) limit)))"

lemma leaves_close_window:
  assumes "\<forall>k \<in> lock_keys dl name. V k = None" "window_held now dl name w pid period V"
    and Q: "\<And>V'. ran now dl name w pid period res V' \<Longrightarrow> Q V' (Some res)"
  shows "leaves now (close_window (guard_of dl (own_window name w) (lock_token pid now)) res) Q V"
proof -
  let ?w = "own_window name w" and ?tok = "lock_token pid now"
  have live: "\<forall>k \<in> lock_keys dl ?w. live_at now (V k) = Some ?tok" using assms(2) by (simp add: window_held_def)
  have "lock_view V dl ?w None k = None" if "k \<in> lock_keys dl name" for k
    using that assms(1) by (simp add: lock_view_def)
  then have freed: "ran now dl name w pid period res (lock_view V dl ?w None)" if "\<forall>v. res \<noteq> BodyOk v"
    using that by (simp add: ran_def lock_view_def split: body_end.split)
  have kept: "ran now dl name w pid period res V" if "res = BodyOk v" for v
    using that assms(1,2) by (simp add: ran_def window_held_def)
  have "leaves now (bind_prog (release_guard (guard_of dl ?w ?tok)) (\<lambda>_. Return (Some res))) Q V" if "\<forall>v. res \<noteq> BodyOk v"
    by (rule leaves_bind, rule leaves_release_own [OF live], rule leaves_return, rule Q, rule freed [OF that])
  then show ?thesis unfolding close_window_def using kept Q by (cases res) (auto intro!: leaves_return)
qed

lemma leaves_running:
  assumes name: "\<forall>k \<in> lock_keys dl name. live_at now (V k) = Some (lock_token pid now)"
    and held: "window_held now dl name w pid period V" and body: "body_leaves now dl name w body res"
    and Q: "\<And>V'. ran now dl name w pid period res V' \<Longrightarrow> Q V' (Some res)"
  shows "leaves now (bind_prog body (\<lambda>result. bind_prog (release_guard (guard_of dl name (lock_token pid now)))
      (\<lambda>_. close_window (guard_of dl (own_window name w) (lock_token pid now)) result))) Q V"
proof (rule leaves_bind, rule leaves_mono [OF body [unfolded body_leaves_def, rule_format, of V]], elim conjE)
  fix V' r
  assume V': "\<forall>k \<in> lock_keys dl name \<union> lock_keys dl (own_window name w). V' k = V k" and r: "r = res"
  have "window_held now dl name w pid period (lock_view V' dl name None)"
    using held V' lock_view_other [OF own_window_other(1) [of name w]] by (simp add: window_held_def)
  then show "leaves now (bind_prog (release_guard (guard_of dl name (lock_token pid now)))
      (\<lambda>_. close_window (guard_of dl (own_window name w) (lock_token pid now)) r)) Q V'"
    using V' name Q unfolding r
    by (intro leaves_bind leaves_release_own leaves_close_window [of dl name]) (simp_all add: lock_view_def)
qed

lemma leaves_run_window:
  assumes "\<forall>k \<in> lock_keys dl name. live_at now (V k) = None" "window_held now dl name w pid period V"
    "body_leaves now dl name w body res" "\<And>V'. ran now dl name w pid period res V' \<Longrightarrow> Q V' (Some res)"
  shows "leaves now (run_window pid dl name period (guard_of dl (own_window name w) (lock_token pid now)) body) Q V"
proof -
  let ?V = "lock_view V dl name (Some (lock_token pid now, Some (now + min period limit)))"
  have "window_held now dl name w pid period ?V"
    using assms(2) lock_view_other [OF own_window_other(1) [of name w]] by (simp add: window_held_def)
  moreover have "\<forall>k \<in> lock_keys dl name. live_at now (?V k) = Some (lock_token pid now)" by (simp add: lock_view_def)
  ultimately have "leaves now (bind_prog body (\<lambda>result. bind_prog (release_guard (guard_of dl name (lock_token pid now)))
      (\<lambda>_. close_window (guard_of dl (own_window name w) (lock_token pid now)) result))) Q ?V"
    by (intro leaves_running [where res = res] assms)
  then show ?thesis unfolding run_window_def by (intro leaves_bind leaves_acquire_free assms(1)) simp
qed

lemma leaves_once_free:
  assumes free: "\<forall>k \<in> lock_keys dl name \<union> lock_keys dl (own_window name w). live_at now (V k) = None"
    and body: "body_leaves now dl name w body res" and Q: "\<And>V'. ran now dl name w pid period res V' \<Longrightarrow> Q V' (Some res)"
  shows "leaves now (once_in_window pid dl name period w body) Q V"
proof -
  let ?w = "own_window name w" and ?e = "Some (lock_token pid now, Some (now + min (2 * period) limit))"
  have window_free: "\<forall>k \<in> lock_keys dl ?w. live_at now (V k) = None" using free by simp
  show ?thesis unfolding once_in_window_unfold
  proof (rule leaves_bind, rule leaves_acquire_free [OF window_free], simp only: option.case, rule leaves_bind, rule leaves_old_window)
    fix V'
    assume V': "\<forall>k. k \<notin> lock_keys dl (own_window name (w - 2)) \<or> w < 2 \<longrightarrow> V' k = lock_view V dl ?w ?e k"
    have same: "V' k = lock_view V dl ?w ?e k" if "k \<in> lock_keys dl name \<union> lock_keys dl ?w" for k
    proof (cases "w < 2")
      case False
      then have "own_window name (w - 2) \<noteq> ?w" by (simp add: own_window_other)
      then show ?thesis using V' that lock_keys_disjoint [of ?w "own_window name (w - 2)" dl]
          lock_keys_disjoint [OF own_window_other(1) [of name "w - 2", symmetric], of dl] by (metis UnE disjoint_iff)
    qed (use V' in simp)
    have "window_held now dl name w pid period V'" using same by (simp add: lock_view_def window_held_def)
    moreover have "V' k = V k" if "k \<in> lock_keys dl name" for k
      using that same lock_view_other [OF own_window_other(1) [of name w, symmetric] that] by simp
    then have "\<forall>k \<in> lock_keys dl name. live_at now (V' k) = None" using free by simp
    ultimately show "leaves now (run_window pid dl name period (guard_of dl ?w (lock_token pid now)) body) Q V'"
      by (intro leaves_run_window [where res = res] body) (assumption+, rule Q)
  qed
qed

lemma leaves_once_taken:
  assumes "live_at now (V (key_for dl (own_window name w))) \<noteq> None" "\<And>V'. Q V' None"
  shows "leaves now (once_in_window pid dl name period w body) Q V"
  unfolding once_in_window_unfold using assms by (intro leaves_bind leaves_acquire_taken) (auto intro!: leaves_return)

end

end
