(* ===== verification/Locks.thy ===== *)
theory Locks
  imports Scoped Lock_Windows
begin

text \<open>
  What one cache shared by tenants and processes promises: a purge takes a tenant's keys and no others, a lock has one
  holder, a scheduled job runs once in its window.
\<close>

section \<open>Purging a tenant\<close>

lemma global_not_lock_tenant:
  assumes "\<not> (area_bare a \<and> starts_with r ''lock:'')"
  shows "\<not> starts_with (space_key GlobalSpace a r) (''lock:'' @ tenant_root t)"
proof
  assume "starts_with (space_key GlobalSpace a r) (''lock:'' @ tenant_root t)"
  then obtain q where q: "space_key GlobalSpace a r = ''lock:tenant:'' @ q" by (auto simp: starts_with_iff tenant_root_def)
  show False
  proof (cases "area_bare a")
    case True
    then have "escape_name r = ''lock:tenant:'' @ q" using q by (simp add: global_key)
    then have "r = ''lock:tenant:'' @ q" by (auto simp: escape_name_def split: if_splits)
    then show False using True assms by (simp add: starts_with_def)
  next
    case False
    then have "area_name a @ '':'' @ escape_name r = ''lock:tenant:'' @ q" using q by (simp add: global_key)
    then have "starts_with (escape_name r) ''tenant:''"
      using False by (cases a) (auto simp: area_name_def area_bare_def starts_with_def)
    then show False by (simp add: escape_name_not_tenant)
  qed
qed

lemma global_not_tenant_root: "\<not> starts_with (space_key GlobalSpace a r) (tenant_root t)"
  using global_key_not_tenant [of a r] by (auto simp: starts_with_iff tenant_root_def)

text \<open>
  Purging a tenant deletes every key of that tenant, in every area and at its old lock keys, and changes no key of
  a tenant with another org id and no key of the application, names that begin with \<open>lock:\<close> in a bare area apart.
\<close>

theorem purge_takes_one_tenant:
  assumes "ic_store c0 = empty_store" "c = mem_run h c0" "c' = fst (scope_purge mem_delete_prefix (TenantSpace t) now c)"
  shows "snd (scope_purge mem_delete_prefix (TenantSpace t) now c) = Inr () \<and>
    mem_entry c' (space_key (TenantSpace t) a r) = None \<and>
    (\<forall>k. legacy_key (TenantSpace t) Lock r = Some k \<longrightarrow> mem_entry c' k = None) \<and>
    (ts_org_id t \<noteq> ts_org_id t' \<longrightarrow> mem_entry c' (space_key (TenantSpace t') a r) = mem_entry c (space_key (TenantSpace t') a r)) \<and>
    (\<not> (area_bare a \<and> starts_with r ''lock:'') \<longrightarrow> mem_entry c' (space_key GlobalSpace a r) = mem_entry c (space_key GlobalSpace a r))"
proof -
  have ok: "cache_ok c" using run_within [OF empty_within [OF assms(1)]] assms(2) by (simp add: budget_ok_def)
  have purge: "scope_purge mem_delete_prefix (TenantSpace t) now c = delete_prefixes mem_delete_prefix [tenant_root t, ''lock:'' @ tenant_root t] now c"
    by (simp add: scope_purge_def purge_prefixes_tenant Let_def)
  note entry = delete_prefixes_mem [OF ok, of "[tenant_root t, ''lock:'' @ tenant_root t]" now]
  have c': "mem_entry c' k = (if starts_with k (tenant_root t) \<or> starts_with k (''lock:'' @ tenant_root t) then None else mem_entry c k)" for k
    using entry [of k] unfolding assms(3) purge by simp
  have "legacy_key (TenantSpace t) Lock r = Some (''lock:'' @ tenant_root t @ r)"
    by (simp add: legacy_key_def space_namespace_def tenant_prefix_def tenant_namespace_def tenant_root_def)
  moreover have "snd (scope_purge mem_delete_prefix (TenantSpace t) now c) = Inr ()" using entry unfolding purge by blast
  moreover have "starts_with (''lock:'' @ tenant_root t @ r) (''lock:'' @ tenant_root t)" by (simp add: starts_with_def)
  ultimately show ?thesis
    using c' purge_tenant [OF ok] other_tenant_root not_lock_tenant global_not_lock_tenant global_not_tenant_root
    by (simp add: tenant_key_root assms(3))
qed

definition acme :: tenant_slug where
  "acme = \<lparr>ts_slug = ''acme'', ts_org_id = 1\<rparr>"

definition other_acme :: tenant_slug where
  "other_acme = \<lparr>ts_slug = ''acme'', ts_org_id = 11\<rparr>"

definition shared_cache :: in_memory_cache where
  "shared_cache = mem_run [(1, SetCall (space_key (TenantSpace acme) App ''x'') ''1'' None),
     (2, SetCall (space_key (TenantSpace other_acme) App ''x'') ''2'' None)] (build_cache None 0 0)"

theorem purge_takes_one_tenant_witness:
  "let c = fst (scope_purge mem_delete_prefix (TenantSpace acme) 5 shared_cache) in
   mem_entry c (space_key (TenantSpace acme) App ''x'') = None \<and>
   mem_entry c (space_key (TenantSpace other_acme) App ''x'') = mem_entry shared_cache (space_key (TenantSpace other_acme) App ''x'') \<and>
   mem_entry c (space_key GlobalSpace App ''x'') = mem_entry shared_cache (space_key GlobalSpace App ''x'')"
proof -
  have "\<not> (area_bare App \<and> starts_with ''x'' ''lock:'')" "ts_org_id acme \<noteq> ts_org_id other_acme"
    by (simp_all add: starts_with_def acme_def other_acme_def)
  moreover have "ic_store (build_cache None 0 0) = empty_store" by (simp add: build_cache_def)
  ultimately show ?thesis unfolding Let_def
    using purge_takes_one_tenant [OF _ shared_cache_def refl, of acme 5 App "''x''" other_acme] by simp
qed

text \<open>
  The global app view refuses \<open>clear\<close>, since it would wipe every tenant's keys; \<open>delete_prefix\<close> with an empty prefix does just
  that. And a name it escapes is missed by a prefix of that name.
\<close>

lemma global_delete_prefix_reaches_tenants:
  assumes "cache_ok c"
  shows "scoped_clear mem_delete_prefix (scope_app GlobalSpace) now c = (c, Inl cache_error.Refused) \<and>
    mem_entry (fst (scoped_delete_prefix mem_delete_prefix (scope_app GlobalSpace) [] now c)) (space_key (TenantSpace t) a r) = None"
  using mem_entry_delete_prefix [OF assms]
  by (simp add: scoped_clear_def scoped_delete_prefix_def scope_app_def in_space_def scoped_k_def global_key area_bare_def escape_name_def
      starts_with_def call_ok_def)

lemma global_delete_prefix_misses_escaped:
  assumes "cache_ok c"
  shows "mem_entry (fst (scoped_delete_prefix mem_delete_prefix (scope_app GlobalSpace) ''ten'' now c)) (scoped_k (scope_app GlobalSpace) ''tenant:x'') =
    mem_entry c (scoped_k (scope_app GlobalSpace) ''tenant:x'')"
  using mem_entry_delete_prefix [OF assms]
  by (simp add: scoped_delete_prefix_def scope_app_def in_space_def scoped_k_def global_key area_bare_def escape_name_def starts_with_def)

section \<open>One holder\<close>

text \<open>
  C16. However many processes try to take one lock at once and release it, in any interleaving of their cache calls with
  each other, the clock and clients of other keys, at most one of them holds it, as long as no more than the lock's
  \<open>ttl\<close> has passed since they began.
\<close>

theorem one_lock_holder:
  assumes "unbounded c" "mem_entry c (key_for dl name) = None" "ttl \<le> far_future" "int (length pids) + 1 < 2 ^ 63"
    "(pool_step in_memory_api id release_guard (other_keys unbounded mem_entry {key_for dl name}))\<^sup>*\<^sup>*
       (start, c, map (\<lambda>pid. Busy (try_acquire pid dl name ttl)) pids) (now, c', ts)"
    "now \<le> start + ttl"
  shows "holding ts \<le> 1"
proof -
  have "lock_slots.slots_inv dl name ttl start (start, c, map (lock_thread dl name ttl) (map Wanting pids))"
    using assms(1-3) by (intro lock_slots.fresh_pool) (auto simp: mem.lock_ok_def lock_timely_def lock_stands_def)
  then show ?thesis
    using lock_slots.slots_bounded [OF assms(5) _ _ assms(6)] assms(4) by (simp add: comp_def)
qed

theorem one_lock_holder_witness:
  "holding (snd (snd (pool_run in_memory_api id release_guard [0, 1, 1, 0, 0, 1, 1]
     (7, build_cache None 0 0, map (\<lambda>pid. Busy (try_acquire pid (lock_in_space (TenantSpace acme)) ''report'' 60)) [41, 42])))) \<le> 1"
proof -
  let ?dl = "lock_in_space (TenantSpace acme)" and ?ts = "map (\<lambda>pid. Busy (try_acquire pid (lock_in_space (TenantSpace acme)) ''report'' 60)) [41, 42]"
  define s where "s = pool_run in_memory_api id release_guard [0, 1, 1, 0, 0, 1, 1] (7, build_cache None 0 0, ?ts)"
  have "unbounded (build_cache None 0 0)" "mem_entry (build_cache None 0 0) (key_for ?dl ''report'') = None"
    using empty_unbounded [of "build_cache None 0 0"] by (simp_all add: build_cache_def)
  moreover have "fst s = 7" unfolding s_def pool_run_now by simp
  moreover have "(pool_step in_memory_api id release_guard env)\<^sup>*\<^sup>* (7, build_cache None 0 0, ?ts) (fst s, fst (snd s), snd (snd s))" for env
    unfolding prod.collapse s_def by (rule pool_run_reachable)
  ultimately have "holding (snd (snd s)) \<le> 1"
    using one_lock_holder [of "build_cache None 0 0" ?dl "''report''" 60 "[41, 42]" 7 "fst s" "fst (snd s)" "snd (snd s)"]
    by (simp add: far_future_def)
  then show ?thesis unfolding s_def .
qed

section \<open>Once in a window\<close>

text \<open>
  C17. A job guarded by \<open>once_in_window\<close> with a free window runs and its result is returned. If it succeeded, no call for
  the same window runs its body again within twice the period; if it failed or panicked, the next call runs it.
\<close>

theorem job_runs_once_in_window:
  assumes "unbounded c" "\<forall>k \<in> lock_keys dl name \<union> lock_keys dl (own_window name w). live_at now (mem_entry c k) = None"
    "mem.body_leaves now dl name w body res" "run_prog (once_in_window pid dl name period w body) in_memory_api now c = (c1, r)"
    "other_keys unbounded mem_entry (lock_keys dl name \<union> lock_keys dl (own_window name w)) c1 c2"
    "2 * period \<le> far_future" "later \<le> now + 2 * period" "mem.body_leaves later dl name w body' res'"
  shows "r = Some res \<and>
    snd (run_prog (once_in_window pid' dl name period w body') in_memory_api later c2) =
      (case res of BodyOk v \<Rightarrow> None | _ \<Rightarrow> Some res')"
proof -
  have "mem.leaves now (once_in_window pid dl name period w body)
      (\<lambda>V r. r = Some res \<and> mem.ran now dl name w pid period res V) (mem_entry c)"
    using assms(2,3) by (rule mem.leaves_once_free) simp
  then have r: "r = Some res" and ran: "mem.ran now dl name w pid period res (mem_entry c1)"
    using assms(1,4) by (auto simp: mem.leaves_def)
  have c2: "unbounded c2" "mem.ran now dl name w pid period res (mem_entry c2)"
    using assms(5) ran by (simp_all add: other_keys_def mem.ran_def)
  have "mem.leaves later (once_in_window pid' dl name period w body')
      (\<lambda>V r. r = (case res of BodyOk v \<Rightarrow> None | _ \<Rightarrow> Some res')) (mem_entry c2)"
  proof (cases "\<exists>v. res = BodyOk v")
    case True
    then have "live_at later (mem_entry c2 (key_for dl (own_window name w))) \<noteq> None"
      using c2(2) assms(6,7) by (auto simp: mem.ran_def lock_keys_def)
    then show ?thesis using True by (intro mem.leaves_once_taken) auto
  next
    case False
    then have "(case res of BodyOk v \<Rightarrow> e v | _ \<Rightarrow> f) = f" for e f by (cases res) auto
    note failed = this
    have "\<forall>k \<in> lock_keys dl name \<union> lock_keys dl (own_window name w). live_at later (mem_entry c2 k) = None"
      using c2(2) by (auto simp: mem.ran_def failed)
    then show ?thesis using assms(8) by (rule mem.leaves_once_free) (cases res; use False in simp)
  qed
  then show ?thesis using c2(1) r by (auto simp: mem.leaves_def)
qed

definition done_job :: "(unit, unit) body_end prog" where
  "done_job = Return (BodyOk ())"

definition failed_job :: "(unit, unit) body_end prog" where
  "failed_job = Return (BodyErr ())"

theorem job_runs_once_in_window_witness:
  "snd (run_prog (once_in_window 1 dist_lock_new ''report'' 60 7 done_job) in_memory_api 100 (build_cache None 0 0)) = Some (BodyOk ()) \<and>
   snd (run_prog (once_in_window 2 dist_lock_new ''report'' 60 7 failed_job) in_memory_api 220
     (fst (run_prog (once_in_window 1 dist_lock_new ''report'' 60 7 done_job) in_memory_api 100 (build_cache None 0 0)))) = None"
proof -
  let ?run = "run_prog (once_in_window 1 dist_lock_new ''report'' 60 7 done_job) in_memory_api 100 (build_cache None 0 0)"
  have body: "mem.body_leaves now dl name w done_job (BodyOk ())" "mem.body_leaves now dl name w failed_job (BodyErr ())" for now dl name w
    by (simp_all add: done_job_def failed_job_def mem.body_leaves_def mem.leaves_return)
  have empty: "unbounded (build_cache None 0 0)" "mem_entry (build_cache None 0 0) = Map.empty"
    using empty_unbounded [of "build_cache None 0 0"] by (simp_all add: build_cache_def)
  have free: "\<forall>k \<in> lock_keys dist_lock_new ''report'' \<union> lock_keys dist_lock_new (own_window ''report'' 7).
      live_at 100 (mem_entry (build_cache None 0 0) k) = None" by (simp add: empty)
  obtain c1 r where run: "?run = (c1, r)" by fastforce
  have "mem.leaves 100 (once_in_window 1 dist_lock_new ''report'' 60 7 done_job) (\<lambda>_ _. True) Map.empty"
    using free [unfolded empty] body(1) by (rule mem.leaves_once_free) simp
  then have "unbounded c1" using run empty by (auto simp: mem.leaves_def)
  then have same: "other_keys unbounded mem_entry K c1 c1" for K by (simp add: other_keys_def)
  show ?thesis
    using job_runs_once_in_window [OF empty(1) free body(1) run same _ _ body(2), of 220 2] run by (simp add: far_future_def)
qed

end
