(* ===== verification/File_Cache.thy ===== *)
theory File_Cache
  imports Cache_Contract
begin

text \<open>
  The cache in a directory, \<open>FileCache\<close> of \<open>crates/rustango/src/cache/mod.rs\<close>: the file format, every operation and the sweep.
  The directory is the list of its files in the order it is read. Bytes are characters, times and durations are in
  milliseconds. The SHA-256 of a key is a parameter. Calls of the file system succeed and each operation, which holds the lock
  of its stripe, is one step; temporary files and lock files, which no operation reads as entries, are left out.
\<close>

section \<open>The file format\<close>

fun be_bytes :: "nat \<Rightarrow> nat \<Rightarrow> string" where
  "be_bytes 0 v = []"
| "be_bytes (Suc n) v = char_of (v div 256 ^ n) # be_bytes n v"

definition be_value :: "string \<Rightarrow> nat" where
  "be_value bs = foldl (\<lambda>v b. v * 256 + of_char b) 0 bs"

definition i64_to_be_bytes :: "int \<Rightarrow> string" where
  "i64_to_be_bytes n = be_bytes 8 (nat (n mod 2 ^ 64))"

definition i64_from_be_bytes :: "string \<Rightarrow> int" where
  "i64_from_be_bytes bs = (let v = int (be_value bs) in if v \<ge> 2 ^ 63 then v - 2 ^ 64 else v)"

definition file_magic :: string where
  "file_magic = ''RCF1''"

definition now_unix_millis :: "nat \<Rightarrow> int" where
  "now_unix_millis now = (if i64_range (int now) then int now else 0)"

definition encode_at :: "string \<Rightarrow> string \<Rightarrow> int \<Rightarrow> string" where
  "encode_at key value' expires_at =
     (let key_len = (if length key < 2 ^ 32 then length key else 2 ^ 32 - 1)
      in file_magic @ i64_to_be_bytes expires_at @ be_bytes 4 key_len @ key @ value')"

definition expires_at_of :: "nat \<Rightarrow> nat option \<Rightarrow> int" where
  "expires_at_of now ttl =
     (case ttl of
        None \<Rightarrow> 0
      | Some d \<Rightarrow> if i64_range (int d) then min (now_unix_millis now + int d) (2 ^ 63 - 1) else 0)"

definition encode_entry :: "string \<Rightarrow> string \<Rightarrow> nat option \<Rightarrow> nat \<Rightarrow> string" where
  "encode_entry key value' ttl now = encode_at key value' (expires_at_of now ttl)"

definition decode_entry :: "nat \<Rightarrow> string \<Rightarrow> (string \<times> string \<times> bool \<times> int) option" where
  "decode_entry now buf =
     (case strip_prefix file_magic buf of
        None \<Rightarrow> None
      | Some rest \<Rightarrow>
          if length rest < 12 then None
          else
            (let expires_at = i64_from_be_bytes (take 8 rest);
                 key_len = be_value (take 4 (drop 8 rest));
                 body = drop 12 rest
             in if length body < key_len \<or> \<not> is_utf8 (take key_len body) then None
                else Some (take key_len body, drop key_len body, expires_at \<noteq> 0 \<and> now_unix_millis now > expires_at, expires_at)))"

definition header_dead :: "nat \<Rightarrow> string \<Rightarrow> bool" where
  "header_dead now buf \<longleftrightarrow>
     length buf < 12 \<or> take 4 buf \<noteq> file_magic \<or>
     (let at = i64_from_be_bytes (take 8 (drop 4 buf)) in at \<noteq> 0 \<and> now_unix_millis now > at)"

section \<open>The directory\<close>

record cache_file =
  cf_modified :: nat
  cf_bytes :: string

record file_limits =
  fl_entries :: nat
  fl_bytes :: nat

record file_cache =
  fc_files :: "(string \<times> cache_file) list"
  fc_writes :: nat
  fc_limits :: file_limits

definition file_cache_new :: file_cache where
  "file_cache_new = \<lparr>fc_files = [], fc_writes = 0, fc_limits = \<lparr>fl_entries = 100000, fl_bytes = 2 ^ 30\<rparr>\<rparr>"

definition file_max_entries :: "nat \<Rightarrow> file_cache \<Rightarrow> file_cache" where
  "file_max_entries n c = c\<lparr>fc_limits := (fc_limits c)\<lparr>fl_entries := n\<rparr>\<rparr>"

definition file_max_bytes :: "nat \<Rightarrow> file_cache \<Rightarrow> file_cache" where
  "file_max_bytes n c = c\<lparr>fc_limits := (fc_limits c)\<lparr>fl_bytes := n\<rparr>\<rparr>"

definition hex_digit :: "nat \<Rightarrow> char" where
  "hex_digit d = (if d < 10 then char_of (48 + d) else char_of (87 + d))"

definition hex_byte :: "char \<Rightarrow> string" where
  "hex_byte b = [hex_digit (of_char b div 16), hex_digit (of_char b mod 16)]"

definition key_path :: "(string \<Rightarrow> string) \<Rightarrow> string \<Rightarrow> string" where
  "key_path sha256 key = concat (map hex_byte (sha256 key)) @ ''.cache''"

definition cache_extension :: "string \<Rightarrow> bool" where
  "cache_extension name \<longleftrightarrow> ends_with name ''.cache'' \<and> name \<noteq> ''.cache''"

definition remove_file :: "string \<Rightarrow> file_cache \<Rightarrow> file_cache" where
  "remove_file path c = c\<lparr>fc_files := filter (\<lambda>(n, _). n \<noteq> path) (fc_files c)\<rparr>"

definition write_file :: "string \<Rightarrow> string \<Rightarrow> nat \<Rightarrow> file_cache \<Rightarrow> file_cache" where
  "write_file path bytes now c =
     c\<lparr>fc_files := filter (\<lambda>(n, _). n \<noteq> path) (fc_files c) @ [(path, \<lparr>cf_modified = now, cf_bytes = bytes\<rparr>)]\<rparr>"

datatype file_entry = MissingFile | DeadFile | LiveFile string int

definition entry_of :: "nat \<Rightarrow> string \<Rightarrow> file_entry" where
  "entry_of now bytes =
     (case decode_entry now bytes of Some (_, v, False, at) \<Rightarrow> LiveFile v at | _ \<Rightarrow> DeadFile)"

definition read_entry :: "nat \<Rightarrow> string \<Rightarrow> file_cache \<Rightarrow> file_entry" where
  "read_entry now path c = (case map_of (fc_files c) path of None \<Rightarrow> MissingFile | Some f \<Rightarrow> entry_of now (cf_bytes f))"

definition clear_dead :: "nat \<Rightarrow> string \<Rightarrow> file_cache \<Rightarrow> file_cache \<times> string option" where
  "clear_dead now path c =
     (case read_entry now path c of
        LiveFile v _ \<Rightarrow> (c, Some v)
      | DeadFile \<Rightarrow> (remove_file path c, None)
      | MissingFile \<Rightarrow> (c, None))"

section \<open>The sweep\<close>

fun evict_files ::
  "(nat \<Rightarrow> nat \<Rightarrow> bool) \<Rightarrow> (nat \<times> nat \<times> string) list \<Rightarrow> nat \<Rightarrow> nat \<Rightarrow> file_cache \<Rightarrow> nat \<Rightarrow> file_cache \<times> nat" where
  "evict_files fits [] count' bytes c removed = (c, removed)"
| "evict_files fits ((at, len, path) # live) count' bytes c removed =
     (if fits count' bytes then (c, removed)
      else if map_option cf_modified (map_of (fc_files c) path) = Some at
        then evict_files fits live (count' - 1) (bytes - len) (remove_file path c) (removed + 1)
        else evict_files fits live (count' - 1) (bytes - len) c removed)"

definition file_fits :: "file_limits \<Rightarrow> nat \<Rightarrow> nat \<Rightarrow> nat \<Rightarrow> bool" where
  "file_fits limits parts count' bytes \<longleftrightarrow>
     (fl_entries limits = 0 \<or> count' \<le> (fl_entries limits + parts - 1) div parts) \<and>
     (fl_bytes limits = 0 \<or> bytes \<le> fl_bytes limits div parts)"

definition evict_oldest :: "(nat \<times> nat \<times> string) list \<Rightarrow> nat \<Rightarrow> file_cache \<Rightarrow> file_cache \<times> nat" where
  "evict_oldest live parts c =
     (let fits = file_fits (fc_limits c) parts;
          bytes = sum_list (map (\<lambda>(_, len, _). len) live)
      in if fits (length live) bytes then (c, 0)
         else evict_files fits (sort_key fst live) (length live) bytes c 0)"

definition in_stripe :: "char option \<Rightarrow> string \<Rightarrow> bool" where
  "in_stripe stripe name \<longleftrightarrow>
     (case stripe of None \<Rightarrow> True | Some d \<Rightarrow> starts_with name [d]) \<and> cache_extension name"

definition sweep_dir :: "nat \<Rightarrow> char option \<Rightarrow> file_cache \<Rightarrow> file_cache \<times> nat" where
  "sweep_dir now stripe c =
     (let seen = filter (\<lambda>(n, _). in_stripe stripe n) (fc_files c);
          dead = filter (\<lambda>(_, f). header_dead now (cf_bytes f)) seen;
          live = filter (\<lambda>(_, f). \<not> header_dead now (cf_bytes f)) seen;
          swept = fold (\<lambda>(n, _) d. fst (clear_dead now n d)) dead c;
          removed = length (filter (\<lambda>(n, _). map_of (fc_files swept) n = None) dead);
          (final, evicted) = evict_oldest (map (\<lambda>(n, f). (cf_modified f, length (cf_bytes f), n)) live)
            (if stripe = None then 1 else 16) swept
      in (final, removed + evicted))"

definition purge_expired :: "nat \<Rightarrow> file_cache \<Rightarrow> file_cache \<times> nat" where
  "purge_expired now c = sweep_dir now None c"

definition sweep_every :: nat where
  "sweep_every = 16"

definition after_write :: "nat \<Rightarrow> file_cache \<Rightarrow> file_cache" where
  "after_write now c =
     (let n = fc_writes c;
          c' = c\<lparr>fc_writes := (n + 1) mod 2 ^ 32\<rparr>
      in if n mod sweep_every \<noteq> sweep_every - 1 then c'
         else fst (sweep_dir now (Some (hex_digit ((n div sweep_every) mod 16))) c'))"

section \<open>The operations\<close>

definition get_entry :: "(string \<Rightarrow> string) \<Rightarrow> string \<Rightarrow> nat \<Rightarrow> file_cache \<Rightarrow> file_cache \<times> string option" where
  "get_entry sha key now c =
     (case read_entry now (key_path sha key) c of
        MissingFile \<Rightarrow> (c, None)
      | LiveFile v _ \<Rightarrow> (c, Some v)
      | DeadFile \<Rightarrow> clear_dead now (key_path sha key) c)"

definition set_entry :: "(string \<Rightarrow> string) \<Rightarrow> string \<Rightarrow> string \<Rightarrow> nat option \<Rightarrow> nat \<Rightarrow> file_cache \<Rightarrow> file_cache" where
  "set_entry sha key v ttl now c = after_write now (write_file (key_path sha key) (encode_entry key v ttl now) now c)"

definition incr_entry :: "(string \<Rightarrow> string) \<Rightarrow> string \<Rightarrow> int \<Rightarrow> nat option \<Rightarrow> (file_cache, int) cache_call" where
  "incr_entry sha key by ttl now c =
     (let path = key_path sha key;
          (cur, kept) = (case read_entry now path c of
              LiveFile v at \<Rightarrow> ((case (if is_utf8 v then counter_value v else None) of None \<Rightarrow> 0 | Some n \<Rightarrow> n), Some at)
            | _ \<Rightarrow> (0, None))
      in case checked_add cur by of
           Inl e \<Rightarrow> (c, Inl e)
         | Inr new \<Rightarrow>
             (let bytes = (case kept of
                    Some at \<Rightarrow> if ttl = None then encode_at key (show_int new) at else encode_entry key (show_int new) ttl now
                  | None \<Rightarrow> encode_entry key (show_int new) ttl now)
              in (write_file path bytes now c, Inr new)))"

definition touch_entry :: "(string \<Rightarrow> string) \<Rightarrow> string \<Rightarrow> nat option \<Rightarrow> nat \<Rightarrow> file_cache \<Rightarrow> file_cache \<times> bool" where
  "touch_entry sha key ttl now c =
     (case read_entry now (key_path sha key) c of
        LiveFile v _ \<Rightarrow> (write_file (key_path sha key) (encode_entry key v ttl now) now c, True)
      | _ \<Rightarrow> (c, False))"

definition delete_entry :: "(string \<Rightarrow> string) \<Rightarrow> string \<Rightarrow> file_cache \<Rightarrow> file_cache" where
  "delete_entry sha key c =
     (if map_of (fc_files c) (key_path sha key) = None then c else remove_file (key_path sha key) c)"

definition add_entry :: "(string \<Rightarrow> string) \<Rightarrow> string \<Rightarrow> string \<Rightarrow> nat option \<Rightarrow> nat \<Rightarrow> file_cache \<Rightarrow> file_cache \<times> bool" where
  "add_entry sha key v ttl now c =
     (case read_entry now (key_path sha key) c of
        LiveFile _ _ \<Rightarrow> (c, False)
      | _ \<Rightarrow> (after_write now (write_file (key_path sha key) (encode_entry key v ttl now) now c), True))"

definition clear_entries :: "file_cache \<Rightarrow> file_cache" where
  "clear_entries c = c\<lparr>fc_files := filter (\<lambda>(n, _). \<not> cache_extension n) (fc_files c)\<rparr>"

definition delete_prefix_one :: "nat \<Rightarrow> string \<Rightarrow> string \<times> cache_file \<Rightarrow> file_cache \<Rightarrow> file_cache" where
  "delete_prefix_one now prefix nf c =
     (case nf of (n, f) \<Rightarrow>
        if \<not> cache_extension n then c
        else (case decode_entry now (cf_bytes f) of
            Some (key, _, expired, _) \<Rightarrow>
              if starts_with key prefix then remove_file n c
              else if \<not> expired then c else fst (clear_dead now n c)
          | None \<Rightarrow> fst (clear_dead now n c)))"

definition delete_prefix_entries :: "nat \<Rightarrow> string \<Rightarrow> file_cache \<Rightarrow> file_cache" where
  "delete_prefix_entries now prefix c = fold (delete_prefix_one now prefix) (fc_files c) c"

section \<open>The trait\<close>

definition file_get_bytes :: "(string \<Rightarrow> string) \<Rightarrow> string \<Rightarrow> (file_cache, string option) cache_call" where
  "file_get_bytes sha key now c = map_prod id Inr (get_entry sha key now c)"

definition file_get :: "(string \<Rightarrow> string) \<Rightarrow> string \<Rightarrow> (file_cache, string option) cache_call" where
  "file_get sha key =
     call_then (file_get_bytes sha key) (\<lambda>v. call_ok (case v of
        None \<Rightarrow> Inr None
      | Some b \<Rightarrow> if is_utf8 b then Inr (Some b) else Inl Serialization))"

definition file_set_bytes :: "(string \<Rightarrow> string) \<Rightarrow> string \<Rightarrow> string \<Rightarrow> nat option \<Rightarrow> (file_cache, unit) cache_call" where
  "file_set_bytes sha key v ttl now c = (set_entry sha key v ttl now c, Inr ())"

definition file_set :: "(string \<Rightarrow> string) \<Rightarrow> string \<Rightarrow> string \<Rightarrow> nat option \<Rightarrow> (file_cache, unit) cache_call" where
  "file_set sha key v ttl = call_then (call_ok (check_text v)) (\<lambda>_. file_set_bytes sha key v ttl)"

text \<open>\<open>set_forever\<close> is inherited from the trait.\<close>

definition file_set_forever :: "(string \<Rightarrow> string) \<Rightarrow> string \<Rightarrow> string \<Rightarrow> (file_cache, unit) cache_call" where
  "file_set_forever sha key v = file_set sha key v None"

definition file_add :: "(string \<Rightarrow> string) \<Rightarrow> string \<Rightarrow> string \<Rightarrow> nat option \<Rightarrow> (file_cache, bool) cache_call" where
  "file_add sha key v ttl = call_then (call_ok (check_text v)) (\<lambda>_ now c. map_prod id Inr (add_entry sha key v ttl now c))"

definition file_touch :: "(string \<Rightarrow> string) \<Rightarrow> string \<Rightarrow> nat option \<Rightarrow> (file_cache, bool) cache_call" where
  "file_touch sha key ttl now c = map_prod id Inr (touch_entry sha key ttl now c)"

definition file_delete :: "(string \<Rightarrow> string) \<Rightarrow> string \<Rightarrow> (file_cache, unit) cache_call" where
  "file_delete sha key now c = (delete_entry sha key c, Inr ())"

definition file_exists :: "(string \<Rightarrow> string) \<Rightarrow> string \<Rightarrow> (file_cache, bool) cache_call" where
  "file_exists sha key = call_then (file_get_bytes sha key) (\<lambda>v. call_ok (Inr (v \<noteq> None)))"

definition file_clear :: "(file_cache, unit) cache_call" where
  "file_clear now c = (clear_entries c, Inr ())"

definition file_delete_prefix :: "string \<Rightarrow> (file_cache, unit) cache_call" where
  "file_delete_prefix prefix now c = (delete_prefix_entries now prefix c, Inr ())"

definition file_api :: "(string \<Rightarrow> string) \<Rightarrow> file_cache cache_api" where
  "file_api sha =
     \<lparr>ca_get = file_get sha, ca_set = file_set sha, ca_delete = file_delete sha, ca_exists = file_exists sha,
      ca_incr = incr_entry sha, ca_add = file_add sha\<rparr>"

end
