(* ===== verification/Expiring_Map.thy ===== *)
theory Expiring_Map
  imports Cache_Contract
begin

text \<open>
  What the trait \<open>Cache\<close> promises a client of one backend, as a map of values with an expiry, and the locale of the backends
  that answer every history of calls as this map does. The in-memory cache without budgets is one of them.
\<close>

section \<open>The specification\<close>

datatype reply = TextReply "string option" | BoolReply bool | IntReply int | UnitReply | ErrReply cache_error

definition map_expiry :: "nat \<Rightarrow> nat option \<Rightarrow> nat option" where
  "map_expiry now ttl = map_option (\<lambda>d. now + d) ttl"

definition text_reply :: "string option \<Rightarrow> reply" where
  "text_reply v = (case v of None \<Rightarrow> TextReply None | Some b \<Rightarrow> if is_utf8 b then TextReply (Some b) else ErrReply Serialization)"

definition text_count :: "string option \<Rightarrow> int" where
  "text_count v = (case v of None \<Rightarrow> 0 | Some b \<Rightarrow> (case (if is_utf8 b then counter_value b else None) of None \<Rightarrow> 0 | Some n \<Rightarrow> n))"

definition map_set :: "string \<Rightarrow> string \<Rightarrow> nat option \<Rightarrow> nat \<Rightarrow> cache_view \<Rightarrow> cache_view \<times> reply" where
  "map_set k v ttl now V =
     (case check_text v of Inl e \<Rightarrow> (V, ErrReply e) | Inr _ \<Rightarrow> (V(k \<mapsto> (v, map_expiry now ttl)), UnitReply))"

fun map_do :: "mem_call \<Rightarrow> nat \<Rightarrow> cache_view \<Rightarrow> cache_view \<times> reply" where
  "map_do (GetCall k) now V = (V, text_reply (live_at now (V k)))"
| "map_do (GetBytesCall k) now V = (V, TextReply (live_at now (V k)))"
| "map_do (SetCall k v ttl) now V = map_set k v ttl now V"
| "map_do (SetBytesCall k v ttl) now V = (V(k \<mapsto> (v, map_expiry now ttl)), UnitReply)"
| "map_do (SetForeverCall k v) now V = map_set k v None now V"
| "map_do (IncrCall k n ttl) now V =
     (case checked_add (text_count (live_at now (V k))) n of
        Inl e \<Rightarrow> (V, ErrReply e)
      | Inr m \<Rightarrow>
          (V(k \<mapsto> (show_int m, if ttl = None \<and> live_at now (V k) \<noteq> None then snd (the (V k)) else map_expiry now ttl)),
           IntReply m))"
| "map_do (AddCall k v ttl) now V =
     (case check_text v of
        Inl e \<Rightarrow> (V, ErrReply e)
      | Inr _ \<Rightarrow> if live_at now (V k) \<noteq> None then (V, BoolReply False) else (V(k \<mapsto> (v, map_expiry now ttl)), BoolReply True))"
| "map_do (TouchCall k ttl) now V =
     (case live_at now (V k) of None \<Rightarrow> (V, BoolReply False) | Some v \<Rightarrow> (V(k \<mapsto> (v, map_expiry now ttl)), BoolReply True))"
| "map_do (DeleteCall k) now V = (V(k := None), UnitReply)"
| "map_do (ExistsCall k) now V = (V, BoolReply (live_at now (V k) \<noteq> None))"
| "map_do ClearCall now V = (\<lambda>_. None, UnitReply)"
| "map_do (DeletePrefixCall p) now V = (\<lambda>k. if starts_with k p then None else V k, UnitReply)"

fun run_calls :: "('call \<Rightarrow> nat \<Rightarrow> 's \<Rightarrow> 's \<times> reply) \<Rightarrow> (nat \<times> 'call) list \<Rightarrow> 's \<Rightarrow> reply list" where
  "run_calls perform [] s = []"
| "run_calls perform ((now, call) # h) s = snd (perform call now s) # run_calls perform h (fst (perform call now s))"

fun call_key :: "mem_call \<Rightarrow> string option" where
  "call_key (GetCall k) = Some k" | "call_key (GetBytesCall k) = Some k" | "call_key (SetCall k v ttl) = Some k"
| "call_key (SetBytesCall k v ttl) = Some k" | "call_key (SetForeverCall k v) = Some k" | "call_key (IncrCall k n ttl) = Some k"
| "call_key (AddCall k v ttl) = Some k" | "call_key (TouchCall k ttl) = Some k" | "call_key (DeleteCall k) = Some k"
| "call_key (ExistsCall k) = Some k" | "call_key _ = None"

fun call_ttl :: "mem_call \<Rightarrow> nat option" where
  "call_ttl (SetCall k v ttl) = ttl" | "call_ttl (SetBytesCall k v ttl) = ttl" | "call_ttl (IncrCall k n ttl) = ttl"
| "call_ttl (AddCall k v ttl) = ttl" | "call_ttl (TouchCall k ttl) = ttl" | "call_ttl _ = None"

fun call_value :: "mem_call \<Rightarrow> string option" where
  "call_value (SetCall k v ttl) = Some v" | "call_value (SetBytesCall k v ttl) = Some v" | "call_value (SetForeverCall k v) = Some v"
| "call_value (AddCall k v ttl) = Some v" | "call_value _ = None"

text \<open>A backend: what it does with a call, which calls it is asked, and how its state stands for a map.\<close>

locale expiring_cache =
  fixes perform :: "mem_call \<Rightarrow> nat \<Rightarrow> 'c \<Rightarrow> 'c \<times> reply"
    and scope :: "nat \<Rightarrow> mem_call \<Rightarrow> bool"
    and stands_for :: "nat \<Rightarrow> 'c \<Rightarrow> cache_view \<Rightarrow> bool"
  assumes step_law: "stands_for now c V \<Longrightarrow> scope now call \<Longrightarrow>
      snd (perform call now c) = snd (map_do call now V) \<and> stands_for now (fst (perform call now c)) (fst (map_do call now V))"
    and time_law: "stands_for now c V \<Longrightarrow> now \<le> later \<Longrightarrow> stands_for later c V"
begin

lemma answers_as_map:
  assumes "stands_for start c V" "sorted (start # map fst h)" "\<forall>(now, call) \<in> set h. scope now call"
  shows "run_calls perform h c = run_calls map_do h V"
  using assms
proof (induction h arbitrary: start c V)
  case (Cons e h)
  obtain now call where e: "e = (now, call)" by fastforce
  have c: "stands_for now c V" using Cons.prems e by (auto intro: time_law)
  have "scope now call" using Cons.prems(3) e by simp
  note step = step_law [OF c this]
  have "run_calls perform h (fst (perform call now c)) = run_calls map_do h (fst (map_do call now V))"
    using Cons.prems e by (intro Cons.IH [OF conjunct2 [OF step]]) auto
  then show ?case using step by (simp add: e)
qed simp

end

section \<open>The in-memory cache\<close>

definition reply_of :: "('a \<Rightarrow> reply) \<Rightarrow> 'c \<times> (cache_error + 'a) \<Rightarrow> 'c \<times> reply" where
  "reply_of f r = (fst r, case snd r of Inl e \<Rightarrow> ErrReply e | Inr x \<Rightarrow> f x)"

fun mem_reply :: "mem_call \<Rightarrow> nat \<Rightarrow> in_memory_cache \<Rightarrow> in_memory_cache \<times> reply" where
  "mem_reply (GetCall k) now c = reply_of TextReply (mem_get k now c)"
| "mem_reply (GetBytesCall k) now c = reply_of TextReply (mem_get_bytes k now c)"
| "mem_reply (SetCall k v ttl) now c = reply_of (\<lambda>_. UnitReply) (mem_set k v ttl now c)"
| "mem_reply (SetBytesCall k v ttl) now c = reply_of (\<lambda>_. UnitReply) (mem_set_bytes k v ttl now c)"
| "mem_reply (SetForeverCall k v) now c = reply_of (\<lambda>_. UnitReply) (mem_set_forever k v now c)"
| "mem_reply (IncrCall k n ttl) now c = reply_of IntReply (mem_incr k n ttl now c)"
| "mem_reply (AddCall k v ttl) now c = reply_of BoolReply (mem_add k v ttl now c)"
| "mem_reply (TouchCall k ttl) now c = reply_of BoolReply (mem_touch k ttl now c)"
| "mem_reply (DeleteCall k) now c = reply_of (\<lambda>_. UnitReply) (mem_delete k now c)"
| "mem_reply (ExistsCall k) now c = reply_of BoolReply (mem_exists k now c)"
| "mem_reply ClearCall now c = reply_of (\<lambda>_. UnitReply) (mem_clear now c)"
| "mem_reply (DeletePrefixCall p) now c = reply_of (\<lambda>_. UnitReply) (mem_delete_prefix p now c)"

text \<open>The clock of the in-memory cache counts microseconds; a history in milliseconds is scaled to it.\<close>

fun in_micros :: "mem_call \<Rightarrow> mem_call" where
  "in_micros (SetCall k v ttl) = SetCall k v (map_option ((*) 1000) ttl)"
| "in_micros (SetBytesCall k v ttl) = SetBytesCall k v (map_option ((*) 1000) ttl)"
| "in_micros (IncrCall k n ttl) = IncrCall k n (map_option ((*) 1000) ttl)"
| "in_micros (AddCall k v ttl) = AddCall k v (map_option ((*) 1000) ttl)"
| "in_micros (TouchCall k ttl) = TouchCall k (map_option ((*) 1000) ttl)"
| "in_micros call = call"

definition mem_millis :: "mem_call \<Rightarrow> nat \<Rightarrow> in_memory_cache \<Rightarrow> in_memory_cache \<times> reply" where
  "mem_millis call now c = mem_reply (in_micros call) (1000 * now) c"

definition micros :: "cache_view \<Rightarrow> cache_view" where
  "micros V k = map_option (map_prod id (map_option ((*) 1000))) (V k)"

definition mem_scope :: "nat \<Rightarrow> mem_call \<Rightarrow> bool" where
  "mem_scope now call \<longleftrightarrow>
     (case call_ttl call of None \<Rightarrow> True | Some d \<Rightarrow> 1000 * d \<le> far_future) \<and>
     (case call_value call of None \<Rightarrow> True | Some v \<Rightarrow> is_utf8 v)"

definition mem_stands :: "nat \<Rightarrow> in_memory_cache \<Rightarrow> cache_view \<Rightarrow> bool" where
  "mem_stands now c V \<longleftrightarrow>
     unbounded c \<and> cache_ok c \<and> ic_default_ttl c = None \<and> mem_entry c = micros V"

lemma micros_live: "live_at (1000 * now) (micros V k) = live_at now (V k)"
  by (simp add: micros_def live_at_def split: option.split)

lemma micros_put: "micros (V(k \<mapsto> (v, d))) = (micros V)(k \<mapsto> (v, map_option ((*) 1000) d))"
  by (auto simp: micros_def fun_eq_iff)

lemma micros_del: "micros (V(k := None)) = (micros V)(k := None)"
  by (auto simp: micros_def fun_eq_iff)

lemma resolve_millis:
  "ic_default_ttl c = None \<Longrightarrow> (case ttl of None \<Rightarrow> True | Some d \<Rightarrow> 1000 * d \<le> far_future) \<Longrightarrow>
   resolve_ttl c (map_option ((*) 1000) ttl) (1000 * now) = map_option ((*) 1000) (map_expiry now ttl)"
  by (cases ttl) (simp_all add: resolve_ttl_def map_expiry_def algebra_simps min_def)

lemma touch_unbounded:
  assumes u: "unbounded c" and e: "live_entry c now k = Some e"
  shows "snd (mem_touch k ttl now c) = Inr True \<and> unbounded (fst (mem_touch k ttl now c)) \<and>
    mem_entry (fst (mem_touch k ttl now c)) = (mem_entry c)(k \<mapsto> (ce_value e, resolve_ttl c ttl now))"
proof -
  have u': "unbounded (c\<lparr>ic_tick := t\<rparr>)" for t using u by (simp add: unbounded_def)
  have "list_all (\<lambda>(k, e). is_utf8 (ce_value e)) (st_map (store_take k (ic_store c)))"
    using u by (auto simp: unbounded_def list_all_iff store_take_map without_key_def)
  then have "list_all (\<lambda>(k, e). is_utf8 (ce_value e)) (st_map (store_put k f (store_take k (ic_store c))))" if "ce_value f = ce_value e" for f
    using live_entry_utf8 [OF u e] that by (intro store_put_utf8) simp_all
  then show ?thesis using u
    by (auto simp: mem_touch_def e Let_def unbounded_evict [OF u] unbounded_evict [OF u'] mem_entry_def map_of_put map_of_take fun_eq_iff)
      (simp add: unbounded_def)
qed

lemma mem_default_ttl: "ic_default_ttl (fst (mem_reply call now c)) = ic_default_ttl c"
  by (cases call; simp add: reply_of_def mem_get_def call_then_def mem_get_bytes_def call_ok_def mem_set_def mem_set_bytes_def
      mem_set_forever_def cache_insert_def put_entry_def mem_incr_def mem_add_def mem_touch_def mem_delete_def mem_exists_def
      mem_clear_def mem_delete_prefix_def bump_def Let_def split: option.split sum.split)

lemma mem_reply_do: "fst (mem_reply call now c) = mem_do call now c"
  by (cases call) (simp_all add: reply_of_def)

lemma mem_incr_answers:
  assumes s: "mem_stands now c V" and ttl: "case t of None \<Rightarrow> True | Some d \<Rightarrow> 1000 * d \<le> far_future"
  shows "snd (mem_millis (IncrCall k n t) now c) = snd (map_do (IncrCall k n t) now V) \<and> unbounded (fst (mem_millis (IncrCall k n t) now c)) \<and>
    mem_entry (fst (mem_millis (IncrCall k n t) now c)) = micros (fst (map_do (IncrCall k n t) now V))"
proof -
  have u: "unbounded c" and V: "mem_entry c = micros V" and default: "ic_default_ttl c = None"
    using s by (simp_all add: mem_stands_def)
  let ?e = "live_entry c (1000 * now) k"
  have live: "map_option ce_value ?e = live_at now (V k)" using live_entry_view [of "1000 * now" c k] by (simp add: V micros_live)
  then have cur: "(case ?e of None \<Rightarrow> 0 | Some e \<Rightarrow>
      (case (if is_utf8 (ce_value e) then counter_value (ce_value e) else None) of None \<Rightarrow> 0 | Some n \<Rightarrow> n)) = text_count (live_at now (V k))"
    by (auto simp: text_count_def split: option.splits)
  have "ce_expires_at e = map_option ((*) 1000) (snd (the (V k)))" if "?e = Some e" for e
    using that fun_cong [OF V, of k] by (cases "V k") (auto simp: live_entry_def mem_entry_def micros_def split: option.splits if_splits)
  then have kept: "(case ?e of Some e \<Rightarrow> if map_option ((*) 1000) t = None then ce_expires_at e else resolve_ttl c (map_option ((*) 1000) t) (1000 * now)
        | None \<Rightarrow> resolve_ttl c (map_option ((*) 1000) t) (1000 * now)) =
      map_option ((*) 1000) (if t = None \<and> live_at now (V k) \<noteq> None then snd (the (V k)) else map_expiry now t)"
    using resolve_millis [OF default ttl, of now] live by (auto split: option.splits)
  have tick: "unbounded (c\<lparr>ic_tick := i\<rparr>)" "mem_entry (c\<lparr>ic_tick := i\<rparr>) = mem_entry c" for i
    using u by (simp_all add: unbounded_def mem_entry_def fun_eq_iff)
  show ?thesis
    using put_entry_unbounded [OF u is_utf8_show_int]
    by (simp add: mem_millis_def reply_of_def mem_incr_def cur kept tick V micros_put Let_def split: sum.split)
qed

lemma mem_answers:
  assumes s: "mem_stands now c V" and scope: "mem_scope now call"
  shows "snd (mem_millis call now c) = snd (map_do call now V) \<and> unbounded (fst (mem_millis call now c)) \<and>
    mem_entry (fst (mem_millis call now c)) = micros (fst (map_do call now V))"
proof -
  have u: "unbounded c" and V: "mem_entry c = micros V" and ttl: "ic_default_ttl c = None" and ok: "cache_ok c"
    using s by (simp_all add: mem_stands_def)
  have live: "live_at now (V k) = map_option ce_value (live_entry c (1000 * now) k)" for k
    using live_entry_view [of "1000 * now" c k] by (simp add: V micros_live)
  note put = put_entry_unbounded [OF u]
  note ops = reply_of_def call_then_def call_ok_def mem_millis_def V
  show ?thesis
  proof (cases call)
    case (GetCall k)
    then show ?thesis using u bump_unbounded [OF u, of k] live [of k]
      by (auto simp: ops mem_get_def mem_get_bytes_def text_reply_def split: option.splits)
  next
    case (GetBytesCall k)
    then show ?thesis using u bump_unbounded [OF u, of k] live [of k]
      by (auto simp: ops mem_get_bytes_def split: option.splits)
  next
    case (SetCall k v t)
    then show ?thesis using u put [of v] resolve_millis [OF ttl, of t now] scope
      by (auto simp: ops mem_set_def mem_set_bytes_def cache_insert_def map_set_def mem_scope_def micros_put check_text_def)
  next
    case (SetBytesCall k v t)
    then show ?thesis using u put [of v] resolve_millis [OF ttl, of t now] scope
      by (auto simp: ops mem_set_bytes_def cache_insert_def mem_scope_def micros_put)
  next
    case (SetForeverCall k v)
    then show ?thesis using u put [of v] scope
      by (auto simp: ops mem_scope_def mem_set_forever_def cache_insert_def map_set_def micros_put map_expiry_def check_text_def)
  next
    case (IncrCall k n t)
    then show ?thesis using mem_incr_answers [OF s, of t k n] scope by (simp add: mem_scope_def)
  next
    case (AddCall k v t)
    then show ?thesis using u put [of v] resolve_millis [OF ttl, of t now] scope live [of k]
      by (auto simp: ops mem_add_def mem_scope_def micros_put check_text_def split: option.splits)
  next
    case (TouchCall k t)
    then show ?thesis
      using u touch_unbounded [OF u, of "1000 * now" k _ "map_option ((*) 1000) t"] resolve_millis [OF ttl, of t now] scope live [of k]
      by (cases "live_entry c (1000 * now) k") (auto simp: ops mem_scope_def micros_put mem_touch_def split: option.splits)
  next
    case (DeleteCall k)
    have "list_all (\<lambda>(k, e). is_utf8 (ce_value e)) (st_map (store_take k (ic_store c)))"
      using u by (auto simp: unbounded_def list_all_iff store_take_map without_key_def)
    moreover have "mem_entry (fst (mem_delete k t c)) = (mem_entry c)(k := None)" for t
      by (auto simp: mem_delete_def mem_entry_def map_of_take fun_eq_iff)
    ultimately show ?thesis using DeleteCall u by (simp add: ops mem_delete_def micros_del unbounded_def)
  next
    case (ExistsCall k)
    then show ?thesis using u live [of k] by (auto simp: ops mem_exists_def split: option.splits)
  next
    case ClearCall
    then show ?thesis using u
      by (simp add: ops mem_clear_def unbounded_def empty_store_def mem_entry_def micros_def fun_eq_iff)
  next
    case (DeletePrefixCall p)
    have "list_all (\<lambda>(k, e). is_utf8 (ce_value e)) (st_map (store_retain keep (ic_store c)))" for keep
      using u by (auto simp: unbounded_def list_all_iff store_retain_def Let_def)
    moreover have "mem_entry (fst (mem_delete_prefix p t c)) k = (if starts_with k p then None else mem_entry c k)" for t k
      using ok by (simp add: mem_delete_prefix_def mem_entry_def map_of_retain cache_ok_def store_ok_def split: option.split)
    ultimately show ?thesis using DeletePrefixCall u
      by (simp add: ops mem_delete_prefix_def unbounded_def fun_eq_iff) (simp add: micros_def)
  qed
qed

interpretation mem_map: expiring_cache mem_millis mem_scope mem_stands
proof
  fix now c V call
  assume s: "mem_stands now c V" and "mem_scope now call"
  then have "cache_ok (fst (mem_millis call now c))" "ic_default_ttl (fst (mem_millis call now c)) = None"
    by (simp_all add: mem_millis_def mem_reply_do mem_stands_def do_cache_ok) (simp add: mem_reply_do [symmetric] mem_default_ttl)
  then show "snd (mem_millis call now c) = snd (map_do call now V) \<and> mem_stands now (fst (mem_millis call now c)) (fst (map_do call now V))"
    using mem_answers [OF s \<open>mem_scope now call\<close>] by (simp add: mem_stands_def)
qed (simp add: mem_stands_def)

end
