(* ===== verification/File_Cache_Correct.thy ===== *)
theory File_Cache_Correct
  imports File_Cache Expiring_Map
begin

text \<open>
  The file cache answers as a map with expiries while its caps are lifted, whatever its sweeps remove, and a purge leaves a
  directory that fits its caps. Keys are text shorter than 4 GiB, and no two of them have the same SHA-256.
\<close>

section \<open>The format read back\<close>

lemma length_be_bytes [simp]: "length (be_bytes n v) = n"
  by (induction n) simp_all

lemma be_value_bytes: "foldl (\<lambda>v b. v * 256 + of_char b) a (be_bytes n v) = a * 256 ^ n + v mod 256 ^ n"
proof (induction n arbitrary: a)
  case (Suc n)
  have "v mod 256 ^ Suc n = 256 ^ n * (v div 256 ^ n mod 256) + v mod 256 ^ n"
    using mod_mult2_eq [of v "256 ^ n" 256] by (simp add: mult.commute)
  then show ?case unfolding be_bytes.simps foldl_Cons Suc.IH by (simp add: of_char_of distrib_right)
qed simp

lemma be_value_be_bytes: "v < 256 ^ n \<Longrightarrow> be_value (be_bytes n v) = v"
  by (simp add: be_value_def be_value_bytes)

lemma i64_bytes_roundtrip:
  assumes "i64_range n"
  shows "i64_from_be_bytes (i64_to_be_bytes n) = n"
proof -
  have lt: "nat (n mod 2 ^ 64) < 256 ^ 8" by (simp add: nat_less_iff)
  have "int (be_value (i64_to_be_bytes n)) = n mod 2 ^ 64"
    unfolding i64_to_be_bytes_def be_value_be_bytes [OF lt] by simp
  moreover have "n mod 2 ^ 64 = (if n < 0 then n + 2 ^ 64 else n)"
  proof (cases "n < 0")
    case True
    then have "(n + 2 ^ 64) mod 2 ^ 64 = n + 2 ^ 64" using assms by (intro mod_pos_pos_trivial) (simp_all add: i64_range_def)
    then show ?thesis using True by simp
  qed (use assms in \<open>simp add: i64_range_def\<close>)
  ultimately show ?thesis using assms by (simp add: i64_from_be_bytes_def i64_range_def Let_def)
qed

definition file_key :: "string \<Rightarrow> bool" where
  "file_key key \<longleftrightarrow> is_utf8 key \<and> length key < 2 ^ 32"

lemma length_i64_bytes [simp]: "length (i64_to_be_bytes n) = 8"
  by (simp add: i64_to_be_bytes_def)

lemma decode_encode_at:
  assumes "file_key key" "i64_range at"
  shows "decode_entry now (encode_at key v at) = Some (key, v, at \<noteq> 0 \<and> now_unix_millis now > at, at)"
proof -
  have "be_value (be_bytes 4 (length key)) = length key" using assms(1) by (intro be_value_be_bytes) (simp add: file_key_def)
  then show ?thesis using assms i64_bytes_roundtrip [OF assms(2)]
    by (simp add: decode_entry_def encode_at_def file_magic_def strip_prefix_def starts_with_def file_key_def Let_def)
qed

lemma header_encode_at:
  assumes "i64_range at"
  shows "header_dead now (encode_at key v at) \<longleftrightarrow> at \<noteq> 0 \<and> now_unix_millis now > at"
  using i64_bytes_roundtrip [OF assms] by (simp add: header_dead_def encode_at_def file_magic_def Let_def)

section \<open>File names\<close>

lemma hex_digit_inj: "a < 16 \<Longrightarrow> b < 16 \<Longrightarrow> hex_digit a = hex_digit b \<longleftrightarrow> a = b"
  by (auto simp: hex_digit_def of_char_of dest!: arg_cong [of _ _ "of_char :: char \<Rightarrow> nat"] split: if_splits)

lemma hex_byte_inj: "hex_byte a = hex_byte b \<longleftrightarrow> a = b"
proof
  assume "hex_byte a = hex_byte b"
  moreover have "of_char a < (256 :: nat)" "of_char b < (256 :: nat)" by simp_all
  ultimately have "of_char a div 16 = (of_char b div 16 :: nat)" "of_char a mod 16 = (of_char b mod 16 :: nat)"
    by (simp_all add: hex_byte_def hex_digit_inj)
  then have "(of_char a :: nat) = of_char b" by (metis div_mult_mod_eq)
  then show "a = b" by simp
qed simp

lemma concat_hex_inj: "concat (map hex_byte xs) = concat (map hex_byte ys) \<Longrightarrow> xs = ys"
proof (induction xs arbitrary: ys)
  case Nil
  then show ?case by (cases ys) (simp_all add: hex_byte_def)
next
  case (Cons x xs)
  then show ?case using hex_byte_inj [of x] by (cases ys) (auto simp: hex_byte_def)
qed

text \<open>What is relied on of SHA-256: digests of 32 bytes, different for the keys in use.\<close>

definition digest_ok :: "(string \<Rightarrow> string) \<Rightarrow> string set \<Rightarrow> bool" where
  "digest_ok sha K \<longleftrightarrow> inj_on sha K \<and> (\<forall>k \<in> K. length (sha k) = 32) \<and> (\<forall>k \<in> K. file_key k)"

lemma key_path_inj: "digest_ok sha K \<Longrightarrow> k \<in> K \<Longrightarrow> k' \<in> K \<Longrightarrow> key_path sha k = key_path sha k' \<longleftrightarrow> k = k'"
  using concat_hex_inj by (auto simp: key_path_def digest_ok_def inj_on_def)

lemma key_path_extension:
  assumes "digest_ok sha K" "k \<in> K"
  shows "cache_extension (key_path sha k)"
proof -
  have "sha k \<noteq> []" using assms by (auto simp: digest_ok_def)
  then show ?thesis by (cases "sha k") (simp_all add: cache_extension_def key_path_def ends_with_def hex_byte_def)
qed

section \<open>What a directory stands for\<close>

definition file_time :: "int \<Rightarrow> nat option" where
  "file_time at = (if at = 0 then None else Some (nat at))"

definition stored :: "(string \<Rightarrow> string) \<Rightarrow> file_cache \<Rightarrow> cache_view" where
  "stored sha c k =
     (case map_of (fc_files c) (key_path sha k) of
        None \<Rightarrow> None
      | Some f \<Rightarrow> map_option (\<lambda>(key, v, expired, at). (v, file_time at)) (decode_entry 0 (cf_bytes f)))"

definition files_ok :: "(string \<Rightarrow> string) \<Rightarrow> string set \<Rightarrow> file_cache \<Rightarrow> bool" where
  "files_ok sha K c \<longleftrightarrow> distinct (map fst (fc_files c)) \<and>
     (\<forall>(n, f) \<in> set (fc_files c). \<exists>k \<in> K. \<exists>v at. n = key_path sha k \<and> cf_bytes f = encode_at k v at \<and> 0 \<le> at \<and> at < 2 ^ 63)"

lemma file_time_live: "0 \<le> at \<Longrightarrow> live_at now (Some (v, file_time at)) = (if at \<noteq> 0 \<and> int now > at then None else Some v)"
  by (auto simp: file_time_def)

lemma stored_file:
  assumes "digest_ok sha K" "files_ok sha K c" "k \<in> K" "map_of (fc_files c) (key_path sha k) = Some f"
  obtains v at where "cf_bytes f = encode_at k v at" "0 \<le> at" "at < 2 ^ 63" "stored sha c k = Some (v, file_time at)"
proof -
  from map_of_SomeD [OF assms(4)] obtain k' v at where f: "k' \<in> K" "key_path sha k = key_path sha k'" "cf_bytes f = encode_at k' v at" "0 \<le> at" "at < 2 ^ 63"
    using assms(2) unfolding files_ok_def by blast
  then have "k' = k" using key_path_inj [OF assms(1)] assms(3) by simp
  moreover have "file_key k" "i64_range at" using assms(1,3) f(4,5) by (simp_all add: digest_ok_def i64_range_def)
  ultimately have "stored sha c k = Some (v, file_time at)"
    using assms(4) f(3) decode_encode_at [of k at 0 v] by (simp add: stored_def)
  then show thesis using that f \<open>k' = k\<close> by blast
qed

lemma read_entry_stored:
  assumes "digest_ok sha K" "files_ok sha K c" "k \<in> K" "int now < 2 ^ 63"
  shows "read_entry now (key_path sha k) c =
    (case stored sha c k of
       None \<Rightarrow> MissingFile
     | Some (v, d) \<Rightarrow> if live_at now (Some (v, d)) = None then DeadFile else LiveFile v (case d of None \<Rightarrow> 0 | Some t \<Rightarrow> int t))"
proof (cases "map_of (fc_files c) (key_path sha k)")
  case None
  then show ?thesis by (simp add: read_entry_def stored_def)
next
  case (Some f)
  obtain v at where f: "cf_bytes f = encode_at k v at" "0 \<le> at" "at < 2 ^ 63" "stored sha c k = Some (v, file_time at)"
    by (rule stored_file [OF assms(1-3) Some])
  have "now_unix_millis now = int now" "file_key k" using assms by (auto simp: now_unix_millis_def i64_range_def digest_ok_def)
  then have "decode_entry now (cf_bytes f) = Some (k, v, at \<noteq> 0 \<and> int now > at, at)"
    using f decode_encode_at [of k at now v] by (simp add: i64_range_def)
  then show ?thesis using Some f by (auto simp: read_entry_def entry_of_def file_time_def split: bool.split)
qed

lemma map_of_other_names: "map_of (filter (\<lambda>(n, _). n \<noteq> path) files) n = (if n = path then None else map_of files n)"
  by (induction files) auto

lemma write_file_ok:
  fixes now :: nat and v :: string
  assumes "digest_ok sha K" "files_ok sha K c" "k \<in> K" "0 \<le> at" "at < 2 ^ 63"
  defines "c' \<equiv> write_file (key_path sha k) (encode_at k v at) now c"
  shows "files_ok sha K c'" and "k' \<in> K \<Longrightarrow> stored sha c' k' = (if k' = k then Some (v, file_time at) else stored sha c k')"
proof -
  have "file_key k" "i64_range at" using assms(1,3-5) by (simp_all add: digest_ok_def i64_range_def)
  note decode = decode_encode_at [OF this, of 0 v]
  show "files_ok sha K c'" using assms(2-5) unfolding files_ok_def c'_def
    by (auto simp: write_file_def distinct_map_filter)
  show "k' \<in> K \<Longrightarrow> stored sha c' k' = (if k' = k then Some (v, file_time at) else stored sha c k')"
    using key_path_inj [OF assms(1), of k' k] assms(3) decode
    by (auto simp: c'_def write_file_def stored_def map_of_other_names map_add_def split: option.split)
qed

lemma remove_file_ok:
  assumes "digest_ok sha K" "files_ok sha K c" "k \<in> K"
  shows "files_ok sha K (remove_file (key_path sha k) c)"
    and "k' \<in> K \<Longrightarrow> stored sha (remove_file (key_path sha k) c) k' = (if k' = k then None else stored sha c k')"
proof -
  show "files_ok sha K (remove_file (key_path sha k) c)"
    using assms(2) unfolding files_ok_def by (auto simp: remove_file_def distinct_map_filter)
  show "k' \<in> K \<Longrightarrow> stored sha (remove_file (key_path sha k) c) k' = (if k' = k then None else stored sha c k')"
    using key_path_inj [OF assms(1), of k' k] assms(3) by (auto simp: remove_file_def stored_def map_of_other_names)
qed

section \<open>Entries that fade\<close>

text \<open>An expired entry may be gone already.\<close>

definition fades :: "nat \<Rightarrow> string set \<Rightarrow> cache_view \<Rightarrow> cache_view \<Rightarrow> bool" where
  "fades now K W V \<longleftrightarrow> (\<forall>k \<in> K. W k = V k \<or> W k = None \<and> live_at now (V k) = None)"

lemma fades_refl [simp]: "fades now K V V"
  by (simp add: fades_def)

lemma fades_trans: "fades now K U W \<Longrightarrow> fades now K W V \<Longrightarrow> fades now K U V"
  unfolding fades_def by (metis live_at_simps(1))

lemma fades_later: "fades now K W V \<Longrightarrow> now \<le> later \<Longrightarrow> fades later K W V"
  unfolding fades_def by (fastforce simp: live_at_def split: option.splits if_splits)

lemma fades_live: "fades now K W V \<Longrightarrow> k \<in> K \<Longrightarrow> live_at now (W k) = live_at now (V k)"
  unfolding fades_def by (metis live_at_simps(1))

lemma fades_update:
  assumes "fades now K W V" "\<And>k'. k' \<in> K \<Longrightarrow> W' k' = (if k' = k then e else W k')"
  shows "fades now K W' (V(k := e))"
  using assms by (auto simp: fades_def)

text \<open>Clearing a dead entry, and a sweep whose caps are lifted.\<close>

lemma clear_dead_ok:
  assumes "digest_ok sha K" "files_ok sha K c" "k \<in> K" "int now < 2 ^ 63"
  shows "files_ok sha K (fst (clear_dead now (key_path sha k) c))"
    and "fades now K (stored sha (fst (clear_dead now (key_path sha k) c))) (stored sha c)"
    and "snd (clear_dead now (key_path sha k) c) = live_at now (stored sha c k)"
    and "fc_limits (fst (clear_dead now (key_path sha k) c)) = fc_limits c"
  using read_entry_stored [OF assms] remove_file_ok [OF assms(1-3)] assms(2)
  by (auto simp: clear_dead_def fades_def remove_file_def [of _ c] split: option.splits if_splits)

definition lifted :: "file_cache \<Rightarrow> bool" where
  "lifted c \<longleftrightarrow> fl_entries (fc_limits c) = 0 \<and> fl_bytes (fc_limits c) = 0"

lemma sweep_fades:
  assumes K: "digest_ok sha K" and now: "int now < 2 ^ 63" and c: "files_ok sha K c" "lifted c"
  shows "files_ok sha K (fst (sweep_dir now stripe c)) \<and> lifted (fst (sweep_dir now stripe c)) \<and>
    fades now K (stored sha (fst (sweep_dir now stripe c))) (stored sha c)"
proof -
  have clear: "files_ok sha K d' \<and> lifted d' \<and> fades now K (stored sha d') (stored sha d)"
    if "d' = fold (\<lambda>(n, _) d. fst (clear_dead now n d)) nfs d" "set nfs \<subseteq> set (fc_files c)" "files_ok sha K d" "lifted d" for nfs d d'
    using that
  proof (induction nfs arbitrary: d)
    case (Cons nf nfs)
    obtain n f where nf: "nf = (n, f)" by fastforce
    then obtain k where k: "k \<in> K" "n = key_path sha k" using c(1) Cons.prems(2) by (auto simp: files_ok_def)
    let ?d = "fst (clear_dead now n d)"
    note one = clear_dead_ok [OF K Cons.prems(3) k(1) now, folded k(2)]
    have "files_ok sha K d' \<and> lifted d' \<and> fades now K (stored sha d') (stored sha ?d)"
      using Cons.prems one by (intro Cons.IH) (simp_all add: nf lifted_def)
    then show ?case using one(2) fades_trans by blast
  qed simp
  have "file_fits (fc_limits d) parts x y" if "lifted d" for d parts x y
    using that by (simp add: file_fits_def lifted_def)
  then have "evict_oldest live parts d = (d, 0)" if "lifted d" for live parts d
    using that by (simp add: evict_oldest_def Let_def)
  then show ?thesis using clear [OF refl _ c] by (auto simp: sweep_dir_def Let_def split: prod.split)
qed

lemma after_write_fades:
  assumes "digest_ok sha K" "int now < 2 ^ 63" "files_ok sha K c" "lifted c"
  shows "files_ok sha K (after_write now c) \<and> lifted (after_write now c) \<and> fades now K (stored sha (after_write now c)) (stored sha c)"
proof -
  have same: "files_ok sha K (c\<lparr>fc_writes := n\<rparr>)" "lifted (c\<lparr>fc_writes := n\<rparr>)" "stored sha (c\<lparr>fc_writes := n\<rparr>) = stored sha c" for n
    using assms(3,4) by (simp_all add: files_ok_def lifted_def stored_def fun_eq_iff)
  show ?thesis using sweep_fades [OF assms(1,2) same(1,2)] same by (simp add: after_write_def Let_def)
qed

section \<open>Deleting by prefix\<close>

definition cut_files :: "nat \<Rightarrow> (string \<Rightarrow> string) \<Rightarrow> string set \<Rightarrow> string \<Rightarrow> string set \<Rightarrow> file_cache \<Rightarrow> file_cache \<Rightarrow> bool" where
  "cut_files now sha K p names d' d \<longleftrightarrow> files_ok sha K d' \<and> lifted d' \<and>
     (\<forall>k \<in> K. if starts_with k p
       then stored sha d' k = None \<or> stored sha d' k = stored sha d k \<and> key_path sha k \<notin> names
       else stored sha d' k = stored sha d k \<or> stored sha d' k = None \<and> live_at now (stored sha d k) = None)"

lemma cut_one:
  assumes K: "digest_ok sha K" "k \<in> K" and now: "int now < 2 ^ 63" and d: "files_ok sha K d" "lifted d"
    and f: "cf_bytes f = encode_at k v at" "0 \<le> at" "at < 2 ^ 63"
  shows "cut_files now sha K p {key_path sha k} (delete_prefix_one now p (key_path sha k, f) d) d"
proof -
  have "file_key k" using K by (simp add: digest_ok_def)
  then have "decode_entry now (cf_bytes f) = Some (k, v, at \<noteq> 0 \<and> now_unix_millis now > at, at)"
    using f decode_encode_at [of k at now v] by (simp add: i64_range_def)
  then have "delete_prefix_one now p (key_path sha k, f) d =
      (if starts_with k p then remove_file (key_path sha k) d
       else if at = 0 \<or> now_unix_millis now \<le> at then d else fst (clear_dead now (key_path sha k) d))"
    using key_path_extension [OF K] by (auto simp: delete_prefix_one_def)
  moreover have "key_path sha k' \<notin> {key_path sha k}" if "k' \<in> K" "k' \<noteq> k" for k' using that key_path_inj [OF K(1), of k' k] K(2) by simp
  moreover have "lifted (remove_file (key_path sha k) d)" "lifted (fst (clear_dead now (key_path sha k) d))"
    using d clear_dead_ok(4) [OF K(1) d(1) K(2) now] by (simp_all add: lifted_def remove_file_def)
  ultimately show ?thesis
    using d remove_file_ok [OF K(1) d(1) K(2)] clear_dead_ok(1,2) [OF K(1) d(1) K(2) now]
    unfolding cut_files_def fades_def by (smt (verit) live_at_simps(1))
qed

lemma cut_trans:
  "cut_files now sha K p N d'' d' \<Longrightarrow> cut_files now sha K p M d' d \<Longrightarrow> cut_files now sha K p (M \<union> N) d'' d"
  unfolding cut_files_def by (smt (verit) UnE live_at_simps(1))

lemma cut_fold:
  assumes K: "digest_ok sha K" and now: "int now < 2 ^ 63" and c: "files_ok sha K c"
  shows "set nfs \<subseteq> set (fc_files c) \<Longrightarrow> files_ok sha K d \<Longrightarrow> lifted d \<Longrightarrow>
    cut_files now sha K p (fst ` set nfs) (fold (delete_prefix_one now p) nfs d) d"
proof (induction nfs arbitrary: d)
  case (Cons nf nfs)
  obtain n f where nf: "nf = (n, f)" by fastforce
  then obtain k v at where k: "k \<in> K" "n = key_path sha k" "cf_bytes f = encode_at k v at" "0 \<le> at" "at < 2 ^ 63"
    using c Cons.prems(1) by (auto simp: files_ok_def)
  let ?d = "delete_prefix_one now p nf d"
  have one: "cut_files now sha K p {n} ?d d" unfolding nf k(2) by (rule cut_one [OF K k(1) now Cons.prems(2,3) k(3-5)])
  then have "cut_files now sha K p (fst ` set nfs) (fold (delete_prefix_one now p) nfs ?d) ?d"
    using Cons.prems(1) by (intro Cons.IH) (simp_all add: cut_files_def)
  from cut_trans [OF this one] show ?case by (simp add: nf)
qed (simp add: cut_files_def)

lemma delete_prefix_fades:
  assumes "digest_ok sha K" "int now < 2 ^ 63" "files_ok sha K c" "lifted c" "fades now K (stored sha c) V"
  shows "files_ok sha K (delete_prefix_entries now p c) \<and> lifted (delete_prefix_entries now p c) \<and>
    fades now K (stored sha (delete_prefix_entries now p c)) (\<lambda>k. if starts_with k p then None else V k)"
proof -
  have cut: "cut_files now sha K p (fst ` set (fc_files c)) (delete_prefix_entries now p c) c"
    unfolding delete_prefix_entries_def by (rule cut_fold [OF assms(1-3) subset_refl assms(3,4)])
  have "stored sha c k = None" if "key_path sha k \<notin> fst ` set (fc_files c)" for k
    using that by (simp add: stored_def map_of_eq_None_iff [symmetric])
  then show ?thesis using cut assms(5) unfolding cut_files_def fades_def by (smt (verit) live_at_simps(1))
qed

section \<open>The file cache stands for a map\<close>

fun file_reply :: "(string \<Rightarrow> string) \<Rightarrow> mem_call \<Rightarrow> nat \<Rightarrow> file_cache \<Rightarrow> file_cache \<times> reply" where
  "file_reply sha (GetCall k) now c = reply_of TextReply (file_get sha k now c)"
| "file_reply sha (GetBytesCall k) now c = reply_of TextReply (file_get_bytes sha k now c)"
| "file_reply sha (SetCall k v ttl) now c = reply_of (\<lambda>_. UnitReply) (file_set sha k v ttl now c)"
| "file_reply sha (SetBytesCall k v ttl) now c = reply_of (\<lambda>_. UnitReply) (file_set_bytes sha k v ttl now c)"
| "file_reply sha (SetForeverCall k v) now c = reply_of (\<lambda>_. UnitReply) (file_set_forever sha k v now c)"
| "file_reply sha (IncrCall k n ttl) now c = reply_of IntReply (incr_entry sha k n ttl now c)"
| "file_reply sha (AddCall k v ttl) now c = reply_of BoolReply (file_add sha k v ttl now c)"
| "file_reply sha (TouchCall k ttl) now c = reply_of BoolReply (file_touch sha k ttl now c)"
| "file_reply sha (DeleteCall k) now c = reply_of (\<lambda>_. UnitReply) (file_delete sha k now c)"
| "file_reply sha (ExistsCall k) now c = reply_of BoolReply (file_exists sha k now c)"
| "file_reply sha ClearCall now c = reply_of (\<lambda>_. UnitReply) (file_clear now c)"
| "file_reply sha (DeletePrefixCall p) now c = reply_of (\<lambda>_. UnitReply) (file_delete_prefix p now c)"

definition file_scope :: "string set \<Rightarrow> nat \<Rightarrow> mem_call \<Rightarrow> bool" where
  "file_scope K now call \<longleftrightarrow> 0 < now \<and> int now < 2 ^ 63 \<and> (case call_key call of None \<Rightarrow> True | Some k \<Rightarrow> k \<in> K) \<and>
     (case call_ttl call of None \<Rightarrow> True | Some d \<Rightarrow> int now + int d < 2 ^ 63)"

definition file_stands :: "(string \<Rightarrow> string) \<Rightarrow> string set \<Rightarrow> nat \<Rightarrow> file_cache \<Rightarrow> cache_view \<Rightarrow> bool" where
  "file_stands sha K now c V \<longleftrightarrow> digest_ok sha K \<and> files_ok sha K c \<and> lifted c \<and> fades now K (stored sha c) V"

lemma file_time_expiry:
  assumes "0 < now" "int now < 2 ^ 63" "case ttl of None \<Rightarrow> True | Some d \<Rightarrow> int now + int d < 2 ^ 63"
  shows "file_time (expires_at_of now ttl) = map_expiry now ttl" "0 \<le> expires_at_of now ttl" "expires_at_of now ttl < 2 ^ 63"
  using assms by (auto simp: expires_at_of_def now_unix_millis_def i64_range_def file_time_def map_expiry_def nat_add_distrib split: option.splits)

lemma file_put_stands:
  assumes "file_stands sha K now c V" "k \<in> K" "0 \<le> at" "at < 2 ^ 63" "d = file_time at"
  shows "file_stands sha K now (write_file (key_path sha k) (encode_at k v at) now c) (V(k \<mapsto> (v, d)))"
proof -
  have c: "digest_ok sha K" "files_ok sha K c" "lifted c" "fades now K (stored sha c) V" using assms(1) by (simp_all add: file_stands_def)
  note w = write_file_ok [OF c(1,2) assms(2-4), where now = now and v = v]
  have "lifted (write_file (key_path sha k) (encode_at k v at) now c)" using c(3) by (simp add: lifted_def write_file_def)
  then show ?thesis using c w fades_update [OF c(4)] assms(5) by (simp add: file_stands_def)
qed

lemma file_write_stands:
  assumes "file_stands sha K now c V" "int now < 2 ^ 63"
  shows "file_stands sha K now (after_write now c) V"
  using assms after_write_fades [of sha K now c] fades_trans by (auto simp: file_stands_def)


lemma file_set_stands:
  assumes "file_stands sha K now c V" "k \<in> K" "0 < now" "int now < 2 ^ 63" "case ttl of None \<Rightarrow> True | Some d \<Rightarrow> int now + int d < 2 ^ 63"
  shows "file_stands sha K now (write_file (key_path sha k) (encode_entry k v ttl now) now c) (V(k \<mapsto> (v, map_expiry now ttl)))"
    and "file_stands sha K now (set_entry sha k v ttl now c) (V(k \<mapsto> (v, map_expiry now ttl)))"
proof -
  note at = file_time_expiry [OF assms(3-5)]
  show "file_stands sha K now (write_file (key_path sha k) (encode_entry k v ttl now) now c) (V(k \<mapsto> (v, map_expiry now ttl)))"
    unfolding encode_entry_def using at by (intro file_put_stands assms(1,2)) simp_all
  then show "file_stands sha K now (set_entry sha k v ttl now c) (V(k \<mapsto> (v, map_expiry now ttl)))"
    unfolding set_entry_def by (rule file_write_stands [OF _ assms(4)])
qed

lemma file_read:
  assumes "file_stands sha K now c V" "k \<in> K" "int now < 2 ^ 63"
  shows "case read_entry now (key_path sha k) c of
      LiveFile v at \<Rightarrow> V k = Some (v, file_time at) \<and> live_at now (V k) = Some v \<and> 0 \<le> at \<and> at < 2 ^ 63
    | _ \<Rightarrow> live_at now (V k) = None"
proof -
  have c: "digest_ok sha K" "files_ok sha K c" "fades now K (stored sha c) V" using assms(1) by (simp_all add: file_stands_def)
  note live = fades_live [OF c(3) assms(2)] and read = read_entry_stored [OF c(1,2) assms(2,3)]
  show ?thesis
  proof (cases "stored sha c k")
    case None
    then show ?thesis using live read by simp
  next
    case (Some e)
    then have "map_of (fc_files c) (key_path sha k) \<noteq> None" by (auto simp: stored_def split: option.splits)
    then obtain f where "map_of (fc_files c) (key_path sha k) = Some f" by blast
    then obtain v at where e: "0 \<le> at" "at < 2 ^ 63" "stored sha c k = Some (v, file_time at)"
      by (rule stored_file [OF c(1,2) assms(2)])
    moreover have "V k = stored sha c k" using c(3) assms(2) Some by (auto simp: fades_def)
    ultimately show ?thesis using read by (auto simp: file_time_def)
  qed
qed

lemma file_get_stands:
  assumes "file_stands sha K now c V" "k \<in> K" "int now < 2 ^ 63"
  shows "snd (get_entry sha k now c) = live_at now (V k) \<and> file_stands sha K now (fst (get_entry sha k now c)) V"
proof -
  have c: "digest_ok sha K" "files_ok sha K c" "lifted c" "fades now K (stored sha c) V" using assms(1) by (simp_all add: file_stands_def)
  note clear = clear_dead_ok [OF c(1,2) assms(2,3)]
  have "file_stands sha K now (fst (clear_dead now (key_path sha k) c)) V"
    using c clear fades_trans [OF clear(2) c(4)] by (simp add: file_stands_def lifted_def)
  moreover have "snd (clear_dead now (key_path sha k) c) = live_at now (V k)" using clear(3) fades_live [OF c(4) assms(2)] by simp
  ultimately show ?thesis using file_read [OF assms] assms(1) by (auto simp: get_entry_def split: file_entry.splits)
qed

lemma file_incr_stands:
  assumes s: "file_stands sha K now c V" and k: "k \<in> K" and now: "0 < now" "int now < 2 ^ 63"
    and ttl: "case ttl of None \<Rightarrow> True | Some d \<Rightarrow> int now + int d < 2 ^ 63"
  shows "snd (file_reply sha (IncrCall k n ttl) now c) = snd (map_do (IncrCall k n ttl) now V) \<and>
    file_stands sha K now (fst (file_reply sha (IncrCall k n ttl) now c)) (fst (map_do (IncrCall k n ttl) now V))"
proof -
  note read = file_read [OF s k now(2)]
  define kept where "kept = (case read_entry now (key_path sha k) c of LiveFile v at \<Rightarrow> Some at | _ \<Rightarrow> None)"
  have cur: "(case read_entry now (key_path sha k) c of
        LiveFile v at \<Rightarrow> ((case (if is_utf8 v then counter_value v else None) of None \<Rightarrow> 0 | Some n \<Rightarrow> n), Some at)
      | _ \<Rightarrow> (0, None)) = (text_count (live_at now (V k)), kept)"
    using read by (auto simp: kept_def text_count_def split: file_entry.splits)
  have put: "file_stands sha K now
      (write_file (key_path sha k) (case kept of
         Some at \<Rightarrow> if ttl = None then encode_at k (show_int m) at else encode_entry k (show_int m) ttl now
       | None \<Rightarrow> encode_entry k (show_int m) ttl now) now c)
      (V(k \<mapsto> (show_int m, if ttl = None \<and> live_at now (V k) \<noteq> None then snd (the (V k)) else map_expiry now ttl)))" for m
    using read file_set_stands(1) [OF s k now ttl, of "show_int m"] file_put_stands [OF s k, of _ _ "show_int m"]
    by (auto simp: kept_def split: file_entry.splits)
  show ?thesis
  proof (cases "checked_add (text_count (live_at now (V k))) n")
    case (Inl e)
    then show ?thesis using s by (simp add: reply_of_def incr_entry_def Let_def cur)
  next
    case (Inr m)
    then show ?thesis using put [of m] by (simp add: reply_of_def incr_entry_def Let_def cur)
  qed
qed

lemma file_delete_stands:
  assumes "file_stands sha K now c V" "k \<in> K"
  shows "file_stands sha K now (delete_entry sha k c) (V(k := None))"
proof -
  have c: "digest_ok sha K" "files_ok sha K c" "lifted c" "fades now K (stored sha c) V" using assms(1) by (simp_all add: file_stands_def)
  have "delete_entry sha k c = remove_file (key_path sha k) c"
  proof (cases "map_of (fc_files c) (key_path sha k) = None")
    case True
    then have "filter (\<lambda>(n, _). n \<noteq> key_path sha k) (fc_files c) = fc_files c"
      by (intro filter_True) (auto simp: map_of_eq_None_iff image_iff)
    then show ?thesis using True by (simp add: delete_entry_def remove_file_def)
  qed (auto simp: delete_entry_def)
  then show ?thesis using c remove_file_ok [OF c(1,2) assms(2)] fades_update [OF c(4)]
    by (simp add: file_stands_def lifted_def remove_file_def)
qed

lemma file_clear_stands:
  assumes "file_stands sha K now c V"
  shows "file_stands sha K now (clear_entries c) (\<lambda>_. None)"
proof -
  have c: "digest_ok sha K" "files_ok sha K c" "lifted c" using assms(1) by (simp_all add: file_stands_def)
  have "cache_extension n" if nf: "(n, f) \<in> set (fc_files c)" for n f
  proof -
    obtain k where "k \<in> K" "n = key_path sha k" using c(2) nf by (auto simp: files_ok_def)
    then show ?thesis using key_path_extension [OF c(1)] by simp
  qed
  then have "fc_files (clear_entries c) = []" by (auto simp: clear_entries_def filter_empty_conv)
  moreover have "fc_limits (clear_entries c) = fc_limits c" by (simp add: clear_entries_def)
  ultimately show ?thesis using c by (simp add: file_stands_def lifted_def files_ok_def stored_def fades_def)
qed

lemma file_answers:
  assumes s: "file_stands sha K now c V" and scope: "file_scope K now call"
  shows "snd (file_reply sha call now c) = snd (map_do call now V) \<and>
    file_stands sha K now (fst (file_reply sha call now c)) (fst (map_do call now V))"
proof -
  have now: "0 < now" "int now < 2 ^ 63" using scope by (simp_all add: file_scope_def)
  note scope_of = scope [unfolded file_scope_def]
  note ops = reply_of_def call_then_def call_ok_def
  have get: "\<exists>c'. get_entry sha k now c = (c', live_at now (V k)) \<and> file_stands sha K now c' V" if "k \<in> K" for k
    using file_get_stands [OF s that now(2)] by (metis prod.collapse)
  show ?thesis
  proof (cases call)
    case (GetCall k)
    then show ?thesis using get [of k] scope_of
      by (auto simp: ops file_get_def file_get_bytes_def text_reply_def split: option.split)
  next
    case (GetBytesCall k)
    then show ?thesis using get [of k] scope_of by (auto simp: ops file_get_bytes_def)
  next
    case (SetCall k v t)
    then show ?thesis using s file_set_stands(2) [OF s _ now, of k t v] scope_of
      by (auto simp: ops file_set_def file_set_bytes_def map_set_def split: sum.split)
  next
    case (SetBytesCall k v t)
    then show ?thesis using file_set_stands(2) [OF s _ now, of k t v] scope_of by (auto simp: ops file_set_bytes_def)
  next
    case (SetForeverCall k v)
    then show ?thesis using s file_set_stands(2) [OF s _ now, of k None v] scope_of
      by (auto simp: ops file_set_forever_def file_set_def file_set_bytes_def map_set_def split: sum.split)
  next
    case (IncrCall k n t)
    then show ?thesis using file_incr_stands [OF s _ now] scope_of by simp
  next
    case (AddCall k v t)
    then have k: "k \<in> K" using scope_of by simp
    then show ?thesis
      using AddCall s file_read [OF s k now(2)] file_write_stands [OF file_set_stands(1) [OF s k now, of t v] now(2)] scope_of
      by (cases "check_text v") (auto simp: ops file_add_def add_entry_def split: file_entry.splits)
  next
    case (TouchCall k t)
    then have k: "k \<in> K" using scope_of by simp
    then show ?thesis using TouchCall s file_read [OF s k now(2)] file_set_stands(1) [OF s k now, of t] scope_of
      by (auto simp: ops file_touch_def touch_entry_def split: file_entry.splits)
  next
    case (DeleteCall k)
    then show ?thesis using file_delete_stands [OF s] scope_of by (simp add: ops file_delete_def)
  next
    case (ExistsCall k)
    then show ?thesis using get [of k] scope_of by (auto simp: ops file_exists_def file_get_bytes_def)
  next
    case ClearCall
    then show ?thesis using file_clear_stands [OF s] by (simp add: ops file_clear_def)
  next
    case (DeletePrefixCall p)
    then show ?thesis using s delete_prefix_fades [of sha K now c V p] now by (simp add: ops file_delete_prefix_def file_stands_def)
  qed
qed

interpretation file_map: expiring_cache "file_reply sha" "file_scope K" "file_stands sha K" for sha K
  by unfold_locales (simp_all add: file_answers, auto simp: file_stands_def intro: fades_later)

end
