(* ===== verification/File_Sweep.thy ===== *)
theory File_Sweep
  imports File_Cache_Correct
begin

text \<open>
  What a purge leaves of a directory: no entry with an expired header, and of the others the newest that fit the caps, with as
  few removed as that takes. The directory may hold anything.
\<close>

section \<open>Evicting the oldest\<close>

definition file_row :: "string \<times> cache_file \<Rightarrow> nat \<times> nat \<times> string" where
  "file_row nf = (case nf of (n, f) \<Rightarrow> (cf_modified f, length (cf_bytes f), n))"

definition entry_files :: "file_cache \<Rightarrow> (string \<times> cache_file) list" where
  "entry_files c = filter (\<lambda>(n, _). cache_extension n) (fc_files c)"

definition row_bytes :: "(nat \<times> nat \<times> string) list \<Rightarrow> nat" where
  "row_bytes rows = sum_list (map (\<lambda>(_, len, _). len) rows)"

lemma row_bytes_simps [simp]: "row_bytes [] = 0" "row_bytes ((at, len, n) # rows) = len + row_bytes rows"
  by (simp_all add: row_bytes_def)

lemma row_bytes_mset: "mset xs = mset ys \<Longrightarrow> row_bytes xs = row_bytes ys"
  unfolding row_bytes_def by (metis mset_map sum_mset_sum_list)

lemma entry_files_remove: "entry_files (remove_file path c) = filter (\<lambda>(n, _). n \<noteq> path) (entry_files c)"
  by (auto simp: entry_files_def remove_file_def intro!: filter_cong)

lemma map_of_entry: "cache_extension n \<Longrightarrow> map_of (entry_files c) n = map_of (fc_files c) n"
proof -
  have "cache_extension n \<Longrightarrow> map_of (filter (\<lambda>(n, _). cache_extension n) files) n = map_of files n" for files :: "(string \<times> cache_file) list"
    by (induction files) auto
  then show "cache_extension n \<Longrightarrow> map_of (entry_files c) n = map_of (fc_files c) n" by (simp add: entry_files_def)
qed

lemma names_of_rows: "mset (map file_row es) = mset rows \<Longrightarrow> mset (map (\<lambda>r. snd (snd r)) rows) = mset (map fst es)"
proof -
  assume "mset (map file_row es) = mset rows"
  then have "mset (map (\<lambda>r. snd (snd r)) rows) = mset (map (\<lambda>r. snd (snd r)) (map file_row es))" unfolding mset_map by (metis mset_map)
  moreover have "map (\<lambda>r. snd (snd r)) (map file_row es) = map fst es" by (auto simp: file_row_def)
  ultimately show ?thesis by (simp only:)
qed

lemma rows_remove:
  assumes dist: "distinct (map fst (entry_files c))" and rows: "mset (map file_row (entry_files c)) = mset ((at, len, path) # rows)"
  shows "mset (map file_row (entry_files (remove_file path c))) = mset rows"
    and "map_option cf_modified (map_of (fc_files c) path) = Some at"
proof -
  have "distinct (map (\<lambda>r. snd (snd r)) ((at, len, path) # rows))"
    using names_of_rows [OF rows] dist by (metis mset_eq_imp_distinct_iff)
  then have "filter (\<lambda>r. snd (snd r) \<noteq> path) rows = rows" by (intro filter_True) auto
  then have "mset rows = filter_mset (\<lambda>r. snd (snd r) \<noteq> path) (mset ((at, len, path) # rows))" by (simp flip: mset_filter)
  also have "\<dots> = mset (filter (\<lambda>r. snd (snd r) \<noteq> path) (map file_row (entry_files c)))" unfolding rows [symmetric] by simp
  also have "filter (\<lambda>r. snd (snd r) \<noteq> path) (map file_row (entry_files c)) = map file_row (entry_files (remove_file path c))"
    by (auto simp: entry_files_remove filter_map file_row_def comp_def case_prod_beta')
  finally show "mset (map file_row (entry_files (remove_file path c))) = mset rows" by simp
  have "(at, len, path) \<in> set (map file_row (entry_files c))" using mset_eq_setD [OF rows] by simp
  then obtain f where f: "(path, f) \<in> set (entry_files c)" "cf_modified f = at" by (auto simp: file_row_def)
  moreover have "cache_extension path" using f(1) by (simp add: entry_files_def)
  ultimately show "map_option cf_modified (map_of (fc_files c) path) = Some at"
    using map_of_is_SomeI [OF dist f(1)] map_of_entry [of path c] by simp
qed

lemma distinct_entry_remove: "distinct (map fst (entry_files c)) \<Longrightarrow> distinct (map fst (entry_files (remove_file path c)))"
  by (simp add: entry_files_remove distinct_map_filter)

lemma evict_files_drops:
  assumes "distinct (map fst (entry_files c))" "mset (map file_row (entry_files c)) = mset rows" "fits 0 0"
  shows "\<exists>gone kept. rows = gone @ kept \<and>
    mset (map file_row (entry_files (fst (evict_files fits rows (length rows) (row_bytes rows) c removed)))) = mset kept \<and>
    snd (evict_files fits rows (length rows) (row_bytes rows) c removed) = removed + length gone \<and>
    fits (length kept) (row_bytes kept) \<and>
    (gone \<noteq> [] \<longrightarrow> \<not> fits (length (last gone # kept)) (row_bytes (last gone # kept)))"
  using assms(1,2)
proof (induction rows arbitrary: c removed)
  case Nil
  then show ?case using assms(3) by simp
next
  case (Cons row rows)
  obtain at len path where row: "row = (at, len, path)" by (metis prod_cases3)
  note gone = rows_remove [OF Cons.prems(1) Cons.prems(2) [unfolded row]]
  show ?case
  proof (cases "fits (length (row # rows)) (row_bytes (row # rows))")
    case True
    then show ?thesis using Cons.prems(2) by (intro exI [of _ "[]"] exI [of _ "row # rows"]) (simp add: row)
  next
    case False
    have step: "evict_files fits (row # rows) (length (row # rows)) (row_bytes (row # rows)) c removed =
        evict_files fits rows (length rows) (row_bytes rows) (remove_file path c) (removed + 1)"
      using False gone(2) by (simp add: row)
    obtain g k where gk: "rows = g @ k"
      "mset (map file_row (entry_files (fst (evict_files fits rows (length rows) (row_bytes rows) (remove_file path c) (removed + 1))))) = mset k"
      "snd (evict_files fits rows (length rows) (row_bytes rows) (remove_file path c) (removed + 1)) = removed + 1 + length g"
      "fits (length k) (row_bytes k)" "g \<noteq> [] \<longrightarrow> \<not> fits (length (last g # k)) (row_bytes (last g # k))"
      using Cons.IH [OF distinct_entry_remove [OF Cons.prems(1)] gone(1), of "removed + 1"] by blast
    then show ?thesis unfolding step using False
      by (intro exI [of _ "row # g"] exI [of _ k]) auto
  qed
qed

lemma evict_oldest_drops:
  assumes "distinct (map fst (entry_files c))" "mset (map file_row (entry_files c)) = mset live" "0 < parts"
  shows "\<exists>gone kept. sort_key fst live = gone @ kept \<and> mset (map file_row (entry_files (fst (evict_oldest live parts c)))) = mset kept \<and>
    snd (evict_oldest live parts c) = length gone \<and> file_fits (fc_limits c) parts (length kept) (row_bytes kept) \<and>
    (gone \<noteq> [] \<longrightarrow> \<not> file_fits (fc_limits c) parts (length (last gone # kept)) (row_bytes (last gone # kept)))"
proof -
  let ?rows = "sort_key fst live"
  have bytes: "sum_list (map (\<lambda>(_, len, _). len) live) = row_bytes ?rows" "length live = length ?rows"
    using row_bytes_mset [of live ?rows] by (simp_all add: row_bytes_def)
  have sorted: "mset (map file_row (entry_files c)) = mset ?rows" using assms(2) by simp
  have zero: "file_fits (fc_limits c) parts 0 0" by (simp add: file_fits_def)
  show ?thesis
  proof (cases "file_fits (fc_limits c) parts (length ?rows) (row_bytes ?rows)")
    case True
    then show ?thesis using sorted unfolding evict_oldest_def Let_def bytes
      by (intro exI [of _ "[]"] exI [of _ ?rows]) simp
  next
    case False
    then show ?thesis using evict_files_drops [OF assms(1) sorted, of "file_fits (fc_limits c) parts" 0, OF zero]
      unfolding evict_oldest_def Let_def bytes by simp
  qed
qed

section \<open>Clearing dead headers\<close>

lemma header_dead_entry: "header_dead now bytes \<Longrightarrow> entry_of now bytes = DeadFile"
proof -
  have "length file_magic = 4" by (simp add: file_magic_def)
  then show "header_dead now bytes \<Longrightarrow> entry_of now bytes = DeadFile"
    by (auto simp: header_dead_def entry_of_def decode_entry_def strip_prefix_def starts_with_def Let_def split: option.splits bool.splits)
qed

lemma clear_dead_other:
  "n \<noteq> path \<Longrightarrow> map_of (fc_files (fst (clear_dead now path c))) n = map_of (fc_files c) n"
  by (simp add: clear_dead_def remove_file_def map_of_other_names split: file_entry.split)

lemma clear_header_dead:
  assumes "map_of (fc_files c) n = Some f" "header_dead now (cf_bytes f)"
  shows "fst (clear_dead now n c) = remove_file n c"
  using assms header_dead_entry by (simp add: clear_dead_def read_entry_def)

lemma clear_dead_files:
  assumes "distinct (map fst (fc_files d))" "distinct (map fst dead)" "set dead \<subseteq> set (fc_files d)"
    "\<forall>(n, f) \<in> set dead. header_dead now (cf_bytes f)"
  shows "fc_files (fold (\<lambda>(n, _) d. fst (clear_dead now n d)) dead d) = filter (\<lambda>(n, _). n \<notin> fst ` set dead) (fc_files d) \<and>
    fc_limits (fold (\<lambda>(n, _) d. fst (clear_dead now n d)) dead d) = fc_limits d"
  using assms
proof (induction dead arbitrary: d)
  case (Cons nf dead)
  obtain n f where nf: "nf = (n, f)" by fastforce
  have f: "map_of (fc_files d) n = Some f" "header_dead now (cf_bytes f)"
    using Cons.prems nf by (auto intro: map_of_is_SomeI)
  let ?d = "remove_file n d"
  have "set dead \<subseteq> set (fc_files ?d)" using Cons.prems(2,3) by (force simp: nf remove_file_def)
  then have "fc_files (fold (\<lambda>(n, _) d. fst (clear_dead now n d)) dead ?d) = filter (\<lambda>(n, _). n \<notin> fst ` set dead) (fc_files ?d) \<and>
      fc_limits (fold (\<lambda>(n, _) d. fst (clear_dead now n d)) dead ?d) = fc_limits ?d"
    using Cons.prems by (intro Cons.IH) (auto simp: remove_file_def distinct_map_filter)
  then show ?case by (simp add: nf clear_header_dead [OF f]) (auto simp: remove_file_def intro!: filter_cong)
qed (auto simp: case_prod_beta')

text \<open>The live and the dead entries of a directory, by their headers.\<close>

definition live_entries :: "nat \<Rightarrow> file_cache \<Rightarrow> (string \<times> cache_file) list" where
  "live_entries now c = filter (\<lambda>(_, f). \<not> header_dead now (cf_bytes f)) (entry_files c)"

definition dead_entries :: "nat \<Rightarrow> file_cache \<Rightarrow> (string \<times> cache_file) list" where
  "dead_entries now c = filter (\<lambda>(_, f). header_dead now (cf_bytes f)) (entry_files c)"

lemma entry_files_swept:
  fixes now :: nat
  assumes "distinct (map fst (fc_files c))"
  defines "d \<equiv> fold (\<lambda>(n, _) d. fst (clear_dead now n d)) (dead_entries now c) c"
  shows "entry_files d = live_entries now c" "fc_limits d = fc_limits c" "n \<in> fst ` set (dead_entries now c) \<Longrightarrow> map_of (fc_files d) n = None"
proof -
  have "distinct (map fst (dead_entries now c))" "set (dead_entries now c) \<subseteq> set (fc_files c)"
    "\<forall>(n, f) \<in> set (dead_entries now c). header_dead now (cf_bytes f)"
    using assms(1) by (auto simp: dead_entries_def entry_files_def intro!: distinct_map_filter)
  note d = clear_dead_files [OF assms(1) this, folded d_def]
  have "n \<notin> fst ` set (dead_entries now c) \<longleftrightarrow> \<not> (cache_extension n \<and> header_dead now (cf_bytes f))" if "(n, f) \<in> set (fc_files c)" for n f
  proof -
    have "g = f" if "(n, g) \<in> set (fc_files c)" for g
      using map_of_is_SomeI [OF assms(1) that] map_of_is_SomeI [OF assms(1) \<open>(n, f) \<in> set (fc_files c)\<close>] by simp
    moreover have "n \<in> fst ` set (dead_entries now c) \<longleftrightarrow> (\<exists>g. (n, g) \<in> set (fc_files c) \<and> cache_extension n \<and> header_dead now (cf_bytes g))"
      by (force simp: dead_entries_def entry_files_def)
    ultimately show ?thesis using that by blast
  qed
  then have "filter (\<lambda>(n, _). cache_extension n) (filter (\<lambda>(n, _). n \<notin> fst ` set (dead_entries now c)) (fc_files c)) = live_entries now c"
    by (auto simp: live_entries_def entry_files_def intro!: filter_cong)
  then show "entry_files d = live_entries now c" "fc_limits d = fc_limits c" using d by (simp_all add: entry_files_def)
  show "map_of (fc_files d) n = None" if dead: "n \<in> fst ` set (dead_entries now c)"
  proof -
    have "\<forall>x \<in> set (fc_files d). fst x \<notin> fst ` set (dead_entries now c)" using d by (simp add: case_prod_beta')
    then have "n \<notin> fst ` set (fc_files d)" using dead by blast
    then show ?thesis by (simp add: map_of_eq_None_iff)
  qed
qed

lemma purge_keeps_newest:
  assumes "distinct (map fst (fc_files c))"
  shows "\<exists>gone kept. sort_key fst (map file_row (live_entries now c)) = gone @ kept \<and>
    mset (map file_row (entry_files (fst (purge_expired now c)))) = mset kept \<and>
    snd (purge_expired now c) = length (dead_entries now c) + length gone \<and>
    file_fits (fc_limits c) 1 (length kept) (row_bytes kept) \<and>
    (gone \<noteq> [] \<longrightarrow> \<not> file_fits (fc_limits c) 1 (length (last gone # kept)) (row_bytes (last gone # kept)))"
proof -
  define d where "d = fold (\<lambda>(n, _) d. fst (clear_dead now n d)) (dead_entries now c) c"
  note swept = entry_files_swept [OF assms, where now = now, folded d_def]
  have all_gone: "filter (\<lambda>(n, _). map_of (fc_files d) n = None) (dead_entries now c) = dead_entries now c"
    using swept(3) by (intro filter_True) force
  have rows: "map (\<lambda>(n, f). (cf_modified f, length (cf_bytes f), n)) (live_entries now c) = map file_row (entry_files d)"
    by (simp add: swept(1) file_row_def case_prod_beta')
  have purge: "purge_expired now c =
      (fst (evict_oldest (map file_row (entry_files d)) 1 d), length (dead_entries now c) + snd (evict_oldest (map file_row (entry_files d)) 1 d))"
  proof -
    have "filter (\<lambda>(n, _). in_stripe None n) (fc_files c) = entry_files c" by (simp add: in_stripe_def entry_files_def)
    note seen = this [folded live_entries_def dead_entries_def]
    show ?thesis
      unfolding purge_expired_def sweep_dir_def Let_def seen live_entries_def [symmetric] dead_entries_def [symmetric]
        d_def [symmetric] all_gone rows by (simp split: prod.split)
  qed
  have "distinct (map fst (entry_files d))"
    unfolding swept(1) by (simp add: live_entries_def entry_files_def distinct_map_filter assms)
  from evict_oldest_drops [OF this refl, of 1] show ?thesis unfolding purge swept(2) by (simp add: swept(1))
qed

end
