(* ===== verification/Backends.thy ===== *)
theory Backends
  imports File_Sweep
begin

text \<open>
  What the backends of the cache promise: the file cache keeps what it was given, answers as a map with expiries and as the
  in-memory cache does, and a purge keeps the newest entries that fit its caps.
\<close>

section \<open>The file format\<close>

text \<open>
  C21. An entry file reads back as the key and the value it was written with, and as expired exactly when its time to live is
  over; its header alone tells the same.
\<close>

theorem file_entry_roundtrip:
  assumes "is_utf8 key" "length key < 2 ^ 32" "0 < now" "int now + int ttl < 2 ^ 63" "int later < 2 ^ 63"
  shows "decode_entry later (encode_entry key v (Some ttl) now) = Some (key, v, later > now + ttl, int now + int ttl) \<and>
    header_dead later (encode_entry key v (Some ttl) now) = (later > now + ttl) \<and>
    decode_entry later (encode_entry key v None now) = Some (key, v, False, 0)"
proof -
  have "file_key key" using assms(1,2) by (simp add: file_key_def)
  moreover have at: "expires_at_of now (Some ttl) = int now + int ttl" "expires_at_of now None = 0"
    using assms(3,4) by (simp_all add: expires_at_of_def now_unix_millis_def i64_range_def)
  moreover have "i64_range (int now + int ttl)" "i64_range 0" "now_unix_millis later = int later"
    using assms(4,5) by (simp_all add: i64_range_def now_unix_millis_def)
  ultimately show ?thesis
    using decode_encode_at [of key "int now + int ttl" later v] decode_encode_at [of key 0 later v] header_encode_at [of "int now + int ttl" later key v] assms(3)
    by (auto simp: encode_entry_def)
qed

theorem file_entry_roundtrip_witness:
  "decode_entry 9 (encode_entry ''k'' ''v'' (Some 5) 3) = Some (''k'', ''v'', True, 8) \<and>
   decode_entry 8 (encode_entry ''k'' ''v'' (Some 5) 3) = Some (''k'', ''v'', False, 8)"
  using file_entry_roundtrip [of "''k''" 3 5 9 "''v''"] file_entry_roundtrip [of "''k''" 3 5 8 "''v''"]
  by (simp add: is_utf8_def)

section \<open>Answers\<close>

definition lifted_caps :: file_cache where
  "lifted_caps = file_max_bytes 0 (file_max_entries 0 file_cache_new)"

lemma new_file_stands: "digest_ok sha K \<Longrightarrow> file_stands sha K 0 lifted_caps (\<lambda>_. None)"
  by (simp add: file_stands_def files_ok_def lifted_def lifted_caps_def file_max_bytes_def file_max_entries_def file_cache_new_def
      stored_def fades_def)

text \<open>
  C18. A file cache whose caps are lifted answers any history of calls, at times that never go back, as a map of values with
  expiries does, whatever its sweeps and reads remove in between.
\<close>

theorem file_cache_answers_as_map:
  assumes "digest_ok sha K" "sorted (map fst h)" "\<forall>(now, call) \<in> set h. file_scope K now call"
  shows "run_calls (file_reply sha) h lifted_caps = run_calls map_do h (\<lambda>_. None)"
  using file_map.answers_as_map [OF new_file_stands [OF assms(1)] _ assms(3)] assms(2) by simp

definition pad_digest :: "string \<Rightarrow> string" where
  "pad_digest k = take 32 (k @ replicate 32 CHR ''0'')"

definition short_keys :: "string set" where
  "short_keys = {''a'', ''b''}"

lemma pad_digest_ok: "digest_ok pad_digest short_keys"
  by (simp add: digest_ok_def short_keys_def pad_digest_def file_key_def is_utf8_def inj_on_def)

definition sample_history :: "(nat \<times> mem_call) list" where
  "sample_history =
     [(1, SetCall ''a'' ''1'' (Some 10)), (2, IncrCall ''a'' 4 None), (3, AddCall ''a'' ''x'' None), (12, GetCall ''a''),
      (13, AddCall ''b'' ''y'' None), (14, DeletePrefixCall ''b''), (15, ExistsCall ''b'')]"

definition sample_replies :: "reply list" where
  "sample_replies = [UnitReply, IntReply 5, BoolReply False, TextReply None, BoolReply True, UnitReply, BoolReply False]"

lemma sample_map: "run_calls map_do sample_history (\<lambda>_. None) = sample_replies"
  by code_simp

theorem file_cache_answers_as_map_witness:
  "run_calls (file_reply pad_digest) sample_history lifted_caps = sample_replies"
proof -
  have "\<forall>(now, call) \<in> set sample_history. file_scope short_keys now call"
    by (simp add: sample_history_def file_scope_def short_keys_def)
  then show ?thesis
    using file_cache_answers_as_map [OF pad_digest_ok, of sample_history] by (simp add: sample_map) (simp add: sample_history_def)
qed

lemma new_mem_stands: "mem_stands 0 (build_cache None 0 0) (\<lambda>_. None)"
proof -
  have "micros (\<lambda>_. None) = (\<lambda>_. None)" by (simp add: micros_def fun_eq_iff)
  moreover have "budget_ok (build_cache None 0 0)" by (rule empty_within) (simp add: build_cache_def)
  ultimately show ?thesis using empty_unbounded [of "build_cache None 0 0"]
    by (simp add: mem_stands_def budget_ok_def build_cache_def)
qed

text \<open>
  C19. The file cache and the in-memory cache are interchangeable: with no caps and no budgets they give the same answers to
  any history of calls with text, in milliseconds.
\<close>

theorem backends_agree:
  assumes "digest_ok sha K" "sorted (map fst h)" "\<forall>(now, call) \<in> set h. file_scope K now call \<and> mem_scope now call"
  shows "run_calls (file_reply sha) h lifted_caps = run_calls mem_millis h (build_cache None 0 0)"
proof -
  have "\<forall>(now, call) \<in> set h. file_scope K now call" "\<forall>(now, call) \<in> set h. mem_scope now call" using assms(3) by auto
  then show ?thesis
    using file_map.answers_as_map [OF new_file_stands [OF assms(1)]] mem_map.answers_as_map [OF new_mem_stands] assms(2) by simp
qed

theorem backends_agree_witness:
  "run_calls (file_reply pad_digest) sample_history lifted_caps = run_calls mem_millis sample_history (build_cache None 0 0)"
proof -
  have "\<forall>(now, call) \<in> set sample_history. file_scope short_keys now call \<and> mem_scope now call"
    by (simp add: sample_history_def file_scope_def mem_scope_def short_keys_def is_utf8_def far_future_def)
  then show ?thesis by (intro backends_agree [OF pad_digest_ok]) (simp_all add: sample_history_def)
qed

section \<open>Caps\<close>

text \<open>
  C20. A purge removes every entry whose header is dead, then the oldest live entries, just as many as it takes to fit both
  caps, and reports how many went; the entries it keeps are unchanged.
\<close>

theorem purge_keeps_newest_that_fit:
  assumes "distinct (map fst (fc_files c))"
  shows "\<exists>gone kept. sort_key fst (map file_row (live_entries now c)) = gone @ kept \<and>
    mset (map file_row (entry_files (fst (purge_expired now c)))) = mset kept \<and>
    snd (purge_expired now c) = length (dead_entries now c) + length gone \<and>
    file_fits (fc_limits c) 1 (length kept) (row_bytes kept) \<and>
    (gone \<noteq> [] \<longrightarrow> \<not> file_fits (fc_limits c) 1 (length (last gone # kept)) (row_bytes (last gone # kept)))"
  by (rule purge_keeps_newest [OF assms])

definition two_files :: file_cache where
  "two_files = file_max_entries 1 \<lparr>fc_files = [(''a1.cache'', \<lparr>cf_modified = 5, cf_bytes = encode_entry ''a'' ''1'' None 5\<rparr>),
      (''b2.cache'', \<lparr>cf_modified = 4, cf_bytes = encode_entry ''b'' ''2'' None 4\<rparr>)], fc_writes = 2, fc_limits = \<lparr>fl_entries = 9, fl_bytes = 0\<rparr>\<rparr>"

theorem purge_keeps_newest_that_fit_witness:
  "\<exists>gone kept. sort_key fst (map file_row (live_entries 7 two_files)) = gone @ kept \<and>
     mset (map file_row (entry_files (fst (purge_expired 7 two_files)))) = mset kept \<and> length kept \<le> 1"
proof -
  have "distinct (map fst (fc_files two_files))" "fl_entries (fc_limits two_files) = 1"
    by (simp_all add: two_files_def file_max_entries_def)
  then show ?thesis using purge_keeps_newest_that_fit [of two_files 7] by (auto simp: file_fits_def)
qed

text \<open>
  The trait says that a bounded backend must not evict what \<open>set_forever\<close> stored. The file cache inherits \<open>set_forever\<close> as a plain
  \<open>set\<close>, and its sweep evicts such an entry when it is the oldest.
\<close>

definition one_entry_cap :: file_cache where
  "one_entry_cap = file_max_entries 1 file_cache_new"

lemma file_cache_evicts_forever:
  defines "c \<equiv> fst (file_set pad_digest ''b'' ''2'' None 2 (fst (file_set_forever pad_digest ''a'' ''1'' 1 one_entry_cap)))"
  shows "snd (file_get pad_digest ''a'' 3 c) = Inr (Some ''1'') \<and> snd (file_get pad_digest ''a'' 4 (fst (purge_expired 3 c))) = Inr None"
proof -
  let ?a = "key_path pad_digest ''a''" and ?b = "key_path pad_digest ''b''"
  define A B where "A = encode_entry ''a'' ''1'' None 1" and "B = encode_entry ''b'' ''2'' None 2"
  have names: "?a \<noteq> ?b" "cache_extension ?a" "cache_extension ?b"
    using key_path_inj [OF pad_digest_ok, of "''a''" "''b''"] key_path_extension [OF pad_digest_ok] by (simp_all add: short_keys_def)
  have "file_key ''a''" by (simp add: file_key_def is_utf8_def)
  then have A: "decode_entry now A = Some (''a'', ''1'', False, 0)" for now
    using decode_encode_at [of "''a''" 0 now "''1''"] by (simp add: A_def encode_entry_def expires_at_of_def i64_range_def)
  have live: "\<not> header_dead now A" "\<not> header_dead now B" for now
    using header_encode_at [of 0 now] by (simp_all add: A_def B_def encode_entry_def expires_at_of_def i64_range_def)
  have c: "c = one_entry_cap\<lparr>fc_files := [(?a, \<lparr>cf_modified = 1, cf_bytes = A\<rparr>), (?b, \<lparr>cf_modified = 2, cf_bytes = B\<rparr>)], fc_writes := 2\<rparr>"
    using names(1) by (simp add: c_def file_set_forever_def file_set_def call_then_def call_ok_def check_text_def file_set_bytes_def set_entry_def
        A_def B_def write_file_def after_write_def sweep_every_def one_entry_cap_def file_max_entries_def file_cache_new_def Let_def)
  have "length B = 18" by (simp add: B_def encode_entry_def encode_at_def file_magic_def Let_def)
  then have "fst (purge_expired 3 c) = remove_file ?a c"
    using names by (simp add: c purge_expired_def sweep_dir_def in_stripe_def live evict_oldest_def file_fits_def one_entry_cap_def
        file_max_entries_def file_cache_new_def remove_file_def Let_def)
  moreover have "read_entry 3 ?a c = LiveFile ''1'' 0" by (simp add: c read_entry_def entry_of_def A)
  moreover have "read_entry 4 ?a (remove_file ?a c) = MissingFile" by (simp add: read_entry_def remove_file_def map_of_other_names)
  ultimately show ?thesis by (simp add: file_get_def file_get_bytes_def get_entry_def call_then_def call_ok_def is_utf8_def)
qed

end
