(* ===== verification/Spec2Isabelle.thy ===== *)
theory Spec2Isabelle
  imports Sql_Witnesses Merge Diff_Order Runner_History Witnesses Findings Limits Locks Backends
begin

text \<open>
  A verification library for the core of rustango, a web framework with an ORM: its migration engine
  (\<open>crates/rustango/src/migrate/\<close>) over the model schema (\<open>core/\<close>), the writers that turn predicates and write queries into
  SQL (\<open>sql/\<close>, \<open>query/\<close>), and the caches with what is built on them to guard logins, requests, tokens and scheduled jobs
  (\<open>cache/\<close>, \<open>account_lockout.rs\<close>, \<open>rate_limit_cache.rs\<close>, \<open>jti_store.rs\<close>, \<open>distributed_lock.rs\<close>).

  \<^bold>\<open>The program.\<close> Models register themselves in an inventory. \<open>makemigrations\<close> captures the inventory as a
  schema snapshot, compares it with the snapshot of the last migration file, and writes a new file with the
  operations that lead from one to the other. \<open>migrate\<close> applies the files a database's ledger does not name,
  \<open>downgrade\<close> and \<open>migrate <target>\<close> roll files back by inverting them. Directories may branch and be merged
  again, files may be squashed, and hand-written renames are replayed on the snapshots that do not know them.
  At run time queries name predicates by lookup keys or \<open>Q\<close>, and the writers give the text and the binds of a statement for Postgres, MySQL or
  SQLite. One cache, in memory or in files, is shared by tenants and processes: keys name their owner, views prefix them, and
  lockouts, rate limits and locks are counters and markers in it.

  \<^bold>\<open>Theories and sources, the migration engine.\<close>
  \<^item> \<open>Prelude\<close>: bytes as characters, 32- and 64-bit words, and the operations of Rust's standard library that the
    sources use, with their lemmas.
  \<^item> \<open>Schema\<close> (\<open>core/field_type.rs\<close>, \<open>core/schema.rs\<close>): field types and their names, fields, models, scopes, the
    inventory and its lookups.
  \<^item> \<open>Snapshot\<close> (\<open>migrate/snapshot.rs\<close>): the snapshot records, capturing the inventory, the owner of a table,
    junctions, unmanaged tables, lookups and comparison. \<open>Snapshot_Edit\<close>: \<open>apply_rename\<close> and the three-way merge.
  \<^item> \<open>Change\<close> (\<open>migrate/diff.rs\<close>, \<open>migrate/file.rs\<close>): operations and migration files with their checks. \<open>Diff\<close>:
    \<open>detect_changes\<close> in its phases, what it refuses, and its warnings.
  \<^item> \<open>Catalog\<close>, \<open>Run\<close>: the specification. A catalog maps the key of a database object to its definition; \<open>catalog_of\<close>
    is what a snapshot says, \<open>change_step\<close> what one operation needs and does. It is not code of the repository: it
    states what the three databases do with the DDL of an operation, and every refinement is relative to it.
  \<^item> \<open>Diff_Correct\<close>, \<open>Diff_Order\<close>, \<open>Rename_Correct\<close>: a diff leads from one catalog to the other and back, its phases,
    and renames on snapshots against renames on catalogs. The locale \<open>named_objects\<close> carries the argument that
    indexes, checks and exclusions share.
  \<^item> \<open>Invert\<close> (\<open>migrate/invert.rs\<close>), \<open>Rollback\<close>: inverting a file, and that this restores the previous catalog.
    \<open>Rebuild\<close> (\<open>migrate/rebuild.rs\<close>): the shape of a table in the middle of a file.
  \<^item> \<open>Chain\<close>, \<open>Make\<close> (\<open>migrate/make.rs\<close>): the graph of files, and planning, naming and merging.
    \<open>History\<close>, \<open>Merge\<close>: what follows for a project. The locale \<open>diff_engine\<close> states the contract of a diff engine.
  \<^item> \<open>Runner\<close> (\<open>migrate/runner.rs\<close>, \<open>migrate/progress.rs\<close>): the ledger, pending files, reconciling squashes, the apply
    loop, moving to a target, rolling back. \<open>Runner_Correct\<close>: what holds for any server, with the locale
    \<open>run_invariant\<close> for what every run keeps. \<open>Runner_History\<close>: the runner on a project of \<open>makemigrations\<close>.
  \<^item> \<open>Samples\<close>, \<open>Witnesses\<close>, \<open>Findings\<close>: inputs on which the theorems are applied, and behaviours that differ from
    what the sources document.

  \<^bold>\<open>Theories and sources, SQL.\<close>
  \<^item> \<open>Sql_Ir\<close> (\<open>core/value.rs\<close>, \<open>core/query.rs\<close>, \<open>core/expr.rs\<close>): values, operators, predicates, boolean trees with their validation, and
    the write queries. Dates, decimals and JSON documents are a type parameter: the writers only pass them on.
  \<^item> \<open>Dialect\<close>, \<open>Dialect_Ops\<close> (\<open>sql/dialect.rs\<close>, \<open>sql/postgres.rs\<close>, \<open>sql/mysql.rs\<close>, \<open>sql/sqlite.rs\<close>): quoting, placeholders, casts,
    capabilities, the text of each operator and the conflict clauses, one definition per method with a case for each dialect.
  \<^item> \<open>Sql_Buffer\<close>, \<open>Sql_Writer\<close> (\<open>sql/writers.rs\<close>, \<open>core/joins.rs\<close>): the buffer, its scopes and binds, and the writers for filters, trees,
    search clauses, INSERT, bulk INSERT, UPDATE and DELETE. \<open>Sql_Lookups\<close> (\<open>query/q.rs\<close>, \<open>query/mod.rs\<close>): \<open>Q\<close> and lookup keys.
    \<open>Upsert_Batch\<close> (\<open>core/query.rs\<close>): the rows a bulk upsert sends.
  \<^item> \<open>Sql_Lex\<close>, \<open>Like_Match\<close>: specifications. How a server reads quotes, comments, parentheses and placeholders (MySQL and MariaDB
    differ in their executable comments), and what \<open>LIKE\<close> and \<open>GLOB\<close> match, as the manuals of the servers say.
  \<^item> \<open>Dialect_Lex\<close>, \<open>Sql_Writer_Lex\<close>, \<open>Sql_Statements\<close>: every fragment, and so every statement, reads back as one closed text. \<open>Sql_Erase\<close>: the text
    does not depend on the values. \<open>Sql_Binds\<close>: the list of binds. \<open>Sql_Props\<close>, \<open>Sql_Witnesses\<close>: the properties and their inputs.

  \<^bold>\<open>Theories and sources, the caches.\<close>
  \<^item> \<open>Cache\<close> (\<open>cache/mod.rs\<close>): the trait with its inherited methods, and the in-memory cache with its budgets. \<open>Cache_Correct\<close>: its
    totals, budgets and pinned entries.
  \<^item> \<open>Cache_Contract\<close>: the locale \<open>counter_cache\<close>, what clients of one key rely on. \<open>Expiring_Map\<close>: the locale \<open>expiring_cache\<close>, a backend
    that answers every history of calls as a map with expiries does. The in-memory cache without budgets is an instance of both.
  \<^item> \<open>File_Cache\<close> (\<open>cache/mod.rs\<close>): the file format, the operations and the sweep of the cache in a directory.
    \<open>File_Cache_Correct\<close>: an instance of \<open>expiring_cache\<close>. \<open>File_Sweep\<close>: what a purge leaves. \<open>Backends\<close>: the properties.
  \<^item> \<open>Cache_Program\<close>: code that awaits the cache between its steps, as a tree of calls that runs alone or interleaved with other threads, the
    clock and other clients; the locale \<open>slot_protocol\<close> is the argument for at most a number of holders.
  \<^item> \<open>Lockout\<close> (\<open>account_lockout.rs\<close>), \<open>Rate_Limit\<close> (\<open>rate_limit_cache.rs\<close>), \<open>Dist_Lock\<close> (\<open>distributed_lock.rs\<close>): the programs.
    \<open>Lockout_Correct\<close>, \<open>Rate_Limit_Correct\<close>, \<open>Dist_Lock_Correct\<close>: each as an instance of \<open>slot_protocol\<close>. \<open>Lockout_Spec\<close>: the lockout as a
    state machine. \<open>Lock_Windows\<close>: a job per window.
  \<^item> \<open>Keyspace\<close> (\<open>cache/keyspace.rs\<close>), \<open>Scoped\<close> (\<open>cache/scoped.rs\<close>, \<open>cache/scope.rs\<close>): keys and their owners, and views; a view keeps the
    contract of the cache below it. \<open>Jti_Store\<close> (\<open>jti_store.rs\<close>): spent tokens. \<open>Limits\<close>, \<open>Locks\<close>: the properties.

  \<^bold>\<open>State and operations.\<close> A struct is a record with the source's fields, prefixed by the type; an enum is a
  datatype; a fallible function returns a sum with the error left. A directory is the list of its files in the
  order it is read. A run of the runner is a function from the database to the database it leaves and a
  result, since a failing file may leave part of its work; \<open>and_then\<close> is \<open>?\<close>, and \<open>transaction\<close> restores the database
  on an error. SQL of data operations, callbacks, the probe for repeated keys and the clock are fields of \<open>server\<close>. A cache
  operation reads the clock, a natural number of microseconds (milliseconds in the file cache), and the cache, and returns both.

  \<^bold>\<open>What is shown.\<close> A computed diff runs without a collision and reaches the new schema; a rollback restores
  the old one; a project built by successive \<open>makemigrations\<close> runs is one numbered line that sets up a database
  from nothing, and \<open>migrate\<close>, \<open>migrate <target>\<close> and \<open>downgrade\<close> take a database from any position of it to the
  position they name. Whatever the files and the server do, a run without an error leaves nothing pending, a failing
  run leaves what the earlier files did, and the ledger stays well formed. Further groups cover planning, merging,
  walking the graph, renames, capturing the inventory and names. A compiled statement is one closed statement whose placeholders take
  its binds in order and whose text no value can change; text lookups match literally, \<open>Q\<close> means its connectives, lookups fail only
  where the dialect lacks the operator, and an upsert touches only rows of its own key. The caches stay within their budgets and answer as a map with
  expiries; reservations, admissions and locks are bounded under every interleaving; keys of different owners never meet, and a
  purge takes one tenant's keys.

  \<^bold>\<open>Assumptions.\<close> Snapshots have unique names and references that resolve (\<open>wf_names\<close>, \<open>refs_ok\<close>), which captured
  inventories have. Histories own no \<open>rustango_\<close> table, whose chain is separate. File numbers fit 32 bits;
  where files are ordered by name there are fewer than 10,000 of them, since names are padded to four digits. Counters rely
  on a cache that neither fails nor evicts them; the file cache relies on SHA-256 telling the keys in use apart (\<open>digest_ok\<close>).

  \<^bold>\<open>Bounds and termination.\<close> No definition has fuel: the walks over the file graph end because they visit a
  name once, also on cyclic directories, and the search for copies stops after as many files as the chain has. Holders of a slot
  are bounded until the deadline of the shared key, the earliest time at which the key may expire under them.

  \<^bold>\<open>Not modelled.\<close> Rendering migration operations to DDL, SQLite rebuild statements and MySQL's partial transactions; SELECT,
  joins, aggregates, SQL functions, subqueries and JSON paths in queries, bulk UPDATE, and the execution of statements; connections;
  JSON and directory access of migrations; the command line; chains of several ledgers; the Redis and database caches; failing calls of the
  file system; and the rest of the framework (views, forms, admin, accounts, jobs, codecs), which is glue over runtimes and
  third-party crates or self-contained helpers.
\<close>

section \<open>Properties across components\<close>

text \<open>
  C3. Running the operations that \<open>detect_changes\<close> computes, in their order, on a database that holds the
  previous snapshot succeeds, no operation meeting a missing object or a taken name, and leaves the database
  holding exactly the current snapshot, whenever \<open>detect_unsupported_field_changes\<close> reports nothing.
\<close>

theorem diff_reaches_current:
  assumes "wf_names prev" "wf_names current" "refs_ok prev" "refs_ok current"
    and "detect_unsupported_field_changes prev current = []"
  shows "run_changes current (detect_changes prev current) (catalog_of prev) = Some (catalog_of current)"
  using assms by (rule detect_changes_run)

text \<open>
  C4. Rolling a computed migration back never fails, and its operations, in the order \<open>invert_migration\<close>
  gives them, turn a database that holds the migration's snapshot into one that holds the previous snapshot.
\<close>

theorem rollback_restores_previous:
  assumes "wf_names prev" "wf_names (mg_snapshot mig)" "refs_ok prev" "refs_ok (mg_snapshot mig)"
    and "detect_unsupported_field_changes prev (mg_snapshot mig) = []"
    and "mg_forward mig = map Schema (detect_changes prev (mg_snapshot mig))"
  shows "\<exists>ops. invert_migration mig prev = Inr (map Schema ops) \<and>
     run_changes prev ops (catalog_of (mg_snapshot mig)) = Some (catalog_of prev)"
  using invert_migration_computed [OF assms(1,3,2,6)] rollback_ops_run [OF assms(1-5)] by blast

text \<open>
  A project whose files all came from \<open>makemigrations\<close> can be set up from nothing: applying the files in
  order to an empty database succeeds and leaves it holding the snapshot of the last file.
\<close>

theorem history_reaches_last_snapshot:
  assumes "history inventory chain"
  shows "replay chain (catalog_of empty_snapshot) = Some (catalog_of (chain_snapshot chain))"
  using assms by (rule history_replay)

text \<open>
  The last file of such a project can always be rolled back: \<open>invert_migration\<close> against the snapshot of
  the file before it succeeds and restores the catalog that applying the earlier files had reached.
\<close>

theorem history_rolls_back:
  assumes "history inventory (chain @ [mig])"
  shows "\<exists>ops. invert_migration mig (chain_snapshot chain) = Inr (map Schema ops) \<and>
     Option.bind (replay (chain @ [mig]) (catalog_of empty_snapshot)) (run_changes (chain_snapshot chain) ops) =
       replay chain (catalog_of empty_snapshot)"
  using history_replay [OF assms] history_replay [OF history_step(1) [OF assms]] history_rollback [OF assms]
  by (auto simp: chain_snapshot_def [of "chain @ [mig]"])



text \<open>
  An empty diff means there is nothing to do: when \<open>detect_changes\<close> and
  \<open>detect_unsupported_field_changes\<close> both report nothing, the two snapshots describe the same database.
\<close>

theorem empty_diff_same_database:
  assumes "wf_names prev" "wf_names current" "refs_ok prev" "refs_ok current"
    and "detect_unsupported_field_changes prev current = []" "detect_changes prev current = []"
  shows "catalog_of prev = catalog_of current"
  by (rule engine.empty_diff) (use assms in \<open>simp_all add: snap_ok_def supported_change_def\<close>)

text \<open>
  Two equal snapshots (as \<open>PartialEq\<close> compares them, a junction's two ends in either order) give no
  operation and no unsupported change.
\<close>

theorem equal_snapshots_no_changes:
  assumes "wf_names prev" "snapshot_eq prev current"
  shows "detect_changes prev current = [] \<and> detect_unsupported_field_changes prev current = []"
  using detect_changes_same [OF assms] by simp

text \<open>
  C33. \<open>makemigrations --merge\<close> joins the branch: every end of the branch it merged is no end any more, the
  merge file is the one new end, and the other ends stay.
\<close>

theorem merge_joins_branch:
  assumes "make_merge_migration now prior = Inr (Some mig)" "distinct (map mg_name prior)"
    and "\<forall>m\<in>set prior. mg_name mig \<noteq> mg_name m \<and> mg_name mig \<notin> set (refers m)"
  shows "leaves (prior @ [mig]) = filter (\<lambda>l. l \<notin> set (hd (branched_leaves prior))) (leaves prior) @ [mig]"
  using assms by (rule merge_ends)

text \<open>
  The merge file's name is new: its number is above that of every file in the directory, unless the
  highest number is already the largest 32-bit one.
\<close>

theorem merge_file_name_new:
  assumes "make_merge_migration now prior = Inr (Some mig)" "max_index prior \<noteq> Some (- 1)"
  shows "mg_name mig \<notin> mg_name ` set prior"
  using make_merge_Some [OF assms(1)] merge_name_fresh [OF assms(2)] by fastforce

text \<open>
  A file's number can be read back from its name: \<open>extract_index\<close> of a planned name gives the number it
  was written with, also past 9999 and for a suffix that starts with a digit.
\<close>

theorem file_number_roundtrip: "extract_index (file_name index slug) = Some index"
  by (rule extract_index_file_name)

text \<open>
  C34. Dropped tables go children first: when the foreign keys among them have no cycle, no table is dropped
  before another dropped table that refers to it; and exactly the tables that are gone are dropped, each once.
\<close>

theorem dropped_tables_children_first:
  assumes "distinct (map ts_name (sn_tables prev))"
    and "acyclic (set (fk_edges (filter (\<lambda>t. snap_table current (ts_name t) = None) (sn_tables prev))))"
  shows "sorted_wrt (\<lambda>earlier later. (later, earlier) \<notin>
       set (fk_edges (filter (\<lambda>t. snap_table current (ts_name t) = None) (sn_tables prev))))
       (dropped_tables_child_first prev current) \<and>
     distinct (dropped_tables_child_first prev current) \<and>
     set (dropped_tables_child_first prev current) = {t. snap_table prev t \<noteq> None \<and> snap_table current t = None}"
proof -
  let ?left = "filter (\<lambda>t. snap_table current (ts_name t) = None) (sn_tables prev)"
  have "distinct (map ts_name ?left)" using assms(1) by (rule distinct_map_filter)
  then show ?thesis
    using drop_order_child_first [OF assms(2), of ?left] distinct_dropped_tables [OF assms(1)] set_dropped_tables [of _ prev current]
    by (auto simp: dropped_tables_child_first_def)
qed

text \<open>
  Inverting keeps every operation: a successful inversion of a list of operations has as many operations
  as the list, whatever renames, data operations and callbacks it mixes.
\<close>

theorem invert_keeps_count:
  assumes "invert forward prev = Inr ops"
  shows "length ops = length forward"
  using invert_from_length [of forward prev "length forward" "[]" "[]" ops] assms by (simp add: invert_def)

text \<open>
  C36. A migration with a data operation that is not reversible or lacks its reverse SQL, or with a callback
  without a reverse, cannot be inverted, wherever in the list it stands.
\<close>

theorem invert_refuses_one_way_operations:
  assumes "op \<in> set forward"
    and "case op of Data d \<Rightarrow> \<not> do_reversible d \<or> do_reverse_sql d = None
         | Callback c \<Rightarrow> cb_reverse_name c = None | Schema _ \<Rightarrow> False"
  shows "\<exists>e. invert forward prev = Inl e"
proof -
  obtain j where j: "j < length forward" "forward ! j = op" using assms(1) by (auto simp: in_set_conv_nth)
  have "\<exists>e. invert_one op prev names = Inl e" for names
    using assms(2) by (cases op) (auto split: option.split)
  moreover have "op \<noteq> Schema c" for c using assms(2) by auto
  ultimately show ?thesis
    unfolding invert_def using j by (intro invert_from_fails [of j]) auto
qed

text \<open>
  C37. \<open>reachable\<close> is the ancestor relation: it holds exactly the names that can be reached through \<open>prev\<close> and
  merged branches, each once, and it ends also when the files name each other in a cycle.
\<close>

theorem reachable_is_closure:
  "set (reachable chain m) = {n. (mg_name m, n) \<in> (parent_rel chain)\<^sup>*} \<and> distinct (reachable chain m)"
  using set_reachable walk_distinct by (auto simp: reachable_def)

text \<open>
  C38. \<open>ancestry\<close> is the path of \<open>prev\<close> links from a file back to its root, each file once; it stops at a file
  without a parent in the chain or where a cycle would close.
\<close>

theorem ancestry_is_path:
  "hd (ancestry chain m) = m \<and> distinct (map mg_name (ancestry chain m)) \<and>
   successively (\<lambda>a b. chain_parent chain a = Some b) (ancestry chain m) \<and>
   (case chain_parent chain (last (ancestry chain m)) of
      None \<Rightarrow> True | Some p \<Rightarrow> mg_name p \<in> mg_name ` set (ancestry chain m))"
  unfolding ancestry_def using ancestry_from_path [of chain "[]" m] by auto




text \<open>
  C40. A run without an error leaves nothing pending, whatever files, squashes, branches and data operations the
  directory holds and whatever the server does, when a squash also replaces what the squashes it replaces do: every
  file is recorded or replaced by a recorded squash, and the next run changes nothing.
\<close>

theorem migrate_leaves_nothing_pending:
  assumes "flat_squashes all" "apply_chain sv all fake_initial db = (ev, db', Inr ms)"
  shows "pending_migrations all (applied_set_pool db') = [] \<and>
     apply_chain sv all fake_initial db' = ([Planned 0], db', Inr [])"
  using apply_chain_settles [OF assms] apply_chain_idle by blast

text \<open>
  A run that fails on a file leaves the database exactly as the pending files before it left it, when the files
  are atomic, and its last two events are the start and the failure of that file.
\<close>

theorem failed_run_keeps_earlier_files:
  assumes "apply_chain sv all fake_initial db = (ev, db', Inl e)" "list_all mg_atomic all"
  shows "\<exists>before mig rest ev1.
     pending_migrations all (applied_set_pool db) = before @ mig # rest \<and>
     apply_pending sv all (applied_set_pool db) fake_initial (length (before @ mig # rest)) 1 (applied_set_pool db) before db =
       (ev1, db', Inr before) \<and>
     ev = Planned (length (before @ mig # rest)) # ev1 @
       [Started (mg_name mig) (Suc (length before)) (length (before @ mig # rest)),
        Failed (mg_name mig) (Suc (length before)) (length (before @ mig # rest)) e]"
proof -
  let ?A = "applied_set_pool db" and ?P = "pending_migrations all (applied_set_pool db)"
  obtain ev0 where r: "apply_pending sv all ?A fake_initial (length ?P) 1 ?A ?P db = (ev0, db', Inl e)" "ev = Planned (length ?P) # ev0"
    using assms(1) by (auto simp: apply_chain_def Let_def split: prod.splits)
  have "list_all mg_atomic ?P" using assms(2) pending_subset [of all ?A] by (auto simp: list_all_iff)
  from apply_pending_Inl [OF r(1) this] obtain before mig rest ev1 where "?P = before @ mig # rest"
      "apply_pending sv all ?A fake_initial (length ?P) 1 ?A before db = (ev1, db', Inr before)"
      "ev0 = ev1 @ [Started (mg_name mig) (1 + length before) (length ?P), Failed (mg_name mig) (1 + length before) (length ?P) e]"
    by blast
  with r(2) show ?thesis by (intro exI [of _ before] exI [of _ mig] exI [of _ rest] exI [of _ ev1]) simp
qed

text \<open>
  A run without an error applies exactly the pending files and reports each one's start and end once, in order
  and numbered from 1.
\<close>

theorem migrate_reports_each_file:
  assumes "apply_chain sv all fake_initial db = (ev, db', Inr ms)"
  shows "ms = pending_migrations all (applied_set_pool db) \<and>
     (\<exists>outs. length outs = length ms \<and> ev = Planned (length ms) # file_events (length ms) 1 (zip ms outs))"
proof -
  let ?A = "applied_set_pool db" and ?P = "pending_migrations all (applied_set_pool db)"
  obtain ev0 where r: "apply_pending sv all ?A fake_initial (length ?P) 1 ?A ?P db = (ev0, db', Inr ms)" "ev = Planned (length ?P) # ev0"
    using assms by (auto simp: apply_chain_def Let_def split: prod.splits)
  with apply_pending_Inr [OF r(1)] show ?thesis by auto
qed

text \<open>
  When \<open>migrate <target>\<close> succeeds in a directory without squashes, whatever its files do, the ledger then names
  exactly the files up to the target, and still the names it held of files that are not in the directory.
\<close>

theorem migrate_to_records_up_to_target:
  assumes "list_all (\<lambda>m. mg_replaces m = []) all" "migrate_to_locked sv all target db = (db', Inr mv)" "target \<noteq> ''zero''"
  shows "applied_set_pool db' =
     {n \<in> applied_set_pool db. n \<notin> mg_name ` set all} \<union> {n \<in> mg_name ` set all. n \<le> target}"
  using assms by (rule migrate_to_ledger)

text \<open>
  Every run, also one that fails, keeps the names in the ledger unique and records no name but those of the
  files in the directory; rolling back records none at all.
\<close>

theorem runs_keep_ledger_names_unique:
  assumes "ledger_ok db" "outcome_db = fst (snd (apply_chain sv all fake_initial db)) \<or>
     outcome_db = fst (migrate_to_locked sv all target db) \<or> outcome_db = fst (unapply_locked_pool sv all name db) \<or>
     outcome_db = fst (rollback_pool sv dirs what db)"
  shows "ledger_ok outcome_db \<and> applied_set_pool outcome_db \<subseteq> applied_set_pool db \<union> mg_name ` set all"
proof -
  let ?names = "applied_set_pool db \<union> mg_name ` set all"
  have all: "list_all (\<lambda>m. mg_name m \<in> ?names) all" "list_all (\<lambda>m. True) all" by (auto simp: list_all_iff)
  have names: "applied_set_pool db \<subseteq> ?names" by simp
  show ?thesis
    using assms(2) unique_names.apply_chain_keeps [OF all(2) assms(1)] known_names.apply_chain_keeps [OF all(1) names]
      unique_names.keeps_result [OF unique_names.keeps_migrate_to [OF all(2)] assms(1)]
      known_names.keeps_result [OF known_names.keeps_migrate_to [OF all(1)] names]
      unique_names.keeps_result [OF unique_names.keeps_unapply assms(1)] known_names.keeps_result [OF known_names.keeps_unapply names]
      unique_names.keeps_result [OF unique_names.keeps_rollback assms(1)] known_names.keeps_result [OF known_names.keeps_rollback names]
    by metis
qed

text \<open>
  Reconciling never creates a table twice: whatever it decides to run of a squash, or of a purely
  table-creating file under \<open>fake_initial\<close>, creates no table the database already has.
\<close>

theorem reconcile_never_recreates_a_table:
  assumes "reconcile cat mig applied fake_initial = Inr action" "action \<noteq> Fake"
    and "mg_replaces mig \<noteq> [] \<or> fake_initial \<and> create_only_tables mig \<noteq> None"
  shows "list_all (\<lambda>t. \<not> try_table_exists_here cat t) (create_table_targets (fst (effective_file action mig)))"
  using reconcile_fresh [OF assms] by (auto simp: list_all_iff)

section \<open>Witnesses\<close>

theorem diff_reaches_current_witness:
  "wf_names blog_v1 \<and> wf_names blog_v2 \<and> refs_ok blog_v1 \<and> refs_ok blog_v2 \<and>
   detect_unsupported_field_changes blog_v1 blog_v2 = [] \<and>
   run_changes blog_v2 (detect_changes blog_v1 blog_v2) (catalog_of blog_v1) = Some (catalog_of blog_v2)"
proof -
  have 1: "wf_names blog_v1" by code_simp
  have 2: "wf_names blog_v2" by code_simp
  have 3: "refs_ok blog_v1" by code_simp
  have 4: "refs_ok blog_v2" by code_simp
  have 5: "detect_unsupported_field_changes blog_v1 blog_v2 = []" by code_simp
  show ?thesis using 1 2 3 4 5 diff_reaches_current [OF 1 2 3 4 5] by blast
qed

theorem rollback_restores_previous_witness:
  "let mig = sample_migration ''0002_auto'' (Some ''0001_initial'') blog_v2 (map Schema (detect_changes blog_v1 blog_v2))
   in \<exists>ops. invert_migration mig blog_v1 = Inr (map Schema ops) \<and>
        run_changes blog_v1 ops (catalog_of blog_v2) = Some (catalog_of blog_v1)"
proof -
  let ?mig = "sample_migration ''0002_auto'' (Some ''0001_initial'') blog_v2 (map Schema (detect_changes blog_v1 blog_v2))"
  have snap: "mg_snapshot ?mig = blog_v2" "mg_forward ?mig = map Schema (detect_changes blog_v1 (mg_snapshot ?mig))"
    by (simp_all add: sample_migration_def)
  have 1: "wf_names blog_v1" by code_simp
  have 2: "wf_names (mg_snapshot ?mig)" unfolding snap by code_simp
  have 3: "refs_ok blog_v1" by code_simp
  have 4: "refs_ok (mg_snapshot ?mig)" unfolding snap by code_simp
  have 5: "detect_unsupported_field_changes blog_v1 (mg_snapshot ?mig) = []" unfolding snap by code_simp
  show ?thesis using rollback_restores_previous [OF 1 2 3 4 5 snap(2)] unfolding snap Let_def .
qed

text \<open>A project that ran \<open>makemigrations\<close> twice, over the two versions of the blog.\<close>

definition blog_plans :: "(migration \<times> migration) option" where
  "blog_plans =
     (case plan_from [] ''now'' [] blog_v1 None Refuse of
        Inr (Some m1) \<Rightarrow>
          (case plan_from [] ''now'' [m1] blog_v2 None Refuse of Inr (Some m2) \<Rightarrow> Some (m1, m2) | _ \<Rightarrow> None)
      | _ \<Rightarrow> None)"

lemma blog_history:
  "\<exists>m1 m2. plan_from [] ''now'' [] blog_v1 None Refuse = Inr (Some m1) \<and> plan_from [] ''now'' [m1] blog_v2 None Refuse = Inr (Some m2) \<and>
     mg_snapshot m2 = blog_v2 \<and> history [] [m1] \<and> history [] [m1, m2]"
proof -
  have "case blog_plans of None \<Rightarrow> False
      | Some (m1, m2) \<Rightarrow> framework_free (mg_snapshot m1) \<and> snap_ok (mg_snapshot m1) \<and> mg_snapshot m2 = blog_v2"
    by code_simp
  then obtain m1 m2 where m: "plan_from [] ''now'' [] blog_v1 None Refuse = Inr (Some m1)"
      "plan_from [] ''now'' [m1] blog_v2 None Refuse = Inr (Some m2)" "framework_free (mg_snapshot m1)" "snap_ok (mg_snapshot m1)"
      "mg_snapshot m2 = blog_v2"
    by (auto simp: blog_plans_def split: sum.splits option.splits)
  have free: "framework_free blog_v1" "framework_free blog_v2" "snap_ok blog_v2" by code_simp+
  have h1: "history [] ([] @ [m1])"
    using history.makemigrations [OF history.start m(1) free(1) m(3,4)] by simp
  moreover have "history [] (([] @ [m1]) @ [m2])"
    using history.makemigrations [OF h1 _ free(2), of "''now''" None Refuse m2] m free by simp
  ultimately show ?thesis using m by auto
qed

theorem history_reaches_last_snapshot_witness:
  "\<exists>m1 m2. history [] [m1, m2] \<and> replay [m1, m2] (catalog_of empty_snapshot) = Some (catalog_of blog_v2)"
proof -
  obtain m1 m2 where m: "history [] [m1, m2]" "mg_snapshot m2 = blog_v2" using blog_history by auto
  show ?thesis using history_reaches_last_snapshot [OF m(1)] m by (auto simp: chain_snapshot_def)
qed

theorem history_rolls_back_witness:
  "\<exists>m1 m2 ops. history [] [m1, m2] \<and> invert_migration m2 (mg_snapshot m1) = Inr (map Schema ops) \<and>
     Option.bind (replay [m1, m2] (catalog_of empty_snapshot)) (run_changes (mg_snapshot m1) ops) =
       replay [m1] (catalog_of empty_snapshot)"
proof -
  obtain m1 m2 where m: "history [] ([m1] @ [m2])" using blog_history by auto
  show ?thesis using history_rolls_back [OF m] m by (auto simp: chain_snapshot_def)
qed



definition turned_around :: schema_snapshot where
  "turned_around = blog_v1\<lparr>sn_m2m_tables := [\<lparr>m2_through = ''post_tags'', m2_src_table = ''tag'', m2_src_col = ''tag_id'',
     m2_dst_table = ''post'', m2_dst_col = ''post_id''\<rparr>]\<rparr>"

theorem empty_diff_same_database_witness:
  "blog_v1 \<noteq> turned_around \<and> catalog_of blog_v1 = catalog_of turned_around"
proof -
  have 1: "wf_names blog_v1" by code_simp
  have 2: "wf_names turned_around" by code_simp
  have 3: "refs_ok blog_v1" by code_simp
  have 4: "refs_ok turned_around" by code_simp
  have 5: "detect_unsupported_field_changes blog_v1 turned_around = []" by code_simp
  have 6: "detect_changes blog_v1 turned_around = []" by code_simp
  have "blog_v1 \<noteq> turned_around" by (simp add: turned_around_def blog_defs)
  then show ?thesis using empty_diff_same_database [OF 1 2 3 4 5 6] by simp
qed

theorem equal_snapshots_no_changes_witness:
  "snapshot_eq blog_v1 turned_around \<and>
   detect_changes blog_v1 turned_around = [] \<and> detect_unsupported_field_changes blog_v1 turned_around = []"
proof -
  have 1: "wf_names blog_v1" by code_simp
  have 2: "snapshot_eq blog_v1 turned_around" by code_simp
  show ?thesis using 2 equal_snapshots_no_changes [OF 1 2] by simp
qed

lemma branched_merge:
  "\<exists>mig. make_merge_migration ''now'' branched = Inr (Some mig) \<and>
     (\<forall>m\<in>set branched. mg_name mig \<noteq> mg_name m \<and> mg_name mig \<notin> set (refers m)) \<and>
     filter (\<lambda>l. l \<notin> set (hd (branched_leaves branched))) (leaves branched) = []"
proof -
  have "case make_merge_migration ''now'' branched of
      Inr (Some mig) \<Rightarrow> list_all (\<lambda>m. mg_name mig \<noteq> mg_name m \<and> mg_name mig \<notin> set (refers m)) branched \<and>
        filter (\<lambda>l. l \<notin> set (hd (branched_leaves branched))) (leaves branched) = []
    | _ \<Rightarrow> False"
    by code_simp
  then show ?thesis by (auto simp: list_all_iff split: sum.splits option.splits)
qed

theorem merge_joins_branch_witness:
  "\<exists>mig. make_merge_migration ''now'' branched = Inr (Some mig) \<and> leaves (branched @ [mig]) = [mig]"
proof -
  obtain mig where m: "make_merge_migration ''now'' branched = Inr (Some mig)"
      "\<forall>m\<in>set branched. mg_name mig \<noteq> mg_name m \<and> mg_name mig \<notin> set (refers m)"
      "filter (\<lambda>l. l \<notin> set (hd (branched_leaves branched))) (leaves branched) = []"
    using branched_merge by auto
  have d: "distinct (map mg_name branched)" by code_simp
  show ?thesis using m merge_joins_branch [OF m(1) d m(2)] by auto
qed

theorem merge_file_name_new_witness:
  "\<exists>mig. make_merge_migration ''now'' branched = Inr (Some mig) \<and> mg_name mig \<notin> mg_name ` set branched"
proof -
  obtain mig where m: "make_merge_migration ''now'' branched = Inr (Some mig)" using branched_merge by auto
  have "max_index branched \<noteq> Some (- 1)" by code_simp
  from merge_file_name_new [OF m this] m show ?thesis by blast
qed

definition old_shop :: schema_snapshot where
  "old_shop = (one_table [''author''])\<lparr>sn_tables := [plain_table ''author'' [id_field], plain_table ''post'' [author_fk, id_field]]\<rparr>"

theorem dropped_tables_children_first_witness:
  "dropped_tables_child_first old_shop (one_table []) = [''post'', ''author''] \<and>
   distinct (dropped_tables_child_first old_shop (one_table []))"
proof -
  let ?left = "filter (\<lambda>t. snap_table (one_table []) (ts_name t) = None) (sn_tables old_shop)"
  have 1: "distinct (map ts_name (sn_tables old_shop))" by code_simp
  have "fk_edges ?left = [(''post'', ''author'')]" by code_simp
  then have 2: "acyclic (set (fk_edges ?left))" by (simp add: acyclic_insert wf_acyclic)
  have "dropped_tables_child_first old_shop (one_table []) = [''post'', ''author'']" by code_simp
  then show ?thesis using dropped_tables_children_first [OF 1 2] by simp
qed

theorem invert_keeps_count_witness:
  "\<exists>ops. invert [Schema (RenameTable ''post'' ''article''), Data \<lparr>do_sql = ''UPDATE a'', do_reverse_sql = Some ''UPDATE b'', do_reversible = True\<rparr>]
      blog_v1 = Inr ops \<and> length ops = 2"
proof -
  have "case invert [Schema (RenameTable ''post'' ''article''), Data \<lparr>do_sql = ''UPDATE a'', do_reverse_sql = Some ''UPDATE b'', do_reversible = True\<rparr>]
      blog_v1 of Inr _ \<Rightarrow> True | Inl _ \<Rightarrow> False" by code_simp
  then show ?thesis using invert_keeps_count by (fastforce split: sum.splits)
qed

theorem invert_refuses_one_way_operations_witness:
  "\<exists>e. invert [Schema (CreateTable ''log''), Callback \<lparr>cb_name = ''fill'', cb_reverse_name = None\<rparr>] blog_v1 = Inl e"
  by (rule invert_refuses_one_way_operations [of "Callback \<lparr>cb_name = ''fill'', cb_reverse_name = None\<rparr>"]) simp_all






definition squashed_notes :: "migration list" where
  "squashed_notes =
     [sample_migration ''0001_initial'' None (one_table [''note'']) [Schema (CreateTable ''note'')],
      (sample_migration ''0002_squashed'' None (one_table [''note'']) [Schema (CreateTable ''note'')])\<lparr>mg_replaces := [''0001_initial'']\<rparr>]"

lemma squashed_run:
  "\<exists>ev db'. apply_chain quiet_server squashed_notes False fresh_database = (ev, db', Inr squashed_notes) \<and>
     map fst (db_ledger db') = [''0002_squashed'']"
proof -
  have "case apply_chain quiet_server squashed_notes False fresh_database of
      (ev, db', r) \<Rightarrow> r = Inr squashed_notes \<and> map fst (db_ledger db') = [''0002_squashed'']"
    by code_simp
  then show ?thesis by auto
qed

theorem migrate_leaves_nothing_pending_witness:
  "\<exists>ev db'. apply_chain quiet_server squashed_notes False fresh_database = (ev, db', Inr squashed_notes) \<and>
     pending_migrations squashed_notes (applied_set_pool db') = []"
proof -
  have flat: "flat_squashes squashed_notes" by code_simp
  obtain ev db' where r: "apply_chain quiet_server squashed_notes False fresh_database = (ev, db', Inr squashed_notes)"
    using squashed_run by auto
  show ?thesis using r migrate_leaves_nothing_pending [OF flat r] by blast
qed

theorem failed_run_keeps_earlier_files_witness:
  "\<exists>ev db' before mig rest. apply_chain quiet_server column_squash False fresh_database = (ev, db', Inl DriverError) \<and>
     pending_migrations column_squash (applied_set_pool fresh_database) = before @ mig # rest"
proof -
  have atomic: "list_all mg_atomic column_squash" by code_simp
  have "snd (snd (apply_chain quiet_server column_squash False fresh_database)) = Inl DriverError" by code_simp
  then obtain ev db' where r: "apply_chain quiet_server column_squash False fresh_database = (ev, db', Inl DriverError)"
    by (metis prod.collapse)
  show ?thesis using r failed_run_keeps_earlier_files [OF r atomic] by blast
qed

theorem migrate_reports_each_file_witness:
  "\<exists>ev db' outs. apply_chain quiet_server squashed_notes False fresh_database = (ev, db', Inr squashed_notes) \<and>
     ev = Planned (length squashed_notes) # file_events (length squashed_notes) 1 (zip squashed_notes outs)"
proof -
  obtain ev db' where r: "apply_chain quiet_server squashed_notes False fresh_database = (ev, db', Inr squashed_notes)"
    using squashed_run by auto
  show ?thesis using r migrate_reports_each_file [OF r] by blast
qed

theorem migrate_to_records_up_to_target_witness:
  "\<exists>db' mv. migrate_to_locked quiet_server branched ''0002_create_b'' fresh_database = (db', Inr mv) \<and>
     applied_set_pool db' = {n \<in> mg_name ` set branched. n \<le> ''0002_create_b''}"
proof -
  have plain: "list_all (\<lambda>m. mg_replaces m = []) branched" by code_simp
  have "case snd (migrate_to_locked quiet_server branched ''0002_create_b'' fresh_database) of Inl _ \<Rightarrow> False | Inr _ \<Rightarrow> True"
    by code_simp
  then obtain db' mv where r: "migrate_to_locked quiet_server branched ''0002_create_b'' fresh_database = (db', Inr mv)"
    by (cases "migrate_to_locked quiet_server branched ''0002_create_b'' fresh_database") (auto split: sum.splits)
  show ?thesis using r migrate_to_records_up_to_target [OF plain r] by (auto simp: fresh_database_def applied_set_pool_def)
qed

theorem runs_keep_ledger_names_unique_witness:
  "ledger_ok (fst (snd (apply_chain quiet_server squashed_notes False fresh_database)))"
proof -
  have ok: "ledger_ok fresh_database" by (simp add: ledger_ok_def fresh_database_def)
  show ?thesis
    using runs_keep_ledger_names_unique
        [OF ok, of "fst (snd (apply_chain quiet_server squashed_notes False fresh_database))" quiet_server squashed_notes False]
    by blast
qed

theorem reconcile_never_recreates_a_table_witness:
  "reconcile (catalog_of (one_table [''note''])) (without_tables (squashed_notes ! 1) []) {} False = Inr Fake \<and>
   list_all (\<lambda>t. \<not> try_table_exists_here (catalog_of empty_snapshot) t) (create_table_targets (fst (effective_file RunAll (squashed_notes ! 1))))"
proof -
  have 1: "reconcile (catalog_of empty_snapshot) (squashed_notes ! 1) {} False = Inr RunAll" by code_simp
  have 2: "mg_replaces (squashed_notes ! 1) \<noteq> [] \<or> False \<and> create_only_tables (squashed_notes ! 1) \<noteq> None" by code_simp
  have 3: "reconcile (catalog_of (one_table [''note''])) (without_tables (squashed_notes ! 1) []) {} False = Inr Fake" by code_simp
  show ?thesis using 3 reconcile_never_recreates_a_table [OF 1 _ 2] by simp
qed

end
